(* ===== verification/Prelude.thy ===== *)
theory Prelude
  imports Main "HOL-Library.Word"
begin

text \<open>
  Shared vocabulary of the development: machine integers at their width, results of
  fallible Rust functions, byte order conversions, and the generic lemmas on lists, words
  and options that the components use.

  A Rust \<^verbatim>\<open>Result<T, E>\<close> is a value of \<open>'e + 'a\<close>: \<open>Inl\<close> is the error, \<open>Inr\<close> the value.
  The \<^verbatim>\<open>?\<close> operator is \<open>and_then\<close>, \<^verbatim>\<open>ensure!\<close> is \<open>ensure\<close>.
\<close>

unbundle bit_operations_syntax

named_theorems prelude_simps \<open>unfolding of the result combinators\<close>

section \<open>Machine integers\<close>

type_synonym u8 = "8 word"
type_synonym u16 = "16 word"
type_synonym u32 = "32 word"
type_synonym u64 = "64 word"
type_synonym bytes = "u8 list"

definition saturating_sub :: "'w::len word \<Rightarrow> 'w word \<Rightarrow> 'w word" where
  "saturating_sub a b = (if b \<le> a then a - b else 0)"

definition saturating_add :: "'w::len word \<Rightarrow> 'w word \<Rightarrow> 'w word" where
  "saturating_add a b = (if unat a + unat b < 2 ^ LENGTH('w) then a + b else - 1)"

definition saturating_mul :: "'w::len word \<Rightarrow> 'w word \<Rightarrow> 'w word" where
  "saturating_mul a b = (if unat a * unat b < 2 ^ LENGTH('w) then a * b else - 1)"

definition checked_add :: "'w::len word \<Rightarrow> 'w word \<Rightarrow> 'w word option" where
  "checked_add a b = (if unat a + unat b < 2 ^ LENGTH('w) then Some (a + b) else None)"

definition checked_sub :: "'w::len word \<Rightarrow> 'w word \<Rightarrow> 'w word option" where
  "checked_sub a b = (if b \<le> a then Some (a - b) else None)"

definition rotate_left32 :: "nat \<Rightarrow> u32 \<Rightarrow> u32" where
  "rotate_left32 n w = push_bit n w OR drop_bit (32 - n) w"

text \<open>\<^verbatim>\<open>to_le_bytes\<close> and \<^verbatim>\<open>from_le_bytes\<close> for a word of \<open>n\<close> bytes.\<close>

definition to_le_bytes :: "nat \<Rightarrow> 'w::len word \<Rightarrow> bytes" where
  "to_le_bytes n w = map (\<lambda>i. ucast (drop_bit (8 * i) w)) [0..<n]"

primrec from_le_bytes :: "bytes \<Rightarrow> 'w::len word" where
  "from_le_bytes [] = 0"
| "from_le_bytes (b # bs) = ucast b OR push_bit 8 (from_le_bytes bs)"

section \<open>Results\<close>

primrec and_then :: "'e + 'a \<Rightarrow> ('a \<Rightarrow> 'e + 'b) \<Rightarrow> 'e + 'b" where
  "and_then (Inl e) f = Inl e"
| "and_then (Inr x) f = f x"

definition ensure :: "bool \<Rightarrow> 'e \<Rightarrow> 'e + unit" where
  "ensure c e = (if c then Inr () else Inl e)"

definition ok_or :: "'a option \<Rightarrow> 'e \<Rightarrow> 'e + 'a" where
  "ok_or x e = (case x of None \<Rightarrow> Inl e | Some v \<Rightarrow> Inr v)"

text \<open>\<^verbatim>\<open>collect::<Result<Vec<_>>>\<close>: the first error wins.\<close>

primrec collect_results :: "('e + 'a) list \<Rightarrow> 'e + 'a list" where
  "collect_results [] = Inr []"
| "collect_results (r # rs) =
     and_then r (\<lambda>x. and_then (collect_results rs) (\<lambda>xs. Inr (x # xs)))"

section \<open>Lemmas on results\<close>

lemma and_then_Inr [simp]: "and_then r f = Inr y \<longleftrightarrow> (\<exists>x. r = Inr x \<and> f x = Inr y)"
  by (cases r) auto

lemma and_then_Inl: "and_then r f = Inl e \<longleftrightarrow> r = Inl e \<or> (\<exists>x. r = Inr x \<and> f x = Inl e)"
  by (cases r) auto

lemma ensure_Inr [simp]: "ensure c e = Inr u \<longleftrightarrow> c"
  by (simp add: ensure_def)

lemma ensure_Inl [simp]: "ensure c e = Inl e' \<longleftrightarrow> \<not> c \<and> e' = e"
  by (auto simp: ensure_def)

lemma ensure_True [simp]: "ensure True e = Inr ()"
  by (simp add: ensure_def)

lemma ensure_False [simp]: "ensure False e = Inl e"
  by (simp add: ensure_def)

lemma ok_or_simps [simp]: "ok_or None e = Inl e" "ok_or (Some v) e = Inr v"
  by (simp_all add: ok_or_def)

lemma ok_or_Inr [simp]: "ok_or x e = Inr v \<longleftrightarrow> x = Some v"
  by (cases x) auto

lemma collect_results_Inr:
  "collect_results rs = Inr xs \<longleftrightarrow> rs = map Inr xs"
  by (induction rs arbitrary: xs) (auto simp: Cons_eq_map_conv)

section \<open>Lemmas on words\<close>

lemma unat_all_ones: "unat (- 1 :: 'w::len word) = 2 ^ LENGTH('w) - 1"
  by (simp add: unsigned_minus_1_eq_mask mask_eq_exp_minus_1)

lemma unat_saturating_sub: "unat (saturating_sub a b) = unat a - unat b"
proof (cases "b \<le> a")
  case True
  then show ?thesis by (simp add: saturating_sub_def unat_sub)
next
  case False
  then have "unat a < unat b" by (simp add: word_le_nat_alt)
  with False show ?thesis by (simp add: saturating_sub_def)
qed

lemma unat_saturating_add:
  fixes a b :: "'w::len word"
  shows "unat (saturating_add a b) = min (unat a + unat b) (2 ^ LENGTH('w) - 1)"
  by (auto simp: saturating_add_def unat_word_ariths unat_all_ones)

lemma unat_saturating_mul:
  fixes a b :: "'w::len word"
  shows "unat (saturating_mul a b) = min (unat a * unat b) (2 ^ LENGTH('w) - 1)"
  by (auto simp: saturating_mul_def unat_word_ariths unat_all_ones)

lemma checked_add_Some:
  "checked_add a b = Some c \<Longrightarrow> unat c = unat a + unat b"
  by (auto simp: checked_add_def unat_word_ariths split: if_splits)

lemma xor_cancel_right [simp]: "(a XOR b) XOR b = (a :: 'w::len word)"
  by (simp add: xor.assoc)

section \<open>Byte order\<close>

lemma length_to_le_bytes [simp]: "length (to_le_bytes n w) = n"
  by (simp add: to_le_bytes_def)

lemma bit_from_le_bytes:
  "bit (from_le_bytes bs :: 'w::len word) i \<longleftrightarrow>
     i < LENGTH('w) \<and> i < 8 * length bs \<and> bit (bs ! (i div 8)) (i mod 8)"
proof (induction bs arbitrary: i)
  case Nil
  then show ?case by simp
next
  case (Cons b bs)
  show ?case
  proof (cases "i < 8")
    case True
    then show ?thesis by (auto simp: bit_simps)
  next
    case False
    then have "i div 8 = Suc ((i - 8) div 8)" and "i mod 8 = (i - 8) mod 8"
      by (simp_all add: div_if mod_if)
    moreover have "\<not> bit b i"
      using False by (auto dest: bit_imp_le_length)
    ultimately show ?thesis
      using False Cons.IH[of "i - 8"] by (auto simp: bit_simps)
  qed
qed

lemma from_to_le_bytes:
  fixes w :: "'w::len word"
  assumes "LENGTH('w) = 8 * n"
  shows "from_le_bytes (to_le_bytes n w) = w"
proof (rule bit_word_eqI)
  fix i
  assume i: "i < LENGTH('w)"
  then have "i div 8 < n" using assms by (simp add: less_mult_imp_div_less mult.commute)
  moreover have "8 * (i div 8) + i mod 8 = i" by simp
  ultimately show "bit (from_le_bytes (to_le_bytes n w) :: 'w word) i = bit w i"
    using i assms
    by (simp add: bit_from_le_bytes to_le_bytes_def bit_simps)
qed

lemma from_to_le_bytes_u64 [simp]: "from_le_bytes (to_le_bytes 8 w) = (w :: u64)"
  by (rule from_to_le_bytes) simp

lemma from_to_le_bytes_u16 [simp]: "from_le_bytes (to_le_bytes 2 w) = (w :: u16)"
  by (rule from_to_le_bytes) simp

lemma from_to_le_bytes_u32 [simp]: "from_le_bytes (to_le_bytes 4 w) = (w :: u32)"
  by (rule from_to_le_bytes) simp

section \<open>Lemmas on lists\<close>

lemma take_length_append [simp]: "take (length xs) (xs @ ys) = xs"
  by simp

lemma find_None_filter: "find P xs = None \<longleftrightarrow> filter P xs = []"
  by (induction xs) auto

lemma find_append:
  "find P (xs @ ys) = (case find P xs of None \<Rightarrow> find P ys | Some x \<Rightarrow> Some x)"
  by (induction xs) auto

text \<open>\<^verbatim>\<open>Iterator::find_map\<close>.\<close>

primrec find_map :: "('a \<Rightarrow> 'b option) \<Rightarrow> 'a list \<Rightarrow> 'b option" where
  "find_map f [] = None"
| "find_map f (x # xs) = (case f x of None \<Rightarrow> find_map f xs | Some y \<Rightarrow> Some y)"

lemma find_map_None: "find_map f xs = None \<longleftrightarrow> (\<forall>x\<in>set xs. f x = None)"
  by (induction xs) (auto split: option.splits)

lemma find_map_SomeD: "find_map f xs = Some y \<Longrightarrow> \<exists>x\<in>set xs. f x = Some y"
  by (induction xs) (auto split: option.splits)

text \<open>\<^verbatim>\<open>dst[start..start + src.len()].copy_from_slice(src)\<close>.\<close>

definition copy_slice :: "nat \<Rightarrow> 'a list \<Rightarrow> 'a list \<Rightarrow> 'a list" where
  "copy_slice start src dst = take start dst @ src @ drop (start + length src) dst"

lemma length_copy_slice [simp]:
  "start + length src \<le> length dst \<Longrightarrow> length (copy_slice start src dst) = length dst"
  by (simp add: copy_slice_def)

lemma slice_copy_slice_same:
  "start + length src \<le> length dst \<Longrightarrow> length src = n \<Longrightarrow>
     take n (drop start (copy_slice start src dst)) = src"
  by (simp add: copy_slice_def)

lemma slice_copy_slice_before:
  assumes "a + n \<le> start" and "start + length src \<le> length dst"
  shows "take n (drop a (copy_slice start src dst)) = take n (drop a dst)"
proof -
  have "take n (drop a (take start dst)) = take n (drop a dst)"
    using assms by (simp add: drop_take min_def)
  moreover have "n \<le> length (drop a (take start dst))" and "a \<le> length (take start dst)"
    using assms by simp_all
  ultimately show ?thesis by (simp add: copy_slice_def)
qed

lemma slice_copy_slice_after:
  assumes "start + length src \<le> a" and "start + length src \<le> length dst"
  shows "take n (drop a (copy_slice start src dst)) = take n (drop a dst)"
  using assms by (simp add: copy_slice_def min_def)

end
