(* ===== verification/Relay_Codec.thy ===== *)
theory Relay_Codec
  imports Prelude
begin

text \<open>
  The relay's packet envelope: the packet budget of \<^verbatim>\<open>gofro-relay/src/lib.rs\<close> and the codec of
  \<^verbatim>\<open>gofro-relay/src/codec.rs\<close>. The keystream generator \<open>next_byte\<close> passes its 64-bit state
  explicitly; \<open>PACKET_COUNTER\<close> is the atomic counter, passed and returned by every function
  that draws a seed. Output buffers are byte lists of fixed length: an operation returns the
  buffer it has written.
\<close>

unbundle bit_operations_syntax

section \<open>Packet budget\<close>

definition IPV4_UDP_OVERHEAD :: nat where "IPV4_UDP_OVERHEAD = 20 + 8"
definition WIREGUARD_DATA_OVERHEAD :: nat where "WIREGUARD_DATA_OVERHEAD = 16 + 16"
definition RELAY_HEADER_SIZE :: nat where "RELAY_HEADER_SIZE = 10"
definition RELAY_MAX_PADDING :: nat where "RELAY_MAX_PADDING = 31"
definition MIN_UPLINK_MTU :: nat where "MIN_UPLINK_MTU = 1480"
definition MIN_TUNNEL_MTU :: u16 where "MIN_TUNNEL_MTU = 1280"

definition TUNNEL_MTU :: u16 where
  "TUNNEL_MTU = of_nat (MIN_UPLINK_MTU - IPV4_UDP_OVERHEAD - WIREGUARD_DATA_OVERHEAD
     - RELAY_HEADER_SIZE - RELAY_MAX_PADDING)"

definition TCP_MSS :: u16 where "TCP_MSS = MIN_TUNNEL_MTU - 20 - 20"

lemmas budget_defs = IPV4_UDP_OVERHEAD_def WIREGUARD_DATA_OVERHEAD_def RELAY_HEADER_SIZE_def
  RELAY_MAX_PADDING_def MIN_UPLINK_MTU_def MIN_TUNNEL_MTU_def TUNNEL_MTU_def TCP_MSS_def

section \<open>Keystream and seeds\<close>

definition BUFFER_SIZE :: nat where "BUFFER_SIZE = 4096"
definition SEED_STEP :: u32 where "SEED_STEP = 0x9e3779b9"
definition STREAM_KEY :: u64 where "STREAM_KEY = 0xa0761d6478bd642f"

definition next_byte :: "u64 \<Rightarrow> u8 \<times> u64" where
  "next_byte state =
     (let s1 = state XOR push_bit 13 state;
          s2 = s1 XOR drop_bit 7 s1;
          s3 = s2 XOR push_bit 17 s2
      in (ucast (drop_bit 56 s3), s3))"

text \<open>
  The clock is an input: \<open>None\<close> is a clock before the epoch, for which the code takes the
  default duration of zero. \<open>fetch_add\<close> returns the counter before the addition and wraps.
\<close>

definition packet_seed :: "nat option \<Rightarrow> u32 \<Rightarrow> u64 \<times> u32" where
  "packet_seed nanos counter =
     (let time = of_nat (case nanos of None \<Rightarrow> 0 | Some n \<Rightarrow> n)
      in (ucast counter XOR time, counter + SEED_STEP))"

text \<open>A loop that XORs a source slice with the keystream.\<close>

primrec xor_stream :: "u64 \<Rightarrow> bytes \<Rightarrow> bytes \<times> u64" where
  "xor_stream state [] = ([], state)"
| "xor_stream state (source # rest) =
     (let (k, state') = next_byte state; (out, state'') = xor_stream state' rest
      in ((source XOR k) # out, state''))"

text \<open>The padding loop stores the keystream itself.\<close>

primrec fill_stream :: "u64 \<Rightarrow> nat \<Rightarrow> bytes \<times> u64" where
  "fill_stream state 0 = ([], state)"
| "fill_stream state (Suc n) =
     (let (k, state') = next_byte state; (out, state'') = fill_stream state' n
      in (k # out, state''))"

section \<open>Encoding and decoding\<close>

text \<open>The error kinds of \<^verbatim>\<open>std::io::Error\<close> the relay distinguishes, and the relay's own errors.\<close>

datatype io_kind =
    WouldBlock | TimedOut | NetworkUnreachable | InvalidInput | WriteZero | OtherIo

datatype relay_error =
    DatagramTooLarge
  | OutputTooSmall
  | PartialSend
  | SocketError io_kind
  | SourceMissing

definition encode ::
  "nat option \<Rightarrow> u32 \<Rightarrow> bytes \<Rightarrow> bytes \<Rightarrow> (relay_error + bytes) \<times> bytes \<times> u32" where
  "encode nanos counter plain output =
     (if \<not> length plain < 2 ^ 16 then (Inl DatagramTooLarge, output, counter)
      else
        let len16 = of_nat (length plain) :: u16;
            (seed, counter') = packet_seed nanos counter;
            (k, s1) = next_byte (seed XOR STREAM_KEY);
            padding = unat (k AND of_nat RELAY_MAX_PADDING);
            size = RELAY_HEADER_SIZE + length plain + padding
        in if length output < size then (Inl OutputTooSmall, output, counter')
           else
             let (len_bytes, s2) = xor_stream s1 (to_le_bytes 2 len16);
                 (body, s3) = xor_stream s2 plain;
                 (pad, s4) = fill_stream s3 padding;
                 packet = to_le_bytes 8 seed @ len_bytes @ body @ pad
             in (Inr packet, packet @ drop size output, counter'))"

definition decode :: "bytes \<Rightarrow> bytes \<Rightarrow> bytes option \<times> bytes" where
  "decode packet output =
     (if length packet < RELAY_HEADER_SIZE then (None, output)
      else
        let seed = from_le_bytes (take 8 packet) :: u64;
            (k, s1) = next_byte (seed XOR STREAM_KEY);
            padding = unat (k AND of_nat RELAY_MAX_PADDING);
            (k0, s2) = next_byte s1;
            (k1, s3) = next_byte s2;
            len = unat (from_le_bytes [packet ! 8 XOR k0, packet ! 9 XOR k1] :: u16)
        in if length output < len \<or> RELAY_HEADER_SIZE + len + padding \<noteq> length packet
           then (None, output)
           else
             let plain = fst (xor_stream s3 (take len (drop RELAY_HEADER_SIZE packet)))
             in (Some plain, plain @ drop len output))"

section \<open>Lemmas\<close>

lemma length_xor_stream [simp]: "length (fst (xor_stream s xs)) = length xs"
  by (induction xs arbitrary: s) (simp_all add: Let_def case_prod_beta)

lemma length_fill_stream [simp]: "length (fst (fill_stream s n)) = n"
  by (induction n arbitrary: s) (simp_all add: Let_def case_prod_beta)

text \<open>The keystream does not depend on the data, so the same pass undoes itself.\<close>

lemma xor_stream_state: "snd (xor_stream s xs) = snd (fill_stream s (length xs))"
  by (induction xs arbitrary: s) (simp_all add: Let_def case_prod_beta)

lemma xor_stream_involution: "fst (xor_stream s (fst (xor_stream s xs))) = xs"
  by (induction xs arbitrary: s) (simp_all add: Let_def case_prod_beta)

lemma padding_bound: "unat ((k :: u8) AND of_nat RELAY_MAX_PADDING) \<le> RELAY_MAX_PADDING"
proof -
  have "unat (k AND 31) \<le> unat (31 :: u8)"
    by (rule word_and_le1 [THEN word_le_nat_alt [THEN iffD1]])
  then show ?thesis by (simp add: RELAY_MAX_PADDING_def)
qed

definition seed_padding :: "u64 \<Rightarrow> nat" where
  "seed_padding seed = unat (fst (next_byte (seed XOR STREAM_KEY)) AND of_nat RELAY_MAX_PADDING)"

lemma seed_padding_bound: "seed_padding seed \<le> RELAY_MAX_PADDING"
  unfolding seed_padding_def by (rule padding_bound)

text \<open>The envelope for a given seed, as one expression.\<close>

definition envelope :: "u64 \<Rightarrow> bytes \<Rightarrow> bytes" where
  "envelope seed plain =
     (let s1 = snd (next_byte (seed XOR STREAM_KEY));
          header = xor_stream s1 (to_le_bytes 2 (of_nat (length plain) :: u16));
          body = xor_stream (snd header) plain
      in to_le_bytes 8 seed @ fst header @ fst body
           @ fst (fill_stream (snd body) (seed_padding seed)))"

lemma length_envelope:
  "length (envelope seed plain) = RELAY_HEADER_SIZE + length plain + seed_padding seed"
  by (simp add: envelope_def Let_def RELAY_HEADER_SIZE_def)

lemma encode_eq:
  "encode nanos counter plain output =
     (if \<not> length plain < 2 ^ 16 then (Inl DatagramTooLarge, output, counter)
      else let seed = fst (packet_seed nanos counter); packet = envelope seed plain
           in if length output < length packet
              then (Inl OutputTooSmall, output, counter + SEED_STEP)
              else (Inr packet, packet @ drop (length packet) output, counter + SEED_STEP))"
  by (simp add: encode_def Let_def case_prod_beta length_envelope seed_padding_def [symmetric])
    (simp add: envelope_def packet_seed_def seed_padding_def Let_def)

text \<open>The two length bytes are read back one at a time.\<close>

lemma xor_stream_two:
  "xor_stream s [a, b] =
     ([a XOR fst (next_byte s), b XOR fst (next_byte (snd (next_byte s)))],
      snd (next_byte (snd (next_byte s))))"
  by (simp add: Let_def case_prod_beta)

lemma to_le_bytes_2: "to_le_bytes 2 w = [ucast w, ucast (drop_bit 8 w)]"
  by (simp add: to_le_bytes_def upt_rec numeral_2_eq_2)

lemma decode_header:
  fixes seed :: u64 and plain :: bytes
  defines "p \<equiv> envelope seed plain"
  defines "s1 \<equiv> snd (next_byte (seed XOR STREAM_KEY))"
  defines "w \<equiv> of_nat (length plain) :: u16"
  shows "take 8 p = to_le_bytes 8 seed"
    and "p ! 8 = ucast w XOR fst (next_byte s1)"
    and "p ! 9 = ucast (drop_bit 8 w) XOR fst (next_byte (snd (next_byte s1)))"
    and "take (length plain) (drop RELAY_HEADER_SIZE p) =
           fst (xor_stream (snd (next_byte (snd (next_byte s1)))) plain)"
  by (simp_all add: p_def s1_def w_def envelope_def Let_def to_le_bytes_2 xor_stream_two
      nth_append RELAY_HEADER_SIZE_def del: xor_stream.simps)

lemma decode_envelope:
  assumes "length plain < 2 ^ 16"
  shows "decode (envelope seed plain) output =
     (if length output < length plain then (None, output)
      else (Some plain, plain @ drop (length plain) output))"
proof -
  let ?w = "of_nat (length plain) :: u16"
  have w: "unat ?w = length plain"
    using assms by (simp add: unat_of_nat)
  have "from_le_bytes (to_le_bytes 2 ?w) = ?w" by simp
  then have len: "unat (from_le_bytes [ucast ?w, ucast (drop_bit 8 ?w)] :: u16) = length plain"
    using w by (simp add: to_le_bytes_2 del: from_le_bytes.simps)
  show ?thesis
    by (simp add: decode_def Let_def case_prod_beta decode_header len
        length_envelope seed_padding_def xor_stream_involution
        del: from_le_bytes.simps)
qed

lemma decode_length:
  "fst (decode packet output) = Some plain \<Longrightarrow>
     length plain \<le> length output \<and>
     length packet = RELAY_HEADER_SIZE + length plain + seed_padding (from_le_bytes (take 8 packet))"
  by (auto simp: decode_def Let_def case_prod_beta seed_padding_def split: if_splits)

lemma decode_None_buffer: "fst (decode packet output) = None \<Longrightarrow> snd (decode packet output) = output"
  by (auto simp: decode_def Let_def case_prod_beta split: if_splits)

lemma length_snd_decode: "length (snd (decode packet output)) = length output"
  by (auto simp: decode_def Let_def case_prod_beta split: if_splits)

lemma length_encode_buffer: "length (fst (snd (encode nanos counter plain output))) = length output"
  by (auto simp: encode_eq Let_def)

lemma decode_wrong_length:
  assumes "length q \<ge> 8" and "take 8 q = take 8 p"
    and "length q \<ge> RELAY_HEADER_SIZE \<longrightarrow> q ! 8 = p ! 8 \<and> q ! 9 = p ! 9"
    and "fst (decode p output) = Some plain" and "length q \<noteq> length p"
  shows "fst (decode q output') = None"
  using assms by (auto simp: decode_def Let_def case_prod_beta split: if_splits)

lemma decode_short: "length q < RELAY_HEADER_SIZE \<Longrightarrow> fst (decode q output) = None"
  by (simp add: decode_def)

lemma encode_InrD:
  assumes "encode nanos counter plain output = (Inr packet, output', counter')"
  shows "packet = envelope (fst (packet_seed nanos counter)) plain" and "length plain < 2 ^ 16"
    and "length packet \<le> length output"
  using assms by (auto simp: encode_eq Let_def split: if_splits)

section \<open>Properties\<close>

text \<open>C23: Whatever the clock, the packet counter and the buffers hold, a datagram that the relay
  encodes decodes to exactly the same datagram whenever the receiving buffer is large enough
  for it.\<close>

theorem encode_decode_roundtrip:
  assumes "encode nanos counter plain output = (Inr packet, output', counter')"
    and "length plain \<le> length buffer"
  shows "decode packet buffer = (Some plain, plain @ drop (length plain) buffer)"
  using encode_InrD[OF assms(1)] assms(2) by (simp add: decode_envelope)

theorem encode_decode_roundtrip_witness:
  "\<exists>packet output' counter'.
     encode (Some 5) 7 [1, 2, 3] (replicate 64 0) = (Inr packet, output', counter') \<and>
     decode packet [9, 9, 9, 9] = (Some [1, 2, 3], [1, 2, 3, 9])"
proof -
  let ?p = "envelope (fst (packet_seed (Some 5) 7)) [1, 2, 3]"
  have "length ?p \<le> 64"
    using seed_padding_bound[of "fst (packet_seed (Some 5) 7)"]
    by (simp add: length_envelope RELAY_HEADER_SIZE_def RELAY_MAX_PADDING_def)
  then have enc: "encode (Some 5) 7 [1, 2, 3] (replicate 64 0) =
      (Inr ?p, ?p @ drop (length ?p) (replicate 64 0), 7 + SEED_STEP)"
    by (simp add: encode_eq Let_def)
  moreover have "decode ?p [9, 9, 9, 9] = (Some [1, 2, 3], [1, 2, 3, 9])"
    using encode_decode_roundtrip[OF enc, of "[9, 9, 9, 9]"] by simp
  ultimately show ?thesis by blast
qed

text \<open>C25: An encoded packet that loses bytes at its end or gains any is rejected: the envelope
  carries its own length, so neither a proper prefix nor an extension of a packet decodes.\<close>

theorem decode_rejects_resized:
  assumes "encode nanos counter plain output = (Inr packet, output', counter')"
    and "n < length packet" and "extra \<noteq> []"
  shows "fst (decode (take n packet) buffer) = None \<and> fst (decode (packet @ extra) buffer) = None"
proof (rule conjI)
  have p: "packet = envelope (fst (packet_seed nanos counter)) plain" "length plain < 2 ^ 16"
    using encode_InrD[OF assms(1)] by simp_all
  have dec: "fst (decode packet (replicate (length plain) 0)) = Some plain"
    using p by (simp add: decode_envelope)
  have len: "RELAY_HEADER_SIZE \<le> length packet"
    using p by (simp add: length_envelope)
  show "fst (decode (take n packet) buffer) = None"
  proof (cases "n < RELAY_HEADER_SIZE")
    case True
    then show ?thesis by (intro decode_short) simp
  next
    case False
    then show ?thesis
      using dec len assms(2)
      by (intro decode_wrong_length[of _ packet]) (auto simp: RELAY_HEADER_SIZE_def min_def)
  qed
  show "fst (decode (packet @ extra) buffer) = None"
    using dec len assms(3)
    by (intro decode_wrong_length[of _ packet]) (auto simp: RELAY_HEADER_SIZE_def nth_append)
qed

theorem decode_rejects_resized_witness:
  "\<exists>packet output' counter'.
     encode None 0 [42] (replicate 64 0) = (Inr packet, output', counter') \<and>
     fst (decode (take 10 packet) (replicate 64 0)) = None \<and>
     fst (decode (packet @ [0]) (replicate 64 0)) = None"
proof -
  let ?p = "envelope (fst (packet_seed None 0)) [42]"
  have "length ?p \<le> 64" and short: "10 < length ?p"
    using seed_padding_bound[of "fst (packet_seed None 0)"]
    by (simp_all add: length_envelope RELAY_HEADER_SIZE_def RELAY_MAX_PADDING_def)
  then have enc: "encode None 0 [42] (replicate 64 0) =
      (Inr ?p, ?p @ drop (length ?p) (replicate 64 0), 0 + SEED_STEP)"
    by (simp add: encode_eq Let_def)
  then show ?thesis
    using decode_rejects_resized[OF enc short, of "[0]" "replicate 64 0"] by blast
qed

text \<open>C26: Every WireGuard datagram a full tunnel packet can produce (the tunnel MTU plus
  WireGuard's data overhead) encodes, and the relay packet with its IPv4 and UDP headers fits
  the 1480-byte uplink without fragmentation, with the worst-case padding included.\<close>

theorem tunnel_packets_fit_uplink:
  assumes "length plain \<le> unat TUNNEL_MTU + WIREGUARD_DATA_OVERHEAD"
  shows "\<exists>packet output' counter'.
     encode nanos counter plain (replicate BUFFER_SIZE 0) = (Inr packet, output', counter') \<and>
     length packet + IPV4_UDP_OVERHEAD \<le> MIN_UPLINK_MTU"
proof -
  let ?p = "envelope (fst (packet_seed nanos counter)) plain"
  have "length plain \<le> 1411"
    using assms by (simp add: budget_defs)
  then have "length ?p + 28 \<le> 1480" and "length plain < 2 ^ 16"
    using seed_padding_bound[of "fst (packet_seed nanos counter)"]
    by (simp_all add: length_envelope RELAY_HEADER_SIZE_def RELAY_MAX_PADDING_def)
  then show ?thesis
    by (simp add: encode_eq Let_def BUFFER_SIZE_def IPV4_UDP_OVERHEAD_def MIN_UPLINK_MTU_def)
qed

theorem tunnel_packets_fit_uplink_witness:
  "\<exists>packet output' counter'.
     encode (Some 1) 2 (replicate 1411 90) (replicate BUFFER_SIZE 0)
       = (Inr packet, output', counter') \<and>
     length packet + IPV4_UDP_OVERHEAD \<le> MIN_UPLINK_MTU"
  by (rule tunnel_packets_fit_uplink) (simp add: budget_defs)

end
