(* ===== verification/Relay_Client.thy ===== *)
theory Relay_Client
  imports Relay_Codec
begin

text \<open>
  The batch layer of \<^verbatim>\<open>gofro-relay/src/batch.rs\<close> and the forwarding loops of
  \<^verbatim>\<open>gofro-relay/src/client.rs\<close>. A UDP socket is seen through what it returns: a receive is
  an input (\<open>Inl\<close> an error kind, \<open>Inr\<close> a datagram), a send is a function from the position in
  the batch and the datagram to the number of bytes the kernel took. A loop iteration is a step
  function on the loop's buffers; the loop itself runs over the list of iterations seen so far
  and stops at the first error.
\<close>

section \<open>Sockets and batches\<close>

datatype socket_addr = SocketAddrV4 u32 u16 | SocketAddrV6 "128 word" u16

type_synonym packet_batch = "bytes list"
type_synonym packet_lengths = "nat list"
type_synonym udp_send = "nat \<Rightarrow> bytes \<Rightarrow> io_kind + nat"

definition BATCH_SIZE :: nat where "BATCH_SIZE = 4"

definition empty_batch :: packet_batch where
  "empty_batch = replicate BATCH_SIZE (replicate BUFFER_SIZE 0)"

text \<open>A datagram longer than the buffer is truncated by the kernel.\<close>

definition recv_into :: "bytes \<Rightarrow> bytes \<Rightarrow> nat \<times> bytes" where
  "recv_into buffer datagram =
     (let n = min (length buffer) (length datagram)
      in (n, take n datagram @ drop n buffer))"

definition recv_many ::
  "io_kind + bytes \<Rightarrow> packet_batch \<Rightarrow> packet_lengths
     \<Rightarrow> (io_kind + nat) \<times> packet_batch \<times> packet_lengths" where
  "recv_many incoming buffers lengths =
     (case incoming of
        Inl e \<Rightarrow> (Inl e, buffers, lengths)
      | Inr datagram \<Rightarrow>
          (let (n, buffer) = recv_into (buffers ! 0) datagram
           in (Inr 1, buffers[0 := buffer], lengths[0 := n])))"

definition recv_from_many ::
  "io_kind + bytes \<times> socket_addr \<Rightarrow> packet_batch \<Rightarrow> packet_lengths \<Rightarrow> socket_addr option list
     \<Rightarrow> (io_kind + nat) \<times> packet_batch \<times> packet_lengths \<times> socket_addr option list" where
  "recv_from_many incoming buffers lengths sources =
     (case incoming of
        Inl e \<Rightarrow> (Inl e, buffers, lengths, sources)
      | Inr (datagram, source) \<Rightarrow>
          (let (n, buffer) = recv_into (buffers ! 0) datagram
           in (Inr 1, buffers[0 := buffer], lengths[0 := n], sources[0 := Some source])))"

text \<open>The sends of one batch: the result and the datagrams the kernel took whole.\<close>

primrec send_each ::
  "udp_send \<Rightarrow> nat \<Rightarrow> (bytes \<times> nat) list \<Rightarrow> (io_kind + unit) \<times> bytes list" where
  "send_each send i [] = (Inr (), [])"
| "send_each send i (entry # rest) =
     (let datagram = take (snd entry) (fst entry)
      in case send i datagram of
           Inl e \<Rightarrow> (Inl e, [])
         | Inr n \<Rightarrow>
             if n \<noteq> snd entry then (Inl WriteZero, [])
             else (let (r, sent) = send_each send (Suc i) rest in (r, datagram # sent)))"

definition send_many ::
  "udp_send \<Rightarrow> packet_batch \<Rightarrow> packet_lengths \<Rightarrow> nat \<Rightarrow> (io_kind + unit) \<times> bytes list" where
  "send_many send buffers lengths count =
     (if BATCH_SIZE < count \<or> (\<exists>len \<in> set (take count lengths). BUFFER_SIZE < len)
      then (Inl InvalidInput, [])
      else send_each send 0 (take count (zip buffers lengths)))"

section \<open>Forwarding loops\<close>

record forward_state =
  in_buffers :: packet_batch
  in_lengths :: packet_lengths
  out_buffers :: packet_batch
  out_lengths :: packet_lengths
  packet_counter :: u32

definition initial_forward :: "u32 \<Rightarrow> forward_state" where
  "initial_forward counter =
     \<lparr>in_buffers = empty_batch, in_lengths = replicate BATCH_SIZE 0,
      out_buffers = empty_batch, out_lengths = replicate BATCH_SIZE 0,
      packet_counter = counter\<rparr>"

text \<open>One iteration of a loop: the clock per packet, what arrived, how the output socket sends.\<close>

record iteration =
  it_clock :: "nat \<Rightarrow> nat option"
  it_incoming :: "io_kind + bytes"
  it_sender :: udp_send

text \<open>\<^verbatim>\<open>for index in 0..count { encoded_lengths[index] = encode(..)?.len() }\<close>\<close>

primrec encode_batch ::
  "(nat \<Rightarrow> nat option) \<Rightarrow> nat list \<Rightarrow> forward_state \<Rightarrow> (relay_error + unit) \<times> forward_state" where
  "encode_batch nanos [] st = (Inr (), st)"
| "encode_batch nanos (index # rest) st =
     (let plain = take (in_lengths st ! index) (in_buffers st ! index);
          (r, buffer, counter) =
            encode (nanos index) (packet_counter st) plain (out_buffers st ! index);
          st' = st\<lparr>out_buffers := (out_buffers st)[index := buffer], packet_counter := counter\<rparr>
      in case r of
           Inl e \<Rightarrow> (Inl e, st')
         | Inr packet \<Rightarrow>
             encode_batch nanos rest
               (st'\<lparr>out_lengths := (out_lengths st')[index := length packet]\<rparr>))"

definition forward_encoded_step ::
  "iteration \<Rightarrow> forward_state \<Rightarrow> (relay_error + unit) \<times> bytes list \<times> forward_state" where
  "forward_encoded_step it st =
     (let (r, buffers, lengths) = recv_many (it_incoming it) (in_buffers st) (in_lengths st);
          st1 = st\<lparr>in_buffers := buffers, in_lengths := lengths\<rparr>
      in case r of
           Inl e \<Rightarrow> (Inl (SocketError e), [], st1)
         | Inr count \<Rightarrow>
             (let (r2, st2) = encode_batch (it_clock it) [0..<count] st1
              in case r2 of
                   Inl e \<Rightarrow> (Inl e, [], st2)
                 | Inr u \<Rightarrow>
                     (let (r3, sent) = send_many (it_sender it) (out_buffers st2) (out_lengths st2) count
                      in case r3 of
                           Inl e \<Rightarrow> (Inl (SocketError e), sent, st2)
                         | Inr u \<Rightarrow> (Inr (), sent, st2))))"

text \<open>Undecodable packets are skipped; the decoded ones are packed from the front.\<close>

primrec decode_batch :: "nat list \<Rightarrow> nat \<Rightarrow> forward_state \<Rightarrow> nat \<times> forward_state" where
  "decode_batch [] decoded_count st = (decoded_count, st)"
| "decode_batch (index # rest) decoded_count st =
     (let packet = take (in_lengths st ! index) (in_buffers st ! index);
          (r, buffer) = decode packet (out_buffers st ! decoded_count);
          st' = st\<lparr>out_buffers := (out_buffers st)[decoded_count := buffer]\<rparr>
      in case r of
           None \<Rightarrow> decode_batch rest decoded_count st'
         | Some decoded \<Rightarrow>
             decode_batch rest (Suc decoded_count)
               (st'\<lparr>out_lengths := (out_lengths st')[decoded_count := length decoded]\<rparr>))"

definition forward_decoded_step ::
  "iteration \<Rightarrow> forward_state \<Rightarrow> (relay_error + unit) \<times> bytes list \<times> forward_state" where
  "forward_decoded_step it st =
     (let (r, buffers, lengths) = recv_many (it_incoming it) (in_buffers st) (in_lengths st);
          st1 = st\<lparr>in_buffers := buffers, in_lengths := lengths\<rparr>
      in case r of
           Inl e \<Rightarrow> (Inl (SocketError e), [], st1)
         | Inr count \<Rightarrow>
             (let (decoded_count, st2) = decode_batch [0..<count] 0 st1;
                  (r3, sent) =
                    send_many (it_sender it) (out_buffers st2) (out_lengths st2) decoded_count
              in case r3 of
                   Inl e \<Rightarrow> (Inl (SocketError e), sent, st2)
                 | Inr u \<Rightarrow> (Inr (), sent, st2)))"

text \<open>The endless loop over the iterations seen so far; \<open>Inr ()\<close> means it still runs.\<close>

fun run_forward ::
  "(iteration \<Rightarrow> forward_state \<Rightarrow> (relay_error + unit) \<times> bytes list \<times> forward_state)
     \<Rightarrow> iteration list \<Rightarrow> forward_state \<Rightarrow> (relay_error + unit) \<times> bytes list \<times> forward_state" where
  "run_forward step [] st = (Inr (), [], st)"
| "run_forward step (it # its) st =
     (case step it st of
        (Inl e, sent, st') \<Rightarrow> (Inl e, sent, st')
      | (Inr u, sent, st') \<Rightarrow>
          (let (r, more, st'') = run_forward step its st' in (r, sent @ more, st'')))"

definition forward_encoded where "forward_encoded = run_forward forward_encoded_step"
definition forward_decoded where "forward_decoded = run_forward forward_decoded_step"

section \<open>Start of the client\<close>

definition retry_connect :: "io_kind \<Rightarrow> bool" where
  "retry_connect e \<longleftrightarrow> e = NetworkUnreachable"

text \<open>
  The connect loop over the attempts made so far: \<open>None\<close> while the client is still retrying.
\<close>

primrec connect_loop :: "(io_kind + unit) list \<Rightarrow> (relay_error + unit) option" where
  "connect_loop [] = None"
| "connect_loop (attempt # rest) =
     (case attempt of
        Inr u \<Rightarrow> Some (Inr ())
      | Inl e \<Rightarrow> if retry_connect e then connect_loop rest else Some (Inl (SocketError e)))"

definition send_encoded ::
  "nat option \<Rightarrow> u32 \<Rightarrow> (bytes \<Rightarrow> io_kind + nat) \<Rightarrow> bytes
     \<Rightarrow> (relay_error + unit) \<times> bytes list \<times> u32" where
  "send_encoded nanos counter send plain =
     (let (r, buffer, counter') = encode nanos counter plain (replicate BUFFER_SIZE 0)
      in case r of
           Inl e \<Rightarrow> (Inl e, [], counter')
         | Inr packet \<Rightarrow>
             (case send packet of
                Inl e \<Rightarrow> (Inl (SocketError e), [], counter')
              | Inr n \<Rightarrow> if n \<noteq> length packet then (Inl PartialSend, [], counter')
                         else (Inr (), [packet], counter')))"

text \<open>
  \<^verbatim>\<open>client::run\<close> up to the start of the two forwarding loops: connect, wait for the first
  WireGuard datagram, pin its source and send it on.
\<close>

datatype client_start =
    StillConnecting
  | StartFailed relay_error
  | Started socket_addr "bytes list" u32

definition client_run ::
  "(io_kind + unit) list \<Rightarrow> io_kind + bytes \<times> socket_addr \<Rightarrow> io_kind + unit \<Rightarrow> nat option
     \<Rightarrow> (bytes \<Rightarrow> io_kind + nat) \<Rightarrow> u32 \<Rightarrow> client_start" where
  "client_run attempts first pin nanos send counter =
     (case connect_loop attempts of
        None \<Rightarrow> StillConnecting
      | Some (Inl e) \<Rightarrow> StartFailed e
      | Some (Inr u) \<Rightarrow>
          (case first of
             Inl e \<Rightarrow> StartFailed (SocketError e)
           | Inr (datagram, wireguard) \<Rightarrow>
               (case pin of
                  Inl e \<Rightarrow> StartFailed (SocketError e)
                | Inr u \<Rightarrow>
                    (let (size, plain) = recv_into (replicate BUFFER_SIZE 0) datagram;
                         (r, sent, counter') =
                           send_encoded nanos counter send (take size plain)
                     in case r of
                          Inl e \<Rightarrow> StartFailed e
                        | Inr u \<Rightarrow> Started wireguard sent counter'))))"

section \<open>Lemmas\<close>

definition ideal_send :: udp_send where "ideal_send i datagram = Inr (length datagram)"

definition wf_forward :: "forward_state \<Rightarrow> bool" where
  "wf_forward st \<longleftrightarrow>
     length (in_buffers st) = BATCH_SIZE \<and> length (in_lengths st) = BATCH_SIZE \<and>
     length (out_buffers st) = BATCH_SIZE \<and> length (out_lengths st) = BATCH_SIZE \<and>
     (\<forall>b \<in> set (in_buffers st). length b = BUFFER_SIZE) \<and>
     (\<forall>b \<in> set (out_buffers st). length b = BUFFER_SIZE)"

lemma wf_initial_forward: "wf_forward (initial_forward c)"
  by (simp add: wf_forward_def initial_forward_def empty_batch_def)

lemma recv_into_fit:
  "length d \<le> length buffer \<Longrightarrow> recv_into buffer d = (length d, d @ drop (length d) buffer)"
  by (simp add: recv_into_def Let_def)

lemma wf_nth:
  assumes "wf_forward st"
  shows "length (in_buffers st ! 0) = BUFFER_SIZE" and "length (out_buffers st ! 0) = BUFFER_SIZE"
    and "0 < length (in_buffers st)" and "0 < length (out_buffers st)"
    and "0 < length (in_lengths st)" and "0 < length (out_lengths st)"
  using assms by (auto simp: wf_forward_def BATCH_SIZE_def)

text \<open>
  The largest datagram that always encodes into one buffer: header and maximal padding leave
  4055 bytes.
\<close>

definition MAX_PLAIN :: nat where
  "MAX_PLAIN = BUFFER_SIZE - RELAY_HEADER_SIZE - RELAY_MAX_PADDING"

lemma encode_ok:
  assumes "length plain \<le> MAX_PLAIN" and "length output = BUFFER_SIZE"
  shows "\<exists>seed. encode nanos counter plain output =
           (Inr (envelope seed plain),
            envelope seed plain @ drop (length (envelope seed plain)) output, counter + SEED_STEP)
         \<and> length (envelope seed plain) \<le> BUFFER_SIZE"
proof -
  let ?seed = "fst (packet_seed nanos counter)"
  have "length (envelope ?seed plain) \<le> BUFFER_SIZE"
    using assms(1) seed_padding_bound[of ?seed]
    by (simp add: length_envelope MAX_PLAIN_def RELAY_MAX_PADDING_def RELAY_HEADER_SIZE_def
        BUFFER_SIZE_def)
  moreover have "length plain < 2 ^ 16"
    using assms(1) by (simp add: MAX_PLAIN_def BUFFER_SIZE_def)
  ultimately show ?thesis
    using assms(2) by (auto simp: encode_eq Let_def)
qed

lemma set_update_zero: "x \<in> set (xs[0 := v]) \<Longrightarrow> x = v \<or> x \<in> set xs"
  by (meson insertE set_update_subset_insert subset_iff)

lemma send_many_one:
  assumes "length bufs = BATCH_SIZE" and "length lens = BATCH_SIZE"
    and "length p \<le> BUFFER_SIZE" and "take (length p) (bufs ! 0) = p" and "lens ! 0 = length p"
  shows "send_many ideal_send bufs lens 1 = (Inr (), [p])"
proof -
  obtain b bs l ls where bl: "bufs = b # bs" "lens = l # ls"
    using assms(1,2) by (cases bufs; cases lens) (auto simp: BATCH_SIZE_def)
  then show ?thesis
    using assms by (simp add: send_many_def ideal_send_def BATCH_SIZE_def)
qed

lemma forward_encoded_step_ok:
  assumes wf: "wf_forward st" and len: "length d \<le> MAX_PLAIN"
    and it: "it_incoming it = Inr d" "it_sender it = ideal_send"
  shows "\<exists>seed st'. forward_encoded_step it st = (Inr (), [envelope seed d], st')
           \<and> wf_forward st' \<and> length (envelope seed d) \<le> BUFFER_SIZE"
proof -
  note wf0 = wf_nth[OF wf]
  have fit: "length d \<le> BUFFER_SIZE" using len by (simp add: MAX_PLAIN_def)
  obtain seed where enc: "encode (it_clock it 0) (packet_counter st) d (out_buffers st ! 0) =
      (Inr (envelope seed d),
       envelope seed d @ drop (length (envelope seed d)) (out_buffers st ! 0),
       packet_counter st + SEED_STEP)"
    and small: "length (envelope seed d) \<le> BUFFER_SIZE"
    using encode_ok[OF len wf0(2)] by blast
  let ?buf = "envelope seed d @ drop (length (envelope seed d)) (out_buffers st ! 0)"
  let ?st = "st\<lparr>in_buffers := (in_buffers st)[0 := d @ drop (length d) (in_buffers st ! 0)],
      in_lengths := (in_lengths st)[0 := length d],
      out_buffers := (out_buffers st)[0 := ?buf],
      out_lengths := (out_lengths st)[0 := length (envelope seed d)],
      packet_counter := packet_counter st + SEED_STEP\<rparr>"
  have batch: "encode_batch (it_clock it) [0]
      (st\<lparr>in_buffers := (in_buffers st)[0 := d @ drop (length d) (in_buffers st ! 0)],
         in_lengths := (in_lengths st)[0 := length d]\<rparr>) = (Inr (), ?st)"
    using wf0 enc by simp
  have send: "send_many ideal_send (out_buffers ?st) (out_lengths ?st) 1 = (Inr (), [envelope seed d])"
    using wf wf0 small by (intro send_many_one) (auto simp: wf_forward_def)
  have "forward_encoded_step it st = (Inr (), [envelope seed d], ?st)"
    using it wf0 fit batch send
    by (simp add: forward_encoded_step_def recv_many_def recv_into_fit)
  moreover have "wf_forward ?st"
    using wf wf0 fit small by (auto simp: wf_forward_def dest!: set_update_zero)
  ultimately show ?thesis using small by blast
qed

lemma forward_decoded_step_ok:
  assumes wf: "wf_forward st" and len: "length d \<le> MAX_PLAIN"
    and small: "length (envelope seed d) \<le> BUFFER_SIZE"
    and it: "it_incoming it = Inr (envelope seed d)" "it_sender it = ideal_send"
  shows "\<exists>st'. forward_decoded_step it st = (Inr (), [d], st') \<and> wf_forward st'"
proof -
  note wf0 = wf_nth[OF wf]
  let ?p = "envelope seed d"
  have fit: "length d \<le> BUFFER_SIZE" "length d < 2 ^ 16"
    using len by (simp_all add: MAX_PLAIN_def BUFFER_SIZE_def)
  have dec: "decode ?p (out_buffers st ! 0) = (Some d, d @ drop (length d) (out_buffers st ! 0))"
    using wf0 fit by (simp add: decode_envelope)
  let ?st = "st\<lparr>in_buffers := (in_buffers st)[0 := ?p @ drop (length ?p) (in_buffers st ! 0)],
      in_lengths := (in_lengths st)[0 := length ?p],
      out_buffers := (out_buffers st)[0 := d @ drop (length d) (out_buffers st ! 0)],
      out_lengths := (out_lengths st)[0 := length d]\<rparr>"
  have batch: "decode_batch [0] 0
      (st\<lparr>in_buffers := (in_buffers st)[0 := ?p @ drop (length ?p) (in_buffers st ! 0)],
         in_lengths := (in_lengths st)[0 := length ?p]\<rparr>) = (1, ?st)"
    using wf0 dec by simp
  have send: "send_many ideal_send (out_buffers ?st) (out_lengths ?st) 1 = (Inr (), [d])"
    using wf wf0 fit by (intro send_many_one) (auto simp: wf_forward_def)
  have "forward_decoded_step it st = (Inr (), [d], ?st)"
    using it wf0 small batch send
    by (simp add: forward_decoded_step_def recv_many_def recv_into_fit)
  moreover have "wf_forward ?st"
    using wf wf0 fit small by (auto simp: wf_forward_def dest!: set_update_zero)
  ultimately show ?thesis by blast
qed

lemma run_encoded_ok:
  assumes "wf_forward st" and "\<forall>d \<in> set ds. length d \<le> MAX_PLAIN"
    and "map it_incoming its = map Inr ds" and "\<forall>it \<in> set its. it_sender it = ideal_send"
  shows "\<exists>seeds st'. run_forward forward_encoded_step its st = (Inr (), map2 envelope seeds ds, st')
     \<and> length seeds = length ds \<and> (\<forall>p \<in> set (map2 envelope seeds ds). length p \<le> BUFFER_SIZE)"
  using assms
proof (induction ds arbitrary: its st)
  case Nil
  then show ?case by simp
next
  case (Cons d ds)
  then obtain it its' where its: "its = it # its'" "it_incoming it = Inr d"
      "map it_incoming its' = map Inr ds" "it_sender it = ideal_send"
      "\<forall>it \<in> set its'. it_sender it = ideal_send"
    by (auto simp: map_eq_Cons_conv)
  obtain seed st1 where one: "forward_encoded_step it st = (Inr (), [envelope seed d], st1)"
      "wf_forward st1" "length (envelope seed d) \<le> BUFFER_SIZE"
    using forward_encoded_step_ok[of st d it] Cons.prems its by auto
  obtain seeds st2 where rest: "run_forward forward_encoded_step its' st1
        = (Inr (), map2 envelope seeds ds, st2)" "length seeds = length ds"
      "\<forall>p \<in> set (map2 envelope seeds ds). length p \<le> BUFFER_SIZE"
    using Cons.IH[OF one(2) _ its(3,5)] Cons.prems(2) by auto
  have "run_forward forward_encoded_step its st
      = (Inr (), map2 envelope (seed # seeds) (d # ds), st2)"
    using its(1) one(1) rest(1) by simp
  moreover have "\<forall>p \<in> set (map2 envelope (seed # seeds) (d # ds)). length p \<le> BUFFER_SIZE"
    using one(3) rest(3) by auto
  ultimately show ?case using rest(2) by (metis length_Cons)
qed

lemma run_decoded_ok:
  assumes "wf_forward st" and "length seeds = length ds" and "\<forall>d \<in> set ds. length d \<le> MAX_PLAIN"
    and "\<forall>p \<in> set (map2 envelope seeds ds). length p \<le> BUFFER_SIZE"
    and "map it_incoming its = map Inr (map2 envelope seeds ds)"
    and "\<forall>it \<in> set its. it_sender it = ideal_send"
  shows "\<exists>st'. run_forward forward_decoded_step its st = (Inr (), ds, st')"
  using assms(2,1,3-)
proof (induction seeds ds arbitrary: its st rule: list_induct2)
  case Nil
  then show ?case by simp
next
  case (Cons seed seeds d ds)
  then obtain it its' where its: "its = it # its'" "it_incoming it = Inr (envelope seed d)"
      "map it_incoming its' = map Inr (map2 envelope seeds ds)" "it_sender it = ideal_send"
      "\<forall>it \<in> set its'. it_sender it = ideal_send"
    by (auto simp: map_eq_Cons_conv)
  obtain st1 where one: "forward_decoded_step it st = (Inr (), [d], st1)" "wf_forward st1"
    using forward_decoded_step_ok[of st d seed it] Cons.prems its by auto
  then show ?case
    using Cons.IH[OF one(2) _ _ its(3,5)] Cons.prems its(1) by auto
qed

section \<open>Properties\<close>

text \<open>C14: The forwarding pipeline delivers: when the sockets accept what they are given, the
  encoding loop turns any sequence of WireGuard datagrams (of at most 4055 bytes, what one
  buffer always holds) into as many packets, and a decoding loop that receives those packets
  emits exactly the original datagrams in the original order. Neither loop stops.\<close>

theorem relay_pipeline_in_order:
  assumes "\<forall>d \<in> set ds. length d \<le> MAX_PLAIN"
    and "map it_incoming its = map Inr ds" and "\<forall>it \<in> set its. it_sender it = ideal_send"
  shows "\<exists>sent st. forward_encoded its (initial_forward c) = (Inr (), sent, st) \<and>
     length sent = length ds \<and>
     (\<forall>its' c'. map it_incoming its' = map Inr sent \<and> (\<forall>it \<in> set its'. it_sender it = ideal_send)
        \<longrightarrow> (\<exists>st'. forward_decoded its' (initial_forward c') = (Inr (), ds, st')))"
proof -
  obtain seeds st' where enc: "forward_encoded its (initial_forward c)
        = (Inr (), map2 envelope seeds ds, st')" "length seeds = length ds"
      "\<forall>p \<in> set (map2 envelope seeds ds). length p \<le> BUFFER_SIZE"
    using run_encoded_ok[OF wf_initial_forward assms, of c] unfolding forward_encoded_def by blast
  then show ?thesis
    using run_decoded_ok[OF wf_initial_forward enc(2) assms(1) enc(3)]
    unfolding forward_decoded_def by auto
qed

theorem relay_pipeline_in_order_witness:
  "\<exists>sent st. forward_encoded
       [\<lparr>it_clock = \<lambda>_. Some 1, it_incoming = Inr [1, 2], it_sender = ideal_send\<rparr>,
        \<lparr>it_clock = \<lambda>_. None, it_incoming = Inr [3], it_sender = ideal_send\<rparr>]
       (initial_forward 0) = (Inr (), sent, st) \<and>
     length sent = 2 \<and>
     (\<forall>its' c'. map it_incoming its' = map Inr sent \<and> (\<forall>it \<in> set its'. it_sender it = ideal_send)
        \<longrightarrow> (\<exists>st'. forward_decoded its' (initial_forward c') = (Inr (), [[1, 2], [3]], st')))"
  using relay_pipeline_in_order[of "[[1, 2], [3]]"
      "[\<lparr>it_clock = \<lambda>_. Some 1, it_incoming = Inr [1, 2], it_sender = ideal_send\<rparr>,
        \<lparr>it_clock = \<lambda>_. None, it_incoming = Inr [3], it_sender = ideal_send\<rparr>]" 0]
  by (simp add: MAX_PLAIN_def BUFFER_SIZE_def RELAY_HEADER_SIZE_def RELAY_MAX_PADDING_def numeral_2_eq_2)

end
