(* ===== verification/Relay_Server.thy ===== *)
theory Relay_Server
  imports Relay_Client
begin

text \<open>
  The multi-client relay of \<^verbatim>\<open>gofro-relay/src/server.rs\<close>. The session table is the
  \<^verbatim>\<open>HashMap<SocketAddr, Session>\<close>, an association list with distinct keys. A session keeps the
  local socket towards WireGuard, the time it was last seen, the liveness flag it shares with its
  worker thread, and the destination the worker captured. Each call that reads a clock or opens
  a socket has the answer as an argument.
\<close>

section \<open>State\<close>

definition MAX_CLIENTS :: nat where "MAX_CLIENTS = 256"
definition CLIENT_IDLE :: nat where "CLIENT_IDLE = 180"
definition RECEIVE_TIMEOUT :: nat where "RECEIVE_TIMEOUT = 10"

record session =
  session_socket :: nat
  last_seen :: u32
  worker_alive :: bool
  destination :: socket_addr

type_synonym sessions = "(socket_addr \<times> session) list"

record relay_server =
  sessions :: sessions
  encoded_batch :: packet_batch
  encoded_lengths :: packet_lengths
  batch_sources :: "socket_addr option list"
  plain_buffer :: bytes
  last_cleanup :: nat

definition initial_server :: "nat \<Rightarrow> relay_server" where
  "initial_server started =
     \<lparr>sessions = [], encoded_batch = empty_batch, encoded_lengths = replicate BATCH_SIZE 0,
      batch_sources = replicate BATCH_SIZE None, plain_buffer = replicate BUFFER_SIZE 0,
      last_cleanup = started\<rparr>"

section \<open>Session table\<close>

text \<open>Seconds since the epoch, clamped to 32 bits; a clock before the epoch counts as zero.\<close>

definition unix_time :: "nat option \<Rightarrow> u32" where
  "unix_time clock =
     (let secs = (case clock of None \<Rightarrow> 0 | Some s \<Rightarrow> s)
      in if secs < 2 ^ 32 then of_nat secs else - 1)"

definition is_idle :: "u32 \<Rightarrow> u32 \<Rightarrow> nat \<Rightarrow> bool" where
  "is_idle now seen idle \<longleftrightarrow> idle \<le> unat (saturating_sub now seen)"

definition remove_idle :: "u32 \<Rightarrow> nat \<Rightarrow> sessions \<Rightarrow> sessions" where
  "remove_idle now idle ss = filter (\<lambda>(source, s). \<not> is_idle now (last_seen s) idle) ss"

text \<open>
  \<^verbatim>\<open>Session::new\<close> binds, connects and configures a socket and starts the worker; any of these
  may fail (\<open>Inl\<close>), otherwise \<open>Inr\<close> is the new socket.
\<close>

definition new_session :: "io_kind + nat \<Rightarrow> u32 \<Rightarrow> socket_addr \<Rightarrow> relay_error + session" where
  "new_session opened now source =
     (case opened of
        Inl e \<Rightarrow> Inl (SocketError e)
      | Inr socket \<Rightarrow>
          Inr \<lparr>session_socket = socket, last_seen = now, worker_alive = True,
               destination = source\<rparr>)"

definition get_or_create_session ::
  "io_kind + nat \<Rightarrow> u32 \<Rightarrow> nat \<Rightarrow> socket_addr \<Rightarrow> sessions
     \<Rightarrow> (relay_error + session option) \<times> sessions" where
  "get_or_create_session opened now max_clients source ss =
     (let ss1 = (case map_of ss source of
                   Some s \<Rightarrow> if \<not> worker_alive s then filter (\<lambda>e. fst e \<noteq> source) ss else ss
                 | None \<Rightarrow> ss)
      in if map_of ss1 source = None
         then if max_clients \<le> length ss1 then (Inr None, ss1)
              else (case new_session opened now source of
                      Inl e \<Rightarrow> (Inl e, ss1)
                    | Inr s \<Rightarrow> (Inr (Some s), ss1 @ [(source, s)]))
         else (Inr (map_of ss1 source), ss1))"

text \<open>\<^verbatim>\<open>session.last_seen.store(..)\<close> through the shared reference.\<close>

definition touch :: "socket_addr \<Rightarrow> u32 \<Rightarrow> sessions \<Rightarrow> sessions" where
  "touch source now ss =
     map (\<lambda>(k, s). (k, if k = source then s\<lparr>last_seen := now\<rparr> else s)) ss"

section \<open>The serving loop\<close>

text \<open>What one iteration of the loop meets.\<close>

record serve_input =
  received :: "io_kind + bytes \<times> socket_addr"
  instant :: nat
  wall_clock :: "nat option"
  opened_socket :: "io_kind + nat"
  session_send :: "bytes \<Rightarrow> io_kind + nat"

text \<open>
  The packets of a batch. The result carries the datagrams handed to WireGuard with the session
  socket each one left from.
\<close>

primrec serve_batch ::
  "serve_input \<Rightarrow> nat \<Rightarrow> nat list \<Rightarrow> relay_server
     \<Rightarrow> (relay_error + unit) \<times> (nat \<times> bytes) list \<times> relay_server" where
  "serve_batch inp max_clients [] st = (Inr (), [], st)"
| "serve_batch inp max_clients (index # rest) st =
     (let packet = take (encoded_lengths st ! index) (encoded_batch st ! index);
          (r, buffer) = decode packet (plain_buffer st);
          st1 = st\<lparr>plain_buffer := buffer\<rparr>
      in case r of
           None \<Rightarrow> serve_batch inp max_clients rest st1
         | Some decoded \<Rightarrow>
             (case batch_sources st1 ! index of
                None \<Rightarrow> (Inl SourceMissing, [], st1)
              | Some source \<Rightarrow>
                  (let now = unix_time (wall_clock inp);
                       (found, ss) =
                         get_or_create_session (opened_socket inp) now max_clients source
                           (sessions st1);
                       st2 = st1\<lparr>sessions := ss\<rparr>
                   in case found of
                        Inl e \<Rightarrow> (Inl e, [], st2)
                      | Inr None \<Rightarrow> serve_batch inp max_clients rest st2
                      | Inr (Some s) \<Rightarrow>
                          (let st3 = st2\<lparr>sessions := touch source now (sessions st2)\<rparr>
                           in case session_send inp decoded of
                                Inl e \<Rightarrow> (Inl (SocketError e), [], st3)
                              | Inr n \<Rightarrow>
                                  if n \<noteq> length decoded then (Inl PartialSend, [], st3)
                                  else (let (r', sent, st4) = serve_batch inp max_clients rest st3
                                        in (r', (session_socket s, decoded) # sent, st4))))))"

definition serve_step ::
  "nat \<Rightarrow> nat \<Rightarrow> serve_input \<Rightarrow> relay_server
     \<Rightarrow> (relay_error + unit) \<times> (nat \<times> bytes) list \<times> relay_server" where
  "serve_step max_clients idle inp st =
     (let (r, batch, lengths, sources) =
            recv_from_many (received inp) (encoded_batch st) (encoded_lengths st) (batch_sources st);
          st1 = st\<lparr>encoded_batch := batch, encoded_lengths := lengths, batch_sources := sources\<rparr>;
          clean = (\<lambda>s. s\<lparr>sessions := remove_idle (unix_time (wall_clock inp)) idle (sessions s),
                         last_cleanup := instant inp\<rparr>)
      in case r of
           Inl e \<Rightarrow>
             if e = WouldBlock \<or> e = TimedOut then (Inr (), [], clean st1)
             else (Inl (SocketError e), [], st1)
         | Inr count \<Rightarrow>
             serve_batch inp max_clients [0..<count]
               (if RECEIVE_TIMEOUT \<le> instant inp - last_cleanup st1 then clean st1 else st1))"

section \<open>The return worker\<close>

text \<open>
  One iteration of \<^verbatim>\<open>return_packets\<close> for a session: keep running, stop quietly, or fail. The
  worker clears the liveness flag when it ends for either reason.
\<close>

datatype worker_outcome =
    WorkerRuns "(bytes \<times> socket_addr) list"
  | WorkerStops
  | WorkerFails relay_error

definition return_packets_step ::
  "nat option \<Rightarrow> u32 \<Rightarrow> io_kind + bytes \<Rightarrow> (bytes \<Rightarrow> io_kind + nat) \<Rightarrow> session
     \<Rightarrow> worker_outcome \<times> u32" where
  "return_packets_step nanos counter incoming send s =
     (case incoming of
        Inl e \<Rightarrow>
          if e = WouldBlock \<or> e = TimedOut
          then (if \<not> worker_alive s then WorkerStops else WorkerRuns [], counter)
          else (WorkerFails (SocketError e), counter)
      | Inr datagram \<Rightarrow>
          if \<not> worker_alive s then (WorkerStops, counter)
          else
            (let (size, plain) = recv_into (replicate BUFFER_SIZE 0) datagram;
                 (r, buffer, counter') =
                   encode nanos counter (take size plain) (replicate BUFFER_SIZE 0)
             in case r of
                  Inl e \<Rightarrow> (WorkerFails e, counter')
                | Inr packet \<Rightarrow>
                    (case send packet of
                       Inl e \<Rightarrow> (WorkerFails (SocketError e), counter')
                     | Inr n \<Rightarrow>
                         if n \<noteq> length packet then (WorkerFails PartialSend, counter')
                         else (WorkerRuns [(packet, destination s)], counter'))))"

definition worker_ended :: "socket_addr \<Rightarrow> sessions \<Rightarrow> sessions" where
  "worker_ended source ss =
     map (\<lambda>(k, s). (k, if k = source then s\<lparr>worker_alive := False\<rparr> else s)) ss"

text \<open>
  The relay as a transition system: the main loop iterates, and workers end at any time.
  A fresh socket is one the kernel has not given to another session.
\<close>

inductive relay_step :: "nat \<Rightarrow> nat \<Rightarrow> relay_server \<Rightarrow> relay_server \<Rightarrow> bool"
  for max_clients :: nat and idle :: nat where
  iterate:
    "serve_step max_clients idle inp st = (Inr u, sent, st') \<Longrightarrow>
     (\<And>socket. opened_socket inp = Inr socket \<Longrightarrow>
        socket \<notin> (session_socket \<circ> snd) ` set (sessions st)) \<Longrightarrow>
     relay_step max_clients idle st st'"
| worker_ends:
    "relay_step max_clients idle st (st\<lparr>sessions := worker_ended source (sessions st)\<rparr>)"

inductive relay_reachable :: "nat \<Rightarrow> nat \<Rightarrow> relay_server \<Rightarrow> bool"
  for max_clients :: nat and idle :: nat where
  start: "relay_reachable max_clients idle (initial_server t)"
| step: "relay_reachable max_clients idle st \<Longrightarrow> relay_step max_clients idle st st' \<Longrightarrow>
     relay_reachable max_clients idle st'"

section \<open>Invariant of the session table\<close>

definition sessions_ok :: "nat \<Rightarrow> sessions \<Rightarrow> bool" where
  "sessions_ok max_clients ss \<longleftrightarrow>
     distinct (map fst ss) \<and> length ss \<le> max_clients \<and>
     (\<forall>(k, s) \<in> set ss. destination s = k) \<and>
     distinct (map (session_socket \<circ> snd) ss)"

lemma sessions_ok_filter: "sessions_ok m ss \<Longrightarrow> sessions_ok m (filter P ss)"
  by (auto simp: sessions_ok_def distinct_map_filter intro: le_trans[OF length_filter_le])

lemma sessions_ok_remove_idle: "sessions_ok m ss \<Longrightarrow> sessions_ok m (remove_idle now idle ss)"
  unfolding remove_idle_def by (rule sessions_ok_filter)

lemma sessions_ok_map:
  assumes "\<And>k s. destination (f k s) = destination s \<and> session_socket (f k s) = session_socket s"
  shows "sessions_ok m (map (\<lambda>(k, s). (k, f k s)) ss) = sessions_ok m ss"
proof -
  have "map fst (map (\<lambda>(k, s). (k, f k s)) ss) = map fst ss" by (induction ss) auto
  moreover have "map (session_socket \<circ> snd) (map (\<lambda>(k, s). (k, f k s)) ss)
      = map (session_socket \<circ> snd) ss"
    using assms by (induction ss) auto
  moreover have "(\<forall>(k, s) \<in> set (map (\<lambda>(k, s). (k, f k s)) ss). destination s = k)
      \<longleftrightarrow> (\<forall>(k, s) \<in> set ss. destination s = k)"
    using assms by auto
  ultimately show ?thesis unfolding sessions_ok_def by (simp only: length_map)
qed

lemma sessions_ok_touch [simp]: "sessions_ok m (touch source now ss) = sessions_ok m ss"
  unfolding touch_def by (rule sessions_ok_map) simp

lemma sessions_ok_worker_ended [simp]: "sessions_ok m (worker_ended source ss) = sessions_ok m ss"
  unfolding worker_ended_def by (rule sessions_ok_map) simp

lemma map_of_filter_ne: "map_of (filter (\<lambda>e. fst e \<noteq> k) ss) k = None"
  by (auto simp: map_of_eq_None_iff)

lemma get_or_create_ok:
  assumes ok: "sessions_ok m ss"
    and fresh: "\<And>socket. opened = Inr socket \<Longrightarrow> socket \<notin> (session_socket \<circ> snd) ` set ss"
    and res: "get_or_create_session opened now m source ss = (r, ss')"
  shows "sessions_ok m ss'"
proof -
  define ss1 where "ss1 = (case map_of ss source of
      Some s \<Rightarrow> if \<not> worker_alive s then filter (\<lambda>e. fst e \<noteq> source) ss else ss
    | None \<Rightarrow> ss)"
  have ok1: "sessions_ok m ss1" and sub: "set ss1 \<subseteq> set ss"
    using ok by (auto simp: ss1_def sessions_ok_filter split: option.splits)
  have "ss' = ss1 \<or> (\<exists>socket. opened = Inr socket \<and> map_of ss1 source = None \<and> length ss1 < m \<and>
      ss' = ss1 @ [(source, \<lparr>session_socket = socket, last_seen = now, worker_alive = True,
                             destination = source\<rparr>)])"
    using res unfolding get_or_create_session_def ss1_def[symmetric] Let_def
    by (auto simp: new_session_def split: if_splits sum.splits)
  then show ?thesis
  proof
    assume "ss' = ss1"
    then show ?thesis using ok1 by simp
  next
    assume "\<exists>socket. opened = Inr socket \<and> map_of ss1 source = None \<and> length ss1 < m \<and>
      ss' = ss1 @ [(source, \<lparr>session_socket = socket, last_seen = now, worker_alive = True,
                             destination = source\<rparr>)]"
    then obtain socket where s: "opened = Inr socket" "map_of ss1 source = None" "length ss1 < m"
      "ss' = ss1 @ [(source, \<lparr>session_socket = socket, last_seen = now, worker_alive = True,
                             destination = source\<rparr>)]"
      by blast
    have "socket \<notin> (session_socket \<circ> snd) ` set ss1" using fresh[OF s(1)] sub by auto
    moreover have "source \<notin> fst ` set ss1" using s(2) by (simp add: map_of_eq_None_iff)
    ultimately show ?thesis using ok1 s(3,4) by (auto simp: sessions_ok_def)
  qed
qed

lemma serve_batch_one_ok:
  assumes ok: "sessions_ok m (sessions st)"
    and fresh: "\<And>socket. opened_socket inp = Inr socket \<Longrightarrow>
      socket \<notin> (session_socket \<circ> snd) ` set (sessions st)"
  shows "sessions_ok m (sessions (snd (snd (serve_batch inp m [index] st))))"
proof -
  have goc: "sessions_ok m (snd (get_or_create_session (opened_socket inp)
      (unix_time (wall_clock inp)) m source (sessions st)))" for source
    using get_or_create_ok[OF ok fresh] by (metis surjective_pairing)
  show ?thesis
    using ok goc by (auto simp: Let_def case_prod_beta split: option.splits sum.splits)
qed

lemma recv_from_many_count: "fst (recv_from_many inc b l s) = Inr count \<Longrightarrow> count = 1"
  by (auto simp: recv_from_many_def Let_def case_prod_beta split: sum.splits)

lemma serve_step_ok:
  assumes ok: "sessions_ok m (sessions st)"
    and fresh: "\<And>socket. opened_socket inp = Inr socket \<Longrightarrow>
      socket \<notin> (session_socket \<circ> snd) ` set (sessions st)"
  shows "sessions_ok m (sessions (snd (snd (serve_step m idle inp st))))"
proof -
  let ?st1 = "\<lambda>batch lens srcs. st\<lparr>encoded_batch := batch, encoded_lengths := lens,
      batch_sources := srcs\<rparr>"
  have cleaned: "set (remove_idle now idle (sessions st)) \<subseteq> set (sessions st)" for now
    by (auto simp: remove_idle_def)
  have main: "sessions_ok m (sessions (snd (snd (serve_batch inp m [0] st'))))"
    if "sessions st' = sessions st \<or> sessions st' = remove_idle now idle (sessions st)" for st' now
    using that ok fresh cleaned[of now] sessions_ok_remove_idle[OF ok]
    by (intro serve_batch_one_ok) fastforce+
  obtain r batch lens srcs where rv:
    "recv_from_many (received inp) (encoded_batch st) (encoded_lengths st) (batch_sources st)
       = (r, batch, lens, srcs)"
    by (metis surj_pair)
  show ?thesis
  proof (cases r)
    case (Inl e)
    then show ?thesis
      using rv ok by (simp add: serve_step_def sessions_ok_remove_idle Let_def)
  next
    case (Inr count)
    then have "count = 1" using recv_from_many_count rv by (metis fst_conv)
    then show ?thesis
      using rv Inr main[of _ "unix_time (wall_clock inp)"]
      by (simp add: serve_step_def Let_def del: serve_batch.simps)
  qed
qed

lemma relay_step_ok:
  "relay_step m idle st st' \<Longrightarrow> sessions_ok m (sessions st) \<Longrightarrow> sessions_ok m (sessions st')"
proof (induction rule: relay_step.induct)
  case (iterate inp st u sent st')
  then show ?case using serve_step_ok[of m st inp idle] by simp
next
  case (worker_ends st source)
  then show ?case by simp
qed

section \<open>What one packet does to the table\<close>

lemma map_of_touch:
  "map_of (touch source now ss) k =
     map_option (\<lambda>s. if k = source then s\<lparr>last_seen := now\<rparr> else s) (map_of ss k)"
  by (induction ss) (auto simp: touch_def)

lemma get_or_create_other:
  assumes "k \<noteq> source"
  shows "map_of (snd (get_or_create_session opened now m source ss)) k = map_of ss k"
proof -
  have "map_of (filter (\<lambda>e. fst e \<noteq> source) ss) k = map_of ss k"
    using assms by (induction ss) auto
  then show ?thesis
    using assms
    by (auto simp: get_or_create_session_def Let_def map_add_def split: option.splits sum.splits)
qed

lemma get_or_create_Some:
  "get_or_create_session opened now m source ss = (Inr (Some s), ss') \<Longrightarrow>
     map_of ss' source = Some s \<and> worker_alive s"
  by (auto simp: get_or_create_session_def new_session_def Let_def map_of_filter_ne map_add_def
      split: option.splits sum.splits if_splits)

lemma get_or_create_live:
  "map_of ss source = Some s \<Longrightarrow> worker_alive s \<Longrightarrow>
     get_or_create_session opened now m source ss = (Inr (Some s), ss)"
  by (simp add: get_or_create_session_def)

lemma map_of_filter_distinct:
  "distinct (map fst ss) \<Longrightarrow>
     map_of (filter P ss) k = (case map_of ss k of None \<Rightarrow> None
        | Some s \<Rightarrow> if P (k, s) then Some s else None)"
proof (induction ss)
  case Nil
  then show ?case by simp
next
  case (Cons e ss)
  have "map_of ss (fst e) = None" using Cons.prems by (simp add: map_of_eq_None_iff)
  then show ?case using Cons by (cases e) (auto split: option.splits)
qed

lemma map_of_remove_idle:
  "distinct (map fst ss) \<Longrightarrow>
     map_of (remove_idle now idle ss) k = (case map_of ss k of None \<Rightarrow> None
        | Some s \<Rightarrow> if is_idle now (last_seen s) idle then None else Some s)"
  unfolding remove_idle_def by (subst map_of_filter_distinct) (auto split: option.splits)

text \<open>One packet of the batch, once it is in the first slot.\<close>

definition slot_packet :: "relay_server \<Rightarrow> bytes" where
  "slot_packet st = take (encoded_lengths st ! 0) (encoded_batch st ! 0)"

lemma serve_batch_garbage:
  assumes "fst (decode (slot_packet st) (plain_buffer st)) = None"
  shows "serve_batch inp m [0] st = (Inr (), [], st)"
proof -
  have "snd (decode (slot_packet st) (plain_buffer st)) = plain_buffer st"
    using decode_None_buffer[OF assms] .
  then show ?thesis
    using assms by (simp add: slot_packet_def Let_def case_prod_beta)
qed

lemma serve_batch_isolated:
  assumes "batch_sources st ! 0 = Some source"
    and "serve_batch inp m [0] st = (r, sent, st')"
  shows "\<forall>k. k \<noteq> source \<longrightarrow> map_of (sessions st') k = map_of (sessions st) k"
    and "\<forall>(socket, d) \<in> set sent. \<exists>s. map_of (sessions st') source = Some s \<and>
           session_socket s = socket \<and> worker_alive s \<and>
           fst (decode (slot_packet st) (plain_buffer st)) = Some d"
proof -
  let ?now = "unix_time (wall_clock inp)"
  let ?g = "get_or_create_session (opened_socket inp) ?now m source (sessions st)"
  have other: "map_of (snd ?g) k = map_of (sessions st) k" if "k \<noteq> source" for k
    using get_or_create_other[OF that] .
  have found: "map_of (snd ?g) source = Some s \<and> worker_alive s" if "fst ?g = Inr (Some s)" for s
    using get_or_create_Some[of _ _ _ source "sessions st" s] that by (metis prod.collapse)
  show "\<forall>k. k \<noteq> source \<longrightarrow> map_of (sessions st') k = map_of (sessions st) k"
    using assms other
    by (auto simp: Let_def case_prod_beta map_of_touch option.map_ident
        split: option.splits sum.splits if_splits)
  show "\<forall>(socket, d) \<in> set sent. \<exists>s. map_of (sessions st') source = Some s \<and>
           session_socket s = socket \<and> worker_alive s \<and>
           fst (decode (slot_packet st) (plain_buffer st)) = Some d"
    using assms found
    by (auto simp: Let_def case_prod_beta map_of_touch slot_packet_def
        split: option.splits sum.splits if_splits)
qed

text \<open>The loop's buffers keep their size, so the first slot always exists.\<close>

definition buffers_ok :: "relay_server \<Rightarrow> bool" where
  "buffers_ok st \<longleftrightarrow>
     length (encoded_batch st) = BATCH_SIZE \<and> length (encoded_lengths st) = BATCH_SIZE \<and>
     length (batch_sources st) = BATCH_SIZE \<and> length (plain_buffer st) = BUFFER_SIZE \<and>
     (\<forall>b \<in> set (encoded_batch st). length b = BUFFER_SIZE)"

lemma buffers_ok_initial: "buffers_ok (initial_server t)"
  by (simp add: buffers_ok_def initial_server_def empty_batch_def)

lemma serve_batch_buffers:
  "buffers_ok st \<Longrightarrow> serve_batch inp m [0] st = (r, sent, st') \<Longrightarrow> buffers_ok st'"
  using length_snd_decode[of "take (encoded_lengths st ! 0) (encoded_batch st ! 0)" "plain_buffer st"]
  by (auto simp: Let_def case_prod_beta buffers_ok_def split: option.splits sum.splits if_splits)

text \<open>One iteration on a received datagram, with the receive and the cleanup resolved.\<close>

definition after_receive :: "nat \<Rightarrow> serve_input \<Rightarrow> relay_server \<Rightarrow> bytes \<Rightarrow> socket_addr \<Rightarrow> relay_server" where
  "after_receive idle inp st datagram source =
     (let (n, b) = recv_into (encoded_batch st ! 0) datagram;
          st1 = st\<lparr>encoded_batch := (encoded_batch st)[0 := b],
                   encoded_lengths := (encoded_lengths st)[0 := n],
                   batch_sources := (batch_sources st)[0 := Some source]\<rparr>
      in if RECEIVE_TIMEOUT \<le> instant inp - last_cleanup st
         then st1\<lparr>sessions := remove_idle (unix_time (wall_clock inp)) idle (sessions st),
                  last_cleanup := instant inp\<rparr>
         else st1)"

lemma serve_step_datagram:
  "received inp = Inr (datagram, source) \<Longrightarrow>
     serve_step m idle inp st = serve_batch inp m [0] (after_receive idle inp st datagram source)"
  by (simp add: serve_step_def after_receive_def recv_from_many_def Let_def case_prod_beta
      del: serve_batch.simps)

lemma after_receive_slot:
  assumes "buffers_ok st" and "length datagram \<le> BUFFER_SIZE"
  shows "slot_packet (after_receive idle inp st datagram source) = datagram"
    and "batch_sources (after_receive idle inp st datagram source) ! 0 = Some source"
    and "plain_buffer (after_receive idle inp st datagram source) = plain_buffer st"
    and "buffers_ok (after_receive idle inp st datagram source)"
proof -
  have nz: "0 < length (encoded_batch st)" "0 < length (encoded_lengths st)"
      "0 < length (batch_sources st)"
    using assms(1) by (simp_all add: buffers_ok_def BATCH_SIZE_def)
  moreover have b0: "length (encoded_batch st ! 0) = BUFFER_SIZE"
    using assms(1) nz by (auto simp: buffers_ok_def)
  ultimately show "slot_packet (after_receive idle inp st datagram source) = datagram"
    and "batch_sources (after_receive idle inp st datagram source) ! 0 = Some source"
    and "plain_buffer (after_receive idle inp st datagram source) = plain_buffer st"
    using assms(2) by (simp_all add: after_receive_def slot_packet_def recv_into_fit Let_def)
  show "buffers_ok (after_receive idle inp st datagram source)"
    using assms nz b0
    by (auto simp: after_receive_def buffers_ok_def recv_into_fit Let_def dest!: set_update_zero)
qed

lemma after_receive_buffers:
  "buffers_ok st \<Longrightarrow> buffers_ok (after_receive idle inp st datagram source) \<and>
     batch_sources (after_receive idle inp st datagram source) ! 0 = Some source"
proof -
  assume ok: "buffers_ok st"
  have nz: "0 < length (encoded_batch st)" "0 < length (batch_sources st)"
    using ok by (simp_all add: buffers_ok_def BATCH_SIZE_def)
  moreover have "length (encoded_batch st ! 0) = BUFFER_SIZE"
    using ok nz by (auto simp: buffers_ok_def)
  ultimately have "buffers_ok (after_receive idle inp st datagram source)"
    using ok by (auto simp: after_receive_def buffers_ok_def recv_into_def Let_def min_def
        dest!: set_update_zero)
  moreover have "batch_sources (after_receive idle inp st datagram source) ! 0 = Some source"
    using nz by (simp add: after_receive_def Let_def case_prod_beta)
  ultimately show ?thesis by blast
qed

lemma serve_step_buffers:
  assumes "buffers_ok st" and "serve_step m idle inp st = (r, sent, st')"
  shows "buffers_ok st'"
proof (cases "received inp")
  case (Inl e)
  then show ?thesis
    using assms by (auto simp: serve_step_def recv_from_many_def Let_def buffers_ok_def split: if_splits)
next
  case (Inr x)
  then obtain datagram source where "received inp = Inr (datagram, source)" by (cases x) auto
  then have "serve_batch inp m [0] (after_receive idle inp st datagram source) = (r, sent, st')"
    using assms(2) serve_step_datagram by metis
  then show ?thesis
    by (rule serve_batch_buffers[OF conjunct1[OF after_receive_buffers[OF assms(1)]]])
qed

lemma relay_step_buffers: "relay_step m idle st st' \<Longrightarrow> buffers_ok st \<Longrightarrow> buffers_ok st'"
proof (induction rule: relay_step.induct)
  case (iterate inp st u sent st')
  show ?case by (rule serve_step_buffers[OF iterate(3) iterate(1)])
next
  case (worker_ends st source)
  then show ?case by (simp add: buffers_ok_def)
qed

lemma relay_reachable_inv:
  "relay_reachable m idle st \<Longrightarrow> sessions_ok m (sessions st) \<and> buffers_ok st"
proof (induction rule: relay_reachable.induct)
  case (start t)
  then show ?case by (simp add: buffers_ok_initial) (simp add: sessions_ok_def initial_server_def)
next
  case (step st st')
  then show ?case using relay_step_ok relay_step_buffers by blast
qed

lemma reachable_distinct:
  "relay_reachable m idle st \<Longrightarrow> distinct (map fst (sessions st))"
  using relay_reachable_inv by (auto simp: sessions_ok_def)

section \<open>Properties\<close>

text \<open>C13: In every reachable state of the relay server, whatever packets arrive and whenever
  workers die, the session table holds at most \<open>max_clients\<close> sessions, one per client address,
  each worker answers the very address its session is filed under, and no two sessions share a
  socket towards WireGuard: a packet opens at most one socket, files it under its client only, and
  the kernel never hands out a socket that a session of the table still holds (the premise of
  \<open>relay_step\<close>).\<close>

theorem relay_sessions_bounded_and_separate:
  assumes "relay_reachable max_clients idle st"
  shows "length (sessions st) \<le> max_clients \<and> distinct (map fst (sessions st)) \<and>
     (\<forall>(client, s) \<in> set (sessions st). destination s = client) \<and>
     distinct (map (session_socket \<circ> snd) (sessions st))"
  using relay_reachable_inv[OF assms] by (auto simp: sessions_ok_def)

text \<open>A run: two clients, a third one refused, the worker of the first dies, and the first comes back.\<close>

definition packet_from :: "nat \<Rightarrow> nat \<Rightarrow> serve_input" where
  "packet_from client socket = \<lparr>received = Inr (envelope 0 [5], SocketAddrV4 1 (of_nat client)), instant = 0,
     wall_clock = Some 1000, opened_socket = Inr socket, session_send = (\<lambda>d. Inr (length d))\<rparr>"

abbreviation client_of :: "nat \<Rightarrow> socket_addr" where
  "client_of client \<equiv> SocketAddrV4 1 (of_nat client)"

definition after_packet :: "nat \<Rightarrow> nat \<Rightarrow> nat \<Rightarrow> sessions \<Rightarrow> sessions" where
  "after_packet m client socket ss =
     (let (found, ss') = get_or_create_session (Inr socket) 1000 m (client_of client) ss
      in if found = Inr None then ss' else touch (client_of client) 1000 ss')"

lemma packet_step:
  assumes "relay_reachable m idle st" and "last_cleanup st = 0" and "socket \<notin> (session_socket \<circ> snd) ` set (sessions st)"
  shows "\<exists>st'. relay_reachable m idle st' \<and> last_cleanup st' = 0 \<and> sessions st' = after_packet m client socket (sessions st)"
proof -
  let ?inp = "packet_from client socket" and ?st = "after_receive idle (packet_from client socket) st (envelope 0 [5]) (client_of client)"
  have buf: "buffers_ok st" using relay_reachable_inv[OF assms(1)] by blast
  have len: "length (envelope 0 [5]) \<le> BUFFER_SIZE"
    using seed_padding_bound[of 0]
    by (simp add: length_envelope RELAY_HEADER_SIZE_def RELAY_MAX_PADDING_def BUFFER_SIZE_def)
  note slot = after_receive_slot[OF buf len, of idle ?inp "client_of client"]
  have ss: "sessions ?st = sessions st" "last_cleanup ?st = 0"
    using assms(2) by (simp_all add: after_receive_def packet_from_def Let_def case_prod_beta RECEIVE_TIMEOUT_def)
  have "length (plain_buffer st) = BUFFER_SIZE" using buf by (simp add: buffers_ok_def)
  then have dec: "fst (decode (envelope 0 [5]) (plain_buffer st)) = Some [5]"
    by (simp add: decode_envelope BUFFER_SIZE_def)
  obtain found ss' where g: "get_or_create_session (Inr socket) 1000 m (client_of client) (sessions st) = (found, ss')"
    by (metis surj_pair)
  then have "\<not> isl found"
    by (auto simp: get_or_create_session_def new_session_def Let_def split: if_splits option.splits)
  then obtain opened where f: "found = Inr opened" by (cases found) auto
  have "\<exists>sent st'. serve_batch ?inp m [0] ?st = (Inr (), sent, st') \<and> last_cleanup st' = 0 \<and>
      sessions st' = after_packet m client socket (sessions st)"
    using slot dec g f ss
    by (cases opened) (simp_all add: Let_def case_prod_beta slot_packet_def packet_from_def unix_time_def after_packet_def)
  then obtain sent st' where st': "serve_step m idle ?inp st = (Inr (), sent, st')" "last_cleanup st' = 0"
      "sessions st' = after_packet m client socket (sessions st)"
    using serve_step_datagram[of ?inp "envelope 0 [5]" "client_of client" m idle st] by (auto simp: packet_from_def)
  have "relay_step m idle st st'"
    by (rule relay_step.iterate[OF st'(1)]) (use assms(3) in \<open>simp add: packet_from_def\<close>)
  then show ?thesis using relay_reachable.step[OF assms(1)] st' by blast
qed

definition session_view :: "sessions \<Rightarrow> (socket_addr \<times> nat \<times> bool) list" where
  "session_view ss = map (\<lambda>(k, s). (k, session_socket s, worker_alive s)) ss"

theorem relay_sessions_bounded_and_separate_witness:
  "\<exists>st. relay_reachable 2 180 st \<and> session_view (sessions st) = [(client_of 2, 8, True), (client_of 1, 9, True)] \<and>
     length (sessions st) \<le> 2 \<and> distinct (map fst (sessions st)) \<and> distinct (map (session_socket \<circ> snd) (sessions st))"
proof -
  define s where "s = (\<lambda>socket client alive. \<lparr>session_socket = socket, last_seen = 1000, worker_alive = alive, destination = client\<rparr>)"
  let ?A = "client_of 1" and ?B = "client_of 2"
  have ab: "?A \<noteq> ?B" "client_of 3 \<notin> {?A, ?B}" by simp_all
  note eval = after_packet_def get_or_create_session_def new_session_def touch_def s_def Let_def
  obtain st1 where st1: "relay_reachable 2 180 st1" "last_cleanup st1 = 0" "sessions st1 = [(?A, s 7 ?A True)]"
    using packet_step[OF relay_reachable.start[of 2 180 0], of 7 1] by (auto simp: initial_server_def eval)
  obtain st2 where st2: "relay_reachable 2 180 st2" "last_cleanup st2 = 0" "sessions st2 = [(?A, s 7 ?A True), (?B, s 8 ?B True)]"
    using packet_step[OF st1(1,2), of 8 2] st1(3) by (auto simp: eval)
  obtain st3 where st3: "relay_reachable 2 180 st3" "last_cleanup st3 = 0" "sessions st3 = sessions st2"
    using packet_step[OF st2(1,2), of 9 3] st2(3) by (auto simp: eval)
  define st4 where "st4 = st3\<lparr>sessions := worker_ended ?A (sessions st3)\<rparr>"
  have st4: "relay_reachable 2 180 st4" "last_cleanup st4 = 0" "sessions st4 = [(?A, s 7 ?A False), (?B, s 8 ?B True)]"
    using relay_reachable.step[OF st3(1) relay_step.worker_ends[of 2 180 st3 ?A]] st3(2,3) st2(3)
    by (simp_all add: st4_def) (simp add: worker_ended_def s_def)
  obtain st5 where st5: "relay_reachable 2 180 st5" "sessions st5 = [(?B, s 8 ?B True), (?A, s 9 ?A True)]"
    using packet_step[OF st4(1,2), of 9 1] st4(3) by (auto simp: eval)
  then show ?thesis
    using relay_sessions_bounded_and_separate[OF st5(1)] by (auto simp: session_view_def s_def)
qed

text \<open>C24: Clients are isolated: a packet from one address leaves every other client's session as
  it is (or removes it, and then only because it is idle), and what the packet makes the relay
  send to WireGuard is the decoded packet itself and leaves from the live session of that
  address.\<close>

theorem serve_step_isolates_clients:
  assumes "relay_reachable max_clients idle st"
    and "received inp = Inr (datagram, source)" and "length datagram \<le> BUFFER_SIZE"
    and "serve_step max_clients idle inp st = (r, sent, st')"
  shows "(\<forall>k. k \<noteq> source \<longrightarrow> map_of (sessions st') k = map_of (sessions st) k \<or>
       (map_of (sessions st') k = None \<and>
        (\<exists>s. map_of (sessions st) k = Some s \<and>
             is_idle (unix_time (wall_clock inp)) (last_seen s) idle))) \<and>
     (\<forall>(socket, d) \<in> set sent. \<exists>s. map_of (sessions st') source = Some s \<and>
       session_socket s = socket \<and> worker_alive s \<and>
       fst (decode datagram (plain_buffer st)) = Some d)"
proof (rule conjI)
  let ?st = "after_receive idle inp st datagram source"
  have buf: "buffers_ok st" using relay_reachable_inv[OF assms(1)] by blast
  note slot = after_receive_slot[OF buf assms(3), of idle inp source]
  have step: "serve_batch inp max_clients [0] ?st = (r, sent, st')"
    using assms(4) serve_step_datagram[OF assms(2)] by simp
  have clean: "map_of (sessions ?st) k = map_of (sessions st) k \<or>
      (map_of (sessions ?st) k = None \<and> (\<exists>s. map_of (sessions st) k = Some s \<and>
         is_idle (unix_time (wall_clock inp)) (last_seen s) idle))" for k
    using map_of_remove_idle[OF reachable_distinct[OF assms(1)],
        of "unix_time (wall_clock inp)" idle k]
    by (auto simp: after_receive_def Let_def case_prod_beta split: option.splits)
  show "\<forall>k. k \<noteq> source \<longrightarrow> map_of (sessions st') k = map_of (sessions st) k \<or>
       (map_of (sessions st') k = None \<and>
        (\<exists>s. map_of (sessions st) k = Some s \<and>
             is_idle (unix_time (wall_clock inp)) (last_seen s) idle))"
    using serve_batch_isolated(1)[OF slot(2) step] clean by metis
  show "\<forall>(socket, d) \<in> set sent. \<exists>s. map_of (sessions st') source = Some s \<and>
       session_socket s = socket \<and> worker_alive s \<and> fst (decode datagram (plain_buffer st)) = Some d"
    using serve_batch_isolated(2)[OF slot(2) step] slot(1,3) by simp
qed

definition example_input :: "bytes \<Rightarrow> serve_input" where
  "example_input d = \<lparr>received = Inr (d, SocketAddrV4 1 2), instant = 0, wall_clock = Some 1000,
     opened_socket = Inr 7, session_send = (\<lambda>d. Inr (length d))\<rparr>"

theorem serve_step_isolates_clients_witness:
  "\<exists>r sent st'. serve_step 2 180 (example_input (envelope 0 [5])) (initial_server 0) = (r, sent, st')
     \<and> (\<forall>(socket, d) \<in> set sent. \<exists>s. map_of (sessions st') (SocketAddrV4 1 2) = Some s \<and>
          session_socket s = socket)"
proof -
  have len: "length (envelope 0 [5]) \<le> BUFFER_SIZE"
    using seed_padding_bound[of 0]
    by (simp add: length_envelope RELAY_HEADER_SIZE_def RELAY_MAX_PADDING_def BUFFER_SIZE_def)
  obtain r sent st' where
    step: "serve_step 2 180 (example_input (envelope 0 [5])) (initial_server 0) = (r, sent, st')"
    by (metis prod_cases3)
  have rcv: "received (example_input (envelope 0 [5])) = Inr (envelope 0 [5], SocketAddrV4 1 2)"
    by (simp add: example_input_def)
  show ?thesis
    using step serve_step_isolates_clients[OF relay_reachable.start rcv len step] by fast
qed

text \<open>A datagram that is not a well-formed envelope opens no session, touches none and is
  not forwarded: after it the table is a part of the table before, with only idle sessions
  gone, and the loop goes on.\<close>

theorem serve_step_ignores_garbage:
  assumes "relay_reachable max_clients idle st"
    and "received inp = Inr (datagram, source)" and "length datagram \<le> BUFFER_SIZE"
    and "fst (decode datagram (plain_buffer st)) = None"
  shows "\<exists>st'. serve_step max_clients idle inp st = (Inr (), [], st') \<and>
     (sessions st' = sessions st \<or>
      sessions st' = remove_idle (unix_time (wall_clock inp)) idle (sessions st))"
proof -
  let ?st = "after_receive idle inp st datagram source"
  have buf: "buffers_ok st" using relay_reachable_inv[OF assms(1)] by blast
  note slot = after_receive_slot[OF buf assms(3), of idle inp source]
  have "serve_batch inp max_clients [0] ?st = (Inr (), [], ?st)"
    using assms(4) slot(1,3) by (intro serve_batch_garbage) simp
  then show ?thesis
    using serve_step_datagram[OF assms(2)]
    by (auto simp: after_receive_def Let_def case_prod_beta)
qed

theorem serve_step_ignores_garbage_witness:
  "\<exists>st'. serve_step 2 180 (example_input [1, 2, 3]) (initial_server 0) = (Inr (), [], st') \<and>
     (sessions st' = [] \<or> sessions st' = remove_idle (unix_time (Some 1000)) 180 [])"
proof -
  have rcv: "received (example_input [1, 2, 3]) = Inr ([1, 2, 3], SocketAddrV4 1 2)"
    by (simp add: example_input_def)
  have len: "length [1, 2, 3 :: u8] \<le> BUFFER_SIZE" by (simp add: BUFFER_SIZE_def)
  have bad: "fst (decode [1, 2, 3] (plain_buffer (initial_server 0))) = None"
    by (rule decode_short) (simp add: RELAY_HEADER_SIZE_def)
  show ?thesis
    using serve_step_ignores_garbage[OF relay_reachable.start rcv len bad]
    by (simp add: example_input_def initial_server_def)
qed

end
