(* ===== verification/Kdf.thy ===== *)
theory Kdf
  imports Prelude
begin

text \<open>
  The memory-bounded scrypt of \<^verbatim>\<open>gofro-kdf/src/lib.rs\<close>: Salsa20/8, BlockMix and the checkpointed
  ROMix that keeps every eighth block. PBKDF2-HMAC-SHA256 is OpenSSL's and is a parameter:
  it takes password, salt, iteration count and output length. Arrays are lists of fixed length;
  the scratch array that \<^verbatim>\<open>block_mix\<close> overwrites is passed along like every other array.

  The second half states scrypt as RFC 7914 does, with the dense table of all blocks and the
  full-width Integerify, and proves the checkpointed code equal to it.
\<close>

unbundle bit_operations_syntax

section \<open>The code\<close>

definition SCRYPT_N :: nat where "SCRYPT_N = 16384"
definition SCRYPT_R :: nat where "SCRYPT_R = 8"
definition STRIDE :: nat where "STRIDE = 8"
definition WORDS :: nat where "WORDS = 32 * SCRYPT_R"
definition BYTES :: nat where "BYTES = WORDS * 4"
definition CHECKPOINT_BYTES :: nat where "CHECKPOINT_BYTES = SCRYPT_N div STRIDE * BYTES"

lemmas kdf_consts = SCRYPT_N_def SCRYPT_R_def STRIDE_def WORDS_def BYTES_def CHECKPOINT_BYTES_def

definition quarter_round :: "nat \<Rightarrow> nat \<Rightarrow> nat \<Rightarrow> nat \<Rightarrow> u32 list \<Rightarrow> u32 list" where
  "quarter_round a b c d s0 =
     (let s1 = s0[b := s0 ! b XOR rotate_left32 7 (s0 ! a + s0 ! d)];
          s2 = s1[c := s1 ! c XOR rotate_left32 9 (s1 ! b + s1 ! a)];
          s3 = s2[d := s2 ! d XOR rotate_left32 13 (s2 ! c + s2 ! b)]
      in s3[a := s3 ! a XOR rotate_left32 18 (s3 ! d + s3 ! c)])"

definition double_round :: "u32 list \<Rightarrow> u32 list" where
  "double_round =
     quarter_round 15 12 13 14 \<circ> quarter_round 10 11 8 9 \<circ>
     quarter_round 5 6 7 4 \<circ> quarter_round 0 1 2 3 \<circ>
     quarter_round 15 3 7 11 \<circ> quarter_round 10 14 2 6 \<circ>
     quarter_round 5 9 13 1 \<circ> quarter_round 0 4 8 12"

definition salsa8 :: "u32 list \<Rightarrow> u32 list" where
  "salsa8 block = map2 (+) block ((double_round ^^ 4) block)"

text \<open>One turn of the loop of \<^verbatim>\<open>block_mix\<close>: the Salsa state and the scratch array.\<close>

definition mix_chunk :: "u32 list \<Rightarrow> nat \<Rightarrow> u32 list \<times> u32 list \<Rightarrow> u32 list \<times> u32 list" where
  "mix_chunk block index = (\<lambda>(state, scratch).
     let state' = salsa8 (map2 (XOR) state (take 16 (drop (index * 16) block)));
         dest = (index div 2 + (if index mod 2 = 0 then 0 else SCRYPT_R)) * 16
     in (state', copy_slice dest state' scratch))"

definition block_mix :: "u32 list \<Rightarrow> u32 list \<Rightarrow> u32 list \<times> u32 list" where
  "block_mix block scratch =
     (let scratch' = snd (fold (mix_chunk block) [0..<2 * SCRYPT_R]
                            (drop (WORDS - 16) block, scratch))
      in (scratch', scratch'))"

record romix_state =
  block :: "u32 list"
  checkpoints :: "u32 list"
  scratch :: "u32 list"

definition fill_step :: "nat \<Rightarrow> romix_state \<Rightarrow> romix_state" where
  "fill_step index st =
     (let cps = (if index mod STRIDE = 0
                 then copy_slice (index div STRIDE * WORDS) (block st) (checkpoints st)
                 else checkpoints st);
          (b, s) = block_mix (block st) (scratch st)
      in \<lparr>block = b, checkpoints = cps, scratch = s\<rparr>)"

definition mix_step :: "romix_state \<Rightarrow> romix_state" where
  "mix_step st =
     (let index = unat (block st ! (WORDS - 16) AND of_nat (SCRYPT_N - 1));
          start = index div STRIDE * WORDS;
          (reconstructed, s) =
            ((\<lambda>(r, s). block_mix r s) ^^ (index mod STRIDE))
              (take WORDS (drop start (checkpoints st)), scratch st);
          (b, s') = block_mix (map2 (XOR) (block st) reconstructed) s
      in st\<lparr>block := b, scratch := s'\<rparr>)"

definition romix :: "u32 list \<Rightarrow> u32 list" where
  "romix b =
     (let st0 = \<lparr>block = b, checkpoints = replicate (CHECKPOINT_BYTES div 4) 0,
                 scratch = replicate WORDS 0\<rparr>;
          st1 = fold fill_step [0..<SCRYPT_N] st0
      in block ((mix_step ^^ SCRYPT_N) st1))"

fun chunks4 :: "'a list \<Rightarrow> 'a list list" where
  "chunks4 (a # b # c # d # rest) = [a, b, c, d] # chunks4 rest"
| "chunks4 rest = []"

type_synonym 'e pbkdf2 = "bytes \<Rightarrow> bytes \<Rightarrow> nat \<Rightarrow> nat \<Rightarrow> 'e + bytes"

definition scrypt :: "'e pbkdf2 \<Rightarrow> bytes \<Rightarrow> bytes \<Rightarrow> nat \<Rightarrow> 'e + bytes" where
  "scrypt pbkdf2 password salt output_len =
     and_then (pbkdf2 password salt 1 BYTES) (\<lambda>derived.
       let b = map from_le_bytes (chunks4 derived);
           mixed = romix b
       in pbkdf2 password (concat (map (to_le_bytes 4) mixed)) 1 output_len)"

section \<open>RFC 7914\<close>

text \<open>BlockMix: the chain of Salsa outputs, then the even ones followed by the odd ones.\<close>

primrec salsa_chain :: "u32 list \<Rightarrow> u32 list list \<Rightarrow> u32 list list" where
  "salsa_chain x [] = []"
| "salsa_chain x (b # bs) = (let y = salsa8 (map2 (XOR) x b) in y # salsa_chain y bs)"

definition block_chunks :: "u32 list \<Rightarrow> u32 list list" where
  "block_chunks b = map (\<lambda>i. take 16 (drop (i * 16) b)) [0..<2 * SCRYPT_R]"

definition rfc_block_mix :: "u32 list \<Rightarrow> u32 list" where
  "rfc_block_mix b =
     (let ys = salsa_chain (last (block_chunks b)) (block_chunks b)
      in concat (map (\<lambda>i. ys ! (2 * i)) [0..<SCRYPT_R] @ map (\<lambda>i. ys ! (2 * i + 1)) [0..<SCRYPT_R]))"

text \<open>Integerify reads the last 64-byte chunk as one little-endian number.\<close>

primrec le_number :: "u32 list \<Rightarrow> nat" where
  "le_number [] = 0"
| "le_number (w # ws) = unat w + 2 ^ 32 * le_number ws"

definition integerify :: "u32 list \<Rightarrow> nat" where
  "integerify b = le_number (drop (WORDS - 16) b)"

text \<open>ROMix with the dense table \<open>V\<close> of all \<open>N\<close> blocks.\<close>

definition dense_table :: "u32 list \<Rightarrow> u32 list list" where
  "dense_table b = map (\<lambda>i. (rfc_block_mix ^^ i) b) [0..<SCRYPT_N]"

definition rfc_mix :: "u32 list list \<Rightarrow> u32 list \<Rightarrow> u32 list" where
  "rfc_mix v x = rfc_block_mix (map2 (XOR) x (v ! (integerify x mod SCRYPT_N)))"

definition rfc_romix :: "u32 list \<Rightarrow> u32 list" where
  "rfc_romix b = (rfc_mix (dense_table b) ^^ SCRYPT_N) ((rfc_block_mix ^^ SCRYPT_N) b)"

definition rfc_scrypt :: "'e pbkdf2 \<Rightarrow> bytes \<Rightarrow> bytes \<Rightarrow> nat \<Rightarrow> 'e + bytes" where
  "rfc_scrypt pbkdf2 password salt output_len =
     and_then (pbkdf2 password salt 1 BYTES) (\<lambda>derived.
       pbkdf2 password (concat (map (to_le_bytes 4) (rfc_romix (map from_le_bytes (chunks4 derived)))))
         1 output_len)"

text \<open>A byte source of any length, to instantiate the PBKDF2 parameter with.\<close>

definition cycle_bytes :: "nat \<Rightarrow> bytes \<Rightarrow> bytes" where
  "cycle_bytes k seed = concat (replicate k (0 # seed))"

lemma length_cycle_bytes: "k \<le> length (cycle_bytes k seed)"
  by (simp add: cycle_bytes_def length_concat sum_list_replicate)

section \<open>BlockMix\<close>

lemma length_quarter_round [simp]: "length (quarter_round a b c d s) = length s"
  by (simp add: quarter_round_def Let_def)

lemma length_double_round [simp]: "length (double_round s) = length s"
  by (simp add: double_round_def)

lemma length_salsa8 [simp]: "length (salsa8 b) = length b"
proof -
  have "length ((double_round ^^ n) b) = length b" for n
    by (induction n) simp_all
  then show ?thesis by (simp add: salsa8_def)
qed

lemma sixteen: "2 * SCRYPT_R = 16" by (simp add: SCRYPT_R_def)

lemma length_salsa_chain [simp]: "length (salsa_chain x bs) = length bs"
  by (induction bs arbitrary: x) (auto simp: Let_def)

lemma salsa_chain_lengths:
  "length x = 16 \<Longrightarrow> \<forall>b \<in> set bs. length b = 16 \<Longrightarrow> \<forall>y \<in> set (salsa_chain x bs). length y = 16"
proof (induction bs arbitrary: x)
  case Nil
  then show ?case by simp
next
  case (Cons b bs)
  let ?y = "salsa8 (map2 (XOR) x b)"
  have len: "length ?y = 16" using Cons.prems by simp
  have "\<forall>b \<in> set bs. length b = 16" using Cons.prems(2) by simp
  then have "\<forall>y \<in> set (salsa_chain ?y bs). length y = 16" by (rule Cons.IH[OF len])
  then show ?case using len by (simp only: salsa_chain.simps Let_def set_simps ball_simps)
qed

lemma salsa_chain_snoc:
  "salsa_chain x (bs @ [b]) =
     salsa_chain x bs @ [salsa8 (map2 (XOR) (last (x # salsa_chain x bs)) b)]"
  by (induction bs arbitrary: x) (auto simp: Let_def)

text \<open>Where \<open>mix_chunk\<close> puts the output of turn \<open>i\<close>.\<close>

definition dest_slot :: "nat \<Rightarrow> nat" where
  "dest_slot i = i div 2 + (if i mod 2 = 0 then 0 else SCRYPT_R)"

definition slot :: "nat \<Rightarrow> u32 list \<Rightarrow> u32 list" where
  "slot j s = take 16 (drop (j * 16) s)"

lemma dest_slot_bound: "i < 16 \<Longrightarrow> dest_slot i < 16"
  unfolding dest_slot_def SCRYPT_R_def by auto

lemma dest_slot_inj: "i < 16 \<Longrightarrow> j < 16 \<Longrightarrow> dest_slot i = dest_slot j \<Longrightarrow> i = j"
  unfolding dest_slot_def SCRYPT_R_def by presburger

lemma slot_copy:
  assumes "length s = 256" and "length y = 16" and "i < 16" and "j < 16"
  shows "slot j (copy_slice (i * 16) y s) = (if i = j then y else slot j s)"
proof (cases i j rule: linorder_cases)
  case less
  then show ?thesis
    using assms by (simp add: slot_def slice_copy_slice_after)
next
  case equal
  then show ?thesis using assms by (simp add: slot_def slice_copy_slice_same)
next
  case greater
  then show ?thesis
    using assms by (simp add: slot_def slice_copy_slice_before)
qed

lemma mix_fold:
  fixes b s :: "u32 list"
  defines "cs \<equiv> block_chunks b"
  assumes b: "length b = 256" and s: "length s = 256" and k: "k \<le> 16"
  defines "res \<equiv> fold (mix_chunk b) [0..<k] (drop (WORDS - 16) b, s)"
  shows "fst res = last (drop (WORDS - 16) b # salsa_chain (drop (WORDS - 16) b) (take k cs)) \<and>
         length (snd res) = 256 \<and>
         (\<forall>i < k. slot (dest_slot i) (snd res) = salsa_chain (drop (WORDS - 16) b) (take k cs) ! i)"
  using k unfolding res_def
proof (induction k)
  case 0
  then show ?case using s by simp
next
  case (Suc k)
  let ?x = "drop (WORDS - 16) b"
  let ?r = "fold (mix_chunk b) [0..<k] (?x, s)"
  let ?ys = "salsa_chain ?x (take k cs)"
  have lx: "length ?x = 16" using b by (simp add: kdf_consts)
  have lcs: "length cs = 16" and ck: "cs ! k = take 16 (drop (k * 16) b)"
    using Suc.prems by (simp_all add: cs_def block_chunks_def sixteen)
  have c16: "\<forall>c \<in> set cs. length c = 16"
    using b by (auto simp: cs_def block_chunks_def sixteen)
  have IH: "fst ?r = last (?x # ?ys)" "length (snd ?r) = 256"
    "\<forall>i < k. slot (dest_slot i) (snd ?r) = ?ys ! i"
    using Suc by auto
  let ?y = "salsa8 (map2 (XOR) (last (?x # ?ys)) (cs ! k))"
  have tk: "take (Suc k) cs = take k cs @ [cs ! k]"
    using Suc.prems lcs by (simp add: take_Suc_conv_app_nth)
  have chain: "salsa_chain ?x (take (Suc k) cs) = ?ys @ [?y]"
    by (simp add: tk salsa_chain_snoc)
  have "\<forall>y \<in> set ?ys. length y = 16"
    using lx c16 by (intro salsa_chain_lengths) (auto dest: in_set_takeD)
  then have ylen: "length ?y = 16"
    using lx c16 Suc.prems lcs last_in_set[of "?x # ?ys"] by auto
  have step: "fold (mix_chunk b) [0..<Suc k] (?x, s)
      = (?y, copy_slice (dest_slot k * 16) ?y (snd ?r))"
    using IH(1) ck by (simp add: mix_chunk_def dest_slot_def case_prod_beta Let_def)
  have bound: "dest_slot k * 16 + length ?y \<le> length (snd ?r)"
    using dest_slot_bound[of k] Suc.prems ylen IH(2) by simp
  have "slot (dest_slot i) (copy_slice (dest_slot k * 16) ?y (snd ?r)) = (?ys @ [?y]) ! i"
    if "i < Suc k" for i
  proof -
    have "slot (dest_slot i) (copy_slice (dest_slot k * 16) ?y (snd ?r)) =
        (if dest_slot k = dest_slot i then ?y else slot (dest_slot i) (snd ?r))"
      using that Suc.prems ylen IH(2) by (intro slot_copy dest_slot_bound) auto
    also have "\<dots> = (?ys @ [?y]) ! i"
      using that Suc.prems IH(3) lcs dest_slot_inj[of k i] by (auto simp: nth_append less_Suc_eq)
    finally show ?thesis .
  qed
  then show ?case
    using step chain bound IH(2) by simp
qed

text \<open>A 256-word array is the concatenation of its sixteen slots.\<close>

lemma concat_slots:
  assumes "length s = 16 * n"
  shows "concat (map (\<lambda>j. slot j s) [0..<n]) = s"
  using assms
proof (induction n arbitrary: s)
  case 0
  then show ?case by simp
next
  case (Suc n)
  have "map (\<lambda>j. slot j s) [0..<n] = map (\<lambda>j. slot j (take (16 * n) s)) [0..<n]"
    by (auto simp: slot_def drop_take min_def)
  moreover have "slot n s = drop (16 * n) s"
    using Suc.prems by (simp add: slot_def mult.commute)
  moreover have "concat (map (\<lambda>j. slot j (take (16 * n) s)) [0..<n]) = take (16 * n) s"
    using Suc.prems by (intro Suc.IH) simp
  ultimately have "concat (map (\<lambda>j. slot j s) [0..<Suc n]) = take (16 * n) s @ drop (16 * n) s"
    by (simp only: upt_Suc_append map_append concat_append) simp
  then show ?case by simp
qed

lemma block_mix_eq:
  assumes b: "length b = WORDS" and s: "length s = WORDS"
  shows "block_mix b s = (rfc_block_mix b, rfc_block_mix b)"
proof -
  let ?x = "drop (WORDS - 16) b"
  let ?res = "fold (mix_chunk b) [0..<16] (?x, s)"
  let ?ys = "salsa_chain ?x (block_chunks b)"
  have len: "length b = 256" "length s = 256" using b s by (simp_all add: kdf_consts)
  have lcs: "length (block_chunks b) = 16" by (simp add: block_chunks_def sixteen)
  have f: "length (snd ?res) = 256" "\<forall>i < 16. slot (dest_slot i) (snd ?res) = ?ys ! i"
    using mix_fold[OF len, of 16] lcs by simp_all
  have last_chunk: "last (block_chunks b) = ?x"
    using len(1) by (simp add: block_chunks_def kdf_consts last_map)
  have slots: "map (\<lambda>j. slot j (snd ?res)) [0..<16]
      = map (\<lambda>i. ?ys ! (2 * i)) [0..<SCRYPT_R] @ map (\<lambda>i. ?ys ! (2 * i + 1)) [0..<SCRYPT_R]"
  proof (rule nth_equalityI)
    fix j
    assume "j < length (map (\<lambda>j. slot j (snd ?res)) [0..<16])"
    then have j: "j < 16" by simp
    let ?i = "if j < 8 then 2 * j else 2 * (j - 8) + 1"
    have "dest_slot ?i = j" and "?i < 16"
      using j by (auto simp: dest_slot_def SCRYPT_R_def)
    then have "slot j (snd ?res) = ?ys ! ?i" using f(2) by metis
    then show "map (\<lambda>j. slot j (snd ?res)) [0..<16] ! j =
        (map (\<lambda>i. ?ys ! (2 * i)) [0..<SCRYPT_R] @ map (\<lambda>i. ?ys ! (2 * i + 1)) [0..<SCRYPT_R]) ! j"
      using j by (auto simp: nth_append SCRYPT_R_def)
  qed (simp add: SCRYPT_R_def)
  have "snd ?res = concat (map (\<lambda>j. slot j (snd ?res)) [0..<16])"
    using concat_slots[of "snd ?res" 16] f(1) by simp
  then have "snd ?res = rfc_block_mix b"
    unfolding slots by (simp only: rfc_block_mix_def last_chunk Let_def)
  then show ?thesis by (simp add: block_mix_def sixteen Let_def del: upt_Suc)
qed

lemma length_rfc_block_mix: "length b = WORDS \<Longrightarrow> length (rfc_block_mix b) = WORDS"
proof -
  assume b: "length b = WORDS"
  have lcs: "length (block_chunks b) = 16" by (simp add: block_chunks_def sixteen)
  have "\<forall>c \<in> set (block_chunks b). length c = 16"
    using b by (auto simp: block_chunks_def kdf_consts)
  moreover from this have "length (last (block_chunks b)) = 16"
    using lcs last_in_set[of "block_chunks b"] by fastforce
  ultimately have "\<forall>y \<in> set (salsa_chain (last (block_chunks b)) (block_chunks b)). length y = 16"
    by (intro salsa_chain_lengths) auto
  then have len: "\<And>i. i < 16 \<Longrightarrow>
      length (salsa_chain (last (block_chunks b)) (block_chunks b) ! i) = 16"
    using lcs by simp
  then have "length (rfc_block_mix b) = sum_list (replicate 16 16)"
    unfolding rfc_block_mix_def Let_def length_concat
    by (intro arg_cong[of _ _ sum_list] nth_equalityI)
      (auto simp: SCRYPT_R_def nth_append)
  then show ?thesis by (simp add: kdf_consts eval_nat_numeral)
qed

lemma length_pow_block_mix: "length b = WORDS \<Longrightarrow> length ((rfc_block_mix ^^ n) b) = WORDS"
  by (induction n) (simp_all add: length_rfc_block_mix)

lemma block_mix_pow:
  assumes "length b = WORDS" and "length s = WORDS"
  shows "\<exists>s'. ((\<lambda>(r, s). block_mix r s) ^^ n) (b, s) = ((rfc_block_mix ^^ n) b, s') \<and> length s' = WORDS"
proof (induction n)
  case 0
  then show ?case using assms by simp
next
  case (Suc n)
  then obtain s' where "((\<lambda>(r, s). block_mix r s) ^^ n) (b, s) = ((rfc_block_mix ^^ n) b, s')"
    "length s' = WORDS" by blast
  then show ?case
    using assms block_mix_eq[of "(rfc_block_mix ^^ n) b" s'] length_pow_block_mix[OF assms(1), of n]
    by (simp add: length_rfc_block_mix)
qed

section \<open>ROMix\<close>

text \<open>After \<open>k\<close> turns every checkpoint below \<open>k\<close> holds its block.\<close>

definition fill_inv :: "u32 list \<Rightarrow> nat \<Rightarrow> romix_state \<Rightarrow> bool" where
  "fill_inv b k st \<longleftrightarrow>
     block st = (rfc_block_mix ^^ k) b \<and> length (scratch st) = WORDS \<and>
     length (checkpoints st) = SCRYPT_N div STRIDE * WORDS \<and>
     (\<forall>j. STRIDE * j < k \<longrightarrow>
        take WORDS (drop (j * WORDS) (checkpoints st)) = (rfc_block_mix ^^ (STRIDE * j)) b)"

lemma fill_inv_step:
  assumes b: "length b = WORDS" and inv: "fill_inv b k st" and k: "k < SCRYPT_N"
  shows "fill_inv b (Suc k) (fill_step k st)"
proof -
  have len: "length (block st) = WORDS"
    using inv b by (simp add: fill_inv_def length_pow_block_mix)
  have mix: "block_mix (block st) (scratch st)
      = (rfc_block_mix (block st), rfc_block_mix (block st))"
    using inv len by (intro block_mix_eq) (simp_all add: fill_inv_def)
  let ?cps = "checkpoints (fill_step k st)"
  have basics: "block (fill_step k st) = (rfc_block_mix ^^ Suc k) b"
    "length (scratch (fill_step k st)) = WORDS"
    using inv len mix by (simp_all add: fill_step_def fill_inv_def length_rfc_block_mix)
  show ?thesis
  proof (cases "k mod STRIDE = 0")
    case True
    let ?i = "k div STRIDE"
    have ki: "k = STRIDE * ?i" using True by auto
    have ib: "?i < SCRYPT_N div STRIDE" using k by (simp add: kdf_consts)
    have fits: "?i * WORDS + length (block st) \<le> length (checkpoints st)"
    proof -
      have "Suc ?i * WORDS \<le> SCRYPT_N div STRIDE * WORDS" using ib by (intro mult_le_mono1) simp
      then show ?thesis using inv len by (simp add: fill_inv_def)
    qed
    have cps: "?cps = copy_slice (?i * WORDS) (block st) (checkpoints st)"
      using True mix by (simp add: fill_step_def Let_def)
    have "take WORDS (drop (j * WORDS) ?cps) = (rfc_block_mix ^^ (STRIDE * j)) b"
      if "STRIDE * j < Suc k" for j
    proof (cases "j = ?i")
      case True
      then show ?thesis
        using cps fits len inv ki by (simp add: slice_copy_slice_same fill_inv_def)
    next
      case False
      then have ji: "j < ?i" using that ki by (simp add: STRIDE_def)
      then have "Suc j * WORDS \<le> ?i * WORDS" by (intro mult_le_mono1) simp
      then have "take WORDS (drop (j * WORDS) ?cps) = take WORDS (drop (j * WORDS) (checkpoints st))"
        using cps fits by (simp add: slice_copy_slice_before)
      moreover have "STRIDE * j < k" using ji ki by (simp add: STRIDE_def)
      ultimately show ?thesis using inv by (simp add: fill_inv_def)
    qed
    then show ?thesis
      using basics cps fits inv by (simp add: fill_inv_def)
  next
    case False
    have cps: "?cps = checkpoints st" using False mix by (simp add: fill_step_def Let_def)
    have "STRIDE * j < k" if "STRIDE * j < Suc k" for j
      using that False by (metis less_SucE mod_mult_self1_is_0)
    then show ?thesis using basics cps inv by (simp add: fill_inv_def)
  qed
qed

lemma fill_inv_all:
  assumes "length b = WORDS" and "k \<le> SCRYPT_N"
  shows "fill_inv b k (fold fill_step [0..<k] \<lparr>block = b,
     checkpoints = replicate (CHECKPOINT_BYTES div 4) 0, scratch = replicate WORDS 0\<rparr>)"
  using assms(2)
proof (induction k)
  case 0
  then show ?case by (simp add: fill_inv_def kdf_consts)
next
  case (Suc k)
  then show ?case using fill_inv_step[OF assms(1), of k] by simp
qed

lemma mod_mask_14: "unat (w AND of_nat (SCRYPT_N - 1) :: u32) = unat w mod SCRYPT_N"
proof -
  have "(of_nat (SCRYPT_N - 1) :: u32) = mask 14"
    by (simp add: SCRYPT_N_def mask_eq_exp_minus_1)
  then have "w AND of_nat (SCRYPT_N - 1) = take_bit 14 w"
    by (simp add: take_bit_eq_mask)
  then have "unat (w AND of_nat (SCRYPT_N - 1)) = take_bit 14 (unat w)"
    by (simp only: unsigned_take_bit_eq)
  then show ?thesis by (simp only: take_bit_eq_mod) (simp add: SCRYPT_N_def)
qed

text \<open>Only the low word of Integerify matters modulo \<open>N\<close>.\<close>

lemma integerify_low_word:
  assumes "length x = WORDS"
  shows "unat (x ! (WORDS - 16) AND of_nat (SCRYPT_N - 1)) = integerify x mod SCRYPT_N"
proof -
  have "drop (WORDS - 16) x = x ! (WORDS - 16) # drop (Suc (WORDS - 16)) x"
    using assms by (subst Cons_nth_drop_Suc) (simp_all add: kdf_consts)
  then have "integerify x = unat (x ! (WORDS - 16)) + SCRYPT_N * (2 ^ 18 * le_number (drop (Suc (WORDS - 16)) x))"
    by (simp add: integerify_def SCRYPT_N_def)
  then have "integerify x mod SCRYPT_N = unat (x ! (WORDS - 16)) mod SCRYPT_N"
    by (simp only: mod_mult_self2)
  then show ?thesis by (simp only: mod_mask_14)
qed

lemma mix_step_eq:
  assumes b: "length b = WORDS" and blk: "length (block st) = WORDS"
    and scr: "length (scratch st) = WORDS"
    and cps: "\<And>j. STRIDE * j < SCRYPT_N \<Longrightarrow>
      take WORDS (drop (j * WORDS) (checkpoints st)) = (rfc_block_mix ^^ (STRIDE * j)) b"
  shows "\<exists>s'. mix_step st = st\<lparr>block := rfc_mix (dense_table b) (block st), scratch := s'\<rparr>
     \<and> length s' = WORDS"
proof -
  let ?i = "integerify (block st) mod SCRYPT_N"
  have i: "?i < SCRYPT_N" by (simp add: SCRYPT_N_def)
  let ?q = "STRIDE * (?i div STRIDE)"
  have q: "?q < SCRYPT_N" "?q + ?i mod STRIDE = ?i" using i by (simp_all add: STRIDE_def)
  let ?cp = "take WORDS (drop (?i div STRIDE * WORDS) (checkpoints st))"
  have cp: "?cp = (rfc_block_mix ^^ ?q) b" using cps[OF q(1)] .
  then have lcp: "length ?cp = WORDS" using b by (simp only: length_pow_block_mix)
  obtain s1 where rec: "((\<lambda>(r, s). block_mix r s) ^^ (?i mod STRIDE)) (?cp, scratch st)
      = ((rfc_block_mix ^^ (?i mod STRIDE)) ?cp, s1)" "length s1 = WORDS"
    using block_mix_pow[OF lcp scr] by blast
  have "(rfc_block_mix ^^ (?i mod STRIDE)) ?cp = (rfc_block_mix ^^ (?i mod STRIDE + ?q)) b"
    by (simp only: cp funpow_add o_apply)
  also have "\<dots> = dense_table b ! ?i"
    using i q(2) by (simp add: dense_table_def add.commute)
  finally have v: "(rfc_block_mix ^^ (?i mod STRIDE)) ?cp = dense_table b ! ?i" .
  let ?x = "map2 (XOR) (block st) (dense_table b ! ?i)"
  have "length ?x = WORDS"
    using blk b i by (simp add: dense_table_def length_pow_block_mix)
  then have mix: "block_mix ?x s1 = (rfc_block_mix ?x, rfc_block_mix ?x)"
    "length (rfc_block_mix ?x) = WORDS"
    using rec(2) by (simp_all add: block_mix_eq length_rfc_block_mix)
  show ?thesis
    unfolding mix_step_def integerify_low_word[OF blk] Let_def rec(1) v prod.case mix(1)
    using mix(2) by (auto simp: rfc_mix_def)
qed

lemma length_rfc_mix:
  assumes "length b = WORDS" and "length x = WORDS"
  shows "length (rfc_mix (dense_table b) x) = WORDS"
proof -
  have "length (dense_table b ! (integerify x mod SCRYPT_N)) = WORDS"
    using assms(1) by (simp add: dense_table_def length_pow_block_mix SCRYPT_N_def)
  then show ?thesis using assms(2) by (simp add: rfc_mix_def length_rfc_block_mix)
qed

lemma mix_loop_eq:
  assumes b: "length b = WORDS" and blk: "length (block st) = WORDS"
    and scr: "length (scratch st) = WORDS"
    and cps: "\<And>j. STRIDE * j < SCRYPT_N \<Longrightarrow>
      take WORDS (drop (j * WORDS) (checkpoints st)) = (rfc_block_mix ^^ (STRIDE * j)) b"
  shows "block ((mix_step ^^ n) st) = (rfc_mix (dense_table b) ^^ n) (block st) \<and>
     checkpoints ((mix_step ^^ n) st) = checkpoints st \<and>
     length (block ((mix_step ^^ n) st)) = WORDS \<and> length (scratch ((mix_step ^^ n) st)) = WORDS"
proof (induction n)
  case 0
  then show ?case using blk scr by simp
next
  case (Suc n)
  let ?st = "(mix_step ^^ n) st"
  obtain s' where s': "mix_step ?st = ?st\<lparr>block := rfc_mix (dense_table b) (block ?st), scratch := s'\<rparr>"
    "length s' = WORDS"
    using mix_step_eq[OF b, of ?st] Suc.IH cps by auto
  have "length (rfc_mix (dense_table b) (block ?st)) = WORDS"
    by (rule length_rfc_mix[OF b]) (use Suc.IH in blast)
  then show ?case using Suc.IH s' by simp
qed

lemma romix_eq: "length b = WORDS \<Longrightarrow> romix b = rfc_romix b"
proof -
  assume b: "length b = WORDS"
  let ?st = "fold fill_step [0..<SCRYPT_N] \<lparr>block = b,
     checkpoints = replicate (CHECKPOINT_BYTES div 4) 0, scratch = replicate WORDS 0\<rparr>"
  have inv: "fill_inv b SCRYPT_N ?st" using fill_inv_all[OF b] by simp
  have "block ((mix_step ^^ SCRYPT_N) ?st) = (rfc_mix (dense_table b) ^^ SCRYPT_N) (block ?st)"
    using mix_loop_eq[OF b, of ?st SCRYPT_N] inv b by (simp add: fill_inv_def length_pow_block_mix)
  then show ?thesis
    using inv by (simp only: romix_def rfc_romix_def Let_def fill_inv_def)
qed

lemma length_chunks4: "length xs = 4 * n \<Longrightarrow> length (chunks4 xs) = n"
proof (induction xs arbitrary: n rule: chunks4.induct)
  case (1 a b c d rest)
  then obtain m where "n = Suc m" by (cases n) auto
  then show ?case using 1 by simp
qed auto

section \<open>Properties\<close>

text \<open>C18: The memory-bounded scrypt derives the same key as RFC 7914's scrypt with the dense table
  of all 16384 blocks and the full-width Integerify, for every password, salt and output
  length, given that PBKDF2 returns as many bytes as it is asked for.\<close>

theorem scrypt_is_rfc7914:
  assumes "\<And>pw s n k out. pbkdf2 pw s n k = Inr out \<Longrightarrow> length out = k"
  shows "scrypt pbkdf2 password salt output_len = rfc_scrypt pbkdf2 password salt output_len"
proof (cases "pbkdf2 password salt 1 BYTES")
  case (Inl e)
  then show ?thesis by (simp add: scrypt_def rfc_scrypt_def)
next
  case (Inr derived)
  then have "length derived = 4 * WORDS" using assms by (simp add: BYTES_def)
  then have "length (map from_le_bytes (chunks4 derived) :: u32 list) = WORDS"
    by (simp add: length_chunks4)
  then show ?thesis
    using Inr by (simp add: scrypt_def rfc_scrypt_def romix_eq Let_def)
qed

theorem scrypt_is_rfc7914_witness:
  "scrypt (\<lambda>pw s n k. Inr (take k (cycle_bytes k (pw @ s @ [of_nat n])))) [112, 119] [115] 32 =
     (rfc_scrypt (\<lambda>pw s n k. Inr (take k (cycle_bytes k (pw @ s @ [of_nat n])))) [112, 119] [115] 32
        :: unit + bytes)"
  by (rule scrypt_is_rfc7914) (auto simp: length_cycle_bytes)

text \<open>Only 2 MiB of checkpoints are kept: the table the code allocates holds exactly the
  stored blocks, an eighth of the dense table, and filling it never grows it.\<close>

theorem checkpoints_two_mebibytes:
  "CHECKPOINT_BYTES = 2 * 1024 * 1024 \<and>
   length (checkpoints (fold fill_step [0..<SCRYPT_N] \<lparr>block = replicate WORDS w,
     checkpoints = replicate (CHECKPOINT_BYTES div 4) 0, scratch = replicate WORDS 0\<rparr>)) * 4
     = CHECKPOINT_BYTES"
  using fill_inv_all[of "replicate WORDS w" SCRYPT_N]
  by (simp add: fill_inv_def) (simp add: kdf_consts)

end
