(* ===== verification/Std_Str.thy ===== *)
theory Std_Str
  imports Prelude
begin

text \<open>
  The parts of Rust's \<^verbatim>\<open>str\<close> and number parsing that the program uses, on byte strings: a Rust
  string is the list of its UTF-8 bytes. ASCII classes, splitting at a character, prefixes and
  suffixes, decimal and hexadecimal numbers, dotted IPv4 addresses.
\<close>

section \<open>Characters\<close>

definition ascii_digit :: "char \<Rightarrow> bool" where
  "ascii_digit c \<longleftrightarrow> 48 \<le> (of_char c :: nat) \<and> (of_char c :: nat) \<le> 57"

definition ascii_upper :: "char \<Rightarrow> bool" where
  "ascii_upper c \<longleftrightarrow> 65 \<le> (of_char c :: nat) \<and> (of_char c :: nat) \<le> 90"

definition ascii_lower :: "char \<Rightarrow> bool" where
  "ascii_lower c \<longleftrightarrow> 97 \<le> (of_char c :: nat) \<and> (of_char c :: nat) \<le> 122"

definition ascii_alphanumeric :: "char \<Rightarrow> bool" where
  "ascii_alphanumeric c \<longleftrightarrow> ascii_digit c \<or> ascii_upper c \<or> ascii_lower c"

definition to_ascii_lower_char :: "char \<Rightarrow> char" where
  "to_ascii_lower_char c = (if ascii_upper c then char_of ((of_char c :: nat) + 32) else c)"

definition to_ascii_lowercase :: "string \<Rightarrow> string" where
  "to_ascii_lowercase s = map to_ascii_lower_char s"

section \<open>Splitting\<close>

text \<open>\<^verbatim>\<open>str::split(char)\<close>: always at least one part.\<close>

fun split_char :: "char \<Rightarrow> string \<Rightarrow> string list" where
  "split_char d [] = [[]]"
| "split_char d (c # cs) =
     (if c = d then [] # split_char d cs
      else case split_char d cs of [] \<Rightarrow> [[c]] | p # ps \<Rightarrow> (c # p) # ps)"

text \<open>\<^verbatim>\<open>str::split_once\<close> and \<^verbatim>\<open>str::rsplit_once\<close>.\<close>

fun split_once :: "char \<Rightarrow> string \<Rightarrow> (string \<times> string) option" where
  "split_once d [] = None"
| "split_once d (c # cs) =
     (if c = d then Some ([], cs)
      else map_option (\<lambda>(a, b). (c # a, b)) (split_once d cs))"

definition rsplit_once :: "char \<Rightarrow> string \<Rightarrow> (string \<times> string) option" where
  "rsplit_once d s = map_option (\<lambda>(a, b). (rev b, rev a)) (split_once d (rev s))"

fun strip_prefix :: "string \<Rightarrow> string \<Rightarrow> string option" where
  "strip_prefix [] s = Some s"
| "strip_prefix (p # ps) [] = None"
| "strip_prefix (p # ps) (c # cs) = (if p = c then strip_prefix ps cs else None)"

definition strip_suffix :: "string \<Rightarrow> string \<Rightarrow> string option" where
  "strip_suffix suf s = map_option rev (strip_prefix (rev suf) (rev s))"

definition ends_with_char :: "char \<Rightarrow> string \<Rightarrow> bool" where
  "ends_with_char d s \<longleftrightarrow> s \<noteq> [] \<and> last s = d"

primrec join :: "string \<Rightarrow> string list \<Rightarrow> string" where
  "join sep [] = []"
| "join sep (p # ps) = (if ps = [] then p else p @ sep @ join sep ps)"

section \<open>Numbers\<close>

fun digits :: "nat \<Rightarrow> string" where
  "digits n = (if n < 10 then [char_of (48 + n)] else digits (n div 10) @ [char_of (48 + n mod 10)])"

declare digits.simps [simp del]

fun read_digits :: "nat \<Rightarrow> string \<Rightarrow> nat option" where
  "read_digits acc [] = Some acc"
| "read_digits acc (c # cs) =
     (if ascii_digit c then read_digits (10 * acc + (of_char c - 48)) cs else None)"

text \<open>
  \<^verbatim>\<open>str::parse\<close> for an unsigned type with values below \<open>bound\<close>: an optional plus sign, at least
  one digit, no overflow.
\<close>

definition parse_uint :: "nat \<Rightarrow> string \<Rightarrow> nat option" where
  "parse_uint bound s =
     (let ds = (case s of [] \<Rightarrow> [] | c # cs \<Rightarrow> if c = CHR ''+'' then cs else s)
      in if ds = [] then None
         else case read_digits 0 ds of
                None \<Rightarrow> None
              | Some n \<Rightarrow> if n < bound then Some n else None)"

text \<open>One octet of \<^verbatim>\<open>Ipv4Addr::from_str\<close>: one to three digits, no leading zero, at most 255.\<close>

definition parse_octet :: "string \<Rightarrow> nat option" where
  "parse_octet s =
     (if s = [] \<or> 3 < length s \<or> (1 < length s \<and> hd s = CHR ''0'') then None
      else case read_digits 0 s of
             None \<Rightarrow> None
           | Some n \<Rightarrow> if n < 256 then Some n else None)"

definition parse_ipv4 :: "string \<Rightarrow> u32 option" where
  "parse_ipv4 s =
     (case map parse_octet (split_char (CHR ''.'') s) of
        [Some a, Some b, Some c, Some d] \<Rightarrow> Some (of_nat (((a * 256 + b) * 256 + c) * 256 + d))
      | _ \<Rightarrow> None)"

definition ip_octets :: "u32 \<Rightarrow> nat list" where
  "ip_octets a =
     [unat a div 2 ^ 24, unat a div 2 ^ 16 mod 256, unat a div 2 ^ 8 mod 256, unat a mod 256]"

definition show_ipv4 :: "u32 \<Rightarrow> string" where
  "show_ipv4 a = join ''.'' (map digits (ip_octets a))"

section \<open>Lemmas\<close>

lemma read_digits_append:
  "read_digits acc (xs @ ys) = Option.bind (read_digits acc xs) (\<lambda>n. read_digits n ys)"
  by (induction xs arbitrary: acc) auto

lemma ascii_digit_char_of: "(n::nat) < 10 \<Longrightarrow> ascii_digit (char_of (48 + n))"
  by (simp add: ascii_digit_def take_bit_eq_mod)

lemma of_char_digit: "n < 10 \<Longrightarrow> of_char (char_of (48 + n) :: char) = 48 + (n::nat)"
  by (simp add: take_bit_eq_mod)

lemma read_digits_digits: "read_digits 0 (digits n) = Some n"
proof (induction n rule: digits.induct)
  case (1 n)
  have "read_digits (n div 10) [char_of (48 + n mod 10)] = Some n"
    using ascii_digit_char_of[of "n mod 10"] of_char_digit[of "n mod 10"] by simp
  then show ?case
    using 1 ascii_digit_char_of[of n] of_char_digit[of n]
    by (subst digits.simps) (simp add: read_digits_append)
qed

lemma digits_ascii: "\<forall>c \<in> set (digits n). ascii_digit c"
proof (induction n rule: digits.induct)
  case (1 n)
  then show ?case
    using ascii_digit_char_of[of n] ascii_digit_char_of[of "n mod 10"]
    by (subst digits.simps) simp
qed

lemma digits_nonempty [simp]: "digits n \<noteq> []"
  by (subst digits.simps) simp

lemma digits_hd_zero: "1 < length (digits n) \<Longrightarrow> hd (digits n) \<noteq> CHR ''0''"
proof (induction n rule: digits.induct)
  case (1 n)
  show ?case
  proof (cases "n < 10")
    case True
    then show ?thesis using "1.prems" by (simp add: digits.simps[of n])
  next
    case False
    have eq: "digits n = digits (n div 10) @ [char_of (48 + n mod 10)]"
      using False by (subst digits.simps) simp
    show ?thesis
    proof (cases "1 < length (digits (n div 10))")
      case True
      then show ?thesis using "1.IH" False eq by simp
    next
      case short: False
      have "n div 10 < 10"
      proof (rule ccontr)
        assume "\<not> n div 10 < 10"
        then have "1 < length (digits (n div 10))"
          by (subst digits.simps) (simp add: Suc_lessI)
        then show False using short by simp
      qed
      then have "digits (n div 10) = [char_of (48 + n div 10)]" by (subst digits.simps) simp
      moreover have "of_char (char_of (48 + n div 10) :: char) \<noteq> (of_char (CHR ''0'') :: nat)"
        using of_char_digit[OF \<open>n div 10 < 10\<close>] False by simp
      ultimately show ?thesis using eq by (metis append_Cons list.sel(1))
    qed
  qed
qed

lemma length_digits_le3: "n < 1000 \<Longrightarrow> length (digits n) \<le> 3"
proof -
  assume n: "n < 1000"
  have one: "length (digits k) = 1" if "k < 10" for k
    using that by (subst digits.simps) simp
  have two: "length (digits k) \<le> 2" if "k < 100" for k
    using that one[of "k div 10"] by (subst digits.simps) simp
  show ?thesis using n two[of "n div 10"] by (subst digits.simps) auto
qed

lemma parse_octet_digits: "n < 256 \<Longrightarrow> parse_octet (digits n) = Some n"
  using length_digits_le3[of n] digits_hd_zero[of n]
  by (auto simp: parse_octet_def read_digits_digits)

lemma split_char_nonempty [simp]: "split_char d s \<noteq> []"
  by (induction s) (auto split: list.splits)

lemma split_char_none: "d \<notin> set s \<Longrightarrow> split_char d s = [s]"
  by (induction s) auto

lemma split_char_append: "d \<notin> set p \<Longrightarrow> split_char d (p @ d # s) = p # split_char d s"
  by (induction p) auto

lemma digits_no_dot: "CHR ''.'' \<notin> set (digits n)"
proof
  assume "CHR ''.'' \<in> set (digits n)"
  then have "ascii_digit (CHR ''.'')" using digits_ascii by blast
  then show False by (simp add: ascii_digit_def)
qed

lemma ip_octets_value:
  fixes a :: u32
  shows "(((unat a div 2 ^ 24) * 256 + unat a div 2 ^ 16 mod 256) * 256 + unat a div 2 ^ 8 mod 256) * 256
     + unat a mod 256 = unat a"
proof -
  have step: "x div 256 * 256 + x mod 256 = x" for x :: nat by simp
  have "unat a div 2 ^ 24 = unat a div 2 ^ 16 div 256" "unat a div 2 ^ 16 = unat a div 2 ^ 8 div 256"
    "unat a div 2 ^ 8 = unat a div 256"
    by (simp_all add: div_mult2_eq flip: div_mult2_eq)
  then show ?thesis using step by metis
qed

lemma parse_show_ipv4: "parse_ipv4 (show_ipv4 a) = Some a"
proof -
  let ?o = "\<lambda>i. ip_octets a ! i"
  have small: "?o 0 < 256" "?o 1 < 256" "?o 2 < 256" "?o 3 < 256"
    using unsigned_less[of a, where ?'a = nat] by (simp_all add: ip_octets_def less_mult_imp_div_less)
  have oct: "ip_octets a = [?o 0, ?o 1, ?o 2, ?o 3]" by (simp add: ip_octets_def)
  have "split_char (CHR ''.'') (show_ipv4 a) = map digits [?o 0, ?o 1, ?o 2, ?o 3]"
    by (subst show_ipv4_def, subst oct)
      (simp add: split_char_append split_char_none digits_no_dot)
  moreover have "(((?o 0 * 256 + ?o 1) * 256 + ?o 2) * 256 + ?o 3) = unat a"
    using ip_octets_value[of a] by (simp add: ip_octets_def)
  ultimately show ?thesis
    using small by (simp add: parse_ipv4_def parse_octet_digits)
qed

lemma strip_prefix_Some: "strip_prefix p s = Some r \<longleftrightarrow> s = p @ r"
  by (induction p s rule: strip_prefix.induct) auto

lemma strip_suffix_Some: "strip_suffix suf s = Some r \<longleftrightarrow> s = r @ suf"
proof -
  have "strip_suffix suf s = Some r \<longleftrightarrow> strip_prefix (rev suf) (rev s) = Some (rev r)"
    by (auto simp: strip_suffix_def)
  also have "\<dots> \<longleftrightarrow> s = r @ suf"
    by (simp add: strip_prefix_Some) (metis rev_append rev_rev_ident)
  finally show ?thesis .
qed

lemma ends_with_char_iff: "ends_with_char d s \<longleftrightarrow> (\<exists>p. s = p @ [d])"
  by (metis append_butlast_last_id append_is_Nil_conv ends_with_char_def last_snoc list.distinct(1))

lemma split_once_Some: "split_once d s = Some (a, b) \<longleftrightarrow> s = a @ d # b \<and> d \<notin> set a"
proof (induction s arbitrary: a)
  case Nil
  then show ?case by simp
next
  case (Cons c s)
  then show ?case by (cases a) auto
qed

lemma split_once_None: "split_once d s = None \<longleftrightarrow> d \<notin> set s"
  by (induction s) auto

lemma rsplit_once_Some: "rsplit_once d s = Some (a, b) \<longleftrightarrow> s = a @ d # b \<and> d \<notin> set b"
proof -
  have "rsplit_once d s = Some (a, b) \<longleftrightarrow> split_once d (rev s) = Some (rev b, rev a)"
    by (auto simp: rsplit_once_def)
  also have "\<dots> \<longleftrightarrow> rev s = rev (a @ d # b) \<and> d \<notin> set b"
    by (simp add: split_once_Some)
  finally show ?thesis by (simp only: rev_is_rev_conv)
qed

end
