(* ===== verification/Ipnet.thy ===== *)
theory Ipnet
  imports Std_Str
begin

text \<open>
  IPv4 networks as the program sees them. \<^verbatim>\<open>Ipv4Addr\<close> is the standard library's 32-bit address.
  The crate \<^verbatim>\<open>ipnet\<close> is third-party code: its operations are the fields of a record \<open>ipnet\<close> that
  every definition using them takes as an argument, and the locale \<open>ipnet_laws\<close> states what the
  crate documents about them. The instance \<open>std_ipnet\<close> shows that the laws can be met.
\<close>

unbundle bit_operations_syntax

type_synonym ipv4 = u32

record ipv4net =
  net_addr :: ipv4
  net_prefix :: nat

definition octets_addr :: "nat \<Rightarrow> nat \<Rightarrow> nat \<Rightarrow> nat \<Rightarrow> ipv4" where
  "octets_addr a b c d = of_nat (((a * 256 + b) * 256 + c) * 256 + d)"

definition net :: "nat \<Rightarrow> nat \<Rightarrow> nat \<Rightarrow> nat \<Rightarrow> nat \<Rightarrow> ipv4net" where
  "net a b c d p = \<lparr>net_addr = octets_addr a b c d, net_prefix = p\<rparr>"

record ipnet =
  contains_ip :: "ipv4net \<Rightarrow> ipv4 \<Rightarrow> bool"
  contains_net :: "ipv4net \<Rightarrow> ipv4net \<Rightarrow> bool"
  network :: "ipv4net \<Rightarrow> ipv4"
  broadcast :: "ipv4net \<Rightarrow> ipv4"
  supernet :: "ipv4net \<Rightarrow> ipv4net option"
  trunc :: "ipv4net \<Rightarrow> ipv4net"
  net_le :: "ipv4net \<Rightarrow> ipv4net \<Rightarrow> bool"
  net_parse :: "string \<Rightarrow> ipv4net option"
  net_show :: "ipv4net \<Rightarrow> string"

definition valid_net :: "ipv4net \<Rightarrow> bool" where
  "valid_net n \<longleftrightarrow> net_prefix n \<le> 32"

text \<open>The first and last address of a network, as numbers.\<close>

definition net_size :: "ipv4net \<Rightarrow> nat" where
  "net_size n = 2 ^ (32 - net_prefix n)"

definition net_first :: "ipv4net \<Rightarrow> nat" where
  "net_first n = unat (net_addr n) div net_size n * net_size n"

definition net_last :: "ipv4net \<Rightarrow> nat" where
  "net_last n = net_first n + net_size n - 1"

definition net_range :: "ipv4net \<Rightarrow> nat set" where
  "net_range n = {net_first n .. net_last n}"

definition net_trunc :: "ipv4net \<Rightarrow> ipv4net" where
  "net_trunc n = n\<lparr>net_addr := of_nat (net_first n)\<rparr>"

section \<open>Ranges\<close>

lemma net_size_pos [simp]: "0 < net_size n"
  by (simp add: net_size_def)

lemma net_size_dvd: "net_prefix n \<le> 32 \<Longrightarrow> net_size n * 2 ^ net_prefix n = 2 ^ 32"
  by (simp add: net_size_def flip: power_add)

lemma net_first_last: "net_first n \<le> net_last n"
  using net_size_pos[of n] unfolding net_last_def by linarith

lemma net_range_alt: "net_range n = {net_first n ..< net_first n + net_size n}"
proof -
  have "x \<le> net_last n \<longleftrightarrow> x < net_first n + net_size n" for x
    using net_size_pos[of n] unfolding net_last_def by linarith
  then show ?thesis unfolding net_range_def by (simp add: set_eq_iff)
qed

lemma div_eq_iff_range: "0 < (s::nat) \<Longrightarrow> a div s = q \<longleftrightarrow> q * s \<le> a \<and> a < q * s + s"
proof -
  assume s: "0 < s"
  have "a div s * s \<le> a \<and> a < a div s * s + s"
    using s by (simp add: dividend_less_div_times div_times_less_eq_dividend add.commute)
  moreover have "a div s = q" if "q * s \<le> a" "a < q * s + s"
    using that by (intro div_nat_eqI) (simp_all add: mult.commute)
  ultimately show ?thesis by blast
qed

lemma net_range_iff: "a \<in> net_range n \<longleftrightarrow> a div net_size n = unat (net_addr n) div net_size n"
  by (simp add: net_range_alt net_first_def div_eq_iff_range[OF net_size_pos])

lemma net_last_bound: "valid_net n \<Longrightarrow> net_last n < 2 ^ 32"
proof -
  assume v: "valid_net n"
  let ?s = "net_size n"
  have "unat (net_addr n) div ?s < 2 ^ net_prefix n"
  proof -
    have "unat (net_addr n) < ?s * 2 ^ net_prefix n"
      using v net_size_dvd[of n] unsigned_less[of "net_addr n"] by (simp add: valid_net_def)
    then show ?thesis by (simp add: less_mult_imp_div_less mult.commute)
  qed
  then have "Suc (unat (net_addr n) div ?s) * ?s \<le> 2 ^ net_prefix n * ?s"
    by (intro mult_le_mono1) simp
  also have "\<dots> = 2 ^ 32" using v net_size_dvd[of n] by (simp add: valid_net_def mult.commute)
  finally show ?thesis using net_size_pos[of n] unfolding net_last_def net_first_def by simp
qed

lemma unat_net_first: "valid_net n \<Longrightarrow> unat (of_nat (net_first n) :: ipv4) = net_first n"
  using net_last_bound[of n] net_first_last[of n] by (simp add: unat_of_nat)

lemma net_first_trunc [simp]: "valid_net n \<Longrightarrow> net_first (net_trunc n) = net_first n"
proof -
  assume v: "valid_net n"
  have "net_first (net_trunc n) = unat (of_nat (net_first n) :: ipv4) div net_size n * net_size n"
    by (simp add: net_first_def[of "net_trunc n"]) (simp add: net_trunc_def net_size_def)
  also have "\<dots> = net_first n"
    by (simp only: unat_net_first[OF v]) (simp add: net_first_def)
  finally show ?thesis .
qed

lemma net_trunc_range [simp]: "valid_net n \<Longrightarrow> net_range (net_trunc n) = net_range n"
  by (simp add: net_range_alt) (simp add: net_size_def net_trunc_def)

lemma net_trunc_valid [simp]: "valid_net (net_trunc n) = valid_net n"
  by (simp add: valid_net_def net_trunc_def)

text \<open>Two networks are nested or disjoint.\<close>

lemma net_nested:
  assumes "valid_net m" and "valid_net n" and "net_prefix m \<le> net_prefix n"
    and "a \<in> net_range m" and "a \<in> net_range n"
  shows "net_range n \<subseteq> net_range m"
proof
  fix x
  assume x: "x \<in> net_range n"
  have sz: "net_size m = net_size n * 2 ^ (net_prefix n - net_prefix m)"
    using assms(1-3) by (simp add: net_size_def valid_net_def flip: power_add)
  have "x div net_size m = x div net_size n div 2 ^ (net_prefix n - net_prefix m)" for x
    by (simp add: sz div_mult2_eq)
  then show "x \<in> net_range m"
    using x assms(4,5) by (simp add: net_range_iff)
qed

section \<open>The documented behaviour\<close>

locale ipnet_laws =
  fixes N :: ipnet
  assumes contains_ip: "valid_net n \<Longrightarrow> contains_ip N n a \<longleftrightarrow> unat a \<in> net_range n"
    and contains_net: "valid_net m \<Longrightarrow> valid_net n \<Longrightarrow>
          contains_net N m n \<longleftrightarrow> net_range n \<subseteq> net_range m"
    and network: "valid_net n \<Longrightarrow> unat (network N n) = net_first n"
    and broadcast: "valid_net n \<Longrightarrow> unat (broadcast N n) = net_last n"
    and trunc: "valid_net n \<Longrightarrow> trunc N n = net_trunc n"
    and supernet: "valid_net n \<Longrightarrow> supernet N n =
          (if net_prefix n = 0 then None
           else Some (net_trunc (n\<lparr>net_prefix := net_prefix n - 1\<rparr>)))"
    and net_le: "net_le N m n \<longleftrightarrow>
          net_addr m < net_addr n \<or> (net_addr m = net_addr n \<and> net_prefix m \<le> net_prefix n)"
    and parse_valid: "net_parse N s = Some n \<Longrightarrow> valid_net n"
    and parse_show: "valid_net n \<Longrightarrow> net_parse N (net_show N n) = Some n"
begin

lemma network_in_range: "valid_net n \<Longrightarrow> unat (network N n) \<in> net_range n"
  by (simp add: network net_range_def net_first_last)

lemma network_le: "valid_net n \<Longrightarrow> contains_ip N n a \<Longrightarrow> network N n \<le> a"
  by (simp add: contains_ip word_le_nat_alt network net_range_def)

lemma supernet_range:
  assumes "valid_net n" and "supernet N n = Some m"
  shows "valid_net m" and "net_range n \<subseteq> net_range m" and "net_prefix m = net_prefix n - 1"
    and "0 < net_prefix n"
proof -
  let ?m = "n\<lparr>net_prefix := net_prefix n - 1\<rparr>"
  have m: "m = net_trunc ?m" "net_prefix n \<noteq> 0"
    using assms by (auto simp: supernet split: if_splits)
  have v: "valid_net ?m" using assms(1) by (simp add: valid_net_def)
  then show "valid_net m" using m by simp
  have "unat (net_addr n) \<in> net_range n" "unat (net_addr n) \<in> net_range ?m"
    by (simp_all add: net_range_iff)
  then show "net_range n \<subseteq> net_range m"
    using net_nested[of ?m n] v assms(1) m by simp
  show "net_prefix m = net_prefix n - 1" using m by (simp add: net_trunc_def)
  show "0 < net_prefix n" using m by simp
qed

end

section \<open>An instance\<close>

text \<open>Networks in dotted notation with a prefix length.\<close>

definition std_net_show :: "ipv4net \<Rightarrow> string" where
  "std_net_show n = show_ipv4 (net_addr n) @ ''/'' @ digits (net_prefix n)"

definition std_net_parse :: "string \<Rightarrow> ipv4net option" where
  "std_net_parse s =
     (case rsplit_once (CHR ''/'') s of
        None \<Rightarrow> None
      | Some (a, p) \<Rightarrow>
          (case (parse_ipv4 a, parse_octet p) of
             (Some addr, Some prefix) \<Rightarrow>
               if prefix \<le> 32 then Some \<lparr>net_addr = addr, net_prefix = prefix\<rparr> else None
           | _ \<Rightarrow> None))"

definition std_ipnet :: ipnet where
  "std_ipnet = \<lparr>
     contains_ip = (\<lambda>n a. net_first n \<le> unat a \<and> unat a \<le> net_last n),
     contains_net = (\<lambda>m n. net_first m \<le> net_first n \<and> net_last n \<le> net_last m),
     network = (\<lambda>n. of_nat (net_first n)),
     broadcast = (\<lambda>n. of_nat (net_last n)),
     supernet = (\<lambda>n. if net_prefix n = 0 then None
                     else Some (net_trunc (n\<lparr>net_prefix := net_prefix n - 1\<rparr>))),
     trunc = net_trunc,
     net_le = (\<lambda>m n. net_addr m < net_addr n \<or>
                       (net_addr m = net_addr n \<and> net_prefix m \<le> net_prefix n)),
     net_parse = std_net_parse, net_show = std_net_show\<rparr>"

lemma digits_no_slash: "CHR ''/'' \<notin> set (digits n)"
proof
  assume "CHR ''/'' \<in> set (digits n)"
  then have "ascii_digit (CHR ''/'')" using digits_ascii by blast
  then show False by (simp add: ascii_digit_def)
qed

lemma std_parse_show: "valid_net n \<Longrightarrow> std_net_parse (std_net_show n) = Some n"
proof -
  assume v: "valid_net n"
  have "rsplit_once (CHR ''/'') (std_net_show n) = Some (show_ipv4 (net_addr n), digits (net_prefix n))"
    by (simp add: rsplit_once_Some std_net_show_def digits_no_slash)
  then show ?thesis
    using v by (simp add: std_net_parse_def parse_show_ipv4 parse_octet_digits valid_net_def)
qed

lemma std_parse_valid: "std_net_parse s = Some n \<Longrightarrow> valid_net n"
  by (auto simp: std_net_parse_def valid_net_def split: option.splits if_splits)

interpretation std: ipnet_laws std_ipnet
proof unfold_locales
  fix n :: ipv4net and a :: ipv4
  assume "valid_net n"
  then show "contains_ip std_ipnet n a \<longleftrightarrow> unat a \<in> net_range n"
    by (simp add: std_ipnet_def net_range_def)
next
  fix m n :: ipv4net
  assume "valid_net m" "valid_net n"
  then show "contains_net std_ipnet m n \<longleftrightarrow> net_range n \<subseteq> net_range m"
    using net_first_last[of n] by (simp add: std_ipnet_def net_range_def)
next
  fix n :: ipv4net
  assume "valid_net n"
  then show "unat (network std_ipnet n) = net_first n" "unat (broadcast std_ipnet n) = net_last n"
    using net_last_bound[of n] unat_net_first[of n]
    by (simp_all add: std_ipnet_def unat_of_nat)
qed (simp_all add: std_ipnet_def std_parse_valid std_parse_show)

end
