(* ===== verification/Geo_Ranges.thy ===== *)
theory Geo_Ranges
  imports Ipnet
begin

text \<open>
  The address side of \<^verbatim>\<open>gofro-agent/src/geodata.rs\<close>: aggregation of a country's networks into
  disjoint sorted ranges (\<^verbatim>\<open>aggregate_ipv4\<close>), the logarithmic membership test of
  \<^verbatim>\<open>GeoData::matches_ip\<close>, the interval count of \<^verbatim>\<open>GeoData::select\<close>, and the merging of
  neighbouring ranges for nftables (\<^verbatim>\<open>append_networks\<close> of \<^verbatim>\<open>dataplane.rs\<close>).
  The in-place loop of \<^verbatim>\<open>aggregate_ipv4\<close> writes behind its read index: the written prefix is
  a stack with its last element on top.
\<close>

section \<open>Definitions\<close>

text \<open>Sorting by the total order of the networks; equal networks are identical.\<close>

primrec insert_by :: "('a \<Rightarrow> 'a \<Rightarrow> bool) \<Rightarrow> 'a \<Rightarrow> 'a list \<Rightarrow> 'a list" where
  "insert_by le x [] = [x]"
| "insert_by le x (y # ys) = (if le x y then x # y # ys else y # insert_by le x ys)"

definition sort_by :: "('a \<Rightarrow> 'a \<Rightarrow> bool) \<Rightarrow> 'a list \<Rightarrow> 'a list" where
  "sort_by le xs = foldr (insert_by le) xs []"

fun merge_up :: "ipnet \<Rightarrow> ipv4net list \<Rightarrow> ipv4net \<Rightarrow> ipv4net list \<times> ipv4net" where
  "merge_up N [] nw = ([], nw)"
| "merge_up N (previous # rest) nw =
     (case supernet N nw of
        None \<Rightarrow> (previous # rest, nw)
      | Some parent \<Rightarrow>
          if net_prefix previous \<noteq> net_prefix nw \<or> \<not> contains_net N parent previous
          then (previous # rest, nw)
          else merge_up N rest parent)"

definition aggregate_step :: "ipnet \<Rightarrow> ipv4net list \<Rightarrow> ipv4net \<Rightarrow> ipv4net list" where
  "aggregate_step N written nw =
     (if written \<noteq> [] \<and> contains_net N (hd written) nw then written
      else (let (written', nw') = merge_up N written nw in nw' # written'))"

definition aggregate_ipv4 :: "ipnet \<Rightarrow> ipv4net list \<Rightarrow> ipv4net list" where
  "aggregate_ipv4 N networks = rev (foldl (aggregate_step N) [] (sort_by (net_le N) networks))"

text \<open>\<^verbatim>\<open>partition_point\<close>: the number of leading elements that satisfy the predicate.\<close>

definition partition_point :: "('a \<Rightarrow> bool) \<Rightarrow> 'a list \<Rightarrow> nat" where
  "partition_point P xs = length (takeWhile P xs)"

definition ranges_match :: "ipnet \<Rightarrow> ipv4net list \<Rightarrow> ipv4 \<Rightarrow> bool" where
  "ranges_match N networks ip =
     (let index = partition_point (\<lambda>n. network N n \<le> ip) networks
      in 0 < index \<and> contains_ip N (networks ! (index - 1)) ip)"

text \<open>\<^verbatim>\<open>windows(2)\<close> counted by a gap larger than one address.\<close>

fun count_gaps :: "ipnet \<Rightarrow> ipv4net list \<Rightarrow> nat" where
  "count_gaps N (a # b # rest) =
     (if saturating_add (broadcast N a) 1 < network N b then 1 else 0) + count_gaps N (b # rest)"
| "count_gaps N _ = 0"

definition interval_count :: "ipnet \<Rightarrow> ipv4net list \<Rightarrow> nat" where
  "interval_count N networks = (if networks = [] then 0 else 1) + count_gaps N networks"

text \<open>The ranges \<open>start - end\<close> that \<^verbatim>\<open>append_networks\<close> prints.\<close>

fun extend_range :: "ipnet \<Rightarrow> ipv4 \<Rightarrow> ipv4net list \<Rightarrow> ipv4 \<times> ipv4net list" where
  "extend_range N hi [] = (hi, [])"
| "extend_range N hi (next # rest) =
     (if saturating_add hi 1 < network N next then (hi, next # rest)
      else extend_range N (max hi (broadcast N next)) rest)"

lemma extend_range_length: "length (snd (extend_range N hi ns)) \<le> length ns"
  by (induction ns arbitrary: hi) (auto intro: le_SucI)

function merged_ranges :: "ipnet \<Rightarrow> ipv4net list \<Rightarrow> (ipv4 \<times> ipv4) list" where
  "merged_ranges N [] = []"
| "merged_ranges N (n # rest) =
     (let (hi, rest') = extend_range N (broadcast N n) rest
      in (network N n, hi) # merged_ranges N rest')"
  by pat_completeness auto
termination
  by (relation "measure (\<lambda>(N, ns). length ns)")
    (auto, metis extend_range_length le_imp_less_Suc snd_conv)

definition show_range :: "ipv4 \<times> ipv4 \<Rightarrow> string" where
  "show_range = (\<lambda>(first, hi).
     if first = hi then show_ipv4 first else show_ipv4 first @ ''-'' @ show_ipv4 hi)"

definition append_networks :: "ipnet \<Rightarrow> ipv4net list \<Rightarrow> string" where
  "append_networks N networks = join '', '' (map show_range (merged_ranges N networks))"

section \<open>Sorting\<close>

lemma set_insert_by [simp]: "set (insert_by le x xs) = insert x (set xs)"
  by (induction xs) auto

lemma set_sort_by [simp]: "set (sort_by le xs) = set xs"
  by (induction xs) (auto simp: sort_by_def)

lemma sorted_insert_by:
  assumes "\<And>a b. le a b \<or> le b a" and "\<And>a b c. le a b \<Longrightarrow> le b c \<Longrightarrow> le a c"
  shows "sorted_wrt le xs \<Longrightarrow> sorted_wrt le (insert_by le x xs)"
proof (induction xs)
  case (Cons a xs)
  show ?case
  proof (cases "le x a")
    case True
    then show ?thesis using Cons.prems assms(2)[OF True] by auto
  next
    case False
    then have "le a x" using assms(1) by blast
    then show ?thesis using False Cons by auto
  qed
qed simp

lemma sorted_sort_by:
  assumes "\<And>a b. le a b \<or> le b a" and "\<And>a b c. le a b \<Longrightarrow> le b c \<Longrightarrow> le a c"
  shows "sorted_wrt le (sort_by le xs)"
  by (induction xs) (auto simp: sort_by_def intro: sorted_insert_by[OF assms])

section \<open>Aggregation\<close>

definition aligned_net :: "ipv4net \<Rightarrow> bool" where
  "aligned_net n \<longleftrightarrow> valid_net n \<and> unat (net_addr n) = net_first n"

lemma aligned_trunc: "valid_net n \<Longrightarrow> aligned_net (net_trunc n)"
  by (simp add: aligned_net_def) (simp add: net_trunc_def unat_net_first)

definition nets_range :: "ipv4net list \<Rightarrow> nat set" where
  "nets_range ns = (\<Union>n \<in> set ns. net_range n)"

lemma nets_range_simps [simp]:
  "nets_range [] = {}" "nets_range (n # ns) = net_range n \<union> nets_range ns"
  "nets_range (ms @ ns) = nets_range ms \<union> nets_range ns" "nets_range (rev ns) = nets_range ns"
  by (auto simp: nets_range_def)

lemma nets_range_sort_by [simp]: "nets_range (sort_by le ns) = nets_range ns"
  by (simp add: nets_range_def)

text \<open>Strictly separated networks, highest first: what the stack holds.\<close>

definition separated :: "ipv4net list \<Rightarrow> bool" where
  "separated ns \<longleftrightarrow> (\<forall>n \<in> set ns. aligned_net n) \<and> sorted_wrt (\<lambda>m n. net_last n < net_first m) ns"

text \<open>The parent of two sibling networks is exactly their union.\<close>

lemma siblings_cover:
  assumes v: "valid_net m" "valid_net n" and p: "net_prefix m = net_prefix n" "0 < net_prefix n"
    and sub: "net_range m \<subseteq> net_range q" "net_range n \<subseteq> net_range q"
    and q: "net_prefix q = net_prefix n - 1" "valid_net q"
    and sep: "net_last m < net_first n"
  shows "net_range q = net_range m \<union> net_range n" and "net_first q = net_first m"
proof -
  let ?s = "net_size n"
  have sz: "net_size m = ?s" "net_size q = ?s + ?s"
    using p q v by (simp_all add: net_size_def valid_net_def Suc_diff_le flip: power_Suc mult_2)
  have m_in: "net_first m \<in> net_range q" and n_last: "net_last n \<in> net_range q"
    using sub net_first_last[of m] net_first_last[of n] by (auto simp: net_range_def)
  have lasts: "net_last m + 1 = net_first m + ?s" "net_last n + 1 = net_first n + ?s"
      "net_last q + 1 = net_first q + ?s + ?s"
    using net_size_pos[of m] net_size_pos[of n] sz unfolding net_last_def by linarith+
  have fm: "net_first m = net_first q" and fn: "net_first n = net_first q + ?s"
    using m_in n_last lasts sep unfolding net_range_def by auto
  show "net_first q = net_first m" using fm by simp
  show "net_range q = net_range m \<union> net_range n"
    using fm fn sz by (auto simp: net_range_alt)
qed

definition ascending :: "ipv4net list \<Rightarrow> bool" where
  "ascending ns \<longleftrightarrow> sorted_wrt (\<lambda>m n. net_first m \<le> net_first n) ns"

definition ranges_cover :: "(ipv4 \<times> ipv4) list \<Rightarrow> nat set" where
  "ranges_cover rs = (\<Union>(lo, hi) \<in> set rs. {unat lo .. unat hi})"

context ipnet_laws
begin

lemma merge_up_ok:
  assumes "separated stack" and "aligned_net n" and "stack \<noteq> [] \<Longrightarrow> net_last (hd stack) < net_first n"
    and "merge_up N stack n = (stack', n')"
  shows "separated (n' # stack') \<and> nets_range (n' # stack') = nets_range (n # stack) \<and>
     net_range n \<subseteq> net_range n'"
  using assms
proof (induction stack arbitrary: n)
  case Nil
  then show ?case by (simp add: separated_def)
next
  case (Cons previous rest)
  have val: "valid_net n" "valid_net previous"
    using Cons.prems by (auto simp: separated_def aligned_net_def)
  have stop: ?case if "stack' = previous # rest" "n' = n"
    using that Cons.prems net_first_last[of previous] by (fastforce simp: separated_def)
  show ?case
  proof (cases "supernet N n")
    case None
    then show ?thesis using Cons.prems(4) stop by simp
  next
    case (Some parent)
    note sup = supernet_range[OF val(1) Some]
    have al: "aligned_net parent"
      using Some val(1) by (auto simp: supernet valid_net_def split: if_splits intro!: aligned_trunc)
    show ?thesis
    proof (cases "net_prefix previous \<noteq> net_prefix n \<or> \<not> contains_net N parent previous")
      case True
      then show ?thesis using Some Cons.prems(4) stop by simp
    next
      case False
      then have sub: "net_range previous \<subseteq> net_range parent"
        using contains_net[OF sup(1) val(2)] by simp
      have cover: "net_range parent = net_range previous \<union> net_range n"
          "net_first parent = net_first previous"
        using siblings_cover[OF val(2,1) _ sup(4) sub sup(2,3,1)] False Cons.prems(3) by auto
      have sep: "separated rest" "rest \<noteq> [] \<Longrightarrow> net_last (hd rest) < net_first parent"
        using Cons.prems(1) cover(2) by (auto simp: separated_def neq_Nil_conv)
      have rest: "merge_up N rest parent = (stack', n')"
        using False Some Cons.prems(4) by simp
      have "separated (n' # stack') \<and> nets_range (n' # stack') = nets_range (parent # rest) \<and>
          net_range parent \<subseteq> net_range n'"
        using Cons.IH[OF sep(1) al sep(2) rest] .
      then show ?thesis using cover(1) by auto
    qed
  qed
qed

lemma above_top:
  assumes al: "aligned_net upper" "aligned_net l" "aligned_net n" and l: "net_range l \<subseteq> net_range upper"
    and le: "net_le N l n" and no: "\<not> contains_net N upper n"
  shows "net_last upper < net_first n"
proof (rule ccontr)
  assume over: "\<not> net_last upper < net_first n"
  have v: "valid_net upper" "valid_net l" "valid_net n" using al by (simp_all add: aligned_net_def)
  have fl: "net_first upper \<le> net_first l"
    using l net_first_last[of l] by (auto simp: net_range_def)
  have ln: "net_first l \<le> net_first n" and tie: "net_first l = net_first n \<Longrightarrow> net_prefix l \<le> net_prefix n"
    using le al by (auto simp: net_le aligned_net_def word_less_nat_alt)
  have a: "net_first n \<in> net_range upper" "net_first n \<in> net_range n"
    using over fl ln net_first_last[of n] by (auto simp: net_range_def)
  have nsub: "\<not> net_range n \<subseteq> net_range upper" using no contains_net[OF v(1,3)] by simp
  then have "\<not> net_prefix upper \<le> net_prefix n" using net_nested[OF v(1,3) _ a] by blast
  then have "net_range upper \<subseteq> net_range n" using net_nested[OF v(3,1) _ a(2,1)] by simp
  then have "net_first n \<le> net_first upper"
    using net_first_last[of upper] by (auto simp: net_range_def)
  then have eq: "net_first l = net_first n" using fl ln by simp
  have "net_first n \<in> net_range l" using eq net_first_last[of l] by (simp add: net_range_def)
  then have "net_range n \<subseteq> net_range l" using net_nested[OF v(2,3) tie[OF eq] _ a(2)] by simp
  then show False using nsub l by blast
qed

lemma aggregate_fold:
  assumes "separated stack" and "\<forall>n \<in> set ns. aligned_net n" and "sorted_wrt (net_le N) ns"
    and "stack \<noteq> [] \<Longrightarrow> \<exists>l. aligned_net l \<and> net_range l \<subseteq> net_range (hd stack) \<and> (\<forall>n \<in> set ns. net_le N l n)"
  shows "separated (foldl (aggregate_step N) stack ns) \<and>
     nets_range (foldl (aggregate_step N) stack ns) = nets_range stack \<union> nets_range ns"
  using assms
proof (induction ns arbitrary: stack)
  case (Cons n ns)
  show ?case
  proof (cases "stack \<noteq> [] \<and> contains_net N (hd stack) n")
    case True
    then have step: "aggregate_step N stack n = stack" by (simp add: aggregate_step_def)
    have "valid_net (hd stack)" "valid_net n"
      using True Cons.prems(1,2) by (auto simp: separated_def aligned_net_def)
    then have sub: "net_range n \<subseteq> net_range (hd stack)" using True contains_net by blast
    then have "nets_range stack \<union> net_range n = nets_range stack"
      using True by (cases stack) auto
    moreover have "\<exists>l. aligned_net l \<and> net_range l \<subseteq> net_range (hd stack) \<and> (\<forall>n \<in> set ns. net_le N l n)"
      using sub Cons.prems(2,3) by auto
    ultimately show ?thesis
      using Cons.IH[OF Cons.prems(1)] Cons.prems(2,3) step by (simp add: Un_assoc[symmetric])
  next
    case False
    obtain stack' n' where mu: "merge_up N stack n = (stack', n')" by (cases "merge_up N stack n")
    then have step: "aggregate_step N stack n = n' # stack'"
      using False by (simp only: aggregate_step_def if_False Let_def case_prod_conv mu)
    have "net_last (hd stack) < net_first n" if ne: "stack \<noteq> []"
    proof -
      obtain l where "aligned_net l" "net_range l \<subseteq> net_range (hd stack)" "net_le N l n"
        using Cons.prems(4)[OF ne] by auto
      then show ?thesis
        using above_top[of "hd stack" l n] Cons.prems(1,2) False ne by (auto simp: separated_def)
    qed
    then have up: "separated (n' # stack') \<and> nets_range (n' # stack') = nets_range (n # stack) \<and>
        net_range n \<subseteq> net_range n'"
      using merge_up_ok[OF Cons.prems(1) _ _ mu] Cons.prems(2) by simp
    then have "\<exists>l. aligned_net l \<and> net_range l \<subseteq> net_range (hd (n' # stack')) \<and> (\<forall>n \<in> set ns. net_le N l n)"
      using Cons.prems(2,3) by auto
    then have "separated (foldl (aggregate_step N) (n' # stack') ns) \<and>
        nets_range (foldl (aggregate_step N) (n' # stack') ns) = nets_range (n' # stack') \<union> nets_range ns"
      using Cons.IH[of "n' # stack'"] up Cons.prems(2,3) by simp
    then show ?thesis using up step by (auto simp del: nets_range_simps(2)) (auto simp: nets_range_def)
  qed
qed simp

lemma net_le_order: "net_le N a b \<or> net_le N b a" "net_le N a b \<Longrightarrow> net_le N b c \<Longrightarrow> net_le N a c"
  by (auto simp: net_le)

lemma aggregate_separated:
  assumes "\<forall>n \<in> set ns. aligned_net n"
  shows "separated (rev (aggregate_ipv4 N ns))" and "nets_range (aggregate_ipv4 N ns) = nets_range ns"
proof -
  have "sorted_wrt (net_le N) (sort_by (net_le N) ns)"
    using net_le_order by (rule sorted_sort_by)
  then have "separated (foldl (aggregate_step N) [] (sort_by (net_le N) ns)) \<and>
     nets_range (foldl (aggregate_step N) [] (sort_by (net_le N) ns)) = nets_range ns"
    using aggregate_fold[of "[]" "sort_by (net_le N) ns"] assms by (simp add: separated_def)
  then show "separated (rev (aggregate_ipv4 N ns))" "nets_range (aggregate_ipv4 N ns) = nets_range ns"
    by (simp_all add: aggregate_ipv4_def)
qed

lemma ranges_match_rest:
  "network N n \<le> ip \<Longrightarrow> ranges_match N (n # ns) ip =
     (if ns \<noteq> [] \<and> network N (hd ns) \<le> ip then ranges_match N ns ip else contains_ip N n ip)"
  by (cases ns) (auto simp: ranges_match_def partition_point_def)

lemma ranges_match_iff:
  "separated (rev ns) \<Longrightarrow> ranges_match N ns ip \<longleftrightarrow> unat ip \<in> nets_range ns"
proof (induction ns)
  case Nil
  then show ?case by (simp add: ranges_match_def partition_point_def)
next
  case (Cons n ns)
  have sep: "separated (rev ns)" and v: "valid_net n" "\<forall>m \<in> set ns. valid_net m"
    and above: "\<forall>m \<in> set ns. net_last n < net_first m"
    and asc: "sorted_wrt (\<lambda>m n. net_last m < net_first n) ns"
    using Cons.prems by (auto simp: separated_def aligned_net_def sorted_wrt_append sorted_wrt_rev)
  show ?case
  proof (cases "network N n \<le> ip")
    case False
    then have "unat ip < net_first n" using network[OF v(1)] by (simp add: word_le_nat_alt)
    moreover have "unat ip < net_first m" if "m \<in> set ns" for m
      using that above calculation net_first_last[of n] by fastforce
    ultimately have "unat ip \<notin> nets_range (n # ns)"
      by (auto simp: nets_range_def net_range_def dest: leD)
    then show ?thesis using False by (simp add: ranges_match_def partition_point_def)
  next
    case low: True
    have hit: "contains_ip N n ip \<longleftrightarrow> unat ip \<in> net_range n" using contains_ip[OF v(1)] .
    show ?thesis
    proof (cases "ns \<noteq> [] \<and> network N (hd ns) \<le> ip")
      case True
      then have "net_first (hd ns) \<le> unat ip" 
        using network[of "hd ns"] v(2) by (cases ns) (auto simp: word_le_nat_alt)
      then have "unat ip \<notin> net_range n"
        using True above by (cases ns) (auto simp: net_range_def)
      then show ?thesis using ranges_match_rest[OF low] True Cons.IH[OF sep] by simp
    next
      case False
      have "unat ip \<notin> net_range m" if m: "m \<in> set ns" for m
      proof -
        have "unat ip < net_first (hd ns)"
          using False m network[of "hd ns"] v(2) by (cases ns) (auto simp: word_le_nat_alt)
        moreover have "net_first (hd ns) \<le> net_first m"
          using m asc net_first_last[of "hd ns"] by (cases ns) (auto intro: less_imp_le)
        ultimately show ?thesis by (simp add: net_range_def)
      qed
      then have "unat ip \<notin> nets_range ns" by (simp add: nets_range_def)
      then show ?thesis
        using hit by (simp only: ranges_match_rest[OF low] False if_False nets_range_simps) blast
    qed
  qed
qed

lemma lookup_after_aggregate:
  assumes "\<forall>n \<in> set ns. aligned_net n"
  shows "ranges_match N (aggregate_ipv4 N ns) ip \<longleftrightarrow> (\<exists>n \<in> set ns. contains_ip N n ip)"
proof -
  have "ranges_match N (aggregate_ipv4 N ns) ip \<longleftrightarrow> unat ip \<in> nets_range ns"
    using ranges_match_iff[OF aggregate_separated(1)[OF assms]] aggregate_separated(2)[OF assms] by simp
  also have "\<dots> \<longleftrightarrow> (\<exists>n \<in> set ns. contains_ip N n ip)"
    using assms contains_ip by (auto simp: nets_range_def aligned_net_def)
  finally show ?thesis .
qed

lemma gap_iff: "valid_net n \<Longrightarrow> saturating_add hi 1 < network N n \<longleftrightarrow> unat hi + 1 < net_first n"
proof -
  assume v: "valid_net n"
  have "unat hi < 2 ^ 32" using unsigned_less[of hi] by simp
  moreover have "net_first n < 2 ^ 32" using net_last_bound[OF v] net_first_last[of n] by simp
  ultimately show ?thesis
    by (auto simp: word_less_nat_alt unat_saturating_add network[OF v] min_def)
qed

lemma extend_range_cover:
  assumes "\<forall>n \<in> set ns. valid_net n \<and> lo \<le> net_first n" and "ascending ns" and "lo \<le> unat hi"
    and "extend_range N hi ns = (hi', rest)"
  shows "{lo..unat hi} \<union> nets_range ns = {lo..unat hi'} \<union> nets_range rest \<and> unat hi \<le> unat hi' \<and>
     (rest \<noteq> [] \<longrightarrow> unat hi' + 1 < net_first (hd rest)) \<and> set rest \<subseteq> set ns \<and> ascending rest"
  using assms
proof (induction ns arbitrary: hi)
  case (Cons n ns)
  have v: "valid_net n" and lo: "lo \<le> net_first n" using Cons.prems(1) by auto
  show ?case
  proof (cases "unat hi + 1 < net_first n")
    case True
    then show ?thesis using Cons.prems by (auto simp: gap_iff[OF v])
  next
    case False
    let ?hi = "max hi (broadcast N n)"
    have step: "extend_range N ?hi ns = (hi', rest)" using False Cons.prems(4) by (simp add: gap_iff[OF v])
    have mx: "unat ?hi = max (unat hi) (net_last n)"
      using broadcast[OF v] by (simp add: max_def word_le_nat_alt)
    then have ne: "lo \<le> unat ?hi" using Cons.prems(3) by simp
    have "{lo..unat hi} \<union> net_range n = {lo..unat ?hi}"
      using False lo Cons.prems(3) unfolding mx net_range_def by auto
    moreover have "{lo..unat ?hi} \<union> nets_range ns = {lo..unat hi'} \<union> nets_range rest \<and> unat ?hi \<le> unat hi' \<and>
        (rest \<noteq> [] \<longrightarrow> unat hi' + 1 < net_first (hd rest)) \<and> set rest \<subseteq> set ns \<and> ascending rest"
      using Cons.IH[OF _ _ ne step] Cons.prems(1,2) by (simp add: ascending_def)
    ultimately show ?thesis using mx by (simp add: Un_assoc[symmetric]) blast
  qed
qed simp

lemma nets_range_above:
  assumes "ascending ns" and "a \<in> nets_range ns"
  shows "net_first (hd ns) \<le> a"
proof -
  obtain n where n: "n \<in> set ns" "a \<in> net_range n" using assms(2) by (auto simp: nets_range_def)
  then have "net_first (hd ns) \<le> net_first n" using assms(1) by (cases ns) (auto simp: ascending_def)
  then show ?thesis using n(2) by (simp add: net_range_def)
qed

lemma merged_ranges_cover:
  assumes "\<forall>n \<in> set ns. valid_net n" and "ascending ns"
  shows "ranges_cover (merged_ranges N ns) = nets_range ns \<and>
     sorted_wrt (\<lambda>r s. unat (snd r) + 1 < unat (fst s)) (merged_ranges N ns) \<and>
     (\<forall>r \<in> set (merged_ranges N ns). unat (fst r) \<le> unat (snd r))"
  using assms
proof (induction ns rule: length_induct)
  case (1 ns)
  show ?case
  proof (cases ns)
    case Nil
    then show ?thesis by (simp add: ranges_cover_def)
  next
    case (Cons n tl)
    obtain hi rest where ext: "extend_range N (broadcast N n) tl = (hi, rest)"
      by (cases "extend_range N (broadcast N n) tl")
    have v: "valid_net n" using "1.prems"(1) Cons by simp
    note ends = network[OF v] broadcast[OF v] net_first_last[of n]
    have ok: "{net_first n..net_last n} \<union> nets_range tl = {net_first n..unat hi} \<union> nets_range rest \<and>
        net_last n \<le> unat hi \<and> (rest \<noteq> [] \<longrightarrow> unat hi + 1 < net_first (hd rest)) \<and>
        set rest \<subseteq> set tl \<and> ascending rest"
      using extend_range_cover[OF _ _ _ ext, of "net_first n"] "1.prems" Cons ends
      by (simp add: ascending_def)
    have "length rest < length ns" using extend_range_length[of N "broadcast N n" tl] ext Cons by simp
    then have ih: "ranges_cover (merged_ranges N rest) = nets_range rest"
        "sorted_wrt (\<lambda>r s. unat (snd r) + 1 < unat (fst s)) (merged_ranges N rest)"
        "\<forall>r \<in> set (merged_ranges N rest). unat (fst r) \<le> unat (snd r)"
      using "1.IH" "1.prems"(1) ok Cons by (auto dest: subsetD)
    have eq: "merged_ranges N ns = (network N n, hi) # merged_ranges N rest"
      using Cons ext by simp
    have "unat hi + 1 < unat (fst r)" if r: "r \<in> set (merged_ranges N rest)" for r
    proof -
      have "unat (fst r) \<in> nets_range rest"
        using r ih(3) unfolding ih(1)[symmetric] ranges_cover_def by (force simp: case_prod_beta)
      then have "net_first (hd rest) \<le> unat (fst r)" "rest \<noteq> []"
        using nets_range_above ok by auto
      then show ?thesis using ok by simp
    qed
    moreover have "ranges_cover (merged_ranges N ns) = {net_first n..unat hi} \<union> nets_range rest"
      using ih(1) ends unfolding eq ranges_cover_def by simp
    ultimately show ?thesis
      using ok ih(2,3) ends Cons unfolding eq by (auto simp: net_range_def)
  qed
qed

lemma count_gaps_extend:
  assumes "separated (rev (n # ns))" and "extend_range N (broadcast N n) ns = (hi, rest)"
  shows "count_gaps N (n # ns) = (if rest = [] then 0 else 1 + count_gaps N rest) \<and> separated (rev rest)"
  using assms
proof (induction ns arbitrary: n)
  case (Cons m ns)
  have v: "valid_net n" "valid_net m" and lt: "net_last n < net_first m"
    and sep: "separated (rev (m # ns))"
    using Cons.prems(1) by (auto simp: separated_def aligned_net_def sorted_wrt_append)
  have mx: "max (broadcast N n) (broadcast N m) = broadcast N m"
    using lt net_first_last[of m] broadcast[OF v(1)] broadcast[OF v(2)]
    by (simp add: max_def word_le_nat_alt)
  then show ?case using Cons.IH[OF sep] Cons.prems(2) sep by (auto split: if_splits)
qed (simp add: separated_def)

lemma interval_count_merged:
  "separated (rev ns) \<Longrightarrow> interval_count N ns = length (merged_ranges N ns)"
proof (induction ns rule: length_induct)
  case (1 ns)
  show ?case
  proof (cases ns)
    case (Cons n tl)
    obtain hi rest where ext: "extend_range N (broadcast N n) tl = (hi, rest)"
      by (cases "extend_range N (broadcast N n) tl")
    have "length rest < length ns" using extend_range_length[of N "broadcast N n" tl] ext Cons by simp
    then show ?thesis
      using count_gaps_extend[OF _ ext] "1.IH" "1.prems" Cons ext by (auto simp: interval_count_def)
  qed (simp add: interval_count_def)
qed

lemma separated_ascending: "separated (rev ns) \<Longrightarrow> ascending ns \<and> (\<forall>n \<in> set ns. valid_net n)"
proof -
  assume sep: "separated (rev ns)"
  then have "sorted_wrt (\<lambda>m n. net_last m < net_first n) ns"
    by (simp add: separated_def sorted_wrt_rev)
  moreover have "net_first m \<le> net_first n" if "net_last m < net_first n" for m n
    using that net_first_last[of m] by simp
  ultimately have "ascending ns" unfolding ascending_def
    by (rule sorted_wrt_mono_rel[rotated]) simp
  then show ?thesis using sep by (auto simp: separated_def aligned_net_def)
qed

end

section \<open>Properties\<close>

text \<open>Looking an address up in the aggregated ranges of a country is the same as asking
  every network of the country: \<^verbatim>\<open>aggregate_ipv4\<close> keeps exactly the addresses of the networks,
  sorts them and makes them disjoint, and the binary search of \<^verbatim>\<open>matches_ip\<close> needs to look at one
  network only. The networks are truncated, as \<^verbatim>\<open>decode_ip\<close> makes them.\<close>

theorem aggregate_lookup:
  assumes "ipnet_laws N" and "\<forall>n \<in> set networks. aligned_net n"
  shows "ranges_match N (aggregate_ipv4 N networks) ip \<longleftrightarrow> (\<exists>n \<in> set networks. contains_ip N n ip)"
  using ipnet_laws.lookup_after_aggregate[OF assms] .

definition witness_nets :: "ipv4net list" where
  "witness_nets = [net 10 0 1 0 24, net 10 0 0 128 25, net 10 0 0 0 25, net 10 0 0 64 26]"

lemma witness_nets_aligned: "\<forall>n \<in> set witness_nets. aligned_net n"
  by (simp add: witness_nets_def aligned_net_def valid_net_def net_def net_first_def net_size_def octets_addr_def)

theorem aggregate_lookup_witness:
  "aggregate_ipv4 std_ipnet witness_nets = [net 10 0 0 0 23] \<and>
   (ranges_match std_ipnet (aggregate_ipv4 std_ipnet witness_nets) (octets_addr 10 0 1 7) \<longleftrightarrow>
    (\<exists>n \<in> set witness_nets. contains_ip std_ipnet n (octets_addr 10 0 1 7)))"
proof
  show "aggregate_ipv4 std_ipnet witness_nets = [net 10 0 0 0 23]"
    by (simp add: aggregate_ipv4_def sort_by_def aggregate_step_def witness_nets_def net_def octets_addr_def
        std_ipnet_def net_first_def net_last_def net_size_def net_trunc_def)
qed (rule aggregate_lookup[OF std.ipnet_laws_axioms witness_nets_aligned])

text \<open>C28: The element list that is written for nftables covers exactly the networks of the
  country, its intervals are separated by at least one address (nftables refuses overlapping
  intervals), and the number of intervals that the resource budget of \<^verbatim>\<open>select\<close> counts is the
  number of intervals that are written.\<close>

theorem nft_intervals_exact:
  assumes "ipnet_laws N" and "\<forall>n \<in> set networks. aligned_net n"
  shows "ranges_cover (merged_ranges N (aggregate_ipv4 N networks)) = nets_range networks \<and>
     sorted_wrt (\<lambda>r s. unat (snd r) + 1 < unat (fst s)) (merged_ranges N (aggregate_ipv4 N networks)) \<and>
     interval_count N (aggregate_ipv4 N networks) =
       length (merged_ranges N (aggregate_ipv4 N networks))"
proof -
  note sep = ipnet_laws.aggregate_separated[OF assms]
  note asc = ipnet_laws.separated_ascending[OF assms(1) sep(1)]
  show ?thesis
    using ipnet_laws.merged_ranges_cover[OF assms(1) conjunct2[OF asc] conjunct1[OF asc]] sep(2)
      ipnet_laws.interval_count_merged[OF assms(1) sep(1)] by simp
qed

theorem nft_intervals_exact_witness:
  "ranges_cover (merged_ranges std_ipnet (aggregate_ipv4 std_ipnet witness_nets)) = nets_range witness_nets \<and>
   interval_count std_ipnet (aggregate_ipv4 std_ipnet witness_nets) =
     length (merged_ranges std_ipnet (aggregate_ipv4 std_ipnet witness_nets))"
  using nft_intervals_exact[OF std.ipnet_laws_axioms witness_nets_aligned] by simp

end
