(* ===== verification/Geo_Wire.thy ===== *)
theory Geo_Wire
  imports Std_Str
begin

text \<open>
  The bounded protobuf reader of \<^verbatim>\<open>gofro-agent/src/geodata/wire.rs\<close>. The open file is its
  contents; \<^verbatim>\<open>BufReader\<close> is always positioned at \<open>position\<close>, so reading takes the bytes
  there and \<^verbatim>\<open>seek_relative\<close> moves to an offset. After an error the reader is dropped, so an
  error carries no reader. Offsets are 64-bit words; the sums the code forms without a check wrap.

  \<open>fold_fields\<close> is the loop \<^verbatim>\<open>while let Some((field, value)) = reader.field()?\<close>. Its bodies
  read nested ranges through \<^verbatim>\<open>within\<close>, which puts the reader back where it was
  (\<open>within_restores\<close>), so a body is given the reader and returns its result only.
\<close>

unbundle bit_operations_syntax

section \<open>Definitions\<close>

datatype geo_error =
    Truncated_Integer | Unexpected_Eof | Integer_Overflow | Offset_Overflow | Seek_Range
  | Truncated_Field | Field_Number | Wire_Type | Byte_Length | String_Size | Utf8
  | Bad_Entry | Bad_Tag | Bad_Inverse | Bad_Domain | Bad_Domain_Field | Bad_Cidr | Bad_Cidr_Field
  | Regex_Count | Bad_Regex string | Domain_Type u64 | Missing_Tag string | Site_Budget | Interval_Budget

record wire_range =
  range_start :: u64
  range_len :: u64

datatype wire_value = Integer u64 | Bytes wire_range | Fixed

record reader =
  input :: bytes
  position :: u64
  range_end :: u64

definition reader_new :: "bytes \<Rightarrow> reader" where
  "reader_new file = \<lparr>input = file, position = 0, range_end = of_nat (length file)\<rparr>"

text \<open>\<^verbatim>\<open>read_exact\<close> of \<open>n\<close> bytes followed by \<^verbatim>\<open>position += n\<close>.\<close>

definition read_exact :: "nat \<Rightarrow> reader \<Rightarrow> geo_error + bytes \<times> reader" where
  "read_exact n r =
     (if unat (position r) + n \<le> length (input r)
      then Inr (take n (drop (unat (position r)) (input r)), r\<lparr>position := position r + of_nat n\<rparr>)
      else Inl Unexpected_Eof)"

primrec integer_loop :: "nat list \<Rightarrow> u64 \<Rightarrow> reader \<Rightarrow> geo_error + u64 \<times> reader" where
  "integer_loop [] acc r = Inl Integer_Overflow"
| "integer_loop (shift # shifts) acc r =
     and_then (ensure (position r < range_end r) Truncated_Integer) (\<lambda>_.
     and_then (read_exact 1 r) (\<lambda>(bs, r).
     let byte = hd bs in
     and_then (ensure (shift < 63 \<or> byte \<le> 1) Integer_Overflow) (\<lambda>_.
     let acc = acc OR push_bit shift (ucast (byte AND 0x7f)) in
     if byte AND 0x80 = 0 then Inr (acc, r) else integer_loop shifts acc r)))"

definition integer :: "reader \<Rightarrow> geo_error + u64 \<times> reader" where
  "integer r = integer_loop [0, 7, 14, 21, 28, 35, 42, 49, 56, 63] 0 r"

definition seek :: "u64 \<Rightarrow> reader \<Rightarrow> geo_error + reader" where
  "seek pos r =
     (let delta = int (unat pos) - int (unat (position r)) in
      if - (2 ^ 63) \<le> delta \<and> delta < 2 ^ 63 then Inr (r\<lparr>position := pos\<rparr>) else Inl Seek_Range)"

definition skip :: "u64 \<Rightarrow> reader \<Rightarrow> geo_error + reader" where
  "skip len r =
     and_then (ok_or (checked_add (position r) len) Offset_Overflow) (\<lambda>e.
     and_then (ensure (e \<le> range_end r) Truncated_Field) (\<lambda>_. seek e r))"

definition field :: "reader \<Rightarrow> geo_error + (u32 \<times> wire_value) option \<times> reader" where
  "field r =
     (if position r = range_end r then Inr (None, r)
      else and_then (integer r) (\<lambda>(key, r).
           and_then (ensure (unat (drop_bit 3 key) < 2 ^ 32) Field_Number) (\<lambda>_.
           let number = (ucast (drop_bit 3 key) :: u32) in
           and_then (ensure (1 \<le> number \<and> number \<le> 0x1fffffff) Field_Number) (\<lambda>_.
           and_then
             (let wire = key AND 7 in
              if wire = 0 then and_then (integer r) (\<lambda>(v, r). Inr (Integer v, r))
              else if wire = 1 then and_then (skip 8 r) (\<lambda>r. Inr (Fixed, r))
              else if wire = 2 then
                and_then (integer r) (\<lambda>(len, r).
                  let rng = \<lparr>range_start = position r, range_len = len\<rparr> in
                  and_then (skip len r) (\<lambda>r. Inr (Bytes rng, r)))
              else if wire = 5 then and_then (skip 4 r) (\<lambda>r. Inr (Fixed, r))
              else Inl Wire_Type)
             (\<lambda>(v, r). Inr (Some (number, v), r))))))"

definition within :: "wire_range \<Rightarrow> (reader \<Rightarrow> geo_error + 'a \<times> reader) \<Rightarrow> reader \<Rightarrow>
    geo_error + 'a \<times> reader" where
  "within rng read r =
     and_then (seek (range_start rng) r) (\<lambda>inner.
       case read (inner\<lparr>range_end := range_start rng + range_len rng\<rparr>) of
         Inl e \<Rightarrow> Inl e
       | Inr (x, r') \<Rightarrow>
           and_then (seek (position r) (r'\<lparr>range_end := range_end r\<rparr>)) (\<lambda>r''. Inr (x, r'')))"

definition bytes_of :: "nat \<Rightarrow> wire_range \<Rightarrow> reader \<Rightarrow> geo_error + bytes \<times> reader" where
  "bytes_of n rng r =
     and_then (ensure (unat (range_len rng) = n) Byte_Length) (\<lambda>_. within rng (read_exact n) r)"

text \<open>\<^verbatim>\<open>String::from_utf8\<close>: the well-formed byte sequences of the Unicode standard.\<close>

definition utf8_tail :: "u8 \<Rightarrow> bool" where
  "utf8_tail b \<longleftrightarrow> 0x80 \<le> b \<and> b \<le> 0xbf"

fun utf8_valid :: "bytes \<Rightarrow> bool" where
  "utf8_valid [] = True"
| "utf8_valid (a # bs) =
     (if a \<le> 0x7f then utf8_valid bs
      else case bs of
        b # cs \<Rightarrow>
          if 0xc2 \<le> a \<and> a \<le> 0xdf then utf8_tail b \<and> utf8_valid cs
          else (case cs of
            c # ds \<Rightarrow>
              if 0xe0 \<le> a \<and> a \<le> 0xef then
                utf8_tail b \<and> (a = 0xe0 \<longrightarrow> 0xa0 \<le> b) \<and> (a = 0xed \<longrightarrow> b \<le> 0x9f) \<and> utf8_tail c \<and> utf8_valid ds
              else (case ds of
                d # es \<Rightarrow> 0xf0 \<le> a \<and> a \<le> 0xf4 \<and> utf8_tail b \<and> (a = 0xf0 \<longrightarrow> 0x90 \<le> b) \<and>
                  (a = 0xf4 \<longrightarrow> b \<le> 0x8f) \<and> utf8_tail c \<and> utf8_tail d \<and> utf8_valid es
              | [] \<Rightarrow> False)
          | [] \<Rightarrow> False)
      | [] \<Rightarrow> False)"

definition str_of_bytes :: "bytes \<Rightarrow> string" where
  "str_of_bytes bs = map (\<lambda>b. char_of (unat b)) bs"

definition bytes_of_str :: "string \<Rightarrow> bytes" where
  "bytes_of_str s = map (\<lambda>c. of_nat (of_char c)) s"

lemma bytes_of_str_of_bytes: "bytes_of_str (str_of_bytes b) = b"
proof -
  have "(of_nat (of_char (char_of (unat x))) :: u8) = x" for x :: u8
    using unsigned_less[of x, where ?'a = nat] by simp
  then show ?thesis by (simp add: str_of_bytes_def bytes_of_str_def comp_def)
qed

lemma str_of_bytes_of_str [simp]: "str_of_bytes (bytes_of_str s) = s"
proof -
  have "char_of (unat (of_nat (of_char c) :: u8)) = c" for c
    by (simp add: unat_of_nat)
  then show ?thesis by (simp add: str_of_bytes_def bytes_of_str_def comp_def)
qed

definition string_of :: "wire_range \<Rightarrow> nat \<Rightarrow> reader \<Rightarrow> geo_error + string \<times> reader" where
  "string_of rng limit r =
     and_then (ensure (unat (range_len rng) \<le> limit) String_Size) (\<lambda>_.
       within rng (\<lambda>r. and_then (read_exact (unat (range_len rng)) r) (\<lambda>(bs, r).
         if utf8_valid bs then Inr (str_of_bytes bs, r) else Inl Utf8)) r)"

section \<open>Progress\<close>

lemma unat_word_succ:
  fixes a b :: "'w::len word"
  assumes "a < b"
  shows "unat (a + 1) = Suc (unat a)"
proof -
  have "unat a < unat b" using assms by (simp add: word_less_nat_alt)
  then have "unat a + 1 < 2 ^ LENGTH('w)" using unsigned_less[of b, where ?'a = nat] by linarith
  then show ?thesis by (simp add: unat_word_ariths)
qed

lemma read_exact_Inr: "read_exact n r = Inr (bs, r') \<longleftrightarrow>
    unat (position r) + n \<le> length (input r) \<and> bs = take n (drop (unat (position r)) (input r)) \<and>
    r' = r\<lparr>position := position r + of_nat n\<rparr>"
  by (auto simp: read_exact_def)

definition advanced :: "reader \<Rightarrow> reader \<Rightarrow> bool" where
  "advanced r r' \<longleftrightarrow> input r' = input r \<and> range_end r' = range_end r \<and>
     position r < position r' \<and> position r' \<le> range_end r"

lemma advanced_trans: "advanced r r' \<Longrightarrow> advanced r' r'' \<Longrightarrow> advanced r r''"
  by (auto simp: advanced_def)

lemma word_succ_less: "(a :: 'w::len word) < b \<Longrightarrow> a < a + 1 \<and> a + 1 \<le> b"
  using unat_word_succ[of a b] by (simp add: word_less_nat_alt word_le_nat_alt)

lemma integer_loop_advances:
  "integer_loop shifts acc r = Inr (v, r') \<Longrightarrow> advanced r r'"
proof (induction shifts arbitrary: acc r)
  case (Cons shift shifts)
  let ?r = "r\<lparr>position := position r + 1\<rparr>"
  have step: "advanced r ?r" if "position r < range_end r"
    using word_succ_less[OF that] by (simp add: advanced_def)
  show ?case
    using Cons.prems step Cons.IH[of _ ?r] advanced_trans
    by (auto simp: read_exact_Inr Let_def split: if_splits)
qed simp

lemma integer_advances: "integer r = Inr (v, r') \<Longrightarrow> advanced r r'"
  unfolding integer_def by (rule integer_loop_advances)

lemma seek_Inr: "seek pos r = Inr r' \<Longrightarrow> r' = r\<lparr>position := pos\<rparr>"
  by (auto simp: seek_def Let_def split: if_splits)

lemma skip_Inr:
  "skip len r = Inr r' \<Longrightarrow> r' = r\<lparr>position := position r + len\<rparr> \<and>
     unat (position r') = unat (position r) + unat len \<and> position r' \<le> range_end r"
  by (auto simp: skip_def checked_add_def unat_word_ariths dest!: seek_Inr split: if_splits)

lemma skip_advances: "skip len r = Inr r' \<Longrightarrow> position r' \<le> range_end r' \<and> input r' = input r \<and>
    range_end r' = range_end r \<and> position r \<le> position r'"
  using skip_Inr[of len r r'] by (auto simp: word_le_nat_alt)

text \<open>Every field lies inside the range the reader is bounded by.\<close>

definition range_inside :: "wire_range \<Rightarrow> u64 \<Rightarrow> u64 \<Rightarrow> bool" where
  "range_inside rng lo hi \<longleftrightarrow> unat lo \<le> unat (range_start rng) \<and>
     unat (range_start rng) + unat (range_len rng) \<le> unat hi"

lemma field_None: "field r = Inr (None, r') \<longleftrightarrow> position r = range_end r \<and> r' = r"
  by (auto simp: field_def Let_def case_prod_beta split: if_splits)

lemma field_Some:
  assumes "field r = Inr (Some (n, v), r')"
  shows "advanced r r'" and "v = Bytes rng \<Longrightarrow> range_inside rng (position r) (position r')"
    and "n \<noteq> 0"
proof -
  obtain key r1 where key: "integer r = Inr (key, r1)" "1 \<le> n"
      "(key AND 7 = 0 \<and> (\<exists>i. integer r1 = Inr (i, r') \<and> v = Integer i)) \<or>
       (v = Fixed \<and> (\<exists>k. skip k r1 = Inr r')) \<or>
       (\<exists>len r2. integer r1 = Inr (len, r2) \<and> skip len r2 = Inr r' \<and>
          v = Bytes \<lparr>range_start = position r2, range_len = len\<rparr>)"
    using assms by (auto simp: field_def Let_def case_prod_beta split: if_splits)
  have a1: "advanced r r1" using integer_advances[OF key(1)] .
  have sk: "advanced r r'" if "advanced r s" "skip k s = Inr r'" for k s
    using that skip_advances[OF that(2)] by (auto simp: advanced_def)
  show "advanced r r'"
    using key(3) a1 sk integer_advances advanced_trans by blast
  show "n \<noteq> 0" using key(2) by auto
  show "range_inside rng (position r) (position r')" if vb: "v = Bytes rng"
  proof -
    obtain len r2 where r2: "integer r1 = Inr (len, r2)" "skip len r2 = Inr r'"
        "rng = \<lparr>range_start = position r2, range_len = len\<rparr>"
      using key(3) vb by auto
    have "advanced r r2" using a1 integer_advances[OF r2(1)] advanced_trans by blast
    then show ?thesis
      using skip_Inr[OF r2(2)] r2(3) by (auto simp: range_inside_def advanced_def word_less_nat_alt)
  qed
qed

lemma within_restores:
  assumes "within rng read r = Inr (x, r')" and "\<And>s y s'. read s = Inr (y, s') \<Longrightarrow> input s' = input s"
  shows "r' = r"
proof -
  let ?inner = "r\<lparr>position := range_start rng, range_end := range_start rng + range_len rng\<rparr>"
  have "seek (range_start rng) r = Inr (r\<lparr>position := range_start rng\<rparr>)"
    using assms(1) by (auto simp: within_def dest: seek_Inr)
  then obtain s where s: "read ?inner = Inr (x, s)" "seek (position r) (s\<lparr>range_end := range_end r\<rparr>) = Inr r'"
    using assms(1) by (auto simp: within_def split: sum.splits)
  show ?thesis using seek_Inr[OF s(2)] assms(2)[OF s(1)] by simp
qed

section \<open>The field loop\<close>

function fold_fields :: "(u32 \<Rightarrow> wire_value \<Rightarrow> reader \<Rightarrow> 's \<Rightarrow> geo_error + 's) \<Rightarrow> 's \<Rightarrow> reader \<Rightarrow>
    geo_error + 's \<times> reader" where
  "fold_fields body s r =
     (case field r of
        Inl e \<Rightarrow> Inl e
      | Inr (None, r') \<Rightarrow> Inr (s, r')
      | Inr (Some (n, v), r') \<Rightarrow>
          (case body n v r' s of Inl e \<Rightarrow> Inl e | Inr s' \<Rightarrow> fold_fields body s' r'))"
  by pat_completeness auto
termination
proof (relation "measure (\<lambda>(body, s, r). unat (range_end r) - unat (position r))", goal_cases)
  case (2 body s r pr opt r' p n v s')
  then have "advanced r r'" using field_Some(1)[of r n v r'] by auto
  then show ?case by (auto simp: advanced_def word_less_nat_alt word_le_nat_alt)
qed simp

declare fold_fields.simps [simp del]

text \<open>Rule for the loop: an invariant of the accumulated state.\<close>

lemma fold_fields_invariant:
  assumes "fold_fields body s r = Inr (s', r')" and "P s"
    and "\<And>n v r1 s1 s2 rng. field r1 = Inr (Some (n, v), rng) \<Longrightarrow> input rng = input r \<Longrightarrow>
           range_end rng = range_end r \<Longrightarrow> position r \<le> position r1 \<Longrightarrow> body n v rng s1 = Inr s2 \<Longrightarrow> P s1 \<Longrightarrow> P s2"
  shows "P s' \<and> input r' = input r"
  using assms
proof (induction body s r rule: fold_fields.induct)
  case (1 body s r)
  show ?case
  proof (cases "field r")
    case (Inl e)
    then show ?thesis using "1.prems"(1) by (simp add: fold_fields.simps)
  next
    case (Inr p)
    obtain opt r1 where p: "p = (opt, r1)" by (cases p)
    show ?thesis
    proof (cases opt)
      case None
      then show ?thesis using "1.prems"(1,2) Inr p by (simp add: fold_fields.simps field_None)
    next
      case (Some nv)
      obtain n v where nv: "nv = (n, v)" by (cases nv)
      have fld: "field r = Inr (Some (n, v), r1)" using Inr p Some nv by simp
      note adv = field_Some(1)[OF fld, unfolded advanced_def]
      obtain s1 where b: "body n v r1 s = Inr s1" and rest: "fold_fields body s1 r1 = Inr (s', r')"
        using "1.prems"(1) fld by (auto simp: fold_fields.simps[of body s r] split: sum.splits)
      have "P s1" using "1.prems"(3)[OF fld _ _ _ b "1.prems"(2)] adv by simp
      moreover have "P s2" if "field ra = Inr (Some (n', v'), rb)" "input rb = input r1"
          "range_end rb = range_end r1" "position r1 \<le> position ra" "body n' v' rb s1' = Inr s2" "P s1'"
        for n' v' ra s1' s2 rb
        using "1.prems"(3)[OF that(1) _ _ _ that(5,6)] that(2-4) adv by (auto intro: order_trans less_imp_le)
      ultimately have "P s' \<and> input r' = input r1"
        using "1.IH"[OF Inr p[symmetric] Some nv[symmetric] b rest] by blast
      then show ?thesis using adv by simp
    qed
  qed
qed

end
