(* ===== verification/Model.thy ===== *)
theory Model
  imports Ipnet
begin

text \<open>
  The data of the agent (\<^verbatim>\<open>gofro-agent/src/model.rs\<close>): MAC addresses with their parser and
  printer, panel ports, the controller configuration, the routing rules and targets; and the
  resource limits of \<^verbatim>\<open>gofro-agent/src/resources.rs\<close>.
\<close>

unbundle bit_operations_syntax

section \<open>Hexadecimal bytes\<close>

definition hex_digit :: "nat \<Rightarrow> char" where
  "hex_digit n = char_of (if n < 10 then 48 + n else 87 + n)"

definition hex_value :: "char \<Rightarrow> nat option" where
  "hex_value c =
     (let k = of_char c in
      if 48 \<le> k \<and> k \<le> 57 then Some (k - 48)
      else if 97 \<le> k \<and> k \<le> 102 then Some (k - 87)
      else if 65 \<le> k \<and> k \<le> 70 then Some (k - 55)
      else None)"

definition is_hex_digit :: "char \<Rightarrow> bool" where
  "is_hex_digit c \<longleftrightarrow> hex_value c \<noteq> None"

definition show_hex_byte :: "u8 \<Rightarrow> string" where
  "show_hex_byte b = [hex_digit (unat b div 16), hex_digit (unat b mod 16)]"

text \<open>\<^verbatim>\<open>u8::from_str_radix(part, 16)\<close> on two hexadecimal digits.\<close>

fun parse_hex_byte :: "string \<Rightarrow> u8 option" where
  "parse_hex_byte [a, b] =
     (case (hex_value a, hex_value b) of
        (Some x, Some y) \<Rightarrow> Some (of_nat (16 * x + y))
      | _ \<Rightarrow> None)"
| "parse_hex_byte _ = None"

section \<open>MAC addresses\<close>

datatype mac_error = Invalid_Mac | Not_Unicast

type_synonym mac_address = "u8 list"

definition mac_from_str :: "string \<Rightarrow> mac_error + mac_address" where
  "mac_from_str text =
     and_then (ensure (length text = 17) Invalid_Mac) (\<lambda>_.
     let parts = split_char (CHR '':'') text in
     and_then (ensure (length parts = 6) Invalid_Mac) (\<lambda>_.
     and_then (collect_results (map (\<lambda>part.
         and_then (ensure (length part = 2 \<and> list_all is_hex_digit part) Invalid_Mac) (\<lambda>_.
           ok_or (parse_hex_byte part) Invalid_Mac)) parts)) (\<lambda>bs.
     and_then (ensure (bs \<noteq> replicate 6 0 \<and> hd bs AND 1 = 0) Not_Unicast) (\<lambda>_. Inr bs))))"

definition mac_show :: "mac_address \<Rightarrow> string" where
  "mac_show mac = join '':'' (map show_hex_byte mac)"

definition valid_mac :: "mac_address \<Rightarrow> bool" where
  "valid_mac mac \<longleftrightarrow> length mac = 6 \<and> mac \<noteq> replicate 6 0 \<and> hd mac AND 1 = 0"

section \<open>Panel\<close>

definition AP_DOMAIN :: string where "AP_DOMAIN = ''wifi.gofro.net''"

definition PANEL_VIRTUAL_IP :: ipv4 where "PANEL_VIRTUAL_IP = octets_addr 198 18 0 0"

record panel_ports =
  http :: u16
  https :: u16

datatype ports_error = Zero_Port | Overlapping_Ports

definition panel_ports_validate :: "panel_ports \<Rightarrow> ports_error + unit" where
  "panel_ports_validate p =
     and_then (ensure (http p \<noteq> 0 \<and> https p \<noteq> 0) Zero_Port) (\<lambda>_.
     and_then (ensure (http p \<notin> {443, 8443} \<and> https p \<notin> {80, 8081} \<and> http p \<noteq> https p)
         Overlapping_Ports) (\<lambda>_. Inr ()))"

record lan_context =
  device :: string
  address :: ipv4
  subnet :: ipv4net

section \<open>Configuration\<close>

datatype route_target = Direct | Vpn | Warp | Block

datatype routing_mode = Rules | All

datatype rule_ref = Domain_Ref nat | Ip_Ref nat

datatype domain_match = Exact string | Suffix string | GeoSite string

datatype ip_match = Cidr string | GeoIp string

record domain_rule =
  dr_name :: string
  dr_enabled :: bool
  dr_matcher :: domain_match
  dr_target :: route_target

record ip_rule =
  ir_name :: string
  ir_enabled :: bool
  ir_matcher :: ip_match
  ir_target :: route_target

record routing_config =
  domain_rules :: "domain_rule list"
  ip_rules :: "ip_rule list"
  default_target :: route_target
  mode :: routing_mode
  rule_order :: "rule_ref list option"

record managed_server =
  ms_host :: string
  ms_port :: u16
  ms_host_key :: string

record server_profile =
  sp_name :: string
  sp_emoji :: string
  sp_endpoint :: string
  sp_public_key :: string
  client_tunnel_address :: "string option"
  client_private_key :: "string option"
  management :: "managed_server option"

record controller_config =
  auto_update_enabled :: bool
  device_exclusions :: "mac_address list"
  vpn_enabled :: bool
  active_server_key :: "string option"
  servers :: "server_profile list"
  routing :: routing_config

record server_status =
  ss_name :: string
  ss_emoji :: string
  ss_endpoint :: string
  ss_public_key :: string
  ss_managed :: bool

definition server_status_from :: "server_profile \<Rightarrow> server_status" where
  "server_status_from s = \<lparr>ss_name = sp_name s, ss_emoji = sp_emoji s, ss_endpoint = sp_endpoint s,
     ss_public_key = sp_public_key s, ss_managed = (management s \<noteq> None)\<rparr>"

section \<open>Resource limits\<close>

datatype memory_profile = Auto | Compact | Standard

record resource_limits =
  worker_threads :: nat
  blocking_threads :: nat
  stack_bytes :: nat
  dns_workers :: nat
  dns_tcp_connections :: nat
  fake_leases :: nat
  sqlite_cache_kib :: nat
  wal_pages :: nat
  geosite_bytes :: nat
  regex_count :: nat
  regex_size_bytes :: nat
  regex_cache_bytes :: nat
  geoip_intervals :: nat

text \<open>\<^verbatim>\<open>usize::MAX\<close> of the 64-bit targets.\<close>

definition USIZE_MAX :: nat where "USIZE_MAX = 2 ^ 64 - 1"

definition STANDARD_LIMITS :: resource_limits where
  "STANDARD_LIMITS = \<lparr>worker_threads = 2, blocking_threads = 24, stack_bytes = 512 * 1024,
     dns_workers = 16, dns_tcp_connections = 32, fake_leases = 32768, sqlite_cache_kib = 256,
     wal_pages = 64, geosite_bytes = USIZE_MAX, regex_count = USIZE_MAX,
     regex_size_bytes = 10 * 1024 * 1024, regex_cache_bytes = 64 * 1024, geoip_intervals = USIZE_MAX\<rparr>"

definition COMPACT_LIMITS :: resource_limits where
  "COMPACT_LIMITS = \<lparr>worker_threads = 1, blocking_threads = 16, stack_bytes = 256 * 1024,
     dns_workers = 8, dns_tcp_connections = 8, fake_leases = 8192, sqlite_cache_kib = 128,
     wal_pages = 32, geosite_bytes = 512 * 1024, regex_count = 8,
     regex_size_bytes = 128 * 1024, regex_cache_bytes = 16 * 1024, geoip_intervals = 16384\<rparr>"

definition for_memory :: "memory_profile \<Rightarrow> nat option \<Rightarrow> resource_limits" where
  "for_memory profile total_kib =
     (if profile = Compact then COMPACT_LIMITS
      else if profile = Auto \<and> (case total_kib of None \<Rightarrow> False | Some kib \<Rightarrow> kib < 96 * 1024)
      then COMPACT_LIMITS else STANDARD_LIMITS)"

text \<open>The search of \<^verbatim>\<open>/proc/meminfo\<close>, a list of lines split at white space.\<close>

definition meminfo_total :: "string list list \<Rightarrow> nat option" where
  "meminfo_total lines =
     find_map (\<lambda>fields.
       case fields of
         label # amount # _ \<Rightarrow>
           if label = ''MemTotal:'' then parse_uint (USIZE_MAX + 1) amount else None
       | _ \<Rightarrow> None) lines"

definition resolve :: "memory_profile \<Rightarrow> string list list option \<Rightarrow> resource_limits" where
  "resolve profile meminfo = for_memory profile (Option.bind meminfo meminfo_total)"

section \<open>Hexadecimal lemmas\<close>

lemma hex_value_digit: "n < 16 \<Longrightarrow> hex_value (hex_digit n) = Some n"
  by (auto simp: hex_value_def hex_digit_def Let_def take_bit_eq_mod)

lemma is_hex_digit_digit: "n < 16 \<Longrightarrow> is_hex_digit (hex_digit n)"
  by (simp add: is_hex_digit_def hex_value_digit)

lemma byte_nibbles: "unat (b :: u8) div 16 < 16" "unat b mod 16 < 16"
  using unsigned_less[of b, where ?'a = nat] by (simp_all add: less_mult_imp_div_less)

lemma parse_show_hex_byte: "parse_hex_byte (show_hex_byte b) = Some b"
  using byte_nibbles[of b] by (simp add: show_hex_byte_def hex_value_digit)

lemma length_show_hex_byte [simp]: "length (show_hex_byte b) = 2"
  by (simp add: show_hex_byte_def)

lemma show_hex_byte_digits: "list_all is_hex_digit (show_hex_byte b)"
  using byte_nibbles[of b] by (simp add: show_hex_byte_def is_hex_digit_digit)

lemma hex_digit_no_colon: "CHR '':'' \<notin> set (show_hex_byte b)"
proof
  assume "CHR '':'' \<in> set (show_hex_byte b)"
  then have "is_hex_digit (CHR '':'')" using show_hex_byte_digits[of b] by (auto simp: list_all_iff)
  then show False by (simp add: is_hex_digit_def hex_value_def)
qed

lemma split_join:
  assumes "\<forall>p \<in> set ps. d \<notin> set p" and "ps \<noteq> []"
  shows "split_char d (join [d] ps) = ps"
  using assms
proof (induction ps)
  case (Cons p ps)
  then show ?case by (cases ps) (simp_all add: split_char_none split_char_append)
qed simp

lemma length_join: "ps \<noteq> [] \<Longrightarrow> length (join [d] ps) + 1 = sum_list (map (\<lambda>p. length p + 1) ps)"
proof (induction ps)
  case (Cons p ps)
  then show ?case by (cases ps) simp_all
qed simp

lemma mac_from_show:
  assumes "valid_mac mac"
  shows "mac_from_str (mac_show mac) = Inr mac"
proof -
  have len: "length mac = 6" and ne: "mac \<noteq> []" using assms by (auto simp: valid_mac_def)
  have "length (mac_show mac) + 1 = sum_list (map (\<lambda>p. length p + 1) (map show_hex_byte mac))"
    unfolding mac_show_def by (rule length_join) (simp add: ne)
  then have l17: "length (mac_show mac) = 17" using len by (simp add: comp_def sum_list_triv)
  have parts: "split_char (CHR '':'') (mac_show mac) = map show_hex_byte mac"
    unfolding mac_show_def using ne by (intro split_join) (auto simp: hex_digit_no_colon)
  have "collect_results (map (\<lambda>part.
         and_then (ensure (length part = 2 \<and> list_all is_hex_digit part) Invalid_Mac) (\<lambda>_.
           ok_or (parse_hex_byte part) Invalid_Mac)) (map show_hex_byte mac)) = Inr mac"
    by (simp add: collect_results_Inr show_hex_byte_digits parse_show_hex_byte)
  then show ?thesis
    using assms by (simp add: mac_from_str_def l17 parts Let_def valid_mac_def)
qed

lemma mac_from_str_valid: "mac_from_str s = Inr mac \<Longrightarrow> valid_mac mac"
  by (auto simp: mac_from_str_def Let_def valid_mac_def collect_results_Inr dest: map_eq_imp_length_eq)

section \<open>Properties\<close>

text \<open>C30: A MAC address survives printing and parsing, in every form the parser accepts: the text
  the agent stores is read back as the same address, and whatever the parser accepts is a non-zero
  unicast address of six bytes.\<close>

theorem mac_roundtrip:
  "(valid_mac mac \<longrightarrow> mac_from_str (mac_show mac) = Inr mac) \<and>
   (\<forall>s mac. mac_from_str s = Inr mac \<longrightarrow> valid_mac mac \<and> mac_from_str (mac_show mac) = Inr mac)"
  using mac_from_show mac_from_str_valid by blast

theorem mac_roundtrip_witness:
  "mac_from_str (mac_show [2, 0, 171, 0, 0, 1]) = Inr [2, 0, 171, 0, 0, 1] \<and>
   mac_show [2, 0, 171, 0, 0, 1] = ''02:00:ab:00:00:01''"
proof
  have "valid_mac [2, 0, 171, 0, 0, 1]" by (simp add: valid_mac_def eval_nat_numeral)
  then show "mac_from_str (mac_show [2, 0, 171, 0, 0, 1]) = Inr [2, 0, 171, 0, 0, 1]"
    using mac_roundtrip[of "[2, 0, 171, 0, 0, 1]"] by blast
  show "mac_show [2, 0, 171, 0, 0, 1] = ''02:00:ab:00:00:01''"
    by (simp add: mac_show_def show_hex_byte_def hex_digit_def) code_simp
qed

end
