(* ===== verification/Geo_Data.thy ===== *)
theory Geo_Data
  imports Geo_Ranges Geo_Wire Model
begin

text \<open>
  The geodata catalogue of \<^verbatim>\<open>gofro-agent/src/geodata.rs\<close>: the index of a \<^verbatim>\<open>geosite.dat\<close> or
  \<^verbatim>\<open>geoip.dat\<close> file, decoding of one entry, the cache of decoded entries, selection of the entries a
  routing configuration uses within the memory budget, and domain and address matching.

  The crate \<^verbatim>\<open>regex\<close> is a parameter: \<open>regex_build\<close> compiles a pattern under two size limits,
  \<open>regex_is_match\<close> searches. A weak reference in the cache may be dead; which ones still upgrade is
  the argument \<open>alive\<close>. The two mutexes are never poisoned (no code panics while holding them).
\<close>

unbundle bit_operations_syntax

section \<open>Sites\<close>

record 'r regex_lib =
  regex_build :: "string \<Rightarrow> nat \<Rightarrow> nat \<Rightarrow> 'r option"
  regex_is_match :: "'r \<Rightarrow> string \<Rightarrow> bool"

record 'r site =
  full :: "string set"
  roots :: "string set"
  site_keywords :: "string list"
  regexes :: "'r list"

definition empty_site :: "'r site" where
  "empty_site = \<lparr>full = {}, roots = {}, site_keywords = [], regexes = []\<rparr>"

text \<open>What follows each dot of a domain, from \<^verbatim>\<open>match_indices('.')\<close>.\<close>

fun after_dots :: "string \<Rightarrow> string list" where
  "after_dots [] = []"
| "after_dots (c # cs) = (if c = CHR ''.'' then cs # after_dots cs else after_dots cs)"

fun starts_with :: "string \<Rightarrow> string \<Rightarrow> bool" where
  "starts_with [] s = True"
| "starts_with (p # ps) [] = False"
| "starts_with (p # ps) (c # cs) = (p = c \<and> starts_with ps cs)"

fun str_contains :: "string \<Rightarrow> string \<Rightarrow> bool" where
  "str_contains needle [] = (needle = [])"
| "str_contains needle (c # cs) = (starts_with needle (c # cs) \<or> str_contains needle cs)"

definition site_matches :: "'r regex_lib \<Rightarrow> 'r site \<Rightarrow> string \<Rightarrow> bool" where
  "site_matches X site domain \<longleftrightarrow>
     domain \<in> full site \<or> domain \<in> roots site \<or>
     list_ex (\<lambda>rest. rest \<in> roots site) (after_dots domain) \<or>
     list_ex (\<lambda>keyword. str_contains keyword domain) (site_keywords site) \<or>
     list_ex (\<lambda>x. regex_is_match X x domain) (regexes site)"

section \<open>Decoding\<close>

definition tag_field :: "bool \<Rightarrow> u32 \<Rightarrow> wire_value \<Rightarrow> reader \<Rightarrow> string \<times> bool \<Rightarrow> geo_error + string \<times> bool" where
  "tag_field geoip n v r = (\<lambda>(tag, inverse).
     case v of
       Bytes rng \<Rightarrow>
         if n = 1 then and_then (string_of rng 64 r) (\<lambda>(s, _). Inr (to_ascii_lowercase s, inverse))
         else if n = 3 \<and> geoip then Inl Bad_Inverse
         else Inr (tag, inverse)
     | Integer i \<Rightarrow>
         if n = 3 \<and> geoip then Inr (tag, i \<noteq> 0)
         else if n = 1 then Inl Bad_Tag
         else Inr (tag, inverse)
     | Fixed \<Rightarrow>
         if n = 3 \<and> geoip then Inl Bad_Inverse
         else if n = 1 then Inl Bad_Tag
         else Inr (tag, inverse))"

definition entry_field :: "bool \<Rightarrow> u32 \<Rightarrow> wire_value \<Rightarrow> reader \<Rightarrow> (string \<rightharpoonup> wire_range) \<Rightarrow>
    geo_error + (string \<rightharpoonup> wire_range)" where
  "entry_field geoip n v r entries =
     (if n \<noteq> 1 then Inr entries
      else case v of
        Bytes rng \<Rightarrow>
          and_then (within rng (fold_fields (tag_field geoip) ([], False)) r) (\<lambda>((tag, inverse), _).
            Inr (if inverse then entries else entries(tag \<mapsto> rng)))
      | _ \<Rightarrow> Inl Bad_Entry)"

definition open_entries :: "bytes \<Rightarrow> bool \<Rightarrow> geo_error + (string \<rightharpoonup> wire_range)" where
  "open_entries data geoip =
     and_then (fold_fields (entry_field geoip) Map.empty (reader_new data)) (\<lambda>(entries, _). Inr entries)"

definition domain_field :: "u32 \<Rightarrow> wire_value \<Rightarrow> reader \<Rightarrow> u64 \<times> string \<Rightarrow> geo_error + u64 \<times> string" where
  "domain_field n v r = (\<lambda>(kind, domain).
     if n = 1 then (case v of Integer i \<Rightarrow> Inr (i, domain) | _ \<Rightarrow> Inl Bad_Domain_Field)
     else if n = 2 then
       (case v of
          Bytes rng \<Rightarrow> and_then (string_of rng (128 * 1024) r) (\<lambda>(s, _). Inr (kind, s))
        | _ \<Rightarrow> Inl Bad_Domain_Field)
     else Inr (kind, domain))"

definition add_domain :: "'r regex_lib \<Rightarrow> resource_limits \<Rightarrow> 'r site \<Rightarrow> u64 \<Rightarrow> string \<Rightarrow> geo_error + 'r site" where
  "add_domain X limits site kind domain =
     (if kind = 0 then Inr (site\<lparr>site_keywords := site_keywords site @ [to_ascii_lowercase domain]\<rparr>)
      else if kind = 1 then
        and_then (ensure (length (regexes site) < regex_count limits) Regex_Count) (\<lambda>_.
        and_then (ok_or (regex_build X domain (regex_size_bytes limits) (regex_cache_bytes limits))
            (Bad_Regex domain)) (\<lambda>x.
          Inr (site\<lparr>regexes := regexes site @ [x]\<rparr>)))
      else if kind = 2 then Inr (site\<lparr>roots := insert (to_ascii_lowercase domain) (roots site)\<rparr>)
      else if kind = 3 then Inr (site\<lparr>full := insert (to_ascii_lowercase domain) (full site)\<rparr>)
      else Inl (Domain_Type kind))"

definition site_field :: "'r regex_lib \<Rightarrow> resource_limits \<Rightarrow> u32 \<Rightarrow> wire_value \<Rightarrow> reader \<Rightarrow> 'r site \<Rightarrow>
    geo_error + 'r site" where
  "site_field X limits n v r site =
     (if n \<noteq> 2 then Inr site
      else case v of
        Bytes rng \<Rightarrow>
          and_then (within rng (fold_fields domain_field (0, [])) r) (\<lambda>((kind, domain), _).
            add_domain X limits site kind domain)
      | _ \<Rightarrow> Inl Bad_Domain)"

definition decode_site :: "'r regex_lib \<Rightarrow> resource_limits \<Rightarrow> reader \<Rightarrow> geo_error + 'r site \<times> reader" where
  "decode_site X limits r = fold_fields (site_field X limits) empty_site r"

text \<open>\<^verbatim>\<open>Ipv4Addr::from([u8; 4])\<close> is in network byte order.\<close>

definition addr_of_bytes :: "bytes \<Rightarrow> ipv4" where
  "addr_of_bytes bs = from_le_bytes (rev bs)"

definition cidr_field :: "u32 \<Rightarrow> wire_value \<Rightarrow> reader \<Rightarrow> ipv4 option \<times> u64 \<Rightarrow> geo_error + ipv4 option \<times> u64" where
  "cidr_field n v r = (\<lambda>(addr, prefix).
     if n = 1 then
       (case v of
          Bytes rng \<Rightarrow>
            if range_len rng = 4
            then and_then (bytes_of 4 rng r) (\<lambda>(bs, _). Inr (Some (addr_of_bytes bs), prefix))
            else Inr (None, prefix)
        | _ \<Rightarrow> Inl Bad_Cidr_Field)
     else if n = 2 then (case v of Integer i \<Rightarrow> Inr (addr, i) | _ \<Rightarrow> Inl Bad_Cidr_Field)
     else Inr (addr, prefix))"

definition cidr_network :: "ipnet \<Rightarrow> ipv4 option \<times> u64 \<Rightarrow> ipv4net option" where
  "cidr_network N = (\<lambda>(addr, prefix).
     if prefix \<le> 32
     then map_option (\<lambda>a. trunc N \<lparr>net_addr = a, net_prefix = unat prefix\<rparr>) addr
     else None)"

definition ip_field :: "ipnet \<Rightarrow> u32 \<Rightarrow> wire_value \<Rightarrow> reader \<Rightarrow> ipv4net list \<Rightarrow> geo_error + ipv4net list" where
  "ip_field N n v r networks =
     (if n \<noteq> 2 then Inr networks
      else case v of
        Bytes rng \<Rightarrow>
          and_then (within rng (fold_fields cidr_field (None, 0)) r) (\<lambda>(c, _).
            Inr (case cidr_network N c of None \<Rightarrow> networks | Some nw \<Rightarrow> networks @ [nw]))
      | _ \<Rightarrow> Inl Bad_Cidr)"

definition decode_ip :: "ipnet \<Rightarrow> reader \<Rightarrow> geo_error + ipv4net list \<times> reader" where
  "decode_ip N r = and_then (fold_fields (ip_field N) [] r) (\<lambda>(networks, r).
     Inr (aggregate_ipv4 N networks, r))"

section \<open>The catalogue\<close>

record 'a indexed_file =
  contents :: bytes
  entries :: "string \<rightharpoonup> wire_range"
  cache :: "string \<rightharpoonup> 'a"

definition indexed_open :: "bytes \<Rightarrow> bool \<Rightarrow> geo_error + 'a indexed_file" where
  "indexed_open data geoip =
     and_then (open_entries data geoip) (\<lambda>es.
       Inr \<lparr>contents = data, entries = es, cache = Map.empty\<rparr>)"

definition indexed_get :: "(string \<Rightarrow> bool) \<Rightarrow> string \<Rightarrow> (reader \<Rightarrow> geo_error + 'a \<times> reader) \<Rightarrow>
    'a indexed_file \<Rightarrow> (geo_error + 'a option) \<times> 'a indexed_file" where
  "indexed_get alive tag decode f =
     (case (if alive tag then cache f tag else None) of
        Some v \<Rightarrow> (Inr (Some v), f)
      | None \<Rightarrow>
          (case entries f tag of
             None \<Rightarrow> (Inr None, f)
           | Some rng \<Rightarrow>
               (case within rng decode (reader_new (contents f)) of
                  Inl e \<Rightarrow> (Inl e, f)
                | Inr (v, _) \<Rightarrow> (Inr (Some v), f\<lparr>cache := (cache f)(tag \<mapsto> v)\<rparr>))))"

record 'r catalog =
  cat_sites :: "'r site indexed_file"
  cat_ips :: "ipv4net list indexed_file"
  limits :: resource_limits

record 'r geodata =
  source :: "'r catalog option"
  sites :: "string \<rightharpoonup> 'r site"
  ips :: "string \<rightharpoonup> ipv4net list"

definition empty_geodata :: "'r geodata" where
  "empty_geodata = \<lparr>source = None, sites = Map.empty, ips = Map.empty\<rparr>"

definition load_with_limits :: "bytes \<Rightarrow> bytes \<Rightarrow> resource_limits \<Rightarrow> geo_error + 'r geodata" where
  "load_with_limits geosite geoip lim =
     and_then (indexed_open geosite False) (\<lambda>s.
     and_then (indexed_open geoip True) (\<lambda>i.
       Inr (empty_geodata\<lparr>source := Some \<lparr>cat_sites = s, cat_ips = i, limits = lim\<rparr>\<rparr>)))"

text \<open>\<^verbatim>\<open>saturating_add\<close> of \<^verbatim>\<open>usize\<close> and \<^verbatim>\<open>u64\<close> counters.\<close>

definition sat_add :: "nat \<Rightarrow> nat \<Rightarrow> nat" where
  "sat_add a b = min (a + b) USIZE_MAX"

definition ip_networks :: "'r geodata \<Rightarrow> string \<Rightarrow> ipv4net list" where
  "ip_networks g tag = (case ips g tag of None \<Rightarrow> [] | Some ns \<Rightarrow> ns)"

record 'r selection =
  sel_catalog :: "'r catalog"
  selected :: "'r geodata"
  site_bytes :: nat
  sel_regexes :: nat
  ip_intervals :: nat

text \<open>One step of each loop of \<^verbatim>\<open>select\<close>. The catalogue keeps what was cached, also on an error.\<close>

definition select_site :: "'r regex_lib \<Rightarrow> (string \<Rightarrow> bool) \<Rightarrow> domain_rule \<Rightarrow> 'r selection \<Rightarrow>
    (geo_error + unit) \<times> 'r selection" where
  "select_site X alive rule st =
     (case dr_matcher rule of
        GeoSite tag \<Rightarrow>
          if \<not> dr_enabled rule \<or> sites (selected st) tag \<noteq> None then (Inr (), st)
          else (let cat = sel_catalog st in
            case entries (cat_sites cat) tag of
              None \<Rightarrow> (Inl (Missing_Tag tag), st)
            | Some rng \<Rightarrow>
                let st = st\<lparr>site_bytes := sat_add (site_bytes st) (unat (range_len rng))\<rparr> in
                if geosite_bytes (limits cat) < site_bytes st then (Inl Site_Budget, st)
                else (let (res, f) = indexed_get alive tag (decode_site X (limits cat)) (cat_sites cat);
                          st = st\<lparr>sel_catalog := cat\<lparr>cat_sites := f\<rparr>\<rparr> in
                  case res of
                    Inl e \<Rightarrow> (Inl e, st)
                  | Inr None \<Rightarrow> (Inl (Missing_Tag tag), st)
                  | Inr (Some site) \<Rightarrow>
                      let st = st\<lparr>sel_regexes := sat_add (sel_regexes st) (length (regexes site))\<rparr> in
                      if regex_count (limits cat) < sel_regexes st then (Inl Regex_Count, st)
                      else (Inr (), st\<lparr>selected := (selected st)\<lparr>sites := (sites (selected st))(tag \<mapsto> site)\<rparr>\<rparr>)))
      | _ \<Rightarrow> (Inr (), st))"

definition count_intervals :: "ipnet \<Rightarrow> string \<Rightarrow> 'r selection \<Rightarrow> (geo_error + unit) \<times> 'r selection" where
  "count_intervals N tag st =
     (let st = st\<lparr>ip_intervals := sat_add (ip_intervals st) (interval_count N (ip_networks (selected st) tag))\<rparr>
      in (if geoip_intervals (limits (sel_catalog st)) < ip_intervals st then Inl Interval_Budget else Inr (), st))"

definition select_ip :: "ipnet \<Rightarrow> (string \<Rightarrow> bool) \<Rightarrow> ip_rule \<Rightarrow> 'r selection \<Rightarrow>
    (geo_error + unit) \<times> 'r selection" where
  "select_ip N alive rule st =
     (case ir_matcher rule of
        GeoIp tag \<Rightarrow>
          if \<not> ir_enabled rule then (Inr (), st)
          else if ips (selected st) tag \<noteq> None then count_intervals N tag st
          else (let cat = sel_catalog st;
                    (res, f) = indexed_get alive tag (decode_ip N) (cat_ips cat);
                    st = st\<lparr>sel_catalog := cat\<lparr>cat_ips := f\<rparr>\<rparr> in
            case res of
              Inl e \<Rightarrow> (Inl e, st)
            | Inr None \<Rightarrow> (Inl (Missing_Tag tag), st)
            | Inr (Some ns) \<Rightarrow>
                count_intervals N tag
                  (st\<lparr>selected := (selected st)\<lparr>ips := (ips (selected st))(tag \<mapsto> ns)\<rparr>\<rparr>))
      | _ \<Rightarrow> (Inr (), st))"

text \<open>A loop that stops at the first error.\<close>

primrec try_each :: "('x \<Rightarrow> 's \<Rightarrow> ('e + unit) \<times> 's) \<Rightarrow> 'x list \<Rightarrow> 's \<Rightarrow> ('e + unit) \<times> 's" where
  "try_each f [] s = (Inr (), s)"
| "try_each f (x # xs) s =
     (let (res, s') = f x s in case res of Inl e \<Rightarrow> (Inl e, s') | Inr _ \<Rightarrow> try_each f xs s')"

definition initial_selection :: "'r catalog \<Rightarrow> 'r selection" where
  "initial_selection cat = \<lparr>sel_catalog = cat, selected = empty_geodata, site_bytes = 0,
     sel_regexes = 0, ip_intervals = 0\<rparr>"

definition select_loops :: "'r regex_lib \<Rightarrow> ipnet \<Rightarrow> (string \<Rightarrow> bool) \<Rightarrow> (string \<Rightarrow> bool) \<Rightarrow> routing_config \<Rightarrow>
    'r selection \<Rightarrow> (geo_error + unit) \<times> 'r selection" where
  "select_loops X N live_sites live_ips config st =
     (if mode config = Rules
      then let (res, st) = try_each (select_site X live_sites) (domain_rules config) st in
        (case res of
           Inl e \<Rightarrow> (Inl e, st)
         | Inr _ \<Rightarrow> try_each (select_ip N live_ips) (ip_rules config) st)
      else (Inr (), st))"

text \<open>
  \<^verbatim>\<open>select\<close> gives the selected data and the catalogue with what it cached. The selection and the
  original share one catalogue (an \<^verbatim>\<open>Arc\<close>): the caller continues with the returned one.
\<close>

definition select :: "'r regex_lib \<Rightarrow> ipnet \<Rightarrow> (string \<Rightarrow> bool) \<Rightarrow> (string \<Rightarrow> bool) \<Rightarrow> 'r geodata \<Rightarrow>
    routing_config \<Rightarrow> (geo_error + 'r geodata) \<times> 'r catalog option" where
  "select X N live_sites live_ips g config =
     (case source g of
        None \<Rightarrow> (Inr g, None)
      | Some cat \<Rightarrow>
          let (res, st) = select_loops X N live_sites live_ips config (initial_selection cat) in
          (case res of
             Inl e \<Rightarrow> Inl e
           | Inr _ \<Rightarrow> Inr ((selected st)\<lparr>source := Some (sel_catalog st)\<rparr>), Some (sel_catalog st)))"

definition has_site :: "'r geodata \<Rightarrow> string \<Rightarrow> bool" where
  "has_site g tag \<longleftrightarrow> sites g tag \<noteq> None \<or>
     (case source g of None \<Rightarrow> False | Some cat \<Rightarrow> entries (cat_sites cat) tag \<noteq> None)"

definition has_ip :: "'r geodata \<Rightarrow> string \<Rightarrow> bool" where
  "has_ip g tag \<longleftrightarrow> ips g tag \<noteq> None \<or>
     (case source g of None \<Rightarrow> False | Some cat \<Rightarrow> entries (cat_ips cat) tag \<noteq> None)"

definition matches_site :: "'r regex_lib \<Rightarrow> 'r geodata \<Rightarrow> string \<Rightarrow> string \<Rightarrow> bool" where
  "matches_site X g tag domain =
     (case sites g tag of None \<Rightarrow> False | Some site \<Rightarrow> site_matches X site domain)"

definition matches_ip :: "ipnet \<Rightarrow> 'r geodata \<Rightarrow> string \<Rightarrow> ipv4 \<Rightarrow> bool" where
  "matches_ip N g tag ip = ranges_match N (ip_networks g tag) ip"

section \<open>Matching\<close>

lemma set_after_dots: "rest \<in> set (after_dots d) \<longleftrightarrow> (\<exists>p. d = p @ CHR ''.'' # rest)"
  by (induction d) (auto simp: Cons_eq_append_conv)

lemma starts_with_iff: "starts_with p s \<longleftrightarrow> (\<exists>q. s = p @ q)"
  by (induction p s rule: starts_with.induct) auto

lemma str_contains_iff: "str_contains needle s \<longleftrightarrow> (\<exists>p q. s = p @ needle @ q)"
proof (induction s)
  case (Cons c s)
  then show ?case
    by (simp add: starts_with_iff Cons_eq_append_conv[of c s]) blast
qed simp

section \<open>Bounds of the index\<close>

lemma entry_field_bounds:
  assumes "field r = Inr (Some (n, v), r')" and "range_end r' = hi"
    and "entry_field geoip n v r' es = Inr es'"
    and "\<forall>tag rng. es tag = Some rng \<longrightarrow> range_inside rng 0 hi"
  shows "\<forall>tag rng. es' tag = Some rng \<longrightarrow> range_inside rng 0 hi"
proof (cases "\<exists>rng tag. v = Bytes rng \<and> es' = es(tag \<mapsto> rng)")
  case True
  then obtain rng tag where v: "v = Bytes rng" and es': "es' = es(tag \<mapsto> rng)" by blast
  have "range_inside rng 0 hi"
    using field_Some(2)[OF assms(1) v] field_Some(1)[OF assms(1)] assms(2)
    by (auto simp: range_inside_def advanced_def word_le_nat_alt)
  then show ?thesis using assms(4) es' by simp
next
  case False
  then have "es' = es"
    using assms(3) by (auto simp: entry_field_def case_prod_beta split: if_splits wire_value.splits)
  then show ?thesis using assms(4) by simp
qed

lemma open_entries_bounds:
  assumes "open_entries data geoip = Inr es" and "es tag = Some rng"
  shows "range_inside rng 0 (of_nat (length data))"
proof -
  obtain r' where "fold_fields (entry_field geoip) Map.empty (reader_new data) = Inr (es, r')"
    using assms(1) by (auto simp: open_entries_def)
  then have "(\<forall>tag rng. es tag = Some rng \<longrightarrow> range_inside rng 0 (of_nat (length data))) \<and>
      input r' = input (reader_new data)"
    by (rule fold_fields_invariant[where P = "\<lambda>es. \<forall>tag rng. es tag = Some rng \<longrightarrow>
          range_inside rng 0 (of_nat (length data))"])
      (simp, rule entry_field_bounds, auto simp: reader_new_def)
  then show ?thesis using assms(2) by blast
qed

section \<open>Networks\<close>

lemma ip_field_aligned:
  assumes "ipnet_laws N" and "ip_field N n v r ns = Inr ns'" and "\<forall>n \<in> set ns. aligned_net n"
  shows "\<forall>n \<in> set ns'. aligned_net n"
proof -
  have "aligned_net nw" if "cidr_network N c = Some nw" for c nw
    using that ipnet_laws.trunc[OF assms(1)]
    by (auto simp: cidr_network_def case_prod_beta valid_net_def word_le_nat_alt
        intro!: aligned_trunc split: if_splits)
  then show ?thesis
    using assms(2,3) by (auto simp: ip_field_def split: if_splits wire_value.splits option.splits)
qed

lemma decode_ip_ranges:
  assumes "ipnet_laws N" and "decode_ip N r = Inr (ns, r')"
  obtains cidrs where "fold_fields (ip_field N) [] r = Inr (cidrs, r')"
    and "\<forall>n \<in> set cidrs. aligned_net n" and "ns = aggregate_ipv4 N cidrs"
proof -
  obtain cidrs where c: "fold_fields (ip_field N) [] r = Inr (cidrs, r')" "ns = aggregate_ipv4 N cidrs"
    using assms(2) by (auto simp: decode_ip_def)
  have "(\<forall>n \<in> set cidrs. aligned_net n) \<and> input r' = input r"
    using c(1) by (rule fold_fields_invariant) (simp, rule ip_field_aligned[OF assms(1)])
  then show thesis using that c by blast
qed

section \<open>The cache\<close>

definition entry_value :: "(reader \<Rightarrow> geo_error + 'a \<times> reader) \<Rightarrow> 'a indexed_file \<Rightarrow> string \<Rightarrow>
    geo_error + 'a option" where
  "entry_value decode f tag =
     (case entries f tag of
        None \<Rightarrow> Inr None
      | Some rng \<Rightarrow> and_then (within rng decode (reader_new (contents f))) (\<lambda>(v, _). Inr (Some v)))"

definition cache_ok :: "(reader \<Rightarrow> geo_error + 'a \<times> reader) \<Rightarrow> 'a indexed_file \<Rightarrow> bool" where
  "cache_ok decode f \<longleftrightarrow> (\<forall>tag v. cache f tag = Some v \<longrightarrow> entry_value decode f tag = Inr (Some v))"

definition same_file :: "'a indexed_file \<Rightarrow> 'a indexed_file \<Rightarrow> bool" where
  "same_file f g \<longleftrightarrow> contents g = contents f \<and> entries g = entries f"

lemma same_file_value: "same_file f g \<Longrightarrow> entry_value decode g = entry_value decode f"
  by (rule ext) (simp add: same_file_def entry_value_def split: option.split)

lemma indexed_get_cached:
  assumes "cache_ok decode f" and "indexed_get alive tag decode f = (res, f')"
  shows "res = entry_value decode f tag \<and> same_file f f' \<and> cache_ok decode f'"
proof (cases "if alive tag then cache f tag else None")
  case (Some v)
  then have "entry_value decode f tag = Inr (Some v)" using assms(1) by (auto simp: cache_ok_def split: if_splits)
  then show ?thesis using Some assms by (auto simp: indexed_get_def same_file_def)
next
  case miss: None
  show ?thesis
  proof (cases "entries f tag")
    case None
    then show ?thesis using miss assms by (auto simp: indexed_get_def entry_value_def same_file_def)
  next
    case (Some rng)
    show ?thesis
    proof (cases "within rng decode (reader_new (contents f))")
      case (Inl e)
      then show ?thesis using miss Some assms by (auto simp: indexed_get_def entry_value_def same_file_def)
    next
      case (Inr p)
      then have val: "entry_value decode f tag = Inr (Some (fst p))"
        using Some by (simp add: entry_value_def case_prod_beta)
      have f': "f' = f\<lparr>cache := (cache f)(tag \<mapsto> fst p)\<rparr>" "res = Inr (Some (fst p))"
        using miss Some Inr assms(2) by (auto simp: indexed_get_def case_prod_beta)
      have same: "same_file f f'" using f' by (simp add: same_file_def)
      then show ?thesis
        using val f' assms(1) same_file_value[OF same] by (simp add: cache_ok_def)
    qed
  qed
qed

section \<open>Selection\<close>

lemma try_each_inv:
  assumes "try_each f xs s = (Inr (), s')" and "P [] s"
    and "\<And>seen x s s'. x \<in> set xs \<Longrightarrow> f x s = (Inr (), s') \<Longrightarrow> P seen s \<Longrightarrow> P (seen @ [x]) s'"
  shows "P xs s'"
proof -
  have "P (seen @ xs) s'"
    if "try_each f xs s = (Inr (), s')" "P seen s"
      "\<And>seen x s s'. x \<in> set xs \<Longrightarrow> f x s = (Inr (), s') \<Longrightarrow> P seen s \<Longrightarrow> P (seen @ [x]) s'" for seen s
    using that
  proof (induction xs arbitrary: seen s)
    case (Cons x xs)
    obtain res s1 where fx: "f x s = (res, s1)" by (cases "f x s")
    then have res: "res = Inr ()" "try_each f xs s1 = (Inr (), s')"
      using Cons.prems(1) by (auto split: sum.splits)
    then have "P (seen @ [x]) s1" using Cons.prems(2,3) fx by simp
    then have "P ((seen @ [x]) @ xs) s'" by (rule Cons.IH[OF res(2)]) (use Cons.prems(3) in auto)
    then show ?case by simp
  qed simp
  from this[OF assms(1), of "[]"] show ?thesis using assms(2,3) by simp
qed

definition wanted_sites :: "domain_rule list \<Rightarrow> string set" where
  "wanted_sites rules = {tag. \<exists>rule \<in> set rules. dr_enabled rule \<and> dr_matcher rule = GeoSite tag}"

definition wanted_ips :: "ip_rule list \<Rightarrow> string set" where
  "wanted_ips rules = {tag. \<exists>rule \<in> set rules. ir_enabled rule \<and> ir_matcher rule = GeoIp tag}"

definition catalog_ok :: "'r regex_lib \<Rightarrow> ipnet \<Rightarrow> 'r catalog \<Rightarrow> bool" where
  "catalog_ok X N cat \<longleftrightarrow> cache_ok (decode_site X (limits cat)) (cat_sites cat) \<and>
     cache_ok (decode_ip N) (cat_ips cat)"

definition same_catalog :: "'r catalog \<Rightarrow> 'r catalog \<Rightarrow> bool" where
  "same_catalog cat cat' \<longleftrightarrow> limits cat' = limits cat \<and> same_file (cat_sites cat) (cat_sites cat') \<and>
     same_file (cat_ips cat) (cat_ips cat')"

definition entry_bytes :: "'r catalog \<Rightarrow> string \<Rightarrow> nat" where
  "entry_bytes cat tag = (case entries (cat_sites cat) tag of None \<Rightarrow> 0 | Some rng \<Rightarrow> unat (range_len rng))"

definition site_regexes :: "'r geodata \<Rightarrow> string \<Rightarrow> nat" where
  "site_regexes g tag = (case sites g tag of None \<Rightarrow> 0 | Some site \<Rightarrow> length (regexes site))"

text \<open>What holds after the first loop, and what the second loop adds.\<close>

definition sites_inv :: "'r regex_lib \<Rightarrow> ipnet \<Rightarrow> 'r catalog \<Rightarrow> domain_rule list \<Rightarrow> 'r selection \<Rightarrow> bool" where
  "sites_inv X N cat seen st \<longleftrightarrow>
     catalog_ok X N (sel_catalog st) \<and> same_catalog cat (sel_catalog st) \<and>
     dom (sites (selected st)) = wanted_sites seen \<and>
     (\<forall>tag site. sites (selected st) tag = Some site \<longrightarrow>
        entry_value (decode_site X (limits cat)) (cat_sites cat) tag = Inr (Some site)) \<and>
     site_bytes st = min (\<Sum>tag \<in> wanted_sites seen. entry_bytes cat tag) USIZE_MAX \<and>
     sel_regexes st = min (\<Sum>tag \<in> wanted_sites seen. site_regexes (selected st) tag) USIZE_MAX \<and>
     site_bytes st \<le> geosite_bytes (limits cat) \<and> sel_regexes st \<le> regex_count (limits cat)"

definition ips_inv :: "'r regex_lib \<Rightarrow> ipnet \<Rightarrow> 'r catalog \<Rightarrow> ip_rule list \<Rightarrow> 'r selection \<Rightarrow> bool" where
  "ips_inv X N cat seen st \<longleftrightarrow>
     dom (ips (selected st)) = wanted_ips seen \<and>
     (\<forall>tag ns. ips (selected st) tag = Some ns \<longrightarrow>
        entry_value (decode_ip N) (cat_ips cat) tag = Inr (Some ns)) \<and>
     min (\<Sum>tag \<in> wanted_ips seen. interval_count N (ip_networks (selected st) tag)) USIZE_MAX \<le> ip_intervals st \<and>
     ip_intervals st \<le> geoip_intervals (limits cat)"

lemma finite_wanted: "finite (wanted_sites ds)" "finite (wanted_ips is)"
proof -
  have "wanted_sites ds \<subseteq> (\<lambda>r. case dr_matcher r of GeoSite t \<Rightarrow> t | _ \<Rightarrow> []) ` set ds"
    by (force simp: wanted_sites_def)
  then show "finite (wanted_sites ds)" using finite_surj by blast
  have "wanted_ips is \<subseteq> (\<lambda>r. case ir_matcher r of GeoIp t \<Rightarrow> t | _ \<Rightarrow> []) ` set is"
    by (force simp: wanted_ips_def)
  then show "finite (wanted_ips is)" using finite_surj by blast
qed

lemma wanted_sites_snoc: "wanted_sites (seen @ [rule]) = wanted_sites seen \<union>
    (case dr_matcher rule of GeoSite tag \<Rightarrow> if dr_enabled rule then {tag} else {} | _ \<Rightarrow> {})"
  by (auto simp: wanted_sites_def split: domain_match.splits if_splits)

lemma wanted_ips_snoc: "wanted_ips (seen @ [rule]) = wanted_ips seen \<union>
    (case ir_matcher rule of GeoIp tag \<Rightarrow> if ir_enabled rule then {tag} else {} | _ \<Rightarrow> {})"
  by (auto simp: wanted_ips_def split: ip_match.splits if_splits)

lemma same_catalog_refl [simp]: "same_catalog cat cat"
  by (simp add: same_catalog_def same_file_def)

lemma select_site_new:
  assumes step: "select_site X alive rule st = (Inr (), st')"
    and rule: "dr_matcher rule = GeoSite tag" "dr_enabled rule" and new: "sites (selected st) tag = None"
    and ok: "catalog_ok X N (sel_catalog st)"
  obtains site f where
    "entry_value (decode_site X (limits (sel_catalog st))) (cat_sites (sel_catalog st)) tag = Inr (Some site)"
    and "same_file (cat_sites (sel_catalog st)) f" and "cache_ok (decode_site X (limits (sel_catalog st))) f"
    and "st' = st\<lparr>sel_catalog := (sel_catalog st)\<lparr>cat_sites := f\<rparr>,
           site_bytes := sat_add (site_bytes st) (entry_bytes (sel_catalog st) tag),
           sel_regexes := sat_add (sel_regexes st) (length (regexes site)),
           selected := (selected st)\<lparr>sites := (sites (selected st))(tag \<mapsto> site)\<rparr>\<rparr>"
    and "site_bytes st' \<le> geosite_bytes (limits (sel_catalog st))"
    and "sel_regexes st' \<le> regex_count (limits (sel_catalog st))"
proof -
  let ?cat = "sel_catalog st"
  obtain res f where get: "indexed_get alive tag (decode_site X (limits ?cat)) (cat_sites ?cat) = (res, f)"
    by (cases "indexed_get alive tag (decode_site X (limits ?cat)) (cat_sites ?cat)")
  note cached = indexed_get_cached[OF _ get]
  obtain rng where rng: "entries (cat_sites ?cat) tag = Some rng"
    using step rule new by (cases "entries (cat_sites ?cat) tag") (auto simp: select_site_def Let_def)
  obtain site where site: "res = Inr (Some site)"
    using step rule new rng get
    by (auto simp: select_site_def Let_def split: if_splits sum.splits option.splits)
  show thesis
  proof (rule that)
    show "entry_value (decode_site X (limits ?cat)) (cat_sites ?cat) tag = Inr (Some site)"
      "same_file (cat_sites ?cat) f" "cache_ok (decode_site X (limits ?cat)) f"
      using cached ok site by (simp_all add: catalog_ok_def)
  qed (use step rule new rng get site in
      \<open>auto simp: select_site_def Let_def entry_bytes_def split: if_splits\<close>)
qed

lemma sat_add_min: "sat_add (min a USIZE_MAX) b = min (a + b) USIZE_MAX"
  by (simp add: sat_add_def)

lemma select_site_inv:
  assumes step: "select_site X alive rule st = (Inr (), st')" and inv: "sites_inv X N cat seen st"
  shows "sites_inv X N cat (seen @ [rule]) st'"
proof (cases "\<exists>tag. dr_matcher rule = GeoSite tag \<and> dr_enabled rule \<and> sites (selected st) tag = None")
  case False
  then have "st' = st"
    using step by (auto simp: select_site_def split: domain_match.splits if_splits)
  moreover have "wanted_sites (seen @ [rule]) = wanted_sites seen"
  proof -
    have "tag \<in> wanted_sites seen" if "dr_matcher rule = GeoSite tag" "dr_enabled rule" for tag
      using False that inv by (auto simp: sites_inv_def dom_def)
    then show ?thesis by (auto simp: wanted_sites_snoc split: domain_match.splits if_splits)
  qed
  ultimately show ?thesis using inv by (simp add: sites_inv_def)
next
  case True
  then obtain tag where tag: "dr_matcher rule = GeoSite tag" "dr_enabled rule"
    and new: "sites (selected st) tag = None" by blast
  have ok: "catalog_ok X N (sel_catalog st)" and same: "same_catalog cat (sel_catalog st)"
    using inv by (simp_all add: sites_inv_def)
  obtain site f where v: "entry_value (decode_site X (limits (sel_catalog st))) (cat_sites (sel_catalog st)) tag = Inr (Some site)"
    and f: "same_file (cat_sites (sel_catalog st)) f" "cache_ok (decode_site X (limits (sel_catalog st))) f"
    and st': "st' = st\<lparr>sel_catalog := (sel_catalog st)\<lparr>cat_sites := f\<rparr>,
           site_bytes := sat_add (site_bytes st) (entry_bytes (sel_catalog st) tag),
           sel_regexes := sat_add (sel_regexes st) (length (regexes site)),
           selected := (selected st)\<lparr>sites := (sites (selected st))(tag \<mapsto> site)\<rparr>\<rparr>"
    and budget: "site_bytes st' \<le> geosite_bytes (limits (sel_catalog st))"
      "sel_regexes st' \<le> regex_count (limits (sel_catalog st))"
    by (rule select_site_new[OF step tag new ok])
  have lim: "limits (sel_catalog st) = limits cat"
    and val: "entry_value decode (cat_sites (sel_catalog st)) = entry_value decode (cat_sites cat)"
    and eb: "entry_bytes (sel_catalog st) = entry_bytes cat" for decode :: "reader \<Rightarrow> geo_error + 'a site \<times> reader"
    using same same_file_value[of "cat_sites cat" "cat_sites (sel_catalog st)"]
    by (simp_all add: same_catalog_def entry_bytes_def same_file_def fun_eq_iff)
  have fresh: "tag \<notin> wanted_sites seen" using inv new by (auto simp: sites_inv_def)
  have w: "wanted_sites (seen @ [rule]) = insert tag (wanted_sites seen)"
    using tag by (simp add: wanted_sites_snoc)
  have regs: "site_regexes (selected st') t = site_regexes (selected st) t" if "t \<in> wanted_sites seen" for t
    using that fresh by (auto simp: st' site_regexes_def)
  have "catalog_ok X N (sel_catalog st')" using ok f(2) by (simp add: st' catalog_ok_def)
  moreover have "same_catalog cat (sel_catalog st')"
    using same f(1) by (simp add: st' same_catalog_def same_file_def)
  moreover have "site_bytes st' = min (\<Sum>t \<in> wanted_sites (seen @ [rule]). entry_bytes cat t) USIZE_MAX"
    using inv fresh finite_wanted(1)[of seen] by (simp add: st' w sites_inv_def sat_add_min eb add.commute)
  moreover have "sel_regexes st' = min (\<Sum>t \<in> wanted_sites (seen @ [rule]). site_regexes (selected st') t) USIZE_MAX"
    using inv fresh finite_wanted(1)[of seen]
    by (simp add: w sum.insert regs) (simp add: st' sites_inv_def sat_add_min site_regexes_def add.commute)
  moreover have "dom (sites (selected st')) = wanted_sites (seen @ [rule])"
    using inv by (simp add: st' w sites_inv_def)
  moreover have "\<forall>t s. sites (selected st') t = Some s \<longrightarrow>
      entry_value (decode_site X (limits cat)) (cat_sites cat) t = Inr (Some s)"
    using inv v by (simp add: st' sites_inv_def lim val)
  ultimately show ?thesis using budget unfolding sites_inv_def lim by blast
qed

lemma count_intervals_ok:
  assumes "count_intervals N tag st = (Inr (), st')"
  shows "st' = st\<lparr>ip_intervals := sat_add (ip_intervals st) (interval_count N (ip_networks (selected st) tag))\<rparr>"
    and "ip_intervals st' \<le> geoip_intervals (limits (sel_catalog st))"
  using assms by (auto simp: count_intervals_def Let_def split: if_splits)

lemma sites_inv_ips:
  "sites_inv X N cat ds st \<Longrightarrow> same_file (cat_ips (sel_catalog st)) f \<Longrightarrow> cache_ok (decode_ip N) f \<Longrightarrow>
     st' = st\<lparr>sel_catalog := (sel_catalog st)\<lparr>cat_ips := f\<rparr>, ip_intervals := k,
       selected := (selected st)\<lparr>ips := m\<rparr>\<rparr> \<Longrightarrow> sites_inv X N cat ds st'"
  by (auto simp: sites_inv_def catalog_ok_def same_catalog_def same_file_def site_regexes_def)

lemma select_ip_cases:
  assumes step: "select_ip N alive rule st = (Inr (), st')"
    and rule: "ir_matcher rule = GeoIp tag" "ir_enabled rule" and ok: "catalog_ok X N (sel_catalog st)"
  obtains f m ns where "same_file (cat_ips (sel_catalog st)) f" and "cache_ok (decode_ip N) f"
    and "st' = st\<lparr>sel_catalog := (sel_catalog st)\<lparr>cat_ips := f\<rparr>,
           ip_intervals := sat_add (ip_intervals st) (interval_count N ns),
           selected := (selected st)\<lparr>ips := (ips (selected st))(tag \<mapsto> ns)\<rparr>\<rparr>"
    and "ip_intervals st' \<le> geoip_intervals (limits (sel_catalog st))"
    and "ips (selected st) tag = Some ns \<or>
      (ips (selected st) tag = None \<and> entry_value (decode_ip N) (cat_ips (sel_catalog st)) tag = Inr (Some ns))"
proof (cases "ips (selected st) tag")
  case (Some ns)
  then have ci: "count_intervals N tag st = (Inr (), st')"
    using step rule by (simp add: select_ip_def)
  have upd: "(ips (selected st))(tag \<mapsto> ns) = ips (selected st)" using Some by (simp add: fun_upd_idem)
  show thesis
    by (rule that[of "cat_ips (sel_catalog st)" ns])
      (use count_intervals_ok[OF ci] Some ok in
        \<open>auto simp: same_file_def catalog_ok_def ip_networks_def upd\<close>)
next
  case None
  obtain res f where get: "indexed_get alive tag (decode_ip N) (cat_ips (sel_catalog st)) = (res, f)"
    by (cases "indexed_get alive tag (decode_ip N) (cat_ips (sel_catalog st))")
  note cached = indexed_get_cached[OF _ get]
  obtain ns where ns: "res = Inr (Some ns)"
    and ci: "count_intervals N tag (st\<lparr>sel_catalog := (sel_catalog st)\<lparr>cat_ips := f\<rparr>,
       selected := (selected st)\<lparr>ips := (ips (selected st))(tag \<mapsto> ns)\<rparr>\<rparr>) = (Inr (), st')"
    using step rule None get by (auto simp: select_ip_def Let_def split: sum.splits option.splits)
  show thesis
    by (rule that[of f ns]) (use count_intervals_ok[OF ci] None cached ok ns in
        \<open>auto simp: catalog_ok_def ip_networks_def\<close>)
qed

lemma select_ip_inv:
  assumes step: "select_ip N alive rule st = (Inr (), st')"
    and sinv: "sites_inv X N cat ds st" and inv: "ips_inv X N cat seen st"
  shows "sites_inv X N cat ds st' \<and> ips_inv X N cat (seen @ [rule]) st'"
proof (cases "\<exists>tag. ir_matcher rule = GeoIp tag \<and> ir_enabled rule")
  case False
  then have "st' = st"
    using step by (auto simp: select_ip_def split: ip_match.splits if_splits)
  moreover have "wanted_ips (seen @ [rule]) = wanted_ips seen"
    using False by (auto simp: wanted_ips_snoc split: ip_match.splits)
  ultimately show ?thesis using inv sinv by (simp add: ips_inv_def)
next
  case True
  then obtain tag where tag: "ir_matcher rule = GeoIp tag" "ir_enabled rule" by blast
  have ok: "catalog_ok X N (sel_catalog st)" and same: "same_catalog cat (sel_catalog st)"
    using sinv by (simp_all add: sites_inv_def)
  obtain f ns where f: "same_file (cat_ips (sel_catalog st)) f" "cache_ok (decode_ip N) f"
    and st': "st' = st\<lparr>sel_catalog := (sel_catalog st)\<lparr>cat_ips := f\<rparr>,
           ip_intervals := sat_add (ip_intervals st) (interval_count N ns),
           selected := (selected st)\<lparr>ips := (ips (selected st))(tag \<mapsto> ns)\<rparr>\<rparr>"
    and budget: "ip_intervals st' \<le> geoip_intervals (limits (sel_catalog st))"
    and ns: "ips (selected st) tag = Some ns \<or>
      (ips (selected st) tag = None \<and> entry_value (decode_ip N) (cat_ips (sel_catalog st)) tag = Inr (Some ns))"
    by (rule select_ip_cases[OF step tag ok])
  have w: "wanted_ips (seen @ [rule]) = insert tag (wanted_ips seen)"
    using tag by (simp add: wanted_ips_snoc)
  have val: "entry_value (decode_ip N) (cat_ips (sel_catalog st)) = entry_value (decode_ip N) (cat_ips cat)"
    and lim: "limits (sel_catalog st) = limits cat"
    using same by (simp_all add: same_catalog_def same_file_value)
  let ?c = "\<lambda>st t. interval_count N (ip_networks (selected st) t)"
  have new: "?c st' tag = interval_count N ns" by (simp add: st' ip_networks_def)
  have old: "?c st' t = ?c st t" if "t \<noteq> tag" for t using that by (simp add: st' ip_networks_def)
  have "(\<Sum>t \<in> insert tag (wanted_ips seen). ?c st' t) = interval_count N ns + (\<Sum>t \<in> wanted_ips seen - {tag}. ?c st t)"
    using finite_wanted(2)[of seen] new old by (simp add: sum.insert_remove)
  also have "\<dots> \<le> interval_count N ns + (\<Sum>t \<in> wanted_ips seen. ?c st t)"
    using finite_wanted(2)[of seen] by (intro add_left_mono sum_mono2) auto
  finally have "min (\<Sum>t \<in> insert tag (wanted_ips seen). ?c st' t) USIZE_MAX \<le>
      sat_add (min (\<Sum>t \<in> wanted_ips seen. ?c st t) USIZE_MAX) (interval_count N ns)"
    by (simp add: sat_add_min add.commute min_le_iff_disj)
  also have "\<dots> \<le> ip_intervals st'"
    using inv by (simp add: st' ips_inv_def sat_add_def min_le_iff_disj)
  finally have sum: "min (\<Sum>t \<in> insert tag (wanted_ips seen). ?c st' t) USIZE_MAX \<le> ip_intervals st'" .
  have "\<forall>t n. ips (selected st') t = Some n \<longrightarrow> entry_value (decode_ip N) (cat_ips cat) t = Inr (Some n)"
    using inv ns val by (auto simp: st' ips_inv_def)
  then have "ips_inv X N cat (seen @ [rule]) st'"
    using sum budget inv unfolding ips_inv_def lim w by (simp add: st')
  then show ?thesis using sites_inv_ips[OF sinv f st'] by blast
qed

lemma select_ok:
  assumes "source g = Some cat" and "catalog_ok X N cat" and "mode config = Rules"
    and "select X N live_sites live_ips g config = (Inr g', cat')"
  obtains st where "g' = (selected st)\<lparr>source := Some (sel_catalog st)\<rparr>" and "cat' = Some (sel_catalog st)"
    and "sites_inv X N cat (domain_rules config) st" and "ips_inv X N cat (ip_rules config) st"
proof -
  obtain res st where loops: "select_loops X N live_sites live_ips config (initial_selection cat) = (res, st)"
    by (cases "select_loops X N live_sites live_ips config (initial_selection cat)")
  then have res: "res = Inr ()" "g' = (selected st)\<lparr>source := Some (sel_catalog st)\<rparr>" "cat' = Some (sel_catalog st)"
    using assms(1,4) by (auto simp: select_def split: sum.splits)
  obtain st1 where one: "try_each (select_site X live_sites) (domain_rules config) (initial_selection cat) = (Inr (), st1)"
    and two: "try_each (select_ip N live_ips) (ip_rules config) st1 = (Inr (), st)"
    using loops res(1) assms(3) by (auto simp: select_loops_def Let_def case_prod_beta prod_eq_iff split: sum.splits)
  have "sites_inv X N cat [] (initial_selection cat)"
    using assms(2) by (simp add: sites_inv_def initial_selection_def empty_geodata_def wanted_sites_def)
  with one have s1: "sites_inv X N cat (domain_rules config) st1"
    by (rule try_each_inv) (rule select_site_inv)
  have keep: "ips (selected st1) = Map.empty \<and> ip_intervals st1 = 0"
    using one by (rule try_each_inv[where P = "\<lambda>_ st. ips (selected st) = Map.empty \<and> ip_intervals st = 0"])
      (auto simp: initial_selection_def empty_geodata_def select_site_def Let_def case_prod_beta
        split: domain_match.splits if_splits option.splits sum.splits)
  then have "sites_inv X N cat (domain_rules config) st1 \<and> ips_inv X N cat [] st1"
    using s1 by (simp add: ips_inv_def wanted_ips_def)
  with two have "sites_inv X N cat (domain_rules config) st \<and> ips_inv X N cat (ip_rules config) st"
    by (rule try_each_inv) (use select_ip_inv in blast)
  then show thesis using that res by blast
qed

section \<open>The shared catalogue over time\<close>

lemma try_each_always:
  assumes "try_each f xs s = (res, s')" and "P s" and "\<And>x s res s'. f x s = (res, s') \<Longrightarrow> P s \<Longrightarrow> P s'"
  shows "P s'"
  using assms(1,2)
proof (induction xs arbitrary: s)
  case (Cons x xs)
  obtain r1 s1 where fx: "f x s = (r1, s1)" by (cases "f x s")
  then have "P s1" using assms(3) Cons.prems(2) by blast
  then show ?case using Cons fx by (auto split: sum.splits)
qed simp

lemma select_site_catalog:
  assumes "select_site X alive rule st = (res, st')" and "catalog_ok X N (sel_catalog st)"
  shows "catalog_ok X N (sel_catalog st')"
proof -
  have get: "cache_ok (decode_site X (limits (sel_catalog st)))
      (snd (indexed_get alive tag (decode_site X (limits (sel_catalog st))) (cat_sites (sel_catalog st))))" for tag
    using indexed_get_cached[OF _ surjective_pairing] assms(2) unfolding catalog_ok_def by blast
  then show ?thesis
    using assms by (auto simp: select_site_def Let_def case_prod_beta catalog_ok_def
        split: domain_match.splits if_splits option.splits sum.splits)
qed

lemma count_intervals_catalog: "sel_catalog (snd (count_intervals N tag st)) = sel_catalog st"
  by (simp add: count_intervals_def Let_def)

lemma select_ip_catalog:
  assumes "select_ip N alive rule st = (res, st')" and "catalog_ok X N (sel_catalog st)"
  shows "catalog_ok X N (sel_catalog st')"
proof -
  have get: "cache_ok (decode_ip N) (snd (indexed_get alive tag (decode_ip N) (cat_ips (sel_catalog st))))" for tag
    using indexed_get_cached[OF _ surjective_pairing] assms(2) unfolding catalog_ok_def by blast
  have st': "st' = snd (select_ip N alive rule st)" using assms(1) by simp
  show ?thesis
    using assms(2) get unfolding st'
    by (auto simp: select_ip_def Let_def case_prod_beta catalog_ok_def count_intervals_catalog
        split: ip_match.split if_split option.split sum.split)
qed

lemma select_catalog:
  assumes "select X N ls li g config = (res, Some cat')" and "source g = Some cat" and "catalog_ok X N cat"
  shows "catalog_ok X N cat'"
proof -
  obtain r st where loops: "select_loops X N ls li config (initial_selection cat) = (r, st)"
    by (cases "select_loops X N ls li config (initial_selection cat)")
  have cat': "cat' = sel_catalog st" using assms(1,2) loops by (auto simp: select_def)
  have init: "catalog_ok X N (sel_catalog (initial_selection cat))"
    using assms(3) by (simp add: initial_selection_def)
  obtain r1 st1 where one: "try_each (select_site X ls) (domain_rules config) (initial_selection cat) = (r1, st1)"
    by (cases "try_each (select_site X ls) (domain_rules config) (initial_selection cat)")
  have ok1: "catalog_ok X N (sel_catalog st1)"
    using one init select_site_catalog by (rule try_each_always)
  show ?thesis
  proof (cases "mode config = Rules \<and> r1 = Inr ()")
    case True
    then have "try_each (select_ip N li) (ip_rules config) st1 = (r, st)"
      using loops one by (simp add: select_loops_def)
    then show ?thesis unfolding cat' using ok1 select_ip_catalog by (rule try_each_always)
  next
    case False
    then have "st = st1 \<or> st = initial_selection cat"
      using loops one by (auto simp: select_loops_def split: if_splits sum.splits)
    then show ?thesis using ok1 init cat' by auto
  qed
qed

text \<open>The catalogues that a running agent can hold: loaded, then used for any number of
  configurations, with any cached entries alive.\<close>

inductive catalog_run :: "'r regex_lib \<Rightarrow> ipnet \<Rightarrow> 'r catalog \<Rightarrow> bool" for X N where
  loaded: "load_with_limits geosite geoip lim = Inr g \<Longrightarrow> source g = Some cat \<Longrightarrow> catalog_run X N cat"
| used: "catalog_run X N cat \<Longrightarrow> source g = Some cat \<Longrightarrow>
    select X N ls li g config = (res, Some cat') \<Longrightarrow> catalog_run X N cat'"

lemma catalog_run_ok: "catalog_run X N cat \<Longrightarrow> catalog_ok X N cat"
proof (induction rule: catalog_run.induct)
  case (loaded geosite geoip lim g cat)
  then show ?case
    by (auto simp: load_with_limits_def indexed_open_def empty_geodata_def catalog_ok_def cache_ok_def)
next
  case (used cat g ls li config res cat')
  then show ?case using select_catalog by blast
qed

section \<open>Properties\<close>

text \<open>Every entry that the index of a geodata file records lies inside the file, whatever bytes
  the file has: a later read of the entry stays within the file.\<close>

theorem index_within_file:
  assumes "length data < 2 ^ 64" and "open_entries data geoip = Inr index" and "index tag = Some rng"
  shows "unat (range_start rng) + unat (range_len rng) \<le> length data"
  using open_entries_bounds[OF assms(2,3)] assms(1) by (simp add: range_inside_def unat_of_nat)

lemmas reader_eval = fold_fields.simps field_def integer_def read_exact_def reader_new_def ensure_def skip_def
  checked_add_def seek_def within_def string_of_def Let_def

definition witness_geoip :: bytes where
  "witness_geoip = [10, 4, 10, 2, 82, 85]"

lemma witness_chars: "char_of (114::nat) = CHR ''r''" "char_of (117::nat) = CHR ''u''"
  by code_simp+

lemma witness_geoip_open:
  "open_entries witness_geoip True = Inr [''ru'' \<mapsto> \<lparr>range_start = 2, range_len = 4\<rparr>]"
  by (simp add: open_entries_def witness_geoip_def reader_eval entry_field_def tag_field_def
      str_of_bytes_def to_ascii_lowercase_def to_ascii_lower_char_def ascii_upper_def witness_chars)

theorem index_within_file_witness:
  "unat (range_start \<lparr>range_start = 2, range_len = 4\<rparr>) + unat (range_len \<lparr>range_start = 2, range_len = 4\<rparr>)
     \<le> length witness_geoip"
  using index_within_file[OF _ witness_geoip_open, of "''ru''" "\<lparr>range_start = 2, range_len = 4\<rparr>"]
  by (simp add: witness_geoip_def)

text \<open>Domain matching of a GeoSite entry respects label boundaries: a root domain matches itself
  and its subdomains only, a full domain only itself, a keyword any domain that contains it.\<close>

theorem site_matches_spec:
  "site_matches X site domain \<longleftrightarrow>
     domain \<in> full site \<or>
     (\<exists>root \<in> roots site. domain = root \<or> (\<exists>sub. domain = sub @ CHR ''.'' # root)) \<or>
     (\<exists>keyword \<in> set (site_keywords site). \<exists>p q. domain = p @ keyword @ q) \<or>
     (\<exists>x \<in> set (regexes site). regex_is_match X x domain)"
  by (auto simp: site_matches_def list_ex_iff set_after_dots str_contains_iff)

text \<open>C19: Selecting the geodata of a configuration, at any time in the life of the agent and
  whatever the cache holds, gives exactly the entries that the enabled rules name, each with the
  value that the file holds for it, and the whole selection respects the memory budget (bytes of the
  GeoSite entries, number of regular expressions, number of address intervals).\<close>

theorem select_exact_within_budget:
  assumes "catalog_run X N cat" and "source g = Some cat" and "mode config = Rules"
    and "select X N live_sites live_ips g config = (Inr g', cat')"
  shows "dom (sites g') = wanted_sites (domain_rules config) \<and>
     dom (ips g') = wanted_ips (ip_rules config) \<and>
     (\<forall>tag site. sites g' tag = Some site \<longrightarrow>
        entry_value (decode_site X (limits cat)) (cat_sites cat) tag = Inr (Some site)) \<and>
     (\<forall>tag ns. ips g' tag = Some ns \<longrightarrow> entry_value (decode_ip N) (cat_ips cat) tag = Inr (Some ns)) \<and>
     min (\<Sum>tag \<in> dom (sites g'). entry_bytes cat tag) USIZE_MAX \<le> geosite_bytes (limits cat) \<and>
     min (\<Sum>tag \<in> dom (sites g'). site_regexes g' tag) USIZE_MAX \<le> regex_count (limits cat) \<and>
     min (\<Sum>tag \<in> dom (ips g'). interval_count N (ip_networks g' tag)) USIZE_MAX \<le> geoip_intervals (limits cat)"
proof -
  obtain st where st: "g' = (selected st)\<lparr>source := Some (sel_catalog st)\<rparr>"
      "sites_inv X N cat (domain_rules config) st" "ips_inv X N cat (ip_rules config) st"
    by (rule select_ok[OF assms(2) catalog_run_ok[OF assms(1)] assms(3,4)])
  have "site_regexes g' = site_regexes (selected st)" "ip_networks g' = ip_networks (selected st)"
    "sites g' = sites (selected st)" "ips g' = ips (selected st)"
    using st(1) by (auto simp: site_regexes_def ip_networks_def fun_eq_iff)
  then show ?thesis using st(2,3) unfolding sites_inv_def ips_inv_def by simp
qed

definition witness_regex :: "string regex_lib" where
  "witness_regex = \<lparr>regex_build = (\<lambda>s _ _. Some s), regex_is_match = (\<lambda>x s. str_contains x s)\<rparr>"

definition witness_config :: routing_config where
  "witness_config = \<lparr>domain_rules = [], ip_rules = [\<lparr>ir_name = ''ru'', ir_enabled = True,
     ir_matcher = GeoIp ''ru'', ir_target = Direct\<rparr>], default_target = Vpn, mode = Rules, rule_order = None\<rparr>"

definition witness_catalog :: "string catalog" where
  "witness_catalog = \<lparr>cat_sites = \<lparr>contents = [], entries = Map.empty, cache = Map.empty\<rparr>,
     cat_ips = \<lparr>contents = witness_geoip, entries = [''ru'' \<mapsto> \<lparr>range_start = 2, range_len = 4\<rparr>], cache = Map.empty\<rparr>,
     limits = COMPACT_LIMITS\<rparr>"

lemma witness_load: "load_with_limits [] witness_geoip COMPACT_LIMITS =
    Inr (empty_geodata\<lparr>source := Some witness_catalog\<rparr>)"
proof -
  have "open_entries [] False = Inr Map.empty" by (simp add: open_entries_def reader_eval)
  then show ?thesis by (simp add: load_with_limits_def indexed_open_def witness_geoip_open witness_catalog_def)
qed

lemma witness_decode: "within \<lparr>range_start = 2, range_len = 4\<rparr> (decode_ip std_ipnet) (reader_new witness_geoip) =
    Inr ([], reader_new witness_geoip)"
  by (simp add: decode_ip_def witness_geoip_def reader_eval ip_field_def aggregate_ipv4_def sort_by_def)

theorem select_exact_within_budget_witness:
  "\<exists>g'. fst (select witness_regex std_ipnet (\<lambda>_. True) (\<lambda>_. True)
      (empty_geodata\<lparr>source := Some witness_catalog\<rparr>) witness_config) = Inr g' \<and> dom (ips g') = {''ru''}"
proof -
  let ?g = "empty_geodata\<lparr>source := Some witness_catalog\<rparr>"
  have run: "catalog_run witness_regex std_ipnet witness_catalog"
    by (rule catalog_run.loaded[OF witness_load]) simp
  obtain g' cat' where sel: "select witness_regex std_ipnet (\<lambda>_. True) (\<lambda>_. True) ?g witness_config = (Inr g', cat')"
    by (simp add: select_def select_loops_def witness_config_def initial_selection_def select_ip_def
        indexed_get_def witness_catalog_def witness_decode count_intervals_def ip_networks_def interval_count_def
        sat_add_def COMPACT_LIMITS_def empty_geodata_def)
  have "dom (ips g') = wanted_ips (ip_rules witness_config)"
    using select_exact_within_budget[OF run _ _ sel] by (simp add: witness_config_def)
  then show ?thesis using sel by (auto simp: witness_config_def wanted_ips_def)
qed

end
