(* ===== verification/Geo_Encode.thy ===== *)
theory Geo_Encode
  imports Geo_Data
begin

text \<open>
  A reference encoder for the protobuf messages of \<^verbatim>\<open>geoip.dat\<close> and the proof that the reader of
  \<^verbatim>\<open>geodata/wire.rs\<close> and \<^verbatim>\<open>decode_ip\<close> read it back. The encoder follows the protobuf
  specification: base-128 integers, field keys, length-delimited fields.
\<close>

unbundle bit_operations_syntax

section \<open>The reference encoder\<close>

fun enc_varint :: "nat \<Rightarrow> bytes" where
  "enc_varint n =
     (if n < 128 then [of_nat n] else of_nat (n mod 128 + 128) # enc_varint (n div 128))"

declare enc_varint.simps [simp del]

definition enc_int :: "nat \<Rightarrow> nat \<Rightarrow> bytes" where
  "enc_int number n = enc_varint (8 * number) @ enc_varint n"

definition enc_bytes :: "nat \<Rightarrow> bytes \<Rightarrow> bytes" where
  "enc_bytes number bs = enc_varint (8 * number + 2) @ enc_varint (length bs) @ bs"

definition addr_bytes :: "ipv4 \<Rightarrow> bytes" where
  "addr_bytes a = rev (to_le_bytes 4 a)"

definition enc_cidr :: "ipv4net \<Rightarrow> bytes" where
  "enc_cidr n = enc_bytes 1 (addr_bytes (net_addr n)) @ enc_int 2 (net_prefix n)"

definition enc_geoip :: "bytes \<Rightarrow> ipv4net list \<Rightarrow> bytes" where
  "enc_geoip tag ns = enc_bytes 1 tag @ concat (map (\<lambda>n. enc_bytes 2 (enc_cidr n)) ns)"

section \<open>Reading a prefix\<close>

text \<open>The reader stands before the bytes, which lie inside its range.\<close>

definition at :: "reader \<Rightarrow> bytes \<Rightarrow> bool" where
  "at r bs \<longleftrightarrow> (\<exists>before after. input r = before @ bs @ after \<and> unat (position r) = length before) \<and>
     unat (position r) + length bs \<le> unat (range_end r)"

definition advance :: "nat \<Rightarrow> reader \<Rightarrow> reader" where
  "advance n r = r\<lparr>position := position r + of_nat n\<rparr>"

lemma advance_simps [simp]:
  "input (advance n r) = input r" "range_end (advance n r) = range_end r"
  "advance m (advance n r) = advance (n + m) r" "advance 0 r = r"
  "position (advance n r) = position r + of_nat n"
  by (simp_all add: advance_def add.assoc)

lemma unat_advance:
  assumes "unat (position r) + n \<le> unat (range_end r)"
  shows "unat (position r + of_nat n) = unat (position r) + n"
proof -
  have "unat (position r) + n < 2 ^ 64" using assms unsigned_less[of "range_end r", where ?'a = nat] by simp
  then show ?thesis by (simp add: unat_word_ariths unat_of_nat)
qed

lemma at_append: "at r (xs @ ys) \<Longrightarrow> at r xs \<and> at (advance (length xs) r) ys"
proof -
  assume a: "at r (xs @ ys)"
  then obtain b c where bc: "input r = b @ (xs @ ys) @ c" "unat (position r) = length b"
    and le: "unat (position r) + length (xs @ ys) \<le> unat (range_end r)" by (auto simp: at_def)
  have "unat (position r + of_nat (length xs)) = length (b @ xs)"
    using unat_advance[of r "length xs"] le bc(2) by simp
  moreover have "input r = (b @ xs) @ ys @ c" using bc(1) by simp
  ultimately have "at (advance (length xs) r) ys" 
    unfolding at_def using le bc(2) by (intro conjI exI[of _ "b @ xs"] exI[of _ c]) simp_all
  moreover have "at r xs" unfolding at_def using bc le by auto
  ultimately show ?thesis by blast
qed

lemma at_read: "at r bs \<Longrightarrow> length bs = n \<Longrightarrow> read_exact n r = Inr (bs, advance n r)"
  by (auto simp: at_def read_exact_def advance_def)

lemma at_less: "at r bs \<Longrightarrow> bs \<noteq> [] \<Longrightarrow> position r < range_end r"
  by (cases bs) (auto simp: at_def word_less_nat_alt)

section \<open>Integers\<close>

lemma byte_low: "ucast (b AND 0x7f :: u8) = (of_nat (unat b mod 128) :: u64)"
proof -
  have "b AND 0x7f = take_bit 7 b" by (simp add: take_bit_eq_mask mask_eq_exp_minus_1)
  then have "unat (b AND 0x7f) = take_bit 7 (unat b)" by (simp only: unsigned_take_bit_eq)
  then have "unat (b AND 0x7f) = unat b mod 128" by (simp add: take_bit_eq_mod)
  then show ?thesis
    by (simp add: word_eq_iff_unsigned[where ?'a = nat] unsigned_ucast_eq unat_of_nat take_bit_eq_mod)
qed

lemma byte_high: "b AND 0x80 = (0::u8) \<longleftrightarrow> unat b < 128"
proof -
  have lt: "unat b < 256" using unsigned_less[of b, where ?'a = nat] by simp
  have "odd (unat b div 128) \<longleftrightarrow> 128 \<le> unat b"
  proof (cases "unat b < 128")
    case False
    then have "unat b div 128 = 1" using lt by (simp add: div_eq_iff_range[of 128 "unat b" 1])
    then show ?thesis using False by simp
  qed simp
  moreover have "b AND 0x80 = 0 \<longleftrightarrow> \<not> bit b 7" using and_exp_eq_0_iff_not_bit[of b 7] by simp
  moreover have "bit b 7 \<longleftrightarrow> odd (unat b div 128)"
  proof -
    have "bit b 7 \<longleftrightarrow> bit (unat b) 7" by (simp add: bit_unsigned_iff)
    then show ?thesis by (simp add: bit_iff_odd)
  qed
  ultimately show ?thesis by auto
qed

lemma or_push_bit:
  fixes acc :: u64
  assumes "unat acc < 2 ^ s"
  shows "acc OR push_bit s x = acc + push_bit s x"
proof -
  have "\<not> bit acc k" if "s \<le> k" for k
  proof
    assume "bit acc k"
    then have "bit (unat acc) k" by (simp add: bit_unsigned_iff bit_imp_le_length)
    then have "2 ^ k \<le> unat acc" by (simp add: bit_iff_odd) (metis div_less even_zero linorder_not_less)
    moreover have "(2::nat) ^ s \<le> 2 ^ k" using that by simp
    ultimately show False using assms by simp
  qed
  then have "acc AND push_bit s x = 0" by (intro bit_word_eqI) (auto simp: bit_simps)
  then show ?thesis by (simp add: disjunctive_add_eq_or)
qed

lemma integer_loop_varint:
  assumes "n < 2 ^ (64 - 7 * k)" and "k < 10" and "unat acc < 2 ^ (7 * k)" and "at r (enc_varint n)"
  shows "integer_loop (map (\<lambda>i. 7 * i) [k..<10]) acc r =
     Inr (acc + of_nat (n * 2 ^ (7 * k)), advance (length (enc_varint n)) r)"
  using assms
proof (induction n arbitrary: k acc r rule: enc_varint.induct)
  case (1 n)
  let ?b = "(if n < 128 then of_nat n else of_nat (n mod 128 + 128)) :: u8"
  define rest where "rest = (if n < 128 then [] else enc_varint (n div 128))"
  have enc: "enc_varint n = ?b # rest" by (subst enc_varint.simps) (simp add: rest_def)
  have ub: "unat ?b = (if n < 128 then n else n mod 128 + 128)"
    by (simp add: unat_of_nat del: of_nat_add)
  have at: "at r [?b]" "at (advance 1 r) rest" using "1.prems"(4) enc at_append[of r "[?b]" rest] by auto
  have shifts: "map (\<lambda>i. 7 * i) [k..<10] = 7 * k # map (\<lambda>i. 7 * i) [Suc k..<10]"
    using "1.prems"(2) by (simp add: upt_conv_Cons)
  have small: "7 * k < 63 \<or> ?b \<le> 1"
  proof (cases "k = 9")
    case True
    then show ?thesis using "1.prems"(1) by (auto simp: word_le_nat_alt unat_of_nat)
  qed (use "1.prems"(2) in simp)
  let ?acc = "acc + of_nat (n mod 128 * 2 ^ (7 * k))"
  have acc: "acc OR push_bit (7 * k) (ucast (?b AND 0x7f)) = ?acc"
    using ub unfolding or_push_bit[OF "1.prems"(3)] byte_low by (simp add: push_bit_eq_mult)
  have step: "integer_loop (map (\<lambda>i. 7 * i) [k..<10]) acc r =
      (if n < 128 then Inr (?acc, advance 1 r)
       else integer_loop (map (\<lambda>i. 7 * i) [Suc k..<10]) ?acc (advance 1 r))"
    using at_less[OF at(1)] at_read[OF at(1), of 1] small ub byte_high[of ?b] acc unfolding shifts
    by (simp add: ensure_def)
  show ?case
  proof (cases "n < 128")
    case True
    then show ?thesis using step enc by (simp add: rest_def)
  next
    case False
    have k: "k < 9"
    proof (rule ccontr)
      assume "\<not> k < 9"
      then have "k = 9" using "1.prems"(2) by simp
      then show False using "1.prems"(1) False by simp
    qed
    then have "64 - 7 * k = 7 + (64 - 7 * Suc k)" by simp
    then have "n < 2 ^ (64 - 7 * Suc k) * 128"
      using "1.prems"(1) by (simp only: power_add) simp
    then have n: "n div 128 < 2 ^ (64 - 7 * Suc k)" by (rule less_mult_imp_div_less)
    have "unat ?acc \<le> unat acc + n mod 128 * 2 ^ (7 * k)"
      using mod_less_eq_dividend[of "n mod 128 * 2 ^ (7 * k)" "2 ^ 64"]
        mod_less_eq_dividend[of "unat acc + unat (of_nat (n mod 128 * 2 ^ (7 * k)) :: u64)" "2 ^ 64"]
      by (simp add: unat_word_ariths(1) unat_of_nat take_bit_eq_mod del: of_nat_mult mod_less_eq_dividend)
    also have "\<dots> < 2 ^ (7 * k) + n mod 128 * 2 ^ (7 * k)" using "1.prems"(3) by simp
    also have "\<dots> = Suc (n mod 128) * 2 ^ (7 * k)" by simp
    also have "\<dots> \<le> 128 * 2 ^ (7 * k)" by (intro mult_le_mono1) (simp add: Suc_le_eq)
    finally have acc': "unat ?acc < 2 ^ (7 * Suc k)" by (simp add: power_add)
    have "a * M + b * (M * 128) = (a + 128 * b) * M" for a b M :: nat by (simp add: algebra_simps)
    moreover have "(2::nat) ^ (7 * Suc k) = 2 ^ (7 * k) * 128" by (simp add: power_add)
    ultimately have "n mod 128 * 2 ^ (7 * k) + n div 128 * 2 ^ (7 * Suc k) =
        (n mod 128 + 128 * (n div 128)) * 2 ^ (7 * k)" by (simp only:)
    then have sum: "?acc + of_nat (n div 128 * 2 ^ (7 * Suc k)) = acc + of_nat (n * 2 ^ (7 * k))"
      by (simp only: add.assoc flip: of_nat_add) simp
    show ?thesis
      using "1.IH"[OF False n _ acc'] at(2) k step False enc sum by (simp add: rest_def)
  qed
qed

lemma integer_varint:
  assumes "n < 2 ^ 64" and "at r (enc_varint n)"
  shows "integer r = Inr (of_nat n, advance (length (enc_varint n)) r)"
proof -
  have "[0, 7, 14, 21, 28, 35, 42, 49, 56, 63] = map (\<lambda>i. 7 * i) [0..<10]" by (simp add: upt_rec)
  then show ?thesis
    using integer_loop_varint[of n 0 0 r] assms unfolding integer_def by simp
qed

section \<open>Fields\<close>

text \<open>Offsets of real files are below \<open>2^63\<close>.\<close>

definition small_file :: "reader \<Rightarrow> bool" where
  "small_file r \<longleftrightarrow> unat (range_end r) < 2 ^ 63"

lemma seek_small: "unat pos < 2 ^ 63 \<Longrightarrow> unat (position r) < 2 ^ 63 \<Longrightarrow> seek pos r = Inr (r\<lparr>position := pos\<rparr>)"
proof -
  assume "unat pos < 2 ^ 63" "unat (position r) < 2 ^ 63"
  then have "int (unat pos) < int (2 ^ 63) \<and> int (unat (position r)) < int (2 ^ 63)"
    by (simp only: of_nat_less_iff)
  then have "int (unat pos) < 2 ^ 63 \<and> int (unat (position r)) < 2 ^ 63"
    by (simp only: of_nat_power of_nat_numeral)
  moreover have "0 \<le> int (unat pos) \<and> 0 \<le> int (unat (position r))" by (simp only: of_nat_0_le_iff)
  ultimately have "- (2 ^ 63) \<le> int (unat pos) - int (unat (position r)) \<and> int (unat pos) - int (unat (position r)) < 2 ^ 63"
    by linarith
  then show ?thesis unfolding seek_def Let_def by (simp only: if_True simp_thms)
qed

lemma key_parts:
  assumes "m < 2 ^ 64"
  shows "unat (drop_bit 3 (of_nat m :: u64)) = m div 8" and "(of_nat m :: u64) AND 7 = of_nat (m mod 8)"
proof -
  have u: "unat (of_nat m :: u64) = m" using assms by (simp add: unat_of_nat)
  have "unat (drop_bit 3 (of_nat m :: u64)) = drop_bit 3 (unat (of_nat m :: u64))"
    by (rule unat_drop_bit_eq)
  then show "unat (drop_bit 3 (of_nat m :: u64)) = m div 8" using u by (simp add: drop_bit_eq_div)
  have "(of_nat m :: u64) AND 7 = take_bit 3 (of_nat m)" by (simp add: take_bit_eq_mask mask_eq_exp_minus_1)
  then have "unat ((of_nat m :: u64) AND 7) = take_bit 3 (unat (of_nat m :: u64))"
    by (simp only: unsigned_take_bit_eq)
  also have "\<dots> = m mod 8" by (simp only: u take_bit_eq_mod) simp
  finally show "(of_nat m :: u64) AND 7 = of_nat (m mod 8)"
    by (simp add: word_eq_iff_unsigned[where ?'a = nat] unat_of_nat take_bit_eq_mod)
qed

lemma key_number:
  assumes "1 \<le> number" and "number < 2 ^ 29" and "w < 8"
  shows "unat (drop_bit 3 (of_nat (8 * number + w) :: u64)) = number"
    and "(of_nat (8 * number + w) :: u64) AND 7 = of_nat w"
    and "(ucast (drop_bit 3 (of_nat (8 * number + w) :: u64)) :: u32) = of_nat number"
    and "1 \<le> (of_nat number :: u32)" and "(of_nat number :: u32) \<le> 0x1fffffff"
proof -
  have lt: "8 * number + w < 2 ^ 64" using assms by simp
  have "(8 * number + w) div 8 = number" using assms(3) by simp
  then show u: "unat (drop_bit 3 (of_nat (8 * number + w) :: u64)) = number"
    using key_parts(1)[OF lt] by simp
  show "(of_nat (8 * number + w) :: u64) AND 7 = of_nat w"
    using key_parts(2)[OF lt] assms(3) by simp
  show "(ucast (drop_bit 3 (of_nat (8 * number + w) :: u64)) :: u32) = of_nat number"
    using assms(2) u by (simp add: word_eq_iff_unsigned[where ?'a = nat] unsigned_ucast_eq unat_of_nat take_bit_eq_mod del: of_nat_add of_nat_mult)
  show "1 \<le> (of_nat number :: u32)" "(of_nat number :: u32) \<le> 0x1fffffff"
    using assms by (simp_all add: word_le_nat_alt unat_of_nat)
qed

lemma at_not_end: "at r bs \<Longrightarrow> bs \<noteq> [] \<Longrightarrow> position r \<noteq> range_end r"
  using at_less by fastforce

lemma enc_varint_nonempty [simp]: "enc_varint n \<noteq> []"
  by (subst enc_varint.simps) simp

lemma field_enc_int:
  assumes "at r (enc_int number n)" and "1 \<le> number" "number < 2 ^ 29" and "n < 2 ^ 64"
  shows "field r = Inr (Some (of_nat number, Integer (of_nat n)), advance (length (enc_int number n)) r)"
proof -
  note key = key_number[OF assms(2,3), of 0, simplified]
  have at: "at r (enc_varint (8 * number))" "at (advance (length (enc_varint (8 * number))) r) (enc_varint n)"
    using at_append assms(1) by (auto simp: enc_int_def)
  have "8 * number < 2 ^ 64" using assms(3) by simp
  then have ints: "integer r = Inr (of_nat (8 * number), advance (length (enc_varint (8 * number))) r)"
      "integer (advance (length (enc_varint (8 * number))) r) =
        Inr (of_nat n, advance (length (enc_int number n)) r)"
    using integer_varint[OF _ at(1)] integer_varint[OF assms(4) at(2)] by (simp_all add: enc_int_def)
  show ?thesis
    using at_not_end[OF at(1)] assms(3) key unfolding field_def ints(1)
    by (simp add: Let_def ints(2) ensure_def)
qed

lemma skip_at: "at r bs \<Longrightarrow> small_file r \<Longrightarrow> skip (of_nat (length bs)) r = Inr (advance (length bs) r)"
proof -
  assume at: "at r bs" and small: "small_file r"
  have le: "unat (position r) + length bs \<le> unat (range_end r)" and lt: "unat (range_end r) < 2 ^ 63"
    using at small by (simp_all add: at_def small_file_def)
  have u: "unat (of_nat (length bs) :: u64) = length bs" using le lt by (simp add: unat_of_nat)
  have e: "unat (position r + of_nat (length bs)) = unat (position r) + length bs" using unat_advance le .
  have "checked_add (position r) (of_nat (length bs)) = Some (position r + of_nat (length bs))"
    using le lt u by (simp add: checked_add_def)
  moreover have "position r + of_nat (length bs) \<le> range_end r" using le e by (simp add: word_le_nat_alt)
  moreover have "seek (position r + of_nat (length bs)) r = Inr (advance (length bs) r)"
    using seek_small[of "position r + of_nat (length bs)" r] le lt e by (simp add: advance_def)
  ultimately show ?thesis by (simp add: skip_def)
qed

definition header_len :: "nat \<Rightarrow> bytes \<Rightarrow> nat" where
  "header_len number bs = length (enc_varint (8 * number + 2)) + length (enc_varint (length bs))"

definition field_range :: "reader \<Rightarrow> nat \<Rightarrow> bytes \<Rightarrow> wire_range" where
  "field_range r number bs =
     \<lparr>range_start = position r + of_nat (header_len number bs), range_len = of_nat (length bs)\<rparr>"

lemma field_enc_bytes:
  assumes "at r (enc_bytes number bs)" and "small_file r" and "1 \<le> number" "number < 2 ^ 29"
  shows "field r = Inr (Some (of_nat number, Bytes (field_range r number bs)),
      advance (length (enc_bytes number bs)) r)"
    and "at (advance (header_len number bs) r) bs" and "length bs < 2 ^ 63"
proof -
  define k where "k = 8 * number + 2"
  note key = key_number[OF assms(3,4), of 2, folded k_def, simplified]
  have at: "at r (enc_varint k)" "at (advance (length (enc_varint k)) r) (enc_varint (length bs))"
    "at (advance (header_len number bs) r) bs"
    using at_append[of r "enc_varint k" "enc_varint (length bs) @ bs"] assms(1)
      at_append[of "advance (length (enc_varint k)) r" "enc_varint (length bs)" bs]
    by (simp_all add: enc_bytes_def header_len_def k_def[symmetric] del: add_2_eq_Suc')
  show "at (advance (header_len number bs) r) bs" using at(3) .
  show lt: "length bs < 2 ^ 63" using at(3) assms(2) by (auto simp: at_def small_file_def)
  have "k < 2 ^ 64" using assms(4) by (simp add: k_def)
  then have ints: "integer r = Inr (of_nat k, advance (length (enc_varint k)) r)"
      "integer (advance (length (enc_varint k)) r) = Inr (of_nat (length bs), advance (header_len number bs) r)"
    using integer_varint[OF _ at(1)] integer_varint[OF _ at(2)] lt by (simp_all add: header_len_def k_def[symmetric] del: add_2_eq_Suc')
  have sk: "skip (of_nat (length bs)) (advance (header_len number bs) r) = Inr (advance (length (enc_bytes number bs)) r)"
    using skip_at[OF at(3)] assms(2) by (simp add: small_file_def enc_bytes_def header_len_def add.assoc)
  show "field r = Inr (Some (of_nat number, Bytes (field_range r number bs)),
      advance (length (enc_bytes number bs)) r)"
    using at_not_end[OF at(1)] assms(4) key unfolding field_def ints(1)
    by (simp add: Let_def ints(2) ensure_def sk field_range_def del: of_nat_add of_nat_mult)
qed

section \<open>Messages\<close>

lemma fold_fields_end: "position r = range_end r \<Longrightarrow> fold_fields body s r = Inr (s, r)"
  by (subst fold_fields.simps) (simp add: field_def)

lemma fold_fields_step:
  "field r = Inr (Some (n, v), r') \<Longrightarrow> body n v r' s = Inr s' \<Longrightarrow> fold_fields body s r = fold_fields body s' r'"
  by (subst fold_fields.simps) simp

text \<open>The reader's range is exactly the message.\<close>

definition exact :: "reader \<Rightarrow> bytes \<Rightarrow> bool" where
  "exact r bs \<longleftrightarrow> at r bs \<and> unat (position r) + length bs = unat (range_end r) \<and> small_file r"

lemma exact_Nil: "exact r [] \<Longrightarrow> position r = range_end r"
  by (simp add: exact_def word_eq_iff_unsigned[where ?'a = nat])

lemma exact_append: "exact r (xs @ ys) \<Longrightarrow> at r xs \<and> small_file r \<and> exact (advance (length xs) r) ys"
proof -
  assume ex: "exact r (xs @ ys)"
  then have at: "at r xs" "at (advance (length xs) r) ys" using at_append by (auto simp: exact_def)
  have "unat (position r + of_nat (length xs)) = unat (position r) + length xs"
    using ex unat_advance[of r "length xs"] by (simp add: exact_def)
  then show ?thesis using ex at by (simp add: exact_def small_file_def)
qed

lemma within_exact:
  assumes at: "at (advance (header_len number bs) r) bs" and small: "small_file r"
    and pos: "unat (position s) < 2 ^ 63" and inp: "input s = input r"
    and read: "\<And>inner. exact inner bs \<Longrightarrow> input inner = input r \<Longrightarrow>
      \<exists>r'. read inner = Inr (x, r') \<and> input r' = input inner \<and> unat (position r') < 2 ^ 63"
  shows "within (field_range r number bs) read s = Inr (x, s)"
proof -
  let ?p = "position r + of_nat (header_len number bs)"
  let ?inner = "s\<lparr>position := ?p, range_end := ?p + of_nat (length bs)\<rparr>"
  have le: "unat ?p + length bs \<le> unat (range_end r)" using at by (simp add: at_def)
  then have lt: "unat ?p + length bs < 2 ^ 63" using small by (simp add: small_file_def)
  then have e: "unat (?p + of_nat (length bs)) = unat ?p + length bs"
    by (simp add: unat_word_ariths(1) unat_of_nat)
  have "exact ?inner bs" using at e lt inp by (simp add: exact_def at_def small_file_def)
  then obtain r' where r': "read ?inner = Inr (x, r')" "input r' = input s" "unat (position r') < 2 ^ 63"
    using read[of ?inner] inp by auto
  have "seek ?p s = Inr (s\<lparr>position := ?p\<rparr>)" using seek_small pos lt by simp
  moreover have "seek (position s) (r'\<lparr>range_end := range_end s\<rparr>) = Inr s"
    using seek_small[of "position s" "r'\<lparr>range_end := range_end s\<rparr>"] pos r'(2,3) by simp
  ultimately show ?thesis using r'(1) by (simp add: within_def field_range_def)
qed

lemma addr_of_addr_bytes: "addr_of_bytes (addr_bytes a) = a"
  by (simp add: addr_of_bytes_def addr_bytes_def)

lemma length_addr_bytes [simp]: "length (addr_bytes a) = 4"
  by (simp add: addr_bytes_def)

lemma position_small: "exact r bs \<Longrightarrow> unat (position r) < 2 ^ 63"
  by (auto simp: exact_def small_file_def)

lemma decode_cidr:
  assumes "valid_net n" and ex: "exact r (enc_cidr n)"
  shows "\<exists>r'. fold_fields cidr_field (None, 0) r = Inr ((Some (net_addr n), of_nat (net_prefix n)), r') \<and>
     input r' = input r \<and> unat (position r') < 2 ^ 63"
proof -
  let ?a = "addr_bytes (net_addr n)" let ?l1 = "length (enc_bytes 1 ?a)"
  let ?r1 = "advance ?l1 r" let ?r2 = "advance (length (enc_int 2 (net_prefix n))) ?r1"
  have one: "at r (enc_bytes 1 ?a)" "small_file r" "exact ?r1 (enc_int 2 (net_prefix n))"
    using exact_append[of r "enc_bytes 1 ?a"] ex by (simp_all add: enc_cidr_def)
  have two: "at ?r1 (enc_int 2 (net_prefix n))" "exact ?r2 []"
    using exact_append[of ?r1 "enc_int 2 (net_prefix n)" "[]"] one(3) by simp_all
  note f1 = field_enc_bytes[OF one(1,2)]
  have "bytes_of 4 (field_range r 1 ?a) ?r1 = Inr (?a, ?r1)"
  proof -
    have "within (field_range r 1 ?a) (read_exact 4) ?r1 = Inr (?a, ?r1)"
    proof (rule within_exact)
      show "at (advance (header_len 1 ?a) r) ?a" using f1(2) by simp
      show "unat (position ?r1) < 2 ^ 63" using position_small[OF one(3)] .
      show "\<exists>r'. read_exact 4 inner = Inr (?a, r') \<and> input r' = input inner \<and> unat (position r') < 2 ^ 63"
        if "exact inner ?a" for inner
      proof -
        have "exact (advance 4 inner) []" using exact_append[of inner ?a "[]"] that by simp
        then show ?thesis
          using at_read[of inner ?a 4] that position_small[of "advance 4 inner" "[]"] by (simp add: exact_def)
      qed
    qed (use one in simp_all)
    then show ?thesis by (simp add: bytes_of_def field_range_def)
  qed
  then have b1: "cidr_field 1 (Bytes (field_range r 1 ?a)) ?r1 (None, 0) = Inr (Some (net_addr n), 0)"
    by (simp add: cidr_field_def addr_of_addr_bytes) (simp add: field_range_def)
  have f2: "field ?r1 = Inr (Some (2, Integer (of_nat (net_prefix n))), ?r2)"
    using field_enc_int[OF two(1)] assms(1) by (simp add: valid_net_def)
  have "fold_fields cidr_field (None, 0) r = fold_fields cidr_field (Some (net_addr n), 0) ?r1"
    using f1(1) b1 by (intro fold_fields_step) simp_all
  also have "\<dots> = fold_fields cidr_field (Some (net_addr n), of_nat (net_prefix n)) ?r2"
    by (rule fold_fields_step[OF f2]) (simp add: cidr_field_def)
  also have "\<dots> = Inr ((Some (net_addr n), of_nat (net_prefix n)), ?r2)"
    using exact_Nil[OF two(2)] by (rule fold_fields_end)
  finally show ?thesis using position_small[OF two(2)] by simp
qed

lemma decode_cidrs:
  assumes "ipnet_laws N" and "\<forall>n \<in> set ns. valid_net n"
    and "exact r (concat (map (\<lambda>n. enc_bytes 2 (enc_cidr n)) ns))"
  shows "\<exists>r'. fold_fields (ip_field N) acc r = Inr (acc @ map net_trunc ns, r') \<and> position r' = range_end r"
  using assms(2,3)
proof (induction ns arbitrary: acc r)
  case Nil
  then have "position r = range_end r" using exact_Nil by simp
  then show ?case by (simp add: fold_fields_end)
next
  case (Cons n ns)
  have v: "valid_net n" using Cons.prems(1) by simp
  let ?r = "advance (length (enc_bytes 2 (enc_cidr n))) r"
  have one: "at r (enc_bytes 2 (enc_cidr n))" "small_file r"
      "exact ?r (concat (map (\<lambda>n. enc_bytes 2 (enc_cidr n)) ns))"
    using exact_append[of r "enc_bytes 2 (enc_cidr n)"] Cons.prems(2) by simp_all
  note fld = field_enc_bytes[OF one(1,2)]
  have w: "within (field_range r 2 (enc_cidr n)) (fold_fields cidr_field (None, 0)) ?r =
      Inr ((Some (net_addr n), of_nat (net_prefix n)), ?r)"
  proof (rule within_exact)
    show "\<exists>r'. fold_fields cidr_field (None, 0) inner = Inr ((Some (net_addr n), of_nat (net_prefix n)), r') \<and>
        input r' = input inner \<and> unat (position r') < 2 ^ 63" if "exact inner (enc_cidr n)" for inner
      using decode_cidr[OF v that] .
  qed (use fld(2) one(2) position_small[OF one(3)] in simp_all)
  have p: "(of_nat (net_prefix n) :: u64) \<le> 32" "unat (of_nat (net_prefix n) :: u64) = net_prefix n"
    using v by (simp_all add: valid_net_def word_le_nat_alt unat_of_nat)
  have "cidr_network N (Some (net_addr n), of_nat (net_prefix n)) = Some (net_trunc n)"
    using p ipnet_laws.trunc[OF assms(1) v] by (cases n) (simp add: cidr_network_def)
  then have "ip_field N 2 (Bytes (field_range r 2 (enc_cidr n))) ?r acc = Inr (acc @ [net_trunc n])"
    using w by (simp add: ip_field_def)
  then have "fold_fields (ip_field N) acc r = fold_fields (ip_field N) (acc @ [net_trunc n]) ?r"
    using fld(1) by (intro fold_fields_step) simp_all
  then show ?case using Cons.IH[OF _ one(3), of "acc @ [net_trunc n]"] Cons.prems(1) by simp
qed

lemma decode_ip_geoip:
  assumes "ipnet_laws N" and "\<forall>n \<in> set ns. valid_net n" and "exact r (enc_geoip tag ns)"
  shows "\<exists>r'. decode_ip N r = Inr (aggregate_ipv4 N (map net_trunc ns), r')"
proof -
  let ?r = "advance (length (enc_bytes 1 tag)) r"
  have one: "at r (enc_bytes 1 tag)" "small_file r"
      "exact ?r (concat (map (\<lambda>n. enc_bytes 2 (enc_cidr n)) ns))"
    using exact_append[of r "enc_bytes 1 tag"] assms(3) by (simp_all add: enc_geoip_def)
  have fld: "field r = Inr (Some (1, Bytes (field_range r 1 tag)), ?r)"
    using field_enc_bytes(1)[OF one(1,2)] by simp
  have "fold_fields (ip_field N) [] r = fold_fields (ip_field N) [] ?r"
    by (rule fold_fields_step[OF fld]) (simp add: ip_field_def)
  then show ?thesis
    using decode_cidrs[OF assms(1,2) one(3), of "[]"] by (auto simp: decode_ip_def)
qed

lemma exact_in_file:
  assumes "length (before @ msg @ after) < 2 ^ 63"
  shows "exact \<lparr>input = before @ msg @ after, position = of_nat (length before),
    range_end = of_nat (length before) + of_nat (length msg)\<rparr> msg"
  using assms by (auto simp: exact_def at_def small_file_def unat_word_ariths(1) unat_of_nat)

section \<open>Properties\<close>

text \<open>C27: A country entry of \<^verbatim>\<open>geoip.dat\<close> that encodes a list of networks by the protobuf
  specification, at any place of the file, is decoded without error, and the decoded ranges match an
  address exactly when one of the encoded networks contains it.\<close>

theorem geoip_entry_roundtrip:
  assumes "ipnet_laws N" and "\<forall>n \<in> set networks. valid_net n"
    and "length (before @ enc_geoip tag networks @ after) < 2 ^ 63"
  shows "\<exists>ranges r.
     decode_ip N \<lparr>input = before @ enc_geoip tag networks @ after, position = of_nat (length before),
       range_end = of_nat (length before) + of_nat (length (enc_geoip tag networks))\<rparr> = Inr (ranges, r) \<and>
     (\<forall>ip. ranges_match N ranges ip \<longleftrightarrow> (\<exists>n \<in> set networks. contains_ip N n ip))"
proof -
  have al: "\<forall>n \<in> set (map net_trunc networks). aligned_net n"
    using assms(2) by (auto intro: aligned_trunc)
  have "contains_ip N (net_trunc n) ip = contains_ip N n ip" if "n \<in> set networks" for n ip
    using that assms(2) ipnet_laws.contains_ip[OF assms(1)] by simp
  then have "ranges_match N (aggregate_ipv4 N (map net_trunc networks)) ip \<longleftrightarrow>
      (\<exists>n \<in> set networks. contains_ip N n ip)" for ip
    using ipnet_laws.lookup_after_aggregate[OF assms(1) al] by auto
  then show ?thesis
    using decode_ip_geoip[OF assms(1,2) exact_in_file[OF assms(3)]] by blast
qed

theorem geoip_entry_roundtrip_witness:
  "\<exists>ranges r.
     decode_ip std_ipnet \<lparr>input = [0] @ enc_geoip [114, 117] [net 10 0 0 0 8, net 11 0 0 0 8] @ [],
       position = of_nat (length [0::u8]),
       range_end = of_nat (length [0::u8]) + of_nat (length (enc_geoip [114, 117] [net 10 0 0 0 8, net 11 0 0 0 8]))\<rparr> =
       Inr (ranges, r) \<and>
     (\<forall>ip. ranges_match std_ipnet ranges ip \<longleftrightarrow>
        (\<exists>n \<in> set [net 10 0 0 0 8, net 11 0 0 0 8]. contains_ip std_ipnet n ip))"
  by (rule geoip_entry_roundtrip[OF std.ipnet_laws_axioms])
    (simp_all add: valid_net_def net_def enc_geoip_def enc_bytes_def enc_cidr_def enc_int_def enc_varint.simps
      addr_bytes_def)

end
