(* ===== verification/Std_Char.thy ===== *)
theory Std_Char
  imports Std_Str
begin

text \<open>
  The character operations of Rust's \<^verbatim>\<open>str\<close> that look at Unicode scalar values: \<^verbatim>\<open>chars\<close>,
  \<^verbatim>\<open>trim\<close>, \<^verbatim>\<open>char::is_whitespace\<close>, \<^verbatim>\<open>char::is_control\<close>, and \<^verbatim>\<open>lines\<close>. A string is the list
  of its UTF-8 bytes; a character is the chunk of bytes that encodes it.
\<close>

section \<open>Definitions\<close>

definition utf8_cont :: "char \<Rightarrow> bool" where
  "utf8_cont c \<longleftrightarrow> 128 \<le> (of_char c :: nat) \<and> (of_char c :: nat) < 192"

function char_chunks :: "string \<Rightarrow> string list" where
  "char_chunks [] = []"
| "char_chunks (c # cs) = (c # takeWhile utf8_cont cs) # char_chunks (dropWhile utf8_cont cs)"
  by pat_completeness auto
termination
  by (relation "measure length") (auto simp: le_imp_less_Suc length_dropWhile_le)

fun code_point :: "string \<Rightarrow> nat" where
  "code_point [a] = of_char a"
| "code_point [a, b] = (of_char a - 192) * 64 + (of_char b - 128)"
| "code_point [a, b, c] = ((of_char a - 224) * 64 + (of_char b - 128)) * 64 + (of_char c - 128)"
| "code_point [a, b, c, d] =
     (((of_char a - 240) * 64 + (of_char b - 128)) * 64 + (of_char c - 128)) * 64 + (of_char d - 128)"
| "code_point _ = 0"

text \<open>The Unicode property White\_Space and the general category Cc.\<close>

definition is_whitespace :: "string \<Rightarrow> bool" where
  "is_whitespace chunk \<longleftrightarrow>
     (let k = code_point chunk in
      (9 \<le> k \<and> k \<le> 13) \<or> k = 32 \<or> k = 133 \<or> k = 160 \<or> k = 5760 \<or> (8192 \<le> k \<and> k \<le> 8202) \<or>
      k = 8232 \<or> k = 8233 \<or> k = 8239 \<or> k = 8287 \<or> k = 12288)"

definition is_control :: "string \<Rightarrow> bool" where
  "is_control chunk \<longleftrightarrow> (let k = code_point chunk in k < 32 \<or> (127 \<le> k \<and> k < 160))"

definition char_count :: "string \<Rightarrow> nat" where
  "char_count s = length (char_chunks s)"

definition any_control :: "string \<Rightarrow> bool" where
  "any_control s = list_ex is_control (char_chunks s)"

definition any_whitespace :: "string \<Rightarrow> bool" where
  "any_whitespace s = list_ex is_whitespace (char_chunks s)"

definition trim_start_chunks :: "string list \<Rightarrow> string list" where
  "trim_start_chunks css = dropWhile is_whitespace css"

definition trim_chunks :: "string list \<Rightarrow> string list" where
  "trim_chunks css = rev (trim_start_chunks (rev (trim_start_chunks css)))"

definition trim :: "string \<Rightarrow> string" where
  "trim s = concat (trim_chunks (char_chunks s))"

text \<open>\<^verbatim>\<open>str::lines\<close>: split at line feeds, without the final empty piece and a carriage return.\<close>

definition strip_cr :: "string \<Rightarrow> string" where
  "strip_cr s = (if s \<noteq> [] \<and> last s = CHR 0x0D then butlast s else s)"

text \<open>A carriage return is removed only before a line feed, so not at the end of the text.\<close>

definition lines :: "string \<Rightarrow> string list" where
  "lines s =
     (let ps = split_char (CHR 0x0A) s
      in map strip_cr (butlast ps) @ (if last ps = [] then [] else [last ps]))"

text \<open>\<^verbatim>\<open>split_whitespace\<close> on the chunks of a string.\<close>

fun words_of_chunks :: "string \<Rightarrow> string list \<Rightarrow> string list" where
  "words_of_chunks acc [] = (if acc = [] then [] else [acc])"
| "words_of_chunks acc (c # cs) =
     (if is_whitespace c then (if acc = [] then words_of_chunks [] cs else acc # words_of_chunks [] cs)
      else words_of_chunks (acc @ c) cs)"

definition split_whitespace :: "string \<Rightarrow> string list" where
  "split_whitespace s = words_of_chunks [] (char_chunks s)"

section \<open>Chunks\<close>

lemma concat_char_chunks [simp]: "concat (char_chunks s) = s"
  by (induction s rule: char_chunks.induct) auto

definition wf_chunks :: "string list \<Rightarrow> bool" where
  "wf_chunks css \<longleftrightarrow> (\<forall>cs \<in> set css. cs \<noteq> [] \<and> list_all utf8_cont (tl cs)) \<and>
     (\<forall>cs \<in> set (tl css). \<not> utf8_cont (hd cs))"

lemma hd_chunk_dropWhile: "\<forall>cs \<in> set (char_chunks (dropWhile utf8_cont s)). \<not> utf8_cont (hd cs)"
proof (induction "length s" arbitrary: s rule: less_induct)
  case less
  show ?case
  proof (cases "dropWhile utf8_cont s")
    case (Cons c cs)
    have "length cs < length s" using Cons length_dropWhile_le[of utf8_cont s] by simp
    moreover have "\<not> utf8_cont c" using Cons by (metis hd_dropWhile list.distinct(1) list.sel(1))
    ultimately show ?thesis using less[of cs] Cons by simp
  next
    case Nil
    then show ?thesis by (simp only: char_chunks.simps) simp
  qed
qed

lemma wf_char_chunks: "wf_chunks (char_chunks s)"
proof -
  have "\<forall>cs \<in> set (char_chunks s). cs \<noteq> [] \<and> list_all utf8_cont (tl cs)"
    by (induction s rule: char_chunks.induct) (auto simp: list_all_iff dest: set_takeWhileD)
  then show ?thesis using hd_chunk_dropWhile by (cases s) (auto simp: wf_chunks_def)
qed

lemma chunks_after: "(\<forall>cs \<in> set css. cs \<noteq> [] \<and> \<not> utf8_cont (hd cs)) \<Longrightarrow>
    takeWhile utf8_cont (concat css) = [] \<and> dropWhile utf8_cont (concat css) = concat css"
  by (cases css) (auto simp: neq_Nil_conv)

lemma char_chunks_concat: "wf_chunks css \<Longrightarrow> char_chunks (concat css) = css"
proof (induction css)
  case (Cons cs css)
  obtain c rest where cs: "cs = c # rest" "list_all utf8_cont rest"
    using Cons.prems by (cases cs) (auto simp: wf_chunks_def)
  have tlc: "\<forall>cs \<in> set css. cs \<noteq> [] \<and> \<not> utf8_cont (hd cs)" using Cons.prems by (auto simp: wf_chunks_def)
  have "wf_chunks css" using Cons.prems by (cases css) (auto simp: wf_chunks_def)
  moreover have "takeWhile utf8_cont (rest @ concat css) = rest"
    "dropWhile utf8_cont (rest @ concat css) = concat css"
    using cs(2) chunks_after[OF tlc]
    by (simp_all add: list_all_iff takeWhile_append2 dropWhile_append2)
  ultimately show ?case using Cons.IH cs(1) by simp
qed simp

lemma wf_chunks_trim: "wf_chunks css \<Longrightarrow> wf_chunks (trim_chunks css)"
proof -
  assume wf: "wf_chunks css"
  obtain us where us: "css = us @ trim_start_chunks css"
    by (metis takeWhile_dropWhile_id trim_start_chunks_def)
  have "wf_chunks (trim_start_chunks css)"
  proof (cases us)
    case Nil
    then show ?thesis using wf us by simp
  next
    case (Cons u us')
    then have "tl css = us' @ trim_start_chunks css" using us by (metis append_Cons list.sel(3))
    then have "set (trim_start_chunks css) \<subseteq> set (tl css)" by simp
    moreover have "set (tl css) \<subseteq> set css" "set (tl (trim_start_chunks css)) \<subseteq> set (trim_start_chunks css)"
      by (cases css; auto) (cases "trim_start_chunks css"; auto)
    ultimately show ?thesis using wf unfolding wf_chunks_def by blast
  qed
  moreover have "\<exists>vs. trim_start_chunks css = trim_chunks css @ vs"
    by (metis rev_append rev_rev_ident takeWhile_dropWhile_id trim_chunks_def trim_start_chunks_def)
  ultimately show ?thesis by (cases "trim_chunks css") (auto simp: wf_chunks_def)
qed

lemma dropWhile_idem: "dropWhile P (dropWhile P xs) = dropWhile P xs"
  by (induction xs) auto

lemma trim_chunks_hd: "trim_chunks css \<noteq> [] \<Longrightarrow> \<not> is_whitespace (hd (trim_chunks css))"
proof -
  assume ne: "trim_chunks css \<noteq> []"
  obtain vs where vs: "trim_start_chunks css = trim_chunks css @ vs"
    by (metis rev_append rev_rev_ident takeWhile_dropWhile_id trim_chunks_def trim_start_chunks_def)
  then have "hd (trim_chunks css) = hd (trim_start_chunks css)" "trim_start_chunks css \<noteq> []" using ne by auto
  then show ?thesis using hd_dropWhile unfolding trim_start_chunks_def by metis
qed

lemma trim_chunks_idem: "trim_chunks (trim_chunks css) = trim_chunks css"
proof -
  have "trim_start_chunks (trim_chunks css) = trim_chunks css"
    using trim_chunks_hd[of css] by (cases "trim_chunks css") (auto simp: trim_start_chunks_def)
  moreover have "trim_start_chunks (rev (trim_chunks css)) = rev (trim_chunks css)"
    by (simp add: trim_chunks_def trim_start_chunks_def dropWhile_idem)
  ultimately show ?thesis by (simp add: trim_chunks_def[of "trim_chunks css"])
qed

lemma char_chunks_trim: "char_chunks (trim s) = trim_chunks (char_chunks s)"
  unfolding trim_def by (intro char_chunks_concat wf_chunks_trim wf_char_chunks)

lemma trim_idem [simp]: "trim (trim s) = trim s"
  unfolding trim_def[of "trim s"] char_chunks_trim trim_chunks_idem by (simp add: trim_def)

section \<open>ASCII\<close>

definition ascii :: "char \<Rightarrow> bool" where
  "ascii c \<longleftrightarrow> (of_char c :: nat) < 128"

lemma char_chunks_ascii: "list_all ascii s \<Longrightarrow> char_chunks s = map (\<lambda>c. [c]) s"
proof (induction s)
  case (Cons c s)
  have "takeWhile utf8_cont s = [] \<and> dropWhile utf8_cont s = s"
    using Cons.prems by (cases s) (auto simp: ascii_def utf8_cont_def)
  then show ?case using Cons by simp
qed simp

definition ascii_space :: "char \<Rightarrow> bool" where
  "ascii_space c \<longleftrightarrow> is_whitespace [c]"

lemma ascii_space_iff: "ascii c \<Longrightarrow> ascii_space c \<longleftrightarrow>
    (9 \<le> (of_char c :: nat) \<and> (of_char c :: nat) \<le> 13) \<or> of_char c = (32 :: nat)"
  by (auto simp: ascii_space_def is_whitespace_def Let_def ascii_def)

lemma dropWhile_map_chunk: "dropWhile is_whitespace (map (\<lambda>c. [c]) s) = map (\<lambda>c. [c]) (dropWhile ascii_space s)"
  by (induction s) (auto simp: ascii_space_def)

lemma concat_singletons [simp]: "concat (map (\<lambda>c. [c]) s) = s"
  by (induction s) auto

lemma trim_ascii: "list_all ascii s \<Longrightarrow> trim s = rev (dropWhile ascii_space (rev (dropWhile ascii_space s)))"
  by (simp add: trim_def trim_chunks_def trim_start_chunks_def char_chunks_ascii dropWhile_map_chunk rev_map)

text \<open>Text without white space at its ends is left alone.\<close>

lemma trim_none:
  assumes "list_all ascii s" and "s = [] \<or> (\<not> ascii_space (hd s) \<and> \<not> ascii_space (last s))"
  shows "trim s = s"
proof (cases s)
  case (Cons c cs)
  have a: "dropWhile ascii_space s = s" using assms(2) Cons by auto
  have "\<not> ascii_space (hd (rev s))" using assms(2) Cons by (simp only: hd_rev) simp
  then have "dropWhile ascii_space (rev s) = rev s" by (cases "rev s") simp_all
  then show ?thesis using a by (simp add: trim_ascii[OF assms(1)])
qed (simp add: trim_def trim_chunks_def trim_start_chunks_def)

lemma any_whitespace_ascii: "list_all ascii s \<Longrightarrow> any_whitespace s \<longleftrightarrow> (\<exists>c \<in> set s. ascii_space c)"
  by (simp add: any_whitespace_def char_chunks_ascii list_ex_iff ascii_space_def)

lemma char_count_ascii: "list_all ascii s \<Longrightarrow> char_count s = length s"
  by (simp add: char_count_def char_chunks_ascii)

end
