(* ===== verification/Config.thy ===== *)
theory Config
  imports Model Std_Char Relay_Codec Geo_Ranges
begin

text \<open>
  Validation and normalisation of the configuration (\<^verbatim>\<open>gofro-agent/src/config.rs\<close>): server
  profiles, the WireGuard profile parser, routing rules, device exclusions and the loaded file; the
  check of an SSH host key is \<^verbatim>\<open>parse_host_key\<close> of \<^verbatim>\<open>gofro-agent/src/managed/pins.rs\<close>.

  What the code takes from outside is the record \<open>config_env\<close>: Unicode lower-casing and IDNA, and the
  text form of IPv6 addresses.
\<close>

unbundle bit_operations_syntax

section \<open>Environment and errors\<close>

record config_env =
  env_net :: ipnet
  to_lowercase :: "string \<Rightarrow> string"
  domain_to_ascii :: "string \<Rightarrow> string option"
  canonical_ipv6 :: "string \<Rightarrow> bool"

datatype config_error =
    Server_Name | Emoji | Management | Host_Key | Address_Syntax | Address_Range | Wireguard_Key
  | Endpoint_Text | Endpoint_Format | Ipv6_Endpoint
  | Profile_Size | Profile_Section string | Profile_Syntax | Profile_Empty string | Profile_Outside string
  | Profile_Key string | Profile_Twice string | Profile_Missing string | Allowed_Ips
  | Keepalive_Syntax | Keepalive_Value | Mtu_Syntax | Mtu_Value
  | Too_Many_Rules | Order_Length | Order_Range | Order_Twice | Rule_Name | Domain_Name | Geo_Tag
  | Cidr_Syntax | Fake_Reserved | Exclusion_Count
  | Config_Unreadable | Config_Json | Config_Unsafe

definition MAX_RULES :: nat where "MAX_RULES = 128"
definition MAX_PROFILE_SIZE :: nat where "MAX_PROFILE_SIZE = 4096"
definition ALLOWED_IPS :: string where "ALLOWED_IPS = ''0.0.0.0/0''"
definition KEEPALIVE :: nat where "KEEPALIVE = 10"
definition PROFILE_MTU :: nat where "PROFILE_MTU = unat TUNNEL_MTU"

section \<open>Server profiles\<close>

definition validate_server_name :: "string \<Rightarrow> config_error + unit" where
  "validate_server_name name =
     (if name = [] \<or> 60 < char_count name \<or> any_control name then Inl Server_Name else Inr ())"

definition normalize_server_name :: "string \<Rightarrow> config_error + string" where
  "normalize_server_name name =
     (let name = trim name in and_then (validate_server_name name) (\<lambda>_. Inr name))"

definition validate_emoji :: "string \<Rightarrow> config_error + unit" where
  "validate_emoji emoji = (if 32 < length emoji \<or> any_control emoji then Inl Emoji else Inr ())"

definition canonical_ip :: "config_env \<Rightarrow> string \<Rightarrow> bool" where
  "canonical_ip E host \<longleftrightarrow>
     (case parse_ipv4 host of Some a \<Rightarrow> show_ipv4 a = host | None \<Rightarrow> canonical_ipv6 E host)"

definition host_key_char :: "char \<Rightarrow> bool" where
  "host_key_char c \<longleftrightarrow> ascii_alphanumeric c \<or> c = CHR ''+'' \<or> c = CHR ''/'' \<or> c = CHR ''=''"

definition parse_host_key :: "string \<Rightarrow> config_error + unit" where
  "parse_host_key value =
     (case split_whitespace value of
        [kind, key] \<Rightarrow>
          if kind \<noteq> ''ssh-ed25519'' \<or> length key \<noteq> 68 \<or> strip_prefix ''AAAAC3NzaC1lZDI1NTE5AAAAI'' key = None \<or>
             \<not> list_all host_key_char key
          then Inl Host_Key else Inr ()
      | _ \<Rightarrow> Inl Host_Key)"

definition validate_management :: "config_env \<Rightarrow> managed_server \<Rightarrow> config_error + unit" where
  "validate_management E m =
     (if \<not> canonical_ip E (ms_host m) \<or> ms_port m = 0 then Inl Management
      else parse_host_key (ms_host_key m))"

definition tunnel_octets_ok :: "ipv4net \<Rightarrow> bool" where
  "tunnel_octets_ok n \<longleftrightarrow>
     (case ip_octets (net_addr n) of
        [a, b, c, d] \<Rightarrow> net_prefix n = 32 \<and> a = 10 \<and> b = 202 \<and> c = 0 \<and> 2 \<le> d \<and> d \<le> 254
      | _ \<Rightarrow> False)"

definition normalize_tunnel_address :: "config_env \<Rightarrow> string \<Rightarrow> config_error + string" where
  "normalize_tunnel_address E text =
     and_then (ok_or (net_parse (env_net E) text) Address_Syntax) (\<lambda>n.
     if tunnel_octets_ok n then Inr (net_show (env_net E) n) else Inl Address_Range)"

definition base64_char :: "char \<Rightarrow> bool" where
  "base64_char c \<longleftrightarrow> ascii_alphanumeric c \<or> c = CHR ''+'' \<or> c = CHR ''/''"

definition wireguard_key :: "string \<Rightarrow> bool" where
  "wireguard_key key \<longleftrightarrow> length key = 44 \<and> key ! 43 = CHR ''='' \<and> list_all base64_char (take 43 key)"

definition validate_wireguard_key :: "string \<Rightarrow> config_error + unit" where
  "validate_wireguard_key key = ensure (wireguard_key key) Wireguard_Key"

definition validate_endpoint :: "string \<Rightarrow> config_error + unit" where
  "validate_endpoint endpoint =
     (if endpoint = [] \<or> 255 < length endpoint \<or> any_whitespace endpoint then Inl Endpoint_Text
      else and_then (ok_or (rsplit_once (CHR '':'') endpoint) Endpoint_Format) (\<lambda>(host, port).
        if host = [] \<or> (case parse_uint 65536 port of Some p \<Rightarrow> p = 0 | None \<Rightarrow> True)
        then Inl Endpoint_Format else Inr ()))"

definition validate_saved_server :: "config_env \<Rightarrow> server_profile \<Rightarrow> config_error + unit" where
  "validate_saved_server E s =
     and_then (validate_server_name (sp_name s)) (\<lambda>_.
     and_then (validate_emoji (sp_emoji s)) (\<lambda>_.
     and_then (validate_endpoint (sp_endpoint s)) (\<lambda>_.
     and_then (validate_wireguard_key (sp_public_key s)) (\<lambda>_.
     and_then (case client_tunnel_address s of
         None \<Rightarrow> Inr () | Some a \<Rightarrow> and_then (normalize_tunnel_address E a) (\<lambda>_. Inr ())) (\<lambda>_.
     and_then (case client_private_key s of None \<Rightarrow> Inr () | Some k \<Rightarrow> validate_wireguard_key k) (\<lambda>_.
     (case management s of None \<Rightarrow> Inr () | Some m \<Rightarrow> validate_management E m)))))))"

definition validate_server :: "config_env \<Rightarrow> server_profile \<Rightarrow> config_error + unit" where
  "validate_server E s =
     and_then (validate_saved_server E s) (\<lambda>_.
       case rsplit_once (CHR '':'') (sp_endpoint s) of
         Some (host, _) \<Rightarrow>
           if list_ex (\<lambda>c. c \<in> {CHR '':'', CHR ''['', CHR '']''}) host then Inl Ipv6_Endpoint else Inr ()
       | None \<Rightarrow> Inr ())"

section \<open>WireGuard profiles\<close>

datatype profile_section = No_Section | Interface_Section | Peer_Section

record profile_slots =
  ps_section :: profile_section
  ps_private_key :: "string option"
  ps_address :: "string option"
  ps_mtu :: "string option"
  ps_public_key :: "string option"
  ps_allowed_ips :: "string option"
  ps_endpoint :: "string option"
  ps_keepalive :: "string option"

definition empty_slots :: profile_slots where
  "empty_slots = \<lparr>ps_section = No_Section, ps_private_key = None, ps_address = None, ps_mtu = None,
     ps_public_key = None, ps_allowed_ips = None, ps_endpoint = None, ps_keepalive = None\<rparr>"

definition set_profile_value :: "string option \<Rightarrow> string \<Rightarrow> string \<Rightarrow> config_error + string option" where
  "set_profile_value slot val key = (if slot = None then Inr (Some val) else Inl (Profile_Twice key))"

definition required_profile_value :: "string option \<Rightarrow> string \<Rightarrow> config_error + string" where
  "required_profile_value slot key = ok_or slot (Profile_Missing key)"

definition assign_slot :: "profile_slots \<Rightarrow> string \<Rightarrow> string \<Rightarrow> config_error + profile_slots" where
  "assign_slot s key val =
     (case ps_section s of
        Interface_Section \<Rightarrow>
          if key = ''PrivateKey'' then
            and_then (set_profile_value (ps_private_key s) val key) (\<lambda>v. Inr (s\<lparr>ps_private_key := v\<rparr>))
          else if key = ''Address'' then
            and_then (set_profile_value (ps_address s) val key) (\<lambda>v. Inr (s\<lparr>ps_address := v\<rparr>))
          else if key = ''MTU'' then
            and_then (set_profile_value (ps_mtu s) val key) (\<lambda>v. Inr (s\<lparr>ps_mtu := v\<rparr>))
          else Inl (Profile_Key key)
      | Peer_Section \<Rightarrow>
          if key = ''PublicKey'' then
            and_then (set_profile_value (ps_public_key s) val key) (\<lambda>v. Inr (s\<lparr>ps_public_key := v\<rparr>))
          else if key = ''AllowedIPs'' then
            and_then (set_profile_value (ps_allowed_ips s) val key) (\<lambda>v. Inr (s\<lparr>ps_allowed_ips := v\<rparr>))
          else if key = ''Endpoint'' then
            and_then (set_profile_value (ps_endpoint s) val key) (\<lambda>v. Inr (s\<lparr>ps_endpoint := v\<rparr>))
          else if key = ''PersistentKeepalive'' then
            and_then (set_profile_value (ps_keepalive s) val key) (\<lambda>v. Inr (s\<lparr>ps_keepalive := v\<rparr>))
          else Inl (Profile_Key key)
      | No_Section \<Rightarrow> Inl (Profile_Outside key))"

definition profile_line :: "profile_slots \<Rightarrow> string \<Rightarrow> config_error + profile_slots" where
  "profile_line s raw_line =
     (let line = trim raw_line in
      if line = [] \<or> hd line = CHR ''#'' \<or> hd line = CHR '';'' then Inr s
      else if hd line = CHR ''['' \<and> last line = CHR '']'' then
        (if line = ''[Interface]'' then Inr (s\<lparr>ps_section := Interface_Section\<rparr>)
         else if line = ''[Peer]'' then Inr (s\<lparr>ps_section := Peer_Section\<rparr>)
         else Inl (Profile_Section line))
      else and_then (ok_or (split_once (CHR ''='') line) Profile_Syntax) (\<lambda>(key, val).
        let key = trim key; val = trim val in
        if val = [] then Inl (Profile_Empty key) else assign_slot s key val))"

primrec profile_lines :: "string list \<Rightarrow> profile_slots \<Rightarrow> config_error + profile_slots" where
  "profile_lines [] s = Inr s"
| "profile_lines (l # ls) s = and_then (profile_line s l) (profile_lines ls)"

definition finish_profile :: "config_env \<Rightarrow> string \<Rightarrow> profile_slots \<Rightarrow> config_error + server_profile" where
  "finish_profile E name s =
     and_then (required_profile_value (ps_address s) ''Address'') (\<lambda>a.
     and_then (normalize_tunnel_address E a) (\<lambda>client_address.
     and_then (required_profile_value (ps_allowed_ips s) ''AllowedIPs'') (\<lambda>ips.
     let ips = join '','' (map trim (split_char (CHR '','') ips)) in
     and_then (ensure (ips = ALLOWED_IPS) Allowed_Ips) (\<lambda>_.
     and_then (required_profile_value (ps_keepalive s) ''PersistentKeepalive'') (\<lambda>k.
     and_then (ok_or (parse_uint 65536 k) Keepalive_Syntax) (\<lambda>k.
     and_then (ensure (k = KEEPALIVE) Keepalive_Value) (\<lambda>_.
     and_then (required_profile_value (ps_mtu s) ''MTU'') (\<lambda>m.
     and_then (ok_or (parse_uint 65536 m) Mtu_Syntax) (\<lambda>m.
     and_then (ensure (m \<in> {PROFILE_MTU, 1280, 1360}) Mtu_Value) (\<lambda>_.
     and_then (required_profile_value (ps_endpoint s) ''Endpoint'') (\<lambda>endpoint.
     and_then (required_profile_value (ps_public_key s) ''PublicKey'') (\<lambda>public_key.
     and_then (required_profile_value (ps_private_key s) ''PrivateKey'') (\<lambda>private_key.
     and_then (normalize_server_name name) (\<lambda>name.
     let server = \<lparr>sp_name = name, sp_emoji = [], sp_endpoint = endpoint, sp_public_key = public_key,
           client_tunnel_address = Some client_address, client_private_key = Some private_key,
           management = None\<rparr> in
     and_then (validate_server E server) (\<lambda>_. Inr server)))))))))))))))"

definition parse_server_profile :: "config_env \<Rightarrow> string \<Rightarrow> string \<Rightarrow> config_error + server_profile" where
  "parse_server_profile E name profile =
     (if MAX_PROFILE_SIZE < length profile then Inl Profile_Size
      else and_then (profile_lines (lines profile) empty_slots) (finish_profile E name))"

section \<open>Routing rules\<close>

definition normalize_rule_name :: "string \<Rightarrow> config_error + string" where
  "normalize_rule_name name =
     (let name = trim name in
      if name = [] \<or> 64 < char_count name \<or> any_control name then Inl Rule_Name else Inr name)"

definition trim_end_dots :: "string \<Rightarrow> string" where
  "trim_end_dots s = rev (dropWhile (\<lambda>c. c = CHR ''.'') (rev s))"

definition label_ok :: "string \<Rightarrow> bool" where
  "label_ok label \<longleftrightarrow> label \<noteq> [] \<and> length label \<le> 63 \<and> hd label \<noteq> CHR ''-'' \<and> last label \<noteq> CHR ''-'' \<and>
     list_all (\<lambda>c. ascii_alphanumeric c \<or> c = CHR ''-'') label"

definition domain_ok :: "string \<Rightarrow> bool" where
  "domain_ok d \<longleftrightarrow> d \<noteq> [] \<and> length d \<le> 253 \<and> list_all label_ok (split_char (CHR ''.'') d)"

definition normalize_domain :: "config_env \<Rightarrow> string \<Rightarrow> config_error + string" where
  "normalize_domain E text =
     (let text = to_lowercase E (trim_end_dots (trim text)) in
      and_then (ok_or (domain_to_ascii E text) Domain_Name) (\<lambda>d.
        if domain_ok d then Inr d else Inl Domain_Name))"

definition normalize_tag :: "string \<Rightarrow> config_error + string" where
  "normalize_tag text =
     (let tag = to_ascii_lowercase (trim text) in
      if tag = [] \<or> 64 < length tag \<or>
         \<not> list_all (\<lambda>c. ascii_alphanumeric c \<or> c = CHR ''!'' \<or> c = CHR ''-'' \<or> c = CHR ''_'') tag
      then Inl Geo_Tag else Inr tag)"

text \<open>The check that the rule order names each rule exactly once.\<close>

definition mark_seen :: "nat \<Rightarrow> bool list \<Rightarrow> config_error + bool list" where
  "mark_seen i seen =
     (if length seen \<le> i then Inl Order_Range
      else if seen ! i then Inl Order_Twice else Inr (seen[i := True]))"

primrec check_order :: "rule_ref list \<Rightarrow> bool list \<Rightarrow> bool list \<Rightarrow> config_error + unit" where
  "check_order [] domains ips = Inr ()"
| "check_order (reference # rest) domains ips =
     (case reference of
        Domain_Ref i \<Rightarrow> and_then (mark_seen i domains) (\<lambda>domains. check_order rest domains ips)
      | Ip_Ref i \<Rightarrow> and_then (mark_seen i ips) (\<lambda>ips. check_order rest domains ips))"

definition FAKE_DNS_NET :: ipv4net where "FAKE_DNS_NET = net 198 18 0 0 15"

definition normalize_domain_rule :: "config_env \<Rightarrow> domain_rule \<Rightarrow> config_error + domain_rule" where
  "normalize_domain_rule E rule =
     and_then (normalize_rule_name (dr_name rule)) (\<lambda>name.
     and_then (case dr_matcher rule of
         Exact v \<Rightarrow> and_then (normalize_domain E v) (\<lambda>v. Inr (Exact v))
       | Suffix v \<Rightarrow> and_then (normalize_domain E v) (\<lambda>v. Inr (Suffix v))
       | GeoSite v \<Rightarrow> and_then (normalize_tag v) (\<lambda>v. Inr (GeoSite v))) (\<lambda>matcher.
     Inr (rule\<lparr>dr_name := name, dr_matcher := matcher\<rparr>)))"

definition normalize_cidr :: "ipnet \<Rightarrow> string \<Rightarrow> config_error + string" where
  "normalize_cidr N text =
     and_then (ok_or (net_parse N text) Cidr_Syntax) (\<lambda>n.
     if contains_ip N n (network N FAKE_DNS_NET) \<or> contains_ip N FAKE_DNS_NET (network N n)
     then Inl Fake_Reserved else Inr (net_show N (trunc N n)))"

definition normalize_ip_rule :: "config_env \<Rightarrow> ip_rule \<Rightarrow> config_error + ip_rule" where
  "normalize_ip_rule E rule =
     and_then (normalize_rule_name (ir_name rule)) (\<lambda>name.
     and_then (case ir_matcher rule of
         Cidr v \<Rightarrow> and_then (normalize_cidr (env_net E) v) (\<lambda>v. Inr (Cidr v))
       | GeoIp v \<Rightarrow> and_then (normalize_tag v) (\<lambda>v. Inr (GeoIp v))) (\<lambda>matcher.
     Inr (rule\<lparr>ir_name := name, ir_matcher := matcher\<rparr>)))"

definition normalize_routing :: "config_env \<Rightarrow> routing_config \<Rightarrow> config_error + routing_config" where
  "normalize_routing E c =
     (if MAX_RULES < length (domain_rules c) \<or> MAX_RULES < length (ip_rules c) then Inl Too_Many_Rules
      else and_then
        (case rule_order c of
           None \<Rightarrow> Inr ()
         | Some order \<Rightarrow>
             and_then (ensure (length order = length (domain_rules c) + length (ip_rules c)) Order_Length) (\<lambda>_.
               check_order order (replicate (length (domain_rules c)) False)
                 (replicate (length (ip_rules c)) False))) (\<lambda>_.
        and_then (collect_results (map (normalize_domain_rule E) (domain_rules c))) (\<lambda>ds.
        and_then (collect_results (map (normalize_ip_rule E) (ip_rules c))) (\<lambda>is.
          Inr (c\<lparr>domain_rules := ds, ip_rules := is\<rparr>)))))"

section \<open>The configuration file\<close>

text \<open>\<^verbatim>\<open>sort_unstable\<close> then \<^verbatim>\<open>dedup\<close>, in the byte order of the addresses.\<close>

fun mac_le :: "mac_address \<Rightarrow> mac_address \<Rightarrow> bool" where
  "mac_le [] bs = True"
| "mac_le (a # as) [] = False"
| "mac_le (a # as) (b # bs) = (a < b \<or> (a = b \<and> mac_le as bs))"

definition normalize_exclusions :: "mac_address list \<Rightarrow> config_error + mac_address list" where
  "normalize_exclusions macs =
     (let macs = remdups_adj (sort_by mac_le macs) in
      and_then (ensure (length macs \<le> 256) Exclusion_Count) (\<lambda>_. Inr macs))"

definition normalize_config :: "config_env \<Rightarrow> controller_config \<Rightarrow> config_error + controller_config" where
  "normalize_config E c =
     and_then (collect_results (map (\<lambda>s.
         and_then (normalize_server_name (sp_name s)) (\<lambda>name.
         let s = s\<lparr>sp_name := name\<rparr> in
         and_then (validate_saved_server E s) (\<lambda>_. Inr s))) (servers c))) (\<lambda>ss.
     and_then (normalize_routing E (routing c)) (\<lambda>rt.
     and_then (normalize_exclusions (device_exclusions c)) (\<lambda>macs.
     Inr (c\<lparr>servers := ss, routing := rt, device_exclusions := macs\<rparr>))))"

text \<open>\<^verbatim>\<open>load\<close>: the text of the file, if it can be read, and \<^verbatim>\<open>serde_json\<close> as a function.\<close>

definition load :: "config_env \<Rightarrow> (string \<Rightarrow> controller_config option) \<Rightarrow> string option \<Rightarrow>
    config_error + controller_config" where
  "load E from_json text =
     and_then (ok_or text Config_Unreadable) (\<lambda>t.
     and_then (ok_or (from_json t) Config_Json) (normalize_config E))"

record file_meta =
  fm_is_file :: bool
  fm_nlink :: nat
  fm_mode :: u32
  fm_uid :: nat

definition load_committed :: "config_env \<Rightarrow> (string \<Rightarrow> controller_config option) \<Rightarrow> file_meta option \<Rightarrow>
    file_meta option \<Rightarrow> string option \<Rightarrow> config_error + controller_config" where
  "load_committed E from_json meta parent text =
     and_then (ok_or meta Config_Unreadable) (\<lambda>m.
     and_then (ok_or parent Config_Unreadable) (\<lambda>p.
     and_then (ensure (fm_is_file m \<and> fm_nlink m = 1 \<and> fm_mode m AND 18 = 0 \<and> fm_uid m = fm_uid p) Config_Unsafe) (\<lambda>_.
     load E from_json text)))"

section \<open>The rule order\<close>

definition all_refs :: "nat \<Rightarrow> nat \<Rightarrow> rule_ref set" where
  "all_refs d i = Domain_Ref ` {..<d} \<union> Ip_Ref ` {..<i}"

definition unseen :: "bool list \<Rightarrow> bool list \<Rightarrow> rule_ref set" where
  "unseen ds is = Domain_Ref ` {k. k < length ds \<and> \<not> ds ! k} \<union> Ip_Ref ` {k. k < length is \<and> \<not> is ! k}"

lemma mark_seen_ok: "mark_seen i seen = Inr seen' \<longleftrightarrow> i < length seen \<and> \<not> seen ! i \<and> seen' = seen[i := True]"
  by (auto simp: mark_seen_def)

lemma check_order_ok:
  "check_order order ds is = Inr () \<Longrightarrow> distinct order \<and> set order \<subseteq> unseen ds is"
proof (induction order arbitrary: ds "is")
  case (Cons reference rest)
  show ?case
  proof (cases reference)
    case (Domain_Ref i)
    then have i: "i < length ds" "\<not> ds ! i" and rest: "check_order rest (ds[i := True]) is = Inr ()"
      using Cons.prems by (auto simp: mark_seen_ok)
    have "unseen (ds[i := True]) is = unseen ds is - {Domain_Ref i}"
      using i(1) by (auto simp: unseen_def nth_list_update)
    moreover have "Domain_Ref i \<in> unseen ds is" using i by (simp add: unseen_def)
    ultimately show ?thesis using Cons.IH[OF rest] Domain_Ref by auto
  next
    case (Ip_Ref i)
    then have i: "i < length is" "\<not> is ! i" and rest: "check_order rest ds (is[i := True]) = Inr ()"
      using Cons.prems by (auto simp: mark_seen_ok)
    have "unseen ds (is[i := True]) = unseen ds is - {Ip_Ref i}"
      using i(1) by (auto simp: unseen_def nth_list_update)
    moreover have "Ip_Ref i \<in> unseen ds is" using i by (simp add: unseen_def)
    ultimately show ?thesis using Cons.IH[OF rest] Ip_Ref by auto
  qed
qed simp

lemma unseen_fresh: "unseen (replicate d False) (replicate i False) = all_refs d i"
  by (auto simp: unseen_def all_refs_def)

lemma card_all_refs: "finite (all_refs d i) \<and> card (all_refs d i) = d + i"
proof -
  have "card (Domain_Ref ` {..<d}) = d" "card (Ip_Ref ` {..<i}) = i"
    by (simp_all add: card_image inj_on_def)
  moreover have "Domain_Ref ` {..<d} \<inter> Ip_Ref ` {..<i} = {}" by auto
  ultimately show ?thesis by (simp add: all_refs_def card_Un_disjoint)
qed

lemma order_permutation:
  assumes "check_order order (replicate d False) (replicate i False) = Inr ()" and "length order = d + i"
  shows "distinct order \<and> set order = all_refs d i"
proof -
  have o: "distinct order" "set order \<subseteq> all_refs d i"
    using check_order_ok[OF assms(1)] unseen_fresh by auto
  moreover have "card (set order) = card (all_refs d i)"
    using distinct_card[OF o(1)] assms(2) card_all_refs[of d i] by simp
  ultimately show ?thesis using card_subset_eq card_all_refs by blast
qed

section \<open>Normal forms\<close>

locale config_laws =
  fixes E :: config_env
  assumes net_laws: "ipnet_laws (env_net E)"
    and idna_stable: "domain_to_ascii E s = Some d \<Longrightarrow> domain_ok d \<Longrightarrow>
          to_lowercase E d = d \<and> domain_to_ascii E d = Some d"

definition rule_name_ok :: "string \<Rightarrow> bool" where
  "rule_name_ok name \<longleftrightarrow> trim name = name \<and> name \<noteq> [] \<and> char_count name \<le> 64 \<and> \<not> any_control name"

lemma normalize_rule_name_ok: "normalize_rule_name name = Inr n \<longleftrightarrow> n = trim name \<and> rule_name_ok n"
  by (auto simp: normalize_rule_name_def rule_name_ok_def Let_def)

lemma ascii_upper_lower: "ascii_upper (to_ascii_lower_char c) = False"
  by (auto simp: to_ascii_lower_char_def ascii_upper_def take_bit_eq_mod)

lemma to_ascii_lowercase_idem [simp]: "to_ascii_lowercase (to_ascii_lowercase s) = to_ascii_lowercase s"
  by (simp add: to_ascii_lowercase_def to_ascii_lower_char_def[of "to_ascii_lower_char _"] ascii_upper_lower)

lemma label_chars_ascii: "list_all (\<lambda>c. ascii_alphanumeric c \<or> c \<in> S) s \<Longrightarrow> \<forall>c \<in> S. ascii c \<and> \<not> ascii_space c \<Longrightarrow>
    list_all ascii s \<and> (\<forall>c \<in> set s. \<not> ascii_space c)"
proof -
  assume s: "list_all (\<lambda>c. ascii_alphanumeric c \<or> c \<in> S) s" and S: "\<forall>c \<in> S. ascii c \<and> \<not> ascii_space c"
  have "ascii c \<and> \<not> ascii_space c" if "ascii_alphanumeric c" for c
  proof -
    have a: "ascii c" using that
      by (auto simp: ascii_alphanumeric_def ascii_digit_def ascii_upper_def ascii_lower_def ascii_def)
    then show ?thesis using that
      by (auto simp: ascii_alphanumeric_def ascii_digit_def ascii_upper_def ascii_lower_def ascii_space_iff)
  qed
  then show ?thesis using s S by (auto simp: list_all_iff)
qed

lemma trim_plain: "list_all ascii s \<Longrightarrow> \<forall>c \<in> set s. \<not> ascii_space c \<Longrightarrow> trim s = s"
  by (rule trim_none) (cases s; auto)+

lemma normalize_tag_idem: "normalize_tag s = Inr t \<Longrightarrow> normalize_tag t = Inr t"
proof -
  assume n: "normalize_tag s = Inr t"
  have t: "list_all (\<lambda>c. ascii_alphanumeric c \<or> c \<in> {CHR ''!'', CHR ''-'', CHR ''_''}) t"
    "to_ascii_lowercase t = t"
    using n by (auto simp: normalize_tag_def Let_def split: if_splits)
  have "trim t = t"
    using label_chars_ascii[OF t(1)] trim_plain by (simp add: ascii_def ascii_space_iff)
  then show ?thesis using n t by (auto simp: normalize_tag_def Let_def split: if_splits)
qed

lemma set_split_char: "c \<in> set s \<Longrightarrow> c = d \<or> (\<exists>p \<in> set (split_char d s). c \<in> set p)"
proof (induction s)
  case (Cons a s)
  then show ?case by (cases "split_char d s") (auto split: list.splits)
qed simp

lemma split_char_snoc: "split_char d (p @ [d]) = split_char d p @ [[]]"
proof (induction p)
  case (Cons a p)
  then show ?case by (cases "split_char d p") auto
qed simp

lemma split_char_last: "last s = d \<Longrightarrow> s \<noteq> [] \<Longrightarrow> [] \<in> set (split_char d s)"
  using split_char_snoc[of d "butlast s"] append_butlast_last_id[of s] by simp

lemma domain_ok_plain:
  assumes "domain_ok d"
  shows "trim d = d" and "trim_end_dots d = d"
proof -
  let ?S = "{CHR ''-'', CHR ''.''}"
  have "list_all (\<lambda>c. ascii_alphanumeric c \<or> c \<in> ?S) d"
    using assms set_split_char[of _ d "CHR ''.''"]
    by (fastforce simp: domain_ok_def label_ok_def list_all_iff)
  then show "trim d = d"
    using label_chars_ascii[of ?S d] trim_plain by (simp add: ascii_def ascii_space_iff)
  have ne: "d \<noteq> []" and "[] \<notin> set (split_char (CHR ''.'') d)"
    using assms by (auto simp: domain_ok_def label_ok_def list_all_iff)
  then have "last d \<noteq> CHR ''.''" using split_char_last by blast
  then have "hd (rev d) \<noteq> CHR ''.''" by (simp add: hd_rev)
  then show "trim_end_dots d = d" by (cases "rev d") (simp_all add: trim_end_dots_def rev_swap)
qed

context config_laws
begin

lemma normalize_domain_idem: "normalize_domain E s = Inr d \<Longrightarrow> domain_ok d \<and> normalize_domain E d = Inr d"
proof -
  assume n: "normalize_domain E s = Inr d"
  then obtain t where t: "domain_to_ascii E t = Some d" and ok: "domain_ok d"
    by (auto simp: normalize_domain_def Let_def split: if_splits)
  then show ?thesis
    using idna_stable[OF t ok] domain_ok_plain[OF ok] by (simp add: normalize_domain_def)
qed

lemma normalize_domain_rule_idem:
  "normalize_domain_rule E rule = Inr rule' \<Longrightarrow> normalize_domain_rule E rule' = Inr rule'"
  using normalize_domain_idem normalize_tag_idem
  by (auto simp: normalize_domain_rule_def normalize_rule_name_ok rule_name_ok_def split: domain_match.splits)

lemma fake_valid: "valid_net FAKE_DNS_NET"
  by (simp add: FAKE_DNS_NET_def net_def valid_net_def)

lemma cidr_disjoint:
  assumes v: "valid_net n" and "\<not> contains_ip (env_net E) n (network (env_net E) FAKE_DNS_NET)"
    and "\<not> contains_ip (env_net E) FAKE_DNS_NET (network (env_net E) n)"
  shows "net_range n \<inter> net_range FAKE_DNS_NET = {}"
proof (rule ccontr)
  assume "net_range n \<inter> net_range FAKE_DNS_NET \<noteq> {}"
  then obtain a where a: "a \<in> net_range n" "a \<in> net_range FAKE_DNS_NET" by blast
  have "net_first FAKE_DNS_NET \<notin> net_range n" "net_first n \<notin> net_range FAKE_DNS_NET"
    using assms(2,3) ipnet_laws.contains_ip[OF net_laws] ipnet_laws.network[OF net_laws] v fake_valid by simp_all
  moreover have "net_first m \<in> net_range m" for m by (simp add: net_range_def net_first_last)
  ultimately show False
    using net_nested[OF v fake_valid _ a] net_nested[OF fake_valid v _ a(2,1)] by (meson nat_le_linear subsetD)
qed

lemma normalize_cidr_ok:
  assumes "normalize_cidr (env_net E) s = Inr t"
  shows "\<exists>n. net_parse (env_net E) t = Some n \<and> aligned_net n \<and> net_range n \<inter> net_range FAKE_DNS_NET = {} \<and>
     normalize_cidr (env_net E) t = Inr t"
proof -
  let ?N = "env_net E"
  obtain n where n: "net_parse ?N s = Some n" "t = net_show ?N (trunc ?N n)"
    "\<not> contains_ip ?N n (network ?N FAKE_DNS_NET)" "\<not> contains_ip ?N FAKE_DNS_NET (network ?N n)"
    using assms by (auto simp: normalize_cidr_def split: if_splits)
  have v: "valid_net n" using ipnet_laws.parse_valid[OF net_laws n(1)] .
  have vt: "valid_net (net_trunc n)" using v by simp
  have tr: "trunc ?N n = net_trunc n" "trunc ?N (net_trunc n) = net_trunc (net_trunc n)"
    using ipnet_laws.trunc[OF net_laws] v by simp_all
  have idem: "net_trunc (net_trunc n) = net_trunc n" using v by (simp add: net_trunc_def[of "net_trunc n"]) (simp add: net_trunc_def)
  have p: "net_parse ?N t = Some (net_trunc n)" using n(2) tr ipnet_laws.parse_show[OF net_laws vt] by simp
  have "unat (network ?N (net_trunc n)) = unat (network ?N n)"
    using ipnet_laws.network[OF net_laws] v by simp
  then have same: "network ?N (net_trunc n) = network ?N n" by (simp add: word_eq_iff_unsigned[where ?'a = nat])
  have "contains_ip ?N (net_trunc n) a = contains_ip ?N n a" for a
    using ipnet_laws.contains_ip[OF net_laws] v by simp
  then have "normalize_cidr ?N t = Inr t" using n p tr idem same by (simp add: normalize_cidr_def)
  moreover have "net_range (net_trunc n) \<inter> net_range FAKE_DNS_NET = {}" using cidr_disjoint[OF v n(3,4)] v by simp
  ultimately show ?thesis using p aligned_trunc[OF v] by blast
qed

lemma normalize_ip_rule_idem:
  "normalize_ip_rule E rule = Inr rule' \<Longrightarrow> normalize_ip_rule E rule' = Inr rule'"
  using normalize_cidr_ok normalize_tag_idem
  by (fastforce simp: normalize_ip_rule_def normalize_rule_name_ok rule_name_ok_def split: ip_match.splits)

lemma normalize_routing_parts:
  assumes "normalize_routing E c = Inr c'"
  obtains ds "is" where "c' = c\<lparr>domain_rules := ds, ip_rules := is\<rparr>"
    and "map (normalize_domain_rule E) (domain_rules c) = map Inr ds"
    and "map (normalize_ip_rule E) (ip_rules c) = map Inr is"
    and "length ds = length (domain_rules c)" and "length is = length (ip_rules c)"
proof -
  obtain ds "is" where "c' = c\<lparr>domain_rules := ds, ip_rules := is\<rparr>"
    "map (normalize_domain_rule E) (domain_rules c) = map Inr ds"
    "map (normalize_ip_rule E) (ip_rules c) = map Inr is"
    using assms by (auto simp: normalize_routing_def collect_results_Inr split: if_splits)
  then show thesis using that by (metis length_map)
qed

lemma normalize_routing_idem: "normalize_routing E c = Inr c' \<Longrightarrow> normalize_routing E c' = Inr c'"
proof -
  assume n: "normalize_routing E c = Inr c'"
  obtain ds "is" where c': "c' = c\<lparr>domain_rules := ds, ip_rules := is\<rparr>"
    and ds: "map (normalize_domain_rule E) (domain_rules c) = map Inr ds"
    and is': "map (normalize_ip_rule E) (ip_rules c) = map Inr is"
    and len: "length ds = length (domain_rules c)" "length is = length (ip_rules c)"
    using n by (rule normalize_routing_parts)
  have "map (normalize_domain_rule E) ds = map Inr ds"
    using ds len(1) normalize_domain_rule_idem by (auto simp: list_eq_iff_nth_eq)
  moreover have "map (normalize_ip_rule E) is = map Inr is"
    using is' len(2) normalize_ip_rule_idem by (auto simp: list_eq_iff_nth_eq)
  ultimately have "collect_results (map (normalize_domain_rule E) ds) = Inr ds"
      "collect_results (map (normalize_ip_rule E) is) = Inr is"
    by (simp_all only: collect_results_Inr)
  then show ?thesis
    using n c' len by (auto simp: normalize_routing_def split: if_splits option.splits)
qed

end

lemma normalize_routing_order:
  assumes "normalize_routing E c = Inr c'" and "rule_order c' = Some order"
  shows "distinct order \<and> set order = all_refs (length (domain_rules c')) (length (ip_rules c'))"
proof -
  have len: "length (domain_rules c') = length (domain_rules c)" "length (ip_rules c') = length (ip_rules c)"
    and ro: "rule_order c = Some order"
    using assms by (auto simp: normalize_routing_def collect_results_Inr split: if_splits dest: map_eq_imp_length_eq)
  have "check_order order (replicate (length (domain_rules c)) False) (replicate (length (ip_rules c)) False) = Inr ()"
    "length order = length (domain_rules c) + length (ip_rules c)"
    using assms(1) ro by (auto simp: normalize_routing_def split: if_splits)
  then show ?thesis using order_permutation len by simp
qed

section \<open>Exclusions\<close>

lemma mac_le_total: "mac_le a b \<or> mac_le b a"
  by (induction a b rule: mac_le.induct) auto

lemma mac_le_trans: "mac_le a b \<Longrightarrow> mac_le b c \<Longrightarrow> mac_le a c"
proof (induction a b arbitrary: c rule: mac_le.induct)
  case (3 a as b bs)
  then show ?case by (cases c) auto
qed auto

lemma mac_le_antisym: "mac_le a b \<Longrightarrow> mac_le b a \<Longrightarrow> a = b"
proof (induction a b rule: mac_le.induct)
  case (1 bs)
  then show ?case by (cases bs) auto
qed auto

lemma remdups_adj_sorted:
  assumes "\<And>a b. le a b \<Longrightarrow> le b a \<Longrightarrow> a = b"
  shows "sorted_wrt le xs \<Longrightarrow> distinct (remdups_adj xs) \<and> sorted_wrt le (remdups_adj xs)"
proof (induction xs rule: remdups_adj.induct)
  case (3 x y xs)
  show ?case
  proof (cases "x = y")
    case False
    have "x \<notin> set (y # xs)"
      using "3.prems" False assms by auto
    then show ?thesis using 3 False by auto
  qed (use 3 in auto)
qed auto

lemma normalize_exclusions_ok:
  assumes "normalize_exclusions macs = Inr out"
  shows "set out = set macs \<and> distinct out \<and> sorted_wrt mac_le out \<and> length out \<le> 256"
proof -
  have "sorted_wrt mac_le (sort_by mac_le macs)"
    using mac_le_total mac_le_trans by (rule sorted_sort_by)
  then show ?thesis
    using assms remdups_adj_sorted[OF mac_le_antisym] by (auto simp: normalize_exclusions_def Let_def)
qed

section \<open>An environment\<close>

definition std_env :: config_env where
  "std_env = \<lparr>env_net = std_ipnet, to_lowercase = to_ascii_lowercase,
     domain_to_ascii = (\<lambda>s. Some (to_ascii_lowercase s)), canonical_ipv6 = (\<lambda>_. False)\<rparr>"

interpretation std_config: config_laws std_env
  by (rule config_laws.intro) (auto simp: std_env_def std.ipnet_laws_axioms)

section \<open>Properties\<close>

text \<open>C29: Normalising a routing configuration reaches a normal form: normalising again changes
  nothing, a given rule order names every rule exactly once, and every address rule parses to a
  truncated network that shares no address with the reserved FakeDNS range.\<close>

theorem normalize_routing_normal_form:
  assumes "config_laws E" and "normalize_routing E c = Inr c'"
  shows "normalize_routing E c' = Inr c' \<and>
     (\<forall>order. rule_order c' = Some order \<longrightarrow>
        distinct order \<and> set order = all_refs (length (domain_rules c')) (length (ip_rules c'))) \<and>
     (\<forall>rule \<in> set (ip_rules c'). \<forall>v. ir_matcher rule = Cidr v \<longrightarrow>
        (\<exists>n. net_parse (env_net E) v = Some n \<and> aligned_net n \<and>
           net_range n \<inter> net_range FAKE_DNS_NET = {}))"
proof -
  have idem: "normalize_routing E c' = Inr c'" using config_laws.normalize_routing_idem[OF assms] .
  have "\<exists>n. net_parse (env_net E) v = Some n \<and> aligned_net n \<and> net_range n \<inter> net_range FAKE_DNS_NET = {}"
    if rule: "rule \<in> set (ip_rules c')" "ir_matcher rule = Cidr v" for rule v
  proof -
    obtain rules where "map (normalize_ip_rule E) rules = map Inr (ip_rules c')"
      using assms(2) by (auto simp: normalize_routing_def collect_results_Inr split: if_splits)
    moreover have "Inr rule \<in> set (map Inr (ip_rules c'))" using rule(1) by simp
    ultimately have "Inr rule \<in> set (map (normalize_ip_rule E) rules)" by simp
    then obtain raw where "normalize_ip_rule E raw = Inr rule" by auto
    then obtain v0 where "normalize_cidr (env_net E) v0 = Inr v"
      using rule(2) by (auto simp: normalize_ip_rule_def split: ip_match.splits)
    then show ?thesis using config_laws.normalize_cidr_ok[OF assms(1)] by blast
  qed
  then show ?thesis using idem normalize_routing_order[OF assms(2)] by blast
qed

definition witness_routing :: routing_config where
  "witness_routing = \<lparr>domain_rules = [\<lparr>dr_name = ''a'', dr_enabled = True, dr_matcher = Suffix ''ex.org'', dr_target = Vpn\<rparr>],
     ip_rules = [\<lparr>ir_name = ''b'', ir_enabled = True, ir_matcher = GeoIp ''ru'', ir_target = Direct\<rparr>],
     default_target = Vpn, mode = Rules, rule_order = Some [Ip_Ref 0, Domain_Ref 0]\<rparr>"

lemma witness_routing_ok: "\<exists>c'. normalize_routing std_env witness_routing = Inr c' \<and> rule_order c' = Some [Ip_Ref 0, Domain_Ref 0]"
  by (simp add: normalize_routing_def witness_routing_def MAX_RULES_def mark_seen_def normalize_domain_rule_def
      normalize_rule_name_def normalize_ip_rule_def normalize_domain_def normalize_tag_def std_env_def
      domain_ok_def label_ok_def trim_end_dots_def to_ascii_lowercase_def to_ascii_lower_char_def ascii_upper_def
      ascii_alphanumeric_def ascii_digit_def ascii_lower_def trim_ascii ascii_def ascii_space_iff char_count_ascii
      any_control_def char_chunks_ascii is_control_def Let_def)

theorem normalize_routing_normal_form_witness:
  "\<exists>c'. normalize_routing std_env witness_routing = Inr c' \<and> normalize_routing std_env c' = Inr c' \<and>
     set [Ip_Ref 0, Domain_Ref 0] = all_refs (length (domain_rules c')) (length (ip_rules c'))"
proof -
  obtain c' where c': "normalize_routing std_env witness_routing = Inr c'" "rule_order c' = Some [Ip_Ref 0, Domain_Ref 0]"
    using witness_routing_ok by blast
  show ?thesis using normalize_routing_normal_form[OF std_config.config_laws_axioms c'(1)] c' by blast
qed

text \<open>The list of excluded devices is stored without duplicates, in order, with at most 256
  addresses, and it holds exactly the addresses that were given; a longer list is an error.\<close>

theorem normalize_exclusions_spec:
  "(case normalize_exclusions macs of
      Inr out \<Rightarrow> set out = set macs \<and> distinct out \<and> sorted_wrt mac_le out \<and> length out \<le> 256
    | Inl e \<Rightarrow> e = Exclusion_Count \<and> 256 < card (set macs))"
proof (cases "normalize_exclusions macs")
  case (Inl e)
  have "sorted_wrt mac_le (sort_by mac_le macs)"
    using mac_le_total mac_le_trans by (rule sorted_sort_by)
  then have "distinct (remdups_adj (sort_by mac_le macs))"
    using remdups_adj_sorted[OF mac_le_antisym] by blast
  then have "card (set macs) = length (remdups_adj (sort_by mac_le macs))"
    using distinct_card by fastforce
  then show ?thesis using Inl by (auto simp: normalize_exclusions_def Let_def and_then_Inl)
qed (use normalize_exclusions_ok in auto)

end
