(* ===== verification/Routing.thy ===== *)
theory Routing
  imports Config Geo_Data
begin

text \<open>
  The routing policy (\<^verbatim>\<open>gofro-agent/src/routing.rs\<close>): compilation of a configuration against the
  geodata, the target of a connection, of an address, of a DNS query, and the preview of the
  panel. The order of a configuration's rules is \<open>rule_refs\<close>. An index outside the rules makes
  \<^verbatim>\<open>ip_target\<close> panic, which is \<open>None\<close> here.
\<close>

section \<open>Definitions\<close>

definition LAN_RANGES :: "ipv4net list" where
  "LAN_RANGES = [net 10 0 0 0 8, net 127 0 0 0 8, net 169 254 0 0 16, net 172 16 0 0 12,
     net 192 168 0 0 16, net 224 0 0 0 4, net 255 255 255 255 32]"

definition is_lan_destination :: "ipnet \<Rightarrow> ipv4 \<Rightarrow> bool" where
  "is_lan_destination N ip = list_ex (\<lambda>n. contains_ip N n ip) LAN_RANGES"

text \<open>What a policy refers to: the regular expressions and networks of the crates it uses.\<close>

record 'r policy =
  pol_regex :: "'r regex_lib"
  pol_net :: ipnet
  pol_config :: routing_config
  pol_geo :: "'r geodata"
  pol_nets :: "ipv4net option list"

datatype compile_error = Geo geo_error | Missing_Site string | Missing_Ip string | Bad_Cidr_Text

definition check_sites :: "routing_config \<Rightarrow> 'r geodata \<Rightarrow> compile_error + unit" where
  "check_sites c g =
     (case find_map (\<lambda>rule.
         case dr_matcher rule of
           GeoSite tag \<Rightarrow> if mode c = Rules \<and> dr_enabled rule \<and> \<not> has_site g tag then Some tag else None
         | _ \<Rightarrow> None) (domain_rules c) of
        Some tag \<Rightarrow> Inl (Missing_Site tag)
      | None \<Rightarrow> Inr ())"

definition compile_ip_rule :: "ipnet \<Rightarrow> routing_config \<Rightarrow> 'r geodata \<Rightarrow> ip_rule \<Rightarrow> compile_error + ipv4net option" where
  "compile_ip_rule N c g rule =
     (case ir_matcher rule of
        Cidr v \<Rightarrow> and_then (ok_or (net_parse N v) Bad_Cidr_Text) (\<lambda>n. Inr (Some n))
      | GeoIp tag \<Rightarrow>
          if mode c = Rules \<and> ir_enabled rule \<and> \<not> has_ip g tag then Inl (Missing_Ip tag) else Inr None)"

definition compile :: "'r regex_lib \<Rightarrow> ipnet \<Rightarrow> (string \<Rightarrow> bool) \<Rightarrow> (string \<Rightarrow> bool) \<Rightarrow> routing_config \<Rightarrow> 'r geodata \<Rightarrow>
    (compile_error + 'r policy) \<times> 'r catalog option" where
  "compile X N live_sites live_ips c g =
     (let (res, cat) = select X N live_sites live_ips g c in
      (case res of
         Inl e \<Rightarrow> Inl (Geo e)
       | Inr g \<Rightarrow>
           and_then (check_sites c g) (\<lambda>_.
           and_then (collect_results (map (compile_ip_rule N c g) (ip_rules c))) (\<lambda>nets.
             Inr \<lparr>pol_regex = X, pol_net = N, pol_config = c, pol_geo = g, pol_nets = nets\<rparr>)), cat))"

definition nth_opt :: "'a list \<Rightarrow> nat \<Rightarrow> 'a option" where
  "nth_opt xs i = (if i < length xs then Some (xs ! i) else None)"

definition rule_refs :: "'r policy \<Rightarrow> rule_ref list" where
  "rule_refs p =
     (case rule_order (pol_config p) of
        Some order \<Rightarrow> order
      | None \<Rightarrow> map Domain_Ref [0..<length (domain_rules (pol_config p))] @
                map Ip_Ref [0..<length (ip_rules (pol_config p))])"

definition matches_domain :: "'r policy \<Rightarrow> domain_rule \<Rightarrow> string \<Rightarrow> bool" where
  "matches_domain p rule domain =
     (case dr_matcher rule of
        Exact v \<Rightarrow> domain = v
      | Suffix v \<Rightarrow> domain = v \<or>
          (case strip_suffix v domain of None \<Rightarrow> False | Some prefix \<Rightarrow> ends_with_char (CHR ''.'') prefix)
      | GeoSite tag \<Rightarrow> matches_site (pol_regex p) (pol_geo p) tag domain)"

definition matches_ip_rule :: "'r policy \<Rightarrow> nat \<Rightarrow> ipv4 \<Rightarrow> bool" where
  "matches_ip_rule p index ip =
     (case ir_matcher (ip_rules (pol_config p) ! index) of
        Cidr _ \<Rightarrow> (case pol_nets p ! index of None \<Rightarrow> False | Some n \<Rightarrow> contains_ip (pol_net p) n ip)
      | GeoIp tag \<Rightarrow> matches_ip (pol_net p) (pol_geo p) tag ip)"

definition effective_fallback :: "'r policy \<Rightarrow> route_target" where
  "effective_fallback p = (if mode (pol_config p) = All then Vpn else default_target (pol_config p))"

definition domain_ref_rule :: "'r policy \<Rightarrow> rule_ref \<Rightarrow> domain_rule option" where
  "domain_ref_rule p reference =
     (case reference of Domain_Ref i \<Rightarrow> nth_opt (domain_rules (pol_config p)) i | Ip_Ref _ \<Rightarrow> None)"

definition configured_domain_target :: "'r policy \<Rightarrow> string \<Rightarrow> (route_target \<times> string) option" where
  "configured_domain_target p domain =
     map_option (\<lambda>rule. (dr_target rule, dr_name rule))
       (find (\<lambda>rule. dr_enabled rule \<and> matches_domain p rule domain)
         (List.map_filter (domain_ref_rule p) (rule_refs p)))"

definition domain_target :: "'r policy \<Rightarrow> string \<Rightarrow> (route_target \<times> string) option" where
  "domain_target p domain =
     (if mode (pol_config p) = Rules then configured_domain_target p domain else None)"

definition ip_rule_indices :: "'r policy \<Rightarrow> nat list" where
  "ip_rule_indices p =
     (if mode (pol_config p) = All then []
      else List.map_filter (\<lambda>reference. case reference of Ip_Ref i \<Rightarrow> Some i | Domain_Ref _ \<Rightarrow> None) (rule_refs p))"

text \<open>The name that the panel shows for the implicit LAN rule, in UTF-8.\<close>

definition LAN_RULE_NAME :: string where
  "LAN_RULE_NAME = map char_of [0xD0, 0x9B, 0xD0, 0xBE, 0xD0, 0xBA, 0xD0, 0xB0, 0xD0, 0xBB, 0xD1, 0x8C,
     0xD0, 0xBD, 0xD0, 0xB0, 0xD1, 0x8F, 0x20, 0xD1, 0x81, 0xD0, 0xB5, 0xD1, 0x82, 0xD1, 0x8C :: nat]"

primrec ip_rule_search :: "'r policy \<Rightarrow> ipv4 \<Rightarrow> nat list \<Rightarrow> (route_target \<times> string option) option" where
  "ip_rule_search p ip [] = Some (effective_fallback p, None)"
| "ip_rule_search p ip (index # rest) =
     (case nth_opt (ip_rules (pol_config p)) index of
        None \<Rightarrow> None
      | Some rule \<Rightarrow>
          if ir_enabled rule \<and> matches_ip_rule p index ip then Some (ir_target rule, Some (ir_name rule))
          else ip_rule_search p ip rest)"

definition ip_target :: "'r policy \<Rightarrow> ipv4 \<Rightarrow> (route_target \<times> string option) option" where
  "ip_target p ip =
     (if is_lan_destination (pol_net p) ip then Some (Direct, Some LAN_RULE_NAME)
      else if mode (pol_config p) = All then Some (Vpn, None)
      else ip_rule_search p ip (ip_rule_indices p))"

definition ref_target :: "'r policy \<Rightarrow> string \<Rightarrow> ipv4 \<Rightarrow> rule_ref \<Rightarrow> route_target option" where
  "ref_target p domain ip reference =
     (case reference of
        Domain_Ref i \<Rightarrow>
          (case nth_opt (domain_rules (pol_config p)) i of
             None \<Rightarrow> None
           | Some rule \<Rightarrow> if dr_enabled rule \<and> matches_domain p rule domain then Some (dr_target rule) else None)
      | Ip_Ref i \<Rightarrow>
          (case nth_opt (ip_rules (pol_config p)) i of
             None \<Rightarrow> None
           | Some rule \<Rightarrow> if ir_enabled rule \<and> matches_ip_rule p i ip then Some (ir_target rule) else None))"

definition target :: "'r policy \<Rightarrow> string \<Rightarrow> ipv4 \<Rightarrow> route_target" where
  "target p domain ip =
     (if is_lan_destination (pol_net p) ip then Direct
      else if mode (pol_config p) = All then Vpn
      else case find_map (ref_target p domain ip) (rule_refs p) of
             Some t \<Rightarrow> t
           | None \<Rightarrow> effective_fallback p)"

fun rank :: "route_target \<Rightarrow> nat" where
  "rank Block = 0"
| "rank Direct = 1"
| "rank Vpn = 2"
| "rank Warp = 3"

definition protect :: "route_target \<Rightarrow> route_target \<Rightarrow> route_target" where
  "protect a b = (if rank b \<le> rank a then a else b)"

primrec dns_search :: "'r policy \<Rightarrow> string \<Rightarrow> route_target \<Rightarrow> rule_ref list \<Rightarrow> route_target" where
  "dns_search p domain possible [] = protect possible (default_target (pol_config p))"
| "dns_search p domain possible (reference # rest) =
     (case reference of
        Domain_Ref i \<Rightarrow>
          (case nth_opt (domain_rules (pol_config p)) i of
             None \<Rightarrow> dns_search p domain possible rest
           | Some rule \<Rightarrow>
               if dr_enabled rule \<and> matches_domain p rule domain then protect possible (dr_target rule)
               else dns_search p domain possible rest)
      | Ip_Ref i \<Rightarrow>
          (case nth_opt (ip_rules (pol_config p)) i of
             None \<Rightarrow> dns_search p domain possible rest
           | Some rule \<Rightarrow>
               if ir_enabled rule then
                 let possible = protect possible (ir_target rule) in
                 (case pol_nets p ! i of
                    Some n \<Rightarrow> if net_prefix n = 0 then possible else dns_search p domain possible rest
                  | None \<Rightarrow> dns_search p domain possible rest)
               else dns_search p domain possible rest))"

definition dns_target :: "'r policy \<Rightarrow> string \<Rightarrow> route_target" where
  "dns_target p domain =
     (if mode (pol_config p) = All then Vpn else dns_search p domain Block (rule_refs p))"

definition uses_warp :: "'r policy \<Rightarrow> bool" where
  "uses_warp p \<longleftrightarrow> mode (pol_config p) = Rules \<and>
     (default_target (pol_config p) = Warp \<or>
      list_ex (\<lambda>rule. dr_enabled rule \<and> dr_target rule = Warp) (domain_rules (pol_config p)) \<or>
      list_ex (\<lambda>rule. ir_enabled rule \<and> ir_target rule = Warp) (ip_rules (pol_config p)))"

datatype test_scope = Ip_Scope | Domain_Preview

record test_result =
  tr_value :: string
  tr_target :: route_target
  tr_matched_rule :: "string option"
  tr_scope :: test_scope

datatype test_error = Test_Domain config_error | Test_Panic

definition test :: "config_env \<Rightarrow> 'r policy \<Rightarrow> string \<Rightarrow> test_error + test_result" where
  "test E p text =
     (let text = trim text in
      case parse_ipv4 text of
        Some ip \<Rightarrow>
          and_then (ok_or (ip_target p ip) Test_Panic) (\<lambda>(t, rule).
            Inr \<lparr>tr_value = show_ipv4 ip, tr_target = t, tr_matched_rule = rule, tr_scope = Ip_Scope\<rparr>)
      | None \<Rightarrow>
          (case normalize_domain E text of
             Inl e \<Rightarrow> Inl (Test_Domain e)
           | Inr domain \<Rightarrow>
               let (t, rule) = (case domain_target p domain of
                   None \<Rightarrow> (effective_fallback p, None)
                 | Some (t, name) \<Rightarrow> (t, Some name)) in
               Inr \<lparr>tr_value = domain, tr_target = t, tr_matched_rule = rule, tr_scope = Domain_Preview\<rparr>))"

section \<open>Policies that compilation makes\<close>

definition policy_ok :: "'r policy \<Rightarrow> bool" where
  "policy_ok p \<longleftrightarrow> length (pol_nets p) = length (ip_rules (pol_config p)) \<and>
     (\<forall>i < length (ip_rules (pol_config p)).
        case ir_matcher (ip_rules (pol_config p) ! i) of
          Cidr v \<Rightarrow> pol_nets p ! i = net_parse (pol_net p) v \<and> pol_nets p ! i \<noteq> None
        | GeoIp tag \<Rightarrow> pol_nets p ! i = None)"

lemma compile_ok:
  assumes "compile X N ls li c g = (Inr p, cat)"
  shows "policy_ok p \<and> pol_config p = c \<and> pol_net p = N \<and> pol_regex p = X"
proof -
  obtain g' nets where nets: "map (compile_ip_rule N c g') (ip_rules c) = map Inr nets"
    and p: "p = \<lparr>pol_regex = X, pol_net = N, pol_config = c, pol_geo = g', pol_nets = nets\<rparr>"
    using assms by (auto simp: compile_def collect_results_Inr case_prod_beta split: sum.splits)
  have len: "length nets = length (ip_rules c)" using nets by (metis length_map)
  have "case ir_matcher (ip_rules c ! i) of Cidr v \<Rightarrow> nets ! i = net_parse N v \<and> nets ! i \<noteq> None
      | GeoIp tag \<Rightarrow> nets ! i = None" if i: "i < length (ip_rules c)" for i
  proof -
    have "map (compile_ip_rule N c g') (ip_rules c) ! i = map Inr nets ! i" using nets by simp
    then have "compile_ip_rule N c g' (ip_rules c ! i) = Inr (nets ! i)" using i len by simp
    then show ?thesis by (cases "ir_matcher (ip_rules c ! i)") (auto simp: compile_ip_rule_def split: if_splits, metis)
  qed
  moreover have sel: "pol_nets p = nets" "pol_config p = c" "pol_net p = N" "pol_regex p = X"
    using p by simp_all
  ultimately show ?thesis using len unfolding policy_ok_def sel by blast
qed

section \<open>DNS follows the most protected outcome\<close>

lemma rank_protect: "rank (protect a b) = max (rank a) (rank b)"
  by (simp add: protect_def)

lemma dns_search_possible: "rank possible \<le> rank (dns_search p domain possible refs)"
proof (induction refs arbitrary: possible)
  case (Cons reference refs)
  have step: "rank possible \<le> rank (dns_search p domain (protect possible t) refs)" for t
    using Cons.IH[of "protect possible t"] by (simp add: rank_protect)
  show ?case
    using Cons.IH[of possible] step
    by (auto simp: rank_protect Let_def split: rule_ref.split option.split)
qed (simp add: rank_protect)

lemma catch_all_contains:
  assumes "ipnet_laws N" and "net_prefix n = 0"
  shows "contains_ip N n ip"
proof -
  have v: "valid_net n" and s: "net_size n = 2 ^ 32" using assms(2) by (simp_all add: valid_net_def net_size_def)
  have "unat ip div 2 ^ 32 = 0" "unat (net_addr n) div 2 ^ 32 = 0"
    using unsigned_less[of ip, where ?'a = nat] unsigned_less[of "net_addr n", where ?'a = nat] by simp_all
  then show ?thesis using ipnet_laws.contains_ip[OF assms(1) v] by (simp add: net_range_iff s)
qed

lemma dns_search_covers:
  assumes "ipnet_laws (pol_net p)" and "policy_ok p"
  shows "rank (case find_map (ref_target p domain ip) refs of Some t \<Rightarrow> t | None \<Rightarrow> default_target (pol_config p))
     \<le> rank (dns_search p domain possible refs)"
proof (induction refs arbitrary: possible)
  case (Cons reference refs)
  show ?case
  proof (cases reference)
    case (Domain_Ref i)
    then show ?thesis
      using Cons.IH[of possible] by (auto simp: ref_target_def rank_protect split: option.split)
  next
    case (Ip_Ref i)
    show ?thesis
    proof (cases "nth_opt (ip_rules (pol_config p)) i")
      case None
      then show ?thesis using Cons.IH[of possible] Ip_Ref by (simp add: ref_target_def)
    next
      case (Some rule)
      then have i: "i < length (ip_rules (pol_config p))" "rule = ip_rules (pol_config p) ! i"
        by (auto simp: nth_opt_def split: if_splits)
      let ?pos = "protect possible (ir_target rule)"
      have hit: "rank (ir_target rule) \<le> rank ?pos" by (simp add: rank_protect)
      have later: "rank (ir_target rule) \<le> rank (dns_search p domain ?pos refs)"
        using dns_search_possible[of ?pos p domain refs] hit by simp
      have all: "matches_ip_rule p i ip" if "pol_nets p ! i = Some n" "net_prefix n = 0" for n
        using that assms(2) i catch_all_contains[OF assms(1) that(2)]
        by (auto simp: policy_ok_def matches_ip_rule_def split: ip_match.splits)
      show ?thesis
        using Some Ip_Ref hit later all Cons.IH[of ?pos] Cons.IH[of possible]
        by (auto simp: ref_target_def Let_def split: option.split)
    qed
  qed
qed (simp add: rank_protect)

section \<open>Warp\<close>

lemma find_map_ref_target:
  "find_map (ref_target p domain ip) refs = Some t \<Longrightarrow>
     (\<exists>rule \<in> set (domain_rules (pol_config p)). dr_enabled rule \<and> dr_target rule = t) \<or>
     (\<exists>rule \<in> set (ip_rules (pol_config p)). ir_enabled rule \<and> ir_target rule = t)"
  by (drule find_map_SomeD)
    (force simp: ref_target_def nth_opt_def split: rule_ref.splits option.splits if_splits)

lemma protect_cases: "protect a b = a \<or> protect a b = b"
  by (simp add: protect_def)

lemma dns_search_outcome:
  "dns_search p domain possible refs = possible \<or> dns_search p domain possible refs = default_target (pol_config p) \<or>
   (\<exists>rule \<in> set (domain_rules (pol_config p)). dr_enabled rule \<and> dr_target rule = dns_search p domain possible refs) \<or>
   (\<exists>rule \<in> set (ip_rules (pol_config p)). ir_enabled rule \<and> ir_target rule = dns_search p domain possible refs)"
proof (induction refs arbitrary: possible)
  case (Cons reference refs)
  show ?case
  proof (cases reference)
    case (Domain_Ref i)
    then show ?thesis
      using Cons.IH[of possible] protect_cases[of possible]
      by (auto simp: nth_opt_def split: option.split) (metis nth_mem)+
  next
    case (Ip_Ref i)
    show ?thesis
    proof (cases "\<exists>rule. nth_opt (ip_rules (pol_config p)) i = Some rule \<and> ir_enabled rule")
      case True
      then obtain rule where r: "nth_opt (ip_rules (pol_config p)) i = Some rule" "ir_enabled rule" by blast
      then have mem: "rule \<in> set (ip_rules (pol_config p))" by (auto simp: nth_opt_def split: if_splits)
      have "dns_search p domain possible (reference # refs) = protect possible (ir_target rule) \<or>
          dns_search p domain possible (reference # refs) = dns_search p domain (protect possible (ir_target rule)) refs"
        using r Ip_Ref by (auto simp: Let_def split: option.split)
      then show ?thesis
        using Cons.IH[of "protect possible (ir_target rule)"] protect_cases[of possible "ir_target rule"] mem r(2) by metis
    next
      case False
      then have "dns_search p domain possible (reference # refs) = dns_search p domain possible refs"
        using Ip_Ref by (auto split: option.split)
      then show ?thesis using Cons.IH[of possible] by simp
    qed
  qed
qed (use protect_cases in auto)

section \<open>Order of the rules\<close>

lemma find_map_append: "find_map f (xs @ ys) = (case find_map f xs of None \<Rightarrow> find_map f ys | Some y \<Rightarrow> Some y)"
  by (induction xs) (auto split: option.splits)

lemma find_map_domain_refs:
  "find_map (ref_target p domain ip) (map Domain_Ref is) =
     map_option dr_target (find (\<lambda>rule. dr_enabled rule \<and> matches_domain p rule domain)
       (List.map_filter (domain_ref_rule p) (map Domain_Ref is)))"
  by (induction "is") (auto simp: ref_target_def domain_ref_rule_def List.map_filter_simps split: option.splits)

lemma map_filter_ip_refs: "List.map_filter (domain_ref_rule p) (map Ip_Ref is) = []"
  by (induction "is") (auto simp: domain_ref_rule_def List.map_filter_simps)

lemma map_filter_append: "List.map_filter f (xs @ ys) = List.map_filter f xs @ List.map_filter f ys"
  by (simp add: List.map_filter_def)

lemma ip_indices_default:
  "List.map_filter (\<lambda>reference. case reference of Ip_Ref i \<Rightarrow> Some i | Domain_Ref _ \<Rightarrow> None)
     (map Domain_Ref ds @ map Ip_Ref is) = is"
proof -
  have "List.map_filter (\<lambda>reference. case reference of Ip_Ref i \<Rightarrow> Some i | Domain_Ref _ \<Rightarrow> None) (map Domain_Ref ds) = []"
    by (induction ds) (auto simp: List.map_filter_simps)
  moreover have "List.map_filter (\<lambda>reference. case reference of Ip_Ref i \<Rightarrow> Some i | Domain_Ref _ \<Rightarrow> None) (map Ip_Ref is) = is"
    by (induction "is") (auto simp: List.map_filter_simps)
  ultimately show ?thesis by (simp add: map_filter_append)
qed

lemma ip_rule_search_find_map:
  assumes "\<forall>i \<in> set is. i < length (ip_rules (pol_config p))"
  shows "map_option fst (ip_rule_search p ip is) =
     Some (case find_map (ref_target p domain ip) (map Ip_Ref is) of Some t \<Rightarrow> t | None \<Rightarrow> effective_fallback p)"
  using assms by (induction "is") (auto simp: ref_target_def nth_opt_def split: option.splits)

lemma ip_rule_search_total:
  "\<forall>i \<in> set is. i < length (ip_rules (pol_config p)) \<Longrightarrow> ip_rule_search p ip is \<noteq> None"
  by (induction "is") (auto simp: nth_opt_def)

lemma ip_rule_search_target:
  "ip_rule_search p ip is = Some (t, name) \<Longrightarrow> t = effective_fallback p \<or>
     (\<exists>rule \<in> set (ip_rules (pol_config p)). ir_enabled rule \<and> ir_target rule = t)"
  by (induction "is") (auto simp: nth_opt_def split: if_splits option.splits)

lemma found_domain_rule:
  "find P (List.map_filter (domain_ref_rule p) refs) = Some rule \<Longrightarrow>
     rule \<in> set (domain_rules (pol_config p)) \<and> P rule"
proof -
  assume f: "find P (List.map_filter (domain_ref_rule p) refs) = Some rule"
  then have "rule \<in> set (List.map_filter (domain_ref_rule p) refs)" "P rule"
    by (auto simp: find_Some_iff)
  then obtain reference where "domain_ref_rule p reference = Some rule" "P rule"
    by (auto simp: List.map_filter_def)
  then show ?thesis by (auto simp: domain_ref_rule_def nth_opt_def split: rule_ref.splits if_splits)
qed

section \<open>Geodata of a policy\<close>

lemma within_decode_ip:
  assumes "ipnet_laws N" and "within rng (decode_ip N) r = Inr (ns, r')"
  obtains cidrs where "within rng (fold_fields (ip_field N) []) r = Inr (cidrs, r')"
    and "\<forall>n \<in> set cidrs. aligned_net n" and "ns = aggregate_ipv4 N cidrs"
proof -
  let ?inner = "r\<lparr>position := range_start rng, range_end := range_start rng + range_len rng\<rparr>"
  have sk: "seek (range_start rng) r = Inr (r\<lparr>position := range_start rng\<rparr>)"
    using assms(2) by (auto simp: within_def dest: seek_Inr)
  then obtain s where s: "decode_ip N ?inner = Inr (ns, s)"
      "seek (position r) (s\<lparr>range_end := range_end r\<rparr>) = Inr r'"
    using assms(2) by (auto simp: within_def split: sum.splits)
  obtain cidrs where c: "fold_fields (ip_field N) [] ?inner = Inr (cidrs, s)"
      "\<forall>n \<in> set cidrs. aligned_net n" "ns = aggregate_ipv4 N cidrs"
    by (rule decode_ip_ranges[OF assms(1) s(1)])
  then have "within rng (fold_fields (ip_field N) []) r = Inr (cidrs, r')"
    using sk s(2) by (simp add: within_def)
  then show thesis using that c by blast
qed

lemma compile_geodata:
  assumes "catalog_ok X N cat" and "source g = Some cat" and "mode c = Rules"
    and "compile X N live_sites live_ips c g = (Inr p, cat')"
  shows "dom (sites (pol_geo p)) = wanted_sites (domain_rules c)" and "dom (ips (pol_geo p)) = wanted_ips (ip_rules c)"
    and "ips (pol_geo p) tag = Some ns \<Longrightarrow> entry_value (decode_ip N) (cat_ips cat) tag = Inr (Some ns)"
proof -
  obtain g' where sel: "select X N live_sites live_ips g c = (Inr g', cat')" and p: "pol_geo p = g'"
    using assms(4) by (auto simp: compile_def case_prod_beta prod_eq_iff split: sum.splits)
  obtain st where st: "g' = (selected st)\<lparr>source := Some (sel_catalog st)\<rparr>"
      "sites_inv X N cat (domain_rules c) st" "ips_inv X N cat (ip_rules c) st"
    by (rule select_ok[OF assms(2,1,3) sel])
  show "dom (sites (pol_geo p)) = wanted_sites (domain_rules c)" "dom (ips (pol_geo p)) = wanted_ips (ip_rules c)"
    using st p by (simp_all add: sites_inv_def ips_inv_def)
  show "ips (pol_geo p) tag = Some ns \<Longrightarrow> entry_value (decode_ip N) (cat_ips cat) tag = Inr (Some ns)"
    using st p by (simp add: ips_inv_def)
qed

lemma geoip_entry:
  assumes "ipnet_laws N" and "entry_value (decode_ip N) f tag = Inr (Some ns)"
  obtains rng cidrs r' where "entries f tag = Some rng"
    and "within rng (fold_fields (ip_field N) []) (reader_new (contents f)) = Inr (cidrs, r')"
    and "\<And>ip. ranges_match N ns ip \<longleftrightarrow> (\<exists>n \<in> set cidrs. contains_ip N n ip)"
proof -
  obtain rng r' where r: "entries f tag = Some rng"
      "within rng (decode_ip N) (reader_new (contents f)) = Inr (ns, r')"
    using assms(2) by (auto simp: entry_value_def split: option.splits)
  obtain cidrs where c: "within rng (fold_fields (ip_field N) []) (reader_new (contents f)) = Inr (cidrs, r')"
      "\<forall>n \<in> set cidrs. aligned_net n" "ns = aggregate_ipv4 N cidrs"
    by (rule within_decode_ip[OF assms(1) r(2)])
  show thesis
    using that[OF r(1) c(1)] ipnet_laws.lookup_after_aggregate[OF assms(1) c(2)] c(3) by simp
qed

section \<open>Properties\<close>

text \<open>C8: A DNS query never takes a less protected path than the connection that follows it: for every
  address that the name may resolve to outside the LAN, the target of the connection ranks at most as
  high as the target of the query (blocked, direct, VPN, WARP in this order). This includes the early
  return at an IPv4 catch-all rule.\<close>

theorem dns_never_less_protected:
  assumes "ipnet_laws N" and "compile X N live_sites live_ips c g = (Inr p, cat)"
    and "\<not> is_lan_destination N ip"
  shows "rank (target p domain ip) \<le> rank (dns_target p domain)"
proof -
  have p: "policy_ok p" "pol_config p = c" "pol_net p = N" using compile_ok[OF assms(2)] by auto
  show ?thesis
    using dns_search_covers[of p domain ip "rule_refs p" Block] assms(1,3) p
    by (cases "mode c") (auto simp: target_def dns_target_def effective_fallback_def split: option.splits)
qed

definition witness_policy :: "string policy" where
  "witness_policy = \<lparr>pol_regex = witness_regex, pol_net = std_ipnet,
     pol_config = \<lparr>domain_rules = [], ip_rules = [\<lparr>ir_name = ''all'', ir_enabled = True,
       ir_matcher = Cidr ''0.0.0.0/0'', ir_target = Warp\<rparr>], default_target = Direct, mode = Rules, rule_order = None\<rparr>,
     pol_geo = empty_geodata, pol_nets = [Some (net 0 0 0 0 0)]\<rparr>"

lemma witness_policy_compile: "compile witness_regex std_ipnet (\<lambda>_. True) (\<lambda>_. True) (pol_config witness_policy) empty_geodata =
    (Inr witness_policy, None)"
proof -
  have "char_of (48::nat) = CHR ''0''" by code_simp
  then have "std_net_show (net 0 0 0 0 0) = ''0.0.0.0/0''"
    by (simp add: std_net_show_def show_ipv4_def ip_octets_def net_def octets_addr_def digits.simps)
  then have "std_net_parse ''0.0.0.0/0'' = Some (net 0 0 0 0 0)"
    using std_parse_show[of "net 0 0 0 0 0"] by (simp add: valid_net_def net_def)
  then show ?thesis
    by (simp add: compile_def witness_policy_def select_def empty_geodata_def check_sites_def compile_ip_rule_def std_ipnet_def)
qed

theorem dns_never_less_protected_witness:
  "rank (target witness_policy ''example.org'' (octets_addr 1 1 1 1)) \<le> rank (dns_target witness_policy ''example.org'') \<and>
   dns_target witness_policy ''example.org'' = Warp"
proof
  have "\<not> is_lan_destination std_ipnet (octets_addr 1 1 1 1)"
    by (simp add: is_lan_destination_def LAN_RANGES_def std_ipnet_def net_def octets_addr_def net_first_def
        net_last_def net_size_def)
  then show "rank (target witness_policy ''example.org'' (octets_addr 1 1 1 1)) \<le> rank (dns_target witness_policy ''example.org'')"
    using dns_never_less_protected[OF std.ipnet_laws_axioms witness_policy_compile] by blast
  show "dns_target witness_policy ''example.org'' = Warp"
    by (simp add: dns_target_def rule_refs_def witness_policy_def nth_opt_def protect_def net_def)
qed

text \<open>A policy that does not use WARP never routes anything through WARP: no connection, no address,
  and no DNS query. The agent relies on this when it decides whether to require the WARP route.\<close>

theorem no_warp_without_use:
  assumes "\<not> uses_warp p"
  shows "target p domain ip \<noteq> Warp \<and> dns_target p domain \<noteq> Warp \<and>
     (\<forall>name. ip_target p ip \<noteq> Some (Warp, name)) \<and> (\<forall>name. domain_target p domain \<noteq> Some (Warp, name))"
proof (cases "mode (pol_config p)")
  case All
  then show ?thesis by (simp add: target_def dns_target_def ip_target_def domain_target_def)
next
  case Rules
  have no: "default_target (pol_config p) \<noteq> Warp"
      "\<forall>rule \<in> set (domain_rules (pol_config p)). dr_enabled rule \<longrightarrow> dr_target rule \<noteq> Warp"
      "\<forall>rule \<in> set (ip_rules (pol_config p)). ir_enabled rule \<longrightarrow> ir_target rule \<noteq> Warp"
    using assms Rules by (auto simp: uses_warp_def list_ex_iff)
  have "target p domain ip \<noteq> Warp"
    using no find_map_ref_target[of p domain ip "rule_refs p"] Rules
    by (auto simp: target_def effective_fallback_def split: option.splits)
  moreover have "dns_target p domain \<noteq> Warp"
    using no dns_search_outcome[of p domain Block "rule_refs p"] Rules by (auto simp: dns_target_def)
  moreover have "ip_target p ip \<noteq> Some (Warp, name)" for name
    using no ip_rule_search_target[of p ip "ip_rule_indices p" Warp name] Rules
    by (auto simp: ip_target_def effective_fallback_def)
  moreover have "domain_target p domain \<noteq> Some (Warp, name)" for name
    using no(2) Rules by (auto simp: domain_target_def configured_domain_target_def dest!: found_domain_rule)
  ultimately show ?thesis by blast
qed

theorem no_warp_without_use_witness:
  "target (witness_policy\<lparr>pol_config := (pol_config witness_policy)\<lparr>mode := All\<rparr>\<rparr>) ''a'' 0 \<noteq> Warp"
  using no_warp_without_use[of "witness_policy\<lparr>pol_config := (pol_config witness_policy)\<lparr>mode := All\<rparr>\<rparr>" "''a''" 0]
  by (simp add: uses_warp_def)

text \<open>Without an explicit order, domain rules come before address rules: a connection outside the
  LAN goes to the first matching domain rule, and to the address decision when no domain rule
  matches; the address decision never fails.\<close>

theorem default_order_domain_first:
  assumes "rule_order (pol_config p) = None" and "\<not> is_lan_destination (pol_net p) ip"
  shows "\<exists>t name. ip_target p ip = Some (t, name) \<and>
     target p domain ip = (case domain_target p domain of Some (t', _) \<Rightarrow> t' | None \<Rightarrow> t)"
proof (cases "mode (pol_config p)")
  case All
  then show ?thesis using assms(2) by (simp add: ip_target_def target_def domain_target_def)
next
  case Rules
  let ?ds = "[0..<length (domain_rules (pol_config p))]" and ?is = "[0..<length (ip_rules (pol_config p))]"
  have refs: "rule_refs p = map Domain_Ref ?ds @ map Ip_Ref ?is" using assms(1) by (simp add: rule_refs_def)
  have idx: "ip_rule_indices p = ?is" using Rules by (simp add: ip_rule_indices_def refs ip_indices_default)
  obtain t name where s: "ip_rule_search p ip ?is = Some (t, name)"
    using ip_rule_search_total[of ?is p ip] by auto
  have t: "t = (case find_map (ref_target p domain ip) (map Ip_Ref ?is) of Some t \<Rightarrow> t | None \<Rightarrow> effective_fallback p)"
    using ip_rule_search_find_map[of ?is p ip domain] s by simp
  have "target p domain ip = (case domain_target p domain of Some (t', _) \<Rightarrow> t' | None \<Rightarrow> t)"
    unfolding target_def domain_target_def configured_domain_target_def refs t find_map_append find_map_domain_refs
      map_filter_append map_filter_ip_refs
    using Rules assms(2) by (auto split: option.splits)
  then show ?thesis using s idx Rules assms(2) by (simp add: ip_target_def)
qed

theorem default_order_domain_first_witness:
  "\<exists>t name. ip_target witness_policy (octets_addr 1 1 1 1) = Some (t, name) \<and>
     target witness_policy ''a'' (octets_addr 1 1 1 1) =
       (case domain_target witness_policy ''a'' of Some (t', _) \<Rightarrow> t' | None \<Rightarrow> t)"
  by (rule default_order_domain_first)
    (simp_all add: witness_policy_def is_lan_destination_def LAN_RANGES_def std_ipnet_def net_def octets_addr_def
      net_first_def net_last_def net_size_def)

text \<open>C20: An enabled GeoIP rule of a compiled policy matches an address exactly when one of the networks
  that the country's entry of the open \<^verbatim>\<open>geoip.dat\<close> lists contains it: indexing, the shared cache,
  decoding, aggregation and binary search together lose and add nothing.\<close>

theorem geoip_rule_exact:
  assumes "ipnet_laws N" and "catalog_run X N cat" and "source g = Some cat" and "mode c = Rules"
    and "compile X N live_sites live_ips c g = (Inr p, cat')"
    and "i < length (ip_rules c)" and "ir_enabled (ip_rules c ! i)" and "ir_matcher (ip_rules c ! i) = GeoIp tag"
  shows "\<exists>rng cidrs r'. entries (cat_ips cat) tag = Some rng \<and>
     within rng (fold_fields (ip_field N) []) (reader_new (contents (cat_ips cat))) = Inr (cidrs, r') \<and>
     (\<forall>ip. matches_ip_rule p i ip \<longleftrightarrow> (\<exists>n \<in> set cidrs. contains_ip N n ip))"
proof -
  note geo = compile_geodata[OF catalog_run_ok[OF assms(2)] assms(3-5)]
  have "tag \<in> wanted_ips (ip_rules c)" using assms(6-8) by (auto simp: wanted_ips_def)
  then obtain ns where ns: "ips (pol_geo p) tag = Some ns" using geo(2) by (auto simp: dom_def)
  have "entry_value (decode_ip N) (cat_ips cat) tag = Inr (Some ns)" using geo(3)[OF ns] .
  then obtain rng cidrs r' where "entries (cat_ips cat) tag = Some rng"
      "within rng (fold_fields (ip_field N) []) (reader_new (contents (cat_ips cat))) = Inr (cidrs, r')"
      "\<And>ip. ranges_match N ns ip \<longleftrightarrow> (\<exists>n \<in> set cidrs. contains_ip N n ip)"
    using geoip_entry[OF assms(1)] by metis
  moreover have "matches_ip_rule p i ip = ranges_match N ns ip" for ip
    using compile_ok[OF assms(5)] assms(8) ns by (simp add: matches_ip_rule_def matches_ip_def ip_networks_def)
  ultimately show ?thesis by blast
qed

theorem geoip_rule_exact_witness:
  "\<exists>p cat' rng cidrs r'.
     compile witness_regex std_ipnet (\<lambda>_. True) (\<lambda>_. True) witness_config (empty_geodata\<lparr>source := Some witness_catalog\<rparr>) =
       (Inr p, cat') \<and>
     within rng (fold_fields (ip_field std_ipnet) []) (reader_new (contents (cat_ips witness_catalog))) = Inr (cidrs, r') \<and>
     (\<forall>ip. matches_ip_rule p 0 ip \<longleftrightarrow> (\<exists>n \<in> set cidrs. contains_ip std_ipnet n ip))"
proof -
  let ?g = "empty_geodata\<lparr>source := Some witness_catalog\<rparr>"
  have run: "catalog_run witness_regex std_ipnet witness_catalog"
    by (rule catalog_run.loaded[OF witness_load]) simp
  obtain p cat' where c: "compile witness_regex std_ipnet (\<lambda>_. True) (\<lambda>_. True) witness_config ?g = (Inr p, cat')"
    by (simp add: compile_def select_def select_loops_def witness_config_def initial_selection_def select_ip_def
        indexed_get_def witness_catalog_def witness_decode count_intervals_def ip_networks_def interval_count_def
        sat_add_def COMPACT_LIMITS_def empty_geodata_def check_sites_def compile_ip_rule_def has_ip_def)
  show ?thesis
    using geoip_rule_exact[OF std.ipnet_laws_axioms run _ _ c, of 0 "''ru''"] c
    by (simp add: witness_config_def) blast
qed

end
