(* ===== verification/Nft.thy ===== *)
theory Nft
  imports Model
begin

text \<open>
  The part of the nftables language that the agent writes: rules as lists of expressions, their
  text, and what the kernel does with them on a packet (the expressions of a rule are evaluated from
  left to right; a match that fails ends the rule, a verdict ends the chain). The data plane renders
  to this syntax, so the text that reaches \<^verbatim>\<open>nft -f -\<close> and the meaning that the theorems use come from
  the same value.
\<close>

unbundle bit_operations_syntax

section \<open>Syntax\<close>

datatype proto = Tcp | Udp | Other_Proto

datatype nft_item =
    Iifname string | Iifname_Not string | Oifname string | Oifname_Not string
  | Nfproto_Ipv4 | Nfproto_Ipv6
  | Excluded_Mac | Not_Excluded_Mac
  | Ct_Original | Ct_Reply
  | Daddr ipv4 | Daddr_Text string | Daddr_In_Set string | Daddr_List "string list" | Daddr_Local
  | L4_Not_Tcp | Dns_Ports | Dport proto nat | Tcp_Dport_In "nat list" | Tcp_Dport_Not_In "nat list"
  | Mark_Is u32 | Mark_Not u32 | Mark_Clear_Bits
  | Reply_Daddr_In string | Reply_Daddr_Not ipv4 | Ct_Confirmed
  | Syn_Only | Mss_Above u16
  | Mark_Set u32 | Ct_Mark_Set u32 | Ct_Mark_Or_Dns | Mark_Keep_Foreign
  | Mss_Set u16
  | Dnat_To ipv4 nat | Dnat_Map | Snat_To ipv4 | Redirect nat
  | Drop_Packet | Return_Chain | Reject_Ipv6

type_synonym nft_rule = "nft_item list"

definition KEEP_FOREIGN_MARKS :: u32 where "KEEP_FOREIGN_MARKS = 0xfff8ffff"
definition GOFRO_MARK_MASK :: u32 where "GOFRO_MARK_MASK = 0x70000"
definition DNS_OWNER_BIT :: u32 where "DNS_OWNER_BIT = 0x40000000"

section \<open>Text\<close>

definition quoted :: "string \<Rightarrow> string" where
  "quoted s = [CHR 0x22] @ s @ [CHR 0x22]"

definition show_ports :: "nat list \<Rightarrow> string" where
  "show_ports ports = join '', '' (map digits ports)"

fun show_proto :: "proto \<Rightarrow> string" where
  "show_proto Tcp = ''tcp''"
| "show_proto Udp = ''udp''"
| "show_proto Other_Proto = ''ip''"

fun show_item :: "nft_item \<Rightarrow> string" where
  "show_item (Iifname d) = ''iifname '' @ quoted d"
| "show_item (Iifname_Not d) = ''iifname != '' @ quoted d"
| "show_item (Oifname d) = ''oifname '' @ quoted d"
| "show_item (Oifname_Not d) = ''oifname != '' @ quoted d"
| "show_item Nfproto_Ipv4 = ''meta nfproto ipv4''"
| "show_item Nfproto_Ipv6 = ''meta nfproto ipv6''"
| "show_item Excluded_Mac = ''ether saddr @device_exclusions''"
| "show_item Not_Excluded_Mac = ''ether saddr != @device_exclusions''"
| "show_item Ct_Original = ''ct direction original''"
| "show_item Ct_Reply = ''ct direction reply''"
| "show_item (Daddr a) = ''ip daddr '' @ show_ipv4 a"
| "show_item (Daddr_Text t) = ''ip daddr '' @ t"
| "show_item (Daddr_In_Set s) = ''ip daddr @'' @ s"
| "show_item (Daddr_List ts) = ''ip daddr { '' @ join '', '' ts @ '' }''"
| "show_item Daddr_Local = ''fib daddr type local''"
| "show_item L4_Not_Tcp = ''meta l4proto != tcp''"
| "show_item Dns_Ports = ''meta l4proto { tcp, udp } th dport 53''"
| "show_item (Dport p n) = show_proto p @ '' dport '' @ digits n"
| "show_item (Tcp_Dport_In ps) = ''tcp dport { '' @ show_ports ps @ '' }''"
| "show_item (Tcp_Dport_Not_In ps) = ''tcp dport != { '' @ show_ports ps @ '' }''"
| "show_item (Mark_Is m) = ''meta mark & 0x70000 == '' @ digits (unat m)"
| "show_item (Mark_Not m) = ''meta mark & 0x70000 != '' @ digits (unat m)"
| "show_item Mark_Clear_Bits = ''meta mark & 0x70000 == 0''"
| "show_item (Reply_Daddr_In t) = ''ct reply ip daddr '' @ t"
| "show_item (Reply_Daddr_Not a) = ''ct reply ip daddr != '' @ show_ipv4 a"
| "show_item Ct_Confirmed = ''ct status confirmed''"
| "show_item Syn_Only = ''tcp flags & (syn | rst) == syn''"
| "show_item (Mss_Above n) = ''tcp option maxseg size > '' @ digits (unat n)"
| "show_item (Mark_Set m) = ''meta mark set (meta mark & 0xfff8ffff) | '' @ digits (unat m)"
| "show_item (Ct_Mark_Set m) = ''ct mark set (ct mark & 0xfff8ffff) | '' @ digits (unat m)"
| "show_item Ct_Mark_Or_Dns = ''ct mark set ct mark | 0x40000000''"
| "show_item Mark_Keep_Foreign = ''meta mark set meta mark & 0xfff8ffff''"
| "show_item (Mss_Set n) = ''tcp option maxseg size set '' @ digits (unat n)"
| "show_item (Dnat_To a p) = ''dnat ip to '' @ show_ipv4 a @ '':'' @ digits p"
| "show_item Dnat_Map = ''dnat ip to ip daddr map @fake_to_real''"
| "show_item (Snat_To a) = ''snat ip to '' @ show_ipv4 a"
| "show_item (Redirect p) = ''redirect to :'' @ digits p"
| "show_item Drop_Packet = ''drop''"
| "show_item Return_Chain = ''return''"
| "show_item Reject_Ipv6 = ''reject with icmpv6 type admin-prohibited''"

definition show_rule :: "string \<Rightarrow> string \<Rightarrow> nft_rule \<Rightarrow> string" where
  "show_rule table chain items =
     ''add rule inet '' @ table @ '' '' @ chain @ '' '' @ join '' '' (map show_item items) @ [CHR 0x0A]"

section \<open>Packets\<close>

record packet =
  pk_iif :: string
  pk_oif :: string
  pk_ipv4 :: bool
  pk_mac :: mac_address
  pk_daddr :: ipv4
  pk_local :: bool
  pk_proto :: proto
  pk_dport :: nat
  pk_original :: bool
  pk_confirmed :: bool
  pk_reply_daddr :: ipv4
  pk_syn :: bool
  pk_mss :: u16
  pk_mark :: u32
  pk_ct_mark :: u32

text \<open>
  What the kernel knows beside the rules: the named sets (by address), the excluded devices, the map
  of FakeDNS addresses, and the meaning of an address text such as a CIDR.
\<close>

record nft_state =
  st_excluded :: "mac_address list"
  st_set :: "string \<Rightarrow> ipv4 \<Rightarrow> bool"
  st_text :: "string \<Rightarrow> ipv4 \<Rightarrow> bool"
  st_fake :: "ipv4 \<rightharpoonup> ipv4"

datatype verdict = Dropped | Returned | Nat_To ipv4 "nat option" | Source_Nat ipv4 | Redirected nat | Rejected

datatype step = Continue packet | Stop_Rule packet | Verdict verdict packet

definition check :: "bool \<Rightarrow> packet \<Rightarrow> step" where
  "check b pk = (if b then Continue pk else Stop_Rule pk)"

fun eval_item :: "nft_state \<Rightarrow> nft_item \<Rightarrow> packet \<Rightarrow> step" where
  "eval_item S (Iifname d) pk = check (pk_iif pk = d) pk"
| "eval_item S (Iifname_Not d) pk = check (pk_iif pk \<noteq> d) pk"
| "eval_item S (Oifname d) pk = check (pk_oif pk = d) pk"
| "eval_item S (Oifname_Not d) pk = check (pk_oif pk \<noteq> d) pk"
| "eval_item S Nfproto_Ipv4 pk = check (pk_ipv4 pk) pk"
| "eval_item S Nfproto_Ipv6 pk = check (\<not> pk_ipv4 pk) pk"
| "eval_item S Excluded_Mac pk = check (pk_mac pk \<in> set (st_excluded S)) pk"
| "eval_item S Not_Excluded_Mac pk = check (pk_mac pk \<notin> set (st_excluded S)) pk"
| "eval_item S Ct_Original pk = check (pk_original pk) pk"
| "eval_item S Ct_Reply pk = check (\<not> pk_original pk) pk"
| "eval_item S (Daddr a) pk = check (pk_ipv4 pk \<and> pk_daddr pk = a) pk"
| "eval_item S (Daddr_Text t) pk = check (pk_ipv4 pk \<and> st_text S t (pk_daddr pk)) pk"
| "eval_item S (Daddr_In_Set s) pk = check (pk_ipv4 pk \<and> st_set S s (pk_daddr pk)) pk"
| "eval_item S (Daddr_List ts) pk = check (pk_ipv4 pk \<and> list_ex (\<lambda>t. st_text S t (pk_daddr pk)) ts) pk"
| "eval_item S Daddr_Local pk = check (pk_local pk) pk"
| "eval_item S L4_Not_Tcp pk = check (pk_proto pk \<noteq> Tcp) pk"
| "eval_item S Dns_Ports pk = check (pk_proto pk \<in> {Tcp, Udp} \<and> pk_dport pk = 53) pk"
| "eval_item S (Dport p n) pk = check (pk_proto pk = p \<and> pk_dport pk = n) pk"
| "eval_item S (Tcp_Dport_In ps) pk = check (pk_proto pk = Tcp \<and> pk_dport pk \<in> set ps) pk"
| "eval_item S (Tcp_Dport_Not_In ps) pk = check (pk_proto pk = Tcp \<and> pk_dport pk \<notin> set ps) pk"
| "eval_item S (Mark_Is m) pk = check (pk_mark pk AND GOFRO_MARK_MASK = m) pk"
| "eval_item S (Mark_Not m) pk = check (pk_mark pk AND GOFRO_MARK_MASK \<noteq> m) pk"
| "eval_item S Mark_Clear_Bits pk = check (pk_mark pk AND GOFRO_MARK_MASK = 0) pk"
| "eval_item S (Reply_Daddr_In t) pk = check (st_text S t (pk_reply_daddr pk)) pk"
| "eval_item S (Reply_Daddr_Not a) pk = check (pk_reply_daddr pk \<noteq> a) pk"
| "eval_item S Ct_Confirmed pk = check (pk_confirmed pk) pk"
| "eval_item S Syn_Only pk = check (pk_proto pk = Tcp \<and> pk_syn pk) pk"
| "eval_item S (Mss_Above n) pk = check (n < pk_mss pk) pk"
| "eval_item S (Mark_Set m) pk = Continue (pk\<lparr>pk_mark := (pk_mark pk AND KEEP_FOREIGN_MARKS) OR m\<rparr>)"
| "eval_item S (Ct_Mark_Set m) pk = Continue (pk\<lparr>pk_ct_mark := (pk_ct_mark pk AND KEEP_FOREIGN_MARKS) OR m\<rparr>)"
| "eval_item S Ct_Mark_Or_Dns pk = Continue (pk\<lparr>pk_ct_mark := pk_ct_mark pk OR DNS_OWNER_BIT\<rparr>)"
| "eval_item S Mark_Keep_Foreign pk = Continue (pk\<lparr>pk_mark := pk_mark pk AND KEEP_FOREIGN_MARKS\<rparr>)"
| "eval_item S (Mss_Set n) pk = Continue (pk\<lparr>pk_mss := n\<rparr>)"
| "eval_item S (Dnat_To a p) pk = Verdict (Nat_To a (Some p)) pk"
| "eval_item S Dnat_Map pk =
     (case st_fake S (pk_daddr pk) of
        Some real \<Rightarrow> if pk_ipv4 pk then Verdict (Nat_To real None) pk else Stop_Rule pk
      | None \<Rightarrow> Stop_Rule pk)"
| "eval_item S (Snat_To a) pk = Verdict (Source_Nat a) pk"
| "eval_item S (Redirect p) pk = Verdict (Redirected p) pk"
| "eval_item S Drop_Packet pk = Verdict Dropped pk"
| "eval_item S Return_Chain pk = Verdict Returned pk"
| "eval_item S Reject_Ipv6 pk = Verdict Rejected pk"

fun eval_rule :: "nft_state \<Rightarrow> nft_rule \<Rightarrow> packet \<Rightarrow> step" where
  "eval_rule S [] pk = Continue pk"
| "eval_rule S (i # is) pk =
     (case eval_item S i pk of Continue pk' \<Rightarrow> eval_rule S is pk' | other \<Rightarrow> other)"

text \<open>The end of a chain without a verdict, or a return from a base chain, accepts the packet.\<close>

fun eval_chain :: "nft_state \<Rightarrow> nft_rule list \<Rightarrow> packet \<Rightarrow> verdict option \<times> packet" where
  "eval_chain S [] pk = (None, pk)"
| "eval_chain S (r # rs) pk =
     (case eval_rule S r pk of
        Verdict Returned pk' \<Rightarrow> (None, pk')
      | Verdict v pk' \<Rightarrow> (Some v, pk')
      | Continue pk' \<Rightarrow> eval_chain S rs pk'
      | Stop_Rule pk' \<Rightarrow> eval_chain S rs pk')"

section \<open>Lemmas\<close>

lemma check_simps [simp]: "check True pk = Continue pk" "check False pk = Stop_Rule pk"
  by (simp_all add: check_def)

definition gofro_mark_value :: "u32 \<Rightarrow> bool" where
  "gofro_mark_value m \<longleftrightarrow> m AND GOFRO_MARK_MASK = m"

lemma mask_keep: "KEEP_FOREIGN_MARKS AND GOFRO_MARK_MASK = 0"
  by (simp add: KEEP_FOREIGN_MARKS_def GOFRO_MARK_MASK_def)

lemma kept_masked [simp]: "(x AND KEEP_FOREIGN_MARKS) AND GOFRO_MARK_MASK = 0"
  by (simp add: and.assoc mask_keep)

lemma set_masked:
  assumes "gofro_mark_value m"
  shows "((x AND KEEP_FOREIGN_MARKS) OR m) AND GOFRO_MARK_MASK = m"
  using assms by (simp add: bit.conj_disj_distrib2 gofro_mark_value_def)

lemma set_foreign:
  assumes "gofro_mark_value m"
  shows "((x AND KEEP_FOREIGN_MARKS) OR m) AND KEEP_FOREIGN_MARKS = x AND KEEP_FOREIGN_MARKS"
proof -
  have "m AND KEEP_FOREIGN_MARKS = m AND (GOFRO_MARK_MASK AND KEEP_FOREIGN_MARKS)"
    using assms by (metis and.assoc gofro_mark_value_def)
  also have "\<dots> = 0" using mask_keep by (simp add: and.commute)
  finally show ?thesis by (simp add: bit.conj_disj_distrib2 and.assoc)
qed

text \<open>A rule that ends without a verdict.\<close>

definition passes :: "nft_state \<Rightarrow> nft_rule list \<Rightarrow> packet \<Rightarrow> packet \<Rightarrow> bool" where
  "passes S rs pk pk' \<longleftrightarrow> (\<forall>rest. eval_chain S (rs @ rest) pk = eval_chain S rest pk')"

lemma passes_Nil [simp]: "passes S [] pk pk"
  by (simp add: passes_def)

lemma passes_append: "passes S rs pk pk' \<Longrightarrow> passes S rs' pk' pk'' \<Longrightarrow> passes S (rs @ rs') pk pk''"
  by (simp add: passes_def)

lemma passes_Cons:
  "eval_rule S r pk = Continue pk' \<or> eval_rule S r pk = Stop_Rule pk' \<Longrightarrow> passes S rs pk' pk'' \<Longrightarrow>
     passes S (r # rs) pk pk''"
  by (auto simp: passes_def)

lemma passes_eval: "passes S rs pk pk' \<Longrightarrow> eval_chain S (rs @ rest) pk = eval_chain S rest pk'"
  by (simp add: passes_def)

text \<open>Rules whose first match fails leave the packet alone.\<close>

lemma passes_skip: "\<forall>r \<in> set rs. eval_rule S r pk = Stop_Rule pk \<Longrightarrow> passes S rs pk pk"
  by (induction rs) (auto intro: passes_Cons)

end
