(* ===== verification/Dataplane.thy ===== *)
theory Dataplane
  imports Routing Nft
begin

text \<open>
  The packet rules of the agent (\<^verbatim>\<open>gofro-agent/src/dataplane.rs\<close>): the marks, the effect of the VPN
  switch on a target, the FakeDNS mappings, the guard table and the routing table. Each
  \<^verbatim>\<open>writeln!\<close> of the code is one command here, in the same order; \<open>show_command\<close> gives its text.
  The same commands define the kernel state (\<open>loaded_state\<close>) and the chains (\<open>chain_rules\<close>) that the
  theorems evaluate.
\<close>

unbundle bit_operations_syntax

section \<open>Marks and targets\<close>

definition DIRECT_MARK :: u32 where "DIRECT_MARK = 0x10000"
definition VPN_MARK :: u32 where "VPN_MARK = 0x20000"
definition BLOCK_MARK :: u32 where "BLOCK_MARK = 0x30000"
definition WARP_MARK :: u32 where "WARP_MARK = 0x60000"
definition TABLE :: string where "TABLE = ''gofro_routing''"
definition GUARD_TABLE :: string where "GUARD_TABLE = ''gofro_guard''"
definition SOURCE_SUBNET :: string where "SOURCE_SUBNET = ''10.202.1.0/24''"

definition FAKE_TARGET_SETS :: "(route_target \<times> string) list" where
  "FAKE_TARGET_SETS = [(Direct, ''fake_direct''), (Vpn, ''fake_vpn''), (Warp, ''fake_warp''), (Block, ''fake_block'')]"

definition source_address :: "ipv4 \<Rightarrow> ipv4 option" where
  "source_address a =
     (case ip_octets a of
        [x, y, z, host] \<Rightarrow>
          if x = 10 \<and> y = 202 \<and> z = 0 \<and> 2 \<le> host \<and> host \<le> 254 then Some (octets_addr 10 202 1 host) else None
      | _ \<Rightarrow> None)"

record vpn_egress =
  egress_enabled :: bool
  warp_source :: "ipv4 option"

definition effective_target :: "route_target \<Rightarrow> bool \<Rightarrow> route_target" where
  "effective_target t enabled =
     (if t = Vpn \<and> \<not> enabled then Direct else if t = Warp \<and> \<not> enabled then Block else t)"

definition egress_target :: "vpn_egress \<Rightarrow> route_target \<Rightarrow> route_target" where
  "egress_target e t =
     (if t = Warp \<and> warp_source e = None then Block else effective_target t (egress_enabled e))"

definition egress_from_config :: "ipnet \<Rightarrow> controller_config \<Rightarrow> vpn_egress" where
  "egress_from_config N c = \<lparr>egress_enabled = vpn_enabled c,
     warp_source =
       (case find (\<lambda>s. Some (sp_public_key s) = active_server_key c) (servers c) of
          None \<Rightarrow> None
        | Some s \<Rightarrow>
            if management s = None then None
            else Option.bind (client_tunnel_address s) (\<lambda>a.
              Option.bind (net_parse N a) (\<lambda>n. source_address (net_addr n))))\<rparr>"

fun target_mark :: "route_target \<Rightarrow> u32" where
  "target_mark Direct = DIRECT_MARK"
| "target_mark Vpn = VPN_MARK"
| "target_mark Warp = WARP_MARK"
| "target_mark Block = BLOCK_MARK"

record fake_mapping =
  fm_fake :: ipv4
  fm_real :: ipv4
  fm_target :: route_target

section \<open>Commands\<close>

datatype nft_element = El_Mac mac_address | El_Addr ipv4 | El_Range "ipv4 \<times> ipv4" | El_Map ipv4 ipv4

datatype nft_command =
    Destroy_Table string
  | Add_Table string
  | Add_Set string string string
  | Add_Map string string string
  | Add_Elements string string "nft_element list"
  | Delete_Elements string string "nft_element list"
  | Flush_Set string string
  | Add_Chain string string string
  | Add_Rule string string nft_rule

fun show_element :: "nft_element \<Rightarrow> string" where
  "show_element (El_Mac m) = mac_show m"
| "show_element (El_Addr a) = show_ipv4 a"
| "show_element (El_Range r) = show_range r"
| "show_element (El_Map f r) = show_ipv4 f @ '' : '' @ show_ipv4 r"

definition newline :: string where "newline = [CHR 0x0A]"

fun show_command :: "nft_command \<Rightarrow> string" where
  "show_command (Destroy_Table t) = ''destroy table inet '' @ t @ newline"
| "show_command (Add_Table t) = ''add table inet '' @ t @ newline"
| "show_command (Add_Set t s k) = ''add set inet '' @ t @ '' '' @ s @ '' { '' @ k @ '' }'' @ newline"
| "show_command (Add_Map t s k) = ''add map inet '' @ t @ '' '' @ s @ '' { '' @ k @ '' }'' @ newline"
| "show_command (Add_Elements t s es) =
     ''add element inet '' @ t @ '' '' @ s @ '' { '' @ join '', '' (map show_element es) @ '' }'' @ newline"
| "show_command (Delete_Elements t s es) =
     ''delete element inet '' @ t @ '' '' @ s @ '' { '' @ join '', '' (map show_element es) @ '' }'' @ newline"
| "show_command (Flush_Set t s) = ''flush set inet '' @ t @ '' '' @ s @ newline"
| "show_command (Add_Chain t c k) = ''add chain inet '' @ t @ '' '' @ c @ '' { '' @ k @ '' }'' @ newline"
| "show_command (Add_Rule t c items) = show_rule t c items"

definition show_script :: "nft_command list \<Rightarrow> string" where
  "show_script cs = concat (map show_command cs)"

section \<open>The guard and the device exclusions\<close>

definition render_exclusion_set :: "string \<Rightarrow> mac_address list \<Rightarrow> nft_command list" where
  "render_exclusion_set table exclusions =
     Add_Set table ''device_exclusions'' ''type ether_addr;'' #
     (if exclusions = [] then [] else [Add_Elements table ''device_exclusions'' (map El_Mac exclusions)])"

definition render_guard_with_exclusions :: "lan_context \<Rightarrow> mac_address list \<Rightarrow> nft_command list" where
  "render_guard_with_exclusions lan exclusions =
     [Destroy_Table GUARD_TABLE, Add_Table GUARD_TABLE] @ render_exclusion_set GUARD_TABLE exclusions @
     [Add_Chain GUARD_TABLE ''gofro_guard'' ''type filter hook forward priority filter; policy accept;'',
      Add_Rule GUARD_TABLE ''gofro_guard''
        ([Iifname (device lan), Oifname_Not (device lan)] @
         (if exclusions = [] then [] else [Not_Excluded_Mac]) @ [Drop_Packet])]"

definition render_publish_exclusions :: "lan_context \<Rightarrow> mac_address list \<Rightarrow> nft_command list" where
  "render_publish_exclusions lan exclusions =
     Flush_Set TABLE ''device_exclusions'' #
     (if exclusions = [] then [] else [Add_Elements TABLE ''device_exclusions'' (map El_Mac exclusions)]) @
     render_guard_with_exclusions lan exclusions"

definition render_startup :: "lan_context \<Rightarrow> mac_address list \<Rightarrow> bool \<Rightarrow> bool \<Rightarrow> unit + nft_command list" where
  "render_startup lan exclusions table_exists has_set =
     (if table_exists \<and> has_set then Inr (render_publish_exclusions lan exclusions)
      else and_then (ensure (\<not> table_exists \<or> exclusions = []) ()) (\<lambda>_.
        Inr (render_guard_with_exclusions lan exclusions)))"

section \<open>FakeDNS elements\<close>

definition append_target_elements :: "fake_mapping list \<Rightarrow> (string \<Rightarrow> string \<Rightarrow> nft_element list \<Rightarrow> nft_command) \<Rightarrow>
    nft_command list" where
  "append_target_elements mappings operation =
     concat (map (\<lambda>(t, s).
       let keys = filter (\<lambda>m. fm_target m = t) mappings in
       if keys = [] then [] else [operation TABLE s (map (\<lambda>m. El_Addr (fm_fake m)) keys)]) FAKE_TARGET_SETS)"

definition append_mappings :: "fake_mapping list \<Rightarrow> nft_command list" where
  "append_mappings mappings =
     (if mappings = [] then []
      else Add_Elements TABLE ''fake_to_real'' (map (\<lambda>m. El_Map (fm_fake m) (fm_real m)) mappings) #
           append_target_elements mappings Add_Elements)"

definition remove_mappings :: "fake_mapping list \<Rightarrow> nft_command list" where
  "remove_mappings mappings =
     (if mappings = [] then []
      else Delete_Elements TABLE ''fake_to_real'' (map (\<lambda>m. El_Addr (fm_fake m)) mappings) #
           append_target_elements mappings Delete_Elements)"

section \<open>The routing table\<close>

definition port_set :: "u16 list \<Rightarrow> nat list" where
  "port_set ports = sort (remdups (map unat ports))"

definition ip_rule_set :: "nat \<Rightarrow> string" where
  "ip_rule_set index = ''ip_rule_'' @ digits index"

definition enabled_ip_rules :: "'r policy \<Rightarrow> (nat \<times> ip_rule) list" where
  "enabled_ip_rules p =
     filter (\<lambda>(_, rule). ir_enabled rule) (map (\<lambda>i. (i, ip_rules (pol_config p) ! i)) (ip_rule_indices p))"

definition rule_sets :: "'r policy \<Rightarrow> nft_command list" where
  "rule_sets p =
     concat (map (\<lambda>(i, rule).
       case ir_matcher rule of
         GeoIp tag \<Rightarrow>
           (let networks = ip_networks (pol_geo p) tag in
            Add_Set TABLE (ip_rule_set i) ''type ipv4_addr; flags interval; auto-merge;'' #
            (if networks = [] then []
             else [Add_Elements TABLE (ip_rule_set i) (map El_Range (merged_ranges (pol_net p) networks))]))
       | Cidr _ \<Rightarrow> []) (enabled_ip_rules p))"

definition set_commands :: "'r policy \<Rightarrow> fake_mapping list \<Rightarrow> mac_address list \<Rightarrow> nft_command list" where
  "set_commands p mappings exclusions =
     [Destroy_Table TABLE, Add_Table TABLE] @ render_exclusion_set TABLE exclusions @
     [Add_Map TABLE ''fake_to_real'' ''type ipv4_addr : ipv4_addr;''] @
     map (\<lambda>(_, s). Add_Set TABLE s ''type ipv4_addr;'') FAKE_TARGET_SETS @
     append_mappings mappings @ rule_sets p"

definition panel_rules :: "lan_context \<Rightarrow> nat list \<Rightarrow> nft_rule list" where
  "panel_rules lan allowed =
     [[Daddr PANEL_VIRTUAL_IP, Iifname_Not (device lan), Drop_Packet],
      [Daddr PANEL_VIRTUAL_IP, L4_Not_Tcp, Drop_Packet],
      [Daddr PANEL_VIRTUAL_IP, Tcp_Dport_Not_In allowed, Drop_Packet]]"

definition prologue_rules :: "lan_context \<Rightarrow> nft_rule list" where
  "prologue_rules lan =
     [[Iifname (device lan), Ct_Original, Dport Udp 53, Ct_Mark_Or_Dns],
      [Iifname (device lan), Ct_Original, Dport Tcp 53, Ct_Mark_Or_Dns],
      [Iifname (device lan), Excluded_Mac, Mark_Set DIRECT_MARK, Ct_Mark_Set DIRECT_MARK, Return_Chain],
      [Iifname (device lan), Ct_Reply, Mark_Set DIRECT_MARK],
      [Iifname (device lan), Ct_Reply, Ct_Mark_Set DIRECT_MARK],
      [Iifname (device lan), Ct_Reply, Return_Chain],
      [Iifname (device lan), Mark_Keep_Foreign]]"

definition local_rules :: "ipnet \<Rightarrow> lan_context \<Rightarrow> nft_rule list" where
  "local_rules N lan =
     [[Iifname (device lan), Daddr PANEL_VIRTUAL_IP, Mark_Set DIRECT_MARK],
      [Iifname (device lan), Daddr_Local, Mark_Set DIRECT_MARK],
      [Iifname (device lan), Daddr_Text (net_show N (subnet lan)), Mark_Set DIRECT_MARK]]"

definition fake_rules :: "lan_context \<Rightarrow> vpn_egress \<Rightarrow> nft_rule list" where
  "fake_rules lan e =
     map (\<lambda>(t, s). [Iifname (device lan), Mark_Clear_Bits, Daddr_In_Set s, Mark_Set (target_mark (egress_target e t))])
       FAKE_TARGET_SETS"

definition lan_rule :: "ipnet \<Rightarrow> lan_context \<Rightarrow> nft_rule" where
  "lan_rule N lan =
     [Iifname (device lan), Mark_Clear_Bits, Daddr_List (map (net_show N) LAN_RANGES), Mark_Set DIRECT_MARK]"

definition ip_rule_rule :: "lan_context \<Rightarrow> vpn_egress \<Rightarrow> nat \<times> ip_rule \<Rightarrow> nft_rule" where
  "ip_rule_rule lan e = (\<lambda>(i, rule).
     [Iifname (device lan), Mark_Clear_Bits,
      (case ir_matcher rule of Cidr v \<Rightarrow> Daddr_Text v | GeoIp _ \<Rightarrow> Daddr_In_Set (ip_rule_set i)),
      Mark_Set (target_mark (egress_target e (ir_target rule)))])"

definition final_rules :: "lan_context \<Rightarrow> vpn_egress \<Rightarrow> route_target \<Rightarrow> nft_rule list" where
  "final_rules lan e fallback =
     [Iifname (device lan), Mark_Clear_Bits, Mark_Set (target_mark (egress_target e fallback))] #
     map (\<lambda>m. [Iifname (device lan), Mark_Is m, Ct_Mark_Set m]) [DIRECT_MARK, VPN_MARK, WARP_MARK, BLOCK_MARK] @
     [[Iifname (device lan), Mark_Is BLOCK_MARK, Drop_Packet]]"

definition mark_chain :: "lan_context \<Rightarrow> vpn_egress \<Rightarrow> 'r policy \<Rightarrow> panel_ports \<Rightarrow> nft_rule list" where
  "mark_chain lan e p ports =
     panel_rules lan (port_set [80, 443, 8081, 8443, http ports, https ports]) @
     prologue_rules lan @ local_rules (pol_net p) lan @ fake_rules lan e @ [lan_rule (pol_net p) lan] @
     map (ip_rule_rule lan e) (enabled_ip_rules p) @ final_rules lan e (effective_fallback p)"

definition dnat_chain :: "lan_context \<Rightarrow> panel_ports \<Rightarrow> nft_rule list" where
  "dnat_chain lan ports =
     [[Iifname (device lan), Daddr PANEL_VIRTUAL_IP, Tcp_Dport_In (port_set [80, 8081, http ports]),
       Dnat_To (address lan) (unat (http ports))],
      [Iifname (device lan), Daddr PANEL_VIRTUAL_IP, Tcp_Dport_In (port_set [443, 8443, https ports]),
       Dnat_To (address lan) (unat (https ports))],
      [Iifname (device lan), Dnat_Map]]"

definition dns_chain :: "lan_context \<Rightarrow> nat \<Rightarrow> nft_rule list" where
  "dns_chain lan dns_port =
     [[Iifname (device lan), Excluded_Mac, Return_Chain],
      [Iifname (device lan), Dport Udp 53, Redirect dns_port],
      [Iifname (device lan), Dport Tcp 53, Redirect dns_port]]"

definition mss_chain :: "lan_context \<Rightarrow> nft_rule list" where
  "mss_chain lan =
     map (\<lambda>(incoming, outgoing). [Nfproto_Ipv4, Iifname incoming, Oifname outgoing, Syn_Only, Mss_Above TCP_MSS, Mss_Set TCP_MSS])
       [(device lan, ''gt0''), (''gt0'', device lan)]"

definition ipv6_chain :: "lan_context \<Rightarrow> nft_rule list" where
  "ipv6_chain lan = [[Iifname (device lan), Not_Excluded_Mac, Nfproto_Ipv6, Reject_Ipv6]]"

definition warp_guard_chain :: "lan_context \<Rightarrow> ipv4 option \<Rightarrow> nft_rule list" where
  "warp_guard_chain lan src =
     [Iifname (device lan), Ct_Original, Reply_Daddr_In SOURCE_SUBNET, Mark_Not WARP_MARK, Drop_Packet] #
     (case src of
        None \<Rightarrow> []
      | Some a \<Rightarrow>
          [[Iifname (device lan), Mark_Is WARP_MARK, Oifname_Not ''gt0'', Drop_Packet],
           [Iifname (device lan), Mark_Is WARP_MARK, Ct_Confirmed, Reply_Daddr_Not a, Drop_Packet]])"

definition warp_snat_chain :: "lan_context \<Rightarrow> ipv4 \<Rightarrow> nft_rule list" where
  "warp_snat_chain lan a =
     [[Iifname (device lan), Oifname ''gt0'', Mark_Is WARP_MARK, Snat_To a],
      [Oifname ''gt0'', Nfproto_Ipv4, Dns_Ports, Mark_Is WARP_MARK, Snat_To a]]"

definition dns_egress_chain :: "ipv4 option \<Rightarrow> nft_rule list" where
  "dns_egress_chain src =
     concat (map (\<lambda>m. [[Nfproto_Ipv4, Dns_Ports, Mark_Is m, Ct_Mark_Set m],
                       [Nfproto_Ipv4, Dns_Ports, Mark_Is m, Oifname_Not ''gt0'', Drop_Packet]]) [VPN_MARK, WARP_MARK]) @
     [[Nfproto_Ipv4, Dns_Ports, Reply_Daddr_In SOURCE_SUBNET, Mark_Not WARP_MARK, Drop_Packet],
      (case src of
         Some a \<Rightarrow> [Nfproto_Ipv4, Dns_Ports, Mark_Is WARP_MARK, Ct_Confirmed, Reply_Daddr_Not a, Drop_Packet]
       | None \<Rightarrow> [Nfproto_Ipv4, Dns_Ports, Mark_Is WARP_MARK, Drop_Packet])]"

definition add_rules :: "string \<Rightarrow> nft_rule list \<Rightarrow> nft_command list" where
  "add_rules chain rules = map (Add_Rule TABLE chain) rules"

definition append_dns_egress_guard :: "ipv4 option \<Rightarrow> nft_command list" where
  "append_dns_egress_guard src =
     Add_Chain TABLE ''gofro_dns_egress'' ''type filter hook output priority filter; policy accept;'' #
     add_rules ''gofro_dns_egress'' (dns_egress_chain src)"

definition active_warp :: "vpn_egress \<Rightarrow> ipv4 option" where
  "active_warp e = (if egress_enabled e then warp_source e else None)"

definition chain_commands :: "lan_context \<Rightarrow> nat \<Rightarrow> vpn_egress \<Rightarrow> 'r policy \<Rightarrow> panel_ports \<Rightarrow> nft_command list" where
  "chain_commands lan dns_port e p ports =
     [Add_Chain TABLE ''gofro_mark'' ''type filter hook prerouting priority mangle; policy accept;''] @
     add_rules ''gofro_mark'' (mark_chain lan e p ports) @
     [Add_Chain TABLE ''gofro_dnat'' ''type nat hook prerouting priority dstnat; policy accept;''] @
     add_rules ''gofro_dnat'' (dnat_chain lan ports) @
     [Add_Chain TABLE ''gofro_dns'' ''type nat hook prerouting priority -101; policy accept;''] @
     add_rules ''gofro_dns'' (dns_chain lan dns_port) @
     (if egress_enabled e
      then Add_Chain TABLE ''gofro_mss'' ''type filter hook forward priority -149; policy accept;'' #
           add_rules ''gofro_mss'' (mss_chain lan) else []) @
     (if egress_enabled e \<or> uses_warp p
      then Add_Chain TABLE ''gofro_ipv6'' ''type filter hook forward priority filter; policy accept;'' #
           add_rules ''gofro_ipv6'' (ipv6_chain lan) else []) @
     [Add_Chain TABLE ''gofro_warp_guard'' ''type filter hook forward priority -150; policy accept;''] @
     add_rules ''gofro_warp_guard'' (warp_guard_chain lan (active_warp e)) @
     (case active_warp e of
        Some a \<Rightarrow>
          Add_Chain TABLE ''gofro_warp_snat'' ''type nat hook postrouting priority 99; policy accept;'' #
          add_rules ''gofro_warp_snat'' (warp_snat_chain lan a)
      | None \<Rightarrow> []) @
     append_dns_egress_guard (active_warp e)"

definition render_with_exclusions :: "lan_context \<Rightarrow> nat \<Rightarrow> vpn_egress \<Rightarrow> 'r policy \<Rightarrow> fake_mapping list \<Rightarrow>
    panel_ports \<Rightarrow> mac_address list \<Rightarrow> nft_command list" where
  "render_with_exclusions lan dns_port e p mappings ports exclusions =
     set_commands p mappings exclusions @ chain_commands lan dns_port e p ports"

section \<open>The kernel after a script\<close>

fun el_covers :: "nft_element \<Rightarrow> ipv4 \<Rightarrow> bool" where
  "el_covers (El_Addr a) ip = (ip = a)"
| "el_covers (El_Range r) ip = (fst r \<le> ip \<and> ip \<le> snd r)"
| "el_covers (El_Map f _) ip = (ip = f)"
| "el_covers (El_Mac _) ip = False"

definition elements :: "nft_command list \<Rightarrow> string \<Rightarrow> string \<Rightarrow> nft_element list" where
  "elements cs table s = concat (map (\<lambda>c. case c of Add_Elements t s' es \<Rightarrow> if t = table \<and> s' = s then es else [] | _ \<Rightarrow> []) cs)"

definition chain_rules :: "nft_command list \<Rightarrow> string \<Rightarrow> string \<Rightarrow> nft_rule list" where
  "chain_rules cs table chain = List.map_filter (\<lambda>c. case c of Add_Rule t ch items \<Rightarrow> if t = table \<and> ch = chain then Some items else None | _ \<Rightarrow> None) cs"

definition text_covers :: "ipnet \<Rightarrow> string \<Rightarrow> ipv4 \<Rightarrow> bool" where
  "text_covers N t ip = (case net_parse N t of Some n \<Rightarrow> contains_ip N n ip | None \<Rightarrow> False)"

definition loaded_state :: "ipnet \<Rightarrow> nft_command list \<Rightarrow> string \<Rightarrow> nft_state" where
  "loaded_state N cs table = \<lparr>
     st_excluded = List.map_filter (\<lambda>e. case e of El_Mac m \<Rightarrow> Some m | _ \<Rightarrow> None) (elements cs table ''device_exclusions''),
     st_set = (\<lambda>s ip. list_ex (\<lambda>e. el_covers e ip) (elements cs table s)),
     st_text = text_covers N,
     st_fake = map_of (List.map_filter (\<lambda>e. case e of El_Map f r \<Rightarrow> Some (f, r) | _ \<Rightarrow> None) (elements cs table ''fake_to_real''))\<rparr>"

section \<open>Reading the script back\<close>

lemma chain_rules_append [simp]: "chain_rules (xs @ ys) t c = chain_rules xs t c @ chain_rules ys t c"
  by (simp add: chain_rules_def List.map_filter_def)

lemma chain_rules_Cons: "chain_rules (x # xs) t c =
    (case x of Add_Rule t' c' items \<Rightarrow> if t' = t \<and> c' = c then items # chain_rules xs t c else chain_rules xs t c
     | _ \<Rightarrow> chain_rules xs t c)"
  by (auto simp: chain_rules_def List.map_filter_simps split: nft_command.splits)

lemma chain_rules_Nil [simp]: "chain_rules [] t c = []"
  by (simp add: chain_rules_def List.map_filter_simps)

lemma chain_rules_add_rules [simp]: "chain_rules (add_rules c rs) TABLE c' = (if c = c' then rs else [])"
  by (induction rs) (auto simp: add_rules_def chain_rules_Cons)

definition no_rules :: "nft_command list \<Rightarrow> bool" where
  "no_rules cs = list_all (\<lambda>c. case c of Add_Rule _ _ _ \<Rightarrow> False | _ \<Rightarrow> True) cs"

lemma chain_rules_none: "no_rules cs \<Longrightarrow> chain_rules cs t c = []"
  by (induction cs) (auto simp: no_rules_def chain_rules_Cons split: nft_command.splits)

lemma no_rules_sets: "no_rules (set_commands p mappings exclusions)"
  by (auto simp: no_rules_def set_commands_def render_exclusion_set_def append_mappings_def
      append_target_elements_def rule_sets_def list_all_iff FAKE_TARGET_SETS_def Let_def case_prod_beta
      split: ip_match.splits if_splits)

lemma chains_of_render:
  "chain_rules (render_with_exclusions lan dns_port e p mappings ports exclusions) TABLE ''gofro_mark'' =
     mark_chain lan e p ports"
  "chain_rules (render_with_exclusions lan dns_port e p mappings ports exclusions) TABLE ''gofro_dns_egress'' =
     dns_egress_chain (active_warp e)"
  "chain_rules (render_with_exclusions lan dns_port e p mappings ports exclusions) TABLE ''gofro_dnat'' =
     dnat_chain lan ports"
  by (simp_all add: render_with_exclusions_def chain_commands_def chain_rules_none[OF no_rules_sets]
      chain_rules_Cons append_dns_egress_guard_def split: option.split)

lemma elements_append [simp]: "elements (xs @ ys) t s = elements xs t s @ elements ys t s"
  by (simp add: elements_def)

lemma elements_Cons: "elements (x # xs) t s =
    (case x of Add_Elements t' s' es \<Rightarrow> if t' = t \<and> s' = s then es @ elements xs t s else elements xs t s
     | _ \<Rightarrow> elements xs t s)"
  by (auto simp: elements_def split: nft_command.splits)

lemma elements_Nil [simp]: "elements [] t s = []"
  by (simp add: elements_def)

lemma elements_add_rules [simp]: "elements (add_rules c rs) t s = []"
  by (induction rs) (auto simp: add_rules_def elements_Cons)

lemma elements_chains: "elements (chain_commands lan dns_port e p ports) t s = []"
  by (simp add: chain_commands_def elements_Cons append_dns_egress_guard_def split: option.split)

lemma digits_inj: "digits i = digits j \<Longrightarrow> i = j"
  by (metis read_digits_digits option.inject)

lemma ip_rule_set_eq [simp]: "ip_rule_set i = ip_rule_set j \<longleftrightarrow> i = j"
  using digits_inj by (auto simp: ip_rule_set_def)

lemma elements_exclusions [simp]:
  "elements (render_exclusion_set t exclusions) t ''device_exclusions'' = map El_Mac exclusions"
  "s \<noteq> ''device_exclusions'' \<Longrightarrow> elements (render_exclusion_set t' exclusions) t s = []"
  by (simp_all add: render_exclusion_set_def elements_Cons)

lemma elements_rule_sets_other: "\<forall>i. s \<noteq> ip_rule_set i \<Longrightarrow> elements (rule_sets p) t s = []"
  by (auto simp: rule_sets_def elements_def case_prod_beta Let_def split: ip_match.splits if_splits)

lemma rule_set_names: "ip_rule_set i \<noteq> ''device_exclusions''" "ip_rule_set i \<noteq> ''fake_to_real''"
  "(t, s) \<in> set FAKE_TARGET_SETS \<Longrightarrow> ip_rule_set i \<noteq> s"
  by (auto simp: ip_rule_set_def FAKE_TARGET_SETS_def)

lemma elements_mappings:
  "(t, s) \<in> set FAKE_TARGET_SETS \<Longrightarrow> elements (append_mappings mappings) TABLE s =
     map (\<lambda>m. El_Addr (fm_fake m)) (filter (\<lambda>m. fm_target m = t) mappings)"
  "elements (append_mappings mappings) TABLE ''fake_to_real'' = map (\<lambda>m. El_Map (fm_fake m) (fm_real m)) mappings"
  "elements (append_mappings mappings) TABLE ''device_exclusions'' = []"
  "elements (append_mappings mappings) TABLE (ip_rule_set i) = []"
  by (auto simp: append_mappings_def append_target_elements_def FAKE_TARGET_SETS_def elements_Cons Let_def
      ip_rule_set_def filter_empty_conv split: if_splits)

section \<open>Sets of a compiled policy\<close>

definition geodata_sorted :: "'r geodata \<Rightarrow> bool" where
  "geodata_sorted g \<longleftrightarrow> (\<forall>tag ns. ips g tag = Some ns \<longrightarrow> separated (rev ns))"

lemma decoded_sorted:
  assumes "ipnet_laws N" and "entry_value (decode_ip N) f tag = Inr (Some ns)"
  shows "separated (rev ns)"
proof -
  obtain rng r' where "within rng (decode_ip N) (reader_new (contents f)) = Inr (ns, r')"
    using assms(2) by (auto simp: entry_value_def split: option.splits)
  then obtain cidrs where "\<forall>n \<in> set cidrs. aligned_net n" "ns = aggregate_ipv4 N cidrs"
    using within_decode_ip[OF assms(1)] by metis
  then show ?thesis using ipnet_laws.aggregate_separated(1)[OF assms(1)] by simp
qed

text \<open>Where the agent's geodata comes from: nothing loaded, or a catalogue in use.\<close>

definition geodata_run :: "'r regex_lib \<Rightarrow> ipnet \<Rightarrow> 'r geodata \<Rightarrow> bool" where
  "geodata_run X N g \<longleftrightarrow> g = empty_geodata \<or> (\<exists>cat. source g = Some cat \<and> catalog_run X N cat)"

lemma compile_sorted:
  assumes "ipnet_laws N" and "geodata_run X N g" and c: "compile X N ls li c g = (Inr p, cat')"
  shows "geodata_sorted (pol_geo p)"
proof -
  obtain g' where sel: "select X N ls li g c = (Inr g', cat')" and p: "pol_geo p = g'"
    using c by (auto simp: compile_def case_prod_beta prod_eq_iff split: sum.splits)
  consider "g = empty_geodata" | cat where "source g = Some cat" "catalog_run X N cat" "mode c = Rules"
    | cat where "source g = Some cat" "mode c = All"
    using assms(2) by (cases "mode c") (auto simp: geodata_run_def)
  then show ?thesis
  proof cases
    case 1
    then have "g' = empty_geodata" using sel by (simp add: select_def) (simp add: empty_geodata_def)
    then show ?thesis using p by (simp add: empty_geodata_def geodata_sorted_def)
  next
    case (2 cat)
    then show ?thesis
      using compile_geodata(3)[OF catalog_run_ok[OF 2(2)] 2(1,3) c] decoded_sorted[OF assms(1)]
      unfolding geodata_sorted_def by blast
  next
    case (3 cat)
    then have "g' = empty_geodata\<lparr>source := Some cat\<rparr>"
      using sel by (auto simp: select_def select_loops_def initial_selection_def)
    then show ?thesis using p by (simp add: geodata_sorted_def empty_geodata_def)
  qed
qed

lemma elements_rule_sets:
  "e \<in> set (elements (rule_sets p) TABLE (ip_rule_set i)) \<longleftrightarrow>
     (\<exists>rule tag. (i, rule) \<in> set (enabled_ip_rules p) \<and> ir_matcher rule = GeoIp tag \<and>
        e \<in> El_Range ` set (merged_ranges (pol_net p) (ip_networks (pol_geo p) tag)))"
  (is "?l \<longleftrightarrow> ?r")
proof
  assume ?l
  then show ?r
    by (auto simp: rule_sets_def elements_def case_prod_beta Let_def split: ip_match.splits if_splits nft_command.splits)
      (metis image_eqI)
next
  assume ?r
  then obtain rule tag where r: "(i, rule) \<in> set (enabled_ip_rules p)" "ir_matcher rule = GeoIp tag"
    and e: "e \<in> El_Range ` set (merged_ranges (pol_net p) (ip_networks (pol_geo p) tag))" by blast
  then have ne: "ip_networks (pol_geo p) tag \<noteq> []" by auto
  then have "Add_Elements TABLE (ip_rule_set i) (map El_Range (merged_ranges (pol_net p) (ip_networks (pol_geo p) tag)))
      \<in> set (rule_sets p)"
    using r by (force simp: rule_sets_def Let_def)
  then show ?l using e by (force simp: elements_def)
qed

lemma ranges_cover_iff: "unat ip \<in> ranges_cover rs \<longleftrightarrow> list_ex (\<lambda>r. fst r \<le> ip \<and> ip \<le> snd r) rs"
  by (simp add: ranges_cover_def list_ex_iff word_le_nat_alt case_prod_beta)

lemma geo_set_matches:
  assumes "ipnet_laws (pol_net p)" and "geodata_sorted (pol_geo p)"
  shows "unat ip \<in> ranges_cover (merged_ranges (pol_net p) (ip_networks (pol_geo p) tag)) \<longleftrightarrow>
     matches_ip (pol_net p) (pol_geo p) tag ip"
proof -
  let ?ns = "ip_networks (pol_geo p) tag"
  have sep: "separated (rev ?ns)"
    using assms(2) by (auto simp: ip_networks_def geodata_sorted_def separated_def split: option.split)
  note asc = ipnet_laws.separated_ascending[OF assms(1) sep]
  show ?thesis
    using ipnet_laws.merged_ranges_cover[OF assms(1) conjunct2[OF asc] conjunct1[OF asc]]
      ipnet_laws.ranges_match_iff[OF assms(1) sep] by (simp add: matches_ip_def)
qed

text \<open>The destination test of an address rule agrees with the policy.\<close>

definition rule_cond :: "nat \<times> ip_rule \<Rightarrow> nft_item" where
  "rule_cond = (\<lambda>(i, rule). case ir_matcher rule of Cidr v \<Rightarrow> Daddr_Text v | GeoIp _ \<Rightarrow> Daddr_In_Set (ip_rule_set i))"

abbreviation rendered where
  "rendered lan dns_port e p mappings ports exclusions \<equiv>
     loaded_state (pol_net p) (render_with_exclusions lan dns_port e p mappings ports exclusions) TABLE"

lemma state_sets:
  "st_excluded (rendered lan dns_port e p mappings ports exclusions) = exclusions"
  "(t, s) \<in> set FAKE_TARGET_SETS \<Longrightarrow> st_set (rendered lan dns_port e p mappings ports exclusions) s ip \<longleftrightarrow>
     (\<exists>m \<in> set mappings. fm_fake m = ip \<and> fm_target m = t)"
  "st_text (rendered lan dns_port e p mappings ports exclusions) = text_covers (pol_net p)"
  "st_fake (rendered lan dns_port e p mappings ports exclusions) = map_of (map (\<lambda>m. (fm_fake m, fm_real m)) mappings)"
proof -
  have mf: "List.map_filter (\<lambda>e. case e of El_Mac m \<Rightarrow> Some m | _ \<Rightarrow> None) (map El_Mac ms) = ms" for ms
    by (induction ms) (auto simp: List.map_filter_simps)
  have mm: "List.map_filter (\<lambda>e. case e of El_Map f r \<Rightarrow> Some (f, r) | _ \<Rightarrow> None) (map (\<lambda>m. El_Map (fm_fake m) (fm_real m)) ms) =
      map (\<lambda>m. (fm_fake m, fm_real m)) ms" for ms :: "fake_mapping list"
    by (induction ms) (auto simp: List.map_filter_simps)
  have other: "elements (rule_sets p) TABLE ''device_exclusions'' = []" "elements (rule_sets p) TABLE ''fake_to_real'' = []"
    by (rule elements_rule_sets_other; simp add: rule_set_names[symmetric])+
  have pre: "elements (map (\<lambda>(_, s). Add_Set TABLE s ''type ipv4_addr;'') FAKE_TARGET_SETS) TABLE s' = []" for s'
    by (simp add: FAKE_TARGET_SETS_def elements_Cons)
  show "st_excluded (rendered lan dns_port e p mappings ports exclusions) = exclusions"
    by (simp add: loaded_state_def render_with_exclusions_def elements_chains set_commands_def elements_Cons
        elements_mappings other pre mf)
  show "st_fake (rendered lan dns_port e p mappings ports exclusions) = map_of (map (\<lambda>m. (fm_fake m, fm_real m)) mappings)"
    by (simp add: loaded_state_def render_with_exclusions_def elements_chains set_commands_def elements_Cons
        elements_mappings other pre mm)
  show "st_text (rendered lan dns_port e p mappings ports exclusions) = text_covers (pol_net p)"
    by (simp add: loaded_state_def)
  show "st_set (rendered lan dns_port e p mappings ports exclusions) s ip \<longleftrightarrow>
     (\<exists>m \<in> set mappings. fm_fake m = ip \<and> fm_target m = t)" if ts: "(t, s) \<in> set FAKE_TARGET_SETS"
  proof -
    have o: "elements (rule_sets p) TABLE s = []"
      using rule_set_names(3)[OF ts] by (intro elements_rule_sets_other) auto
    have ne: "s \<noteq> ''device_exclusions''" "s \<noteq> ''fake_to_real''" using ts by (auto simp: FAKE_TARGET_SETS_def)
    have "elements (render_with_exclusions lan dns_port e p mappings ports exclusions) TABLE s =
        map (\<lambda>m. El_Addr (fm_fake m)) (filter (\<lambda>m. fm_target m = t) mappings)"
      using ne by (simp add: render_with_exclusions_def elements_chains set_commands_def elements_Cons
          elements_mappings(1)[OF ts] o pre)
    then show ?thesis by (auto simp: loaded_state_def list_ex_iff)
  qed
qed

section \<open>The mark chain\<close>

definition holds :: "nft_state \<Rightarrow> nft_item \<Rightarrow> packet \<Rightarrow> bool" where
  "holds S c pk \<longleftrightarrow> eval_item S c pk = Continue pk"

text \<open>Tests of the destination address.\<close>

fun daddr_test :: "nft_item \<Rightarrow> bool" where
  "daddr_test (Daddr_Text _) = True"
| "daddr_test (Daddr_In_Set _) = True"
| "daddr_test (Daddr_List _) = True"
| "daddr_test _ = False"

lemma daddr_test_eval: "daddr_test c \<Longrightarrow> eval_item S c pk = check (holds S c pk) pk"
  by (cases c) (auto simp: holds_def check_def)

lemma daddr_test_mark: "daddr_test c \<Longrightarrow> holds S c (pk\<lparr>pk_mark := m, pk_ct_mark := k\<rparr>) = holds S c pk"
  by (cases c) (auto simp: holds_def check_def)

definition mark_with :: "u32 \<Rightarrow> packet \<Rightarrow> packet" where
  "mark_with m pk = pk\<lparr>pk_mark := (pk_mark pk AND KEEP_FOREIGN_MARKS) OR m\<rparr>"

definition first_mark :: "nft_state \<Rightarrow> (nft_item \<times> u32) list \<Rightarrow> packet \<Rightarrow> packet" where
  "first_mark S cms pk = (case find (\<lambda>(c, _). holds S c pk) cms of None \<Rightarrow> pk | Some (_, m) \<Rightarrow> mark_with m pk)"

lemma marked_skips:
  assumes "pk_mark pk AND GOFRO_MARK_MASK \<noteq> 0"
  shows "passes S (map (\<lambda>(c, m). [Iifname d, Mark_Clear_Bits, c, Mark_Set m]) cms) pk pk"
  using assms by (intro passes_skip) (auto simp: check_def)

lemma first_mark_passes:
  assumes "pk_iif pk = d" and "pk_mark pk AND GOFRO_MARK_MASK = 0"
    and "\<forall>(c, m) \<in> set cms. daddr_test c \<and> gofro_mark_value m \<and> m \<noteq> 0"
  shows "passes S (map (\<lambda>(c, m). [Iifname d, Mark_Clear_Bits, c, Mark_Set m]) cms) pk (first_mark S cms pk)"
  using assms(3)
proof (induction cms)
  case Nil
  then show ?case by (simp add: first_mark_def)
next
  case (Cons cm cms)
  obtain c m where cm: "cm = (c, m)" by (cases cm)
  have c: "daddr_test c" "gofro_mark_value m" "m \<noteq> 0" using Cons.prems cm by auto
  show ?case
  proof (cases "holds S c pk")
    case True
    have "pk_mark (mark_with m pk) AND GOFRO_MARK_MASK \<noteq> 0" using set_masked[OF c(2)] c(3) by (simp add: mark_with_def)
    moreover have "eval_rule S [Iifname d, Mark_Clear_Bits, c, Mark_Set m] pk = Continue (mark_with m pk)"
      using assms(1,2) True daddr_test_eval[OF c(1)] by (simp add: mark_with_def)
    ultimately show ?thesis
      using marked_skips True cm by (auto simp: first_mark_def intro: passes_Cons)
  next
    case False
    then have "eval_rule S [Iifname d, Mark_Clear_Bits, c, Mark_Set m] pk = Stop_Rule pk"
      using assms(1,2) daddr_test_eval[OF c(1)] by simp
    then show ?thesis
      using Cons False cm by (auto simp: first_mark_def intro: passes_Cons)
  qed
qed

lemma mark_values: "gofro_mark_value (target_mark t)" "target_mark t \<noteq> 0"
  by (cases t; simp add: gofro_mark_value_def GOFRO_MARK_MASK_def DIRECT_MARK_def VPN_MARK_def WARP_MARK_def BLOCK_MARK_def)+

lemma target_mark_inj: "target_mark t = target_mark t' \<longleftrightarrow> t = t'"
  by (cases t; cases t'; simp add: DIRECT_MARK_def VPN_MARK_def WARP_MARK_def BLOCK_MARK_def)

text \<open>All destination tests of the chain, in order.\<close>

definition dest_tests :: "lan_context \<Rightarrow> vpn_egress \<Rightarrow> 'r policy \<Rightarrow> (nft_item \<times> u32) list" where
  "dest_tests lan e p =
     map (\<lambda>(t, s). (Daddr_In_Set s, target_mark (egress_target e t))) FAKE_TARGET_SETS @
     [(Daddr_List (map (net_show (pol_net p)) LAN_RANGES), DIRECT_MARK)] @
     map (\<lambda>ir. (rule_cond ir, target_mark (egress_target e (ir_target (snd ir))))) (enabled_ip_rules p)"

lemma dest_rules:
  "fake_rules lan e @ [lan_rule (pol_net p) lan] @ map (ip_rule_rule lan e) (enabled_ip_rules p) =
     map (\<lambda>(c, m). [Iifname (device lan), Mark_Clear_Bits, c, Mark_Set m]) (dest_tests lan e p)"
  by (simp add: fake_rules_def lan_rule_def ip_rule_rule_def dest_tests_def rule_cond_def case_prod_beta)

lemma dest_tests_ok: "\<forall>(c, m) \<in> set (dest_tests lan e p). daddr_test c \<and> gofro_mark_value m \<and> m \<noteq> 0"
  using mark_values mark_values[of Direct]
  by (auto simp: dest_tests_def FAKE_TARGET_SETS_def rule_cond_def split: ip_match.splits)

lemma final_rules_eval:
  assumes "pk_iif pk = device lan"
    and "pk_mark pk AND GOFRO_MARK_MASK = 0 \<and> t = egress_target e fallback \<and> pk' = mark_with (target_mark t) pk \<or>
      pk_mark pk AND GOFRO_MARK_MASK = target_mark t \<and> pk' = pk"
  shows "eval_chain S (final_rules lan e fallback) pk =
     (if t = Block then Some Dropped else None,
      pk'\<lparr>pk_ct_mark := (pk_ct_mark pk AND KEEP_FOREIGN_MARKS) OR target_mark t\<rparr>)"
proof -
  have m: "pk_mark pk' AND GOFRO_MARK_MASK = target_mark t" "pk_iif pk' = device lan" "pk_ct_mark pk' = pk_ct_mark pk"
    using assms set_masked[OF mark_values(1)] by (auto simp: mark_with_def)
  let ?r = "[Iifname (device lan), Mark_Clear_Bits, Mark_Set (target_mark (egress_target e fallback))]"
  let ?tl = "map (\<lambda>m. [Iifname (device lan), Mark_Is m, Ct_Mark_Set m]) [DIRECT_MARK, VPN_MARK, WARP_MARK, BLOCK_MARK] @
      [[Iifname (device lan), Mark_Is BLOCK_MARK, Drop_Packet]]"
  have "eval_chain S (?r # ?tl) pk = eval_chain S ?tl pk'"
    using assms mark_values(2)[of t] by (auto simp: mark_with_def)
  moreover have "eval_chain S ?tl pk' = (if t = Block then Some Dropped else None,
      pk'\<lparr>pk_ct_mark := (pk_ct_mark pk AND KEEP_FOREIGN_MARKS) OR target_mark t\<rparr>)"
    using m by (cases t) (simp_all add: DIRECT_MARK_def VPN_MARK_def WARP_MARK_def BLOCK_MARK_def)
  ultimately show ?thesis by (simp add: final_rules_def)
qed

lemma text_covers_show: "ipnet_laws N \<Longrightarrow> valid_net n \<Longrightarrow> text_covers N (net_show N n) ip = contains_ip N n ip"
  using ipnet_laws.parse_show[of N n] by (simp add: text_covers_def)

lemma lan_ranges_valid: "\<forall>n \<in> set LAN_RANGES. valid_net n"
  by (simp add: LAN_RANGES_def net_def valid_net_def)

lemma lan_list_holds:
  assumes "ipnet_laws N" and "st_text S = text_covers N" and "pk_ipv4 pk"
  shows "holds S (Daddr_List (map (net_show N) LAN_RANGES)) pk \<longleftrightarrow> is_lan_destination N (pk_daddr pk)"
  using assms lan_ranges_valid text_covers_show[OF assms(1)]
  by (auto simp: holds_def check_def list_ex_iff is_lan_destination_def)

lemma rule_cond_matches:
  assumes "policy_ok p" and "st_text S = text_covers (pol_net p)" and "pk_ipv4 pk"
    and "i < length (ip_rules (pol_config p))"
    and geo: "\<And>tag. ir_matcher (ip_rules (pol_config p) ! i) = GeoIp tag \<Longrightarrow>
      st_set S (ip_rule_set i) (pk_daddr pk) = matches_ip (pol_net p) (pol_geo p) tag (pk_daddr pk)"
  shows "holds S (rule_cond (i, ip_rules (pol_config p) ! i)) pk \<longleftrightarrow> matches_ip_rule p i (pk_daddr pk)"
proof (cases "ir_matcher (ip_rules (pol_config p) ! i)")
  case (Cidr v)
  have "case ir_matcher (ip_rules (pol_config p) ! i) of Cidr v \<Rightarrow> pol_nets p ! i = net_parse (pol_net p) v \<and> pol_nets p ! i \<noteq> None
      | GeoIp tag \<Rightarrow> pol_nets p ! i = None"
    using assms(1,4) unfolding policy_ok_def by blast
  then show ?thesis
    using Cidr assms(2,3) by (auto simp: rule_cond_def holds_def check_def matches_ip_rule_def text_covers_def)
next
  case (GeoIp tag)
  then show ?thesis
    using geo assms(3) by (auto simp: rule_cond_def holds_def check_def matches_ip_rule_def)
qed

lemma ip_rule_search_find:
  assumes "\<forall>i \<in> set is. i < length (ip_rules (pol_config p))"
    and "\<forall>i \<in> set is. ir_enabled (ip_rules (pol_config p) ! i) \<longrightarrow>
      holds S (rule_cond (i, ip_rules (pol_config p) ! i)) pk = matches_ip_rule p i ip"
  shows "\<exists>name. ip_rule_search p ip is =
     Some (case find (\<lambda>ir. holds S (rule_cond ir) pk)
         (filter (\<lambda>(_, rule). ir_enabled rule) (map (\<lambda>i. (i, ip_rules (pol_config p) ! i)) is)) of
       None \<Rightarrow> effective_fallback p | Some ir \<Rightarrow> ir_target (snd ir), name)"
  using assms
proof (induction "is")
  case (Cons i "is")
  then show ?case
    by (cases "ir_enabled (ip_rules (pol_config p) ! i)") (auto simp: nth_opt_def)
qed simp

definition intended_target :: "'r policy \<Rightarrow> fake_mapping list \<Rightarrow> ipv4 \<Rightarrow> route_target option" where
  "intended_target p mappings ip =
     (case find (\<lambda>m. fm_fake m = ip) mappings of
        Some m \<Rightarrow> Some (fm_target m)
      | None \<Rightarrow> map_option fst (ip_target p ip))"

lemma fake_find:
  assumes "\<forall>m \<in> set mappings. \<forall>m' \<in> set mappings. fm_fake m = fm_fake m' \<longrightarrow> fm_target m = fm_target m'"
    and "\<And>t s. (t, s) \<in> set FAKE_TARGET_SETS \<Longrightarrow>
      holds S (Daddr_In_Set s) pk = (\<exists>m \<in> set mappings. fm_fake m = ip \<and> fm_target m = t)"
  shows "find (\<lambda>(c, _). holds S c pk) (map (\<lambda>(t, s). (Daddr_In_Set s, target_mark (egress_target e t))) FAKE_TARGET_SETS) =
     (case find (\<lambda>m. fm_fake m = ip) mappings of
        None \<Rightarrow> None
      | Some m \<Rightarrow> map_option (\<lambda>s. (Daddr_In_Set s, target_mark (egress_target e (fm_target m)))) (map_of FAKE_TARGET_SETS (fm_target m)))"
proof (cases "find (\<lambda>m. fm_fake m = ip) mappings")
  case None
  then have "\<not> (\<exists>m \<in> set mappings. fm_fake m = ip \<and> fm_target m = t)" for t by (auto simp: find_None_iff)
  then have "\<not> holds S (Daddr_In_Set s) pk" if "(t, s) \<in> set FAKE_TARGET_SETS" for t s using assms(2)[OF that] by blast
  then have "\<not> holds S (Daddr_In_Set ''fake_direct'') pk" "\<not> holds S (Daddr_In_Set ''fake_vpn'') pk"
    "\<not> holds S (Daddr_In_Set ''fake_warp'') pk" "\<not> holds S (Daddr_In_Set ''fake_block'') pk"
    by (auto simp: FAKE_TARGET_SETS_def)
  then show ?thesis using None by (simp add: FAKE_TARGET_SETS_def)
next
  case (Some m)
  then have m: "m \<in> set mappings" "fm_fake m = ip" by (auto simp: find_Some_iff)
  have "t = fm_target m" if hit: "\<exists>m' \<in> set mappings. fm_fake m' = ip \<and> fm_target m' = t" for t
  proof -
    obtain m' where "m' \<in> set mappings" "fm_fake m' = ip" "fm_target m' = t" using hit by blast
    then show ?thesis using assms(1)[rule_format, of m' m] m by simp
  qed
  then have "(\<exists>m' \<in> set mappings. fm_fake m' = ip \<and> fm_target m' = t) \<longleftrightarrow> t = fm_target m" for t
    using m by blast
  then have hh: "holds S (Daddr_In_Set s) pk \<longleftrightarrow> t = fm_target m" if "(t, s) \<in> set FAKE_TARGET_SETS" for t s
    using assms(2)[OF that] by simp
  have h: "holds S (Daddr_In_Set ''fake_direct'') pk \<longleftrightarrow> fm_target m = Direct"
    "holds S (Daddr_In_Set ''fake_vpn'') pk \<longleftrightarrow> fm_target m = Vpn"
    "holds S (Daddr_In_Set ''fake_warp'') pk \<longleftrightarrow> fm_target m = Warp"
    "holds S (Daddr_In_Set ''fake_block'') pk \<longleftrightarrow> fm_target m = Block"
    using hh[of Direct "''fake_direct''"] hh[of Vpn "''fake_vpn''"] hh[of Warp "''fake_warp''"] hh[of Block "''fake_block''"]
    by (simp_all add: FAKE_TARGET_SETS_def eq_commute)
  show ?thesis using Some h by (cases "fm_target m") (simp_all add: FAKE_TARGET_SETS_def)
qed

lemma egress_direct [simp]: "egress_target e Direct = Direct"
  by (simp add: egress_target_def effective_target_def)

lemma find_append_case: "find P (xs @ ys) = (case find P xs of None \<Rightarrow> find P ys | Some x \<Rightarrow> Some x)"
  by (induction xs) auto

lemma find_map_fst: "find (\<lambda>(c, _). Q c) (map (\<lambda>x. (f x, g x)) xs) = map_option (\<lambda>x. (f x, g x)) (find (\<lambda>x. Q (f x)) xs)"
  by (induction xs) auto

text \<open>The packets that the policy decides about: IPv4 from a device of the LAN that is not
  excluded, in the original direction of the connection, to an address outside the LAN itself.\<close>

definition policy_packet :: "ipnet \<Rightarrow> lan_context \<Rightarrow> mac_address list \<Rightarrow> packet \<Rightarrow> bool" where
  "policy_packet N lan exclusions pk \<longleftrightarrow> pk_iif pk = device lan \<and> pk_ipv4 pk \<and> pk_original pk \<and>
     pk_mac pk \<notin> set exclusions \<and> pk_daddr pk \<noteq> PANEL_VIRTUAL_IP \<and> \<not> pk_local pk \<and>
     \<not> contains_ip N (subnet lan) (pk_daddr pk)"

lemma prologue_passes:
  assumes "ipnet_laws N" and "valid_net (subnet lan)" and "policy_packet N lan exclusions pk"
    and "st_excluded S = exclusions" and "st_text S = text_covers N"
  shows "\<exists>ct. passes S (panel_rules lan ports @ prologue_rules lan @ local_rules N lan) pk
     (pk\<lparr>pk_ct_mark := ct, pk_mark := pk_mark pk AND KEEP_FOREIGN_MARKS\<rparr>)"
proof -
  have sub: "\<not> text_covers N (net_show N (subnet lan)) (pk_daddr pk)"
    using text_covers_show[OF assms(1,2)] assms(3) by (simp add: policy_packet_def)
  have pk: "pk_iif pk = device lan" "pk_ipv4 pk" "pk_original pk" "pk_mac pk \<notin> set (st_excluded S)"
      "pk_daddr pk \<noteq> PANEL_VIRTUAL_IP" "\<not> pk_local pk"
    using assms(3,4) by (simp_all add: policy_packet_def)
  have panel: "passes S (panel_rules lan ports) pk pk"
    using pk by (intro passes_skip) (auto simp: panel_rules_def)
  obtain ct where pro: "passes S (prologue_rules lan) pk (pk\<lparr>pk_ct_mark := ct, pk_mark := pk_mark pk AND KEEP_FOREIGN_MARKS\<rparr>)"
  proof -
    let ?dns = "pk_proto pk \<in> {Udp, Tcp} \<and> pk_dport pk = 53"
    let ?ct = "if ?dns then pk_ct_mark pk OR DNS_OWNER_BIT else pk_ct_mark pk"
    have "passes S (prologue_rules lan) pk (pk\<lparr>pk_ct_mark := ?ct, pk_mark := pk_mark pk AND KEEP_FOREIGN_MARKS\<rparr>)"
      using pk unfolding passes_def prologue_rules_def
      by (cases "pk_proto pk"; cases "pk_dport pk = 53"; simp)
    then show thesis using that by blast
  qed
  let ?pk = "pk\<lparr>pk_ct_mark := ct, pk_mark := pk_mark pk AND KEEP_FOREIGN_MARKS\<rparr>"
  have "passes S (local_rules N lan) ?pk ?pk"
    using pk sub assms(5) by (intro passes_skip) (auto simp: local_rules_def)
  then show ?thesis using panel pro passes_append by blast
qed

lemma fake_set_named: "\<exists>s. map_of FAKE_TARGET_SETS t = Some s"
  by (cases t) (simp_all add: FAKE_TARGET_SETS_def)

lemma mark_chain_eval:
  assumes laws: "ipnet_laws (pol_net p)" and ok: "policy_ok p" and sorted: "geodata_sorted (pol_geo p)"
    and idx: "\<forall>i \<in> set (ip_rule_indices p). i < length (ip_rules (pol_config p))"
    and fakes: "\<forall>m \<in> set mappings. \<forall>m' \<in> set mappings. fm_fake m = fm_fake m' \<longrightarrow> fm_target m = fm_target m'"
    and lan: "valid_net (subnet lan)" and pk: "policy_packet (pol_net p) lan exclusions pk"
    and S: "S = rendered lan dns_port e p mappings ports exclusions"
  shows "\<exists>t pk'. intended_target p mappings (pk_daddr pk) = Some t \<and>
     eval_chain S (mark_chain lan e p ports) pk = (if egress_target e t = Block then Some Dropped else None, pk') \<and>
     pk_mark pk' AND GOFRO_MARK_MASK = target_mark (egress_target e t) \<and>
     pk_mark pk' AND KEEP_FOREIGN_MARKS = pk_mark pk AND KEEP_FOREIGN_MARKS \<and>
     pk_ct_mark pk' AND GOFRO_MARK_MASK = target_mark (egress_target e t)"
proof -
  let ?ip = "pk_daddr pk" and ?N = "pol_net p"
  note st = state_sets[where p = p and lan = lan and dns_port = dns_port and e = e and mappings = mappings and
      ports = ports and exclusions = exclusions, folded S]
  obtain ct where pro: "passes S (panel_rules lan (port_set [80, 443, 8081, 8443, http ports, https ports]) @
      prologue_rules lan @ local_rules ?N lan) pk (pk\<lparr>pk_ct_mark := ct, pk_mark := pk_mark pk AND KEEP_FOREIGN_MARKS\<rparr>)"
    using prologue_passes[OF laws lan pk st(1,3)] by blast
  let ?pk = "pk\<lparr>pk_ct_mark := ct, pk_mark := pk_mark pk AND KEEP_FOREIGN_MARKS\<rparr>"
  have iif: "pk_iif ?pk = device lan" "pk_ipv4 ?pk" using pk by (simp_all add: policy_packet_def)
  have clear: "pk_mark ?pk AND GOFRO_MARK_MASK = 0" by simp
  have eval: "eval_chain S (mark_chain lan e p ports) pk =
      eval_chain S (final_rules lan e (effective_fallback p)) (first_mark S (dest_tests lan e p) ?pk)"
  proof -
    have "passes S (fake_rules lan e @ [lan_rule ?N lan] @ map (ip_rule_rule lan e) (enabled_ip_rules p)) ?pk
        (first_mark S (dest_tests lan e p) ?pk)"
      unfolding dest_rules using first_mark_passes[OF iif(1) clear dest_tests_ok] .
    then have "passes S ((panel_rules lan (port_set [80, 443, 8081, 8443, http ports, https ports]) @
        prologue_rules lan @ local_rules ?N lan) @
        (fake_rules lan e @ [lan_rule ?N lan] @ map (ip_rule_rule lan e) (enabled_ip_rules p))) pk
        (first_mark S (dest_tests lan e p) ?pk)"
      using pro passes_append by blast
    from passes_eval[OF this, of "final_rules lan e (effective_fallback p)"]
    show ?thesis by (simp add: mark_chain_def)
  qed
  have geo: "st_set S (ip_rule_set i) ?ip = matches_ip ?N (pol_geo p) tag ?ip"
    if "i \<in> set (ip_rule_indices p)" "ir_enabled (ip_rules (pol_config p) ! i)"
      "ir_matcher (ip_rules (pol_config p) ! i) = GeoIp tag" for i tag
  proof -
    have "elements (render_with_exclusions lan dns_port e p mappings ports exclusions) TABLE (ip_rule_set i) =
        elements (rule_sets p) TABLE (ip_rule_set i)"
      by (simp add: render_with_exclusions_def elements_chains set_commands_def elements_Cons elements_mappings(4)
          elements_exclusions(2)[OF rule_set_names(1)] FAKE_TARGET_SETS_def)
    moreover have "(i, rule) \<in> set (enabled_ip_rules p) \<longleftrightarrow> rule = ip_rules (pol_config p) ! i" for rule
      using that(1,2) by (auto simp: enabled_ip_rules_def)
    ultimately have "set (elements (render_with_exclusions lan dns_port e p mappings ports exclusions) TABLE (ip_rule_set i)) =
        El_Range ` set (merged_ranges ?N (ip_networks (pol_geo p) tag))"
      using that(3) by (simp add: set_eq_iff elements_rule_sets)
    then have "st_set S (ip_rule_set i) ?ip \<longleftrightarrow>
        unat ?ip \<in> ranges_cover (merged_ranges ?N (ip_networks (pol_geo p) tag))"
      by (simp add: S loaded_state_def list_ex_iff ranges_cover_iff)
    then show ?thesis using geo_set_matches[OF laws sorted] by simp
  qed
  have conds: "\<forall>i \<in> set (ip_rule_indices p). ir_enabled (ip_rules (pol_config p) ! i) \<longrightarrow>
      holds S (rule_cond (i, ip_rules (pol_config p) ! i)) ?pk = matches_ip_rule p i ?ip"
    using rule_cond_matches[OF ok st(3) iif(2)] idx geo by simp
  obtain name where search: "ip_rule_search p ?ip (ip_rule_indices p) =
      Some (case find (\<lambda>ir. holds S (rule_cond ir) ?pk) (enabled_ip_rules p) of
        None \<Rightarrow> effective_fallback p | Some ir \<Rightarrow> ir_target (snd ir), name)"
    using ip_rule_search_find[OF idx conds] unfolding enabled_ip_rules_def by blast
  have fake: "find (\<lambda>(c, _). holds S c ?pk) (map (\<lambda>(t, s). (Daddr_In_Set s, target_mark (egress_target e t))) FAKE_TARGET_SETS) =
     (case find (\<lambda>m. fm_fake m = ?ip) mappings of
        None \<Rightarrow> None
      | Some m \<Rightarrow> map_option (\<lambda>s. (Daddr_In_Set s, target_mark (egress_target e (fm_target m)))) (map_of FAKE_TARGET_SETS (fm_target m)))"
  proof (rule fake_find[OF fakes])
    fix t s
    assume ts: "(t, s) \<in> set FAKE_TARGET_SETS"
    have "holds S (Daddr_In_Set s) ?pk \<longleftrightarrow> st_set S s ?ip" using iif(2) by (simp add: holds_def check_def)
    then show "holds S (Daddr_In_Set s) ?pk = (\<exists>m \<in> set mappings. fm_fake m = ?ip \<and> fm_target m = t)"
      using st(2)[OF ts] by simp
  qed
  note lanh = lan_list_holds[OF laws st(3) iif(2)]
  let ?ir = "find (\<lambda>ir. holds S (rule_cond ir) ?pk) (enabled_ip_rules p)"
  have tests: "find (\<lambda>(c, _). holds S c ?pk) (dest_tests lan e p) =
      (case find (\<lambda>m. fm_fake m = ?ip) mappings of
         Some m \<Rightarrow> map_option (\<lambda>s. (Daddr_In_Set s, target_mark (egress_target e (fm_target m)))) (map_of FAKE_TARGET_SETS (fm_target m))
       | None \<Rightarrow> if is_lan_destination ?N ?ip then Some (Daddr_List (map (net_show ?N) LAN_RANGES), DIRECT_MARK)
           else map_option (\<lambda>ir. (rule_cond ir, target_mark (egress_target e (ir_target (snd ir))))) ?ir)"
  proof (cases "find (\<lambda>m. fm_fake m = ?ip) mappings")
    case None
    then show ?thesis
      unfolding dest_tests_def find_append_case fake find_map_fst using lanh by simp
  next
    case (Some m)
    obtain s where "map_of FAKE_TARGET_SETS (fm_target m) = Some s" using fake_set_named by blast
    then show ?thesis
      unfolding dest_tests_def find_append_case fake using Some by simp
  qed
  have ip: "map_option fst (ip_target p ?ip) = Some (if is_lan_destination ?N ?ip then Direct else
      case ?ir of None \<Rightarrow> effective_fallback p | Some ir \<Rightarrow> ir_target (snd ir))"
    using search by (auto simp: ip_target_def ip_rule_indices_def enabled_ip_rules_def effective_fallback_def)
  have fin: ?thesis
    if t: "intended_target p mappings ?ip = Some t"
      and m: "first_mark S (dest_tests lan e p) ?pk = mark_with (target_mark (egress_target e t)) ?pk \<or>
        first_mark S (dest_tests lan e p) ?pk = ?pk \<and> t = effective_fallback p" for t
  proof -
    let ?t = "egress_target e t"
    let ?out = "(mark_with (target_mark ?t) ?pk)\<lparr>pk_ct_mark := (ct AND KEEP_FOREIGN_MARKS) OR target_mark ?t\<rparr>"
    have "eval_chain S (mark_chain lan e p ports) pk = (if ?t = Block then Some Dropped else None, ?out)"
      unfolding eval using m
    proof
      assume "first_mark S (dest_tests lan e p) ?pk = mark_with (target_mark ?t) ?pk"
      then show "eval_chain S (final_rules lan e (effective_fallback p)) (first_mark S (dest_tests lan e p) ?pk) =
          (if ?t = Block then Some Dropped else None, ?out)"
        using final_rules_eval[of "mark_with (target_mark ?t) ?pk" lan ?t e "effective_fallback p" "mark_with (target_mark ?t) ?pk" S]
          iif set_masked[OF mark_values(1)] by (simp add: mark_with_def)
    next
      assume "first_mark S (dest_tests lan e p) ?pk = ?pk \<and> t = effective_fallback p"
      then show "eval_chain S (final_rules lan e (effective_fallback p)) (first_mark S (dest_tests lan e p) ?pk) =
          (if ?t = Block then Some Dropped else None, ?out)"
        using final_rules_eval[of ?pk lan ?t e "effective_fallback p" "mark_with (target_mark ?t) ?pk" S] iif clear by simp
    qed
    then show ?thesis
      using t set_masked[OF mark_values(1)] set_foreign[OF mark_values(1)] by (simp add: mark_with_def)
  qed
  show ?thesis
  proof (cases "find (\<lambda>m. fm_fake m = ?ip) mappings")
    case (Some m)
    moreover obtain s where "map_of FAKE_TARGET_SETS (fm_target m) = Some s" using fake_set_named by blast
    ultimately have "first_mark S (dest_tests lan e p) ?pk = mark_with (target_mark (egress_target e (fm_target m))) ?pk"
      using tests by (simp add: first_mark_def)
    then show ?thesis using fin Some by (simp add: intended_target_def)
  next
    case None
    have int: "intended_target p mappings ?ip = map_option fst (ip_target p ?ip)" using None by (simp add: intended_target_def)
    show ?thesis
    proof (cases "is_lan_destination ?N ?ip")
      case True
      then have "first_mark S (dest_tests lan e p) ?pk = mark_with (target_mark (egress_target e Direct)) ?pk"
        using tests None by (simp add: first_mark_def)
      then show ?thesis using fin[of Direct] int ip True by simp
    next
      case False
      show ?thesis
      proof (cases ?ir)
        case none: None
        then have "first_mark S (dest_tests lan e p) ?pk = ?pk" using tests None False by (simp add: first_mark_def)
        then show ?thesis using fin[of "effective_fallback p"] int ip False none by simp
      next
        case (Some ir)
        then have "first_mark S (dest_tests lan e p) ?pk = mark_with (target_mark (egress_target e (ir_target (snd ir)))) ?pk"
          using tests None False by (simp add: first_mark_def)
        then show ?thesis using fin[of "ir_target (snd ir)"] int ip False Some by simp
      qed
    qed
  qed
qed

lemma dns_egress_dropped:
  assumes "pk_ipv4 pk" and "pk_proto pk \<in> {Tcp, Udp}" and "pk_dport pk = 53"
    and "pk_mark pk AND GOFRO_MARK_MASK \<in> {VPN_MARK, WARP_MARK}"
    and "pk_oif pk \<noteq> ''gt0'' \<or> (pk_mark pk AND GOFRO_MARK_MASK = WARP_MARK \<and> src = None)"
  shows "fst (eval_chain S (dns_egress_chain src) pk) = Some Dropped"
proof -
  have marks: "VPN_MARK \<noteq> WARP_MARK" by (simp add: VPN_MARK_def WARP_MARK_def)
  consider "pk_mark pk AND GOFRO_MARK_MASK = VPN_MARK" "pk_oif pk \<noteq> ''gt0''"
    | "pk_mark pk AND GOFRO_MARK_MASK = WARP_MARK" "pk_oif pk \<noteq> ''gt0''"
    | "pk_mark pk AND GOFRO_MARK_MASK = WARP_MARK" "pk_oif pk = ''gt0''" "src = None"
    using assms(4,5) by blast
  then show ?thesis
    using assms(1-3) marks by cases (simp_all add: dns_egress_chain_def check_def)
qed

section \<open>Properties\<close>

text \<open>C3: The rules that the agent loads into the kernel implement the policy: a packet of a LAN device
  that the policy decides about leaves the mark chain with the mark of its intended target, which is the
  target of its FakeDNS mapping or else the target of its address under the policy, adjusted for the state
  of the VPN; it is dropped exactly when that target is a block; marks of other programs are kept; and the
  connection remembers the decision.\<close>

theorem dataplane_refines_policy:
  assumes "ipnet_laws N" and "geodata_run X N g" and "compile X N live_sites live_ips c g = (Inr p, cat)"
    and "\<forall>i \<in> set (ip_rule_indices p). i < length (ip_rules c)"
    and "\<forall>m \<in> set mappings. \<forall>m' \<in> set mappings. fm_fake m = fm_fake m' \<longrightarrow> fm_target m = fm_target m'"
    and "valid_net (subnet lan)" and "policy_packet N lan exclusions pk"
    and "script = render_with_exclusions lan dns_port e p mappings ports exclusions"
  shows "\<exists>t pk'. intended_target p mappings (pk_daddr pk) = Some t \<and>
     eval_chain (loaded_state N script TABLE) (chain_rules script TABLE ''gofro_mark'') pk =
       (if egress_target e t = Block then Some Dropped else None, pk') \<and>
     pk_mark pk' AND GOFRO_MARK_MASK = target_mark (egress_target e t) \<and>
     pk_mark pk' AND KEEP_FOREIGN_MARKS = pk_mark pk AND KEEP_FOREIGN_MARKS \<and>
     pk_ct_mark pk' AND GOFRO_MARK_MASK = target_mark (egress_target e t)"
proof -
  have p: "policy_ok p" "pol_config p = c" "pol_net p = N" using compile_ok[OF assms(3)] by auto
  have sorted: "geodata_sorted (pol_geo p)" using compile_sorted[OF assms(1-3)] .
  have laws: "ipnet_laws (pol_net p)" and pk: "policy_packet (pol_net p) lan exclusions pk"
    and idx: "\<forall>i \<in> set (ip_rule_indices p). i < length (ip_rules (pol_config p))"
    using assms(1,4,7) p by simp_all
  show ?thesis
    using mark_chain_eval[OF laws p(1) sorted idx assms(5,6) pk refl]
    unfolding assms(8) chains_of_render p(3) .
qed

definition witness_lan :: lan_context where
  "witness_lan = \<lparr>device = ''br-lan'', address = octets_addr 192 168 1 1, subnet = net 192 168 1 0 24\<rparr>"

definition witness_packet :: packet where
  "witness_packet = \<lparr>pk_iif = ''br-lan'', pk_oif = ''wan'', pk_ipv4 = True, pk_mac = [2, 0, 0, 0, 0, 1],
     pk_daddr = octets_addr 198 18 0 9, pk_local = False, pk_proto = Tcp, pk_dport = 443, pk_original = True,
     pk_confirmed = False, pk_reply_daddr = 0, pk_syn = True, pk_mss = 1460, pk_mark = 0x80, pk_ct_mark = 0\<rparr>"

definition witness_mappings :: "fake_mapping list" where
  "witness_mappings = [\<lparr>fm_fake = octets_addr 198 18 0 9, fm_real = octets_addr 1 1 1 1, fm_target = Vpn\<rparr>]"

theorem dataplane_refines_policy_witness:
  "\<exists>pk'. eval_chain
      (loaded_state std_ipnet (render_with_exclusions witness_lan 5353 \<lparr>egress_enabled = True, warp_source = None\<rparr>
         witness_policy witness_mappings \<lparr>http = 80, https = 443\<rparr> []) TABLE)
      (chain_rules (render_with_exclusions witness_lan 5353 \<lparr>egress_enabled = True, warp_source = None\<rparr>
         witness_policy witness_mappings \<lparr>http = 80, https = 443\<rparr> []) TABLE ''gofro_mark'') witness_packet = (None, pk') \<and>
     pk_mark pk' AND GOFRO_MARK_MASK = VPN_MARK"
proof -
  have idx: "\<forall>i \<in> set (ip_rule_indices witness_policy). i < length (ip_rules (pol_config witness_policy))"
    by (simp add: ip_rule_indices_def rule_refs_def witness_policy_def List.map_filter_def)
  have pk: "policy_packet std_ipnet witness_lan [] witness_packet"
    by (simp add: policy_packet_def witness_lan_def witness_packet_def PANEL_VIRTUAL_IP_def octets_addr_def
        std_ipnet_def net_def net_first_def net_last_def net_size_def)
  have run: "geodata_run witness_regex std_ipnet empty_geodata" by (simp add: geodata_run_def)
  have v: "valid_net (subnet witness_lan)" by (simp add: witness_lan_def net_def valid_net_def)
  have t: "intended_target witness_policy witness_mappings (pk_daddr witness_packet) = Some Vpn"
    by (simp add: intended_target_def witness_mappings_def witness_packet_def)
  show ?thesis
    using dataplane_refines_policy[OF std.ipnet_laws_axioms run witness_policy_compile idx _ v pk refl,
        of witness_mappings 5353 "\<lparr>egress_enabled = True, warp_source = None\<rparr>" "\<lparr>http = 80, https = 443\<rparr>"] t
    by (auto simp: witness_mappings_def egress_target_def effective_target_def)
qed

text \<open>C21: Protected DNS queries of the router itself fail closed: a query marked for the VPN or for WARP
  that would leave by another interface than the tunnel is dropped, whatever else holds, and a WARP query
  is dropped when no WARP source address is active.\<close>

theorem dns_egress_fails_closed:
  assumes "script = render_with_exclusions lan dns_port e p mappings ports exclusions"
    and "pk_ipv4 pk" and "pk_proto pk \<in> {Tcp, Udp}" and "pk_dport pk = 53"
    and "pk_mark pk AND GOFRO_MARK_MASK \<in> {VPN_MARK, WARP_MARK}"
    and "pk_oif pk \<noteq> ''gt0'' \<or> (pk_mark pk AND GOFRO_MARK_MASK = WARP_MARK \<and> active_warp e = None)"
  shows "fst (eval_chain (loaded_state N script TABLE) (chain_rules script TABLE ''gofro_dns_egress'') pk) = Some Dropped"
  unfolding assms(1) chains_of_render using dns_egress_dropped[OF assms(2-6)] .

theorem dns_egress_fails_closed_witness:
  "fst (eval_chain (loaded_state std_ipnet (render_with_exclusions witness_lan 5353 \<lparr>egress_enabled = True, warp_source = None\<rparr>
         witness_policy [] \<lparr>http = 80, https = 443\<rparr> []) TABLE)
       (chain_rules (render_with_exclusions witness_lan 5353 \<lparr>egress_enabled = True, warp_source = None\<rparr>
         witness_policy [] \<lparr>http = 80, https = 443\<rparr> []) TABLE ''gofro_dns_egress'')
       (witness_packet\<lparr>pk_dport := 53, pk_mark := 0x60080, pk_oif := ''gt0''\<rparr>)) = Some Dropped"
  by (rule dns_egress_fails_closed[OF refl])
    (simp_all add: witness_packet_def GOFRO_MARK_MASK_def WARP_MARK_def VPN_MARK_def active_warp_def)

text \<open>C22: While the guard table is loaded, a forwarded packet from the LAN to any other interface is
  dropped, unless it comes from an excluded device; packets within the LAN pass.\<close>

theorem guard_blocks_forwarding:
  assumes "script = render_guard_with_exclusions lan exclusions" and "pk_iif pk = device lan"
  shows "fst (eval_chain (loaded_state N script GUARD_TABLE) (chain_rules script GUARD_TABLE ''gofro_guard'') pk) =
     (if pk_oif pk \<noteq> device lan \<and> pk_mac pk \<notin> set exclusions then Some Dropped else None)"
proof -
  have rules: "chain_rules script GUARD_TABLE ''gofro_guard'' =
      [[Iifname (device lan), Oifname_Not (device lan)] @ (if exclusions = [] then [] else [Not_Excluded_Mac]) @ [Drop_Packet]]"
    by (simp add: assms(1) render_guard_with_exclusions_def chain_rules_Cons render_exclusion_set_def)
  have mf: "List.map_filter (\<lambda>e. case e of El_Mac m \<Rightarrow> Some m | _ \<Rightarrow> None) (map El_Mac ms) = ms" for ms
    by (induction ms) (auto simp: List.map_filter_simps)
  have "st_excluded (loaded_state N script GUARD_TABLE) = exclusions"
    by (simp add: loaded_state_def assms(1) render_guard_with_exclusions_def elements_Cons mf)
  then show ?thesis using assms(2) unfolding rules by (cases "exclusions = []") (simp_all add: check_def)
qed

theorem guard_blocks_forwarding_witness:
  "fst (eval_chain (loaded_state std_ipnet (render_guard_with_exclusions witness_lan [[2, 0, 0, 0, 0, 2]]) GUARD_TABLE)
     (chain_rules (render_guard_with_exclusions witness_lan [[2, 0, 0, 0, 0, 2]]) GUARD_TABLE ''gofro_guard'') witness_packet) =
     Some Dropped"
  using guard_blocks_forwarding[OF refl, of witness_packet witness_lan std_ipnet "[[2, 0, 0, 0, 0, 2]]"]
  by (simp add: witness_packet_def witness_lan_def)

text \<open>A connection to a FakeDNS address is translated to the real address of its mapping, and the
  panel address to the router: no other destination of the LAN is rewritten.\<close>

theorem fake_translation:
  assumes "script = render_with_exclusions lan dns_port e p mappings ports exclusions"
    and "pol_net p = N" and "pk_iif pk = device lan" and "pk_ipv4 pk" and "pk_daddr pk \<noteq> PANEL_VIRTUAL_IP"
  shows "fst (eval_chain (loaded_state N script TABLE) (chain_rules script TABLE ''gofro_dnat'') pk) =
     (case find (\<lambda>m. fm_fake m = pk_daddr pk) mappings of None \<Rightarrow> None | Some m \<Rightarrow> Some (Nat_To (fm_real m) None))"
proof -
  have "map_of (map (\<lambda>m. (fm_fake m, fm_real m)) ms) ip =
      map_option fm_real (find (\<lambda>m. fm_fake m = ip) ms)" for ms ip
    by (induction ms) auto
  then have "st_fake (loaded_state N script TABLE) (pk_daddr pk) =
      map_option fm_real (find (\<lambda>m. fm_fake m = pk_daddr pk) mappings)"
    using state_sets(4)[of p lan dns_port e mappings ports exclusions, unfolded assms(2), folded assms(1)] by simp
  then show ?thesis
    using assms(3-5) unfolding assms(1) chains_of_render(3)
    by (cases "find (\<lambda>m. fm_fake m = pk_daddr pk) mappings") (simp_all add: dnat_chain_def)
qed

theorem fake_translation_witness:
  "fst (eval_chain (loaded_state std_ipnet (render_with_exclusions witness_lan 5353 \<lparr>egress_enabled = True, warp_source = None\<rparr>
         witness_policy witness_mappings \<lparr>http = 80, https = 443\<rparr> []) TABLE)
       (chain_rules (render_with_exclusions witness_lan 5353 \<lparr>egress_enabled = True, warp_source = None\<rparr>
         witness_policy witness_mappings \<lparr>http = 80, https = 443\<rparr> []) TABLE ''gofro_dnat'') witness_packet) =
     Some (Nat_To (octets_addr 1 1 1 1) None)"
  using fake_translation[OF refl, of witness_policy std_ipnet witness_packet witness_lan 5353
      "\<lparr>egress_enabled = True, warp_source = None\<rparr>" witness_mappings "\<lparr>http = 80, https = 443\<rparr>" "[]"]
  by (simp add: witness_mappings_def witness_policy_def witness_packet_def witness_lan_def PANEL_VIRTUAL_IP_def octets_addr_def)

end
