(* ===== verification/Fake_Store.thy ===== *)
theory Fake_Store
  imports Dataplane "HOL-Library.AList"
begin

text \<open>
  The FakeDNS lease store of the agent (\<^verbatim>\<open>gofro-agent/src/fake_dns/store.rs\<close>): the table of leases in
  memory, the set of fake addresses in use, and the SQLite table behind them. SQLite is code of another
  project: its statements are the record \<open>fake_db\<close>, each of which may fail (\<open>None\<close>, which leaves the
  connection as it was), and the locale \<open>fake_db_laws\<close> says what a statement that succeeds does to the
  rows of the table. A \<^verbatim>\<open>HashMap\<close> is an association list with distinct keys, whose order stands for
  the unspecified order of iteration.
\<close>

section \<open>Constants and rows\<close>

definition FIRST_FAKE :: u32 where "FIRST_FAKE = octets_addr 198 18 0 1"
definition LAST_FAKE :: u32 where "LAST_FAKE = octets_addr 198 19 255 254"
definition CONNECTION_GRACE_SECONDS :: int where "CONNECTION_GRACE_SECONDS = 24 * 60 * 60"

record lease =
  mapping :: fake_mapping
  lease_expires :: int

text \<open>A row of the table \<^verbatim>\<open>fake_dns\<close>; SQLite integers are signed 64-bit integers.\<close>

record fake_row =
  row_fake :: int
  row_domain :: string
  row_real :: int
  row_target :: int
  row_expires :: int

record 'c fake_db =
  db_create :: "'c \<Rightarrow> 'c option"
  db_pragma :: "string \<Rightarrow> int \<Rightarrow> 'c \<Rightarrow> 'c option"
  db_checkpoint :: "'c \<Rightarrow> 'c option"
  db_delete_expired :: "int \<Rightarrow> 'c \<Rightarrow> 'c option"
  db_select :: "'c \<Rightarrow> fake_row list option"
  db_begin :: "'c \<Rightarrow> 'c option"
  db_commit :: "'c \<Rightarrow> 'c option"
  db_set_target :: "int \<Rightarrow> int \<Rightarrow> 'c \<Rightarrow> 'c option"
  db_set_expires :: "int \<Rightarrow> int \<Rightarrow> 'c \<Rightarrow> 'c option"
  db_insert :: "fake_row \<Rightarrow> 'c \<Rightarrow> 'c option"
  db_delete :: "int \<Rightarrow> 'c \<Rightarrow> 'c option"

type_synonym lease_key = "string \<times> ipv4"

record 'c store =
  connection :: 'c
  leases :: "(lease_key \<times> lease) list"
  used :: "ipv4 set"
  next_fake :: u32
  max_leases :: nat

datatype store_error =
    Clock_Before_Epoch
  | Clock_Range
  | Sql_Error
  | Bad_Address int
  | Bad_Target int
  | Outside_Pool ipv4
  | Lease_Limit nat
  | Pool_Exhausted

section \<open>Conversions\<close>

text \<open>The range of \<^verbatim>\<open>i64\<close>; a release build wraps.\<close>

definition i64_wrap :: "int \<Rightarrow> int" where
  "i64_wrap x = (x + 2 ^ 63) mod 2 ^ 64 - 2 ^ 63"

definition i64_saturating_sub :: "int \<Rightarrow> int \<Rightarrow> int" where
  "i64_saturating_sub a b = max (- (2 ^ 63)) (min (2 ^ 63 - 1) (a - b))"

text \<open>The clock as the seconds since the epoch, \<open>None\<close> when it stands before it.\<close>

definition unix_time :: "nat option \<Rightarrow> store_error + int" where
  "unix_time clk =
     (case clk of
        None \<Rightarrow> Inl Clock_Before_Epoch
      | Some seconds \<Rightarrow> if seconds < 2 ^ 63 then Inr (int seconds) else Inl Clock_Range)"

fun target_code :: "route_target \<Rightarrow> int" where
  "target_code Direct = 1"
| "target_code Vpn = 2"
| "target_code Block = 3"
| "target_code Warp = 4"

definition target_from_code :: "int \<Rightarrow> store_error + route_target" where
  "target_from_code c =
     (if c = 1 then Inr Direct else if c = 2 then Inr Vpn else if c = 3 then Inr Block
      else if c = 4 then Inr Warp else Inl (Bad_Target c))"

definition ipv4_from_sql :: "int \<Rightarrow> store_error + ipv4" where
  "ipv4_from_sql v = (if 0 \<le> v \<and> v < 2 ^ 32 then Inr (word_of_int v) else Inl (Bad_Address v))"

definition sql :: "'a option \<Rightarrow> store_error + 'a" where
  "sql r = ok_or r Sql_Error"

section \<open>Opening the store\<close>

definition lease_from_row :: "fake_row \<Rightarrow> store_error + (lease_key \<times> lease)" where
  "lease_from_row r =
     and_then (ipv4_from_sql (row_fake r)) (\<lambda>fake.
     and_then (ipv4_from_sql (row_real r)) (\<lambda>real.
     and_then (target_from_code (row_target r)) (\<lambda>t.
     Inr ((row_domain r, real), \<lparr>mapping = \<lparr>fm_fake = fake, fm_real = real, fm_target = t\<rparr>,
                                 lease_expires = row_expires r\<rparr>))))"

definition collect_leases :: "(lease_key \<times> lease) list \<Rightarrow> (lease_key \<times> lease) list" where
  "collect_leases = foldl (\<lambda>m (k, l). AList.update k l m) []"

definition in_pool :: "ipv4 \<Rightarrow> bool" where
  "in_pool a \<longleftrightarrow> FIRST_FAKE \<le> a \<and> a \<le> LAST_FAKE"

primrec check_pool :: "(lease_key \<times> lease) list \<Rightarrow> store_error + unit" where
  "check_pool [] = Inr ()"
| "check_pool (e # es) =
     (let fake = fm_fake (mapping (snd e)) in
      if in_pool fake then check_pool es else Inl (Outside_Pool fake))"

text \<open>\<^verbatim>\<open>x as i32\<close> and \<^verbatim>\<open>x as u32\<close> of a \<^verbatim>\<open>usize\<close>.\<close>

definition as_i32 :: "nat \<Rightarrow> int" where
  "as_i32 n = sint (word_of_nat n :: 32 word)"

definition as_u32 :: "nat \<Rightarrow> int" where
  "as_u32 n = uint (word_of_nat n :: 32 word)"

definition prepare_connection :: "'c fake_db \<Rightarrow> resource_limits \<Rightarrow> 'c \<Rightarrow> store_error + 'c" where
  "prepare_connection db rl c =
     and_then (sql (db_create db c)) (\<lambda>c.
     and_then (sql (db_pragma db ''cache_size'' (- as_i32 (sqlite_cache_kib rl)) c)) (\<lambda>c.
     and_then (sql (db_pragma db ''wal_autocheckpoint'' (as_u32 (wal_pages rl)) c)) (\<lambda>c.
     and_then (sql (db_pragma db ''journal_size_limit'' (as_u32 (wal_pages rl * 4096)) c)) (\<lambda>c.
     sql (db_checkpoint db c)))))"

definition from_connection_with_limits ::
    "'c fake_db \<Rightarrow> resource_limits \<Rightarrow> nat option \<Rightarrow> 'c \<Rightarrow> store_error + 'c store" where
  "from_connection_with_limits db rl clk c =
     and_then (prepare_connection db rl c) (\<lambda>c.
     and_then (unix_time clk) (\<lambda>now.
     and_then (sql (db_delete_expired db (i64_saturating_sub now CONNECTION_GRACE_SECONDS) c)) (\<lambda>c.
     and_then (sql (db_select db c)) (\<lambda>rows.
     and_then (collect_results (map lease_from_row rows)) (\<lambda>es.
     let ls = collect_leases es in
     and_then (check_pool ls) (\<lambda>_.
     Inr \<lparr>connection = c, leases = ls, used = (\<lambda>e. fm_fake (mapping (snd e))) ` set ls,
          next_fake = FIRST_FAKE, max_leases = fake_leases rl\<rparr>))))))"

section \<open>Operations\<close>

definition reclassify :: "'r policy \<Rightarrow> lease_key \<times> lease \<Rightarrow> fake_mapping" where
  "reclassify p e = (mapping (snd e))\<lparr>fm_target := Routing.target p (fst (fst e)) (fm_real (mapping (snd e)))\<rparr>"

definition reclassified :: "'r policy \<Rightarrow> 'c store \<Rightarrow> fake_mapping list" where
  "reclassified p s = map (reclassify p) (leases s)"

primrec sql_each :: "('a \<Rightarrow> 'c \<Rightarrow> 'c option) \<Rightarrow> 'a list \<Rightarrow> 'c \<Rightarrow> store_error + 'c" where
  "sql_each f [] c = Inr c"
| "sql_each f (x # xs) c = and_then (sql (f x c)) (sql_each f xs)"

text \<open>A transaction that is dropped before its commit rolls es_rows.\<close>

definition transaction :: "'c fake_db \<Rightarrow> ('a \<Rightarrow> 'c \<Rightarrow> 'c option) \<Rightarrow> 'a list \<Rightarrow> 'c \<Rightarrow> store_error + 'c" where
  "transaction db f xs c =
     and_then (sql (db_begin db c)) (\<lambda>c.
     and_then (sql_each f xs c) (\<lambda>c. sql (db_commit db c)))"

definition commit_targets :: "'c fake_db \<Rightarrow> 'r policy \<Rightarrow> 'c store \<Rightarrow> 'c store \<times> (store_error + unit)" where
  "commit_targets db p s =
     (case transaction db (\<lambda>e. db_set_target db (target_code (fm_target (reclassify p e)))
                               (uint (fm_fake (mapping (snd e))))) (leases s) (connection s) of
        Inl e \<Rightarrow> (s, Inl e)
      | Inr c \<Rightarrow>
          (s\<lparr>connection := c,
             leases := map (\<lambda>e. (fst e, (snd e)\<lparr>mapping := reclassify p e\<rparr>)) (leases s)\<rparr>, Inr ()))"

definition len :: "'c store \<Rightarrow> nat" where
  "len s = length (leases s)"

definition expired_at :: "'c store \<Rightarrow> int \<Rightarrow> fake_mapping list" where
  "expired_at s now =
     (let cutoff = i64_saturating_sub now CONNECTION_GRACE_SECONDS in
      map (\<lambda>e. mapping (snd e)) (filter (\<lambda>e. lease_expires (snd e) \<le> cutoff) (leases s)))"

definition expired :: "nat option \<Rightarrow> 'c store \<Rightarrow> store_error + fake_mapping list" where
  "expired clk s = and_then (unix_time clk) (\<lambda>now. Inr (expired_at s now))"

definition clamp :: "nat \<Rightarrow> nat \<Rightarrow> nat \<Rightarrow> nat" where
  "clamp lo hi n = max lo (min hi n)"

definition pool_size :: u32 where
  "pool_size = LAST_FAKE - FIRST_FAKE + 1"

function find_fake :: "ipv4 set \<Rightarrow> u32 \<Rightarrow> u32 \<Rightarrow> ipv4 option" where
  "find_fake taken start offset =
     (if offset < pool_size then
        (let candidate = FIRST_FAKE + (start - FIRST_FAKE + offset) mod pool_size in
         if candidate \<notin> taken then Some candidate else find_fake taken start (offset + 1))
      else None)"
  by pat_completeness auto
termination
proof (relation "measure (\<lambda>(_, _, offset). unat (pool_size - offset))")
  show "((taken, start, offset + 1), taken, start, offset) \<in> measure (\<lambda>(_, _, offset). unat (pool_size - offset))"
    if "offset < pool_size" for taken start offset
  proof -
    have "unat offset < 131070"
      using that by (simp add: word_less_nat_alt pool_size_def FIRST_FAKE_def LAST_FAKE_def octets_addr_def)
    then have "unat (1 + offset) = unat offset + 1" by (simp add: unat_word_ariths)
    then show ?thesis using that by (simp add: word_less_nat_alt unat_sub word_le_nat_alt add.commute)
  qed
qed simp

declare find_fake.simps [simp del]

definition after_fake :: "ipv4 \<Rightarrow> ipv4" where
  "after_fake fake = (if fake = LAST_FAKE then FIRST_FAKE else fake + 1)"

definition row_of :: "lease_key \<Rightarrow> lease \<Rightarrow> fake_row" where
  "row_of k l = \<lparr>row_fake = uint (fm_fake (mapping l)), row_domain = fst k, row_real = uint (snd k),
     row_target = target_code (fm_target (mapping l)), row_expires = lease_expires l\<rparr>"

definition allocate ::
    "'c fake_db \<Rightarrow> nat option \<Rightarrow> string \<Rightarrow> ipv4 \<Rightarrow> route_target \<Rightarrow> u32 \<Rightarrow> 'c store \<Rightarrow>
     'c store \<times> (store_error + fake_mapping \<times> bool)" where
  "allocate db clk domain real t ttl s =
     (case unix_time clk of
        Inl e \<Rightarrow> (s, Inl e)
      | Inr now \<Rightarrow>
          (let key = (domain, real); expires = i64_wrap (now + int (clamp 30 3600 (unat ttl)) + 300) in
           case map_of (leases s) key of
             Some l \<Rightarrow>
               if lease_expires l < expires then
                 (case sql (db_set_expires db expires (uint (fm_fake (mapping l))) (connection s)) of
                    Inl e \<Rightarrow> (s, Inl e)
                  | Inr c \<Rightarrow>
                      (s\<lparr>connection := c, leases := AList.update key (l\<lparr>lease_expires := expires\<rparr>) (leases s)\<rparr>,
                       Inr (mapping l, False)))
               else (s, Inr (mapping l, False))
           | None \<Rightarrow>
               if \<not> len s < max_leases s then (s, Inl (Lease_Limit (max_leases s)))
               else
                 (case find_fake (used s) (next_fake s) 0 of
                    None \<Rightarrow> (s, Inl Pool_Exhausted)
                  | Some fake \<Rightarrow>
                      (let s' = s\<lparr>next_fake := after_fake fake\<rparr>;
                           m = \<lparr>fm_fake = fake, fm_real = real, fm_target = t\<rparr>;
                           l = \<lparr>mapping = m, lease_expires = expires\<rparr> in
                       case sql (db_insert db (row_of key l) (connection s)) of
                         Inl e \<Rightarrow> (s', Inl e)
                       | Inr c \<Rightarrow>
                           (s'\<lparr>connection := c, used := insert fake (used s),
                               leases := AList.update key l (leases s)\<rparr>, Inr (m, True))))))"

definition store_remove_mappings ::
    "'c fake_db \<Rightarrow> fake_mapping list \<Rightarrow> 'c store \<Rightarrow> 'c store \<times> (store_error + unit)" where
  "store_remove_mappings db ms s =
     (case transaction db (\<lambda>m. db_delete db (uint (fm_fake m))) ms (connection s) of
        Inl e \<Rightarrow> (s, Inl e)
      | Inr c \<Rightarrow>
          (let removed = fm_fake ` set ms in
           (s\<lparr>connection := c, used := {fake \<in> used s. fake \<notin> removed},
              leases := filter (\<lambda>e. fm_fake (mapping (snd e)) \<notin> removed) (leases s)\<rparr>, Inr ())))"

section \<open>The pool\<close>

lemma pool_numbers: "unat FIRST_FAKE = 3323068417" "unat LAST_FAKE = 3323199486" "unat pool_size = 131070"
  by (simp_all add: FIRST_FAKE_def LAST_FAKE_def pool_size_def octets_addr_def)

lemma in_pool_unat: "in_pool a \<longleftrightarrow> 3323068417 \<le> unat a \<and> unat a \<le> 3323199486"
  by (simp add: in_pool_def word_le_nat_alt pool_numbers)

lemma FIRST_FAKE_in_pool [simp]: "in_pool FIRST_FAKE"
  by (simp add: in_pool_unat pool_numbers)

lemma candidate_in_pool: "in_pool (FIRST_FAKE + w mod pool_size)"
proof -
  have "unat w mod 131070 < 131070" by simp
  then have "unat (FIRST_FAKE + w mod pool_size) = 3323068417 + unat w mod 131070"
    by (simp add: unat_word_ariths pool_numbers unat_mod del: mod_less_divisor)
  then show ?thesis using \<open>unat w mod 131070 < 131070\<close> by (simp add: in_pool_unat del: mod_less_divisor)
qed

lemma after_fake_in_pool: "in_pool a \<Longrightarrow> in_pool (after_fake a)"
proof -
  assume a: "in_pool a"
  show ?thesis
  proof (cases "a = LAST_FAKE")
    case False
    then have "unat a \<noteq> 3323199486" by (metis pool_numbers(2) word_unat_eq_iff)
    then have "unat a < 3323199486" "3323068417 \<le> unat a" using a by (auto simp: in_pool_unat)
    moreover from this have "unat (a + 1) = unat a + 1" by (simp add: unat_word_ariths)
    ultimately show ?thesis using False by (simp add: in_pool_unat after_fake_def)
  qed (simp add: after_fake_def)
qed

lemma find_fake_Some:
  "find_fake taken start offset = Some a \<Longrightarrow> in_pool a \<and> a \<notin> taken"
proof (induction taken start offset rule: find_fake.induct)
  case (1 taken start offset)
  then show ?case
    by (subst (asm) (2) find_fake.simps)
      (auto simp: Let_def candidate_in_pool split: if_splits)
qed

lemma find_fake_None:
  "find_fake taken start offset = None \<Longrightarrow> offset \<le> o' \<Longrightarrow> o' < pool_size \<Longrightarrow>
     FIRST_FAKE + (start - FIRST_FAKE + o') mod pool_size \<in> taken"
proof (induction taken start offset rule: find_fake.induct)
  case (1 taken start offset)
  have lt: "offset < pool_size" using "1.prems" by simp
  let ?c = "FIRST_FAKE + (start - FIRST_FAKE + offset) mod pool_size"
  have c: "?c \<in> taken" and rest: "find_fake taken start (offset + 1) = None"
    using "1.prems"(1) lt by (subst (asm) find_fake.simps; simp add: Let_def split: if_splits)+
  show ?case
  proof (cases "o' = offset")
    case True
    then show ?thesis using c by simp
  next
    case False
    then have "offset + 1 \<le> o'" using "1.prems"(2) by (simp add: inc_le order_less_le)
    then show ?thesis using "1.IH"[OF lt refl] c rest "1.prems"(3) by simp
  qed
qed

lemma pool_offset:
  assumes "in_pool start" and "in_pool a"
  shows "\<exists>o'. o' < pool_size \<and> FIRST_FAKE + (start - FIRST_FAKE + o') mod pool_size = a"
proof -
  let ?s = "unat start - 3323068417" and ?a = "unat a - 3323068417"
  let ?n = "(?a + 131070 - ?s) mod 131070"
  have b: "?s < 131070" "?a < 131070" "3323068417 \<le> unat start" "3323068417 \<le> unat a" "unat a < 4294967296"
    using assms by (auto simp: in_pool_unat)
  have n: "?n < 131070" by simp
  have o1: "unat (word_of_nat ?n :: u32) = ?n" using n by (simp add: unat_of_nat)
  have "(?s + ?n) mod 131070 = ?a"
  proof -
    have "(?s + ?n) mod 131070 = (?s + (?a + 131070 - ?s)) mod 131070" by (rule mod_add_right_eq)
    also have "?s + (?a + 131070 - ?s) = ?a + 131070" using b by linarith
    also have "(?a + 131070) mod 131070 = ?a mod 131070" by (rule mod_add_self2)
    also have "\<dots> = ?a" using b(2) by (rule mod_less)
    finally show ?thesis .
  qed
  moreover have "unat (start - FIRST_FAKE + word_of_nat ?n) = ?s + ?n"
  proof -
    have "unat (start - FIRST_FAKE) = ?s"
      using b by (simp add: unat_sub word_le_nat_alt pool_numbers)
    then show ?thesis using b(1) n o1 by (simp add: unat_word_ariths del: mod_less_divisor)
  qed
  ultimately have "unat (FIRST_FAKE + (start - FIRST_FAKE + word_of_nat ?n) mod pool_size) = unat a"
    using b by (simp add: unat_word_ariths unat_mod pool_numbers)
  then have "FIRST_FAKE + (start - FIRST_FAKE + word_of_nat ?n) mod pool_size = a"
    using word_unat_eq_iff by blast
  moreover have "(word_of_nat ?n :: u32) < pool_size" using n o1 by (simp add: word_less_nat_alt pool_numbers)
  ultimately show ?thesis by blast
qed

lemma card_pool: "card {a. in_pool a} = 131070"
proof -
  have "unat ` {a. in_pool a} = {3323068417..3323199486}"
  proof (rule set_eqI, rule iffI)
    fix n assume "n \<in> {3323068417..3323199486::nat}"
    then have "n = unat (word_of_nat n :: ipv4)" "in_pool (word_of_nat n)"
      by (auto simp: in_pool_unat unat_of_nat)
    then show "n \<in> unat ` {a. in_pool a}" by blast
  qed (auto simp: in_pool_unat)
  moreover have "card (unat ` {a. in_pool a}) = card {a. in_pool a}"
    by (rule card_image) (auto intro!: inj_onI simp: word_unat_eq_iff)
  ultimately show ?thesis by simp
qed

lemma find_fake_total:
  assumes "in_pool start" and "finite taken" and "card taken < 131070"
  shows "\<exists>a. find_fake taken start 0 = Some a"
proof (rule ccontr)
  assume "\<not> ?thesis"
  then have "find_fake taken start 0 = None" by simp
  then have "{a. in_pool a} \<subseteq> taken"
    using find_fake_None[of taken start 0] pool_offset[OF assms(1)] by fastforce
  then show False using card_mono[OF assms(2)] assms(3) by (metis card_pool leD)
qed

section \<open>The invariant\<close>

definition fake_of :: "lease_key \<times> lease \<Rightarrow> ipv4" where
  "fake_of e = fm_fake (mapping (snd e))"

text \<open>The lease table without regard to the SQL rows.\<close>

definition table_ok :: "(lease_key \<times> lease) list \<Rightarrow> bool" where
  "table_ok ls \<longleftrightarrow> distinct (map fst ls) \<and> distinct (map fake_of ls) \<and>
     (\<forall>e\<in>set ls. in_pool (fake_of e) \<and> fm_real (mapping (snd e)) = snd (fst e))"

definition store_ok :: "('c \<Rightarrow> fake_row set) \<Rightarrow> 'c store \<Rightarrow> bool" where
  "store_ok rows s \<longleftrightarrow> table_ok (leases s) \<and> used s = fake_of ` set (leases s) \<and>
     rows (connection s) = (\<lambda>e. row_of (fst e) (snd e)) ` set (leases s) \<and> in_pool (next_fake s)"

text \<open>What \<^verbatim>\<open>PRIMARY KEY\<close> and \<^verbatim>\<open>UNIQUE(domain, real)\<close> say of the rows.\<close>

definition unique_rows :: "fake_row set \<Rightarrow> bool" where
  "unique_rows R \<longleftrightarrow> (\<forall>r\<in>R. \<forall>r'\<in>R.
     row_fake r = row_fake r' \<or> (row_domain r = row_domain r' \<and> row_real r = row_real r') \<longrightarrow> r = r')"

lemma unique_rowsD:
  "unique_rows R \<Longrightarrow> r \<in> R \<Longrightarrow> r' \<in> R \<Longrightarrow>
     row_fake r = row_fake r' \<or> (row_domain r = row_domain r' \<and> row_real r = row_real r') \<Longrightarrow> r = r'"
  unfolding unique_rows_def by blast

lemma uint_u32: "uint (a :: ipv4) < 4294967296"
  using uint_lt2p[of a] by simp

lemma uint_eq [simp]: "uint (a :: ipv4) = uint b \<longleftrightarrow> a = b"
  by (simp flip: word_uint_eq_iff)

lemma lease_from_row_of:
  "fm_real (mapping l) = snd k \<Longrightarrow> lease_from_row (row_of k l) = Inr (k, l)"
  by (cases "fm_target (mapping l)")
    (simp_all add: lease_from_row_def row_of_def ipv4_from_sql_def target_from_code_def uint_u32)

lemma row_of_lease_from:
  assumes "lease_from_row r = Inr (k, l)"
  shows "row_of k l = r" and "fm_real (mapping l) = snd k"
  using assms by (auto simp: lease_from_row_def row_of_def ipv4_from_sql_def target_from_code_def
      unsigned_of_int take_bit_int_eq_self split: if_splits)

lemma lease_from_row_inj:
  "lease_from_row r = Inr e \<Longrightarrow> lease_from_row r' = Inr e \<Longrightarrow> r = r'"
  using row_of_lease_from(1) by (metis prod.collapse)

lemma update_fresh: "k \<notin> fst ` set al \<Longrightarrow> AList.update k v al = al @ [(k, v)]"
  by (induction al) auto

lemma update_hit:
  "distinct (map fst al) \<Longrightarrow> k \<in> fst ` set al \<Longrightarrow>
     AList.update k v al = map (\<lambda>e. if fst e = k then (k, v) else e) al"
proof (induction al)
  case (Cons e al)
  then show ?case by (cases "fst e = k") (auto intro!: map_idI[symmetric] simp: image_iff)
qed simp

lemma collect_leases_distinct:
  assumes "distinct (map fst es)"
  shows "collect_leases es = es"
proof -
  have "foldl (\<lambda>m (k, l). AList.update k l m) acc es = acc @ es"
    if "distinct (map fst (acc @ es))" for acc
    using that
  proof (induction es arbitrary: acc)
    case (Cons e es)
    obtain k l where e: "e = (k, l)" by (cases e)
    have "AList.update k l acc = acc @ [(k, l)]" using Cons.prems e by (intro update_fresh) auto
    then show ?case using Cons.IH[of "acc @ [(k, l)]"] Cons.prems e by simp
  qed simp
  then show ?thesis using assms by (simp add: collect_leases_def)
qed

section \<open>Batches of statements\<close>

lemma fold_image: "fold (\<lambda>x. (`) (h x)) xs R = fold h xs ` R"
  by (induction xs arbitrary: R) (simp_all add: image_image)

lemma filter_image: "{y \<in> f ` A. P y} = f ` {x \<in> A. P (f x)}"
  by auto

lemma fold_delete:
  "fold (\<lambda>m R. {r \<in> R. row_fake r \<noteq> k m}) ms R = {r \<in> R. row_fake r \<notin> k ` set ms}"
  by (induction ms arbitrary: R) auto

text \<open>Updates by primary key touch the row of their own lease only.\<close>

definition set_target_row :: "int \<Rightarrow> int \<Rightarrow> fake_row \<Rightarrow> fake_row" where
  "set_target_row f v r = (if row_fake r = f then r\<lparr>row_target := v\<rparr> else r)"

lemma fold_set_target_other:
  "row_fake r \<notin> k ` set es \<Longrightarrow> fold (\<lambda>e. set_target_row (k e) (v e)) es r = r"
  by (induction es arbitrary: r) (auto simp: set_target_row_def)

lemma fold_set_target_own:
  "distinct (map k es) \<Longrightarrow> e \<in> set es \<Longrightarrow> row_fake r = k e \<Longrightarrow>
     fold (\<lambda>e. set_target_row (k e) (v e)) es r = r\<lparr>row_target := v e\<rparr>"
proof (induction es arbitrary: r)
  case (Cons a es)
  show ?case
  proof (cases "k a = k e")
    case True
    then have "a = e" using Cons.prems by (auto simp: image_iff)
    moreover have "set_target_row (k e) (v e) r = r\<lparr>row_target := v e\<rparr>"
      using Cons.prems(3) by (simp add: set_target_row_def)
    ultimately show ?thesis
      using Cons.prems fold_set_target_other[of "r\<lparr>row_target := v e\<rparr>" k es v] by simp
  next
    case False
    then show ?thesis using Cons by (auto simp: set_target_row_def)
  qed
qed simp

section \<open>The contract of SQLite\<close>

locale fake_db_laws =
  fixes db :: "'c fake_db" and rows :: "'c \<Rightarrow> fake_row set"
  assumes create: "db_create db c = Some c' \<Longrightarrow> rows c' = rows c"
    and pragma: "db_pragma db name v c = Some c' \<Longrightarrow> rows c' = rows c"
    and checkpoint: "db_checkpoint db c = Some c' \<Longrightarrow> rows c' = rows c"
    and begin_rows: "db_begin db c = Some c' \<Longrightarrow> rows c' = rows c"
    and commit_rows: "db_commit db c = Some c' \<Longrightarrow> rows c' = rows c"
    and delete_expired: "db_delete_expired db t c = Some c' \<Longrightarrow> rows c' = {r \<in> rows c. \<not> row_expires r \<le> t}"
    and select: "db_select db c = Some rs \<Longrightarrow> set rs = rows c \<and> distinct rs"
    and set_target: "db_set_target db v f c = Some c' \<Longrightarrow>
          rows c' = set_target_row f v ` rows c"
    and set_expires: "db_set_expires db v f c = Some c' \<Longrightarrow>
          rows c' = (\<lambda>r. if row_fake r = f then r\<lparr>row_expires := v\<rparr> else r) ` rows c"
    and insert_row: "db_insert db r c = Some c' \<Longrightarrow> rows c' = insert r (rows c)"
    and delete_row: "db_delete db f c = Some c' \<Longrightarrow> rows c' = {r \<in> rows c. row_fake r \<noteq> f}"
begin

lemma transaction_rows:
  assumes "transaction db f xs c = Inr c'"
    and step: "\<And>x c c'. f x c = Some c' \<Longrightarrow> rows c' = g x (rows c)"
  shows "rows c' = fold g xs (rows c)"
proof -
  have each: "rows c' = fold g xs (rows c)" if "sql_each f xs c = Inr c'" for c c' xs
    using that by (induction xs arbitrary: c) (auto simp: sql_def dest: step)
  show ?thesis using assms(1) by (auto simp: transaction_def sql_def dest!: begin_rows commit_rows each)
qed

lemma commit_targets_ok:
  assumes ok: "store_ok rows s"
  shows "store_ok rows (fst (commit_targets db p s))"
proof (cases "snd (commit_targets db p s)")
  case (Inl e)
  then show ?thesis using ok by (auto simp: commit_targets_def split: sum.splits)
next
  case (Inr u)
  let ?new = "\<lambda>e. (fst e, (snd e)\<lparr>mapping := reclassify p e\<rparr>)"
  let ?k = "\<lambda>e. uint (fake_of e)" and ?v = "\<lambda>e. target_code (fm_target (reclassify p e))"
  obtain c where c: "transaction db (\<lambda>e. db_set_target db (?v e) (?k e)) (leases s) (connection s) = Inr c"
    and s': "fst (commit_targets db p s) = s\<lparr>connection := c, leases := map ?new (leases s)\<rparr>"
    using Inr by (auto simp: commit_targets_def fake_of_def split: sum.splits)
  have t: "table_ok (leases s)" using ok by (simp add: store_ok_def)
  then have d: "distinct (map ?k (leases s))"
    by (simp add: table_ok_def distinct_map inj_on_def word_uint_eq_iff[symmetric])
  have new: "fake_of (?new e) = fake_of e" "fm_real (reclassify p e) = fm_real (mapping (snd e))" for e
    by (simp_all add: fake_of_def reclassify_def)
  have "rows c = fold (\<lambda>e. (`) (set_target_row (?k e) (?v e))) (leases s) (rows (connection s))"
    by (rule transaction_rows[OF c]) (rule set_target)
  also have "\<dots> = fold (\<lambda>e. set_target_row (?k e) (?v e)) (leases s) ` (\<lambda>e. row_of (fst e) (snd e)) ` set (leases s)"
    using ok by (simp add: fold_image store_ok_def)
  also have "\<dots> = (\<lambda>e. row_of (fst e) (snd e)) ` ?new ` set (leases s)"
    unfolding image_image
  proof (rule image_cong[OF refl])
    fix e assume e: "e \<in> set (leases s)"
    have "row_fake (row_of (fst e) (snd e)) = ?k e" by (simp add: row_of_def fake_of_def)
    then show "fold (\<lambda>e. set_target_row (?k e) (?v e)) (leases s) (row_of (fst e) (snd e)) =
        row_of (fst (?new e)) (snd (?new e))"
      using fold_set_target_own[OF d e, of "row_of (fst e) (snd e)" ?v] by (simp add: row_of_def reclassify_def)
  qed
  finally have "rows c = (\<lambda>e. row_of (fst e) (snd e)) ` set (map ?new (leases s))" by simp
  moreover have "table_ok (map ?new (leases s))"
    using t by (simp add: table_ok_def comp_def new)
  moreover have "used s = fake_of ` set (map ?new (leases s))"
    using ok by (simp add: store_ok_def image_image new)
  ultimately show ?thesis using ok s' by (simp add: store_ok_def)
qed

lemma remove_mappings_ok:
  assumes ok: "store_ok rows s"
  shows "store_ok rows (fst (store_remove_mappings db ms s))"
proof (cases "transaction db (\<lambda>m. db_delete db (uint (fm_fake m))) ms (connection s)")
  case (Inl e)
  then show ?thesis using ok by (simp add: store_remove_mappings_def)
next
  case (Inr c)
  have "rows c = fold (\<lambda>m R. {r \<in> R. row_fake r \<noteq> uint (fm_fake m)}) ms (rows (connection s))"
    by (rule transaction_rows[OF Inr]) (rule delete_row)
  then have "rows c = {r \<in> rows (connection s). row_fake r \<notin> (\<lambda>m. uint (fm_fake m)) ` set ms}"
    by (simp add: fold_delete)
  moreover have "row_fake (row_of (fst e) (snd e)) \<in> (\<lambda>m. uint (fm_fake m)) ` set ms \<longleftrightarrow> fake_of e \<in> fm_fake ` set ms"
    for e by (auto simp: row_of_def fake_of_def image_iff)
  moreover have "rows (connection s) = (\<lambda>e. row_of (fst e) (snd e)) ` set (leases s)"
    using ok by (simp add: store_ok_def)
  ultimately have "rows c = (\<lambda>e. row_of (fst e) (snd e)) ` {e \<in> set (leases s). fake_of e \<notin> fm_fake ` set ms}"
    by (simp add: filter_image)
  then show ?thesis
    using ok Inr by (auto simp: store_remove_mappings_def store_ok_def table_ok_def fake_of_def[symmetric]
        distinct_map_filter)
qed

lemma renew_ok:
  assumes ok: "store_ok rows s" and hit: "map_of (leases s) k = Some l"
    and c: "db_set_expires db v (uint (fm_fake (mapping l))) (connection s) = Some c"
  shows "store_ok rows (s\<lparr>connection := c, leases := AList.update k (l\<lparr>lease_expires := v\<rparr>) (leases s)\<rparr>)"
proof -
  let ?new = "\<lambda>e. if fst e = k then (k, l\<lparr>lease_expires := v\<rparr>) else e"
  have t: "table_ok (leases s)" using ok by (simp add: store_ok_def)
  have kl: "(k, l) \<in> set (leases s)" using map_of_SomeD[OF hit] .
  have upd: "AList.update k (l\<lparr>lease_expires := v\<rparr>) (leases s) = map ?new (leases s)"
    using t kl by (intro update_hit) (auto simp: table_ok_def intro: rev_image_eqI)
  have same: "e = (k, l)" if "e \<in> set (leases s)" "fst e = k \<or> fake_of e = fm_fake (mapping l)" for e
    using that kl t by (auto simp: table_ok_def distinct_map inj_on_def fake_of_def)
  have new: "fst (?new e) = fst e" "fake_of (?new e) = fake_of e"
      "fm_real (mapping (snd (?new e))) = fm_real (mapping (snd e))" if "e \<in> set (leases s)" for e
    using same[OF that] by (cases e; auto simp: fake_of_def)+
  have keys: "map fst (map ?new (leases s)) = map fst (leases s)"
    and fakes: "map fake_of (map ?new (leases s)) = map fake_of (leases s)"
    using new(1,2) by (simp_all add: comp_def cong: map_cong)
  have "table_ok (map ?new (leases s))"
  proof -
    have "\<forall>e\<in>set (map ?new (leases s)). in_pool (fake_of e) \<and> fm_real (mapping (snd e)) = snd (fst e)"
    proof
      fix x assume "x \<in> set (map ?new (leases s))"
      then obtain e where e: "e \<in> set (leases s)" "x = ?new e" unfolding set_map by blast
      show "in_pool (fake_of x) \<and> fm_real (mapping (snd x)) = snd (fst x)"
        unfolding e(2) new(1)[OF e(1)] new(2)[OF e(1)] new(3)[OF e(1)] using t e(1) by (simp add: table_ok_def)
    qed
    then show ?thesis unfolding table_ok_def keys fakes using t by (simp only: table_ok_def)
  qed
  moreover have "used s = fake_of ` set (map ?new (leases s))"
    using ok by (simp only: store_ok_def fakes flip: set_map)
  moreover have "rows c = (\<lambda>e. row_of (fst e) (snd e)) ` set (map ?new (leases s))"
  proof -
    have "rows c = (\<lambda>r. if row_fake r = uint (fm_fake (mapping l)) then r\<lparr>row_expires := v\<rparr> else r) `
        (\<lambda>e. row_of (fst e) (snd e)) ` set (leases s)"
      using set_expires[OF c] ok by (simp add: store_ok_def)
    also have "\<dots> = (\<lambda>e. row_of (fst e) (snd e)) ` ?new ` set (leases s)"
      unfolding image_image
    proof (rule image_cong[OF refl])
      fix e assume e: "e \<in> set (leases s)"
      show "(if row_fake (row_of (fst e) (snd e)) = uint (fm_fake (mapping l))
          then row_of (fst e) (snd e)\<lparr>row_expires := v\<rparr> else row_of (fst e) (snd e)) =
          row_of (fst (?new e)) (snd (?new e))"
      proof (cases "e = (k, l)")
        case True
        then show ?thesis by (simp add: row_of_def)
      next
        case False
        then have "fst e \<noteq> k" "fm_fake (mapping (snd e)) \<noteq> fm_fake (mapping l)"
          using same[OF e] unfolding fake_of_def by blast+
        then show ?thesis by (simp add: row_of_def flip: word_uint_eq_iff)
      qed
    qed
    finally show ?thesis by simp
  qed
  ultimately show ?thesis using ok by (simp add: store_ok_def upd)
qed

lemma admit_ok:
  assumes ok: "store_ok rows s" and miss: "map_of (leases s) (d, real) = None"
    and fake: "find_fake (used s) (next_fake s) 0 = Some a"
    and l: "l = \<lparr>mapping = \<lparr>fm_fake = a, fm_real = real, fm_target = t\<rparr>, lease_expires = v\<rparr>"
    and c: "db_insert db (row_of (d, real) l) (connection s) = Some c"
  shows "store_ok rows (s\<lparr>next_fake := after_fake a, connection := c, used := insert a (used s),
    leases := AList.update (d, real) l (leases s)\<rparr>)"
proof -
  have "(d, real) \<notin> fst ` set (leases s)" using miss by (simp add: map_of_eq_None_iff)
  moreover have "in_pool a" "a \<notin> used s" using find_fake_Some[OF fake] by simp_all
  ultimately show ?thesis
    using ok after_fake_in_pool insert_row[OF c] by (auto simp: store_ok_def table_ok_def update_fresh fake_of_def l)
qed

lemma allocate_ok:
  assumes ok: "store_ok rows s"
  shows "store_ok rows (fst (allocate db clk d real t ttl s))"
proof -
  have moved: "store_ok rows (s\<lparr>next_fake := after_fake a\<rparr>)"
    if "find_fake (used s) (next_fake s) 0 = Some a" for a
    using ok after_fake_in_pool find_fake_Some[OF that] by (simp add: store_ok_def)
  show ?thesis
    unfolding allocate_def Let_def sql_def
    by (auto simp: ok moved split: sum.splits option.splits
        intro!: renew_ok[OF ok] admit_ok[OF ok _ _ refl])
qed

lemma prepared_rows: "prepare_connection db rl c = Inr c' \<Longrightarrow> rows c' = rows c"
  by (auto simp: prepare_connection_def sql_def dest!: create pragma checkpoint)

lemma collect_rows:
  assumes "collect_results (map lease_from_row rs) = Inr es" and "distinct rs" and "unique_rows (set rs)"
  shows "(\<lambda>e. row_of (fst e) (snd e)) ` set es = set rs" and "distinct (map fst es)"
    and "distinct (map fake_of es)" and "\<forall>e\<in>set es. fm_real (mapping (snd e)) = snd (fst e)"
proof -
  have es: "map lease_from_row rs = map Inr es" using assms(1) by (simp add: collect_results_Inr)
  then have es_rows: "map (\<lambda>e. row_of (fst e) (snd e)) es = rs"
  proof (induction rs arbitrary: es)
    case (Cons r rs)
    then show ?case using row_of_lease_from(1)[of r] by (cases es) (auto simp: prod_eq_iff)
  qed simp
  then have img: "set rs = (\<lambda>e. row_of (fst e) (snd e)) ` set es" by (auto simp flip: set_map)
  then show "(\<lambda>e. row_of (fst e) (snd e)) ` set es = set rs" by simp
  have dm: "distinct (map (\<lambda>e. row_of (fst e) (snd e)) es)" using assms(2) es_rows by simp
  then have d: "distinct es" by (simp add: distinct_map)
  have inj: "e = e'" if "e \<in> set es" "e' \<in> set es" "row_of (fst e) (snd e) = row_of (fst e') (snd e')" for e e'
    using dm that by (simp add: distinct_map inj_on_def)
  have u: "row_of (fst e) (snd e) = row_of (fst e') (snd e')"
    if "e \<in> set es" "e' \<in> set es" "fst e = fst e' \<or> fake_of e = fake_of e'" for e e'
  proof -
    have "row_of (fst e) (snd e) \<in> set rs" "row_of (fst e') (snd e') \<in> set rs"
      using that(1,2) by (simp_all add: img)
    then show ?thesis
      using that(3) by (intro unique_rowsD[OF assms(3)]) (auto simp: row_of_def fake_of_def)
  qed
  have "inj_on fst (set es)" "inj_on fake_of (set es)"
    by (rule inj_onI, rule inj, assumption+, rule u, assumption+, simp)+
  then show "distinct (map fst es)" "distinct (map fake_of es)"
    using d by (simp_all only: distinct_map)
  show "\<forall>e\<in>set es. fm_real (mapping (snd e)) = snd (fst e)"
  proof
    fix e assume "e \<in> set es"
    then have "Inr e \<in> set (map lease_from_row rs)" using es by simp
    then show "fm_real (mapping (snd e)) = snd (fst e)"
      using row_of_lease_from(2)[of _ "fst e" "snd e"] by (cases e) auto
  qed
qed

lemma collect_results_Inl: "collect_results rs = Inl e \<Longrightarrow> Inl e \<in> set rs"
  by (induction rs) (auto simp: and_then_Inl)

lemma check_pool_ok: "check_pool es = Inr u \<longleftrightarrow> (\<forall>e\<in>set es. in_pool (fake_of e))"
  by (induction es) (auto simp: Let_def fake_of_def)

lemma opened:
  assumes open_s: "from_connection_with_limits db rl clk c = Inr s" and u: "unique_rows (rows c)"
  shows "store_ok rows s" and "max_leases s = fake_leases rl"
    and "unix_time clk = Inr now \<Longrightarrow>
      rows (connection s) = {r \<in> rows c. \<not> row_expires r \<le> i64_saturating_sub now CONNECTION_GRACE_SECONDS}"
proof -
  obtain c1 n c2 rs es where c1: "prepare_connection db rl c = Inr c1" and n: "unix_time clk = Inr n"
    and c2: "db_delete_expired db (i64_saturating_sub n CONNECTION_GRACE_SECONDS) c1 = Some c2"
    and rs: "db_select db c2 = Some rs" and es: "collect_results (map lease_from_row rs) = Inr es"
    and pool: "check_pool (collect_leases es) = Inr ()"
    and s: "s = \<lparr>connection = c2, leases = collect_leases es,
        used = (\<lambda>e. fm_fake (mapping (snd e))) ` set (collect_leases es), next_fake = FIRST_FAKE,
        max_leases = fake_leases rl\<rparr>"
    using open_s unfolding from_connection_with_limits_def sql_def Let_def by auto
  have r2: "rows c2 = {r \<in> rows c. \<not> row_expires r \<le> i64_saturating_sub n CONNECTION_GRACE_SECONDS}"
    using delete_expired[OF c2] prepared_rows[OF c1] by simp
  have "unique_rows (set rs)" using u r2 select[OF rs] by (simp add: unique_rows_def)
  note q = collect_rows[OF es _ this]
  have d: "distinct rs" using select[OF rs] by simp
  have ls: "collect_leases es = es" using collect_leases_distinct q(2)[OF d] by blast
  show "store_ok rows s"
    using q[OF d] pool select[OF rs] unfolding s ls
    by (simp add: store_ok_def table_ok_def check_pool_ok fake_of_def[abs_def])
  show "max_leases s = fake_leases rl" by (simp add: s)
  show "rows (connection s) = {r \<in> rows c. \<not> row_expires r \<le> i64_saturating_sub now CONNECTION_GRACE_SECONDS}"
    if "unix_time clk = Inr now" using that n r2 by (simp add: s)
qed

end

section \<open>Runs of operations\<close>

datatype 'r store_op =
    Allocate_Op "nat option" string ipv4 route_target u32
  | Commit_Op "'r policy"
  | Remove_Op "fake_mapping list"

fun store_step :: "'c fake_db \<Rightarrow> 'r store_op \<Rightarrow> 'c store \<Rightarrow> 'c store" where
  "store_step db (Allocate_Op clk d real t ttl) s = fst (allocate db clk d real t ttl s)"
| "store_step db (Commit_Op p) s = fst (commit_targets db p s)"
| "store_step db (Remove_Op ms) s = fst (store_remove_mappings db ms s)"

definition run_store :: "'c fake_db \<Rightarrow> 'r store_op list \<Rightarrow> 'c store \<Rightarrow> 'c store" where
  "run_store db ops s = fold (store_step db) ops s"

lemma length_update: "length (AList.update k v al) \<le> Suc (length al)"
  by (induction al) auto

lemma length_update_hit: "map_of al k = Some v' \<Longrightarrow> length (AList.update k v al) = length al"
  by (induction al) (auto split: if_splits)

lemma store_step_len:
  "len (store_step db op s) \<le> max (max_leases s) (len s) \<and> max_leases (store_step db op s) = max_leases s"
proof (cases op)
  case (Allocate_Op clk d real t ttl)
  then show ?thesis
    using length_update[of "(d, real)" _ "leases s"]
    by (auto simp: allocate_def len_def Let_def sql_def length_update_hit le_max_iff_disj
        intro: order_trans[OF length_update] split: sum.splits option.splits)
next
  case (Commit_Op p)
  then show ?thesis by (auto simp: commit_targets_def len_def split: sum.splits)
next
  case (Remove_Op ms)
  then show ?thesis
    by (auto simp: store_remove_mappings_def len_def Let_def le_max_iff_disj split: sum.splits)
qed

context fake_db_laws
begin

lemma store_step_ok: "store_ok rows s \<Longrightarrow> store_ok rows (store_step db op s)"
  by (cases op) (simp_all add: allocate_ok commit_targets_ok remove_mappings_ok)

lemma run_store_ok: "store_ok rows s \<Longrightarrow> store_ok rows (run_store db ops s)"
  by (induction ops arbitrary: s) (simp_all add: run_store_def store_step_ok)

end

lemma run_store_len:
  "len (run_store db ops s) \<le> max (max_leases s) (len s) \<and> max_leases (run_store db ops s) = max_leases s"
proof (induction ops arbitrary: s)
  case (Cons op ops)
  then show ?case
    using Cons.IH[of "store_step db op s"] store_step_len[of db op s] by (auto simp: run_store_def le_max_iff_disj)
qed (simp add: run_store_def)

section \<open>An instance\<close>

text \<open>A table held as a list, whose inserts enforce the two uniqueness constraints.\<close>

definition list_db :: "fake_row list fake_db" where
  "list_db = \<lparr>
     db_create = Some,
     db_pragma = (\<lambda>_ _. Some),
     db_checkpoint = Some,
     db_delete_expired = (\<lambda>t c. Some (filter (\<lambda>r. \<not> row_expires r \<le> t) c)),
     db_select = (\<lambda>c. Some (remdups c)),
     db_begin = Some,
     db_commit = Some,
     db_set_target = (\<lambda>v f c. Some (map (set_target_row f v) c)),
     db_set_expires = (\<lambda>v f c. Some (map (\<lambda>r. if row_fake r = f then r\<lparr>row_expires := v\<rparr> else r) c)),
     db_insert = (\<lambda>r c.
       if list_ex (\<lambda>r'. row_fake r' = row_fake r \<or> row_domain r' = row_domain r \<and> row_real r' = row_real r) c
       then None else Some (c @ [r])),
     db_delete = (\<lambda>f c. Some (filter (\<lambda>r. row_fake r \<noteq> f) c))\<rparr>"

interpretation list_db: fake_db_laws list_db set
  by unfold_locales (auto simp: list_db_def split: if_splits)

section \<open>Properties\<close>

text \<open>C10: Whatever operations run on an opened lease store, in whatever order and with whatever SQL
  failures: the memory table, the set of used addresses and the SQL rows describe the same leases;
  no two leases share a fake address and every fake address lies in the pool; and the number of leases
  does not pass the limit unless it did when the store was opened.\<close>

theorem lease_store_consistent:
  assumes "fake_db_laws db rows" and "unique_rows (rows c)"
    and "from_connection_with_limits db rl clk c = Inr s0"
  shows "store_ok rows (run_store db ops s0) \<and> len (run_store db ops s0) \<le> max (fake_leases rl) (len s0)"
  using fake_db_laws.run_store_ok[OF assms(1) fake_db_laws.opened(1)[OF assms(1,3,2)], of ops]
    run_store_len[of db ops s0] fake_db_laws.opened(2)[OF assms(1,3,2)]
  by simp

definition witness_rows :: "fake_row list" where
  "witness_rows = [\<lparr>row_fake = 3323068417, row_domain = ''a.example'', row_real = 16843009, row_target = 2,
     row_expires = 200000\<rparr>]"

definition witness_store :: "fake_row list store" where
  "witness_store = \<lparr>connection = witness_rows,
     leases = [((''a.example'', 16843009),
       \<lparr>mapping = \<lparr>fm_fake = FIRST_FAKE, fm_real = 16843009, fm_target = Vpn\<rparr>, lease_expires = 200000\<rparr>)],
     used = {FIRST_FAKE}, next_fake = FIRST_FAKE, max_leases = 8192\<rparr>"

lemma witness_opened:
  "from_connection_with_limits list_db COMPACT_LIMITS (Some 100000) witness_rows = Inr witness_store"
  "unique_rows (set witness_rows)"
  by (simp_all add: from_connection_with_limits_def prepare_connection_def sql_def list_db_def unix_time_def
      i64_saturating_sub_def CONNECTION_GRACE_SECONDS_def witness_rows_def lease_from_row_def ipv4_from_sql_def
      target_from_code_def collect_leases_def in_pool_unat pool_numbers FIRST_FAKE_def octets_addr_def
      COMPACT_LIMITS_def witness_store_def unique_rows_def in_pool_def LAST_FAKE_def Let_def)

theorem lease_store_consistent_witness:
  "store_ok set (run_store list_db [Commit_Op witness_policy, Remove_Op []] witness_store) \<and>
   len (run_store list_db [Commit_Op witness_policy, Remove_Op []] witness_store) \<le> max (fake_leases COMPACT_LIMITS) (len witness_store)"
  by (rule lease_store_consistent[OF list_db.fake_db_laws_axioms witness_opened(2,1)])

lemma entry_row_inj:
  assumes "table_ok ls" and "table_ok ls'" and "e \<in> set ls" and "e' \<in> set ls'"
    and "row_of (fst e) (snd e) = row_of (fst e') (snd e')"
  shows "e = e'"
proof -
  have entry: "lease_from_row (row_of (fst x) (snd x)) = Inr x" if "table_ok xs" "x \<in> set xs" for x xs
  proof -
    have "fm_real (mapping (snd x)) = snd (fst x)" using that unfolding table_ok_def by blast
    then show ?thesis using lease_from_row_of[of "snd x" "fst x"] by simp
  qed
  show ?thesis using entry[OF assms(1,3)] entry[OF assms(2,4)] unfolding assms(5) by simp
qed

lemma store_rows_unique:
  assumes "store_ok rows s"
  shows "unique_rows (rows (connection s))"
proof -
  have t: "inj_on fst (set (leases s))" "inj_on fake_of (set (leases s))"
    using assms by (simp_all add: store_ok_def table_ok_def distinct_map)
  have e: "e = e'" if m: "e \<in> set (leases s)" "e' \<in> set (leases s)"
    and "row_fake (row_of (fst e) (snd e)) = row_fake (row_of (fst e') (snd e')) \<or>
     row_domain (row_of (fst e) (snd e)) = row_domain (row_of (fst e') (snd e')) \<and>
     row_real (row_of (fst e) (snd e)) = row_real (row_of (fst e') (snd e'))" for e e'
  proof -
    have "fake_of e = fake_of e' \<or> fst e = fst e'"
      using that(3) by (auto simp: row_of_def fake_of_def prod_eq_iff)
    then show ?thesis using inj_onD[OF t(1) _ m] inj_onD[OF t(2) _ m] by blast
  qed
  have rows: "rows (connection s) = (\<lambda>e. row_of (fst e) (snd e)) ` set (leases s)"
    using assms by (simp add: store_ok_def)
  show ?thesis
    unfolding unique_rows_def
  proof (intro ballI impI)
    fix r r' assume r: "r \<in> rows (connection s)" "r' \<in> rows (connection s)"
      and same: "row_fake r = row_fake r' \<or> row_domain r = row_domain r' \<and> row_real r = row_real r'"
    from r obtain x x' where "x \<in> set (leases s)" "r = row_of (fst x) (snd x)"
        "x' \<in> set (leases s)" "r' = row_of (fst x') (snd x')"
      unfolding rows by blast
    then show "r = r'" using e[of x x'] same by blast
  qed
qed

context fake_db_laws
begin

lemma reopen_errors:
  assumes ok: "store_ok rows s" and now: "unix_time clk = Inr now"
    and e: "from_connection_with_limits db rl clk (connection s) = Inl e"
  shows "e = Sql_Error"
proof (rule ccontr)
  assume n: "e \<noteq> Sql_Error"
  have sql_err: "x = None" if "sql x = Inl e" for x :: "'x option"
    using that n by (cases x) (auto simp: sql_def)
  have prep: "prepare_connection db rl c \<noteq> Inl e" for c
    using n by (auto simp: prepare_connection_def and_then_Inl sql_def ok_or_def split: option.splits)
  have t: "table_ok (leases s)" using ok by (simp add: store_ok_def)
  obtain c1 c2 rs where c1: "prepare_connection db rl (connection s) = Inr c1"
    and c2: "db_delete_expired db (i64_saturating_sub now CONNECTION_GRACE_SECONDS) c1 = Some c2"
    and rs: "db_select db c2 = Some rs"
    and fail: "collect_results (map lease_from_row rs) = Inl e \<or>
      (\<exists>es. collect_results (map lease_from_row rs) = Inr es \<and> check_pool (collect_leases es) = Inl e)"
    using e now n prep
    by (auto simp: from_connection_with_limits_def and_then_Inl Let_def sql_def ok_or_def split: option.splits)
  have sub: "set rs \<subseteq> (\<lambda>e. row_of (fst e) (snd e)) ` set (leases s)"
    using select[OF rs] delete_expired[OF c2] prepared_rows[OF c1] ok by (auto simp: store_ok_def)
  have entry: "\<exists>x\<in>set (leases s). lease_from_row r = Inr x" if r: "r \<in> set rs" for r
  proof -
    obtain x where x: "x \<in> set (leases s)" "r = row_of (fst x) (snd x)" using sub r by blast
    then have "lease_from_row r = Inr x"
      using t lease_from_row_of[of "snd x" "fst x"] by (simp add: table_ok_def)
    then show ?thesis using x(1) by blast
  qed
  have "Inl e \<notin> lease_from_row ` set rs" using entry by fastforce
  then obtain es where es: "collect_results (map lease_from_row rs) = Inr es" "check_pool (collect_leases es) = Inl e"
    using fail collect_results_Inl[of "map lease_from_row rs" e] by auto
  have "unique_rows (set rs)"
    using store_rows_unique[OF ok] select[OF rs] delete_expired[OF c2] prepared_rows[OF c1]
    by (simp add: unique_rows_def)
  then have "collect_leases es = es"
    using collect_leases_distinct collect_rows(2)[OF es(1)] select[OF rs] by blast
  moreover have "in_pool (fake_of x)" if "x \<in> set es" for x
  proof -
    have "Inr x \<in> set (map lease_from_row rs)" using es(1) that by (simp add: collect_results_Inr)
    then have "x \<in> set (leases s)" using entry by fastforce
    then show ?thesis using t by (simp add: table_ok_def)
  qed
  ultimately show False using es(2) check_pool_ok[of es "()"] by auto
qed

lemma reopen_leases:
  assumes ok: "store_ok rows s" and now: "unix_time clk = Inr now"
    and s': "from_connection_with_limits db rl clk (connection s) = Inr s'"
  shows "set (leases s') =
    {e \<in> set (leases s). \<not> lease_expires (snd e) \<le> i64_saturating_sub now CONNECTION_GRACE_SECONDS}" (is "?A = ?B")
proof -
  let ?row = "\<lambda>e. row_of (fst e) (snd e)"
  have ok': "store_ok rows s'" using opened(1)[OF s' store_rows_unique[OF ok]] .
  have "?row ` ?A = rows (connection s')" using ok' by (simp add: store_ok_def)
  also have "\<dots> = {r \<in> ?row ` set (leases s). \<not> row_expires r \<le> i64_saturating_sub now CONNECTION_GRACE_SECONDS}"
    using opened(3)[OF s' store_rows_unique[OF ok] now] ok by (simp add: store_ok_def)
  also have "\<dots> = ?row ` ?B" by (simp add: filter_image row_of_def)
  finally have "?row ` ?A = ?row ` ?B" .
  moreover have "table_ok (leases s)" "table_ok (leases s')" using ok ok' by (simp_all add: store_ok_def)
  ultimately show ?thesis
    using inj_on_image_eq_iff[of ?row "?A \<union> ?B" ?A ?B] entry_row_inj
    by (smt (verit, ccfv_threshold) Un_iff Un_upper1 Un_upper2 inj_on_def mem_Collect_eq)
qed

end

lemma lease_at: "table_ok ls \<Longrightarrow> map_of ls k = Some l \<longleftrightarrow> (k, l) \<in> set ls"
  unfolding table_ok_def by (meson map_of_SomeD map_of_is_SomeI)

lemma lease_of_fake:
  assumes "table_ok ls" and "map_of ls k = Some l" and "map_of ls k' = Some l'"
    and "fm_fake (mapping l) = fm_fake (mapping l')"
  shows "k = k'"
proof -
  have "inj_on fake_of (set ls)" using assms(1) by (simp add: table_ok_def distinct_map)
  moreover have "(k, l) \<in> set ls" "(k', l') \<in> set ls" using assms(2,3) by (simp_all add: map_of_SomeD)
  moreover have "fake_of (k, l) = fake_of (k', l')" using assms(4) by (simp add: fake_of_def)
  ultimately have "(k, l) = (k', l')" by (meson inj_onD)
  then show ?thesis by simp
qed

lemma allocate_effect:
  assumes "allocate db clk d real t ttl s = (s', Inr (m, new))"
  shows "\<exists>l. map_of (leases s') (d, real) = Some l \<and> mapping l = m"
    and "k \<noteq> (d, real) \<Longrightarrow> map_of (leases s') k = map_of (leases s) k"
    and "new \<longleftrightarrow> map_of (leases s) (d, real) = None"
    and "\<not> new \<Longrightarrow> \<exists>l. map_of (leases s) (d, real) = Some l \<and> mapping l = m"
    and "new \<Longrightarrow> fm_target m = t \<and> fm_fake m \<notin> used s"
  using assms
  by (auto simp: allocate_def Let_def sql_def update_conv' dest: find_fake_Some
      split: sum.splits option.splits if_splits)

text \<open>C31: An allocation that succeeds returns a fake address of the pool that stands for the queried
  name and the real address, and for no other pair: an address that is leased is never given to a second
  name. A pair that had a lease keeps its address, a new pair gets the target that was asked for, and no
  other lease changes.\<close>

theorem allocate_dedicated_address:
  assumes "fake_db_laws db rows" and "store_ok rows s"
    and "allocate db clk d real t ttl s = (s', Inr (m, new))"
  shows "in_pool (fm_fake m) \<and> fm_real m = real \<and> new = (map_of (leases s) (d, real) = None) \<and>
    (new \<longrightarrow> fm_target m = t) \<and>
    (\<forall>l. map_of (leases s) (d, real) = Some l \<longrightarrow> mapping l = m) \<and>
    (\<forall>k. k \<noteq> (d, real) \<longrightarrow> map_of (leases s') k = map_of (leases s) k) \<and>
    (\<forall>k l. map_of (leases s') k = Some l \<longrightarrow> (fm_fake (mapping l) = fm_fake m \<longleftrightarrow> k = (d, real)))"
proof -
  have t: "table_ok (leases s')"
    using fake_db_laws.allocate_ok[OF assms(1,2), of clk d real t ttl] assms(3) by (simp add: store_ok_def)
  note e = allocate_effect[OF assms(3)]
  obtain l where l: "map_of (leases s') (d, real) = Some l" "mapping l = m" using e(1) by blast
  have "in_pool (fm_fake m)" "fm_real m = real"
    using t map_of_SomeD[OF l(1)] l(2) by (auto simp: table_ok_def fake_of_def)
  moreover have "fm_fake (mapping l') = fm_fake m \<longleftrightarrow> k = (d, real)" if "map_of (leases s') k = Some l'" for k l'
    using lease_of_fake[OF t that l(1)] that l by auto
  ultimately show ?thesis using e(2,3,5) e(4) by auto
qed

theorem allocate_dedicated_address_witness:
  "\<exists>s' m. allocate list_db (Some 100000) ''b.example'' 16843009 Direct 60 witness_store = (s', Inr (m, True)) \<and>
     fm_fake m = FIRST_FAKE + 1 \<and> in_pool (fm_fake m)"
proof -
  have ok: "store_ok set witness_store"
    using list_db.opened(1)[OF witness_opened] .
  have f: "find_fake {FIRST_FAKE} FIRST_FAKE 0 = Some (FIRST_FAKE + 1)"
    by (simp add: find_fake.simps Let_def FIRST_FAKE_def pool_size_def LAST_FAKE_def octets_addr_def)
  then obtain s' m where a:
    "allocate list_db (Some 100000) ''b.example'' 16843009 Direct 60 witness_store = (s', Inr (m, True))"
    "fm_fake m = FIRST_FAKE + 1"
    by (auto simp: allocate_def witness_store_def unix_time_def len_def sql_def list_db_def witness_rows_def
        row_of_def FIRST_FAKE_def octets_addr_def Let_def)
  then show ?thesis using allocate_dedicated_address[OF list_db.fake_db_laws_axioms ok a(1)] by blast
qed

text \<open>C32: While the table is below its limit an allocation always succeeds: the search through the pool
  finds a free address whatever addresses are in use, for every limit that fits the pool (both memory
  profiles do), provided the clock is readable and SQLite takes the statement.\<close>

theorem allocate_succeeds_below_limit:
  assumes "store_ok rows s" and "unix_time clk = Inr now"
    and "len s < max_leases s" and "max_leases s \<le> 131070"
    and "\<And>r. db_insert db r (connection s) \<noteq> None" and "\<And>v f. db_set_expires db v f (connection s) \<noteq> None"
  shows "\<exists>s' m new. allocate db clk d real t ttl s = (s', Inr (m, new))"
proof -
  have "finite (used s)" "card (used s) \<le> len s"
    using assms(1) card_image_le[of "set (leases s)" fake_of] card_length[of "leases s"]
    by (simp_all add: store_ok_def len_def)
  then obtain a where a: "find_fake (used s) (next_fake s) 0 = Some a"
    using find_fake_total[of "next_fake s" "used s"] assms(1,3,4) by (auto simp: store_ok_def)
  then show ?thesis
    using assms(2,3) by (auto simp: allocate_def sql_def ok_or_def Let_def assms(5,6) split: option.splits)
qed

theorem allocate_succeeds_below_limit_witness:
  "\<exists>s' m new. allocate list_db (Some 100000) ''b.example'' 16843009 Direct 60 (witness_store\<lparr>connection := []\<rparr>\<lparr>leases := [], used := {}\<rparr>) = (s', Inr (m, new))"
  by (rule allocate_succeeds_below_limit[where rows = set])
    (simp_all add: store_ok_def table_ok_def witness_store_def list_db_def unix_time_def len_def)

text \<open>C33: The SQL table alone carries the state across a restart: opening the connection of a store that
  has run any operations recovers exactly its leases, except those whose grace has passed, and an open
  can fail only because SQLite or the clock fails, never on a row the store wrote.\<close>

theorem reopen_recovers_leases:
  assumes "fake_db_laws db rows" and "store_ok rows s" and "unix_time clk = Inr now"
  shows "case from_connection_with_limits db rl clk (connection s) of
      Inl e \<Rightarrow> e = Sql_Error
    | Inr s' \<Rightarrow> store_ok rows s' \<and> max_leases s' = fake_leases rl \<and>
        (\<forall>k. map_of (leases s') k = (case map_of (leases s) k of
           None \<Rightarrow> None
         | Some l \<Rightarrow> if lease_expires l \<le> i64_saturating_sub now CONNECTION_GRACE_SECONDS then None else Some l))"
proof (cases "from_connection_with_limits db rl clk (connection s)")
  case (Inl e)
  then show ?thesis using fake_db_laws.reopen_errors[OF assms] by simp
next
  case (Inr s')
  note u = store_rows_unique[OF assms(2)]
  have ok': "store_ok rows s'" "max_leases s' = fake_leases rl"
    using fake_db_laws.opened(1,2)[OF assms(1) Inr u] by simp_all
  have t: "table_ok (leases s)" "table_ok (leases s')" using assms(2) ok'(1) by (simp_all add: store_ok_def)
  have "map_of (leases s') k = (case map_of (leases s) k of None \<Rightarrow> None
      | Some l \<Rightarrow> if lease_expires l \<le> i64_saturating_sub now CONNECTION_GRACE_SECONDS then None else Some l)" (is "?a = ?b") for k
  proof -
    have "?a = Some l \<longleftrightarrow> map_of (leases s) k = Some l \<and>
        \<not> lease_expires l \<le> i64_saturating_sub now CONNECTION_GRACE_SECONDS" for l
      unfolding lease_at[OF t(1)] lease_at[OF t(2)] fake_db_laws.reopen_leases[OF assms Inr] by simp
    note a = this
    show ?thesis
    proof (cases ?a)
      case None
      then show ?thesis using a by (cases "map_of (leases s) k") auto
    next
      case (Some l)
      then show ?thesis using a[of l] by simp
    qed
  qed
  then show ?thesis using Inr ok' by simp
qed

theorem reopen_recovers_leases_witness:
  "case from_connection_with_limits list_db COMPACT_LIMITS (Some 300000) (connection witness_store) of
      Inl e \<Rightarrow> e = Sql_Error
    | Inr s' \<Rightarrow> store_ok set s' \<and> max_leases s' = fake_leases COMPACT_LIMITS \<and>
        (\<forall>k. map_of (leases s') k = (case map_of (leases witness_store) k of
           None \<Rightarrow> None
         | Some l \<Rightarrow> if lease_expires l \<le> i64_saturating_sub 300000 CONNECTION_GRACE_SECONDS then None else Some l))"
  by (rule reopen_recovers_leases[OF list_db.fake_db_laws_axioms list_db.opened(1)[OF witness_opened]])
    (simp add: unix_time_def)

end
