(* ===== verification/Wireguard_Status.thy ===== *)
theory Wireguard_Status
  imports Config
begin

text \<open>
  The crate \<^verbatim>\<open>wireguard-status\<close> that the agent and the server tool share: the names and keys of
  friends (\<^verbatim>\<open>managed.rs\<close>) and the reader of \<^verbatim>\<open>wg show dump\<close> (\<^verbatim>\<open>lib.rs\<close>). The source address of
  WARP (\<^verbatim>\<open>warp.rs\<close>) is in the theory Dataplane.
\<close>

section \<open>Friends\<close>

definition FRIEND_NAME_INPUT_LIMIT :: nat where "FRIEND_NAME_INPUT_LIMIT = 1024"

datatype status_error =
    Friend_Name
  | Peer_Key
  | Interface_Dump
  | Peer_Dump
  | Bad_Number string
  | Bad_Keepalive

record friend_peer =
  fp_public_key :: string
  fp_name :: string
  fp_revoked :: bool
  fp_can_share :: bool

record warp_status =
  installed :: bool
  warp_enabled :: bool
  connected :: bool

definition default_warp_status :: warp_status where
  "default_warp_status = \<lparr>installed = False, warp_enabled = False, connected = False\<rparr>"

record managed_server_status =
  version :: string
  ms_peers :: "friend_peer list"
  ms_warp :: "warp_status option"

definition validate_name :: "string \<Rightarrow> status_error + string" where
  "validate_name input =
     (let name = trim input in
      if name = [] \<or> 60 < char_count name \<or> any_control name then Inl Friend_Name else Inr name)"

definition validate_peer_key :: "string \<Rightarrow> status_error + unit" where
  "validate_peer_key v =
     (if length v \<noteq> 44 \<or> v ! 43 \<noteq> CHR ''='' \<or> \<not> list_all base64_char (take 43 v) then Inl Peer_Key else Inr ())"

section \<open>The status dump\<close>

record peer_status =
  pe_public_key :: string
  pe_endpoint :: "string option"
  pe_allowed_ips :: "string list"
  latest_handshake :: "u64 option"
  handshake_age_seconds :: "u64 option"
  rx_bytes :: u64
  tx_bytes :: u64
  persistent_keepalive :: "u16 option"

definition parse_u64 :: "string \<Rightarrow> string \<Rightarrow> status_error + u64" where
  "parse_u64 v field_name =
     (case parse_uint (2 ^ 64) v of Some n \<Rightarrow> Inr (word_of_nat n) | None \<Rightarrow> Inl (Bad_Number field_name))"

definition parse_keepalive :: "string \<Rightarrow> status_error + u16" where
  "parse_keepalive v =
     (if v = ''off'' then Inr 0
      else case parse_uint (2 ^ 16) v of Some n \<Rightarrow> Inr (word_of_nat n) | None \<Rightarrow> Inl Bad_Keepalive)"

definition parse_peer_line :: "u64 \<Rightarrow> string \<Rightarrow> status_error + peer_status" where
  "parse_peer_line now line =
     (let fields = split_char (CHR 0x09) line in
      if length fields \<noteq> 8 then Inl Peer_Dump
      else
        and_then (parse_u64 (fields ! 4) ''latest handshake'') (\<lambda>handshake.
        and_then (parse_keepalive (fields ! 7)) (\<lambda>keepalive.
        and_then (parse_u64 (fields ! 5) ''received bytes'') (\<lambda>rx.
        and_then (parse_u64 (fields ! 6) ''transmitted bytes'') (\<lambda>tx.
        Inr \<lparr>pe_public_key = fields ! 0,
             pe_endpoint = (if fields ! 2 \<noteq> ''(none)'' then Some (fields ! 2) else None),
             pe_allowed_ips = split_char (CHR '','') (fields ! 3),
             latest_handshake = (if handshake \<noteq> 0 then Some handshake else None),
             handshake_age_seconds = (if handshake \<noteq> 0 then Some (saturating_sub now handshake) else None),
             rx_bytes = rx, tx_bytes = tx,
             persistent_keepalive = (if keepalive \<noteq> 0 then Some keepalive else None)\<rparr>)))))"

definition parse_wireguard_dump :: "string \<Rightarrow> u64 \<Rightarrow> status_error + peer_status list" where
  "parse_wireguard_dump dump now =
     (case lines dump of
        [] \<Rightarrow> Inr []
      | interface_line # peers \<Rightarrow>
          if length (split_char (CHR 0x09) interface_line) < 4 then Inl Interface_Dump
          else collect_results (map (parse_peer_line now) peers))"

section \<open>Lemmas\<close>

lemma validate_peer_key_iff: "validate_peer_key k = Inr u \<longleftrightarrow> wireguard_key k"
  by (auto simp: validate_peer_key_def wireguard_key_def)

lemma base64_char_plain: "base64_char c \<Longrightarrow> ascii c \<and> \<not> ascii_space c \<and> c \<noteq> CHR '','' \<and> c \<noteq> CHR ''=''"
proof -
  assume b: "base64_char c"
  then have n: "of_char c \<noteq> (44::nat) \<and> of_char c \<noteq> (61 :: nat) \<and> (of_char c :: nat) < 128 \<and> (32 :: nat) < of_char c"
    by (auto simp: base64_char_def ascii_alphanumeric_def ascii_digit_def ascii_upper_def ascii_lower_def)
  then have a: "ascii c" by (simp add: ascii_def)
  have "c \<noteq> CHR '','' \<and> c \<noteq> CHR ''=''" using n by auto
  then show ?thesis using a n by (auto simp: ascii_space_iff)
qed

lemma wireguard_key_plain:
  assumes "wireguard_key k"
  shows "list_all ascii k" and "\<forall>c\<in>set k. \<not> ascii_space c" and "k \<noteq> []" and "hd k \<noteq> CHR ''=''"
    and "trim k = k"
proof -
  have len: "length k = 44" and at: "k ! 43 = CHR ''=''" and b: "\<forall>c\<in>set (take 43 k). base64_char c"
    using assms by (auto simp: wireguard_key_def list_all_iff)
  have k: "k = take 43 k @ [CHR ''='']" using id_take_nth_drop[of 43 k] len at by simp
  have e: "ascii (CHR ''='') \<and> \<not> ascii_space (CHR ''='')" by (simp add: ascii_space_iff ascii_def)
  have all: "\<forall>c\<in>set k. ascii c \<and> \<not> ascii_space c" using b base64_char_plain e by (subst k) auto
  then show "list_all ascii k" "\<forall>c\<in>set k. \<not> ascii_space c" by (simp_all add: list_all_iff)
  then show "trim k = k" by (rule trim_plain)
  show "k \<noteq> []" using len by auto
  have "hd k = hd (take 43 k)" using len by simp
  moreover have "hd (take 43 k) \<in> set (take 43 k)" using len by (intro hd_in_set) auto
  ultimately show "hd k \<noteq> CHR ''=''" using b base64_char_plain by metis
qed

text \<open>A dump with the private key of the interface: no peer record holds a field of the first line.\<close>

lemma parse_wireguard_dump_peers:
  assumes "parse_wireguard_dump dump now = Inr ps"
  shows "length ps = length (lines dump) - 1"
  using assms by (auto simp: parse_wireguard_dump_def collect_results_Inr split: list.splits if_splits
      dest!: map_eq_imp_length_eq)

end
