(* ===== verification/Server_Core.thy ===== *)
theory Server_Core
  imports Wireguard_Status Dataplane
begin

text \<open>
  The server tool, part one (\<^verbatim>\<open>gofro-server/src/main.rs\<close>): the checks of its arguments, the choice
  of a tunnel address, the conflict check on routes and the profile it prints. The commands that change
  the server are in the theories after this one.
\<close>

section \<open>Errors\<close>

text \<open>Each message of the code has a constructor; \<open>Rollback_Failed\<close> carries both causes.\<close>

datatype server_error =
    Command_Failed "string list"
  | Status_Error status_error
  | Tunnel_Syntax | Tunnel_Range | Tunnel_Exhausted | Route_Taken
  | Endpoint_Error | Managed_Endpoint_Error
  | Legacy_Subnet | Not_Root | Friend_Request | Terms_Not_Accepted | Unsafe_Lock | Lock_Io
  | Metadata_Path | Metadata_Io | Metadata_Unsafe | Metadata_Changed | Metadata_Size | Metadata_Invalid | Metadata_Schema
  | Owner_Overlap
  | Bad_Interface
  | Missing_Metadata | No_Legacy_Owner
  | Router_Peer | Not_A_Friend | Name_Taken | Friend_Inactive | Friend_Not_Found | Profile_Unavailable
  | Cannot_Convert | Owner_Not_Found
  | Warp_Source | Warp_Unsafe | Warp_Interface | Warp_Io | Warp_Status | Warp_Not_Prepared | Owner_Address | Owner_Routes
  | No_Active_Owner | Clock_Error
  | Rollback_Failed server_error server_error

definition CLIENT_SUBNET :: string where "CLIENT_SUBNET = ''10.203.1.0/24''"
definition TUNNEL_LOCK :: string where "TUNNEL_LOCK = ''/run/lock/gofro-server.lock''"

section \<open>Arguments\<close>

definition status_result :: "status_error + 'a \<Rightarrow> server_error + 'a" where
  "status_result r = (case r of Inl e \<Rightarrow> Inl (Status_Error e) | Inr v \<Rightarrow> Inr v)"

definition legacy_owner :: "string option \<Rightarrow> server_error + bool" where
  "legacy_owner subnet_arg =
     (case subnet_arg of
        None \<Rightarrow> Inr False
      | Some s \<Rightarrow> if s = CLIENT_SUBNET then Inr True else Inl Legacy_Subnet)"

definition validate_tunnel_ip :: "ipnet \<Rightarrow> string \<Rightarrow> server_error + ipv4net" where
  "validate_tunnel_ip N v =
     and_then (ok_or (net_parse N v) Tunnel_Syntax) (\<lambda>n.
       case ip_octets (net_addr n) of
         [a, b, c, d] \<Rightarrow>
           if net_prefix n \<noteq> 32 \<or> [a, b, c] \<noteq> [10, 202, 0] \<or> \<not> (2 \<le> d \<and> d \<le> 254) then Inl Tunnel_Range
           else Inr n
       | _ \<Rightarrow> Inl Tunnel_Range)"

text \<open>The networks that \<^verbatim>\<open>wg show allowed-ips\<close> lists, in a field after a comma split.\<close>

definition field_nets :: "ipnet \<Rightarrow> string list \<Rightarrow> ipv4net list" where
  "field_nets N words = List.map_filter (net_parse N) (concat (map (split_char (CHR '','')) words))"

definition candidate_ip :: "nat \<Rightarrow> ipv4" where
  "candidate_ip host = octets_addr 10 202 0 host"

text \<open>\<^verbatim>\<open>2..=254\<close>.\<close>

definition host_candidates :: "nat list" where
  "host_candidates = [2..<255]"

definition allocate_tunnel_ip :: "ipnet \<Rightarrow> string \<Rightarrow> server_error + ipv4net" where
  "allocate_tunnel_ip N assigned =
     (let nets = field_nets N (split_whitespace assigned) in
      case find (\<lambda>host. \<not> list_ex (\<lambda>n. contains_ip N n (candidate_ip host)) nets) host_candidates of
        Some host \<Rightarrow> validate_tunnel_ip N (show_ipv4 (candidate_ip host) @ ''/32'')
      | None \<Rightarrow> Inl Tunnel_Exhausted)"

definition line_conflicts :: "ipnet \<Rightarrow> string \<Rightarrow> ipv4net list \<Rightarrow> string \<Rightarrow> bool" where
  "line_conflicts N public_key routes line =
     (case split_whitespace line of
        [] \<Rightarrow> False
      | key # words \<Rightarrow> key \<noteq> public_key \<and>
          list_ex (\<lambda>existing. list_ex (\<lambda>route.
            contains_ip N existing (network N route) \<or> contains_ip N route (network N existing)) routes)
            (field_nets N words))"

definition routes_conflict :: "ipnet \<Rightarrow> string \<Rightarrow> string \<Rightarrow> ipv4net list \<Rightarrow> bool" where
  "routes_conflict N assigned public_key routes = list_ex (line_conflicts N public_key routes) (lines assigned)"

definition nl :: string where "nl = [CHR 0x0A]"

definition format_profile :: "string \<Rightarrow> string \<Rightarrow> string \<Rightarrow> string \<Rightarrow> string \<Rightarrow> string" where
  "format_profile private_key client_public_key server_public_key endpoint tunnel_ip =
     ''# ClientPublicKey = '' @ client_public_key @ nl @ ''[Interface]'' @ nl @ ''PrivateKey = '' @ private_key @ nl @
     ''Address = '' @ tunnel_ip @ nl @ ''MTU = '' @ digits (unat TUNNEL_MTU) @ nl @ nl @ ''[Peer]'' @ nl @
     ''PublicKey = '' @ server_public_key @ nl @ ''AllowedIPs = 0.0.0.0/0'' @ nl @ ''Endpoint = '' @ endpoint @ nl @
     ''PersistentKeepalive = 10'' @ nl"

definition validate_endpoint_arg :: "string \<Rightarrow> server_error + unit" where
  "validate_endpoint_arg endpoint =
     (case rsplit_once (CHR '':'') endpoint of
        None \<Rightarrow> Inl Endpoint_Error
      | Some (host, port) \<Rightarrow>
          if 255 < length endpoint \<or> host = [] \<or> any_whitespace endpoint \<or>
             (case parse_uint 65536 port of Some p \<Rightarrow> \<not> 0 < p | None \<Rightarrow> True)
          then Inl Endpoint_Error else Inr ())"

text \<open>The text form of IPv6 addresses is a parameter: which texts parse and print to themselves, and which parse.\<close>

record ipv6_text =
  v6_parses :: "string \<Rightarrow> bool"
  v6_canonical :: "string \<Rightarrow> bool"

definition validate_managed_endpoint :: "ipv6_text \<Rightarrow> string \<Rightarrow> server_error + unit" where
  "validate_managed_endpoint V endpoint =
     (case rsplit_once (CHR '':'') endpoint of
        None \<Rightarrow> Inl Managed_Endpoint_Error
      | Some (host, port) \<Rightarrow>
          if port \<noteq> ''8443'' then Inl Managed_Endpoint_Error
          else
            (let bracketed = (host \<noteq> [] \<and> hd host = CHR ''['') \<or> (host \<noteq> [] \<and> last host = CHR '']'');
                 host = (case Option.bind (strip_prefix ''['' host) (strip_suffix '']'') of Some h \<Rightarrow> h | None \<Rightarrow> host) in
             case parse_ipv4 host of
               Some a \<Rightarrow> if host \<noteq> show_ipv4 a \<or> bracketed then Inl Managed_Endpoint_Error else Inr ()
             | None \<Rightarrow>
                 if \<not> v6_parses V host then Inl Managed_Endpoint_Error
                 else if \<not> v6_canonical V host \<or> \<not> bracketed then Inl Managed_Endpoint_Error else Inr ()))"

section \<open>The text form of networks\<close>

lemma digits_32: "digits 32 = ''32''" by code_simp

locale ipnet_text_laws = ipnet_laws +
  assumes show_net: "net_show N n = show_ipv4 (net_addr n) @ ''/'' @ digits (net_prefix n)"
begin

lemma parse_text: "p \<le> 32 \<Longrightarrow> net_parse N (show_ipv4 a @ ''/'' @ digits p) = Some \<lparr>net_addr = a, net_prefix = p\<rparr>"
  using parse_show[of "\<lparr>net_addr = a, net_prefix = p\<rparr>"] by (simp add: show_net valid_net_def)

lemma parse_host: "net_parse N (show_ipv4 a @ ''/32'') = Some \<lparr>net_addr = a, net_prefix = 32\<rparr>"
  using parse_text[of 32 a] by (simp add: digits_32)

end

interpretation std_text: ipnet_text_laws std_ipnet
  by unfold_locales (simp add: std_ipnet_def std_net_show_def)

section \<open>Lemmas\<close>

lemma unat_octets_addr:
  assumes "a < 256" "b < 256" "c < 256" "d < 256"
  shows "unat (octets_addr a b c d) = ((a * 256 + b) * 256 + c) * 256 + d"
proof -
  have "((a * 256 + b) * 256 + c) * 256 + d < 2 ^ 32" using assms by simp
  then show ?thesis unfolding octets_addr_def unat_of_nat by (simp add: mod_less)
qed

lemma ip_octets_candidate: "host < 256 \<Longrightarrow> ip_octets (candidate_ip host) = [10, 202, 0, host]"
proof -
  assume h: "host < 256"
  have u: "unat (candidate_ip host) = 181010432 + host" using h by (simp add: candidate_ip_def unat_octets_addr)
  have "(181010432 + host) div 16777216 = 10" "(181010432 + host) div 65536 = 2762" "(181010432 + host) div 256 = 707072"
    using h by (intro div_nat_eqI; simp)+
  moreover have "(181010432 + host) mod 256 = host"
    using h mod_mult_self3[of 707072 256 host] by simp
  ultimately show ?thesis by (simp add: ip_octets_def u)
qed

lemma octets_candidate:
  assumes "ip_octets a = [10, 202, 0, host]"
  shows "a = candidate_ip host" and "host < 256"
proof -
  have o: "unat a div 2 ^ 24 = 10" "unat a div 2 ^ 16 mod 256 = 202" "unat a div 2 ^ 8 mod 256 = 0" "unat a mod 256 = host"
    using assms unfolding ip_octets_def list.inject by blast+
  show h: "host < 256" using o(4) by auto
  have "unat a = ((10 * 256 + 202) * 256 + 0) * 256 + host" using ip_octets_value[of a] unfolding o by simp
  then show "a = candidate_ip host"
    using h by (simp add: candidate_ip_def word_unat_eq_iff unat_octets_addr)
qed

lemma validate_tunnel_ip_ok:
  "validate_tunnel_ip N v = Inr n \<longleftrightarrow> net_parse N v = Some n \<and> net_prefix n = 32 \<and>
     (\<exists>host. 2 \<le> host \<and> host \<le> 254 \<and> net_addr n = candidate_ip host)" (is "?l \<longleftrightarrow> ?r")
proof
  assume l: ?l
  then obtain x where x: "net_parse N v = Some x" by (auto simp: validate_tunnel_ip_def)
  obtain a b c d where o: "ip_octets (net_addr x) = [a, b, c, d]" by (simp add: ip_octets_def)
  then have "x = n" "net_prefix n = 32" "a = 10 \<and> b = 202 \<and> c = 0 \<and> 2 \<le> d \<and> d \<le> 254"
    using l x by (auto simp: validate_tunnel_ip_def split: if_splits)
  then show ?r using octets_candidate(1)[of "net_addr n" d] o x by auto
next
  assume ?r
  then show ?l by (auto simp: validate_tunnel_ip_def ip_octets_candidate)
qed

lemma validate_tunnel_ip_agent:
  "validate_tunnel_ip N v = Inr n \<Longrightarrow> net_parse N v = Some n \<and> tunnel_octets_ok n"
  by (auto simp: validate_tunnel_ip_ok tunnel_octets_ok_def ip_octets_candidate)

lemma field_nets_valid: "ipnet_laws N \<Longrightarrow> n \<in> set (field_nets N words) \<Longrightarrow> valid_net n"
  by (auto simp: field_nets_def List.map_filter_def intro: ipnet_laws.parse_valid)

lemma find_upt_Some:
  "find P [a..<b] = Some i \<Longrightarrow> a \<le> i \<and> i < b \<and> P i \<and> (\<forall>j. a \<le> j \<and> j < i \<longrightarrow> \<not> P j)"
proof -
  assume "find P [a..<b] = Some i"
  then obtain k where k: "k < length [a..<b]" "P ([a..<b] ! k)" "i = [a..<b] ! k" "\<forall>j<k. \<not> P ([a..<b] ! j)"
    by (auto simp: find_Some_iff)
  have "\<not> P j" if "a \<le> j" "j < i" for j
    using k(4)[rule_format, of "j - a"] k(1,3) that by simp
  then show ?thesis using k by simp
qed

section \<open>Properties\<close>

text \<open>C35: The server gives a new peer the first host of 10.202.0.2 to 10.202.0.254 that lies in none of
  the networks already assigned to a peer (not only addresses: a wider network blocks all its hosts), and
  refuses exactly when every host is taken.\<close>

theorem allocate_tunnel_ip_first_free:
  assumes "ipnet_text_laws N"
  shows "case allocate_tunnel_ip N assigned of
      Inr n \<Rightarrow> \<exists>host. 2 \<le> host \<and> host \<le> 254 \<and> n = \<lparr>net_addr = candidate_ip host, net_prefix = 32\<rparr> \<and>
        (\<forall>m\<in>set (field_nets N (split_whitespace assigned)). unat (candidate_ip host) \<notin> net_range m) \<and>
        (\<forall>h. 2 \<le> h \<and> h < host \<longrightarrow>
          (\<exists>m\<in>set (field_nets N (split_whitespace assigned)). unat (candidate_ip h) \<in> net_range m))
    | Inl e \<Rightarrow> e = Tunnel_Exhausted \<and>
        (\<forall>h. 2 \<le> h \<and> h \<le> 254 \<longrightarrow>
          (\<exists>m\<in>set (field_nets N (split_whitespace assigned)). unat (candidate_ip h) \<in> net_range m))"
proof -
  let ?nets = "field_nets N (split_whitespace assigned)"
  have laws: "ipnet_laws N" using assms by (simp add: ipnet_text_laws_def)
  have mem: "contains_ip N m a \<longleftrightarrow> unat a \<in> net_range m" if "m \<in> set ?nets" for m a
    using ipnet_laws.contains_ip[OF laws field_nets_valid[OF laws that]] .
  show ?thesis
  proof (cases "find (\<lambda>host. \<not> list_ex (\<lambda>n. contains_ip N n (candidate_ip host)) ?nets) host_candidates")
    case None
    then have "allocate_tunnel_ip N assigned = Inl Tunnel_Exhausted" by (simp add: allocate_tunnel_ip_def)
    moreover have "\<exists>m\<in>set ?nets. unat (candidate_ip h) \<in> net_range m" if "2 \<le> h" "h \<le> 254" for h
    proof -
      have "h \<in> set host_candidates" unfolding host_candidates_def set_upt using that by simp
      then show ?thesis using None mem by (auto simp: find_None_iff list_ex_iff)
    qed
    ultimately show ?thesis by simp
  next
    case (Some host)
    note h = find_upt_Some[OF this[unfolded host_candidates_def]]
    have "net_parse N (show_ipv4 (candidate_ip host) @ ''/32'') = Some \<lparr>net_addr = candidate_ip host, net_prefix = 32\<rparr>"
      by (rule ipnet_text_laws.parse_host[OF assms])
    then have "allocate_tunnel_ip N assigned = Inr \<lparr>net_addr = candidate_ip host, net_prefix = 32\<rparr>"
      using Some h by (auto simp: allocate_tunnel_ip_def validate_tunnel_ip_ok)
    then show ?thesis using h mem by (auto simp: list_ex_iff)
  qed
qed

lemmas eval_fields = split_whitespace_def is_whitespace_def utf8_cont_def field_nets_def List.map_filter_def
  std_ipnet_def std_net_parse_def parse_ipv4_def parse_octet_def ascii_digit_def net_def octets_addr_def
  rsplit_once_def parse_uint_def lines_def strip_cr_def split_once.simps Let_def

lemma witness_fields:
  "field_nets std_ipnet (split_whitespace ''k 10.202.0.2/32,10.202.0.4/31'') = [net 10 202 0 2 32, net 10 202 0 4 31]"
  by (simp add: eval_fields)

theorem allocate_tunnel_ip_first_free_witness:
  "case allocate_tunnel_ip std_ipnet ''k 10.202.0.2/32,10.202.0.4/31'' of
      Inr n \<Rightarrow> \<exists>host. 2 \<le> host \<and> host \<le> 254 \<and> n = \<lparr>net_addr = candidate_ip host, net_prefix = 32\<rparr> \<and>
        (\<forall>m\<in>{net 10 202 0 2 32, net 10 202 0 4 31}. unat (candidate_ip host) \<notin> net_range m)
    | Inl e \<Rightarrow> e = Tunnel_Exhausted"
  using allocate_tunnel_ip_first_free[OF std_text.ipnet_text_laws_axioms, of "''k 10.202.0.2/32,10.202.0.4/31''"]
  unfolding witness_fields by (auto split: sum.splits)

text \<open>C36: The conflict check refuses a route exactly when its range of addresses meets a range that
  another peer already has: equal, wider and narrower networks are all found, and the peer's own routes
  are not a conflict.\<close>

theorem routes_conflict_iff_overlap:
  assumes "ipnet_laws N" and "\<forall>r\<in>set routes. valid_net r"
  shows "routes_conflict N assigned key routes \<longleftrightarrow>
    (\<exists>line\<in>set (lines assigned). \<exists>k ws. split_whitespace line = k # ws \<and> k \<noteq> key \<and>
      (\<exists>m\<in>set (field_nets N ws). \<exists>r\<in>set routes. net_range m \<inter> net_range r \<noteq> {}))"
proof -
  have meet: "contains_ip N m (network N r) \<or> contains_ip N r (network N m) \<longleftrightarrow> net_range m \<inter> net_range r \<noteq> {}"
    if v: "valid_net m" "valid_net r" for m r
  proof -
    have n: "unat (network N m) = net_first m" "unat (network N r) = net_first r"
      using ipnet_laws.network[OF assms(1)] v by simp_all
    have "net_first r \<in> net_range m \<or> net_first m \<in> net_range r \<longleftrightarrow> net_range m \<inter> net_range r \<noteq> {}"
      using net_first_last[of m] net_first_last[of r] by (auto simp: net_range_def)
    then show ?thesis using ipnet_laws.contains_ip[OF assms(1)] v n by simp
  qed
  have "line_conflicts N key routes line \<longleftrightarrow> (\<exists>k ws. split_whitespace line = k # ws \<and> k \<noteq> key \<and>
      (\<exists>m\<in>set (field_nets N ws). \<exists>r\<in>set routes. net_range m \<inter> net_range r \<noteq> {}))" for line
    using meet[OF field_nets_valid[OF assms(1)]] assms(2)
    by (auto simp: line_conflicts_def list_ex_iff split: list.splits)
  then show ?thesis by (simp add: routes_conflict_def list_ex_iff)
qed

theorem routes_conflict_iff_overlap_witness:
  "routes_conflict std_ipnet ''k 10.202.0.2/32,10.202.0.4/31'' ''me'' [net 10 202 0 5 32]"
proof -
  have l: "lines ''k 10.202.0.2/32,10.202.0.4/31'' = [''k 10.202.0.2/32,10.202.0.4/31'']"
    "split_whitespace ''k 10.202.0.2/32,10.202.0.4/31'' = ''k'' # [''10.202.0.2/32,10.202.0.4/31'']"
    "field_nets std_ipnet [''10.202.0.2/32,10.202.0.4/31''] = [net 10 202 0 2 32, net 10 202 0 4 31]"
    by (simp_all add: eval_fields)
  have "net_range (net 10 202 0 4 31) \<inter> net_range (net 10 202 0 5 32) \<noteq> {}"
    by (simp add: net_range_def net_first_def net_last_def net_size_def net_def octets_addr_def)
  then show ?thesis
    using routes_conflict_iff_overlap[OF std.ipnet_laws_axioms, of "[net 10 202 0 5 32]"
        "''k 10.202.0.2/32,10.202.0.4/31''" "''me''"]
    by (simp add: l valid_net_def net_def)
qed

end
