(* ===== verification/Profile_Link.thy ===== *)
theory Profile_Link
  imports Server_Core
begin

text \<open>
  The text that links the two programs: a profile the server tool prints
  (\<^verbatim>\<open>format_profile\<close> of \<^verbatim>\<open>gofro-server/src/main.rs\<close>) is read by the agent
  (\<^verbatim>\<open>parse_server_profile\<close> of \<^verbatim>\<open>gofro-agent/src/config.rs\<close>). The lemmas follow the text line by
  line.
\<close>

section \<open>Values\<close>

text \<open>A value of the profile: ASCII text, not empty and without white space.\<close>

definition plain_value :: "string \<Rightarrow> bool" where
  "plain_value s \<longleftrightarrow> s \<noteq> [] \<and> list_all ascii s \<and> (\<forall>c\<in>set s. \<not> ascii_space c)"

lemma plain_key: "wireguard_key k \<Longrightarrow> plain_value k"
  using wireguard_key_plain(1-3) by (simp add: plain_value_def)

lemma space_char: "ascii_space (CHR '' '')" "ascii (CHR '' '')" "ascii_space (CHR 0x0A)" "ascii_space (CHR 0x0D)"
  by (simp_all add: ascii_space_iff ascii_def)

lemma plain_no_newline: "plain_value v \<Longrightarrow> CHR 0x0A \<notin> set v \<and> last v \<noteq> CHR 0x0D"
  using space_char last_in_set unfolding plain_value_def by metis

lemma trim_plain_line:
  assumes "list_all ascii p" and "p \<noteq> []" and "\<not> ascii_space (hd p)" and "plain_value v"
  shows "trim (p @ v) = p @ v"
  using assms by (intro trim_none) (auto simp: plain_value_def)

lemma trim_space_value: "plain_value v \<Longrightarrow> trim (CHR '' '' # v) = v"
  using trim_none[of v] space_char
  by (cases v) (auto simp: plain_value_def trim_ascii trim_plain)

lemma trim_key_space: "list_all ascii k \<Longrightarrow> \<forall>c\<in>set k. \<not> ascii_space c \<Longrightarrow> trim (k @ [CHR '' '']) = k"
  using space_char trim_plain[of k] by (cases k) (auto simp: trim_ascii)

section \<open>Lines\<close>

lemma lines_cons:
  "CHR 0x0A \<notin> set p \<Longrightarrow> lines (p @ CHR 0x0A # s) = strip_cr p # lines s"
  by (simp add: lines_def split_char_append Let_def)

lemma lines_nil [simp]: "lines [] = []"
  by (simp add: lines_def)

lemma lines_value:
  "plain_value v \<Longrightarrow> CHR 0x0A \<notin> set p \<Longrightarrow> lines (p @ v @ CHR 0x0A # s) = (p @ v) # lines s"
  using lines_cons[of "p @ v" s] plain_no_newline[of v] by (simp add: strip_cr_def plain_value_def)

lemma alphanumeric_plain: "ascii_alphanumeric c \<Longrightarrow> ascii c \<and> \<not> ascii_space c \<and> c \<notin> {CHR ''#'', CHR '';'', CHR ''['', CHR ''=''}"
proof -
  assume b: "ascii_alphanumeric c"
  then have n: "of_char c \<notin> {35 :: nat, 59, 91, 61}" "(of_char c :: nat) < 128" "(32 :: nat) < of_char c"
    by (auto simp: ascii_alphanumeric_def ascii_digit_def ascii_upper_def ascii_lower_def)
  then have a: "ascii c" by (simp add: ascii_def)
  have "c \<notin> {CHR ''#'', CHR '';'', CHR ''['', CHR ''=''}" using n by auto
  then show ?thesis using a n by (auto simp: ascii_space_iff)
qed

lemma profile_line_assign:
  assumes "k \<noteq> []" and "\<forall>c\<in>set k. ascii_alphanumeric c" and v: "plain_value v"
  shows "profile_line s (k @ '' = '' @ v) = assign_slot s k v"
proof -
  have k: "\<forall>c\<in>set k. ascii c \<and> \<not> ascii_space c \<and> c \<notin> {CHR ''#'', CHR '';'', CHR ''['', CHR ''=''}"
    using assms(2) alphanumeric_plain by blast
  have a: "list_all ascii (k @ '' = '')" using k by (auto simp: list_all_iff ascii_def)
  have h: "hd k \<notin> {CHR ''#'', CHR '';'', CHR ''[''} \<and> \<not> ascii_space (hd k)" using k assms(1) by simp
  have t: "trim (k @ '' = '' @ v) = k @ '' = '' @ v"
    using trim_plain_line[OF a _ _ v] h assms(1) by simp
  have "CHR ''='' \<notin> set (k @ [CHR '' ''])" using k by auto
  then have so: "split_once (CHR ''='') (k @ '' = '' @ v) = Some (k @ [CHR '' ''], CHR '' '' # v)"
    by (simp add: split_once_Some)
  have hd: "hd (k @ '' = '' @ v) = hd k" using assms(1) by simp
  have ne: "v \<noteq> []" using v by (simp add: plain_value_def)
  have tk: "trim (k @ [CHR '' '']) = k" using k by (intro trim_key_space) (auto simp: list_all_iff)
  show ?thesis
    unfolding profile_line_def Let_def t hd so
    using h ne by (simp add: tk trim_space_value[OF v])
qed

lemma profile_comment: "plain_value v \<Longrightarrow> profile_line s (''# ClientPublicKey = '' @ v) = Inr s"
proof -
  assume v: "plain_value v"
  have "trim (''# ClientPublicKey = '' @ v) = ''# ClientPublicKey = '' @ v"
    by (rule trim_plain_line[OF _ _ _ v]) (simp_all add: ascii_def ascii_space_iff)
  then show ?thesis unfolding profile_line_def Let_def by simp
qed

lemma trim_sections: "trim ''[Interface]'' = ''[Interface]''" "trim ''[Peer]'' = ''[Peer]''" "trim [] = []"
  by (intro trim_none; simp add: ascii_def ascii_space_iff)+

lemma profile_sections:
  "profile_line s ''[Interface]'' = Inr (s\<lparr>ps_section := Interface_Section\<rparr>)"
  "profile_line s ''[Peer]'' = Inr (s\<lparr>ps_section := Peer_Section\<rparr>)"
  "profile_line s [] = Inr s"
  by (simp_all add: profile_line_def trim_sections)

section \<open>The addresses\<close>

lemma digits_plain: "plain_value (digits n)"
  using digits_ascii[of n] alphanumeric_plain by (auto simp: plain_value_def ascii_alphanumeric_def list_all_iff)

lemma plain_append: "plain_value p \<Longrightarrow> plain_value v \<Longrightarrow> plain_value (p @ v)"
  by (auto simp: plain_value_def)

lemma plain_char: "ascii c \<Longrightarrow> \<not> ascii_space c \<Longrightarrow> plain_value v \<Longrightarrow> plain_value (c # v)"
  by (auto simp: plain_value_def)

lemma show_ipv4_octets: "show_ipv4 a = digits (ip_octets a ! 0) @ ''.'' @ digits (ip_octets a ! 1) @ ''.'' @
    digits (ip_octets a ! 2) @ ''.'' @ digits (ip_octets a ! 3)"
  by (simp add: show_ipv4_def ip_octets_def)

lemma show_host_plain:
  "plain_value (show_ipv4 a @ ''/32'')" "length (show_ipv4 a @ ''/32'') \<le> 18"
proof -
  have c: "ascii c \<and> \<not> ascii_space c" if "c \<in> {CHR ''.'', CHR ''/''}" for c
    using that by (auto simp: ascii_def ascii_space_iff)
  have t: "plain_value ''/32''" using c by (auto simp: plain_value_def ascii_def ascii_space_iff)
  show "plain_value (show_ipv4 a @ ''/32'')"
    unfolding show_ipv4_octets using c digits_plain t by (auto intro!: plain_append plain_char)
  have "ip_octets a ! 0 < 256" "ip_octets a ! 1 < 256" "ip_octets a ! 2 < 256" "ip_octets a ! 3 < 256"
    using unsigned_less[of a, where ?'a = nat] by (simp_all add: ip_octets_def less_mult_imp_div_less)
  then have d: "length (digits (ip_octets a ! 0)) \<le> 3" "length (digits (ip_octets a ! 1)) \<le> 3"
    "length (digits (ip_octets a ! 2)) \<le> 3" "length (digits (ip_octets a ! 3)) \<le> 3"
    by (simp_all add: length_digits_le3)
  show "length (show_ipv4 a @ ''/32'') \<le> 18"
    unfolding show_ipv4_octets using d by simp
qed

section \<open>The property\<close>

lemma parse_uint_digits: "n < bound \<Longrightarrow> parse_uint bound (digits n) = Some n"
proof -
  assume n: "n < bound"
  have "ascii_digit (hd (digits n))" using digits_ascii[of n] by simp
  moreover have "\<not> ascii_digit (CHR ''+'')" by (simp add: ascii_digit_def)
  ultimately have h: "hd (digits n) \<noteq> CHR ''+''" by metis
  obtain c cs where d: "digits n = c # cs" by (cases "digits n") auto
  then have "parse_uint bound (c # cs) = (case read_digits 0 (c # cs) of None \<Rightarrow> None | Some n \<Rightarrow> if n < bound then Some n else None)"
    using h by (simp add: parse_uint_def del: read_digits.simps)
  then show ?thesis using n unfolding d[symmetric] read_digits_digits by simp
qed

lemma keepalive_text: "parse_uint 65536 ''10'' = Some KEEPALIVE"
  by (simp add: parse_uint_def ascii_digit_def KEEPALIVE_def)

lemma allowed_ips_text: "join '','' (map trim (split_char (CHR '','') ''0.0.0.0/0'')) = ALLOWED_IPS"
  by (simp add: trim_ascii ascii_def ascii_space_iff ALLOWED_IPS_def)

lemma profile_slots_of:
  assumes "plain_value private_key" and "plain_value client" and "plain_value server" and "plain_value endpoint"
    and "plain_value ip"
  shows "profile_lines (lines (format_profile private_key client server endpoint ip)) empty_slots =
    Inr \<lparr>ps_section = Peer_Section, ps_private_key = Some private_key, ps_address = Some ip,
      ps_mtu = Some (digits (unat TUNNEL_MTU)), ps_public_key = Some server, ps_allowed_ips = Some ''0.0.0.0/0'',
      ps_endpoint = Some endpoint, ps_keepalive = Some ''10''\<rparr>"
proof -
  let ?line = "\<lambda>k v. (k @ '' = '' @ v) :: string"
  have plain: "plain_value ''0.0.0.0/0''" "plain_value ''10''"
    by (simp_all add: plain_value_def ascii_def ascii_space_iff)
  have "lines (format_profile private_key client server endpoint ip) =
    [''# ClientPublicKey = '' @ client, ''[Interface]'', ?line ''PrivateKey'' private_key, ?line ''Address'' ip,
     ?line ''MTU'' (digits (unat TUNNEL_MTU)), [], ''[Peer]'', ?line ''PublicKey'' server,
     ?line ''AllowedIPs'' ''0.0.0.0/0'', ?line ''Endpoint'' endpoint, ?line ''PersistentKeepalive'' ''10'']"
    unfolding format_profile_def nl_def
    using lines_value[OF assms(2), of "''# ClientPublicKey = ''"]
      lines_cons[of "''[Interface]''"] lines_value[OF assms(1), of "''PrivateKey = ''"]
      lines_value[OF assms(5), of "''Address = ''"] lines_value[OF digits_plain, of "''MTU = ''"] lines_cons[of "[]"]
      lines_cons[of "''[Peer]''"] lines_value[OF assms(3), of "''PublicKey = ''"] lines_cons[of "''AllowedIPs = 0.0.0.0/0''"]
      lines_value[OF assms(4), of "''Endpoint = ''"] lines_cons[of "''PersistentKeepalive = 10''" "[]"]
    by (simp add: strip_cr_def)
  note ls = this
  have "\<forall>c\<in>set k. ascii_alphanumeric c"
    if "k \<in> {''PrivateKey'', ''Address'', ''MTU'', ''PublicKey'', ''AllowedIPs'', ''Endpoint'', ''PersistentKeepalive''}" for k
    using that by (auto simp: ascii_alphanumeric_def ascii_upper_def ascii_lower_def ascii_digit_def)
  then have assign: "profile_line s (?line k v) = assign_slot s k v"
    if "k \<in> {''PrivateKey'', ''Address'', ''MTU'', ''PublicKey'', ''AllowedIPs'', ''Endpoint'', ''PersistentKeepalive''}"
      "plain_value v" for s k v
    using that by (intro profile_line_assign) auto
  note line = assign[of "''PrivateKey''", OF _ assms(1), simplified] assign[of "''Address''", OF _ assms(5), simplified]
    assign[of "''MTU''", OF _ digits_plain, simplified] assign[of "''PublicKey''", OF _ assms(3), simplified]
    assign[of "''AllowedIPs''", OF _ plain(1), simplified] assign[of "''Endpoint''", OF _ assms(4), simplified]
    assign[of "''PersistentKeepalive''", OF _ plain(2), simplified]
  show ?thesis
    unfolding ls profile_lines.simps
    by (simp add: profile_comment[OF assms(2), simplified] profile_sections line assign_slot_def set_profile_value_def empty_slots_def)
qed

lemma endpoint_agrees:
  "validate_endpoint_arg endpoint = Inr () \<Longrightarrow> validate_endpoint endpoint = Inr () \<and> length endpoint \<le> 255 \<and> endpoint \<noteq> []
     \<and> \<not> any_whitespace endpoint"
proof -
  assume a: "validate_endpoint_arg endpoint = Inr ()"
  then obtain h p q where r: "rsplit_once (CHR '':'') endpoint = Some (h, p)"
    and c: "length endpoint \<le> 255" "h \<noteq> []" "\<not> any_whitespace endpoint" "parse_uint 65536 p = Some q" "0 < q"
    by (auto simp: validate_endpoint_arg_def split: option.splits if_splits)
  have "endpoint \<noteq> []" using r by (auto simp: rsplit_once_Some)
  then show ?thesis using r c by (simp add: validate_endpoint_def)
qed

text \<open>The text of an IPv6 address (RFC 4291): letters, digits, colons and dots, at most 45 of them, one a colon.\<close>

definition ipv6_laws :: "ipv6_text \<Rightarrow> bool" where
  "ipv6_laws V \<longleftrightarrow> (\<forall>h. v6_parses V h \<longrightarrow> length h \<le> 45 \<and> CHR '':'' \<in> set h \<and>
     (\<forall>c\<in>set h. ascii_alphanumeric c \<or> c \<in> {CHR '':'', CHR ''.''}))"

definition profile_endpoint :: "ipv6_text \<Rightarrow> string \<Rightarrow> bool" where
  "profile_endpoint V endpoint \<longleftrightarrow> validate_managed_endpoint V endpoint = Inr () \<or>
     validate_endpoint_arg endpoint = Inr () \<and> list_all ascii endpoint"

lemma show_ipv4_short: "plain_value (show_ipv4 a)" "length (show_ipv4 a) \<le> 45"
  using show_host_plain[of a] by (auto simp: plain_value_def show_ipv4_octets)

lemma managed_host:
  assumes "ipv6_laws V" and "validate_managed_endpoint V endpoint = Inr ()"
  obtains host where "rsplit_once (CHR '':'') endpoint = Some (host, ''8443'')" "plain_value host" "length host \<le> 47"
proof -
  obtain host where r: "rsplit_once (CHR '':'') endpoint = Some (host, ''8443'')"
    using assms(2) by (auto simp: validate_managed_endpoint_def split: option.splits if_splits)
  define h where "h = (case Option.bind (strip_prefix ''['' host) (strip_suffix '']'') of Some h \<Rightarrow> h | None \<Rightarrow> host)"
  have host: "host = h \<or> host = CHR ''['' # h @ '']''"
    by (auto simp: h_def strip_prefix_Some strip_suffix_Some bind_eq_Some_conv split: option.split)
  have "plain_value h \<and> length h \<le> 45"
  proof (cases "parse_ipv4 h")
    case (Some a)
    then have "h = show_ipv4 a"
      using assms(2) r by (auto simp: validate_managed_endpoint_def Let_def simp flip: h_def split: if_splits)
    then show ?thesis using show_ipv4_short by simp
  next
    case None
    then have "v6_parses V h"
      using assms(2) r by (auto simp: validate_managed_endpoint_def Let_def simp flip: h_def split: if_splits)
    with assms(1) have l: "length h \<le> 45" "h \<noteq> []" "\<forall>c\<in>set h. ascii_alphanumeric c \<or> c \<in> {CHR '':'', CHR ''.''}"
      by (auto simp: ipv6_laws_def)
    moreover have "ascii c \<and> \<not> ascii_space c" if "c \<in> {CHR '':'', CHR ''.''}" for c
      using that by (elim insertE emptyE; simp add: ascii_def ascii_space_iff)
    ultimately have "\<forall>c\<in>set h. ascii c \<and> \<not> ascii_space c" using alphanumeric_plain by blast
    then show ?thesis using l by (simp add: plain_value_def list_all_iff)
  qed
  then have "plain_value host" "length host \<le> 47"
    using host by (auto simp: plain_value_def ascii_def ascii_space_iff)
  with r show thesis by (rule that)
qed

lemma profile_endpoint_plain:
  assumes "ipv6_laws V" and "profile_endpoint V endpoint"
  shows "validate_endpoint_arg endpoint = Inr () \<and> list_all ascii endpoint"
proof (cases "validate_managed_endpoint V endpoint = Inr ()")
  case True
  then obtain host where r: "rsplit_once (CHR '':'') endpoint = Some (host, ''8443'')" "plain_value host" "length host \<le> 47"
    using managed_host[OF assms(1)] by blast
  then have e: "endpoint = host @ '':8443''" by (simp add: rsplit_once_Some)
  then have p: "plain_value endpoint" using r(2) by (auto simp: plain_value_def ascii_def ascii_space_iff)
  moreover have "\<not> any_whitespace endpoint" using p by (auto simp: plain_value_def any_whitespace_ascii)
  moreover have "parse_uint 65536 ''8443'' = Some 8443" by (simp add: parse_uint_def ascii_digit_def)
  ultimately show ?thesis
    using r e by (simp add: validate_endpoint_arg_def plain_value_def)
qed (use assms(2) in \<open>simp add: profile_endpoint_def\<close>)

text \<open>C34: whatever profile the server tool prints for an address it allocated, for a managed endpoint (IPv4 or
  bracketed IPv6) or for an ASCII endpoint of \<^verbatim>\<open>create-profile\<close>, the agent reads back the server key, the
  client key, the endpoint and the address that the server put into it, or, exactly when the host of the
  endpoint has a colon or a bracket, refuses it as an IPv6 endpoint.\<close>

theorem profile_roundtrip:
  assumes "ipnet_text_laws (env_net E)" and "ipv6_laws V" and "allocate_tunnel_ip (env_net E) assigned = Inr n"
    and "wireguard_key private_key" and "wireguard_key client" and "wireguard_key server"
    and "profile_endpoint V endpoint" and "rsplit_once (CHR '':'') endpoint = Some (host, port)"
    and "normalize_server_name name = Inr nm"
  shows "parse_server_profile E name (format_profile private_key client server endpoint (net_show (env_net E) n)) =
    (if set host \<inter> {CHR '':'', CHR ''['', CHR '']''} = {}
     then Inr \<lparr>sp_name = nm, sp_emoji = [], sp_endpoint = endpoint, sp_public_key = server,
       client_tunnel_address = Some (net_show (env_net E) n), client_private_key = Some private_key, management = None\<rparr>
     else Inl Ipv6_Endpoint)"
proof -
  let ?ip = "net_show (env_net E) n"
  obtain v where v: "validate_tunnel_ip (env_net E) v = Inr n"
    using assms(3) by (auto simp: allocate_tunnel_ip_def Let_def split: option.splits)
  then have n: "net_prefix n = 32" "tunnel_octets_ok n" using validate_tunnel_ip_agent[OF v] by (simp_all add: validate_tunnel_ip_ok)
  have ip: "?ip = show_ipv4 (net_addr n) @ ''/32''"
    using ipnet_text_laws.show_net[OF assms(1), of n] n by (simp add: digits_32)
  have parse: "net_parse (env_net E) ?ip = Some n"
    using ipnet_text_laws.parse_host[OF assms(1), of "net_addr n"] n by (simp add: ip)
  have plain: "plain_value ?ip" "length ?ip \<le> 18" using show_host_plain by (simp_all add: ip)
  note ok = profile_endpoint_plain[OF assms(2,7)]
  note e = endpoint_agrees[OF ok[THEN conjunct1]]
  have pe: "plain_value endpoint" using e ok by (simp add: plain_value_def any_whitespace_ascii)
  note slots = profile_slots_of[OF plain_key[OF assms(4)] plain_key[OF assms(5)] plain_key[OF assms(6)] pe plain(1)]
  have lens: "length private_key = 44" "length client = 44" "length server = 44"
    using assms(4-6) by (simp_all add: wireguard_key_def)
  have mtu: "unat TUNNEL_MTU = 1379" by (simp add: budget_defs)
  have "length (digits (1379 :: nat)) = 4" by code_simp
  then have "length (format_profile private_key client server endpoint ?ip) \<le> MAX_PROFILE_SIZE"
    using lens plain(2) e by (simp add: format_profile_def nl_def MAX_PROFILE_SIZE_def mtu)
  moreover have "validate_server_name nm = Inr ()" using assms(9) by (auto simp: normalize_server_name_def Let_def)
  moreover have "list_ex (\<lambda>c. c \<in> {CHR '':'', CHR ''['', CHR '']''}) host \<longleftrightarrow> set host \<inter> {CHR '':'', CHR ''['', CHR '']''} \<noteq> {}"
    by (auto simp: list_ex_iff)
  moreover have "parse_uint 65536 (digits (unat TUNNEL_MTU)) = Some PROFILE_MTU"
    using parse_uint_digits[of "unat TUNNEL_MTU" 65536] by (simp add: PROFILE_MTU_def mtu)
  ultimately show ?thesis
    using assms(4,6,8,9) n(2) e
    by (simp add: parse_server_profile_def slots finish_profile_def required_profile_value_def
        normalize_tunnel_address_def parse allowed_ips_text[simplified] keepalive_text validate_server_def
        validate_saved_server_def validate_emoji_def any_control_def validate_wireguard_key_def)
qed

definition witness_key :: string where
  "witness_key = replicate 43 (CHR ''A'') @ ''=''"

definition doc_ipv6 :: ipv6_text where
  "doc_ipv6 = \<lparr>v6_parses = (\<lambda>h. h = ''2001:db8::1''), v6_canonical = (\<lambda>h. h = ''2001:db8::1'')\<rparr>"

theorem profile_roundtrip_witness:
  "\<exists>n. allocate_tunnel_ip std_ipnet '''' = Inr n \<and>
    parse_server_profile std_env ''Home'' (format_profile witness_key witness_key witness_key ''vpn.example:8443'' (net_show std_ipnet n)) =
    Inr \<lparr>sp_name = ''Home'', sp_emoji = [], sp_endpoint = ''vpn.example:8443'', sp_public_key = witness_key,
      client_tunnel_address = Some (net_show std_ipnet n), client_private_key = Some witness_key, management = None\<rparr> \<and>
    validate_managed_endpoint doc_ipv6 ''[2001:db8::1]:8443'' = Inr () \<and>
    parse_server_profile std_env ''Home'' (format_profile witness_key witness_key witness_key ''[2001:db8::1]:8443'' (net_show std_ipnet n)) =
    Inl Ipv6_Endpoint"
proof -
  have k: "wireguard_key witness_key"
    by (simp add: wireguard_key_def witness_key_def nth_append list_all_iff base64_char_def ascii_alphanumeric_def ascii_upper_def)
  have e: "env_net std_env = std_ipnet" by (simp add: std_env_def)
  have h: "host_candidates = 2 # [3..<255]" unfolding host_candidates_def by (subst upt_rec) (simp del: upt_rec_numeral)
  have "allocate_tunnel_ip std_ipnet '''' = validate_tunnel_ip std_ipnet (show_ipv4 (candidate_ip 2) @ ''/32'')"
    by (simp add: allocate_tunnel_ip_def h split_whitespace_def field_nets_def List.map_filter_def del: upt_rec_numeral)
  also have "\<dots> = Inr \<lparr>net_addr = candidate_ip 2, net_prefix = 32\<rparr>"
    using std_text.parse_host by (auto simp: validate_tunnel_ip_ok)
  finally have a: "allocate_tunnel_ip std_ipnet '''' = Inr \<lparr>net_addr = candidate_ip 2, net_prefix = 32\<rparr>" .
  have v6: "ipv6_laws doc_ipv6"
    by (simp add: ipv6_laws_def doc_ipv6_def ascii_alphanumeric_def ascii_digit_def ascii_lower_def)
  have ep: "rsplit_once (CHR '':'') ''vpn.example:8443'' = Some (''vpn.example'', ''8443'')"
    "rsplit_once (CHR '':'') ''[2001:db8::1]:8443'' = Some (''[2001:db8::1]'', ''8443'')"
    by (simp_all add: rsplit_once_def)
  have asc: "list_all ascii ''vpn.example:8443''" by (simp add: ascii_def)
  have "validate_endpoint_arg ''vpn.example:8443'' = Inr ()"
    using any_whitespace_ascii[OF asc] by (simp add: validate_endpoint_arg_def ep parse_uint_def ascii_digit_def ascii_space_iff ascii_def)
  then have named: "profile_endpoint doc_ipv6 ''vpn.example:8443''" using asc by (simp add: profile_endpoint_def)
  have "parse_ipv4 ''2001:db8::1'' = None"
    by (simp add: parse_ipv4_def split: option.split)
  then have managed: "validate_managed_endpoint doc_ipv6 ''[2001:db8::1]:8443'' = Inr ()"
    by (simp add: validate_managed_endpoint_def ep strip_suffix_def doc_ipv6_def)
  then have v6_endpoint: "profile_endpoint doc_ipv6 ''[2001:db8::1]:8443''" by (simp add: profile_endpoint_def)
  have "trim ''Home'' = ''Home''" by (intro trim_none) (simp_all add: ascii_def ascii_space_iff)
  then have nm: "normalize_server_name ''Home'' = Inr ''Home''"
    by (simp add: normalize_server_name_def validate_server_name_def char_count_ascii ascii_def any_control_def is_control_def utf8_cont_def)
  note profile = profile_roundtrip[of std_env doc_ipv6 "[]", unfolded e, OF std_text.ipnet_text_laws_axioms v6 a k k k _ _ nm]
  show ?thesis
    using profile[OF named ep(1)] profile[OF v6_endpoint ep(2)] a managed by simp
qed

end
