(* ===== verification/Fallible.thy ===== *)
theory Fallible
  imports Prelude
begin

text \<open>
  Operations that work on a state and may fail: the Rust functions that return \<^verbatim>\<open>Result\<close> and act on a
  machine, with \<^verbatim>\<open>?\<close> as early return. Triples with a postcondition for each of the two ends, and the facts
  an operation keeps; the rules are collected in \<open>wp\<close>.
\<close>

section \<open>Operations\<close>

type_synonym ('e, 'w, 'a) operation = "'w \<Rightarrow> 'w \<times> ('e + 'a)"

definition ret :: "'a \<Rightarrow> ('e, 'w, 'a) operation" where
  "ret x w = (w, Inr x)"

definition throw :: "'e \<Rightarrow> ('e, 'w, 'a) operation" where
  "throw e w = (w, Inl e)"

text \<open>\<^verbatim>\<open>m?\<close>: the value, or an early return with the error.\<close>

definition bnd :: "('e, 'w, 'a) operation \<Rightarrow> ('a \<Rightarrow> ('e, 'w, 'b) operation) \<Rightarrow> ('e, 'w, 'b) operation" where
  "bnd m f w = (case m w of (w', Inl e) \<Rightarrow> (w', Inl e) | (w', Inr x) \<Rightarrow> f x w')"

definition lift :: "'e + 'a \<Rightarrow> ('e, 'w, 'a) operation" where
  "lift r w = (w, r)"

definition require :: "bool \<Rightarrow> 'e \<Rightarrow> ('e, 'w, unit) operation" where
  "require b e = (if b then ret () else throw e)"

primrec each :: "('a \<Rightarrow> ('e, 'w, unit) operation) \<Rightarrow> 'a list \<Rightarrow> ('e, 'w, unit) operation" where
  "each f [] = ret ()"
| "each f (x # xs) = bnd (f x) (\<lambda>_. each f xs)"

text \<open>A clean-up whose own result is dropped.\<close>

definition with_cleanup :: "('e, 'w, 'a) operation \<Rightarrow> ('w \<Rightarrow> 'w) \<Rightarrow> ('e, 'w, 'a) operation" where
  "with_cleanup body cleanup w =
     (case body w of (w', Inr x) \<Rightarrow> (w', Inr x) | (w', Inl e) \<Rightarrow> (cleanup w', Inl e))"

definition observe :: "('w \<Rightarrow> 'w \<times> 'a) \<Rightarrow> ('e, 'w, 'a) operation" where
  "observe f w = (case f w of (w', x) \<Rightarrow> (w', Inr x))"

datatype 'a io = Missing | Io_Failed | Io_Ok 'a

text \<open>A file operation whose every failure is the error \<open>e\<close>.\<close>

definition io :: "'e \<Rightarrow> ('w \<Rightarrow> 'w \<times> 'a io) \<Rightarrow> ('e, 'w, 'a) operation" where
  "io e f w = (case f w of (w', Io_Ok x) \<Rightarrow> (w', Inr x) | (w', _) \<Rightarrow> (w', Inl e))"

text \<open>The same where a missing file is an answer.\<close>

definition io_opt :: "'e \<Rightarrow> ('w \<Rightarrow> 'w \<times> 'a io) \<Rightarrow> ('e, 'w, 'a option) operation" where
  "io_opt e f w =
     (case f w of (w', Io_Ok x) \<Rightarrow> (w', Inr (Some x)) | (w', Missing) \<Rightarrow> (w', Inr None) | (w', Io_Failed) \<Rightarrow> (w', Inl e))"

section \<open>Rules\<close>

lemma bnd_lift: "bnd (lift (Inr x)) f = f x"
  by (simp add: bnd_def lift_def fun_eq_iff)

lemma bnd_ret: "bnd (ret x) f = f x"
  and bnd_throw: "bnd (throw e) f = throw e"
  by (simp_all add: bnd_def ret_def throw_def fun_eq_iff)

lemma bnd_lift_error: "bnd (lift (Inl e)) f = throw e"
  by (simp add: bnd_def lift_def throw_def fun_eq_iff)

lemma bnd_Inr: "bnd op f w = (w', Inr y) \<longleftrightarrow> (\<exists>w1 x. op w = (w1, Inr x) \<and> f x w1 = (w', Inr y))"
  by (auto simp: bnd_def split: prod.splits sum.splits)

lemma bnd_assoc: "bnd (bnd m f) g = bnd m (\<lambda>x. bnd (f x) g)"
  by (simp add: bnd_def fun_eq_iff split: prod.split sum.split)

lemma bnd_ran: "m s = (s1, r) \<Longrightarrow> bnd m f s = (case r of Inl e \<Rightarrow> (s1, Inl e) | Inr x \<Rightarrow> f x s1)"
  by (simp add: bnd_def)

lemma map_sum_Inr: "map_sum f g x = Inr y \<longleftrightarrow> (\<exists>z. x = Inr z \<and> y = g z)"
  and map_sum_Inl: "map_sum f g x = Inl e \<longleftrightarrow> (\<exists>z. x = Inl z \<and> e = f z)"
  by (cases x; auto)+

section \<open>Triples\<close>

text \<open>
  \<open>triple P m Q E\<close>: from a state with \<open>P\<close>, an end with a value satisfies \<open>Q\<close> and an end with an error
  satisfies \<open>E\<close>.
\<close>

definition triple :: "('w \<Rightarrow> bool) \<Rightarrow> ('e, 'w, 'a) operation \<Rightarrow> ('a \<Rightarrow> 'w \<Rightarrow> bool) \<Rightarrow> ('e \<Rightarrow> 'w \<Rightarrow> bool) \<Rightarrow> bool" where
  "triple P m Q E \<longleftrightarrow> (\<forall>w. P w \<longrightarrow> (case m w of (w', Inr x) \<Rightarrow> Q x w' | (w', Inl e) \<Rightarrow> E e w'))"

named_theorems wp

lemma tripleD_ok: "triple P m Q E \<Longrightarrow> P w \<Longrightarrow> m w = (w', Inr x) \<Longrightarrow> Q x w'"
  and tripleD_error: "triple P m Q E \<Longrightarrow> P w \<Longrightarrow> m w = (w', Inl e) \<Longrightarrow> E e w'"
  by (auto simp: triple_def)

lemma triple_weaken:
  assumes "triple P m Q E" and "\<And>w. P' w \<Longrightarrow> P w" and "\<And>x w. Q x w \<Longrightarrow> Q' x w" and "\<And>e w. E e w \<Longrightarrow> E' e w"
  shows "triple P' m Q' E'"
  unfolding triple_def
proof (intro allI impI)
  fix w assume p: "P' w"
  obtain w' r where m: "m w = (w', r)" by (cases "m w")
  show "case m w of (w', Inr x) \<Rightarrow> Q' x w' | (w', Inl e) \<Rightarrow> E' e w'"
  proof (cases r)
    case (Inl e)
    then show ?thesis using assms(4)[OF tripleD_error[OF assms(1) assms(2)[OF p]]] m by simp
  next
    case (Inr x)
    then show ?thesis using assms(3)[OF tripleD_ok[OF assms(1) assms(2)[OF p]]] m by simp
  qed
qed

lemma triple_bnd:
  assumes "triple P m R E" and "\<And>x. triple (R x) (f x) Q E"
  shows "triple P (bnd m f) Q E"
  unfolding triple_def
proof (intro allI impI)
  fix w assume p: "P w"
  obtain w' r where m: "m w = (w', r)" by (cases "m w")
  show "case bnd m f w of (w', Inr x) \<Rightarrow> Q x w' | (w', Inl e) \<Rightarrow> E e w'"
  proof (cases r)
    case (Inl e)
    then show ?thesis using tripleD_error[OF assms(1) p] m by (simp add: bnd_def)
  next
    case (Inr x)
    then have "R x w'" using tripleD_ok[OF assms(1) p] m by simp
    then show ?thesis using assms(2)[of x] m Inr by (simp add: bnd_def triple_def)
  qed
qed

lemma triple_ret: "triple (Q x) (ret x) Q E"
  and triple_throw: "triple (E e) (throw e) Q E"
  and triple_lift: "triple (\<lambda>w. case r of Inr x \<Rightarrow> Q x w | Inl e \<Rightarrow> E e w) (lift r) Q E"
  and triple_require: "triple (\<lambda>w. if b then Q () w else E e w) (require b e) Q E"
  by (auto simp: triple_def ret_def throw_def lift_def require_def split: sum.splits)

lemma triple_pure: "(\<And>w. P w \<Longrightarrow> F) \<Longrightarrow> (F \<Longrightarrow> triple P m Q E) \<Longrightarrow> triple P m Q E"
  by (auto simp: triple_def)

lemma triple_with_cleanup:
  assumes "triple P body Q R" and "\<And>e w. R e w \<Longrightarrow> E e (f w)"
  shows "triple P (with_cleanup body f) Q E"
  unfolding triple_def
proof (intro allI impI)
  fix w assume p: "P w"
  obtain w' r where m: "body w = (w', r)" by (cases "body w")
  then show "case with_cleanup body f w of (w', Inr x) \<Rightarrow> Q x w' | (w', Inl e) \<Rightarrow> E e w'"
    using tripleD_ok[OF assms(1) p] assms(2)[OF tripleD_error[OF assms(1) p]]
    by (cases r) (simp_all add: with_cleanup_def)
qed

section \<open>Operations that keep a fact\<close>

definition keeps :: "('w \<Rightarrow> bool) \<Rightarrow> ('e, 'w, 'a) operation \<Rightarrow> bool" where
  "keeps I m \<longleftrightarrow> (\<forall>w. I w \<longrightarrow> I (fst (m w)))"

lemma keeps_triple: "keeps I m \<longleftrightarrow> triple I m (\<lambda>_. I) (\<lambda>_. I)"
proof -
  have "I (fst (m w)) = (case m w of (w', Inr x) \<Rightarrow> I w' | (w', Inl e) \<Rightarrow> I w')" for w
    by (cases "m w") (simp split: sum.splits)
  then show ?thesis by (simp add: keeps_def triple_def)
qed

lemma keeps_ret [wp]: "keeps I (ret x)" and keeps_throw [wp]: "keeps I (throw e)"
  and keeps_lift [wp]: "keeps I (lift r)" and keeps_require [wp]: "keeps I (require b e)"
  by (simp_all add: keeps_def ret_def throw_def lift_def require_def)

lemma keeps_bnd [wp]: "keeps I m \<Longrightarrow> (\<And>x. keeps I (f x)) \<Longrightarrow> keeps I (bnd m f)"
  by (simp add: keeps_triple triple_bnd)

lemma keeps_if [wp]: "(b \<Longrightarrow> keeps I m) \<Longrightarrow> (\<not> b \<Longrightarrow> keeps I n) \<Longrightarrow> keeps I (if b then m else n)"
  by simp

lemma keeps_option [wp]: "keeps I m \<Longrightarrow> (\<And>x. keeps I (f x)) \<Longrightarrow> keeps I (case r of None \<Rightarrow> m | Some x \<Rightarrow> f x)"
  by (simp split: option.splits)

lemma keeps_prod [wp]: "(\<And>a b. keeps I (f a b)) \<Longrightarrow> keeps I (case p of (a, b) \<Rightarrow> f a b)"
  by (simp split: prod.splits)

lemma keeps_each [wp]: "(\<And>x. keeps I (f x)) \<Longrightarrow> keeps I (each f xs)"
  by (induction xs) (simp_all add: wp)

lemma keeps_cleanup [wp]: "keeps I m \<Longrightarrow> (\<And>w. I w \<Longrightarrow> I (f w)) \<Longrightarrow> keeps I (with_cleanup m f)"
proof -
  have "fst (with_cleanup m f w) = (if isl (snd (m w)) then f (fst (m w)) else fst (m w))" for w
    by (cases "m w") (simp add: with_cleanup_def split: sum.splits)
  then show "keeps I m \<Longrightarrow> (\<And>w. I w \<Longrightarrow> I (f w)) \<Longrightarrow> keeps I (with_cleanup m f)" by (simp add: keeps_def)
qed

lemma keeps_observe: "(\<And>w. I w \<Longrightarrow> I (fst (f w))) \<Longrightarrow> keeps I (observe f)"
  by (simp add: keeps_def observe_def case_prod_unfold)

lemma fst_io: "fst (io e f w) = fst (f w)" and fst_io_opt: "fst (io_opt e f w) = fst (f w)"
  by (simp_all add: io_def io_opt_def split: prod.splits io.splits)

lemma keeps_io: "(\<And>w. I w \<Longrightarrow> I (fst (f w))) \<Longrightarrow> keeps I (io e f)"
  and keeps_io_opt: "(\<And>w. I w \<Longrightarrow> I (fst (f w))) \<Longrightarrow> keeps I (io_opt e f)"
  by (simp_all add: keeps_def fst_io fst_io_opt)

lemma triple_bnd_keeps:
  "keeps I m \<Longrightarrow> (\<And>x. triple I (f x) Q (\<lambda>_. I)) \<Longrightarrow> triple I (bnd m f) Q (\<lambda>_. I)"
  unfolding keeps_triple by (rule triple_bnd)

lemma triple_io:
  assumes "\<And>w w' x. P w \<Longrightarrow> f w = (w', Io_Ok x) \<Longrightarrow> Q x w'"
    and "\<And>w w'. P w \<Longrightarrow> f w = (w', Missing) \<or> f w = (w', Io_Failed) \<Longrightarrow> E w'"
  shows "triple P (io e f) Q (\<lambda>_. E)"
  using assms by (auto simp: triple_def io_def split: prod.splits io.splits sum.splits)

lemma keeps_ioD: "keeps I (io e f) \<Longrightarrow> I w \<Longrightarrow> f w = (w', r) \<Longrightarrow> I w'"
  unfolding keeps_def fst_io by (metis fst_conv)

lemma keeps_lift_bnd: "(\<And>x. r = Inr x \<Longrightarrow> keeps I (f x)) \<Longrightarrow> keeps I (bnd (lift r) f)"
  by (cases r) (simp_all add: bnd_lift bnd_lift_error keeps_throw)

end
