(* ===== verification/Server_World.thy ===== *)
theory Server_World
  imports Server_Core Fallible
begin

text \<open>
  The machine the server tool runs on. The tool works through commands
  (\<^verbatim>\<open>run\<close>, \<^verbatim>\<open>run_with_input\<close> of \<^verbatim>\<open>gofro-server/src/main.rs\<close>) and through a few file operations; both
  are the record \<open>sys\<close> over a state \<open>'w\<close> of the machine. An operation of the tool is a function
  \<open>'w \<Rightarrow> 'w \<times> (server_error + 'a)\<close>: it may change the machine and fail.
\<close>

section \<open>Operations that may fail\<close>

type_synonym ('w, 'a) act = "(server_error, 'w, 'a) operation"

text \<open>
  The pattern of every change: \<^verbatim>\<open>if let Err(error) = result\<close>, run the rollback and report the first error,
  or both when the rollback fails too.
\<close>

definition with_rollback :: "('w, unit) act \<Rightarrow> ('w, unit) act \<Rightarrow> ('w, unit) act" where
  "with_rollback body rollback w =
     (case body w of
        (w', Inr u) \<Rightarrow> (w', Inr u)
      | (w', Inl e) \<Rightarrow>
          (case rollback w' of
             (w'', Inr _) \<Rightarrow> (w'', Inl e)
           | (w'', Inl e') \<Rightarrow> (w'', Inl (Rollback_Failed e e'))))"

section \<open>The machine\<close>

record file_meta =
  is_dir :: bool
  is_regular :: bool
  is_symlink :: bool
  perm :: nat
  owner :: nat
  links :: nat
  bytes_long :: nat
  inode :: "nat \<times> nat"

record 'w sys =
  sys_command :: "string list \<Rightarrow> string option \<Rightarrow> 'w \<Rightarrow> 'w \<times> string option"
  sys_pid :: nat
  fs_exists :: "string \<Rightarrow> 'w \<Rightarrow> 'w \<times> bool"
  fs_lstat :: "string \<Rightarrow> 'w \<Rightarrow> 'w \<times> file_meta io"
  fs_open :: "string \<Rightarrow> 'w \<Rightarrow> 'w \<times> (file_meta \<times> bytes) io"
  fs_read_text :: "string \<Rightarrow> 'w \<Rightarrow> 'w \<times> string io"
  fs_open_append :: "bool \<Rightarrow> string \<Rightarrow> 'w \<Rightarrow> 'w \<times> file_meta io"
  fs_lock :: "string \<Rightarrow> 'w \<Rightarrow> 'w \<times> unit io"
  fs_mkdir :: "string \<Rightarrow> 'w \<Rightarrow> 'w \<times> unit io"
  fs_create_new :: "string \<Rightarrow> 'w \<Rightarrow> 'w \<times> unit io"
  fs_append :: "string \<Rightarrow> bytes \<Rightarrow> 'w \<Rightarrow> 'w \<times> unit io"
  fs_sync :: "string \<Rightarrow> 'w \<Rightarrow> 'w \<times> unit io"
  fs_rename :: "string \<Rightarrow> string \<Rightarrow> 'w \<Rightarrow> 'w \<times> unit io"
  fs_remove :: "string \<Rightarrow> 'w \<Rightarrow> 'w \<times> unit io"

definition run :: "'w sys \<Rightarrow> string list \<Rightarrow> ('w, string) act" where
  "run S args w =
     (case sys_command S args None w of
        (w', Some out) \<Rightarrow> (w', Inr out) | (w', None) \<Rightarrow> (w', Inl (Command_Failed args)))"

definition run_with_input :: "'w sys \<Rightarrow> string list \<Rightarrow> string \<Rightarrow> ('w, string) act" where
  "run_with_input S args text w =
     (case sys_command S args (Some text) w of
        (w', Some out) \<Rightarrow> (w', Inr out) | (w', None) \<Rightarrow> (w', Inl (Command_Failed args)))"

text \<open>The commands of the tool.\<close>

definition wg_show :: "'w sys \<Rightarrow> string \<Rightarrow> string \<Rightarrow> ('w, string) act" where
  "wg_show S interface what = run S [''wg'', ''show'', interface, what]"

definition wg_showconf :: "'w sys \<Rightarrow> string \<Rightarrow> ('w, string) act" where
  "wg_showconf S interface = run S [''wg'', ''showconf'', interface]"

definition wg_genkey :: "'w sys \<Rightarrow> ('w, string) act" where
  "wg_genkey S = run S [''wg'', ''genkey'']"

definition wg_pubkey :: "'w sys \<Rightarrow> string \<Rightarrow> ('w, string) act" where
  "wg_pubkey S private_key = run_with_input S [''wg'', ''pubkey''] private_key"

definition wg_allow :: "'w sys \<Rightarrow> string \<Rightarrow> string \<Rightarrow> string \<Rightarrow> ('w, string) act" where
  "wg_allow S interface public_key routes =
     run S [''wg'', ''set'', interface, ''peer'', public_key, ''allowed-ips'', routes]"

definition wg_remove :: "'w sys \<Rightarrow> string \<Rightarrow> string \<Rightarrow> ('w, string) act" where
  "wg_remove S interface public_key = run S [''wg'', ''set'', interface, ''peer'', public_key, ''remove'']"

definition wg_setconf :: "'w sys \<Rightarrow> string \<Rightarrow> string \<Rightarrow> ('w, string) act" where
  "wg_setconf S interface conf = run_with_input S [''wg'', ''setconf'', interface, ''/dev/stdin''] conf"

definition save :: "'w sys \<Rightarrow> string \<Rightarrow> ('w, unit) act" where
  "save S interface = bnd (run S [''wg-quick'', ''save'', interface]) (\<lambda>_. ret ())"

definition require_root :: "'w sys \<Rightarrow> ('w, unit) act" where
  "require_root S = bnd (run S [''id'', ''-u'']) (\<lambda>uid. require (trim uid = ''0'') Not_Root)"

section \<open>Peers that are not managed\<close>

definition ensure_routes_available :: "'w sys \<Rightarrow> ipnet \<Rightarrow> string \<Rightarrow> string \<Rightarrow> ipv4net list \<Rightarrow> ('w, unit) act" where
  "ensure_routes_available S N interface public_key routes =
     bnd (wg_show S interface ''allowed-ips'') (\<lambda>assigned.
     require (\<not> routes_conflict N assigned public_key routes) Route_Taken)"

definition add_peer :: "'w sys \<Rightarrow> ipnet \<Rightarrow> string \<Rightarrow> string \<Rightarrow> string \<Rightarrow> ('w, unit) act" where
  "add_peer S N interface public_key tunnel_ip =
     bnd (lift (status_result (validate_peer_key public_key))) (\<lambda>_.
     bnd (lift (validate_tunnel_ip N tunnel_ip)) (\<lambda>tunnel_ip.
     bnd (ensure_routes_available S N interface public_key [tunnel_ip]) (\<lambda>_.
     bnd (wg_showconf S interface) (\<lambda>previous_config.
     with_rollback
       (bnd (wg_allow S interface public_key (net_show N tunnel_ip)) (\<lambda>_. save S interface))
       (bnd (wg_setconf S interface previous_config) (\<lambda>_. save S interface))))))"

lemma triple_with_rollback:
  assumes "triple P body (\<lambda>_. Q) (\<lambda>_. R)" and "triple R rollback (\<lambda>_. B) (\<lambda>_ _. True)"
  shows "triple P (with_rollback body rollback) (\<lambda>_. Q) (\<lambda>e w. (\<exists>a b. e = Rollback_Failed a b) \<or> B w)"
  unfolding triple_def
proof (intro allI impI)
  fix w assume p: "P w"
  obtain w' r where m: "body w = (w', r)" by (cases "body w")
  show "case with_rollback body rollback w of (w', Inr x) \<Rightarrow> Q w' | (w', Inl e) \<Rightarrow> (\<exists>a b. e = Rollback_Failed a b) \<or> B w'"
  proof (cases r)
    case (Inr u)
    then show ?thesis using tripleD_ok[OF assms(1) p] m by (simp add: with_rollback_def)
  next
    case (Inl e)
    then have rw: "R w'" using tripleD_error[OF assms(1) p] m by simp
    obtain w'' r' where m': "rollback w' = (w'', r')" by (cases "rollback w'")
    then show ?thesis using tripleD_ok[OF assms(2) rw] m Inl by (cases r') (auto simp: with_rollback_def)
  qed
qed

lemma keeps_rollback [wp]: "keeps I m \<Longrightarrow> keeps I n \<Longrightarrow> keeps I (with_rollback m n)"
proof -
  have "fst (with_rollback m n w) = (if isl (snd (m w)) then fst (n (fst (m w))) else fst (m w))" for w
    by (cases "m w"; cases "n (fst (m w))") (simp add: with_rollback_def split: sum.splits)
  then show "keeps I m \<Longrightarrow> keeps I n \<Longrightarrow> keeps I (with_rollback m n)" by (simp add: keeps_def)
qed

lemma fst_run: "fst (run S args w) = fst (sys_command S args None w)"
  and fst_run_with_input: "fst (run_with_input S args text w) = fst (sys_command S args (Some text) w)"
  by (simp_all add: run_def run_with_input_def split: prod.splits option.splits)

lemma keeps_run: "(\<And>w. I w \<Longrightarrow> I (fst (sys_command S args None w))) \<Longrightarrow> keeps I (run S args)"
  and keeps_run_with_input: "(\<And>w. I w \<Longrightarrow> I (fst (sys_command S args (Some text) w))) \<Longrightarrow> keeps I (run_with_input S args text)"
  by (simp_all add: keeps_def fst_run fst_run_with_input)

end
