(* ===== verification/Friend_Store.thy ===== *)
theory Friend_Store
  imports Server_World
begin

text \<open>
  The metadata of a managed server (\<^verbatim>\<open>gofro-server/src/managed/store.rs\<close>): the friends with their names
  and the router owners, kept as one JSON file per interface. The JSON text is written and read by
  \<^verbatim>\<open>serde_json\<close>, the record \<open>store_json\<close>. Paths are those of a release build; the file that a handle
  stands for is named by its path.
\<close>

section \<open>Data\<close>

definition FRIENDS_DIR :: string where "FRIENDS_DIR = ''/etc/gofro/friends''"
definition STORE_LIMIT :: nat where "STORE_LIMIT = 512 * 1024"

record friend_record =
  fr_public_key :: string
  fr_name :: string
  fr_private_key :: "string option"

record friend_store =
  schema :: nat
  records :: "friend_record list"
  owners :: "string list"

record store_json =
  js_schema :: "bytes \<Rightarrow> nat option"
  js_legacy :: "bytes \<Rightarrow> (nat \<times> friend_record list) option"
  js_store :: "bytes \<Rightarrow> friend_store option"
  js_encode :: "friend_store \<Rightarrow> bytes option"

section \<open>Paths and permissions\<close>

definition interface_char :: "char \<Rightarrow> bool" where
  "interface_char c \<longleftrightarrow> ascii_alphanumeric c \<or> c \<in> {CHR ''_'', CHR ''-'', CHR ''.'', CHR '':''}"

definition interface_name :: "string \<Rightarrow> server_error + unit" where
  "interface_name interface =
     (if interface = [] \<or> \<not> list_all interface_char interface then Inl Bad_Interface else Inr ())"

definition store_path :: "string \<Rightarrow> server_error + string" where
  "store_path interface =
     and_then (interface_name interface) (\<lambda>_. Inr (FRIENDS_DIR @ ''/'' @ interface @ ''.json''))"

definition expected_uid :: nat where "expected_uid = 0"

text \<open>\<^verbatim>\<open>mode & 0o777\<close> is the remainder modulo 512.\<close>

definition validate_directory :: "'w sys \<Rightarrow> string \<Rightarrow> ('w, unit) act" where
  "validate_directory S path =
     bnd (io Metadata_Io (fs_lstat S path)) (\<lambda>m.
     if \<not> is_dir m \<or> is_symlink m \<or> perm m mod 512 \<noteq> 448 \<or> owner m \<noteq> expected_uid
     then throw Metadata_Unsafe else ret ())"

definition validate_file :: "'w sys \<Rightarrow> string \<Rightarrow> ('w, file_meta) act" where
  "validate_file S path =
     bnd (io Metadata_Io (fs_lstat S path)) (\<lambda>m.
     if \<not> is_regular m \<or> is_symlink m \<or> perm m mod 512 \<noteq> 384 \<or> owner m \<noteq> expected_uid \<or> links m \<noteq> 1 \<or>
        STORE_LIMIT < bytes_long m
     then throw Metadata_Unsafe else ret m)"

section \<open>Reading\<close>

primrec check_records :: "friend_record list \<Rightarrow> string set \<Rightarrow> server_error + string set" where
  "check_records [] keys = Inr keys"
| "check_records (r # rs) keys =
     and_then (status_result (validate_peer_key (fr_public_key r))) (\<lambda>_.
     and_then (status_result (validate_name (fr_name r))) (\<lambda>_.
     if (case fr_private_key r of None \<Rightarrow> False | Some k \<Rightarrow> isl (validate_peer_key k)) \<or> fr_public_key r \<in> keys
     then Inl Metadata_Invalid
     else check_records rs (insert (fr_public_key r) keys)))"

primrec check_owners :: "string list \<Rightarrow> string set \<Rightarrow> server_error + string set" where
  "check_owners [] keys = Inr keys"
| "check_owners (k # ks) keys =
     and_then (status_result (validate_peer_key k)) (\<lambda>_.
     if k \<in> keys then Inl Owner_Overlap else check_owners ks (insert k keys))"

definition decode_store :: "store_json \<Rightarrow> bytes \<Rightarrow> server_error + friend_store" where
  "decode_store J data =
     and_then (ok_or (js_schema J data) Metadata_Invalid) (\<lambda>version_field.
     if version_field = 1 then
       and_then (ok_or (js_legacy J data) Metadata_Invalid) (\<lambda>(s, rs). Inr \<lparr>schema = s, records = rs, owners = []\<rparr>)
     else if version_field = 2 then ok_or (js_store J data) Metadata_Invalid
     else Inl Metadata_Schema)"

definition check_store :: "friend_store \<Rightarrow> server_error + friend_store" where
  "check_store s =
     and_then (check_records (records s) {}) (\<lambda>keys.
     and_then (if schema s = 2 then check_owners (owners s) keys else Inr keys) (\<lambda>_. Inr s))"

definition parse_store :: "store_json \<Rightarrow> bytes \<Rightarrow> server_error + friend_store" where
  "parse_store J data = and_then (decode_store J data) check_store"

definition empty_store :: friend_store where
  "empty_store = \<lparr>schema = 1, records = [], owners = []\<rparr>"

definition read_store_path :: "'w sys \<Rightarrow> store_json \<Rightarrow> string \<Rightarrow> ('w, friend_store) act" where
  "read_store_path S J path =
     bnd (io_opt Metadata_Io (fs_lstat S path)) (\<lambda>found.
     case found of
       None \<Rightarrow> ret empty_store
     | Some _ \<Rightarrow>
         bnd (validate_file S path) (\<lambda>inspected.
         bnd (io Metadata_Io (fs_open S path)) (\<lambda>(opened, content).
         bnd (io Metadata_Io (fs_lstat S path)) (\<lambda>named.
         if inode opened \<noteq> inode named \<or> inode opened \<noteq> inode inspected \<or> is_symlink named
         then throw Metadata_Changed
         else
           (let data = take (STORE_LIMIT + 1) content in
            if STORE_LIMIT < length data then throw Metadata_Size else lift (parse_store J data))))))"

definition read_store :: "'w sys \<Rightarrow> store_json \<Rightarrow> string \<Rightarrow> ('w, friend_store) act" where
  "read_store S J interface =
     bnd (lift (store_path interface)) (\<lambda>path.
     bnd (io_opt Metadata_Io (fs_lstat S FRIENDS_DIR)) (\<lambda>found.
     bnd (case found of Some _ \<Rightarrow> validate_directory S FRIENDS_DIR | None \<Rightarrow> ret ()) (\<lambda>_.
     read_store_path S J path)))"

section \<open>Writing\<close>

definition encode_store :: "store_json \<Rightarrow> friend_store \<Rightarrow> server_error + bytes" where
  "encode_store J s =
     and_then (ok_or (js_encode J s) Metadata_Invalid) (\<lambda>encoded.
     if STORE_LIMIT < length encoded + 1 then Inl Metadata_Size else Inr encoded)"

definition temporary_path :: "'w sys \<Rightarrow> string \<Rightarrow> string" where
  "temporary_path S interface = FRIENDS_DIR @ ''/.'' @ interface @ ''.json.'' @ digits (sys_pid S) @ ''.tmp''"

definition publish :: "'w sys \<Rightarrow> string \<Rightarrow> string \<Rightarrow> bytes \<Rightarrow> ('w, unit) act" where
  "publish S temporary path encoded =
     bnd (io Metadata_Io (fs_append S temporary encoded)) (\<lambda>_.
     bnd (io Metadata_Io (fs_append S temporary [10])) (\<lambda>_.
     bnd (io Metadata_Io (fs_sync S temporary)) (\<lambda>_.
     bnd (io Metadata_Io (fs_rename S temporary path)) (\<lambda>_.
     io Metadata_Io (fs_sync S FRIENDS_DIR)))))"

definition is_ok :: "'a io \<Rightarrow> bool" where
  "is_ok r = (case r of Io_Ok _ \<Rightarrow> True | _ \<Rightarrow> False)"

definition write_store_path :: "'w sys \<Rightarrow> store_json \<Rightarrow> string \<Rightarrow> string \<Rightarrow> friend_store \<Rightarrow> ('w, unit) act" where
  "write_store_path S J interface path s =
     bnd (lift (encode_store J s)) (\<lambda>encoded.
     bnd (observe (fs_exists S FRIENDS_DIR)) (\<lambda>there.
     bnd (if there then ret () else io Metadata_Io (fs_mkdir S FRIENDS_DIR)) (\<lambda>_.
     bnd (validate_directory S FRIENDS_DIR) (\<lambda>_.
     bnd (observe (fs_lstat S path)) (\<lambda>found.
     bnd (if is_ok found then bnd (validate_file S path) (\<lambda>_. ret ()) else ret ()) (\<lambda>_.
     let temporary = temporary_path S interface in
     bnd (io Metadata_Io (fs_create_new S temporary)) (\<lambda>_.
     with_cleanup (publish S temporary path encoded) (\<lambda>w. fst (fs_remove S temporary w)))))))))"

definition write_store :: "'w sys \<Rightarrow> store_json \<Rightarrow> string \<Rightarrow> friend_store \<Rightarrow> ('w, unit) act" where
  "write_store S J interface s =
     bnd (lift (store_path interface)) (\<lambda>path. write_store_path S J interface path s)"

section \<open>Valid metadata\<close>

text \<open>What the reader accepts: valid keys and names, and no key twice, as a friend or as an owner.\<close>

definition record_ok :: "friend_record \<Rightarrow> bool" where
  "record_ok r \<longleftrightarrow> wireguard_key (fr_public_key r) \<and> \<not> isl (validate_name (fr_name r)) \<and>
     (\<forall>k. fr_private_key r = Some k \<longrightarrow> wireguard_key k)"

definition store_valid :: "friend_store \<Rightarrow> bool" where
  "store_valid s \<longleftrightarrow> (\<forall>r\<in>set (records s). record_ok r) \<and> distinct (map fr_public_key (records s)) \<and>
     (schema s = 2 \<longrightarrow> (\<forall>k\<in>set (owners s). wireguard_key k) \<and> distinct (owners s) \<and>
        set (owners s) \<inter> fr_public_key ` set (records s) = {})"

lemma status_result_Inr [simp]: "status_result r = Inr x \<longleftrightarrow> r = Inr x"
  by (simp add: status_result_def split: sum.splits)

lemma check_records_ok:
  "check_records rs keys = Inr keys' \<longleftrightarrow>
     (\<forall>r\<in>set rs. record_ok r) \<and> distinct (map fr_public_key rs) \<and> keys \<inter> fr_public_key ` set rs = {} \<and>
     keys' = keys \<union> fr_public_key ` set rs"
proof (induction rs arbitrary: keys)
  case (Cons r rs)
  have "record_ok r \<longleftrightarrow> validate_peer_key (fr_public_key r) = Inr () \<and> (\<exists>n. validate_name (fr_name r) = Inr n) \<and>
      \<not> (case fr_private_key r of None \<Rightarrow> False | Some k \<Rightarrow> isl (validate_peer_key k))"
    by (auto simp: record_ok_def validate_peer_key_iff isl_def split: option.splits)
      (metis Inr_not_Inl old.sum.exhaust old.unit.exhaust validate_peer_key_iff)+
  then show ?case by (auto simp: Cons.IH)
qed auto

lemma check_owners_ok:
  "check_owners ks keys = Inr keys' \<longleftrightarrow>
     (\<forall>k\<in>set ks. wireguard_key k) \<and> distinct ks \<and> keys \<inter> set ks = {} \<and> keys' = keys \<union> set ks"
  by (induction ks arbitrary: keys) (auto simp: validate_peer_key_iff)

lemma check_store_ok: "check_store s = Inr s' \<longleftrightarrow> s' = s \<and> store_valid s"
  by (auto simp: check_store_def check_records_ok check_owners_ok store_valid_def)

section \<open>The contract of serde\<close>

locale json_laws =
  fixes J :: store_json
  assumes schema_back: "js_encode J s = Some b \<Longrightarrow> js_schema J (b @ [10]) = Some (schema s)"
    and store_back: "js_encode J s = Some b \<Longrightarrow> js_store J (b @ [10]) = Some s"
begin

lemma parse_written:
  "encode_store J s = Inr b \<Longrightarrow> schema s = 2 \<Longrightarrow> store_valid s \<Longrightarrow>
     parse_store J (take (STORE_LIMIT + 1) (b @ [10])) = Inr s"
  by (auto simp: encode_store_def parse_store_def decode_store_def schema_back store_back check_store_ok split: if_splits)

end

end
