(* ===== verification/Server_Managed.thy ===== *)
theory Server_Managed
  imports Friend_Store "HOL-Library.AList" "HOL-Library.List_Lexorder" "HOL-Library.Char_ord"
begin

text \<open>
  The managed side of the server tool (\<^verbatim>\<open>gofro-server/src/managed.rs\<close> and \<^verbatim>\<open>warp.rs\<close>): the
  friends of a server, its router owners and the authorisation of WARP. Every operation reads the metadata,
  checks it against the live peers, writes the metadata and only then changes WireGuard, with a rollback.
\<close>

section \<open>Environment\<close>

text \<open>Besides the machine: the network library, the JSON of the metadata and of the WARP helper, and the
  Unicode table behind \<^verbatim>\<open>to_lowercase\<close>.\<close>

record 'w server_env =
  se_sys :: "'w sys"
  se_net :: ipnet
  se_json :: store_json
  se_lower :: "string \<Rightarrow> string"
  se_warp :: "string \<Rightarrow> warp_status option"
  se_version :: string

section \<open>Peers\<close>

datatype peer_kind = Friend string | Owner | Other

text \<open>\<^verbatim>\<open>collect\<close> into a \<^verbatim>\<open>BTreeMap\<close>: the last entry of a key counts, keys ascend.\<close>

definition btree_collect :: "(string \<times> 'v) list \<Rightarrow> (string \<times> 'v) list" where
  "btree_collect es = sort_key fst (AList.clearjunk (rev es))"

definition classify_friend :: "ipnet \<Rightarrow> string list \<Rightarrow> peer_kind" where
  "classify_friend N routes =
     (case routes of
        [route] \<Rightarrow> (case validate_tunnel_ip N route of Inr ip \<Rightarrow> Friend (net_show N ip) | Inl _ \<Rightarrow> Other)
      | _ \<Rightarrow> Other)"

definition line_routes :: "string list \<Rightarrow> string list" where
  "line_routes ws = concat (map (split_char (CHR '','')) ws)"

definition peer_entry :: "ipnet \<Rightarrow> string list \<Rightarrow> string \<Rightarrow> (string \<times> peer_kind) option" where
  "peer_entry N owner_list line =
     (case split_whitespace line of
        [] \<Rightarrow> None
      | key # ws \<Rightarrow> Some (key, if key \<in> set owner_list then Owner else classify_friend N (line_routes ws)))"

definition peers_of :: "ipnet \<Rightarrow> string list \<Rightarrow> string \<Rightarrow> (string \<times> peer_kind) list" where
  "peers_of N owner_list output = btree_collect (List.map_filter (peer_entry N owner_list) (lines output))"

definition peers :: "'w server_env \<Rightarrow> string \<Rightarrow> string list \<Rightarrow> ('w, (string \<times> peer_kind) list) act" where
  "peers X interface owner_list =
     bnd (wg_show (se_sys X) interface ''allowed-ips'') (\<lambda>output. ret (peers_of (se_net X) owner_list output))"

section \<open>Metadata and its migration\<close>

definition legacy_owners :: "string \<Rightarrow> string list" where
  "legacy_owners output =
     List.map_filter (\<lambda>line.
       case split_whitespace line of
         [] \<Rightarrow> None
       | key # ws \<Rightarrow> if list_ex (\<lambda>r. r = CLIENT_SUBNET) (line_routes ws) then Some key else None) (lines output)"

primrec check_legacy_owners :: "friend_record list \<Rightarrow> string list \<Rightarrow> server_error + unit" where
  "check_legacy_owners rs [] = Inr ()"
| "check_legacy_owners rs (k # ks) =
     and_then (status_result (validate_peer_key k)) (\<lambda>_.
     if list_ex (\<lambda>r. fr_public_key r = k) rs then Inl Owner_Overlap else check_legacy_owners rs ks)"

definition migrate :: "'w server_env \<Rightarrow> string \<Rightarrow> friend_store \<Rightarrow> ('w, friend_store) act" where
  "migrate X interface s =
     bnd (wg_show (se_sys X) interface ''allowed-ips'') (\<lambda>output.
     bnd (lift (store_path interface)) (\<lambda>path.
     bnd (observe (fs_exists (se_sys X) path)) (\<lambda>there.
     bnd (if there then ret False
          else bnd (peers X interface []) (\<lambda>ps. ret (list_ex (\<lambda>(k, p). case p of Friend _ \<Rightarrow> True | _ \<Rightarrow> False) ps)))
       (\<lambda>ambiguous.
     bnd (require (\<not> ambiguous) Missing_Metadata) (\<lambda>_.
     let new_owners = legacy_owners output in
     bnd (require (\<not> (new_owners = [] \<and> list_ex (\<lambda>l. 2 \<le> length (split_whitespace l)) (lines output))) No_Legacy_Owner) (\<lambda>_.
     let s' = s\<lparr>schema := 2, owners := new_owners\<rparr> in
     bnd (lift (check_legacy_owners (records s') new_owners)) (\<lambda>_.
     bnd (write_store (se_sys X) (se_json X) interface s') (\<lambda>_. ret s'))))))))"

definition load_store :: "'w server_env \<Rightarrow> string \<Rightarrow> ('w, friend_store) act" where
  "load_store X interface =
     bnd (read_store (se_sys X) (se_json X) interface) (\<lambda>s.
     if schema s = 1 then migrate X interface s else ret s)"

definition find_record :: "friend_store \<Rightarrow> string \<Rightarrow> friend_record option" where
  "find_record s k = find (\<lambda>r. fr_public_key r = k) (records s)"

definition active_name :: "'w server_env \<Rightarrow> friend_store \<Rightarrow> (string \<times> peer_kind) list \<Rightarrow> string option \<Rightarrow> string \<Rightarrow> bool" where
  "active_name X s ps public_key name =
     list_ex (\<lambda>(key, peer).
       if Some key = public_key then False
       else case peer of
         Friend ip \<Rightarrow>
           se_lower X (case find_record s key of None \<Rightarrow> ip | Some r \<Rightarrow> fr_name r) = se_lower X name
       | _ \<Rightarrow> False) ps"

definition peer_shape :: "friend_store \<Rightarrow> (string \<times> peer_kind) list \<Rightarrow> string \<Rightarrow> server_error + string option" where
  "peer_shape s ps public_key =
     and_then (status_result (validate_peer_key public_key)) (\<lambda>_.
     if list_ex (\<lambda>k. k = public_key) (owners s) then Inl Router_Peer
     else case map_of ps public_key of
       None \<Rightarrow> Inr None
     | Some (Friend ip) \<Rightarrow> Inr (Some ip)
     | Some Owner \<Rightarrow> Inl Router_Peer
     | Some Other \<Rightarrow> Inl Not_A_Friend)"

section \<open>WARP helper\<close>

definition WARP_NETWORK :: string where "WARP_NETWORK = ''/etc/gofro/warp/network''"
definition WARP_HELPER :: string where "WARP_HELPER = ''/usr/local/sbin/gofro-warp''"

definition prepared :: "'w server_env \<Rightarrow> string \<Rightarrow> ('w, bool) act" where
  "prepared X interface =
     bnd (io_opt Warp_Io (fs_lstat (se_sys X) WARP_NETWORK)) (\<lambda>found.
     case found of
       None \<Rightarrow> ret False
     | Some m \<Rightarrow>
         if \<not> is_regular m \<or> links m \<noteq> 1 \<or> owner m \<noteq> expected_uid \<or> perm m mod 512 \<noteq> 384 then throw Warp_Unsafe
         else
           bnd (io Warp_Io (fs_read_text (se_sys X) WARP_NETWORK)) (\<lambda>content.
           if \<not> list_ex (\<lambda>l. l = ''WG_INTERFACE='' @ interface) (lines content) then throw Warp_Interface else ret True))"

definition warp_command :: "'w server_env \<Rightarrow> string \<Rightarrow> string \<Rightarrow> ('w, unit) act" where
  "warp_command X action interface = bnd (run (se_sys X) [WARP_HELPER, action, interface]) (\<lambda>_. ret ())"

definition warp_status_of :: "'w server_env \<Rightarrow> string \<Rightarrow> ('w, warp_status) act" where
  "warp_status_of X interface =
     bnd (prepared X interface) (\<lambda>p.
     if \<not> p then ret default_warp_status
     else
       bnd (run (se_sys X) [WARP_HELPER, ''status'', interface]) (\<lambda>output.
       bnd (lift (ok_or (se_warp X output) Warp_Status)) (\<lambda>st.
       if connected st \<and> (\<not> installed st \<or> \<not> warp_enabled st) then throw Warp_Status else ret st)))"

section \<open>Friends\<close>

definition known_friend :: "(string \<times> peer_kind) list \<Rightarrow> friend_record \<Rightarrow> friend_peer option" where
  "known_friend active r =
     (case map_of active (fr_public_key r) of
        Some Owner \<Rightarrow> None
      | Some Other \<Rightarrow> None
      | Some (Friend _) \<Rightarrow> Some \<lparr>fp_public_key = fr_public_key r, fp_name = fr_name r, fp_revoked = False,
          fp_can_share = (fr_private_key r \<noteq> None)\<rparr>
      | None \<Rightarrow> Some \<lparr>fp_public_key = fr_public_key r, fp_name = fr_name r, fp_revoked = True, fp_can_share = False\<rparr>)"

definition unknown_friend :: "friend_store \<Rightarrow> string \<times> peer_kind \<Rightarrow> friend_peer option" where
  "unknown_friend s e =
     (case snd e of
        Friend ip \<Rightarrow>
          if list_ex (\<lambda>r. fr_public_key r = fst e) (records s) then None
          else Some \<lparr>fp_public_key = fst e, fp_name = ip, fp_revoked = False, fp_can_share = False\<rparr>
      | _ \<Rightarrow> None)"

text \<open>\<^verbatim>\<open>sort_by\<close> on the name and then the key, as two stable sorts.\<close>

definition friend_peers :: "friend_store \<Rightarrow> (string \<times> peer_kind) list \<Rightarrow> friend_peer list" where
  "friend_peers s active =
     sort_key fp_name (sort_key fp_public_key
       (List.map_filter (known_friend active) (records s) @ List.map_filter (unknown_friend s) active))"

definition server_status_op :: "'w server_env \<Rightarrow> string \<Rightarrow> ('w, managed_server_status) act" where
  "server_status_op X interface =
     bnd (load_store X interface) (\<lambda>s.
     bnd (peers X interface (owners s)) (\<lambda>active.
     bnd (warp_status_of X interface) (\<lambda>w.
     ret \<lparr>version = se_version X, ms_peers = friend_peers s active, ms_warp = Some w\<rparr>)))"

definition create_friend :: "'w server_env \<Rightarrow> string \<Rightarrow> string \<Rightarrow> string \<Rightarrow> ('w, string) act" where
  "create_friend X interface endpoint name =
     bnd (load_store X interface) (\<lambda>s.
     bnd (peers X interface (owners s)) (\<lambda>active.
     bnd (require (\<not> active_name X s active None name) Name_Taken) (\<lambda>_.
     bnd (wg_showconf (se_sys X) interface) (\<lambda>previous_config.
     bnd (wg_genkey (se_sys X)) (\<lambda>generated.
     let private_key = trim generated in
     bnd (wg_pubkey (se_sys X) private_key) (\<lambda>derived.
     let public_key = trim derived in
     bnd (lift (status_result (validate_peer_key public_key))) (\<lambda>_.
     bnd (wg_show (se_sys X) interface ''allowed-ips'') (\<lambda>assigned.
     bnd (lift (allocate_tunnel_ip (se_net X) assigned)) (\<lambda>tunnel.
     let tunnel_ip = net_show (se_net X) tunnel in
     bnd (wg_show (se_sys X) interface ''public-key'') (\<lambda>server_key.
     let s' = s\<lparr>records := records s @ [\<lparr>fr_public_key = public_key, fr_name = name, fr_private_key = Some private_key\<rparr>]\<rparr> in
     bnd (write_store (se_sys X) (se_json X) interface s') (\<lambda>_.
     bnd (with_rollback
            (bnd (wg_allow (se_sys X) interface public_key tunnel_ip) (\<lambda>_. save (se_sys X) interface))
            (bnd (wg_setconf (se_sys X) interface previous_config) (\<lambda>_.
             bnd (save (se_sys X) interface) (\<lambda>_.
             write_store (se_sys X) (se_json X) interface (s'\<lparr>records := butlast (records s')\<rparr>))))) (\<lambda>_.
     ret (format_profile private_key public_key (trim server_key) endpoint tunnel_ip)))))))))))))"

definition rename_record :: "string \<Rightarrow> string \<Rightarrow> friend_record list \<Rightarrow> friend_record list" where
  "rename_record public_key name rs =
     (if list_ex (\<lambda>r. fr_public_key r = public_key) rs
      then (let i = length (takeWhile (\<lambda>r. fr_public_key r \<noteq> public_key) rs) in rs[i := (rs ! i)\<lparr>fr_name := name\<rparr>])
      else rs @ [\<lparr>fr_public_key = public_key, fr_name = name, fr_private_key = None\<rparr>])"

definition rename_friend :: "'w server_env \<Rightarrow> string \<Rightarrow> string \<Rightarrow> string \<Rightarrow> ('w, unit) act" where
  "rename_friend X interface public_key name =
     bnd (load_store X interface) (\<lambda>s.
     bnd (peers X interface (owners s)) (\<lambda>active.
     bnd (lift (peer_shape s active public_key)) (\<lambda>current.
     bnd (require (current \<noteq> None) Friend_Inactive) (\<lambda>_.
     bnd (require (\<not> active_name X s active (Some public_key) name) Name_Taken) (\<lambda>_.
     write_store (se_sys X) (se_json X) interface (s\<lparr>records := rename_record public_key name (records s)\<rparr>))))))"

definition revoke_friend :: "'w server_env \<Rightarrow> string \<Rightarrow> string \<Rightarrow> ('w, unit) act" where
  "revoke_friend X interface public_key =
     bnd (load_store X interface) (\<lambda>s.
     bnd (peers X interface (owners s)) (\<lambda>active.
     bnd (lift (peer_shape s active public_key)) (\<lambda>shape.
     case shape of
       None \<Rightarrow>
         if list_ex (\<lambda>r. fr_public_key r = public_key) (records s) then save (se_sys X) interface
         else throw Friend_Not_Found
     | Some ip \<Rightarrow>
         bnd (wg_showconf (se_sys X) interface) (\<lambda>previous_config.
         let s' = (if list_ex (\<lambda>r. fr_public_key r = public_key) (records s) then s
                   else s\<lparr>records := records s @ [\<lparr>fr_public_key = public_key, fr_name = ip, fr_private_key = None\<rparr>]\<rparr>) in
         bnd (write_store (se_sys X) (se_json X) interface s') (\<lambda>_.
         with_rollback
           (bnd (wg_remove (se_sys X) interface public_key) (\<lambda>_. save (se_sys X) interface))
           (bnd (wg_setconf (se_sys X) interface previous_config) (\<lambda>_.
            bnd (save (se_sys X) interface) (\<lambda>_.
            write_store (se_sys X) (se_json X) interface s))))))))"

definition friend_profile :: "'w server_env \<Rightarrow> string \<Rightarrow> string \<Rightarrow> string \<Rightarrow> ('w, string) act" where
  "friend_profile X interface public_key endpoint =
     bnd (load_store X interface) (\<lambda>s.
     bnd (peers X interface (owners s)) (\<lambda>active.
     bnd (lift (peer_shape s active public_key)) (\<lambda>shape.
     bnd (lift (ok_or shape Friend_Inactive)) (\<lambda>ip.
     bnd (lift (ok_or (find_record s public_key) Profile_Unavailable)) (\<lambda>r.
     bnd (lift (ok_or (fr_private_key r) Profile_Unavailable)) (\<lambda>private_key.
     bnd (wg_show (se_sys X) interface ''public-key'') (\<lambda>server_key.
     bnd (wg_pubkey (se_sys X) private_key) (\<lambda>derived.
     bnd (require (trim derived = public_key) Profile_Unavailable) (\<lambda>_.
     ret (format_profile private_key public_key (trim server_key) endpoint ip))))))))))"

section \<open>Router owners\<close>

definition owner_routes :: "'w server_env \<Rightarrow> string \<Rightarrow> ipv4net \<Rightarrow> ('w, ipv4net list) act" where
  "owner_routes X interface tunnel =
     bnd (prepared X interface) (\<lambda>p.
     if p then
       bnd (lift (ok_or (source_address (net_addr tunnel)) Warp_Source)) (\<lambda>alias.
       ret [tunnel, \<lparr>net_addr = alias, net_prefix = 32\<rparr>])
     else ret [tunnel])"

text \<open>The rollback of an owner: the metadata is taken back only after WireGuard is restored.\<close>

definition with_owner_rollback :: "('w, unit) act \<Rightarrow> ('w, unit) act \<Rightarrow> ('w, unit) act \<Rightarrow> ('w, unit) act" where
  "with_owner_rollback body rollback after w =
     (case body w of
        (w', Inr u) \<Rightarrow> (w', Inr u)
      | (w', Inl e) \<Rightarrow>
          (case rollback w' of
             (w'', Inl e') \<Rightarrow> (w'', Inl (Rollback_Failed e e'))
           | (w'', Inr _) \<Rightarrow> bnd after (\<lambda>_. throw e) w''))"

definition add_router_peer :: "'w server_env \<Rightarrow> string \<Rightarrow> string \<Rightarrow> string \<Rightarrow> ('w, unit) act" where
  "add_router_peer X interface public_key tunnel_ip =
     bnd (lift (status_result (validate_peer_key public_key))) (\<lambda>_.
     bnd (lift (validate_tunnel_ip (se_net X) tunnel_ip)) (\<lambda>tunnel.
     bnd (owner_routes X interface tunnel) (\<lambda>routes.
     bnd (ensure_routes_available (se_sys X) (se_net X) interface public_key routes) (\<lambda>_.
     let route_text = join '','' (map (net_show (se_net X)) routes) in
     bnd (load_store X interface) (\<lambda>s.
     let existing = list_ex (\<lambda>k. k = public_key) (owners s) in
     bnd (if list_ex (\<lambda>r. fr_public_key r = public_key) (records s) then ret True
          else if existing then ret False
          else bnd (peers X interface (owners s)) (\<lambda>ps. ret (map_of ps public_key \<noteq> None))) (\<lambda>taken.
     bnd (require (\<not> taken) Cannot_Convert) (\<lambda>_.
     bnd (wg_showconf (se_sys X) interface) (\<lambda>previous_config.
     let s' = (if existing then s else s\<lparr>owners := owners s @ [public_key]\<rparr>) in
     bnd (write_store (se_sys X) (se_json X) interface s') (\<lambda>_.
     with_owner_rollback
       (bnd (wg_allow (se_sys X) interface public_key route_text) (\<lambda>_. save (se_sys X) interface))
       (bnd (wg_setconf (se_sys X) interface previous_config) (\<lambda>_. save (se_sys X) interface))
       (if existing then ret ()
        else write_store (se_sys X) (se_json X) interface (s'\<lparr>owners := butlast (owners s')\<rparr>)))))))))))"

definition create_router_profile :: "'w server_env \<Rightarrow> string \<Rightarrow> string \<Rightarrow> ('w, string) act" where
  "create_router_profile X interface endpoint =
     bnd (load_store X interface) (\<lambda>_.
     bnd (wg_genkey (se_sys X)) (\<lambda>generated.
     let private_key = trim generated in
     bnd (wg_pubkey (se_sys X) private_key) (\<lambda>derived.
     let public_key = trim derived in
     bnd (lift (status_result (validate_peer_key public_key))) (\<lambda>_.
     bnd (wg_show (se_sys X) interface ''allowed-ips'') (\<lambda>assigned.
     bnd (lift (allocate_tunnel_ip (se_net X) assigned)) (\<lambda>tunnel.
     let tunnel_ip = net_show (se_net X) tunnel in
     bnd (wg_show (se_sys X) interface ''public-key'') (\<lambda>server_key.
     bnd (add_router_peer X interface public_key tunnel_ip) (\<lambda>_.
     ret (format_profile private_key public_key (trim server_key) endpoint tunnel_ip)))))))))"

text \<open>One line of \<^verbatim>\<open>wg show allowed-ips\<close>: the key of an owner and the routes it gets.\<close>

definition warp_line :: "'w server_env \<Rightarrow> string \<Rightarrow> friend_store \<Rightarrow> string \<Rightarrow> ('w, (string \<times> string) option) act" where
  "warp_line X interface s line =
     (case split_whitespace line of
        [] \<Rightarrow> ret None
      | key # ws \<Rightarrow>
          if \<not> list_ex (\<lambda>k. k = key) (owners s) then ret None
          else
            (let routes = line_routes ws;
                 primary = List.map_filter (\<lambda>r. case validate_tunnel_ip (se_net X) r of Inr ip \<Rightarrow> Some ip | Inl _ \<Rightarrow> None) routes in
             case primary of
               [ip] \<Rightarrow>
                 bnd (lift (ok_or (source_address (net_addr ip)) Warp_Source)) (\<lambda>source.
                 let alias = \<lparr>net_addr = source, net_prefix = 32\<rparr>; alias_text = net_show (se_net X) alias in
                 if list_ex (\<lambda>r. r \<noteq> net_show (se_net X) ip \<and> r \<noteq> alias_text \<and> r \<noteq> CLIENT_SUBNET) routes then throw Owner_Routes
                 else
                   bnd (ensure_routes_available (se_sys X) (se_net X) interface key [alias]) (\<lambda>_.
                   let routes' = (if list_ex (\<lambda>r. r = alias_text) routes then routes else routes @ [alias_text]) in
                   ret (Some (key, join '','' routes'))))
             | _ \<Rightarrow> throw Owner_Address))"

primrec warp_lines :: "'w server_env \<Rightarrow> string \<Rightarrow> friend_store \<Rightarrow> string list \<Rightarrow> ('w, (string \<times> string) list) act" where
  "warp_lines X interface s [] = ret []"
| "warp_lines X interface s (l # ls) =
     bnd (warp_line X interface s l) (\<lambda>r.
     bnd (warp_lines X interface s ls) (\<lambda>rs.
     ret (case r of None \<Rightarrow> rs | Some e \<Rightarrow> e # rs)))"

definition warp_routes :: "'w server_env \<Rightarrow> string \<Rightarrow> ('w, (string \<times> string) list) act" where
  "warp_routes X interface =
     bnd (load_store X interface) (\<lambda>s.
     bnd (wg_show (se_sys X) interface ''allowed-ips'') (\<lambda>assigned.
     bnd (warp_lines X interface s (lines assigned)) (\<lambda>result.
     bnd (require (result \<noteq> []) No_Active_Owner) (\<lambda>_. ret result))))"

definition authorize_warp :: "'w server_env \<Rightarrow> string \<Rightarrow> ('w, unit) act" where
  "authorize_warp X interface =
     bnd (prepared X interface) (\<lambda>p.
     bnd (require p Warp_Not_Prepared) (\<lambda>_.
     bnd (warp_routes X interface) (\<lambda>routes.
     bnd (wg_showconf (se_sys X) interface) (\<lambda>previous.
     with_rollback
       (bnd (each (\<lambda>(key, r). bnd (wg_allow (se_sys X) interface key r) (\<lambda>_. ret ())) routes) (\<lambda>_. save (se_sys X) interface))
       (bnd (wg_setconf (se_sys X) interface previous) (\<lambda>_. save (se_sys X) interface))))))"

definition remove_router_peer :: "'w server_env \<Rightarrow> string \<Rightarrow> string \<Rightarrow> ('w, unit) act" where
  "remove_router_peer X interface public_key =
     bnd (load_store X interface) (\<lambda>s.
     bnd (lift (status_result (validate_peer_key public_key))) (\<lambda>_.
     bnd (require (list_ex (\<lambda>k. k = public_key) (owners s)) Owner_Not_Found) (\<lambda>_.
     bnd (wg_showconf (se_sys X) interface) (\<lambda>previous_config.
     with_rollback
       (bnd (wg_remove (se_sys X) interface public_key) (\<lambda>_. save (se_sys X) interface))
       (bnd (wg_setconf (se_sys X) interface previous_config) (\<lambda>_. save (se_sys X) interface))))))"

definition restart_vpn :: "'w server_env \<Rightarrow> string \<Rightarrow> ('w, unit) act" where
  "restart_vpn X interface =
     bnd (lift (interface_name interface)) (\<lambda>_.
     bnd (save (se_sys X) interface) (\<lambda>_.
     let service = ''wg-quick@'' @ interface @ ''.service'' in
     bnd (run (se_sys X) [''systemctl'', ''restart'', service]) (\<lambda>_.
     bnd (run (se_sys X) [''systemctl'', ''restart'', ''gofro-relay.service'']) (\<lambda>_.
     bnd (run (se_sys X) [''systemctl'', ''is-active'', ''--quiet'', service]) (\<lambda>_.
     bnd (run (se_sys X) [''systemctl'', ''is-active'', ''--quiet'', ''gofro-relay.service'']) (\<lambda>_. ret ()))))))"

section \<open>Lemmas\<close>

lemma set_clearjunk: "set (AList.clearjunk es) \<subseteq> set es"
proof (induction es rule: clearjunk.induct)
  case (2 p ps)
  then show ?case by (auto simp: AList.delete_eq)
qed simp

lemma set_btree_collect: "set (btree_collect es) \<subseteq> set es"
  using set_clearjunk[of "rev es"] by (simp add: btree_collect_def)

lemma friend_entry:
  assumes "map_of (peers_of N os out) key = Some (Friend ip)"
  shows "\<exists>r n. validate_tunnel_ip N r = Inr n \<and> ip = net_show N n"
proof -
  have "(key, Friend ip) \<in> set (List.map_filter (peer_entry N os) (lines out))"
    using map_of_SomeD[OF assms] set_btree_collect unfolding peers_of_def by blast
  then obtain l where "peer_entry N os l = Some (key, Friend ip)" by (auto simp: List.map_filter_def)
  then obtain rs where "classify_friend N rs = Friend ip"
    by (auto simp: peer_entry_def split: list.splits if_splits)
  then show ?thesis by (auto simp: classify_friend_def split: list.splits sum.splits)
qed

lemma map_filter_sub:
  assumes "\<And>x k. g x = Some k \<Longrightarrow> f x = Some k"
  shows "set (List.map_filter g xs) \<subseteq> set (List.map_filter f xs)"
    and "distinct (List.map_filter f xs) \<Longrightarrow> distinct (List.map_filter g xs)"
proof -
  show s: "set (List.map_filter g xs) \<subseteq> set (List.map_filter f xs)" for xs
    using assms by (auto simp: List.map_filter_def) force
  show "distinct (List.map_filter f xs) \<Longrightarrow> distinct (List.map_filter g xs)"
  proof (induction xs)
    case (Cons x xs)
    show ?case
    proof (cases "g x")
      case None
      then show ?thesis using Cons by (cases "f x") (simp_all add: List.map_filter_simps)
    next
      case (Some k)
      then show ?thesis using Cons assms[OF Some] s[of xs] by (auto simp: List.map_filter_simps)
    qed
  qed (simp add: List.map_filter_simps)
qed

lemma keeps_owner_rollback [wp]:
  "keeps J m \<Longrightarrow> keeps J n \<Longrightarrow> keeps J (l :: ('w, unit) act) \<Longrightarrow> keeps J (with_owner_rollback m n l)"
proof -
  assume m: "keeps J m" and n: "keeps J n" and l: "keeps J (l :: ('w, unit) act)"
  have l': "keeps J (bnd l (\<lambda>_. throw e :: ('w, unit) act))" for e by (intro wp l)
  show "keeps J (with_owner_rollback m n l)"
    unfolding keeps_def
  proof (intro allI impI)
    fix w assume "J w"
    then have a: "J (fst (m w))" using m by (simp add: keeps_def)
    then have b: "J (fst (n (fst (m w))))" using n by (simp add: keeps_def)
    then have "J (fst (bnd l (\<lambda>_. throw e :: ('w, unit) act) (fst (n (fst (m w))))))" for e
      using l' by (simp add: keeps_def)
    then show "J (fst (with_owner_rollback m n l w))"
      using a b by (auto simp: with_owner_rollback_def split: prod.splits sum.splits)
  qed
qed

end
