(* ===== verification/Server_Main.thy ===== *)
theory Server_Main
  imports Server_Managed
begin

text \<open>
  The command line of the server tool (\<^verbatim>\<open>main\<close> of \<^verbatim>\<open>gofro-server/src/main.rs\<close>): the lock, the checks
  before it and the operation of each command. The arguments after parsing by \<^verbatim>\<open>clap\<close> are the datatype
  \<open>server_command\<close>; standard input, the clock and the JSON of a friend request are inputs.
\<close>

unbundle bit_operations_syntax

datatype server_command =
    Add_Peer string string "string option"
  | Create_Profile string "string option" "string option"
  | Remove_Peer string "string option"
  | Create_Router_Profile string
  | Remove_Router_Peer string
  | Capabilities
  | Status
  | Managed_Status
  | Create_Friend string
  | Rename_Friend string
  | Revoke_Friend string
  | Friend_Profile string string
  | Restart_Vpn
  | Enable_Warp bool
  | Disable_Warp

datatype cli_output =
    No_Output
  | Text string
  | Peer_List "peer_status list"
  | Managed_List managed_server_status

record call =
  call_interface :: string
  call_stdin :: "string option"
  call_clock :: "nat option"
  call_friend_json :: "string \<Rightarrow> string option"
  call_v6 :: ipv6_text

section \<open>The lock\<close>

text \<open>\<^verbatim>\<open>mode & 0o022\<close>: write permission of the group or of others.\<close>

definition writable_by_others :: "file_meta \<Rightarrow> bool" where
  "writable_by_others m \<longleftrightarrow> perm m AND 18 \<noteq> 0"

definition mutating_lock :: "'w sys \<Rightarrow> ('w, unit) act" where
  "mutating_lock S =
     bnd (io_opt Lock_Io (fs_lstat S TUNNEL_LOCK)) (\<lambda>found.
     bnd (require (case found of
            None \<Rightarrow> True
          | Some m \<Rightarrow> \<not> (\<not> is_regular m \<or> owner m \<noteq> expected_uid \<or> writable_by_others m \<or> links m \<noteq> 1)) Unsafe_Lock) (\<lambda>_.
     bnd (io Lock_Io (fs_open_append S (found = None) TUNNEL_LOCK)) (\<lambda>opened.
     bnd (io Lock_Io (fs_lstat S TUNNEL_LOCK)) (\<lambda>named.
     bnd (require (\<not> (\<not> is_regular named \<or> inode opened \<noteq> inode named \<or> owner opened \<noteq> expected_uid \<or>
            writable_by_others opened \<or> links opened \<noteq> 1)) Unsafe_Lock) (\<lambda>_.
     bnd (io Lock_Io (fs_lock S TUNNEL_LOCK)) (\<lambda>_.
     bnd (io Lock_Io (fs_lstat S TUNNEL_LOCK)) (\<lambda>named.
     require (\<not> (inode opened \<noteq> inode named \<or> \<not> is_regular named)) Unsafe_Lock)))))))"

section \<open>Input\<close>

definition read_friend_name :: "call \<Rightarrow> server_error + string" where
  "read_friend_name c =
     (case call_stdin c of
        None \<Rightarrow> Inl Friend_Request
      | Some text \<Rightarrow>
          if FRIEND_NAME_INPUT_LIMIT < length (take (FRIEND_NAME_INPUT_LIMIT + 1) text) then Inl Friend_Request
          else and_then (ok_or (call_friend_json c text) Friend_Request) (\<lambda>name. status_result (validate_name name)))"

definition wireguard_peers :: "'w sys \<Rightarrow> call \<Rightarrow> ('w, peer_status list) act" where
  "wireguard_peers S c =
     bnd (wg_show S (call_interface c) ''dump'') (\<lambda>dump.
     bnd (lift (ok_or (call_clock c) Clock_Error)) (\<lambda>now.
     lift (status_result (parse_wireguard_dump dump (word_of_nat now)))))"

section \<open>Commands\<close>

definition add_peer_command :: "'w server_env \<Rightarrow> string \<Rightarrow> string \<Rightarrow> string \<Rightarrow> bool \<Rightarrow> ('w, unit) act" where
  "add_peer_command X interface public_key tunnel_ip as_owner =
     (if as_owner then add_router_peer X interface public_key tunnel_ip
      else add_peer (se_sys X) (se_net X) interface public_key tunnel_ip)"

definition create_profile :: "'w server_env \<Rightarrow> string \<Rightarrow> string \<Rightarrow> string option \<Rightarrow> string option \<Rightarrow> ('w, string) act" where
  "create_profile X interface endpoint tunnel subnet_arg =
     bnd (lift (validate_endpoint_arg endpoint)) (\<lambda>_.
     bnd (lift (legacy_owner subnet_arg)) (\<lambda>as_owner.
     bnd (case tunnel of
            Some ip \<Rightarrow> ret ip
          | None \<Rightarrow>
              bnd (wg_show (se_sys X) interface ''allowed-ips'') (\<lambda>assigned.
              bnd (lift (allocate_tunnel_ip (se_net X) assigned)) (\<lambda>n. ret (net_show (se_net X) n)))) (\<lambda>tunnel_ip.
     bnd (wg_genkey (se_sys X)) (\<lambda>private_key.
     bnd (wg_pubkey (se_sys X) private_key) (\<lambda>public_key.
     bnd (wg_show (se_sys X) interface ''public-key'') (\<lambda>server_key.
     bnd (add_peer_command X interface (trim public_key) tunnel_ip as_owner) (\<lambda>_.
     ret (format_profile (trim private_key) (trim public_key) (trim server_key) endpoint tunnel_ip))))))))"

definition printed :: "('w, string) act \<Rightarrow> ('w, cli_output) act" where
  "printed m = bnd m (\<lambda>t. ret (Text t))"

definition silent :: "('w, unit) act \<Rightarrow> ('w, cli_output) act" where
  "silent m = bnd m (\<lambda>_. ret No_Output)"

definition locked :: "'w server_env \<Rightarrow> ('w, 'a) act \<Rightarrow> ('w, 'a) act" where
  "locked X m = bnd (mutating_lock (se_sys X)) (\<lambda>_. m)"

definition server_main :: "'w server_env \<Rightarrow> call \<Rightarrow> server_command \<Rightarrow> ('w, cli_output) act" where
  "server_main X c cmd =
     (let S = se_sys X; i = call_interface c; root = (\<lambda>m. bnd (require_root S) (\<lambda>_. m)) in
      case cmd of
        Add_Peer public_key tunnel_ip subnet_arg \<Rightarrow>
          root (locked X
            (bnd (lift (legacy_owner subnet_arg)) (\<lambda>as_owner.
             bnd (add_peer_command X i public_key tunnel_ip as_owner) (\<lambda>_.
             ret (Text (''peer added: '' @ tunnel_ip @ '' via '' @ i @ nl))))))
      | Create_Profile endpoint tunnel subnet_arg \<Rightarrow>
          root (locked X (printed (create_profile X i endpoint tunnel subnet_arg)))
      | Remove_Peer public_key subnet_arg \<Rightarrow>
          root (locked X
            (bnd (lift (legacy_owner subnet_arg)) (\<lambda>as_owner.
             bnd (if as_owner then remove_router_peer X i public_key
                  else bnd (wg_remove S i public_key) (\<lambda>_. save S i)) (\<lambda>_.
             ret (Text (''peer removed: '' @ public_key @ nl))))))
      | Create_Router_Profile endpoint \<Rightarrow>
          root (bnd (lift (validate_managed_endpoint (call_v6 c) endpoint)) (\<lambda>_.
            locked X (printed (create_router_profile X i endpoint))))
      | Remove_Router_Peer public_key \<Rightarrow> root (locked X (silent (remove_router_peer X i public_key)))
      | Capabilities \<Rightarrow> ret (Text (''{\"owner_protocol\":2,\"warp_protocol\":1}'' @ nl))
      | Status \<Rightarrow> bnd (wireguard_peers S c) (\<lambda>ps. ret (Peer_List ps))
      | Managed_Status \<Rightarrow> root (locked X (bnd (server_status_op X i) (\<lambda>st. ret (Managed_List st))))
      | Create_Friend endpoint \<Rightarrow>
          root (bnd (lift (validate_managed_endpoint (call_v6 c) endpoint)) (\<lambda>_.
            bnd (lift (read_friend_name c)) (\<lambda>name. locked X (printed (create_friend X i endpoint name)))))
      | Rename_Friend public_key \<Rightarrow>
          root (bnd (lift (read_friend_name c)) (\<lambda>name. locked X (silent (rename_friend X i public_key name))))
      | Revoke_Friend public_key \<Rightarrow> root (locked X (silent (revoke_friend X i public_key)))
      | Friend_Profile public_key endpoint \<Rightarrow>
          root (bnd (lift (validate_managed_endpoint (call_v6 c) endpoint)) (\<lambda>_.
            locked X (printed (friend_profile X i public_key endpoint))))
      | Restart_Vpn \<Rightarrow> root (locked X (silent (restart_vpn X i)))
      | Enable_Warp accept_terms \<Rightarrow>
          root (bnd (require accept_terms Terms_Not_Accepted) (\<lambda>_.
            locked X (silent
              (bnd (warp_routes X i) (\<lambda>_.
               bnd (warp_command X ''enable'' i) (\<lambda>_.
               authorize_warp X i))))))
      | Disable_Warp \<Rightarrow> root (locked X (silent (warp_command X ''disable'' i))))"

end
