(* ===== verification/Server_Safety.thy ===== *)
theory Server_Safety
  imports Server_Main
begin

text \<open>
  What a command of the server tool leaves behind when it fails: the WireGuard configuration it found. The
  locale \<open>wg_machine\<close> states the documented behaviour of \<^verbatim>\<open>wg\<close> and \<^verbatim>\<open>wg-quick\<close> that this needs.
\<close>

section \<open>The contract of wg\<close>

text \<open>The commands that only read the live configuration; \<^verbatim>\<open>wg-quick save\<close> writes the boot file only.\<close>

definition read_only :: "string list \<Rightarrow> bool" where
  "read_only args \<longleftrightarrow>
     take 2 args \<in> {[''wg'', ''show''], [''wg'', ''showconf''], [''wg'', ''genkey''], [''wg'', ''pubkey''],
       [''wg-quick'', ''save''], [''id'', ''-u''], [WARP_HELPER, ''status'']}"

locale wg_machine =
  fixes X :: "'w server_env" and i :: string and live :: "'w \<Rightarrow> 'k" and conf_text :: "'k \<Rightarrow> string"
  assumes reading: "read_only args \<Longrightarrow> live (fst (sys_command (se_sys X) args inp w)) = live w"
    and showconf: "sys_command (se_sys X) [''wg'', ''showconf'', i] None w = (w', Some out) \<Longrightarrow> out = conf_text (live w)"
    and setconf: "sys_command (se_sys X) [''wg'', ''setconf'', i, ''/dev/stdin''] (Some (conf_text k)) w = (w', Some out) \<Longrightarrow> live w' = k"
    and lstat: "live (fst (fs_lstat (se_sys X) p w)) = live w" and exists: "live (fst (fs_exists (se_sys X) p w)) = live w"
    and opened: "live (fst (fs_open (se_sys X) p w)) = live w" and read_text: "live (fst (fs_read_text (se_sys X) p w)) = live w"
    and open_append: "live (fst (fs_open_append (se_sys X) b p w)) = live w" and lock: "live (fst (fs_lock (se_sys X) p w)) = live w"
    and mkdir: "live (fst (fs_mkdir (se_sys X) p w)) = live w" and create_new: "live (fst (fs_create_new (se_sys X) p w)) = live w"
    and append: "live (fst (fs_append (se_sys X) p d w)) = live w" and sync: "live (fst (fs_sync (se_sys X) p w)) = live w"
    and rename: "live (fst (fs_rename (se_sys X) p q w)) = live w" and remove: "live (fst (fs_remove (se_sys X) p w)) = live w"
begin

text \<open>Everything but the commands that set peers keeps the live configuration.\<close>

abbreviation same :: "'k \<Rightarrow> 'w \<Rightarrow> bool" where "same k w \<equiv> live w = k"

lemmas file_facts = lstat exists opened read_text open_append lock mkdir create_new append sync rename remove

lemma keeps_files:
  "keeps (same k) (io e (fs_lstat (se_sys X) p))" "keeps (same k) (io_opt e (fs_lstat (se_sys X) p))" "keeps (same k) (observe (fs_lstat (se_sys X) p))"
  "keeps (same k) (observe (fs_exists (se_sys X) p))" "keeps (same k) (io e (fs_open (se_sys X) p))" "keeps (same k) (io e (fs_read_text (se_sys X) p))"
  "keeps (same k) (io e (fs_open_append (se_sys X) b p))" "keeps (same k) (io e (fs_lock (se_sys X) p))" "keeps (same k) (io e (fs_mkdir (se_sys X) p))"
  "keeps (same k) (io e (fs_create_new (se_sys X) p))" "keeps (same k) (io e (fs_append (se_sys X) p d))" "keeps (same k) (io e (fs_sync (se_sys X) p))"
  "keeps (same k) (io e (fs_rename (se_sys X) p q))"
  by (auto intro!: keeps_io keeps_io_opt keeps_observe simp: file_facts)

lemma keeps_reading: "read_only args \<Longrightarrow> keeps (same k) (run (se_sys X) args)"
  and keeps_reading_input: "read_only args \<Longrightarrow> keeps (same k) (run_with_input (se_sys X) args inp)"
  using reading by (auto intro!: keeps_run keeps_run_with_input)

lemma keeps_commands:
  "keeps (same k) (wg_show (se_sys X) i what)" "keeps (same k) (wg_showconf (se_sys X) i)" "keeps (same k) (wg_genkey (se_sys X))"
  "keeps (same k) (wg_pubkey (se_sys X) key)" "keeps (same k) (save (se_sys X) i)" "keeps (same k) (require_root (se_sys X))"
  "keeps (same k) (run (se_sys X) [WARP_HELPER, ''status'', i])"
  unfolding wg_show_def wg_showconf_def wg_genkey_def wg_pubkey_def save_def require_root_def
  by (auto intro!: keeps_reading keeps_reading_input wp simp: read_only_def)

lemmas keeps_all = wp keeps_files keeps_commands

lemma keeps_validate: "keeps (same k) (validate_directory (se_sys X) p)" "keeps (same k) (validate_file (se_sys X) p)"
  unfolding validate_directory_def validate_file_def by (auto intro!: keeps_all)

lemma keeps_read_store: "keeps (same k) (read_store (se_sys X) J i)"
  unfolding read_store_def read_store_path_def Let_def by (auto intro!: keeps_all keeps_validate)

lemma keeps_write_store: "keeps (same k) (write_store (se_sys X) J i s)"
  unfolding write_store_def write_store_path_def publish_def Let_def
  by (auto intro!: keeps_all keeps_validate simp: remove)

lemma keeps_lock: "keeps (same k) (mutating_lock (se_sys X))"
  unfolding mutating_lock_def by (auto intro!: keeps_all)

lemma keeps_routes: "keeps (same k) (ensure_routes_available (se_sys X) N i key routes)"
  unfolding ensure_routes_available_def by (auto intro!: keeps_all)

lemma keeps_peers: "keeps (same k) (peers X i os)"
  unfolding peers_def by (auto intro!: keeps_all)

lemma keeps_load_store: "keeps (same k) (load_store X i)"
  unfolding load_store_def migrate_def Let_def
  by (auto intro!: keeps_all keeps_read_store keeps_write_store keeps_peers)

lemma keeps_prepared: "keeps (same k) (prepared X i)"
  unfolding prepared_def by (auto intro!: keeps_all)

lemma keeps_warp_status: "keeps (same k) (warp_status_of X i)"
  unfolding warp_status_of_def by (auto intro!: keeps_all keeps_prepared)

lemma keeps_owner_routes: "keeps (same k) (owner_routes X i n)"
  unfolding owner_routes_def by (auto intro!: keeps_all keeps_prepared)

lemmas keeps_parts = keeps_all keeps_lock keeps_routes keeps_peers keeps_load_store keeps_write_store keeps_prepared
  keeps_warp_status keeps_owner_routes

section \<open>Failing safely\<close>

text \<open>An error other than a failed rollback leaves the configuration as it was.\<close>

definition safe :: "'k \<Rightarrow> ('w, 'a) act \<Rightarrow> bool" where
  "safe k m \<longleftrightarrow> triple (same k) m (\<lambda>_ _. True) (\<lambda>e w. (\<exists>a b. e = Rollback_Failed a b) \<or> live w = k)"

lemma safe_keeps: "keeps (same k) m \<Longrightarrow> safe k m"
  unfolding safe_def keeps_triple by (erule triple_weaken) auto

lemma safe_bnd: "keeps (same k) m \<Longrightarrow> (\<And>x. safe k (f x)) \<Longrightarrow> safe k (bnd m f)"
  unfolding safe_def keeps_triple
  by (rule triple_bnd[where R = "\<lambda>_. same k"], erule triple_weaken) auto

lemma safe_bnd_ret: "safe k m \<Longrightarrow> safe k (bnd m (\<lambda>x. ret (g x)))"
  unfolding safe_def by (rule triple_bnd[where R = "\<lambda>_ _. True"]) (auto simp: triple_def ret_def)

lemma safe_if: "(b \<Longrightarrow> safe k m) \<Longrightarrow> (\<not> b \<Longrightarrow> safe k n) \<Longrightarrow> safe k (if b then m else n)"
  and safe_option: "safe k m \<Longrightarrow> (\<And>x. safe k (f x)) \<Longrightarrow> safe k (case r of None \<Rightarrow> m | Some x \<Rightarrow> f x)"
  and safe_ret: "safe k (ret y)"
  by (simp_all split: option.splits add: safe_keeps wp)

lemma safe_showconf:
  assumes "safe k (f (conf_text k))"
  shows "safe k (bnd (wg_showconf (se_sys X) i) f)"
  unfolding safe_def
proof (rule triple_bnd[where R = "\<lambda>out w. live w = k \<and> out = conf_text k"])
  have "keeps (same k) (wg_showconf (se_sys X) i)" by (rule keeps_commands)
  then show "triple (same k) (wg_showconf (se_sys X) i) (\<lambda>out w. live w = k \<and> out = conf_text k)
      (\<lambda>e w. (\<exists>a b. e = Rollback_Failed a b) \<or> live w = k)"
    using showconf
    by (auto simp: keeps_def triple_def wg_showconf_def run_def split: prod.splits option.splits)
  show "triple (\<lambda>w. live w = k \<and> out = conf_text k) (f out) (\<lambda>_ _. True) (\<lambda>e w. (\<exists>a b. e = Rollback_Failed a b) \<or> live w = k)" for out
    using assms by (auto simp: safe_def triple_def)
qed

lemma setconf_then:
  assumes "keeps (same k) m"
  shows "triple (\<lambda>_. True) (bnd (wg_setconf (se_sys X) i (conf_text k)) (\<lambda>_. m)) (\<lambda>_ w. live w = k) (\<lambda>_ _. True)"
proof (rule triple_bnd[where R = "\<lambda>_ w. live w = k"])
  show "triple (\<lambda>_. True) (wg_setconf (se_sys X) i (conf_text k)) (\<lambda>_ w. live w = k) (\<lambda>_ _. True)"
    using setconf by (auto simp: triple_def wg_setconf_def run_with_input_def split: prod.splits option.splits)
  show "triple (same k) m (\<lambda>_ w. live w = k) (\<lambda>_ _. True)"
    using assms unfolding keeps_triple by (rule triple_weaken) auto
qed

lemma safe_rollback:
  assumes "keeps (same k) m"
  shows "safe k (with_rollback body (bnd (wg_setconf (se_sys X) i (conf_text k)) (\<lambda>_. m)))"
proof -
  have body: "triple (\<lambda>_. True) body (\<lambda>_ _. True) (\<lambda>_ _. True)"
    by (simp add: triple_def split: prod.splits sum.splits)
  show ?thesis
    unfolding safe_def by (rule triple_weaken[OF triple_with_rollback[OF body setconf_then[OF assms]]]) auto
qed

lemma safe_owner_rollback:
  assumes m: "keeps (same k) m" and after: "keeps (same k) after"
  shows "safe k (with_owner_rollback body (bnd (wg_setconf (se_sys X) i (conf_text k)) (\<lambda>_. m)) after)"
  unfolding safe_def triple_def
proof (intro allI impI)
  fix w
  let ?rollback = "bnd (wg_setconf (se_sys X) i (conf_text k)) (\<lambda>_. m)"
  obtain w' r where b: "body w = (w', r)" by (cases "body w")
  obtain w'' r' where rb: "?rollback w' = (w'', r')" by (cases "?rollback w'")
  have fin: "live (fst (bnd after (\<lambda>_. throw e :: ('w, unit) act) w'')) = k" if "live w'' = k" for e
    using that keeps_bnd[OF after, of "\<lambda>_. throw e :: ('w, unit) act", OF keeps_throw] by (simp add: keeps_def)
  show "case with_owner_rollback body ?rollback after w of (w', Inl e) \<Rightarrow> (\<exists>a b. e = Rollback_Failed a b) \<or> live w' = k
    | (w', Inr x) \<Rightarrow> True"
  proof (cases r)
    case (Inr u)
    then show ?thesis by (simp add: with_owner_rollback_def b)
  next
    case (Inl e)
    show ?thesis
    proof (cases r')
      case (Inl e')
      then show ?thesis using \<open>r = Inl e\<close> by (simp add: with_owner_rollback_def b rb)
    next
      case (Inr u)
      then have "live w'' = k" using tripleD_ok[OF setconf_then[OF m] _ rb[unfolded Inr]] by simp
      from fin[OF this, of e] show ?thesis
        using Inr \<open>r = Inl e\<close>
        by (cases "bnd after (\<lambda>_. throw e :: ('w, unit) act) w''")
          (auto simp: with_owner_rollback_def b rb split: sum.splits)
    qed
  qed
qed

lemmas safe_rules = safe_showconf safe_rollback safe_owner_rollback safe_bnd safe_if safe_option safe_ret

lemma safe_add_peer: "safe k (add_peer (se_sys X) N i key ip)"
  unfolding add_peer_def by (intro safe_rules keeps_parts)

lemma safe_create_friend: "safe k (create_friend X i endpoint name)"
  unfolding create_friend_def Let_def by (intro safe_rules safe_bnd_ret keeps_parts)

lemma safe_rename_friend: "safe k (rename_friend X i key name)"
  unfolding rename_friend_def by (intro safe_keeps keeps_parts)

lemma safe_revoke_friend: "safe k (revoke_friend X i key)"
  unfolding revoke_friend_def Let_def by (intro safe_rules safe_keeps keeps_parts)

lemma safe_friend_profile: "safe k (friend_profile X i key endpoint)"
  unfolding friend_profile_def by (intro safe_keeps keeps_parts)

lemma safe_add_router_peer: "safe k (add_router_peer X i key ip)"
  unfolding add_router_peer_def Let_def by (intro safe_rules keeps_parts)

lemma safe_create_router_profile: "safe k (create_router_profile X i endpoint)"
  unfolding create_router_profile_def Let_def by (intro safe_bnd safe_bnd_ret safe_add_router_peer keeps_parts)

lemma safe_remove_router_peer: "safe k (remove_router_peer X i key)"
  unfolding remove_router_peer_def by (intro safe_rules keeps_parts)

lemma keeps_warp_line: "keeps (same k) (warp_line X i s line)"
  unfolding warp_line_def Let_def by (auto intro!: keeps_parts split: list.splits)

lemma keeps_warp_lines: "keeps (same k) (warp_lines X i s ls)"
  by (induction ls) (simp_all add: keeps_parts keeps_warp_line)

lemma keeps_warp_routes: "keeps (same k) (warp_routes X i)"
  unfolding warp_routes_def by (intro keeps_parts keeps_warp_lines)

lemma safe_authorize_warp: "safe k (authorize_warp X i)"
  unfolding authorize_warp_def by (intro safe_rules keeps_parts keeps_warp_routes)

lemma safe_add_peer_command: "safe k (add_peer_command X i key ip own)"
  unfolding add_peer_command_def by (intro safe_if safe_add_peer safe_add_router_peer)

lemma safe_create_profile: "safe k (create_profile X i endpoint tunnel subnet_arg)"
  unfolding create_profile_def by (intro safe_bnd safe_bnd_ret safe_add_peer_command keeps_parts)

lemma safe_status: "safe k (server_status_op X i)"
  unfolding server_status_op_def by (intro safe_keeps keeps_parts)

end

section \<open>Commands of its own\<close>

text \<open>The external commands that a command of the tool runs outside every rollback, in order.\<close>

definition own_steps :: "string \<Rightarrow> server_command \<Rightarrow> string list list" where
  "own_steps i cmd =
     (case cmd of
        Remove_Peer key None \<Rightarrow> [[''wg'', ''set'', i, ''peer'', key, ''remove'']]
      | Restart_Vpn \<Rightarrow>
          [[''systemctl'', ''restart'', ''wg-quick@'' @ i @ ''.service''], [''systemctl'', ''restart'', ''gofro-relay.service''],
           [''systemctl'', ''is-active'', ''--quiet'', ''wg-quick@'' @ i @ ''.service''],
           [''systemctl'', ''is-active'', ''--quiet'', ''gofro-relay.service'']]
      | Enable_Warp _ \<Rightarrow> [[WARP_HELPER, ''enable'', i]]
      | Disable_Warp \<Rightarrow> [[WARP_HELPER, ''disable'', i]]
      | _ \<Rightarrow> [])"

text \<open>What a first part of such a list of commands, and nothing else, makes of a live configuration.\<close>

primrec driven :: "'w sys \<Rightarrow> ('w \<Rightarrow> 'k) \<Rightarrow> string list list \<Rightarrow> 'k \<Rightarrow> 'k set" where
  "driven S live [] k = {k}"
| "driven S live (a # as) k = insert k (\<Union>w\<in>{w. live w = k}. driven S live as (live (fst (sys_command S a None w))))"

lemma driven_start: "k \<in> driven S live as k"
  by (cases as) simp_all

context wg_machine
begin

definition ends_in :: "string list list \<Rightarrow> 'k \<Rightarrow> ('w, 'a) act \<Rightarrow> bool" where
  "ends_in as k m \<longleftrightarrow> triple (same k) m (\<lambda>_ _. True) (\<lambda>e w. (\<exists>a b. e = Rollback_Failed a b) \<or> live w \<in> driven (se_sys X) live as k)"

lemma ends_safe: "safe k m \<Longrightarrow> ends_in as k m"
  unfolding safe_def ends_in_def by (erule triple_weaken) (auto simp: driven_start)

lemma ends_keeps: "keeps (same k) m \<Longrightarrow> (\<And>x. ends_in as k (f x)) \<Longrightarrow> ends_in as k (bnd m f)"
  unfolding ends_in_def keeps_triple
  by (rule triple_bnd[where R = "\<lambda>_. same k"], erule triple_weaken) (auto simp: driven_start)

lemma ends_ret: "ends_in as k m \<Longrightarrow> ends_in as k (bnd m (\<lambda>x. ret (g x)))"
  unfolding ends_in_def by (rule triple_bnd[where R = "\<lambda>_ _. True"]) (auto simp: triple_def ret_def)

lemma ends_run:
  assumes "\<And>k x. ends_in as k (f x)"
  shows "ends_in (a # as) k (bnd (run (se_sys X) a) f)"
  unfolding ends_in_def triple_def
proof (intro allI impI)
  fix w assume w: "live w = k"
  obtain w1 out where c: "sys_command (se_sys X) a None w = (w1, out)" by (metis surj_pair)
  have reach: "driven (se_sys X) live as (live w1) \<subseteq> driven (se_sys X) live (a # as) k"
    using w c by (auto intro!: exI[of _ w])
  show "case bnd (run (se_sys X) a) f w of (w', Inr x) \<Rightarrow> True
      | (w', Inl e) \<Rightarrow> (\<exists>a b. e = Rollback_Failed a b) \<or> live w' \<in> driven (se_sys X) live (a # as) k"
  proof (cases out)
    case None
    then have "bnd (run (se_sys X) a) f w = (w1, Inl (Command_Failed a))" using c by (simp add: bnd_def run_def)
    then show ?thesis using subsetD[OF reach driven_start] by simp
  next
    case (Some x)
    then have "bnd (run (se_sys X) a) f w = f x w1" using c by (simp add: bnd_def run_def)
    moreover have "case f x w1 of (w', Inr x) \<Rightarrow> True
        | (w', Inl e) \<Rightarrow> (\<exists>a b. e = Rollback_Failed a b) \<or> live w' \<in> driven (se_sys X) live as (live w1)"
      using assms[of "live w1" x] by (simp add: ends_in_def triple_def)
    ultimately show ?thesis using reach by (auto simp del: driven.simps split: prod.splits sum.splits)
  qed
qed

lemma ends_main: "ends_in (own_steps i cmd) k (server_main X (c\<lparr>call_interface := i\<rparr>) cmd)"
proof (cases "own_steps i cmd = []")
  case True
  have "safe k (server_main X (c\<lparr>call_interface := i\<rparr>) cmd)"
  proof (cases cmd)
    case (Remove_Peer key subnet_arg)
    with True obtain s where s: "subnet_arg = Some s" by (cases subnet_arg) (simp_all add: own_steps_def)
    show ?thesis
    proof (cases "s = CLIENT_SUBNET")
      case True
      then show ?thesis
        by (simp add: Remove_Peer s server_main_def Let_def locked_def legacy_owner_def bnd_lift)
          (intro safe_bnd keeps_parts safe_bnd_ret safe_remove_router_peer)
    next
      case False
      then show ?thesis
        by (simp add: Remove_Peer s server_main_def Let_def locked_def legacy_owner_def bnd_lift_error)
          (intro safe_keeps keeps_parts)
    qed
  qed (use True in \<open>auto simp: server_main_def Let_def locked_def printed_def silent_def own_steps_def wireguard_peers_def
      intro!: safe_bnd safe_bnd_ret safe_add_peer_command safe_create_profile safe_create_friend safe_rename_friend
        safe_revoke_friend safe_friend_profile safe_create_router_profile safe_remove_router_peer safe_status safe_ret safe_keeps[OF keeps_lift]
        keeps_parts\<close>)
  then show ?thesis by (rule ends_safe)
next
  case False
  note unfolded = server_main_def Let_def locked_def silent_def own_steps_def legacy_owner_def bnd_lift wg_remove_def
    restart_vpn_def warp_command_def bnd_assoc bnd_ret
  show ?thesis
  proof (cases cmd)
    case (Remove_Peer key subnet_arg)
    with False have "subnet_arg = None" by (cases subnet_arg) (simp_all add: own_steps_def)
    then show ?thesis
      unfolding Remove_Peer
      by (simp add: unfolded) (intro ends_keeps[OF keeps_commands(6)] ends_keeps[OF keeps_lock] ends_run ends_safe[OF safe_keeps] keeps_parts)
  next
    case Restart_Vpn
    then show ?thesis
      by (simp add: unfolded)
        (intro ends_keeps[OF keeps_commands(6)] ends_keeps[OF keeps_lock] ends_keeps[OF keeps_lift] ends_keeps[OF keeps_commands(5)]
          ends_run ends_safe[OF safe_ret])
  next
    case (Enable_Warp accept_terms)
    then show ?thesis
      by (simp add: unfolded)
        (intro ends_keeps[OF keeps_commands(6)] ends_keeps[OF keeps_lock] ends_keeps[OF keeps_require] ends_keeps[OF keeps_warp_routes]
          ends_run ends_ret ends_safe[OF safe_authorize_warp])
  next
    case Disable_Warp
    then show ?thesis
      by (simp add: unfolded) (intro ends_keeps[OF keeps_commands(6)] ends_keeps[OF keeps_lock] ends_run ends_safe[OF safe_ret])
  qed (use False in \<open>simp_all add: own_steps_def\<close>)
qed

end

section \<open>The property\<close>

text \<open>C9: A command of the server tool that ends with an error leaves the live WireGuard configuration
  exactly as it found it, unless the error says that the rollback itself failed: whichever step fails,
  adding, creating, revoking, renaming or removing a managed peer is all or nothing. The exceptions are
  named by \<open>own_steps\<close>: after a plain \<^verbatim>\<open>remove-peer\<close>, a restart and the two commands for WARP, the live
  configuration is what a first part of the external commands listed there made of the one before, and
  what followed them is rolled back.\<close>

theorem failed_command_restores_wireguard:
  assumes "wg_machine X (call_interface c) live conf_text" and "server_main X c cmd w = (w', Inl e)"
  shows "(\<exists>a b. e = Rollback_Failed a b) \<or>
    (if own_steps (call_interface c) cmd = [] then live w' = live w
     else live w' \<in> driven (se_sys X) live (own_steps (call_interface c) cmd) (live w))"
  using tripleD_error[OF wg_machine.ends_main[OF assms(1), of cmd "live w" c,
        unfolded wg_machine.ends_in_def[OF assms(1)]] refl] assms(2)
  by (cases "own_steps (call_interface c) cmd = []") auto

end
