(* ===== verification/Server_Metadata.thy ===== *)
theory Server_Metadata
  imports Server_Main Profile_Link
begin

text \<open>
  The metadata file of a managed server over all commands of the tool: it stays readable, its keys stay
  distinct, and an owner once recorded stays recorded, so that no restored WireGuard configuration turns a
  router owner into a friend.
\<close>

section \<open>The contract of the files and of wg\<close>

text \<open>The metadata as the next command will read it.\<close>

definition metadata :: "store_json \<Rightarrow> bytes option \<Rightarrow> friend_store option" where
  "metadata J content =
     (case content of
        None \<Rightarrow> Some empty_store
      | Some b \<Rightarrow> (case parse_store J (take (STORE_LIMIT + 1) b) of Inr s \<Rightarrow> Some s | Inl _ \<Rightarrow> None))"

definition store_keys :: "friend_store \<Rightarrow> string set" where
  "store_keys s = fr_public_key ` set (records s) \<union> set (owners s)"

definition listed_keys :: "string \<Rightarrow> string list" where
  "listed_keys output = List.map_filter (\<lambda>l. case split_whitespace l of [] \<Rightarrow> None | k # _ \<Rightarrow> Some k) (lines output)"

definition metadata_path :: "string \<Rightarrow> string" where
  "metadata_path i = FRIENDS_DIR @ ''/'' @ i @ ''.json''"

text \<open>Any number of commands, each on the machine the one before left, whatever their results.\<close>

primrec after_commands :: "'w server_env \<Rightarrow> (call \<times> server_command) list \<Rightarrow> 'w \<Rightarrow> 'w" where
  "after_commands X [] w = w"
| "after_commands X (c # cs) w = after_commands X cs (fst (server_main X (fst c) (snd c) w))"

text \<open>The programs that the tool runs. None of them writes the metadata; \<^verbatim>\<open>wg-quick save\<close> and the WARP helper write other files.\<close>

definition tool_programs :: "string set" where
  "tool_programs = {''id'', ''wg'', ''wg-quick'', ''systemctl'', WARP_HELPER}"

locale metadata_machine = json_laws "se_json X" + ipnet_text_laws "se_net X" for X :: "'w server_env" +
  fixes i :: string and content :: "'w \<Rightarrow> string \<Rightarrow> bytes option"
  assumes version_2: "js_schema (se_json X) b = Some 2 \<Longrightarrow> js_store (se_json X) b = Some s \<Longrightarrow> schema s = 2"
    and version_1: "js_schema (se_json X) b = Some 1 \<Longrightarrow> js_legacy (se_json X) b = Some (n, rs) \<Longrightarrow> n = 1"
    and commands: "p \<in> tool_programs \<Longrightarrow>
          content (fst (sys_command (se_sys X) (p # args) inp w)) (metadata_path i) = content w (metadata_path i)"
    and lstat: "content (fst (fs_lstat (se_sys X) p w)) = content w"
    and lstat_missing: "fs_lstat (se_sys X) p w = (w', Missing) \<Longrightarrow> content w p = None"
    and exists: "content (fst (fs_exists (se_sys X) p w)) = content w"
    and opened: "content (fst (fs_open (se_sys X) p w)) = content w"
    and opened_content: "fs_open (se_sys X) p w = (w', Io_Ok (m, b)) \<Longrightarrow> content w p = Some b"
    and read_text: "content (fst (fs_read_text (se_sys X) p w)) = content w"
    and open_append: "p = TUNNEL_LOCK \<Longrightarrow> q \<noteq> p \<Longrightarrow> content (fst (fs_open_append (se_sys X) f p w)) q = content w q"
    and lock: "content (fst (fs_lock (se_sys X) p w)) = content w"
    and mkdir: "content (fst (fs_mkdir (se_sys X) p w)) q = content w q"
    and create_new: "q \<noteq> p \<Longrightarrow> content (fst (fs_create_new (se_sys X) p w)) q = content w q"
    and created: "fs_create_new (se_sys X) p w = (w', Io_Ok u) \<Longrightarrow> content w' p = Some []"
    and append: "q \<noteq> p \<Longrightarrow> content (fst (fs_append (se_sys X) p bs w)) q = content w q"
    and appended: "fs_append (se_sys X) p bs w = (w', Io_Ok u) \<Longrightarrow> content w p = Some b \<Longrightarrow> content w' p = Some (b @ bs)"
    and sync: "content (fst (fs_sync (se_sys X) p w)) = content w"
    and renamed: "fs_rename (se_sys X) p q w = (w', Io_Ok u) \<Longrightarrow> content w' q = content w p"
    and not_renamed: "fs_rename (se_sys X) p q w = (w', Missing) \<or> fs_rename (se_sys X) p q w = (w', Io_Failed) \<Longrightarrow>
          content w' q = content w q"
    and remove: "q \<noteq> p \<Longrightarrow> content (fst (fs_remove (se_sys X) p w)) q = content w q"
    and genkey: "sys_command (se_sys X) [''wg'', ''genkey''] None w = (w', Some g) \<Longrightarrow> wireguard_key (trim g)"
    and fresh: "sys_command (se_sys X) [''wg'', ''genkey''] None w = (w', Some g) \<Longrightarrow>
          sys_command (se_sys X) [''wg'', ''pubkey''] (Some (trim g)) w' = (w'', Some d) \<Longrightarrow>
          metadata (se_json X) (content w (metadata_path i)) = Some s \<Longrightarrow> trim d \<notin> store_keys s"
    and listed: "sys_command (se_sys X) [''wg'', ''show'', i, ''allowed-ips''] None w = (w', Some out) \<Longrightarrow> distinct (listed_keys out)"
begin

abbreviation meta :: "'w \<Rightarrow> friend_store option" where
  "meta w \<equiv> metadata (se_json X) (content w (metadata_path i))"

text \<open>A fact about the content of the metadata file.\<close>

definition about :: "(bytes option \<Rightarrow> bool) \<Rightarrow> 'w \<Rightarrow> bool" where
  "about I w \<longleftrightarrow> I (content w (metadata_path i))"

text \<open>The invariant: readable, valid, and with at least the owners \<open>Os\<close>; and exact knowledge.\<close>

definition good :: "string set \<Rightarrow> bytes option \<Rightarrow> bool" where
  "good Os c \<longleftrightarrow> (\<exists>s. metadata (se_json X) c = Some s \<and> store_valid s \<and> Os \<subseteq> set (owners s))"

definition exactly :: "friend_store \<Rightarrow> bytes option \<Rightarrow> bool" where
  "exactly s c \<longleftrightarrow> metadata (se_json X) c = Some s"

lemma path_differs: "temporary_path S i \<noteq> metadata_path i" "TUNNEL_LOCK \<noteq> metadata_path i"
proof -
  have "length (temporary_path S i) > length (metadata_path i)"
    by (simp add: temporary_path_def metadata_path_def)
  then show "temporary_path S i \<noteq> metadata_path i" by auto
  show "TUNNEL_LOCK \<noteq> metadata_path i" by (simp add: TUNNEL_LOCK_def metadata_path_def FRIENDS_DIR_def)
qed

text \<open>A fact about the metadata file is kept by everything but the writer.\<close>

lemma keeps_metadata:
  "keeps (about I) (io e (fs_lstat (se_sys X) p))" "keeps (about I) (io_opt e (fs_lstat (se_sys X) p))"
  "keeps (about I) (observe (fs_lstat (se_sys X) p))" "keeps (about I) (observe (fs_exists (se_sys X) p))"
  "keeps (about I) (io e (fs_open (se_sys X) p))" "keeps (about I) (io e (fs_read_text (se_sys X) p))"
  "keeps (about I) (io e (fs_open_append (se_sys X) f TUNNEL_LOCK))" "keeps (about I) (io e (fs_lock (se_sys X) p))"
  "keeps (about I) (io e (fs_mkdir (se_sys X) p))" "keeps (about I) (io e (fs_sync (se_sys X) p))"
  "keeps (about I) (io e (fs_create_new (se_sys X) (temporary_path S i)))"
  "keeps (about I) (io e (fs_append (se_sys X) (temporary_path S i) d))"
  "keeps (about I) (run (se_sys X) (''id'' # args))" "keeps (about I) (run (se_sys X) (''wg'' # args))"
  "keeps (about I) (run (se_sys X) (''wg-quick'' # args))" "keeps (about I) (run (se_sys X) (''systemctl'' # args))"
  "keeps (about I) (run (se_sys X) (WARP_HELPER # args))" "keeps (about I) (run_with_input (se_sys X) (''wg'' # args) inp)"
  unfolding about_def
  by (auto intro!: keeps_io keeps_io_opt keeps_observe keeps_run keeps_run_with_input
      simp: lstat exists opened read_text open_append lock mkdir sync create_new append commands tool_programs_def path_differs[symmetric])

lemma keeps_metadata_commands:
  "keeps (about I) (wg_show (se_sys X) n what)" "keeps (about I) (wg_showconf (se_sys X) n)" "keeps (about I) (wg_genkey (se_sys X))"
  "keeps (about I) (wg_pubkey (se_sys X) key)" "keeps (about I) (wg_allow (se_sys X) n key r)" "keeps (about I) (wg_remove (se_sys X) n key)"
  "keeps (about I) (wg_setconf (se_sys X) n conf)" "keeps (about I) (save (se_sys X) n)" "keeps (about I) (require_root (se_sys X))"
  unfolding wg_show_def wg_showconf_def wg_genkey_def wg_pubkey_def wg_allow_def wg_remove_def wg_setconf_def
    save_def require_root_def
  by (auto intro!: wp keeps_metadata)

lemmas kept_basic = wp keeps_metadata keeps_metadata_commands

lemma keeps_meta_validate:
  "keeps (about I) (validate_directory (se_sys X) p)" "keeps (about I) (validate_file (se_sys X) p)"
  unfolding validate_directory_def validate_file_def by (auto intro!: kept_basic)

lemma keeps_meta_parts:
  "keeps (about I) (peers X n os)" "keeps (about I) (prepared X n)" "keeps (about I) (warp_status_of X n)"
  "keeps (about I) (owner_routes X n r)" "keeps (about I) (ensure_routes_available (se_sys X) N n key rs)"
  "keeps (about I) (mutating_lock (se_sys X))" "keeps (about I) (warp_command X a n)"
  "keeps (about I) (read_store (se_sys X) J n)" "keeps (about I) (warp_line X n st l)" "keeps (about I) (warp_lines X n st ls)"
proof -
  show p: "keeps (about I) (peers X n os)" unfolding peers_def by (intro kept_basic)
  show q: "keeps (about I) (prepared X n)" for n unfolding prepared_def by (intro kept_basic)
  show "keeps (about I) (warp_status_of X n)" unfolding warp_status_of_def by (intro kept_basic q)
  show "keeps (about I) (owner_routes X n r)" unfolding owner_routes_def by (intro kept_basic q)
  show e: "keeps (about I) (ensure_routes_available (se_sys X) N n key rs)" for N n key rs
    unfolding ensure_routes_available_def by (intro kept_basic)
  show "keeps (about I) (mutating_lock (se_sys X))" unfolding mutating_lock_def by (intro kept_basic)
  show "keeps (about I) (warp_command X a n)" unfolding warp_command_def by (intro kept_basic)
  show "keeps (about I) (read_store (se_sys X) J n)"
    unfolding read_store_def read_store_path_def Let_def by (intro kept_basic keeps_meta_validate)
  show l: "keeps (about I) (warp_line X n st l)" for l
    unfolding warp_line_def Let_def by (auto intro!: kept_basic e split: list.splits)
  show "keeps (about I) (warp_lines X n st ls)" by (induction ls) (simp_all add: kept_basic l)
qed

section \<open>Writing\<close>

lemma written_exactly:
  "encode_store (se_json X) s = Inr b \<Longrightarrow> store_valid s \<Longrightarrow> schema s = 2 \<Longrightarrow> exactly s (Some (b @ [10]))"
  using parse_written[of s b] by (simp add: exactly_def metadata_def)

lemma exactly_implies_good: "store_valid s \<Longrightarrow> Os \<subseteq> set (owners s) \<Longrightarrow> exactly s c \<Longrightarrow> good Os c"
  by (auto simp: exactly_def good_def)

lemma publish_exactly:
  assumes s: "exactly s (Some (b @ [10]))" and v: "store_valid s" "Os \<subseteq> set (owners s)"
  shows "triple (\<lambda>w. about (good Os) w \<and> content w (temporary_path S i) = Some []) (publish (se_sys X) (temporary_path S i) (metadata_path i) b)
    (\<lambda>_. about (exactly s)) (\<lambda>_. about (good Os))"
proof -
  let ?t = "temporary_path S i" and ?I = "about (good Os)"
  let ?at = "\<lambda>d w. ?I w \<and> content w ?t = Some d"
  have app: "triple (?at d) (io Metadata_Io (fs_append (se_sys X) ?t d')) (\<lambda>_. ?at (d @ d')) (\<lambda>_. ?I)" for d d'
    by (rule triple_io) (auto intro: appended keeps_ioD[OF keeps_metadata(12)])
  have syn: "triple (?at d) (io Metadata_Io (fs_sync (se_sys X) p)) (\<lambda>_. ?at d) (\<lambda>_. ?I)" for d p
  proof (rule triple_io)
    have c: "content w' = content w" if "fs_sync (se_sys X) p w = (w', r)" for w w' r
      using sync[of p w] that by simp
    show "?at d w'" if "?at d w" "fs_sync (se_sys X) p w = (w', Io_Ok x)" for w w' x
      using that c[OF that(2)] by (simp add: about_def)
    show "?I w'" if "?at d w" "fs_sync (se_sys X) p w = (w', Missing) \<or> fs_sync (se_sys X) p w = (w', Io_Failed)" for w w'
      using that c by (auto simp: about_def)
  qed
  have ren: "triple (?at (b @ [10])) (io Metadata_Io (fs_rename (se_sys X) ?t (metadata_path i))) (\<lambda>_. about (exactly s)) (\<lambda>_. ?I)"
  proof (rule triple_io)
    show "about (exactly s) w'" if "?at (b @ [10]) w" "fs_rename (se_sys X) ?t (metadata_path i) w = (w', Io_Ok u)" for w w' u
      using that s renamed[OF that(2)] by (simp add: about_def)
    show "?I w'" if "?at (b @ [10]) w" "fs_rename (se_sys X) ?t (metadata_path i) w = (w', Missing) \<or>
        fs_rename (se_sys X) ?t (metadata_path i) w = (w', Io_Failed)" for w w'
      using that not_renamed[OF that(2)] by (simp add: about_def)
  qed
  have dir: "triple (about (exactly s)) (io Metadata_Io (fs_sync (se_sys X) FRIENDS_DIR)) (\<lambda>_. about (exactly s)) (\<lambda>_. ?I)"
    by (rule triple_weaken[OF keeps_metadata(10)[of "exactly s", unfolded keeps_triple]])
      (auto simp: about_def intro: exactly_implies_good[OF v])
  show ?thesis
    unfolding publish_def using app[of "[]" b] app[of b "[10]"] syn[of "b @ [10]"] ren dir
    by (auto intro!: triple_bnd)
qed

lemma write_store_exactly:
  assumes v: "store_valid s" "schema s = 2" "Os \<subseteq> set (owners s)"
  shows "triple (about (good Os)) (write_store (se_sys X) (se_json X) i s) (\<lambda>_. about (exactly s)) (\<lambda>_. about (good Os))"
proof -
  let ?I = "about (good Os)" and ?t = "temporary_path (se_sys X) i"
  have pub: "triple ?I (bnd (io Metadata_Io (fs_create_new (se_sys X) ?t))
      (\<lambda>_. with_cleanup (publish (se_sys X) ?t (metadata_path i) b) (\<lambda>w. fst (fs_remove (se_sys X) ?t w))))
      (\<lambda>_. about (exactly s)) (\<lambda>_. ?I)"
    if b: "encode_store (se_json X) s = Inr b" for b
  proof (rule triple_bnd)
    show "triple ?I (io Metadata_Io (fs_create_new (se_sys X) ?t)) (\<lambda>_ w. ?I w \<and> content w ?t = Some []) (\<lambda>_. ?I)"
      by (rule triple_io) (auto intro: created keeps_ioD[OF keeps_metadata(11)])
    show "triple (\<lambda>w. ?I w \<and> content w ?t = Some []) (with_cleanup (publish (se_sys X) ?t (metadata_path i) b)
        (\<lambda>w. fst (fs_remove (se_sys X) ?t w))) (\<lambda>_. about (exactly s)) (\<lambda>_. ?I)"
      by (rule triple_with_cleanup[OF publish_exactly[OF written_exactly[OF b v(1,2)] v(1,3)]])
        (simp add: about_def remove[OF path_differs(1)[symmetric]])
  qed
  have err: "triple ?I (throw e) (\<lambda>_. about (exactly s)) (\<lambda>_. ?I)" for e by (simp add: triple_def throw_def)
  show ?thesis
  proof (cases "store_path i")
    case (Inl e)
    then show ?thesis by (simp add: write_store_def bnd_lift_error err)
  next
    case path: (Inr p)
    then have p: "p = metadata_path i" by (auto simp: store_path_def metadata_path_def)
    show ?thesis
    proof (cases "encode_store (se_json X) s")
      case (Inl e)
      then show ?thesis by (simp add: write_store_def write_store_path_def path bnd_lift bnd_lift_error err)
    next
      case enc: (Inr b)
      show ?thesis
        unfolding write_store_def write_store_path_def path enc bnd_lift p Let_def
        by (rule triple_bnd_keeps[OF keeps_metadata(4)], rule triple_bnd_keeps, (intro kept_basic)[1],
            rule triple_bnd_keeps[OF keeps_meta_validate(1)], rule triple_bnd_keeps[OF keeps_metadata(3)],
            rule triple_bnd_keeps, (intro kept_basic keeps_meta_validate)[1], rule pub[OF enc])
    qed
  qed
qed

lemma keeps_write_store:
  assumes "store_valid s" and "schema s = 2" and "Os \<subseteq> set (owners s)"
  shows "keeps (about (good Os)) (write_store (se_sys X) (se_json X) i s)"
  unfolding keeps_triple
  by (rule triple_weaken[OF write_store_exactly[OF assms]]) (auto simp: about_def intro: exactly_implies_good[OF assms(1,3)])

section \<open>Reading\<close>

text \<open>
  \<open>knows s Q m\<close>: with metadata \<open>s\<close> on disk, \<open>m\<close> ends with \<open>Q\<close>, or fails and leaves good metadata that has
  the owners of \<open>s\<close>.
\<close>

abbreviation owned :: "friend_store \<Rightarrow> 'w \<Rightarrow> bool" where
  "owned s \<equiv> about (good (set (owners s)))"

definition knows :: "friend_store \<Rightarrow> ('a \<Rightarrow> 'w \<Rightarrow> bool) \<Rightarrow> ('w, 'a) act \<Rightarrow> bool" where
  "knows s Q m \<longleftrightarrow> triple (about (exactly s)) m Q (\<lambda>_. owned s)"

lemma exactly_owned: "store_valid s \<Longrightarrow> about (exactly s) w \<Longrightarrow> owned s w"
  by (auto simp: about_def exactly_def good_def)

lemma knows_good: "store_valid s \<Longrightarrow> keeps (owned s) m \<Longrightarrow> knows s (\<lambda>_. owned s) m"
  and knows_exact: "store_valid s \<Longrightarrow> keeps (about (exactly s)) m \<Longrightarrow> knows s (\<lambda>_. owned s) m"
  unfolding knows_def keeps_triple by (erule triple_weaken; auto intro: exactly_owned)+

lemma knows_bnd_value:
  assumes "store_valid s" and "keeps (about (exactly s)) m" and "\<And>w w' x. m w = (w', Inr x) \<Longrightarrow> V x"
    and "\<And>x. V x \<Longrightarrow> knows s Q (f x)"
  shows "knows s Q (bnd m f)"
  unfolding knows_def
proof (rule triple_bnd[where R = "\<lambda>x w. V x \<and> about (exactly s) w"])
  show "triple (about (exactly s)) m (\<lambda>x w. V x \<and> about (exactly s) w) (\<lambda>_. owned s)"
    unfolding triple_def
  proof (intro allI impI)
    fix w assume "about (exactly s) w"
    moreover obtain w' r where m: "m w = (w', r)" by (cases "m w")
    ultimately have "about (exactly s) w'" using assms(2) by (metis fst_conv keeps_def)
    then show "case m w of (w', Inr x) \<Rightarrow> V x \<and> about (exactly s) w' | (w', Inl e) \<Rightarrow> owned s w'"
      using m assms(3)[of w w'] exactly_owned[OF assms(1)] by (cases r) auto
  qed
  show "triple (\<lambda>w. V x \<and> about (exactly s) w) (f x) Q (\<lambda>_. owned s)" for x
    using assms(4)[of x] by (auto simp: knows_def triple_def)
qed

lemma knows_bnd:
  "store_valid s \<Longrightarrow> keeps (about (exactly s)) m \<Longrightarrow> (\<And>x. knows s Q (f x)) \<Longrightarrow> knows s Q (bnd m f)"
  by (rule knows_bnd_value[where V = "\<lambda>_. True"]) auto

lemma knows_throw: "store_valid s \<Longrightarrow> knows s Q (throw e)"
  using exactly_owned by (simp add: knows_def triple_def throw_def)

lemma knows_lift:
  "store_valid s \<Longrightarrow> (\<And>x. r = Inr x \<Longrightarrow> knows s Q (f x)) \<Longrightarrow> knows s Q (bnd (lift r) f)"
  by (cases r) (simp_all add: bnd_lift bnd_lift_error knows_throw)

lemma knows_require:
  "store_valid s \<Longrightarrow> (b \<Longrightarrow> knows s Q (f ())) \<Longrightarrow> knows s Q (bnd (require b e) f)"
  by (cases b) (simp_all add: require_def bnd_ret bnd_throw knows_throw)

lemma read_opened:
  "triple (about (exactly s))
     (bnd (io Metadata_Io (fs_open (se_sys X) (metadata_path i))) (\<lambda>(opened, data).
      bnd (io Metadata_Io (fs_lstat (se_sys X) (metadata_path i))) (\<lambda>named.
      if inode opened \<noteq> inode named \<or> inode opened \<noteq> inode inspected \<or> is_symlink named then throw Metadata_Changed
      else if STORE_LIMIT < length (take (STORE_LIMIT + 1) data) then throw Metadata_Size
      else lift (parse_store (se_json X) (take (STORE_LIMIT + 1) data)))))
     (\<lambda>s' w. s' = s \<and> about (exactly s) w) (\<lambda>_. about (exactly s))"
proof (rule triple_bnd)
  let ?R = "\<lambda>(m :: file_meta, b) w. exactly s (Some b) \<and> about (exactly s) w"
  show "triple (about (exactly s)) (io Metadata_Io (fs_open (se_sys X) (metadata_path i))) ?R (\<lambda>_. about (exactly s))"
  proof (rule triple_io)
    show "?R x w'" if "about (exactly s) w" "fs_open (se_sys X) (metadata_path i) w = (w', Io_Ok x)" for w w' x
      using that opened_content[of "metadata_path i" w w' "fst x" "snd x"] keeps_ioD[OF keeps_metadata(5) that]
      by (cases x) (simp add: about_def)
    show "about (exactly s) w'" if "about (exactly s) w" "fs_open (se_sys X) (metadata_path i) w = (w', Missing) \<or>
        fs_open (se_sys X) (metadata_path i) w = (w', Io_Failed)" for w w'
      using that keeps_ioD[OF keeps_metadata(5)] by blast
  qed
  show "triple (?R x) (case x of (opened, data) \<Rightarrow>
      bnd (io Metadata_Io (fs_lstat (se_sys X) (metadata_path i))) (\<lambda>named.
      if inode opened \<noteq> inode named \<or> inode opened \<noteq> inode inspected \<or> is_symlink named then throw Metadata_Changed
      else if STORE_LIMIT < length (take (STORE_LIMIT + 1) data) then throw Metadata_Size
      else lift (parse_store (se_json X) (take (STORE_LIMIT + 1) data))))
      (\<lambda>s' w. s' = s \<and> about (exactly s) w) (\<lambda>_. about (exactly s))" for x
  proof (cases x)
    case (Pair m b)
    let ?g = "\<lambda>named. if inode m \<noteq> inode named \<or> inode m \<noteq> inode inspected \<or> is_symlink named then throw Metadata_Changed
      else if STORE_LIMIT < length (take (STORE_LIMIT + 1) b) then throw Metadata_Size
      else lift (parse_store (se_json X) (take (STORE_LIMIT + 1) b))"
    have "triple (about (exactly s)) (bnd (io Metadata_Io (fs_lstat (se_sys X) (metadata_path i))) ?g)
        (\<lambda>s' w. s' = s \<and> about (exactly s) w) (\<lambda>_. about (exactly s))" if e: "exactly s (Some b)"
    proof (rule triple_bnd_keeps[OF keeps_metadata(1)])
      have q: "parse_store (se_json X) (take (STORE_LIMIT + 1) b) = Inr s"
        using e by (auto simp: exactly_def metadata_def split: sum.splits)
      show "triple (about (exactly s)) (?g named) (\<lambda>s' w. s' = s \<and> about (exactly s) w) (\<lambda>_. about (exactly s))" for named
        unfolding q by (simp add: triple_def lift_def throw_def)
    qed
    then show ?thesis unfolding Pair prod.case by (auto simp: triple_def)
  qed
qed

lemma read_exact:
  "triple (about (exactly s)) (read_store (se_sys X) (se_json X) i) (\<lambda>s' w. s' = s \<and> about (exactly s) w) (\<lambda>_. about (exactly s))"
proof (cases "store_path i")
  case (Inl e)
  then show ?thesis by (simp add: read_store_def bnd_lift_error triple_def throw_def)
next
  case (Inr p)
  then have p: "p = metadata_path i" by (auto simp: store_path_def metadata_path_def)
  let ?none = "\<lambda>found w. about (exactly s) w \<and> (found = None \<longrightarrow> s = empty_store)"
  have look: "triple (about (exactly s)) (io_opt Metadata_Io (fs_lstat (se_sys X) p)) ?none (\<lambda>_. about (exactly s))"
    unfolding p triple_def
  proof (intro allI impI)
    fix w assume a: "about (exactly s) w"
    obtain w' r where l: "fs_lstat (se_sys X) (metadata_path i) w = (w', r)" by (cases "fs_lstat (se_sys X) (metadata_path i) w")
    have "about (exactly s) w'" using keeps_ioD[OF keeps_metadata(1) a l] .
    moreover have "s = empty_store" if "r = Missing"
      using a lstat_missing[OF l[unfolded that]] by (simp add: about_def exactly_def metadata_def)
    ultimately show "case io_opt Metadata_Io (fs_lstat (se_sys X) (metadata_path i)) w of
        (w', Inr x) \<Rightarrow> ?none x w' | (w', Inl e) \<Rightarrow> about (exactly s) w'"
      by (cases r) (simp_all add: io_opt_def l)
  qed
  have "triple (about (exactly s)) (read_store_path (se_sys X) (se_json X) p) (\<lambda>s' w. s' = s \<and> about (exactly s) w) (\<lambda>_. about (exactly s))"
    unfolding read_store_path_def Let_def
  proof (rule triple_bnd[OF look])
    show "triple (?none found) (case found of None \<Rightarrow> ret empty_store
        | Some _ \<Rightarrow> bnd (validate_file (se_sys X) p) (\<lambda>inspected.
            bnd (io Metadata_Io (fs_open (se_sys X) p)) (\<lambda>(opened, content).
            bnd (io Metadata_Io (fs_lstat (se_sys X) p)) (\<lambda>named.
            if inode opened \<noteq> inode named \<or> inode opened \<noteq> inode inspected \<or> is_symlink named then throw Metadata_Changed
            else if STORE_LIMIT < length (take (STORE_LIMIT + 1) content) then throw Metadata_Size
            else lift (parse_store (se_json X) (take (STORE_LIMIT + 1) content))))))
        (\<lambda>s' w. s' = s \<and> about (exactly s) w) (\<lambda>_. about (exactly s))" for found
    proof (cases found)
      case None
      then show ?thesis by (auto simp: triple_def ret_def)
    next
      case (Some m)
      have "triple (about (exactly s)) (bnd (validate_file (se_sys X) p) (\<lambda>inspected.
            bnd (io Metadata_Io (fs_open (se_sys X) p)) (\<lambda>(opened, content).
            bnd (io Metadata_Io (fs_lstat (se_sys X) p)) (\<lambda>named.
            if inode opened \<noteq> inode named \<or> inode opened \<noteq> inode inspected \<or> is_symlink named then throw Metadata_Changed
            else if STORE_LIMIT < length (take (STORE_LIMIT + 1) content) then throw Metadata_Size
            else lift (parse_store (se_json X) (take (STORE_LIMIT + 1) content))))))
        (\<lambda>s' w. s' = s \<and> about (exactly s) w) (\<lambda>_. about (exactly s))"
        unfolding p by (rule triple_bnd_keeps[OF keeps_meta_validate(2)]) (rule read_opened)
      then show ?thesis using Some by (auto simp: triple_def)
    qed
  qed
  then show ?thesis
    unfolding read_store_def Inr bnd_lift
    by (intro triple_bnd_keeps kept_basic keeps_meta_validate)
qed

section \<open>Migration\<close>

lemma exactly_schema: "exactly s c \<Longrightarrow> schema s = 1 \<and> owners s = [] \<or> schema s = 2"
  by (auto simp: exactly_def metadata_def parse_store_def decode_store_def check_store_ok empty_store_def
      simp del: One_nat_def dest: version_1 version_2 split: option.splits sum.splits if_splits)

lemma check_legacy_ok:
  "check_legacy_owners rs ks = Inr () \<longleftrightarrow> (\<forall>k\<in>set ks. wireguard_key k) \<and> set ks \<inter> fr_public_key ` set rs = {}"
  by (induction ks) (auto simp: validate_peer_key_iff list_ex_iff)

lemma legacy_distinct: "distinct (listed_keys out) \<Longrightarrow> distinct (legacy_owners out)"
  unfolding listed_keys_def legacy_owners_def
  by (rule map_filter_sub(2)) (auto split: list.splits if_splits)

lemma show_listed: "wg_show (se_sys X) i ''allowed-ips'' w = (w', Inr out) \<Longrightarrow> distinct (listed_keys out)"
  using listed by (auto simp: wg_show_def run_def split: prod.splits option.splits)

lemma migrate_exactly:
  assumes v: "store_valid s" and "schema s = 1" and o: "owners s = []"
  shows "knows s (\<lambda>s' w. store_valid s' \<and> schema s' = 2 \<and> about (exactly s') w) (migrate X i s)"
  unfolding migrate_def Let_def
proof (rule knows_bnd_value[OF v keeps_metadata_commands(1) show_listed], assumption, rule knows_lift[OF v],
    rule knows_bnd[OF v], (intro kept_basic)[1], rule knows_bnd[OF v], (intro kept_basic keeps_meta_parts)[1],
    rule knows_require[OF v], rule knows_require[OF v], rule knows_lift[OF v])
  fix out u
  assume d: "distinct (listed_keys out)"
    and c: "check_legacy_owners (records (s\<lparr>schema := 2, owners := legacy_owners out\<rparr>)) (legacy_owners out) = Inr u"
  let ?s = "s\<lparr>schema := 2, owners := legacy_owners out\<rparr>"
  have ok: "store_valid ?s" using v d c by (auto simp: store_valid_def check_legacy_ok legacy_distinct)
  then have w: "triple (owned s) (write_store (se_sys X) (se_json X) i ?s) (\<lambda>_. about (exactly ?s)) (\<lambda>_. owned s)"
    by (intro write_store_exactly) (simp_all add: o)
  show "knows s (\<lambda>s' w. store_valid s' \<and> schema s' = 2 \<and> about (exactly s') w)
      (bnd (write_store (se_sys X) (se_json X) i ?s) (\<lambda>_. ret ?s))"
    unfolding knows_def
  proof (rule triple_bnd[where R = "\<lambda>_. about (exactly ?s)"])
    show "triple (about (exactly s)) (write_store (se_sys X) (se_json X) i ?s) (\<lambda>_. about (exactly ?s)) (\<lambda>_. owned s)"
      by (rule triple_weaken[OF w]) (auto intro: exactly_owned[OF v])
  qed (simp add: triple_def ret_def ok)
qed

text \<open>The rule for every operation on friends and owners: it starts by loading the metadata.\<close>

lemma good_mono: "Os \<subseteq> Os' \<Longrightarrow> about (good Os') w \<Longrightarrow> about (good Os) w"
  by (auto simp: about_def good_def)

lemma knows_load:
  assumes v: "store_valid s"
    and f: "\<And>s'. store_valid s' \<Longrightarrow> schema s' = 2 \<Longrightarrow> knows s' (\<lambda>_. owned s') (f s')"
  shows "knows s (\<lambda>_. owned s) (bnd (load_store X i) f)"
proof -
  let ?Q = "\<lambda>s' w. store_valid s' \<and> schema s' = 2 \<and> set (owners s) \<subseteq> set (owners s') \<and> about (exactly s') w"
  have load: "triple (about (exactly s)) (load_store X i) ?Q (\<lambda>_. owned s)"
    unfolding load_store_def
  proof (rule triple_bnd[where R = "\<lambda>s' w. s' = s \<and> about (exactly s) w"])
    show "triple (about (exactly s)) (read_store (se_sys X) (se_json X) i) (\<lambda>s' w. s' = s \<and> about (exactly s) w) (\<lambda>_. owned s)"
      by (rule triple_weaken[OF read_exact]) (auto intro: exactly_owned[OF v])
    show "triple (\<lambda>w. s' = s \<and> about (exactly s) w) (if schema s' = 1 then migrate X i s' else ret s') ?Q (\<lambda>_. owned s)" for s'
    proof (cases "schema s = 1 \<and> owners s = []")
      case True
      then have "triple (about (exactly s)) (migrate X i s) ?Q (\<lambda>_. owned s)"
        using migrate_exactly[OF v] unfolding knows_def by (auto elim!: triple_weaken)
      then show ?thesis using True by (auto simp: triple_def)
    next
      case False
      show ?thesis
        unfolding triple_def
      proof (intro allI impI)
        fix w assume w: "s' = s \<and> about (exactly s) w"
        then have "schema s = 2" using False exactly_schema by (auto simp: about_def)
        then show "case (if schema s' = 1 then migrate X i s' else ret s') w of
            (w', Inr x) \<Rightarrow> ?Q x w' | (w', Inl e) \<Rightarrow> owned s w'"
          using w v by (simp add: ret_def)
      qed
    qed
  qed
  show ?thesis
    unfolding knows_def
  proof (rule triple_bnd[OF load])
    show "triple (?Q s') (f s') (\<lambda>_. owned s) (\<lambda>_. owned s)" for s'
    proof (rule triple_pure)
      assume a: "store_valid s' \<and> schema s' = 2 \<and> set (owners s) \<subseteq> set (owners s')"
      have "triple (about (exactly s')) (f s') (\<lambda>_. owned s') (\<lambda>_. owned s')" using f[of s'] a by (simp add: knows_def)
      then show ?thesis by (rule triple_weaken) (use a in \<open>auto intro: good_mono\<close>)
    qed blast
  qed
qed

section \<open>Operations\<close>

lemma knows_fresh:
  assumes v: "store_valid s" and f: "\<And>g d. wireguard_key (trim g) \<Longrightarrow> trim d \<notin> store_keys s \<Longrightarrow> knows s Q (f g d)"
  shows "knows s Q (bnd (wg_genkey (se_sys X)) (\<lambda>g. bnd (wg_pubkey (se_sys X) (trim g)) (f g)))"
  unfolding knows_def triple_def
proof (intro allI impI)
  fix w assume a: "about (exactly s) w"
  let ?m = "bnd (wg_genkey (se_sys X)) (\<lambda>g. bnd (wg_pubkey (se_sys X) (trim g)) (f g))"
  obtain w1 r1 where g: "sys_command (se_sys X) [''wg'', ''genkey''] None w = (w1, r1)"
    by (cases "sys_command (se_sys X) [''wg'', ''genkey''] None w")
  have a1: "about (exactly s) w1" using a commands[of "''wg''" "[''genkey'']" None w] g by (simp add: about_def tool_programs_def)
  show "case ?m w of (w', Inr x) \<Rightarrow> Q x w' | (w', Inl e) \<Rightarrow> owned s w'"
  proof (cases r1)
    case None
    then show ?thesis using g exactly_owned[OF v a1] by (simp add: bnd_def wg_genkey_def run_def)
  next
    case (Some k)
    obtain w2 r2 where d: "sys_command (se_sys X) [''wg'', ''pubkey''] (Some (trim k)) w1 = (w2, r2)"
      by (cases "sys_command (se_sys X) [''wg'', ''pubkey''] (Some (trim k)) w1")
    have a2: "about (exactly s) w2"
      using a1 commands[of "''wg''" "[''pubkey'']" "Some (trim k)" w1] d by (simp add: about_def tool_programs_def)
    show ?thesis
    proof (cases r2)
      case None
      then show ?thesis
        using g d Some exactly_owned[OF v a2] by (simp add: bnd_def wg_genkey_def wg_pubkey_def run_def run_with_input_def)
    next
      case key: (Some pk)
      have "trim pk \<notin> store_keys s"
        using fresh[OF g[unfolded Some] d[unfolded key]] a by (simp add: about_def exactly_def)
      then have "knows s Q (f k pk)" using f genkey[OF g[unfolded Some]] by simp
      then have "case f k pk w2 of (w', Inr x) \<Rightarrow> Q x w' | (w', Inl e) \<Rightarrow> owned s w'"
        using a2 by (simp add: knows_def triple_def)
      then show ?thesis
        using g d Some key by (simp add: bnd_def wg_genkey_def wg_pubkey_def run_def run_with_input_def)
    qed
  qed
qed

lemma valid_add_record:
  assumes "store_valid s" and "schema s = 2" and "record_ok r" and "fr_public_key r \<notin> store_keys s"
  shows "store_valid (s\<lparr>records := records s @ [r]\<rparr>)"
  using assms by (auto simp: store_valid_def store_keys_def)

lemma knows_create:
  assumes v: "store_valid s" and name: "\<not> isl (validate_name name)"
  shows "knows s (\<lambda>_. owned s) (create_friend X i endpoint name)"
  unfolding create_friend_def Let_def
proof (rule knows_load[OF v])
  fix s assume v: "store_valid s" and s2: "schema s = 2"
  let ?r = "\<lambda>g d. \<lparr>fr_public_key = trim d, fr_name = name, fr_private_key = Some (trim g)\<rparr>"
  let ?s = "\<lambda>g d. s\<lparr>records := records s @ [?r g d]\<rparr>"
  have undo: "(?s g d)\<lparr>records := butlast (records (?s g d))\<rparr> = s" for g d by simp
  have w: "keeps (owned s) (write_store (se_sys X) (se_json X) i (?s g d))"
    if "wireguard_key (trim g)" "trim d \<notin> store_keys s" "validate_peer_key (trim d) = Inr u" for g d u
    using that name by (intro keeps_write_store valid_add_record[OF v s2]) (simp_all add: record_ok_def validate_peer_key_iff s2)
  have w0: "keeps (owned s) (write_store (se_sys X) (se_json X) i s)"
    by (intro keeps_write_store v s2) simp
  show "knows s (\<lambda>_. owned s)
        (bnd (peers X i (owners s)) (\<lambda>active.
         bnd (require (\<not> active_name X s active None name) Name_Taken) (\<lambda>_.
         bnd (wg_showconf (se_sys X) i) (\<lambda>previous_config.
         bnd (wg_genkey (se_sys X)) (\<lambda>g.
         bnd (wg_pubkey (se_sys X) (trim g)) (\<lambda>d.
         bnd (lift (status_result (validate_peer_key (trim d)))) (\<lambda>_.
         bnd (wg_show (se_sys X) i ''allowed-ips'') (\<lambda>assigned.
         bnd (lift (allocate_tunnel_ip (se_net X) assigned)) (\<lambda>tunnel.
         bnd (wg_show (se_sys X) i ''public-key'') (\<lambda>server_key.
         bnd (write_store (se_sys X) (se_json X) i (?s g d)) (\<lambda>_.
         bnd (with_rollback
               (bnd (wg_allow (se_sys X) i (trim d) (net_show (se_net X) tunnel)) (\<lambda>_. save (se_sys X) i))
               (bnd (wg_setconf (se_sys X) i previous_config) (\<lambda>_.
                bnd (save (se_sys X) i) (\<lambda>_.
                write_store (se_sys X) (se_json X) i ((?s g d)\<lparr>records := butlast (records (?s g d))\<rparr>))))) (\<lambda>_.
         ret (format_profile (trim g) (trim d) (trim server_key) endpoint (net_show (se_net X) tunnel))))))))))))))"
    unfolding undo
    by (rule knows_bnd[OF v keeps_meta_parts(1)], rule knows_require[OF v], rule knows_bnd[OF v keeps_metadata_commands(2)],
        rule knows_fresh[OF v], rule knows_lift[OF v], rule knows_bnd[OF v keeps_metadata_commands(1)], rule knows_lift[OF v],
        rule knows_bnd[OF v keeps_metadata_commands(1)], rule knows_good[OF v])
      (intro keeps_bnd keeps_rollback keeps_metadata_commands keeps_ret w0 w; simp)
qed

lemma takeWhile_found: "\<exists>x\<in>set xs. \<not> P x \<Longrightarrow> length (takeWhile P xs) < length xs"
  by (induction xs) auto

lemma rename_keys: "map fr_public_key (rename_record key name rs) =
    (if key \<in> fr_public_key ` set rs then map fr_public_key rs else map fr_public_key rs @ [key])"
proof (cases "\<exists>r\<in>set rs. fr_public_key r = key")
  case True
  let ?n = "length (takeWhile (\<lambda>r. fr_public_key r \<noteq> key) rs)"
  have "?n < length rs" using True by (intro takeWhile_found) auto
  then have "(map fr_public_key rs)[?n := fr_public_key (rs ! ?n)] = map fr_public_key rs"
    using list_update_id[of "map fr_public_key rs" ?n] by simp
  then show ?thesis using True by (auto simp: rename_record_def list_ex_iff Let_def map_update)
qed (auto simp: rename_record_def list_ex_iff)

lemma rename_ok:
  assumes "\<forall>r\<in>set rs. record_ok r" and "wireguard_key key" and "\<not> isl (validate_name name)"
  shows "\<forall>r\<in>set (rename_record key name rs). record_ok r"
proof -
  let ?n = "length (takeWhile (\<lambda>r. fr_public_key r \<noteq> key) rs)"
  show ?thesis
  proof (cases "\<exists>r\<in>set rs. fr_public_key r = key")
    case True
    then have "?n < length rs" by (intro takeWhile_found) auto
    then have "record_ok (rs ! ?n)" using assms(1) by simp
    then have r: "record_ok ((rs ! ?n)\<lparr>fr_name := name\<rparr>)" using assms(3) by (simp add: record_ok_def)
    have "rename_record key name rs = rs[?n := (rs ! ?n)\<lparr>fr_name := name\<rparr>]"
      using True by (auto simp: rename_record_def list_ex_iff Let_def)
    then have "set (rename_record key name rs) \<subseteq> insert ((rs ! ?n)\<lparr>fr_name := name\<rparr>) (set rs)"
      by (simp add: set_update_subset_insert)
    then show ?thesis using r assms(1) by blast
  next
    case False
    then show ?thesis using assms by (auto simp: rename_record_def list_ex_iff record_ok_def)
  qed
qed

lemma knows_rename:
  assumes v: "store_valid s" and name: "\<not> isl (validate_name name)"
  shows "knows s (\<lambda>_. owned s) (rename_friend X i key name)"
  unfolding rename_friend_def
proof (rule knows_load[OF v])
  fix s assume v: "store_valid s" and s2: "schema s = 2"
  have ok: "store_valid (s\<lparr>records := rename_record key name (records s)\<rparr>)"
    if "peer_shape s active key = Inr shape" for active shape
  proof -
    have k: "wireguard_key key" "key \<notin> set (owners s)"
      using that by (auto simp: peer_shape_def validate_peer_key_iff list_ex_iff split: if_splits)
    have "fr_public_key ` set (rename_record key name (records s)) \<subseteq> insert key (fr_public_key ` set (records s))"
      using rename_keys[of key name "records s"] by (auto simp flip: set_map split: if_splits)
    moreover have "distinct (map fr_public_key (rename_record key name (records s)))"
      using v by (auto simp: rename_keys store_valid_def)
    ultimately show ?thesis
      using v k s2 rename_ok[OF _ k(1) name, of "records s"] unfolding store_valid_def
      by (intro conjI impI; simp) blast
  qed
  show "knows s (\<lambda>_. owned s)
       (bnd (peers X i (owners s)) (\<lambda>active.
        bnd (lift (peer_shape s active key)) (\<lambda>current.
        bnd (require (current \<noteq> None) Friend_Inactive) (\<lambda>_.
        bnd (require (\<not> active_name X s active (Some key) name) Name_Taken) (\<lambda>_.
        write_store (se_sys X) (se_json X) i (s\<lparr>records := rename_record key name (records s)\<rparr>))))))"
    by (rule knows_bnd[OF v keeps_meta_parts(1)], rule knows_lift[OF v], rule knows_require[OF v], rule knows_require[OF v],
        rule knows_good[OF v], rule keeps_write_store) (simp_all add: ok s2)
qed

lemma friend_text: "validate_tunnel_ip (se_net X) r = Inr ip \<Longrightarrow> validate_name (net_show (se_net X) ip) = Inr (net_show (se_net X) ip)"
proof -
  assume "validate_tunnel_ip (se_net X) r = Inr ip"
  then have t: "net_show (se_net X) ip = show_ipv4 (net_addr ip) @ ''/32''"
    by (simp add: validate_tunnel_ip_ok show_net digits_32)
  have c: "ascii_digit c \<or> c = CHR ''.'' \<or> c = CHR ''/''" if "c \<in> set (net_show (se_net X) ip)" for c
    using that digits_ascii by (auto simp: t show_ipv4_octets ascii_digit_def)
  have "\<not> is_control [c]" if "c \<in> set (net_show (se_net X) ip)" for c
    using c[OF that] by (auto simp: is_control_def ascii_digit_def)
  moreover have p: "plain_value (net_show (se_net X) ip)" "length (net_show (se_net X) ip) \<le> 18"
    unfolding t by (rule show_host_plain)+
  ultimately show ?thesis
    using trim_plain[of "net_show (se_net X) ip"]
    by (auto simp: validate_name_def plain_value_def any_control_def char_chunks_ascii char_count_ascii list_ex_iff Let_def)
qed

lemma shape_facts:
  assumes "peer_shape s (peers_of (se_net X) os out) key = Inr (Some ip)"
  shows "wireguard_key key" and "key \<notin> set (owners s)" and "\<not> isl (validate_name ip)"
proof -
  show "wireguard_key key" "key \<notin> set (owners s)"
    using assms by (auto simp: peer_shape_def validate_peer_key_iff list_ex_iff split: if_splits)
  have "map_of (peers_of (se_net X) os out) key = Some (Friend ip)"
    using assms by (auto simp: peer_shape_def split: if_splits option.splits peer_kind.splits)
  from friend_entry[OF this] show "\<not> isl (validate_name ip)" using friend_text by auto
qed

lemma peers_value: "peers X i os w = (w', Inr ps) \<Longrightarrow> \<exists>out. ps = peers_of (se_net X) os out"
  by (auto simp: peers_def bnd_def ret_def split: prod.splits sum.splits)

lemma knows_revoke:
  assumes v: "store_valid s"
  shows "knows s (\<lambda>_. owned s) (revoke_friend X i key)"
  unfolding revoke_friend_def Let_def
proof (rule knows_load[OF v], rule knows_bnd_value[OF _ keeps_meta_parts(1) peers_value], assumption, assumption, rule knows_lift, assumption)
  fix s active shape
  assume v: "store_valid s" and s2: "schema s = 2" and a: "\<exists>out. active = peers_of (se_net X) (owners s) out"
    and shape: "peer_shape s active key = Inr shape"
  have w0: "keeps (owned s) (write_store (se_sys X) (se_json X) i s)" by (intro keeps_write_store v s2) simp
  show "knows s (\<lambda>_. owned s) (case shape of
       None \<Rightarrow> if list_ex (\<lambda>r. fr_public_key r = key) (records s) then save (se_sys X) i else throw Friend_Not_Found
     | Some ip \<Rightarrow> bnd (wg_showconf (se_sys X) i) (\<lambda>previous_config.
         bnd (write_store (se_sys X) (se_json X) i
           (if list_ex (\<lambda>r. fr_public_key r = key) (records s) then s
            else s\<lparr>records := records s @ [\<lparr>fr_public_key = key, fr_name = ip, fr_private_key = None\<rparr>]\<rparr>)) (\<lambda>_.
         with_rollback
           (bnd (wg_remove (se_sys X) i key) (\<lambda>_. save (se_sys X) i))
           (bnd (wg_setconf (se_sys X) i previous_config) (\<lambda>_.
            bnd (save (se_sys X) i) (\<lambda>_.
            write_store (se_sys X) (se_json X) i s))))))"
  proof (cases shape)
    case None
    then show ?thesis by (auto intro!: knows_good[OF v] kept_basic)
  next
    case (Some ip)
    let ?s = "if list_ex (\<lambda>r. fr_public_key r = key) (records s) then s
      else s\<lparr>records := records s @ [\<lparr>fr_public_key = key, fr_name = ip, fr_private_key = None\<rparr>]\<rparr>"
    have "wireguard_key key" "key \<notin> set (owners s)" "\<not> isl (validate_name ip)"
      using a shape shape_facts unfolding Some by blast+
    then have "store_valid ?s" "schema ?s = 2" "owners ?s = owners s"
      using v s2 valid_add_record[OF v s2, of "\<lparr>fr_public_key = key, fr_name = ip, fr_private_key = None\<rparr>"]
      by (auto simp: record_ok_def store_keys_def list_ex_iff)
    then have w: "keeps (owned s) (write_store (se_sys X) (se_json X) i ?s)" by (intro keeps_write_store) simp_all
    show ?thesis
      unfolding Some option.case
      by (intro knows_good[OF v] keeps_bnd keeps_rollback keeps_metadata_commands w w0)
  qed
qed

lemma knows_profile: "store_valid s \<Longrightarrow> knows s (\<lambda>_. owned s) (friend_profile X i key endpoint)"
  unfolding friend_profile_def
  by (rule knows_load, assumption) (intro knows_exact kept_basic keeps_meta_parts; assumption?)

lemma knows_status: "store_valid s \<Longrightarrow> knows s (\<lambda>_. owned s) (server_status_op X i)"
  unfolding server_status_op_def
  by (rule knows_load, assumption) (intro knows_exact kept_basic keeps_meta_parts; assumption?)

lemma knows_remove_router: "store_valid s \<Longrightarrow> knows s (\<lambda>_. owned s) (remove_router_peer X i key)"
  unfolding remove_router_peer_def
  by (rule knows_load, assumption) (intro knows_exact kept_basic keeps_meta_parts; assumption?)

lemma knows_warp_routes: "store_valid s \<Longrightarrow> knows s (\<lambda>_. owned s) (warp_routes X i)"
  unfolding warp_routes_def
  by (rule knows_load, assumption) (intro knows_exact kept_basic keeps_meta_parts; assumption?)

lemma valid_add_owner:
  assumes "store_valid s" and "schema s = 2" and "wireguard_key k" and "k \<notin> set (owners s)"
    and "k \<notin> fr_public_key ` set (records s)"
  shows "store_valid (s\<lparr>owners := owners s @ [k]\<rparr>)"
  using assms by (auto simp: store_valid_def)

lemma knows_add_router:
  assumes v: "store_valid s"
  shows "knows s (\<lambda>_. owned s) (add_router_peer X i key ip)"
  unfolding add_router_peer_def Let_def
proof (rule knows_lift[OF v], rule knows_lift[OF v], rule knows_bnd[OF v keeps_meta_parts(4)],
    rule knows_bnd[OF v keeps_meta_parts(5)], rule knows_load[OF v], goal_cases)
  case (1 u tunnel routes u' s)
  note v = 1(3) and s2 = 1(4)
  have k: "wireguard_key key" using 1(1) by (simp add: validate_peer_key_iff)
  let ?there = "list_ex (\<lambda>k. k = key) (owners s)"
  let ?s = "if ?there then s else s\<lparr>owners := owners s @ [key]\<rparr>"
  have w0: "keeps (owned s) (write_store (se_sys X) (se_json X) i s)"
    by (intro keeps_write_store v s2) simp
  have undo: "\<not> ?there \<Longrightarrow> ?s\<lparr>owners := butlast (owners ?s)\<rparr> = s" by simp
  have undone: "keeps (owned s) (if ?there then ret ()
      else write_store (se_sys X) (se_json X) i (?s\<lparr>owners := butlast (owners ?s)\<rparr>))"
    using w0 undo by (auto intro: keeps_ret)
  let ?rest = "bnd (wg_showconf (se_sys X) i) (\<lambda>previous_config.
      bnd (write_store (se_sys X) (se_json X) i ?s) (\<lambda>_.
      with_owner_rollback
        (bnd (wg_allow (se_sys X) i key (join '','' (map (net_show (se_net X)) routes))) (\<lambda>_. save (se_sys X) i))
        (bnd (wg_setconf (se_sys X) i previous_config) (\<lambda>_. save (se_sys X) i))
        (if ?there then ret ()
         else write_store (se_sys X) (se_json X) i (?s\<lparr>owners := butlast (owners ?s)\<rparr>))))"
  have rest: "knows s (\<lambda>_. owned s) ?rest" if "key \<notin> fr_public_key ` set (records s)"
  proof -
    have "store_valid ?s" "schema ?s = 2" "set (owners s) \<subseteq> set (owners ?s)"
      using v s2 valid_add_owner[OF v s2 k _ that] by (auto simp: list_ex_iff)
    then have w: "keeps (owned s) (write_store (se_sys X) (se_json X) i ?s)" by (rule keeps_write_store)
    show ?thesis
      by (intro knows_good[OF v] keeps_bnd keeps_owner_rollback keeps_metadata_commands w undone)
  qed
  show ?case
  proof (cases "list_ex (\<lambda>r. fr_public_key r = key) (records s)")
    case True
    then show ?thesis by (simp add: bnd_ret require_def bnd_throw knows_throw[OF v])
  next
    case False
    then have "key \<notin> fr_public_key ` set (records s)" by (auto simp: list_ex_iff)
    with False show ?thesis
      unfolding if_not_P[OF False]
      by (intro knows_bnd[OF v] knows_require[OF v] rest keeps_if keeps_bnd keeps_ret keeps_meta_parts)
  qed
qed

text \<open>Every operation keeps the metadata good, whatever owners it has to keep.\<close>

lemma keeps_good:
  assumes "\<And>s. store_valid s \<Longrightarrow> knows s (\<lambda>_. owned s) m"
  shows "keeps (about (good Os)) m"
  unfolding keeps_triple triple_def
proof (intro allI impI)
  fix w assume "about (good Os) w"
  then obtain s where s: "about (exactly s) w" "store_valid s" "Os \<subseteq> set (owners s)"
    by (auto simp: about_def good_def exactly_def)
  obtain w' r where m: "m w = (w', r)" by (cases "m w")
  have "owned s w'"
    using assms[OF s(2)] s(1) m unfolding knows_def
    by (cases r) (auto dest: tripleD_ok tripleD_error)
  then show "case m w of (w', Inr x) \<Rightarrow> about (good Os) w' | (w', Inl e) \<Rightarrow> about (good Os) w'"
    using good_mono[OF s(3)] m by (simp split: sum.splits)
qed

lemma read_friend_name_ok: "read_friend_name c = Inr name \<Longrightarrow> \<not> isl (validate_name name)"
  by (auto simp: read_friend_name_def validate_name_def Let_def and_then_def ok_or_def
      split: option.splits if_splits sum.splits)

lemma knows_create_router: "store_valid s \<Longrightarrow> knows s (\<lambda>_. owned s) (create_router_profile X i endpoint)"
  unfolding create_router_profile_def Let_def
  by (rule knows_load, assumption)
    (intro knows_bnd knows_lift knows_good kept_basic keeps_good[OF knows_add_router]; assumption)

lemmas keeps_operations = keeps_good[OF knows_status] keeps_good[OF knows_remove_router] keeps_good[OF knows_warp_routes]
  keeps_good[OF knows_profile] keeps_good[OF knows_revoke] keeps_good[OF knows_create] keeps_good[OF knows_rename]
  keeps_good[OF knows_add_router] keeps_good[OF knows_create_router]

lemma keeps_authorize: "keeps (about (good Os)) (authorize_warp X i)"
  unfolding authorize_warp_def by (intro kept_basic keeps_operations keeps_meta_parts)

lemma keeps_add_peer_command: "keeps (about (good Os)) (add_peer_command X i key ip own)"
  unfolding add_peer_command_def add_peer_def by (intro kept_basic keeps_operations keeps_meta_parts)

lemma keeps_create_profile: "keeps (about (good Os)) (create_profile X i endpoint tunnel subnet_arg)"
  unfolding create_profile_def by (intro kept_basic keeps_add_peer_command)

lemma keeps_named:
  "keeps (about (good Os)) (bnd (lift (read_friend_name c)) (\<lambda>name. locked X (printed (create_friend X i endpoint name))))"
  "keeps (about (good Os)) (bnd (lift (read_friend_name c)) (\<lambda>name. locked X (silent (rename_friend X i key name))))"
  unfolding locked_def printed_def silent_def
  by (rule keeps_lift_bnd; intro kept_basic keeps_meta_parts keeps_operations read_friend_name_ok; assumption)+

lemma keeps_main: "call_interface c = i \<Longrightarrow> keeps (about (good Os)) (server_main X c cmd)"
  unfolding server_main_def Let_def
  by (cases cmd; simp only: server_command.case;
      intro keeps_named kept_basic keeps_meta_parts keeps_operations keeps_authorize keeps_add_peer_command keeps_create_profile
      | simp only: locked_def printed_def silent_def wireguard_peers_def restart_vpn_def Let_def)+

lemma keeps_session:
  "\<forall>c\<in>set cs. call_interface (fst c) = i \<Longrightarrow> about (good Os) w \<Longrightarrow> about (good Os) (after_commands X cs w)"
proof (induction cs arbitrary: w)
  case (Cons c cs)
  then have "about (good Os) (fst (server_main X (fst c) (snd c) w))"
    using keeps_main[of "fst c" Os "snd c"] by (simp add: keeps_def)
  with Cons show ?case by simp
qed simp

end

section \<open>The property\<close>

text \<open>C15: Over any number of commands of the server tool, succeeding, failing or rolled back, the metadata of
  an interface that was readable and valid stays readable and valid (no key twice, no owner that is a friend,
  valid names and keys), and no recorded router owner is ever lost.\<close>

theorem metadata_stays_valid:
  assumes "metadata_machine X i content" and "\<forall>c\<in>set cs. call_interface (fst c) = i"
    and "metadata (se_json X) (content w (metadata_path i)) = Some s" and "store_valid s"
  shows "\<exists>s'. metadata (se_json X) (content (after_commands X cs w) (metadata_path i)) = Some s' \<and> store_valid s' \<and>
      set (owners s) \<subseteq> set (owners s')"
  using metadata_machine.keeps_session[OF assms(1,2), of "set (owners s)" w] assms(3,4)
  by (auto simp: metadata_machine.about_def[OF assms(1)] metadata_machine.good_def[OF assms(1)])

end
