(* ===== verification/Server_Instance.thy ===== *)
theory Server_Instance
  imports Server_Safety Server_Metadata
begin

text \<open>
  A machine that keeps the contracts of \<open>Server_Safety\<close> and \<open>Server_Metadata\<close>: peers in an association
  list, files in a map, and commands that may fail. It shows that the contracts can be met together, and the
  properties of the server tool are evaluated on it.
\<close>

section \<open>Packing\<close>

text \<open>Lists of texts as one text: every character of an element follows a 1, every element ends with a 0.\<close>

definition pack1 :: "string \<Rightarrow> string" where
  "pack1 x = concat (map (\<lambda>c. [CHR ''1'', c]) x) @ ''0''"

definition pack :: "string list \<Rightarrow> string" where
  "pack xs = concat (map pack1 xs)"

fun unpack_from :: "string \<Rightarrow> string \<Rightarrow> string list option" where
  "unpack_from cur [] = (if cur = [] then Some [] else None)"
| "unpack_from cur (t # r) =
     (if t = CHR ''0'' then map_option ((#) cur) (unpack_from [] r)
      else case r of [] \<Rightarrow> None | c # r' \<Rightarrow> unpack_from (cur @ [c]) r')"

definition unpack :: "string \<Rightarrow> string list option" where
  "unpack t = unpack_from [] t"

lemma unpack_from_pack1: "unpack_from cur (pack1 x @ r) = map_option ((#) (cur @ x)) (unpack_from [] r)"
  by (induction x arbitrary: cur) (simp_all add: pack1_def)

lemma unpack_pack [simp]: "unpack (pack xs) = Some xs"
  unfolding unpack_def pack_def by (induction xs) (simp_all add: unpack_from_pack1)

section \<open>The metadata as bytes\<close>

definition pack_record :: "friend_record \<Rightarrow> string" where
  "pack_record r = pack ([fr_public_key r, fr_name r] @ (case fr_private_key r of None \<Rightarrow> [] | Some k \<Rightarrow> [k]))"

definition unpack_record :: "string \<Rightarrow> friend_record option" where
  "unpack_record t =
     (case unpack t of
        Some [k, n] \<Rightarrow> Some \<lparr>fr_public_key = k, fr_name = n, fr_private_key = None\<rparr>
      | Some [k, n, p] \<Rightarrow> Some \<lparr>fr_public_key = k, fr_name = n, fr_private_key = Some p\<rparr>
      | _ \<Rightarrow> None)"

definition pack_store :: "friend_store \<Rightarrow> bytes" where
  "pack_store s = bytes_of_str (pack [replicate (schema s) CHR ''v'', pack (map pack_record (records s)), pack (owners s)])"

definition unpack_store :: "bytes \<Rightarrow> friend_store option" where
  "unpack_store b =
     (case unpack (str_of_bytes (butlast b)) of
        Some [v, rs, ks] \<Rightarrow>
          (case (unpack rs, unpack ks) of
             (Some rs', Some ks') \<Rightarrow>
               map_option (\<lambda>rs''. \<lparr>schema = length v, records = rs'', owners = ks'\<rparr>) (those (map unpack_record rs'))
           | _ \<Rightarrow> None)
      | _ \<Rightarrow> None)"

definition packed_json :: store_json where
  "packed_json = \<lparr>js_schema = (\<lambda>b. map_option schema (unpack_store b)),
     js_legacy = (\<lambda>b. map_option (\<lambda>s. (schema s, records s)) (unpack_store b)),
     js_store = unpack_store, js_encode = (\<lambda>s. Some (pack_store s))\<rparr>"

lemma unpack_pack_record [simp]: "unpack_record (pack_record r) = Some r"
  by (cases r; cases "fr_private_key r") (simp_all add: unpack_record_def pack_record_def)

lemma those_all: "(\<And>x. x \<in> set xs \<Longrightarrow> f (g x) = Some x) \<Longrightarrow> those (map f (map g xs)) = Some xs"
  by (induction xs) simp_all

lemma unpack_pack_store: "unpack_store (pack_store s @ [10]) = Some s"
proof -
  have "those (map unpack_record (map pack_record (records s))) = Some (records s)"
    by (rule those_all) simp
  then show ?thesis by (simp add: unpack_store_def pack_store_def del: map_map)
qed

interpretation packed: json_laws packed_json
  by unfold_locales (auto simp: packed_json_def unpack_pack_store)

section \<open>The machine\<close>

record machine =
  m_peers :: "(string \<times> string) list"
  m_files :: "string \<Rightarrow> bytes option"
  m_keys :: "string list"
  m_saves :: nat

definition conf_text :: "(string \<times> string) list \<Rightarrow> string" where
  "conf_text ps = pack (map (\<lambda>(k, a). pack [k, a]) ps)"

definition unconf :: "string \<Rightarrow> (string \<times> string) list option" where
  "unconf t =
     (case unpack t of
        None \<Rightarrow> None
      | Some es \<Rightarrow> those (map (\<lambda>e. case unpack e of Some [k, a] \<Rightarrow> Some (k, a) | _ \<Rightarrow> None) es))"

lemma unconf_conf [simp]: "unconf (conf_text ps) = Some ps"
proof -
  have "those (map (\<lambda>e. case unpack e of Some [k, a] \<Rightarrow> Some (k, a) | _ \<Rightarrow> None) (map (\<lambda>(k, a). pack [k, a]) ps)) = Some ps"
    by (rule those_all) auto
  then show ?thesis by (simp add: unconf_def conf_text_def del: map_map)
qed

definition interface_wg0 :: string where "interface_wg0 = ''wg0''"

definition allowed_text :: "(string \<times> string) list \<Rightarrow> string" where
  "allowed_text ps = concat (map (\<lambda>(k, a). k @ CHR 0x09 # a @ [CHR 0x0A]) ps)"

text \<open>The public key of a private key; \<^verbatim>\<open>genkey\<close> hands out prepared keys and never one the metadata names.\<close>

definition public_of :: "string \<Rightarrow> string" where
  "public_of k = rev (take 43 k) @ drop 43 k"

definition machine_store :: "machine \<Rightarrow> friend_store option" where
  "machine_store w = metadata packed_json (m_files w (metadata_path interface_wg0))"

definition machine_genkey :: "machine \<Rightarrow> machine \<times> string option" where
  "machine_genkey w =
     (case m_keys w of
        [] \<Rightarrow> (w, None)
      | k # ks \<Rightarrow>
          (w\<lparr>m_keys := ks\<rparr>,
           if wireguard_key (trim k) \<and> (case machine_store w of None \<Rightarrow> True | Some s \<Rightarrow> trim (public_of (trim k)) \<notin> store_keys s)
           then Some k else None))"

definition BOOT_FILE :: string where "BOOT_FILE = ''/etc/wireguard/wg0.conf''"

text \<open>\<^verbatim>\<open>wg-quick save\<close> writes the boot file; \<open>m_saves = n\<close> makes the \<open>n\<close>-th of them from now fail, and 0 none.\<close>

definition machine_command :: "string list \<Rightarrow> string option \<Rightarrow> machine \<Rightarrow> machine \<times> string option" where
  "machine_command args inp w =
     (if args = [''id'', ''-u''] then (w, Some ''0'')
      else if args = [''wg'', ''genkey''] then machine_genkey w
      else if args = [''wg'', ''pubkey''] then (w, map_option public_of inp)
      else if args = [''wg'', ''show'', interface_wg0, ''allowed-ips'']
      then (w, if distinct (listed_keys (allowed_text (m_peers w))) then Some (allowed_text (m_peers w)) else None)
      else if args = [''wg'', ''show'', interface_wg0, ''public-key''] then (w, Some ''server'')
      else if args = [''wg'', ''showconf'', interface_wg0] then (w, Some (conf_text (m_peers w)))
      else if args = [''wg-quick'', ''save'', interface_wg0]
      then (if m_saves w = 1 then (w\<lparr>m_saves := 0\<rparr>, None)
            else (w\<lparr>m_saves := m_saves w - 1, m_files := (m_files w)(BOOT_FILE \<mapsto> bytes_of_str (conf_text (m_peers w)))\<rparr>, Some []))
      else
        (case args of
           [a, b, c, d] \<Rightarrow>
             (if [a, b, c, d] = [''wg'', ''setconf'', interface_wg0, ''/dev/stdin'']
              then (case Option.bind inp unconf of None \<Rightarrow> (w, None) | Some ps \<Rightarrow> (w\<lparr>m_peers := ps\<rparr>, Some []))
              else (w, None))
         | [a, b, c, d, k, e] \<Rightarrow>
             (if [a, b, c, d, e] = [''wg'', ''set'', interface_wg0, ''peer'', ''remove'']
              then (w\<lparr>m_peers := AList.delete k (m_peers w)\<rparr>, Some []) else (w, None))
         | [a, b, c, d, k, e, r] \<Rightarrow>
             (if [a, b, c, d, e] = [''wg'', ''set'', interface_wg0, ''peer'', ''allowed-ips'']
              then (w\<lparr>m_peers := AList.update k r (m_peers w)\<rparr>, Some []) else (w, None))
         | _ \<Rightarrow> (w, None)))"

definition regular_meta :: "bytes \<Rightarrow> file_meta" where
  "regular_meta b = \<lparr>is_dir = False, is_regular = True, is_symlink = False, perm = 384, owner = 0, links = 1,
     bytes_long = length b, inode = (0, 0)\<rparr>"

definition directory_meta :: file_meta where
  "directory_meta = \<lparr>is_dir = True, is_regular = False, is_symlink = False, perm = 448, owner = 0, links = 2,
     bytes_long = 0, inode = (0, 1)\<rparr>"

definition set_file :: "string \<Rightarrow> bytes option \<Rightarrow> machine \<Rightarrow> machine" where
  "set_file p c w = w\<lparr>m_files := (m_files w)(p := c)\<rparr>"

definition machine_sys :: "machine sys" where
  "machine_sys = \<lparr>sys_command = machine_command, sys_pid = 7,
     fs_exists = (\<lambda>p w. (w, p = FRIENDS_DIR \<or> m_files w p \<noteq> None)),
     fs_lstat = (\<lambda>p w. (w, if p = FRIENDS_DIR then Io_Ok directory_meta
       else case m_files w p of None \<Rightarrow> Missing | Some b \<Rightarrow> Io_Ok (regular_meta b))),
     fs_open = (\<lambda>p w. (w, case m_files w p of None \<Rightarrow> Missing | Some b \<Rightarrow> Io_Ok (regular_meta b, b))),
     fs_read_text = (\<lambda>p w. (w, case m_files w p of None \<Rightarrow> Missing | Some b \<Rightarrow> Io_Ok (str_of_bytes b))),
     fs_open_append = (\<lambda>create_it p w. case m_files w p of Some b \<Rightarrow> (w, Io_Ok (regular_meta b))
       | None \<Rightarrow> if create_it then (set_file p (Some []) w, Io_Ok (regular_meta [])) else (w, Missing)),
     fs_lock = (\<lambda>p w. (w, Io_Ok ())), fs_mkdir = (\<lambda>p w. (w, Io_Failed)),
     fs_create_new = (\<lambda>p w. if m_files w p = None then (set_file p (Some []) w, Io_Ok ()) else (w, Io_Failed)),
     fs_append = (\<lambda>p bs w. case m_files w p of None \<Rightarrow> (w, Missing) | Some b \<Rightarrow> (set_file p (Some (b @ bs)) w, Io_Ok ())),
     fs_sync = (\<lambda>p w. (w, Io_Ok ())),
     fs_rename = (\<lambda>p q w. case m_files w p of None \<Rightarrow> (w, Missing)
       | Some b \<Rightarrow> (set_file q (Some b) (set_file p None w), Io_Ok ())),
     fs_remove = (\<lambda>p w. (set_file p None w, Io_Ok ()))\<rparr>"

definition machine_env :: "machine server_env" where
  "machine_env = \<lparr>se_sys = machine_sys, se_net = std_ipnet, se_json = packed_json, se_lower = id,
     se_warp = (\<lambda>_. None), se_version = ''0''\<rparr>"

lemma env_simps [simp]: "se_sys machine_env = machine_sys" "se_net machine_env = std_ipnet" "se_json machine_env = packed_json"
  by (simp_all add: machine_env_def)

lemma set_file_simps [simp]: "m_peers (set_file p c w) = m_peers w" "m_files (set_file p c w) = (m_files w)(p := c)"
  "m_saves (set_file p c w) = m_saves w" "m_keys (set_file p c w) = m_keys w"
  by (simp_all add: set_file_def)

text \<open>No command touches a file but the boot file, and only three commands touch the peers.\<close>

lemma command_files: "q \<noteq> BOOT_FILE \<Longrightarrow> m_files (fst (machine_command args inp w)) q = m_files w q"
  by (auto simp: machine_command_def machine_genkey_def split: list.splits option.splits)

lemma genkey_peers: "m_peers (fst (machine_genkey w)) = m_peers w"
  by (simp add: machine_genkey_def split: list.splits)

lemma command_reading:
  assumes "read_only args"
  shows "m_peers (fst (machine_command args inp w)) = m_peers w"
proof -
  have "args \<noteq> [''wg'', ''setconf'', c, d]" "args \<noteq> [''wg'', ''set'', c, d, k, e]" "args \<noteq> [''wg'', ''set'', c, d, k, e, r]" for c d k e r
    using assms by (auto simp: read_only_def WARP_HELPER_def)
  then show ?thesis
    by (auto simp: machine_command_def genkey_peers split: list.splits option.splits)
qed

interpretation wg0: wg_machine machine_env interface_wg0 m_peers conf_text
proof (unfold_locales, goal_cases)
  case (1 args inp w)
  then show ?case by (simp add: machine_sys_def command_reading)
qed (auto simp: machine_sys_def machine_command_def split: option.splits if_splits)

interpretation meta0: metadata_machine machine_env interface_wg0 m_files
proof (intro metadata_machine.intro metadata_machine_axioms.intro, unfold env_simps, goal_cases)
  case 1
  show ?case by (rule packed.json_laws_axioms)
next
  case 2
  show ?case by (rule std_text.ipnet_text_laws_axioms)
next
  case (5 p args inp w)
  have "metadata_path interface_wg0 \<noteq> BOOT_FILE" by (simp add: metadata_path_def FRIENDS_DIR_def BOOT_FILE_def)
  then show ?case by (simp add: machine_sys_def command_files)
qed (auto simp: machine_sys_def machine_command_def machine_genkey_def machine_store_def packed_json_def
      split: option.splits if_splits list.splits)

section \<open>Evaluation\<close>

definition demo_key :: "char \<Rightarrow> string" where
  "demo_key c = replicate 43 c @ ''=''"

definition demo_call :: call where
  "demo_call = \<lparr>call_interface = interface_wg0, call_stdin = None, call_clock = None, call_friend_json = (\<lambda>_. None), call_v6 = \<lparr>v6_parses = (\<lambda>_. False), v6_canonical = (\<lambda>_. False)\<rparr>\<rparr>"

definition demo_machine :: machine where
  "demo_machine = \<lparr>m_peers = [], m_files = Map.empty, m_keys = [demo_key CHR ''b''], m_saves = 1\<rparr>"

lemmas machine_simps = bnd_def ret_def throw_def lift_def require_def run_def run_with_input_def io_def io_opt_def observe_def
  machine_sys_def machine_command_def regular_meta_def directory_meta_def set_file_def interface_wg0_def

lemma lock_free:
  assumes "m_files w TUNNEL_LOCK = None"
  shows "mutating_lock machine_sys w = (set_file TUNNEL_LOCK (Some []) w, Inr ())"
  using assms
  by (simp add: mutating_lock_def machine_simps TUNNEL_LOCK_def FRIENDS_DIR_def expected_uid_def writable_by_others_def)

lemma root_allowed: "require_root machine_sys w = (w, Inr ())"
  by (simp add: require_root_def machine_simps) (code_simp)

lemma demo_key_valid: "validate_peer_key (demo_key CHR ''c'') = Inr ()"
  by (simp add: validate_peer_key_def demo_key_def list_all_iff base64_char_def nth_append
      ascii_alphanumeric_def ascii_lower_def)

lemma demo_tunnel: "validate_tunnel_ip std_ipnet ''10.202.0.5/32'' = Inr (net 10 202 0 5 32)"
  by (simp add: validate_tunnel_ip_def eval_fields ip_octets_def ok_or_def)

text \<open>A failing save: the peer is set, and the rollback takes it back.\<close>

lemma demo_add_peer:
  assumes "m_peers w = []" and "m_saves w = 1"
  shows "snd (add_peer machine_sys std_ipnet interface_wg0 (demo_key CHR ''c'') ''10.202.0.5/32'' w) =
     Inl (Command_Failed [''wg-quick'', ''save'', ''wg0''])"
proof -
  have a: "allowed_text [] = []" "listed_keys [] = []" by (simp_all add: allowed_text_def listed_keys_def lines_def List.map_filter_def)
  have r: "\<not> routes_conflict std_ipnet [] key ns" for key ns by (simp add: routes_conflict_def lines_def)
  show ?thesis
    using assms
    by (simp add: add_peer_def bnd_lift demo_key_valid demo_tunnel ensure_routes_available_def wg_show_def wg_showconf_def
        wg_allow_def wg_setconf_def save_def with_rollback_def machine_simps a r status_result_def)
qed

lemma snd_bnd: "snd (m w) = Inl e \<Longrightarrow> snd (bnd m f w) = Inl e"
  by (cases "m w") (simp add: bnd_def)

lemma demo_add_fails:
  "snd (server_main machine_env demo_call (Add_Peer (demo_key CHR ''c'') ''10.202.0.5/32'' None) demo_machine) =
     Inl (Command_Failed [''wg-quick'', ''save'', ''wg0''])"
  by (simp add: server_main_def demo_call_def add_peer_command_def locked_def legacy_owner_def bnd_lift
      bnd_def[of "require_root _"] bnd_def[of "mutating_lock _"] root_allowed lock_free snd_bnd demo_add_peer
      demo_machine_def del: One_nat_def)

text \<open>A plain removal whose save fails: the peer is gone from the live configuration and nothing takes that back.\<close>

definition peer_machine :: machine where
  "peer_machine = demo_machine\<lparr>m_peers := [(demo_key CHR ''c'', ''10.202.0.5/32'')]\<rparr>"

abbreviation plain_removal :: server_command where
  "plain_removal \<equiv> Remove_Peer (demo_key CHR ''c'') None"

lemma peer_removed:
  assumes "m_peers w = [(demo_key CHR ''c'', a)]" and "m_saves w = 1"
  shows "bnd (wg_remove machine_sys interface_wg0 (demo_key CHR ''c'')) (\<lambda>_. save machine_sys interface_wg0) w =
    (w\<lparr>m_peers := [], m_saves := 0\<rparr>, Inl (Command_Failed [''wg-quick'', ''save'', interface_wg0]))"
  using assms by (simp add: wg_remove_def save_def machine_simps)

lemma plain_removal_not_rolled_back:
  "snd (server_main machine_env demo_call plain_removal peer_machine) = Inl (Command_Failed [''wg-quick'', ''save'', interface_wg0])"
  "m_peers (fst (server_main machine_env demo_call plain_removal peer_machine)) = []"
proof -
  have w: "m_peers (set_file TUNNEL_LOCK (Some []) peer_machine) = [(demo_key CHR ''c'', ''10.202.0.5/32'')]"
    "m_saves (set_file TUNNEL_LOCK (Some []) peer_machine) = 1" "m_files peer_machine TUNNEL_LOCK = None"
    by (simp_all add: peer_machine_def demo_machine_def)
  show "snd (server_main machine_env demo_call plain_removal peer_machine) = Inl (Command_Failed [''wg-quick'', ''save'', interface_wg0])"
    "m_peers (fst (server_main machine_env demo_call plain_removal peer_machine)) = []"
    using lock_free[OF w(3)] peer_removed[OF w(1,2)]
    by (simp_all add: server_main_def demo_call_def locked_def legacy_owner_def bnd_lift bnd_ran[where m = "require_root _"]
      bnd_ran[where m = "mutating_lock _"] root_allowed bnd_ran[where m = "bnd (wg_remove _ _ _) _"])
qed

theorem failed_command_restores_wireguard_witness:
  "m_peers (fst (server_main machine_env demo_call (Add_Peer (demo_key CHR ''c'') ''10.202.0.5/32'' None) demo_machine)) = [] \<and>
   m_peers (fst (server_main machine_env demo_call plain_removal peer_machine))
     \<in> driven machine_sys m_peers [[''wg'', ''set'', interface_wg0, ''peer'', demo_key CHR ''c'', ''remove'']] (m_peers peer_machine)"
proof -
  let ?add = "Add_Peer (demo_key CHR ''c'') ''10.202.0.5/32'' None"
  have i: "wg_machine machine_env (call_interface demo_call) m_peers conf_text"
    by (simp add: demo_call_def wg0.wg_machine_axioms)
  have own: "own_steps (call_interface demo_call) ?add = []"
    "own_steps (call_interface demo_call) plain_removal = [[''wg'', ''set'', interface_wg0, ''peer'', demo_key CHR ''c'', ''remove'']]"
    by (simp_all add: own_steps_def demo_call_def)
  note kept = failed_command_restores_wireguard[OF i]
  have "m_peers (fst (server_main machine_env demo_call ?add demo_machine)) = []"
    using kept[of ?add demo_machine] demo_add_fails own(1)
    by (cases "server_main machine_env demo_call ?add demo_machine") (simp add: demo_machine_def)
  moreover have "m_peers (fst (server_main machine_env demo_call plain_removal peer_machine))
     \<in> driven machine_sys m_peers [[''wg'', ''set'', interface_wg0, ''peer'', demo_key CHR ''c'', ''remove'']] (m_peers peer_machine)"
    using kept[of plain_removal peer_machine] plain_removal_not_rolled_back(1)
    unfolding own(2) by (cases "server_main machine_env demo_call plain_removal peer_machine") (simp del: driven.simps)
  ultimately show ?thesis by blast
qed

definition demo_store :: friend_store where
  "demo_store = \<lparr>schema = 2, records = [], owners = [demo_key CHR ''c'']\<rparr>"

definition owner_machine :: machine where
  "owner_machine = demo_machine\<lparr>m_files := [metadata_path interface_wg0 \<mapsto> pack_store demo_store @ [10]]\<rparr>"

lemma demo_store_valid: "store_valid demo_store"
  using demo_key_valid by (simp add: store_valid_def demo_store_def validate_peer_key_iff)

lemma demo_store_short: "length (pack_store demo_store) < 1000"
proof -
  have "length (pack [x]) = 2 * length x + 1" for x by (simp add: pack_def pack1_def length_concat comp_def sum_list_triv)
  moreover have "length (pack [x, y, z]) = 2 * (length x + length y + length z) + 3" for x y z
    by (simp add: pack_def pack1_def length_concat comp_def sum_list_triv)
  ultimately show ?thesis
    by (simp add: pack_store_def demo_store_def bytes_of_str_def demo_key_def) (simp add: pack_def)
qed

lemma owner_metadata: "metadata packed_json (m_files owner_machine (metadata_path interface_wg0)) = Some demo_store"
proof -
  have "encode_store packed_json demo_store = Inr (pack_store demo_store)"
    using demo_store_short by (simp add: encode_store_def packed_json_def ok_or_def STORE_LIMIT_def)
  from packed.parse_written[OF this _ demo_store_valid] show ?thesis
    by (simp add: metadata_def owner_machine_def demo_store_def)
qed

theorem metadata_stays_valid_witness:
  "\<exists>s'. metadata packed_json (m_files (after_commands machine_env
        [(demo_call, Remove_Router_Peer (demo_key CHR ''c'')), (demo_call, Create_Router_Profile ''1.2.3.4:8443'')]
        owner_machine) (metadata_path interface_wg0)) = Some s' \<and>
      store_valid s' \<and> demo_key CHR ''c'' \<in> set (owners s')"
proof -
  let ?cs = "[(demo_call, Remove_Router_Peer (demo_key CHR ''c'')), (demo_call, Create_Router_Profile ''1.2.3.4:8443'')]"
  have i: "\<forall>c\<in>set ?cs. call_interface (fst c) = interface_wg0" by (simp add: demo_call_def)
  have m: "metadata (se_json machine_env) (m_files owner_machine (metadata_path interface_wg0)) = Some demo_store"
    by (simp add: owner_metadata)
  have o: "set (owners demo_store) = {demo_key CHR ''c''}" by (simp add: demo_store_def)
  show ?thesis
    using metadata_stays_valid[OF meta0.metadata_machine_axioms i m demo_store_valid]
    unfolding env_simps o by blast
qed

end
