(* ===== verification/Agent_Host.thy ===== *)
theory Agent_Host
  imports Fallible Std_Char Geo_Wire
begin

text \<open>
  The machine under the security state of the agent: the clocks, the random numbers and the files that
  \<^verbatim>\<open>gofro-agent/src/auth.rs\<close> and \<^verbatim>\<open>onboarding.rs\<close> use, as the record \<open>host\<close> over a state \<open>'w\<close>; paths; and
  the contract under which the content of a file changes.
\<close>

section \<open>The host\<close>

record host_meta =
  hm_file :: bool
  hm_mode :: nat
  hm_len :: nat

record 'w host =
  host_now :: "'w \<Rightarrow> 'w \<times> nat"
  host_random :: "nat \<Rightarrow> 'w \<Rightarrow> 'w \<times> bytes option"
  host_exists :: "string \<Rightarrow> 'w \<Rightarrow> 'w \<times> bool"
  host_stat :: "string \<Rightarrow> 'w \<Rightarrow> 'w \<times> host_meta io"
  host_open :: "string \<Rightarrow> 'w \<Rightarrow> 'w \<times> (host_meta \<times> bytes) io"
  host_read_text :: "string \<Rightarrow> 'w \<Rightarrow> 'w \<times> string io"
  host_create_new :: "string \<Rightarrow> 'w \<Rightarrow> 'w \<times> unit io"
  host_truncate :: "string \<Rightarrow> 'w \<Rightarrow> 'w \<times> unit io"
  host_append :: "string \<Rightarrow> bytes \<Rightarrow> 'w \<Rightarrow> 'w \<times> unit io"
  host_sync :: "string \<Rightarrow> 'w \<Rightarrow> 'w \<times> unit io"
  host_rename :: "string \<Rightarrow> string \<Rightarrow> 'w \<Rightarrow> 'w \<times> unit io"
  host_remove :: "string \<Rightarrow> 'w \<Rightarrow> 'w \<times> unit io"

text \<open>The errors of the lower operations: only one of them is told apart by its callers.\<close>

datatype host_error = Host_Failed | Record_Published

type_synonym ('w, 'a) host_op = "(host_error, 'w, 'a) operation"

text \<open>\<^verbatim>\<open>remove_file\<close> where a missing file is fine.\<close>

definition remove_if_there :: "'w host \<Rightarrow> string \<Rightarrow> ('w, unit) host_op" where
  "remove_if_there H p = bnd (io_opt Host_Failed (host_remove H p)) (\<lambda>_. ret ())"

section \<open>Paths\<close>

text \<open>
  \<^verbatim>\<open>Path::file_name\<close>, \<^verbatim>\<open>parent\<close>, \<^verbatim>\<open>join\<close> and \<^verbatim>\<open>with_extension\<close> on paths without empty or \<^verbatim>\<open>.\<close>
  components, which is how the agent is configured.
\<close>

definition path_split :: "string \<Rightarrow> string \<times> string" where
  "path_split p = (case rsplit_once (CHR ''/'') p of None \<Rightarrow> ([], p) | Some (d, f) \<Rightarrow> (d @ ''/'', f))"

definition path_parent :: "string \<Rightarrow> string option" where
  "path_parent p =
     (case path_split p of
        (d, f) \<Rightarrow> if f = [] then None else if length d \<le> 1 then Some d else Some (butlast d))"

definition path_join :: "string \<Rightarrow> string \<Rightarrow> string" where
  "path_join d f = (if d = [] \<or> last d = CHR ''/'' then d @ f else d @ ''/'' @ f)"

definition with_extension :: "string \<Rightarrow> string \<Rightarrow> string" where
  "with_extension p ext =
     (case path_split p of
        (d, f) \<Rightarrow>
          if f = [] \<or> f = ''..'' then p
          else d @ (case rsplit_once (CHR ''.'') f of None \<Rightarrow> f | Some (s, _) \<Rightarrow> if s = [] then f else s) @ ''.'' @ ext)"

section \<open>The contract of the files\<close>

text \<open>\<open>content w p\<close> is what a reader of the path \<open>p\<close> gets in the state \<open>w\<close>.\<close>

locale host_laws =
  fixes H :: "'w host" and content :: "'w \<Rightarrow> string \<Rightarrow> bytes option" and time :: "'w \<Rightarrow> nat"
  assumes now: "content (fst (host_now H w)) = content w"
    and random: "content (fst (host_random H n w)) = content w"
    and exists: "content (fst (host_exists H p w)) = content w"
    and exists_content: "snd (host_exists H p w) \<longleftrightarrow> content w p \<noteq> None"
    and stat: "content (fst (host_stat H p w)) = content w"
    and opened: "content (fst (host_open H p w)) = content w"
    and read_text: "content (fst (host_read_text H p w)) = content w"
    and read_text_content: "host_read_text H p w = (w', Io_Ok t) \<Longrightarrow> content w p = Some (bytes_of_str t)"
    and create_new: "q \<noteq> p \<Longrightarrow> content (fst (host_create_new H p w)) q = content w q"
    and created: "host_create_new H p w = (w', Io_Ok u) \<Longrightarrow> content w' p = Some []"
    and truncate: "q \<noteq> p \<Longrightarrow> content (fst (host_truncate H p w)) q = content w q"
    and append: "q \<noteq> p \<Longrightarrow> content (fst (host_append H p b w)) q = content w q"
    and appended: "host_append H p b w = (w', Io_Ok u) \<Longrightarrow> content w p = Some c \<Longrightarrow> content w' p = Some (c @ b)"
    and sync: "content (fst (host_sync H p w)) = content w"
    and rename: "q \<noteq> p \<Longrightarrow> q \<noteq> p' \<Longrightarrow> content (fst (host_rename H p p' w)) q = content w q"
    and renamed: "host_rename H p p' w = (w', Io_Ok u) \<Longrightarrow> content w' p' = content w p"
    and not_renamed: "host_rename H p p' w = (w', Missing) \<or> host_rename H p p' w = (w', Io_Failed) \<Longrightarrow>
          content w' p' = content w p'"
    and remove: "q \<noteq> p \<Longrightarrow> content (fst (host_remove H p w)) q = content w q"
    and clock: "host_now H w = (w', k) \<Longrightarrow> time w \<le> k \<and> time w' = k"

end
