(* ===== verification/Onboarding.thy ===== *)
theory Onboarding
  imports Agent_Host
begin

text \<open>
  The onboarding of a new router (\<^verbatim>\<open>gofro-agent/src/onboarding.rs\<close>): the marker file with its steps, the
  window in which the first password may be set, and the two transitions.
\<close>

definition STATE_LIMIT :: nat where "STATE_LIMIT = 32"

datatype setup_step = Admin_Step | Server_Step | Complete_Step

record onboarding_status =
  os_step :: setup_step
  os_setup_window :: "nat option"
  os_error :: "string option"

text \<open>The paths of the application state; \<open>ap_config\<close> is the configuration, whose directory holds the markers.\<close>

record agent_paths =
  ap_config :: string
  ap_password :: string
  ap_setup_code :: string

definition state_dir :: "agent_paths \<Rightarrow> host_error + string" where
  "state_dir P = ok_or (path_parent (ap_config P)) Host_Failed"

definition state_file :: "agent_paths \<Rightarrow> string \<Rightarrow> host_error + string" where
  "state_file P name = and_then (state_dir P) (\<lambda>d. Inr (path_join d name))"

text \<open>\<^verbatim>\<open>mode & 0o077\<close> is the remainder modulo 64.\<close>

definition read_limited :: "'w host \<Rightarrow> string \<Rightarrow> nat \<Rightarrow> ('w, bytes option) host_op" where
  "read_limited H path limit =
     bnd (io_opt Host_Failed (host_open H path)) (\<lambda>found.
     case found of
       None \<Rightarrow> ret None
     | Some (m, b) \<Rightarrow>
         bnd (require (\<not> (\<not> hm_file m \<or> hm_mode m mod 64 \<noteq> 0)) Host_Failed) (\<lambda>_.
         let v = take (limit + 1) b in
         if limit < length v then throw Host_Failed else ret (Some v)))"

definition parse_marker :: "bytes \<Rightarrow> host_error + setup_step option" where
  "parse_marker v =
     (if v = bytes_of_str (''admin'' @ [CHR 0x0A]) then Inr (Some Admin_Step)
      else if v = bytes_of_str (''server'' @ [CHR 0x0A]) then Inr (Some Server_Step)
      else Inl Host_Failed)"

definition marker :: "'w host \<Rightarrow> agent_paths \<Rightarrow> ('w, setup_step option) host_op" where
  "marker H P =
     bnd (lift (state_file P ''onboarding-state'')) (\<lambda>path.
     bnd (read_limited H path STATE_LIMIT) (\<lambda>found.
     case found of None \<Rightarrow> ret None | Some v \<Rightarrow> lift (parse_marker v)))"

definition configured :: "'w host \<Rightarrow> agent_paths \<Rightarrow> ('w, bool) host_op" where
  "configured H P = observe (host_exists H (ap_password P))"

definition onboarding_step :: "'w host \<Rightarrow> agent_paths \<Rightarrow> ('w, setup_step) host_op" where
  "onboarding_step H P =
     bnd (marker H P) (\<lambda>m.
     case m of
       None \<Rightarrow> ret Complete_Step
     | Some Admin_Step \<Rightarrow> bnd (configured H P) (\<lambda>c. if \<not> c then ret Admin_Step else throw Host_Failed)
     | Some Server_Step \<Rightarrow> bnd (configured H P) (\<lambda>c. if c then ret Server_Step else throw Host_Failed)
     | Some Complete_Step \<Rightarrow> throw Host_Failed)"

section \<open>The setup window\<close>

text \<open>\<^verbatim>\<open>str::from_utf8\<close>.\<close>

definition text_of :: "bytes \<Rightarrow> string option" where
  "text_of b = (if utf8_valid b then Some (str_of_bytes b) else None)"

definition trim_end :: "string \<Rightarrow> string" where
  "trim_end s = concat (rev (trim_start_chunks (rev (char_chunks s))))"

definition checked_sub :: "nat \<Rightarrow> nat \<Rightarrow> nat option" where
  "checked_sub a b = (if b \<le> a then Some (a - b) else None)"

text \<open>The window file as text; a file that is not UTF-8 is the case \<open>None\<close>.\<close>

definition window_seconds :: "string option \<Rightarrow> string \<Rightarrow> string \<Rightarrow> nat" where
  "window_seconds window boot uptime =
     (case window of
        None \<Rightarrow> 0
      | Some v \<Rightarrow>
          (case split_once (CHR '' '') (trim_end v) of
             None \<Rightarrow> 0
           | Some (stored_boot, deadline) \<Rightarrow>
               (case parse_uint (2 ^ 64) (hd (split_char (CHR ''.'') uptime)) of
                  None \<Rightarrow> 0
                | Some now \<Rightarrow>
                    (if stored_boot = boot
                     then (case Option.bind (parse_uint (2 ^ 64) deadline) (\<lambda>d. checked_sub d now) of
                             None \<Rightarrow> 0
                           | Some left \<Rightarrow> if left \<le> 900 then left else 0)
                     else 0))))"

text \<open>\<^verbatim>\<open>.ok()\<close> on an operation: its error is an answer.\<close>

definition attempt :: "('e, 'w, 'a) operation \<Rightarrow> ('f, 'w, 'a option) operation" where
  "attempt m w = (case m w of (w', Inr x) \<Rightarrow> (w', Inr (Some x)) | (w', Inl _) \<Rightarrow> (w', Inr None))"

definition setup_window_seconds :: "'w host \<Rightarrow> agent_paths \<Rightarrow> ('w, nat) host_op" where
  "setup_window_seconds H P =
     bnd (attempt (bnd (lift (state_file P ''onboarding-window'')) (\<lambda>path. read_limited H path 128))) (\<lambda>window.
     bnd (attempt (io Host_Failed (host_read_text H ''/proc/sys/kernel/random/boot_id''))) (\<lambda>boot.
     bnd (attempt (io Host_Failed (host_read_text H ''/proc/uptime''))) (\<lambda>uptime.
     ret (case (Option.bind window id, boot, uptime) of
            (Some w, Some b, Some u) \<Rightarrow> window_seconds (text_of w) (trim b) u
          | _ \<Rightarrow> 0))))"

section \<open>Status and transitions\<close>

definition onboarding_status_of :: "'w host \<Rightarrow> agent_paths \<Rightarrow> ('w, onboarding_status) host_op" where
  "onboarding_status_of H P =
     bnd (onboarding_step H P) (\<lambda>s.
     bnd (if s = Admin_Step then bnd (setup_window_seconds H P) (\<lambda>n. ret (Some n)) else ret None) (\<lambda>window.
     bnd (lift (state_file P ''onboarding-error'')) (\<lambda>path.
     bnd (read_limited H path 256) (\<lambda>e.
     ret \<lparr>os_step = s, os_setup_window = window, os_error = map_option (\<lambda>_. ''onboarding_failed'') e\<rparr>))))"

definition atomic_write :: "'w host \<Rightarrow> string \<Rightarrow> bytes \<Rightarrow> ('w, unit) host_op" where
  "atomic_write H path v =
     (let temporary = with_extension path ''new'' in
      bnd (io Host_Failed (host_truncate H temporary)) (\<lambda>_.
      bnd (io Host_Failed (host_append H temporary v)) (\<lambda>_.
      bnd (io Host_Failed (host_sync H temporary)) (\<lambda>_.
      bnd (io Host_Failed (host_rename H temporary path)) (\<lambda>_.
      bnd (lift (ok_or (path_parent path) Host_Failed)) (\<lambda>d.
      io Host_Failed (host_sync H d)))))))"

definition complete_admin :: "'w host \<Rightarrow> agent_paths \<Rightarrow> ('w, unit) host_op" where
  "complete_admin H P =
     bnd (configured H P) (\<lambda>c.
     bnd (require c Host_Failed) (\<lambda>_.
     bnd (marker H P) (\<lambda>m.
     case m of
       None \<Rightarrow> ret ()
     | Some s \<Rightarrow>
         bnd (case s of
                Admin_Step \<Rightarrow> bnd (lift (state_file P ''onboarding-state'')) (\<lambda>path. atomic_write H path (bytes_of_str (''server'' @ [CHR 0x0A])))
              | Server_Step \<Rightarrow> bnd (lift (state_dir P)) (\<lambda>d. io Host_Failed (host_sync H d))
              | Complete_Step \<Rightarrow> throw Host_Failed) (\<lambda>_.
         bnd (remove_if_there H (ap_setup_code P)) (\<lambda>_.
         bnd (lift (ok_or (path_parent (ap_setup_code P)) Host_Failed)) (\<lambda>d.
         io Host_Failed (host_sync H d)))))))"

definition complete_onboarding :: "'w host \<Rightarrow> agent_paths \<Rightarrow> ('w, onboarding_status) host_op" where
  "complete_onboarding H P =
     bnd (onboarding_step H P) (\<lambda>s.
     bnd (require (s = Server_Step) Host_Failed) (\<lambda>_.
     bnd (lift (state_file P ''onboarding-state'')) (\<lambda>path.
     bnd (io Host_Failed (host_remove H path)) (\<lambda>_.
     bnd (lift (state_dir P)) (\<lambda>d.
     bnd (io Host_Failed (host_sync H d)) (\<lambda>_.
     onboarding_status_of H P))))))"

end
