(* ===== verification/Auth.thy ===== *)
theory Auth
  imports Onboarding Kdf Model
begin

text \<open>
  The login of the web panel (\<^verbatim>\<open>gofro-agent/src/auth.rs\<close>): the credential file, the session table, and the
  handlers of the requests. A handler ends early with a response, so responses are its errors; the two
  ends are joined by \<open>respond\<close>.
\<close>

definition SESSION :: string where "SESSION = ''__Host-gofro-session''"
definition CSRF :: string where "CSRF = ''__Host-gofro-csrf''"

text \<open>Instants count nanoseconds; \<^verbatim>\<open>Duration::from_secs(1800)\<close>, and the second between failed logins.\<close>

definition TTL :: nat where "TTL = 1800 * 10 ^ 9"
definition THROTTLE :: nat where "THROTTLE = 10 ^ 9"

section \<open>State\<close>

record auth_session =
  au_token :: string
  au_csrf :: string
  au_expires :: nat

text \<open>
  The state of the agent: the session table and the last failed login behind one lock, which a panic may
  have poisoned; the single permit for hashing; and the machine.
\<close>

record 'w agent =
  ag_sessions :: "auth_session list"
  ag_failed :: "nat option"
  ag_poisoned :: bool
  ag_permit :: bool
  ag_host :: 'w

record 'w auth_env =
  ae_host :: "'w host"
  ae_paths :: agent_paths
  ae_pbkdf2 :: "unit pbkdf2"
  ae_lan :: string
  ae_https_port :: nat

definition on_host :: "('e, 'w, 'a) operation \<Rightarrow> ('e, 'w agent, 'a) operation" where
  "on_host m a = (case m (ag_host a) of (w', r) \<Rightarrow> (a\<lparr>ag_host := w'\<rparr>, r))"

definition read_state :: "('w agent \<Rightarrow> 'a) \<Rightarrow> ('e, 'w agent, 'a) operation" where
  "read_state f a = (a, Inr (f a))"

definition update :: "('w agent \<Rightarrow> 'w agent) \<Rightarrow> ('e, 'w agent, unit) operation" where
  "update f a = (f a, Inr ())"

definition instant_now :: "'w host \<Rightarrow> ('e, 'w agent, nat) operation" where
  "instant_now H = on_host (observe (host_now H))"

text \<open>\<^verbatim>\<open>inner.lock()\<close> succeeds unless the lock is poisoned; \<open>e\<close> is what the caller makes of the failure.\<close>

definition lock_inner :: "'e \<Rightarrow> ('e, 'w agent, unit) operation" where
  "lock_inner e = bnd (read_state ag_poisoned) (\<lambda>p. require (\<not> p) e)"

text \<open>An operation whose failure is the error \<open>e\<close> of the caller.\<close>

definition or_else :: "'e \<Rightarrow> ('f, 'w, 'a) operation \<Rightarrow> ('e, 'w, 'a) operation" where
  "or_else e m w = (case m w of (w', Inr x) \<Rightarrow> (w', Inr x) | (w', Inl _) \<Rightarrow> (w', Inl e))"

section \<open>Requests and responses\<close>

text \<open>Header values are given with the result of \<^verbatim>\<open>to_str\<close>; names are lower case.\<close>

record request =
  rq_method :: string
  rq_path :: string
  rq_authority :: "string option"
  rq_headers :: "(string \<times> string option) list"

record auth_reply =
  ar_state :: string
  ar_csrf_token :: string
  ar_setup_method :: "string option"
  ar_setup_window :: "nat option"

datatype auth_body = Error_Body string | Reply_Body auth_reply | Next_Body

record auth_response =
  rs_status :: nat
  rs_body :: auth_body
  rs_cookies :: "string list"
  rs_no_store :: bool

definition header_all :: "request \<Rightarrow> string \<Rightarrow> string option list" where
  "header_all r name = map snd (filter (\<lambda>h. fst h = name) (rq_headers r))"

definition header_str :: "request \<Rightarrow> string \<Rightarrow> string option" where
  "header_str r name = (case header_all r name of [] \<Rightarrow> None | v # _ \<Rightarrow> v)"

definition auth_error :: "nat \<Rightarrow> string \<Rightarrow> auth_response" where
  "auth_error status code = \<lparr>rs_status = status, rs_body = Error_Body code, rs_cookies = [], rs_no_store = True\<rparr>"

definition csrf_cookie :: "string \<Rightarrow> string" where
  "csrf_cookie csrf = CSRF @ ''='' @ csrf @ ''; Path=/; Secure; HttpOnly; SameSite=Strict''"

definition session_cookie :: "string \<Rightarrow> string" where
  "session_cookie token = SESSION @ ''='' @ token @ ''; Path=/; Secure; HttpOnly; SameSite=Strict; Max-Age=1800''"

definition auth_reply_of :: "string \<Rightarrow> string \<Rightarrow> string option \<Rightarrow> string option \<Rightarrow> nat option \<Rightarrow> auth_response" where
  "auth_reply_of state csrf session setup_method window =
     \<lparr>rs_status = 200,
      rs_body = Reply_Body \<lparr>ar_state = state, ar_csrf_token = csrf, ar_setup_method = setup_method, ar_setup_window = window\<rparr>,
      rs_cookies = csrf_cookie csrf # (case session of None \<Rightarrow> [] | Some t \<Rightarrow> [session_cookie t]),
      rs_no_store = True\<rparr>"

text \<open>\<^verbatim>\<open>cookie\<close>: the value of the only cookie of that name; any malformed part spoils all.\<close>

fun cookie_parts :: "string \<Rightarrow> string list \<Rightarrow> string option \<Rightarrow> string option option" where
  "cookie_parts name [] found = Some found"
| "cookie_parts name (p # ps) found =
     (case split_once (CHR ''='') (trim p) of
        None \<Rightarrow> None
      | Some (key, v) \<Rightarrow>
          if key = name then (if found \<noteq> None then None else cookie_parts name ps (Some v))
          else cookie_parts name ps found)"

fun cookie_values :: "string \<Rightarrow> string option list \<Rightarrow> string option \<Rightarrow> string option option" where
  "cookie_values name [] found = Some found"
| "cookie_values name (v # vs) found =
     (case v of
        None \<Rightarrow> None
      | Some t \<Rightarrow>
          (case cookie_parts name (split_char (CHR '';'') t) found of
             None \<Rightarrow> None
           | Some found' \<Rightarrow> cookie_values name vs found'))"

definition cookie :: "request \<Rightarrow> string \<Rightarrow> string option" where
  "cookie r name = Option.bind (cookie_values name (header_all r ''cookie'') None) id"

definition constant_time_eq :: "string \<Rightarrow> string \<Rightarrow> bool" where
  "constant_time_eq a b \<longleftrightarrow> length a = length b \<and> a = b"

definition request_authority :: "request \<Rightarrow> string option" where
  "request_authority r =
     (case header_all r ''host'' of
        [] \<Rightarrow> rq_authority r
      | None # _ \<Rightarrow> None
      | Some h # rest \<Rightarrow>
          if rest \<noteq> [] then None
          else (case rq_authority r of
                  None \<Rightarrow> Some h
                | Some a \<Rightarrow> if a \<noteq> h then None else Some a))"

definition allowed_https_authority :: "'w auth_env \<Rightarrow> string \<Rightarrow> bool" where
  "allowed_https_authority E v \<longleftrightarrow>
     v = AP_DOMAIN \<or> v = AP_DOMAIN @ '':443'' \<or> v = AP_DOMAIN @ '':8443'' \<or>
     v = ae_lan E @ '':'' @ digits (ae_https_port E) \<or> v = AP_DOMAIN @ '':'' @ digits (ae_https_port E)"

definition allowed_host :: "'w auth_env \<Rightarrow> request \<Rightarrow> bool" where
  "allowed_host E r \<longleftrightarrow> (case request_authority r of None \<Rightarrow> False | Some v \<Rightarrow> allowed_https_authority E v)"

definition allowed_origin :: "'w auth_env \<Rightarrow> request \<Rightarrow> bool" where
  "allowed_origin E r \<longleftrightarrow>
     (case Option.bind (header_str r ''origin'') (strip_prefix ''https://'') of
        None \<Rightarrow> False | Some v \<Rightarrow> allowed_https_authority E v)"

definition csrf_header_is :: "request \<Rightarrow> string \<Rightarrow> bool" where
  "csrf_header_is r csrf \<longleftrightarrow> (case header_str r ''x-csrf-token'' of None \<Rightarrow> False | Some v \<Rightarrow> constant_time_eq v csrf)"

definition preauth :: "'w auth_env \<Rightarrow> request \<Rightarrow> bool" where
  "preauth E r \<longleftrightarrow> allowed_host E r \<and> allowed_origin E r \<and>
     (case (cookie r CSRF, header_str r ''x-csrf-token'') of
        (Some a, Some b) \<Rightarrow> constant_time_eq a b | _ \<Rightarrow> False)"

definition password_too_long :: "string \<Rightarrow> bool" where
  "password_too_long password \<longleftrightarrow> 128 < length password"

definition setup_password_error :: "string \<Rightarrow> string option" where
  "setup_password_error password =
     (if char_count password < 8 then Some ''password_too_short''
      else if password_too_long password then Some ''password_too_long'' else None)"

definition setup_code_matches :: "string \<Rightarrow> string \<Rightarrow> bool" where
  "setup_code_matches given codes \<longleftrightarrow> list_ex (constant_time_eq given) (lines codes)"

section \<open>The credential\<close>

definition hex :: "bytes \<Rightarrow> string" where
  "hex bs = concat (map show_hex_byte bs)"

text \<open>\<^verbatim>\<open>u8::from_str_radix\<close> on two characters: a sign and a digit, or two digits.\<close>

definition radix16 :: "char \<Rightarrow> char \<Rightarrow> u8 option" where
  "radix16 a b = (if a = CHR ''+'' then map_option of_nat (hex_value b) else parse_hex_byte [a, b])"

fun hex_pairs :: "string \<Rightarrow> bytes option" where
  "hex_pairs (a # b # cs) = Option.bind (radix16 a b) (\<lambda>x. map_option ((#) x) (hex_pairs cs))"
| "hex_pairs _ = Some []"

definition unhex :: "string \<Rightarrow> bytes option" where
  "unhex v = (if \<not> list_all ascii v \<or> odd (length v) then None else hex_pairs v)"

definition record_header :: "string list" where
  "record_header = [''gofro-scrypt-v1'', ''16384'', ''8'', ''1'']"

definition parse_record :: "string \<Rightarrow> (bytes \<times> bytes) option" where
  "parse_record v =
     (let parts = split_char (CHR ''$'') v in
      if length parts \<noteq> 6 \<or> take 4 parts \<noteq> record_header then None
      else Option.bind (unhex (parts ! 4)) (\<lambda>salt.
           Option.bind (unhex (parts ! 5)) (\<lambda>hash.
           if length salt \<noteq> 32 \<or> length hash \<noteq> 32 then None else Some (salt, hash))))"

definition show_record :: "bytes \<Rightarrow> bytes \<Rightarrow> string" where
  "show_record salt hash = join ''$'' (record_header @ [hex salt, hex hash])"

definition read_record :: "'w auth_env \<Rightarrow> ('w, bytes \<times> bytes) host_op" where
  "read_record E =
     bnd (io Host_Failed (host_stat (ae_host E) (ap_password (ae_paths E)))) (\<lambda>m.
     bnd (require (\<not> (hm_mode m mod 64 \<noteq> 0 \<or> 512 < hm_len m)) Host_Failed) (\<lambda>_.
     bnd (io Host_Failed (host_read_text (ae_host E) (ap_password (ae_paths E)))) (\<lambda>v.
     lift (ok_or (parse_record v) Host_Failed))))"

definition scrypt32 :: "'w auth_env \<Rightarrow> string \<Rightarrow> bytes \<Rightarrow> host_error + bytes" where
  "scrypt32 E password salt = (case scrypt (ae_pbkdf2 E) (bytes_of_str password) salt 32 of Inl _ \<Rightarrow> Inl Host_Failed | Inr h \<Rightarrow> Inr h)"

definition verify :: "'w auth_env \<Rightarrow> bytes \<times> bytes \<Rightarrow> string \<Rightarrow> host_error + bool" where
  "verify E r password = and_then (scrypt32 E password (fst r)) (\<lambda>actual. Inr (actual = snd r))"

definition random_bytes :: "'w auth_env \<Rightarrow> nat \<Rightarrow> ('w, bytes) host_op" where
  "random_bytes E n = bnd (observe (host_random (ae_host E) n)) (\<lambda>r. lift (ok_or r Host_Failed))"

definition token :: "'w auth_env \<Rightarrow> ('w, string) host_op" where
  "token E = bnd (random_bytes E 32) (\<lambda>b. ret (hex b))"

definition publish_record :: "'w auth_env \<Rightarrow> string \<Rightarrow> string \<Rightarrow> ('w, unit) host_op" where
  "publish_record E temporary v =
     bnd (io Host_Failed (host_append (ae_host E) temporary (bytes_of_str v))) (\<lambda>_.
     bnd (io Host_Failed (host_sync (ae_host E) temporary)) (\<lambda>_.
     io Host_Failed (host_rename (ae_host E) temporary (ap_password (ae_paths E)))))"

text \<open>After the rename the new password is live: a failure to sync the directory says so.\<close>

definition write_record :: "'w auth_env \<Rightarrow> string \<Rightarrow> ('w, unit) host_op" where
  "write_record E password =
     (let H = ae_host E; path = ap_password (ae_paths E); temporary = with_extension path ''new'' in
      bnd (random_bytes E 32) (\<lambda>salt.
      bnd (lift (scrypt32 E password salt)) (\<lambda>hash.
      bnd (remove_if_there H temporary) (\<lambda>_.
      bnd (io Host_Failed (host_create_new H temporary)) (\<lambda>_.
      bnd (with_cleanup (publish_record E temporary (show_record salt hash)) (\<lambda>w. fst (host_remove H temporary w))) (\<lambda>_.
      or_else Record_Published
        (bnd (lift (ok_or (path_parent path) Host_Failed)) (\<lambda>d. io Host_Failed (host_sync H d)))))))))"

section \<open>The session table\<close>

primrec retain_live :: "'w host \<Rightarrow> auth_session list \<Rightarrow> ('e, 'w agent, auth_session list) operation" where
  "retain_live H [] = ret []"
| "retain_live H (s # ss) =
     bnd (instant_now H) (\<lambda>now.
     bnd (retain_live H ss) (\<lambda>kept. ret (if now < au_expires s then s # kept else kept)))"

definition drop_expired :: "'w host \<Rightarrow> ('e, 'w agent, unit) operation" where
  "drop_expired H =
     bnd (read_state ag_sessions) (\<lambda>ss. bnd (retain_live H ss) (\<lambda>kept. update (\<lambda>a. a\<lparr>ag_sessions := kept\<rparr>)))"

definition MAX_SESSIONS :: nat where "MAX_SESSIONS = 32"

text \<open>\<^verbatim>\<open>while len >= 32 { remove(0) }\<close>.\<close>

definition make_room :: "auth_session list \<Rightarrow> auth_session list" where
  "make_room ss = drop (length ss - (MAX_SESSIONS - 1)) ss"

definition push_session :: "'w auth_env \<Rightarrow> string \<Rightarrow> string \<Rightarrow> ('e, 'w agent, unit) operation" where
  "push_session E t csrf =
     bnd (instant_now (ae_host E)) (\<lambda>now.
     update (\<lambda>a. a\<lparr>ag_sessions := ag_sessions a @ [\<lparr>au_token = t, au_csrf = csrf, au_expires = now + TTL\<rparr>]\<rparr>))"

definition issue :: "'w auth_env \<Rightarrow> (host_error, 'w agent, string \<times> string) operation" where
  "issue E =
     bnd (lock_inner Host_Failed) (\<lambda>_.
     bnd (drop_expired (ae_host E)) (\<lambda>_.
     bnd (update (\<lambda>a. a\<lparr>ag_sessions := make_room (ag_sessions a)\<rparr>)) (\<lambda>_.
     bnd (on_host (token E)) (\<lambda>t.
     bnd (on_host (token E)) (\<lambda>csrf.
     bnd (push_session E t csrf) (\<lambda>_. ret (t, csrf)))))))"

definition session_of :: "'w auth_env \<Rightarrow> request \<Rightarrow> (host_error, 'w agent, string \<times> string) operation" where
  "session_of E r =
     bnd (lift (ok_or (cookie r SESSION) Host_Failed)) (\<lambda>t.
     bnd (lock_inner Host_Failed) (\<lambda>_.
     bnd (drop_expired (ae_host E)) (\<lambda>_.
     bnd (read_state ag_sessions) (\<lambda>ss.
     lift (map_sum id (\<lambda>s. (au_token s, au_csrf s)) (ok_or (find (\<lambda>s. au_token s = t) ss) Host_Failed))))))"

primrec find_live :: "'w host \<Rightarrow> string option \<Rightarrow> auth_session list \<Rightarrow> ('e, 'w agent, auth_session option) operation" where
  "find_live H t [] = ret None"
| "find_live H t (s # ss) =
     (if Some (au_token s) = t
      then bnd (instant_now H) (\<lambda>now. if now < au_expires s then ret (Some s) else find_live H t ss)
      else find_live H t ss)"

definition throttled :: "'w host \<Rightarrow> ('e, 'w agent, bool) operation" where
  "throttled H =
     bnd (read_state ag_failed) (\<lambda>f.
     case f of None \<Rightarrow> ret False | Some t \<Rightarrow> bnd (instant_now H) (\<lambda>now. ret (now - t < THROTTLE)))"

definition note_failure :: "'w host \<Rightarrow> ('e, 'w agent, unit) operation" where
  "note_failure H = bnd (instant_now H) (\<lambda>now. update (\<lambda>a. a\<lparr>ag_failed := Some now\<rparr>))"

section \<open>The permit for hashing\<close>

definition acquire :: "(auth_response, 'w agent, unit) operation" where
  "acquire =
     bnd (read_state ag_permit) (\<lambda>p.
     bnd (require p (auth_error 409 ''auth_busy'')) (\<lambda>_. update (\<lambda>a. a\<lparr>ag_permit := False\<rparr>)))"

definition release :: "'w agent \<Rightarrow> 'w agent" where
  "release a = a\<lparr>ag_permit := True\<rparr>"

text \<open>The permit is dropped at the end of \<open>m\<close>, whichever end it is.\<close>

definition then_release :: "('e, 'w agent, 'a) operation \<Rightarrow> ('e, 'w agent, 'a) operation" where
  "then_release m a = (case m a of (a', r) \<Rightarrow> (release a', r))"

text \<open>A result that is passed on rather than returned from, as out of \<^verbatim>\<open>spawn_blocking\<close>.\<close>

definition outcome :: "('f, 'w, 'a) operation \<Rightarrow> ('e, 'w, 'f + 'a) operation" where
  "outcome m w = (case m w of (w', r) \<Rightarrow> (w', Inr r))"

definition respond :: "(auth_response, 'w, auth_response) operation \<Rightarrow> 'w \<Rightarrow> 'w \<times> auth_response" where
  "respond m w = (case m w of (w', Inl r) \<Rightarrow> (w', r) | (w', Inr r) \<Rightarrow> (w', r))"

definition internal_error :: auth_response where
  "internal_error = auth_error 500 ''internal_error''"

definition rejected :: auth_response where
  "rejected = auth_error 403 ''request_rejected''"

section \<open>Handlers\<close>

definition needs_setup :: "'w auth_env \<Rightarrow> ('e, 'w agent, bool) operation" where
  "needs_setup E = on_host (bnd (observe (host_exists (ae_host E) (ap_password (ae_paths E)))) (\<lambda>e. ret (\<not> e)))"

definition setup_window :: "'w auth_env \<Rightarrow> (auth_response, 'w agent, nat) operation" where
  "setup_window E = or_else internal_error (on_host (setup_window_seconds (ae_host E) (ae_paths E)))"

definition auth_status :: "'w auth_env \<Rightarrow> request \<Rightarrow> (auth_response, 'w agent, auth_response) operation" where
  "auth_status E r =
     bnd (require (allowed_host E r) rejected) (\<lambda>_.
     bnd (needs_setup E) (\<lambda>fresh.
     bnd (if fresh then or_else internal_error (on_host (token E))
          else bnd (outcome (session_of E r)) (\<lambda>found.
            case found of Inr (_, csrf) \<Rightarrow> ret csrf | Inl _ \<Rightarrow> or_else internal_error (on_host (token E)))) (\<lambda>csrf.
     bnd (needs_setup E) (\<lambda>fresh.
     bnd (if fresh then bnd (setup_window E) (\<lambda>n. ret (Some n)) else ret None) (\<lambda>window.
     bnd (if fresh then ret ''setup''
          else bnd (outcome (session_of E r)) (\<lambda>found. ret (if isl found then ''login'' else ''authenticated''))) (\<lambda>state.
     ret (auth_reply_of state csrf None (if fresh then Some ''code'' else None) window)))))))"

text \<open>
  \<^verbatim>\<open>setup\<close> and \<^verbatim>\<open>login\<close> in three parts: up to the blocking task, the task, and what follows it. The permit is
  held from the end of the first to the end of the last.
\<close>

definition setup_enter :: "'w auth_env \<Rightarrow> request \<Rightarrow> string option \<Rightarrow> string \<Rightarrow> (auth_response, 'w agent, unit) operation" where
  "setup_enter E r setup_code password =
     bnd (require (preauth E r) rejected) (\<lambda>_.
     bnd (case setup_password_error password of None \<Rightarrow> ret () | Some code \<Rightarrow> throw (auth_error 400 code)) (\<lambda>_.
     bnd acquire (\<lambda>_.
     with_cleanup
       (bnd (needs_setup E) (\<lambda>fresh.
        bnd (require fresh (auth_error 409 ''setup_completed'')) (\<lambda>_.
        bnd (setup_window E) (\<lambda>n.
        bnd (require (n \<noteq> 0) (auth_error 403 ''setup_closed'')) (\<lambda>_.
        bnd (or_else (auth_error 500 ''setup_unavailable'')
              (on_host (io Host_Failed (host_read_text (ae_host E) (ap_setup_code (ae_paths E)))))) (\<lambda>codes.
        require (case setup_code of None \<Rightarrow> False | Some given \<Rightarrow> setup_code_matches given codes)
          (auth_error 403 ''invalid_setup_code'')))))))
       release)))"

definition setup_blocking :: "'w auth_env \<Rightarrow> string \<Rightarrow> (auth_response, 'w agent, host_error + unit) operation" where
  "setup_blocking E password =
     outcome (on_host (bnd (write_record E password) (\<lambda>_. complete_admin (ae_host E) (ae_paths E))))"

definition issue_reply :: "'w auth_env \<Rightarrow> (auth_response, 'w agent, auth_response) operation" where
  "issue_reply E =
     bnd (or_else internal_error (issue E)) (\<lambda>(t, csrf). ret (auth_reply_of ''authenticated'' csrf (Some t) None None))"

definition setup_finish :: "'w auth_env \<Rightarrow> host_error + unit \<Rightarrow> (auth_response, 'w agent, auth_response) operation" where
  "setup_finish E result =
     then_release (case result of Inl _ \<Rightarrow> throw internal_error | Inr _ \<Rightarrow> issue_reply E)"

definition auth_setup :: "'w auth_env \<Rightarrow> request \<Rightarrow> string option \<Rightarrow> string \<Rightarrow> (auth_response, 'w agent, auth_response) operation" where
  "auth_setup E r setup_code password =
     bnd (setup_enter E r setup_code password) (\<lambda>_.
     bnd (setup_blocking E password) (setup_finish E))"

definition login_enter :: "'w auth_env \<Rightarrow> request \<Rightarrow> string \<Rightarrow> (auth_response, 'w agent, unit) operation" where
  "login_enter E r password =
     bnd (require (preauth E r) rejected) (\<lambda>_.
     bnd (require (\<not> password_too_long password) (auth_error 400 ''password_too_long'')) (\<lambda>_.
     bnd (needs_setup E) (\<lambda>fresh.
     bnd (require (\<not> fresh) (auth_error 409 ''setup_required'')) (\<lambda>_.
     bnd acquire (\<lambda>_.
     with_cleanup
       (bnd (lock_inner internal_error) (\<lambda>_.
        bnd (throttled (ae_host E)) (\<lambda>t. require (\<not> t) (auth_error 429 ''login_throttled''))))
       release)))))"

definition check_password :: "'w auth_env \<Rightarrow> string \<Rightarrow> ('w, bool) host_op" where
  "check_password E password = bnd (read_record E) (\<lambda>r. lift (verify E r password))"

definition login_blocking :: "'w auth_env \<Rightarrow> string \<Rightarrow> (auth_response, 'w agent, host_error + bool) operation" where
  "login_blocking E password =
     outcome (on_host
       (bnd (outcome (check_password E password)) (\<lambda>valid.
        if (case valid of Inr v \<Rightarrow> v | Inl _ \<Rightarrow> False)
        then bnd (complete_admin (ae_host E) (ae_paths E)) (\<lambda>_. ret True)
        else ret False)))"

definition login_finish :: "'w auth_env \<Rightarrow> host_error + bool \<Rightarrow> (auth_response, 'w agent, auth_response) operation" where
  "login_finish E result =
     then_release
       (case result of
          Inl _ \<Rightarrow> throw internal_error
        | Inr valid \<Rightarrow>
            if \<not> valid then
              bnd (lock_inner internal_error) (\<lambda>_.
              bnd (note_failure (ae_host E)) (\<lambda>_. throw (auth_error 401 ''invalid_password'')))
            else issue_reply E)"

definition auth_login :: "'w auth_env \<Rightarrow> request \<Rightarrow> string \<Rightarrow> (auth_response, 'w agent, auth_response) operation" where
  "auth_login E r password =
     bnd (login_enter E r password) (\<lambda>_.
     bnd (login_blocking E password) (login_finish E))"

text \<open>The whole of \<^verbatim>\<open>change_password_record\<close> runs under the lock of the session table.\<close>

definition change_password_record ::
  "'w auth_env \<Rightarrow> request \<Rightarrow> string \<Rightarrow> string \<Rightarrow> (string \<Rightarrow> ('w, unit) host_op) \<Rightarrow> (auth_response, 'w agent, auth_response) operation" where
  "change_password_record E r current_password password persist =
     bnd (lock_inner internal_error) (\<lambda>_.
     bnd (read_state ag_sessions) (\<lambda>ss.
     bnd (find_live (ae_host E) (cookie r SESSION) ss) (\<lambda>found.
     bnd (lift (ok_or found (auth_error 401 ''session_expired''))) (\<lambda>s.
     bnd (require (csrf_header_is r (au_csrf s)) rejected) (\<lambda>_.
     bnd (case setup_password_error password of None \<Rightarrow> ret () | Some code \<Rightarrow> throw (auth_error 400 code)) (\<lambda>_.
     bnd (throttled (ae_host E)) (\<lambda>t.
     bnd (require (\<not> t) (auth_error 429 ''login_throttled'')) (\<lambda>_.
     bnd (or_else internal_error (on_host (bnd (read_record E) (\<lambda>rec.
            if password_too_long current_password then ret False else lift (verify E rec current_password))))) (\<lambda>valid.
     bnd (if valid then ret ()
          else bnd (note_failure (ae_host E)) (\<lambda>_. throw (auth_error 400 ''invalid_current_password''))) (\<lambda>_.
     bnd (outcome (on_host (token E))) (\<lambda>t1.
     bnd (outcome (on_host (token E))) (\<lambda>t2.
     bnd (lift (case (t1, t2) of (Inr a, Inr b) \<Rightarrow> Inr (a, b) | _ \<Rightarrow> Inl internal_error)) (\<lambda>(t, csrf).
     bnd (outcome (on_host (persist password))) (\<lambda>written.
     bnd (case written of
            Inr _ \<Rightarrow> ret ()
          | Inl Record_Published \<Rightarrow>
              bnd (update (\<lambda>a. a\<lparr>ag_sessions := []\<rparr>)) (\<lambda>_. throw (auth_error 500 ''password_change_uncertain''))
          | Inl Host_Failed \<Rightarrow> throw internal_error) (\<lambda>_.
     bnd (update (\<lambda>a. a\<lparr>ag_sessions := [], ag_failed := None\<rparr>)) (\<lambda>_.
     bnd (push_session E t csrf) (\<lambda>_.
     ret (auth_reply_of ''authenticated'' csrf (Some t) None None))))))))))))))))))"

definition change_password :: "'w auth_env \<Rightarrow> request \<Rightarrow> string \<Rightarrow> string \<Rightarrow> (auth_response, 'w agent, auth_response) operation" where
  "change_password E r current_password password =
     bnd acquire (\<lambda>_. then_release (change_password_record E r current_password password (write_record E)))"

definition expired_cookie :: string where
  "expired_cookie = ''__Host-gofro-session=; Path=/; Secure; HttpOnly; SameSite=Strict; Max-Age=0''"

definition logout :: "'w auth_env \<Rightarrow> request \<Rightarrow> (auth_response, 'w agent, auth_response) operation" where
  "logout E r =
     bnd (outcome (session_of E r)) (\<lambda>found.
     bnd (case found of
            Inl _ \<Rightarrow> ret ()
          | Inr (t, csrf) \<Rightarrow>
              bnd (require (header_str r ''x-csrf-token'' = Some csrf) rejected) (\<lambda>_.
              bnd (lock_inner internal_error) (\<lambda>_.
              update (\<lambda>a. a\<lparr>ag_sessions := filter (\<lambda>s. au_token s \<noteq> t) (ag_sessions a)\<rparr>)))) (\<lambda>_.
     bnd (outcome (on_host (token E))) (\<lambda>t.
     let reply = auth_reply_of ''login'' (case t of Inr t \<Rightarrow> t | Inl _ \<Rightarrow> []) None None None in
     ret (reply\<lparr>rs_cookies := rs_cookies reply @ [expired_cookie]\<rparr>))))"

definition allowed_in_onboarding :: "request \<Rightarrow> bool" where
  "allowed_in_onboarding r \<longleftrightarrow>
     (rq_method r = ''GET'' \<and> rq_path r = ''/api/status'') \<or> rq_path r = ''/api/auth/logout'' \<or>
     rq_path r = ''/api/onboarding'' \<or> rq_path r = ''/api/onboarding/complete''"

definition require_auth :: "'w auth_env \<Rightarrow> request \<Rightarrow> (auth_response, 'w agent, auth_response) operation" where
  "require_auth E r =
     bnd (require (allowed_host E r) rejected) (\<lambda>_.
     bnd (or_else (auth_error 401 ''session_expired'') (session_of E r)) (\<lambda>(_, csrf).
     bnd (require (\<not> (rq_method r \<notin> {''GET'', ''HEAD'', ''OPTIONS''} \<and> (\<not> allowed_origin E r \<or> \<not> csrf_header_is r csrf))) rejected) (\<lambda>_.
     bnd (or_else (auth_error 403 ''onboarding_required'') (on_host (onboarding_step (ae_host E) (ae_paths E)))) (\<lambda>s.
     bnd (require (\<not> (s = Admin_Step \<and> \<not> allowed_in_onboarding r)) (auth_error 409 ''onboarding_required'')) (\<lambda>_.
     ret \<lparr>rs_status = 200, rs_body = Next_Body, rs_cookies = [], rs_no_store = False\<rparr>)))))"

text \<open>\<^verbatim>\<open>Auth::open\<close> on a started machine.\<close>

definition auth_open :: "'w auth_env \<Rightarrow> 'w \<Rightarrow> 'w \<times> (host_error + 'w agent)" where
  "auth_open E w =
     (case bnd (observe (host_exists (ae_host E) (ap_password (ae_paths E)))) (\<lambda>e.
             if e then bnd (read_record E) (\<lambda>_. ret ()) else ret ()) w of
        (w', Inl e) \<Rightarrow> (w', Inl e)
      | (w', Inr _) \<Rightarrow> (w', Inr \<lparr>ag_sessions = [], ag_failed = None, ag_poisoned = False, ag_permit = True, ag_host = w'\<rparr>))"

end
