(* ===== verification/Auth_Safety.thy ===== *)
theory Auth_Safety
  imports Auth
begin

text \<open>
  The login over all interleavings of requests: who holds a session presented the password that the
  credential file accepts now, and the table stays bounded. The requests are split where the code awaits its
  blocking task, so that other requests run in between.
\<close>

section \<open>Rules for the wrappers\<close>

lemma keeps_on_host [wp]: "keeps J m \<Longrightarrow> keeps (\<lambda>a. J (ag_host a)) (on_host m)"
  by (auto simp: keeps_def on_host_def split: prod.splits)

lemma keeps_wrappers [wp]:
  "keeps J m \<Longrightarrow> keeps J (outcome m)" "keeps J m \<Longrightarrow> keeps J (or_else e m)" "keeps J m \<Longrightarrow> keeps J (attempt m)"
  by (auto simp: keeps_def outcome_def or_else_def attempt_def split: prod.splits sum.splits; metis fst_conv)+

lemma keeps_read_state [wp]: "keeps J (read_state f)"
  by (simp add: keeps_def read_state_def)

lemma keeps_update: "(\<And>a. J a \<Longrightarrow> J (f a)) \<Longrightarrow> keeps J (update f)"
  by (simp add: keeps_def update_def)

lemma keeps_sum [wp]: "(\<And>x. keeps J (f x)) \<Longrightarrow> (\<And>x. keeps J (g x)) \<Longrightarrow> keeps J (case r of Inl x \<Rightarrow> f x | Inr x \<Rightarrow> g x)"
  by (cases r) simp_all

lemma triple_or_else:
  assumes "triple P m Q (\<lambda>_. R)"
  shows "triple P (or_else e m) Q (\<lambda>_. R)"
  unfolding triple_def
proof (intro allI impI)
  fix w assume "P w"
  then show "case or_else e m w of (w', Inr x) \<Rightarrow> Q x w' | (w', Inl e) \<Rightarrow> R w'"
    using assms by (cases "m w"; cases "snd (m w)") (auto simp: or_else_def dest: tripleD_ok tripleD_error)
qed

lemma triple_outcome:
  assumes "triple P m (\<lambda>x. Q (Inr x)) (\<lambda>e. Q (Inl e))"
  shows "triple P (outcome m) Q E"
  unfolding triple_def
proof (intro allI impI)
  fix w assume "P w"
  then show "case outcome m w of (w', Inr x) \<Rightarrow> Q x w' | (w', Inl e) \<Rightarrow> E e w'"
    using assms by (cases "m w"; cases "snd (m w)") (auto simp: outcome_def dest: tripleD_ok tripleD_error)
qed

lemma triple_given: "triple P m Q F \<Longrightarrow> triple (\<lambda>w. b \<and> P w) m (\<lambda>x w. b \<and> Q x w) (\<lambda>e w. b \<and> F e w)"
  by (cases b) (simp_all add: triple_def)

lemma triple_on_host:
  assumes "\<And>a. P a \<Longrightarrow> p a (ag_host a)"
    and "\<And>a. triple (p a) m (\<lambda>x w. Q x (a\<lparr>ag_host := w\<rparr>)) (\<lambda>e w. E e (a\<lparr>ag_host := w\<rparr>))"
  shows "triple P (on_host m) Q E"
  unfolding triple_def
proof (intro allI impI)
  fix a assume "P a"
  then have "p a (ag_host a)" by (rule assms(1))
  with assms(2)[of a] show "case on_host m a of (w', Inr x) \<Rightarrow> Q x w' | (w', Inl e) \<Rightarrow> E e w'"
    by (auto simp: triple_def on_host_def split: prod.splits sum.splits)
qed

section \<open>The record\<close>

lemma hex_value_ascii: "is_hex_digit c \<Longrightarrow> ascii c \<and> c \<noteq> CHR ''+'' \<and> c \<noteq> CHR ''$''"
  by (auto simp: is_hex_digit_def hex_value_def ascii_def Let_def split: if_splits)

lemma hex_digits: "list_all is_hex_digit (hex bs)"
  by (induction bs) (simp_all add: hex_def show_hex_byte_digits)

lemma length_hex: "length (hex bs) = 2 * length bs"
  by (induction bs) (simp_all add: hex_def)

lemma hex_pairs_hex: "hex_pairs (hex bs) = Some bs"
proof (induction bs)
  case (Cons b bs)
  obtain x y where s: "show_hex_byte b = [x, y]" by (simp add: show_hex_byte_def)
  then have "radix16 x y = Some b"
    using parse_show_hex_byte[of b] show_hex_byte_digits[of b] hex_value_ascii by (auto simp: radix16_def)
  then show ?case using Cons by (simp add: hex_def s)
qed (simp add: hex_def)

lemma unhex_hex: "unhex (hex bs) = Some bs"
proof -
  have "list_all ascii (hex bs)" using hex_digits[of bs] hex_value_ascii by (auto simp: list_all_iff)
  then show ?thesis by (simp add: unhex_def length_hex hex_pairs_hex)
qed

lemma parse_show_record:
  assumes "length salt = 32" and "length hash = 32"
  shows "parse_record (show_record salt hash) = Some (salt, hash)"
proof -
  have n: "CHR ''$'' \<notin> set (hex bs)" for bs using hex_digits[of bs] hex_value_ascii by (auto simp: list_all_iff)
  have "split_char (CHR ''$'') (join [CHR ''$''] (record_header @ [hex salt, hex hash])) = record_header @ [hex salt, hex hash]"
    by (rule split_join) (auto simp: record_header_def n)
  then show ?thesis using assms by (simp add: parse_record_def show_record_def record_header_def unhex_hex)
qed

section \<open>The contract\<close>

text \<open>The password \<open>pw\<close> is the one of the credential file with content \<open>c\<close>.\<close>

definition credential_accepts :: "'w auth_env \<Rightarrow> bytes option \<Rightarrow> string \<Rightarrow> bool" where
  "credential_accepts E c pw \<longleftrightarrow>
     (\<exists>v salt hash. c = Some (bytes_of_str v) \<and> parse_record v = Some (salt, hash) \<and> scrypt32 E pw salt = Inr hash)"

locale auth_machine = host_laws "ae_host E" content time
  for E :: "'w auth_env" and content :: "'w \<Rightarrow> string \<Rightarrow> bytes option" and time :: "'w \<Rightarrow> nat" +
  assumes pbkdf2_length: "ae_pbkdf2 E password salt n len = Inr b \<Longrightarrow> length b = len"
    and random_length: "host_random (ae_host E) n w = (w', Some b) \<Longrightarrow> length b = n"
    and temporary: "with_extension (ap_password (ae_paths E)) ''new'' \<noteq> ap_password (ae_paths E)"
    and setup_code_apart: "ap_setup_code (ae_paths E) \<noteq> ap_password (ae_paths E)"
    and marker_apart: "state_file (ae_paths E) ''onboarding-state'' = Inr p \<Longrightarrow>
          p \<noteq> ap_password (ae_paths E) \<and> with_extension p ''new'' \<noteq> ap_password (ae_paths E)"
begin

abbreviation cred :: "'w \<Rightarrow> bytes option" where
  "cred w \<equiv> content w (ap_password (ae_paths E))"

abbreviation stays :: "bytes option \<Rightarrow> 'w \<Rightarrow> bool" where
  "stays c w \<equiv> cred w = c"

lemma keeps_host:
  "keeps (stays c) (observe (host_now (ae_host E)))" "keeps (stays c) (observe (host_random (ae_host E) n))"
  "keeps (stays c) (observe (host_exists (ae_host E) p))" "keeps (stays c) (io e (host_stat (ae_host E) p))"
  "keeps (stays c) (io_opt e (host_open (ae_host E) p))" "keeps (stays c) (io e (host_read_text (ae_host E) p))"
  "keeps (stays c) (io e (host_sync (ae_host E) p))"
  by (auto intro!: keeps_io keeps_io_opt keeps_observe simp: now random exists stat opened read_text sync)

lemma keeps_write_else:
  assumes "q \<noteq> ap_password (ae_paths E)"
  shows "keeps (stays c) (io e (host_create_new (ae_host E) q))" "keeps (stays c) (io e (host_truncate (ae_host E) q))"
    "keeps (stays c) (io e (host_append (ae_host E) q b))" "keeps (stays c) (io_opt e (host_remove (ae_host E) q))"
    "keeps (stays c) (io e (host_remove (ae_host E) q))"
    "q' \<noteq> ap_password (ae_paths E) \<Longrightarrow> keeps (stays c) (io e (host_rename (ae_host E) q q'))"
  using assms
  by (auto intro!: keeps_io keeps_io_opt simp: create_new truncate append remove rename)

lemmas host_kept = wp keeps_host

lemma keeps_read_limited: "keeps (stays c) (read_limited (ae_host E) p n)"
  unfolding read_limited_def Let_def by (intro host_kept)

lemma keeps_marker: "keeps (stays c) (marker (ae_host E) P)"
  unfolding marker_def by (intro host_kept keeps_read_limited)

lemma keeps_configured: "keeps (stays c) (configured (ae_host E) P)"
  unfolding configured_def by (intro host_kept)

lemma keeps_step: "keeps (stays c) (onboarding_step (ae_host E) P)"
  unfolding onboarding_step_def
  by (auto intro!: host_kept keeps_marker keeps_configured split: option.splits setup_step.splits)

lemma keeps_window: "keeps (stays c) (setup_window_seconds (ae_host E) P)"
  unfolding setup_window_seconds_def by (intro host_kept keeps_read_limited)

lemma keeps_token: "keeps (stays c) (token E)"
  unfolding token_def random_bytes_def by (intro host_kept)

lemma keeps_read_record: "keeps (stays c) (read_record E)"
  unfolding read_record_def by (intro host_kept)

lemma keeps_atomic:
  assumes "p \<noteq> ap_password (ae_paths E)" and "with_extension p ''new'' \<noteq> ap_password (ae_paths E)"
  shows "keeps (stays c) (atomic_write (ae_host E) p b)"
  unfolding atomic_write_def Let_def by (intro host_kept keeps_write_else assms)

lemma keeps_complete_admin: "keeps (stays c) (complete_admin (ae_host E) (ae_paths E))"
proof -
  have a: "keeps (stays c) (bnd (lift (state_file (ae_paths E) ''onboarding-state'')) (\<lambda>p. atomic_write (ae_host E) p b))" for b
    using marker_apart by (intro keeps_lift_bnd keeps_atomic) auto
  have r: "keeps (stays c) (remove_if_there (ae_host E) (ap_setup_code (ae_paths E)))"
    unfolding remove_if_there_def by (intro host_kept keeps_write_else setup_code_apart)
  show ?thesis
    unfolding complete_admin_def
    by (auto intro!: host_kept keeps_marker keeps_configured a r split: option.splits setup_step.splits)
qed

section \<open>Writing the credential\<close>

text \<open>Errors of the steps before the rename leave the old credential.\<close>

abbreviation unless_published :: "bytes option \<Rightarrow> string \<Rightarrow> host_error \<Rightarrow> 'w \<Rightarrow> bool" where
  "unless_published c pw e w \<equiv> (if e = Host_Failed then cred w = c else credential_accepts E (cred w) pw)"

abbreviation temporary_path :: string where
  "temporary_path \<equiv> with_extension (ap_password (ae_paths E)) ''new''"

lemma triple_io_at:
  assumes "\<And>w w' x. P w \<Longrightarrow> f w = (w', Io_Ok x) \<Longrightarrow> Q x w'"
    and "\<And>w w'. P w \<Longrightarrow> f w = (w', Missing) \<or> f w = (w', Io_Failed) \<Longrightarrow> F e w'"
  shows "triple P (io e f) Q F"
  using assms by (auto simp: triple_def io_def split: prod.splits io.splits sum.splits)

lemma random_bytes_result: "triple (stays c) (random_bytes E n) (\<lambda>b w. length b = n \<and> cred w = c) (unless_published c pw)"
  unfolding random_bytes_def triple_def
proof (intro allI impI)
  fix w assume c: "cred w = c"
  obtain w' r where h: "host_random (ae_host E) n w = (w', r)" by (cases "host_random (ae_host E) n w")
  have "content w' = content w" using random[of n w] h by simp
  then show "case bnd (observe (host_random (ae_host E) n)) (\<lambda>r. lift (ok_or r Host_Failed)) w of
      (w', Inr b) \<Rightarrow> length b = n \<and> cred w' = c | (w', Inl e) \<Rightarrow> unless_published c pw e w'"
    using c h random_length[of n w w'] by (cases r) (simp_all add: bnd_def observe_def lift_def ok_or_def)
qed

lemma append_result:
  "triple (\<lambda>w. cred w = c \<and> content w temporary_path = Some d) (io Host_Failed (host_append (ae_host E) temporary_path b))
     (\<lambda>_ w. cred w = c \<and> content w temporary_path = Some (d @ b)) (unless_published c pw)"
proof (rule triple_io_at)
  have k: "cred w' = cred w" if "host_append (ae_host E) temporary_path b w = (w', r)" for w w' r
    using append[of "ap_password (ae_paths E)" temporary_path b w] temporary by (simp add: that)
  show "cred w' = c \<and> content w' temporary_path = Some (d @ b)"
    if "cred w = c \<and> content w temporary_path = Some d" "host_append (ae_host E) temporary_path b w = (w', Io_Ok x)" for w w' x
    using that k[OF that(2)] appended[OF that(2)] by simp
  show "unless_published c pw Host_Failed w'"
    if "cred w = c \<and> content w temporary_path = Some d" "host_append (ae_host E) temporary_path b w = (w', Missing) \<or>
      host_append (ae_host E) temporary_path b w = (w', Io_Failed)" for w w'
    using that k by auto
qed

lemma sync_result:
  "triple (\<lambda>w. cred w = c \<and> content w t = d) (io Host_Failed (host_sync (ae_host E) q))
     (\<lambda>_ w. cred w = c \<and> content w t = d) (unless_published c pw)"
proof (rule triple_io_at)
  have k: "content w' = content w" if "host_sync (ae_host E) q w = (w', r)" for w w' r
    using sync[of q w] that by simp
  show "cred w' = c \<and> content w' t = d" if "cred w = c \<and> content w t = d" "host_sync (ae_host E) q w = (w', Io_Ok x)" for w w' x
    using that k by metis
  show "unless_published c pw Host_Failed w'"
    if "cred w = c \<and> content w t = d" "host_sync (ae_host E) q w = (w', Missing) \<or> host_sync (ae_host E) q w = (w', Io_Failed)" for w w'
    using that k by auto
qed

lemma rename_result:
  assumes "credential_accepts E d pw"
  shows "triple (\<lambda>w. cred w = c \<and> content w temporary_path = d)
     (io Host_Failed (host_rename (ae_host E) temporary_path (ap_password (ae_paths E))))
     (\<lambda>_ w. credential_accepts E (cred w) pw) (unless_published c pw)"
  by (rule triple_io_at) (use assms renamed not_renamed in auto)

lemma create_result:
  "triple (stays c) (io Host_Failed (host_create_new (ae_host E) temporary_path))
     (\<lambda>_ w. cred w = c \<and> content w temporary_path = Some []) (unless_published c pw)"
proof (rule triple_io_at)
  have k: "cred w' = cred w" if "host_create_new (ae_host E) temporary_path w = (w', r)" for w w' r
    using create_new[of "ap_password (ae_paths E)" temporary_path w] temporary by (simp add: that)
  show "cred w' = c \<and> content w' temporary_path = Some []"
    if "stays c w" "host_create_new (ae_host E) temporary_path w = (w', Io_Ok x)" for w w' x
    using that k created by metis
  show "unless_published c pw Host_Failed w'"
    if "stays c w" "host_create_new (ae_host E) temporary_path w = (w', Missing) \<or> host_create_new (ae_host E) temporary_path w = (w', Io_Failed)" for w w'
    using that k by auto
qed

lemma published_result:
  assumes "length salt = 32" and "scrypt32 E pw salt = Inr hash"
  shows "triple (\<lambda>w. cred w = c \<and> content w temporary_path = Some [])
     (with_cleanup (publish_record E temporary_path (show_record salt hash)) (\<lambda>w. fst (host_remove (ae_host E) temporary_path w)))
     (\<lambda>_ w. credential_accepts E (cred w) pw) (unless_published c pw)"
proof (rule triple_with_cleanup)
  have "length hash = 32"
    using assms(2) pbkdf2_length by (auto simp: scrypt32_def scrypt_def and_then_def Let_def split: sum.splits)
  then have acc: "credential_accepts E (Some ([] @ bytes_of_str (show_record salt hash))) pw"
    using assms parse_show_record unfolding credential_accepts_def by fastforce
  show "triple (\<lambda>w. cred w = c \<and> content w temporary_path = Some []) (publish_record E temporary_path (show_record salt hash))
      (\<lambda>_ w. credential_accepts E (cred w) pw) (unless_published c pw)"
    unfolding publish_record_def by (rule triple_bnd[OF append_result triple_bnd[OF sync_result rename_result[OF acc]]])
  show "unless_published c pw e (fst (host_remove (ae_host E) temporary_path w))" if "unless_published c pw e w" for e w
    using that remove[of "ap_password (ae_paths E)" temporary_path w] temporary by simp
qed

lemma write_record_result:
  "triple (stays c) (write_record E pw) (\<lambda>_ w. credential_accepts E (cred w) pw) (unless_published c pw)"
proof -
  let ?p = "ap_password (ae_paths E)" and ?ok = "\<lambda>w. credential_accepts E (cred w) pw"
  have last: "triple ?ok (or_else Record_Published (bnd (lift (ok_or (path_parent ?p) Host_Failed))
      (\<lambda>d. io Host_Failed (host_sync (ae_host E) d)))) (\<lambda>_. ?ok) (unless_published c pw)"
  proof -
    have "keeps ?ok (bnd (lift (ok_or (path_parent ?p) Host_Failed)) (\<lambda>d. io Host_Failed (host_sync (ae_host E) d)))"
      by (intro wp keeps_io) (simp add: sync)
    then show ?thesis
      unfolding keeps_def triple_def or_else_def by (auto split: prod.splits sum.splits)
  qed
  have rm: "triple (stays c) (remove_if_there (ae_host E) temporary_path) (\<lambda>_. stays c) (unless_published c pw)"
  proof -
    have k: "keeps (stays c) (remove_if_there (ae_host E) temporary_path)"
      unfolding remove_if_there_def by (intro host_kept keeps_write_else temporary)
    have "e = Host_Failed" if "remove_if_there (ae_host E) temporary_path w = (w', Inl e)" for w w' e
      using that by (auto simp: remove_if_there_def bnd_def io_opt_def ret_def split: prod.splits io.splits sum.splits)
    then show ?thesis using k unfolding keeps_def triple_def by (auto split: prod.splits sum.splits)
  qed
  have rest: "triple (stays c)
      (bnd (lift (scrypt32 E pw salt)) (\<lambda>hash. bnd (remove_if_there (ae_host E) temporary_path) (\<lambda>_.
       bnd (io Host_Failed (host_create_new (ae_host E) temporary_path)) (\<lambda>_.
       bnd (with_cleanup (publish_record E temporary_path (show_record salt hash))
              (\<lambda>w. fst (host_remove (ae_host E) temporary_path w))) (\<lambda>_.
       or_else Record_Published (bnd (lift (ok_or (path_parent ?p) Host_Failed))
         (\<lambda>d. io Host_Failed (host_sync (ae_host E) d)))))))) (\<lambda>_. ?ok) (unless_published c pw)"
    if "length salt = 32" for salt
  proof (cases "scrypt32 E pw salt")
    case (Inl e)
    then have "e = Host_Failed" by (auto simp: scrypt32_def split: sum.splits)
    then show ?thesis using Inl by (simp add: bnd_lift_error triple_def throw_def)
  next
    case (Inr hash)
    show ?thesis
      unfolding Inr bnd_lift
      by (rule triple_bnd[OF rm triple_bnd[OF create_result triple_bnd[OF published_result[OF that Inr] last]]])
  qed
  show ?thesis
    unfolding write_record_def Let_def
    by (rule triple_bnd[OF random_bytes_result]) (use rest in \<open>auto simp: triple_def\<close>)
qed

section \<open>Requests that do not write\<close>

text \<open>The credential and the permit as they are, and no session but those of \<open>S\<close>.\<close>

definition calm :: "bytes option \<Rightarrow> auth_session set \<Rightarrow> bool \<Rightarrow> 'w agent \<Rightarrow> bool" where
  "calm c S b a \<longleftrightarrow> cred (ag_host a) = c \<and> set (ag_sessions a) \<subseteq> S \<and> length (ag_sessions a) \<le> MAX_SESSIONS \<and> ag_permit a = b"

lemma calm_host: "keeps (stays c) m \<Longrightarrow> keeps (calm c S b) (on_host m)"
  by (auto simp: keeps_def calm_def on_host_def split: prod.splits)

lemma calm_now: "keeps (calm c S b) (instant_now (ae_host E))"
  unfolding instant_now_def by (intro calm_host host_kept)

lemma calm_lock: "keeps (calm c S b) (lock_inner e)"
  unfolding lock_inner_def by (intro wp)

lemma calm_needs_setup: "keeps (calm c S b) (needs_setup E)"
  unfolding needs_setup_def by (intro calm_host host_kept)

lemma retain_result:
  "set ss \<subseteq> S \<Longrightarrow> triple (calm c S b) (retain_live (ae_host E) ss)
     (\<lambda>kept a. calm c S b a \<and> set kept \<subseteq> S \<and> length kept \<le> length ss) (\<lambda>_. calm c S b)"
proof (induction ss)
  case (Cons s ss)
  show ?case
    unfolding retain_live.simps
    by (rule triple_bnd_keeps[OF calm_now], rule triple_bnd[OF Cons.IH])
      (use Cons.prems in \<open>auto simp: triple_def ret_def\<close>)
qed (simp add: triple_def ret_def)

lemma calm_drop_expired: "keeps (calm c S b) (drop_expired (ae_host E))"
  unfolding keeps_triple drop_expired_def
proof (rule triple_bnd)
  show "triple (calm c S b) (read_state ag_sessions)
      (\<lambda>ss a. calm c S b a \<and> set ss \<subseteq> S \<and> length ss \<le> MAX_SESSIONS) (\<lambda>_. calm c S b)"
    by (simp add: triple_def read_state_def calm_def)
  show "triple (\<lambda>a. calm c S b a \<and> set ss \<subseteq> S \<and> length ss \<le> MAX_SESSIONS)
      (bnd (retain_live (ae_host E) ss) (\<lambda>kept. update (\<lambda>a. a\<lparr>ag_sessions := kept\<rparr>))) (\<lambda>_. calm c S b) (\<lambda>_. calm c S b)" for ss
  proof (rule triple_pure)
    assume a: "set ss \<subseteq> S \<and> length ss \<le> MAX_SESSIONS"
    have "triple (calm c S b) (bnd (retain_live (ae_host E) ss) (\<lambda>kept. update (\<lambda>a. a\<lparr>ag_sessions := kept\<rparr>)))
        (\<lambda>_. calm c S b) (\<lambda>_. calm c S b)"
      by (rule triple_bnd[OF retain_result]) (use a in \<open>auto simp: triple_def update_def calm_def\<close>)
    then show "triple (\<lambda>a. calm c S b a \<and> set ss \<subseteq> S \<and> length ss \<le> MAX_SESSIONS)
        (bnd (retain_live (ae_host E) ss) (\<lambda>kept. update (\<lambda>a. a\<lparr>ag_sessions := kept\<rparr>))) (\<lambda>_. calm c S b) (\<lambda>_. calm c S b)"
      by (rule triple_weaken) auto
  qed blast
qed

lemma calm_session: "keeps (calm c S b) (session_of E r)"
  unfolding session_of_def by (intro wp calm_lock calm_drop_expired)

lemma calm_throttled: "keeps (calm c S b) (throttled (ae_host E))"
  unfolding throttled_def by (intro wp calm_now)

lemma calm_failure: "keeps (calm c S b) (note_failure (ae_host E))"
  unfolding note_failure_def by (intro wp calm_now keeps_update) (simp add: calm_def)

lemma calm_window: "keeps (calm c S b) (setup_window E)"
  unfolding setup_window_def by (intro wp calm_host keeps_window)

lemma calm_token: "keeps (calm c S b) (on_host (token E))"
  by (intro calm_host keeps_token)

lemma calm_find_live: "keeps (calm c S b) (find_live (ae_host E) t ss)"
  by (induction ss) (auto intro!: wp calm_now)

lemmas calm_parts = calm_now calm_lock calm_needs_setup calm_drop_expired calm_session calm_throttled calm_failure
  calm_window calm_token calm_find_live

lemma calm_status: "keeps (calm c S b) (auth_status E r)"
  unfolding auth_status_def by (intro wp calm_parts)

lemma calm_logout: "keeps (calm c S b) (logout E r)"
proof -
  have "keeps (calm c S b) (update (\<lambda>a. a\<lparr>ag_sessions := filter (\<lambda>s. au_token s \<noteq> t) (ag_sessions a)\<rparr>))" for t
    by (rule keeps_update) (auto simp: calm_def intro: order_trans[OF length_filter_le])
  then show ?thesis unfolding logout_def Let_def by (intro wp calm_parts)
qed

lemma calm_guard: "keeps (calm c S b) (require_auth E r)"
  unfolding require_auth_def by (intro wp calm_parts calm_host keeps_step)

section \<open>Requests that write\<close>

text \<open>After a session was issued: the newest is last, the others are from \<open>S\<close>.\<close>

definition issued :: "bytes option \<Rightarrow> auth_session set \<Rightarrow> bool \<Rightarrow> 'w agent \<Rightarrow> bool" where
  "issued c S b a \<longleftrightarrow> cred (ag_host a) = c \<and> ag_sessions a \<noteq> [] \<and> set (butlast (ag_sessions a)) \<subseteq> S \<and>
     length (ag_sessions a) \<le> MAX_SESSIONS \<and> ag_permit a = b"

definition roomy :: "bytes option \<Rightarrow> auth_session set \<Rightarrow> bool \<Rightarrow> 'w agent \<Rightarrow> bool" where
  "roomy c S b a \<longleftrightarrow> calm c S b a \<and> length (ag_sessions a) < MAX_SESSIONS"

lemma roomy_host: "keeps (stays c) m \<Longrightarrow> keeps (roomy c S b) (on_host m)"
  by (auto simp: keeps_def roomy_def calm_def on_host_def split: prod.splits)

lemma push_result: "triple (roomy c S b) (push_session E t csrf) (\<lambda>_. issued c S b) (\<lambda>_. calm c S b)"
proof -
  have "keeps (roomy c S b) (instant_now (ae_host E))" unfolding instant_now_def by (intro roomy_host host_kept)
  then have "triple (roomy c S b) (instant_now (ae_host E)) (\<lambda>_. roomy c S b) (\<lambda>_. calm c S b)"
    unfolding keeps_triple by (rule triple_weaken) (simp_all add: roomy_def)
  then show ?thesis
    unfolding push_session_def
    by (rule triple_bnd) (auto simp: triple_def update_def roomy_def issued_def calm_def)
qed

lemma issue_result: "triple (calm c S b) (issue E) (\<lambda>_. issued c S b) (\<lambda>_. calm c S b)"
proof -
  have tok: "triple (roomy c S b) (on_host (token E)) (\<lambda>_. roomy c S b) (\<lambda>_. calm c S b)"
    by (rule triple_weaken[OF roomy_host[OF keeps_token, unfolded keeps_triple, of c S b]]) (simp_all add: roomy_def)
  have room: "triple (calm c S b) (update (\<lambda>a. a\<lparr>ag_sessions := make_room (ag_sessions a)\<rparr>)) (\<lambda>_. roomy c S b) (\<lambda>_. calm c S b)"
    by (auto simp: triple_def update_def roomy_def calm_def make_room_def MAX_SESSIONS_def dest: in_set_dropD)
  have fin: "triple (issued c S b) (ret y) (\<lambda>_. issued c S b) (\<lambda>_. calm c S b)" for y
    by (simp add: triple_def ret_def)
  show ?thesis
    unfolding issue_def
    by (rule triple_bnd_keeps[OF calm_lock], rule triple_bnd_keeps[OF calm_drop_expired], rule triple_bnd[OF room],
        rule triple_bnd[OF tok], rule triple_bnd[OF tok], rule triple_bnd[OF push_result], rule fin)
qed

lemma issue_reply_result: "triple (calm c S b) (issue_reply E) (\<lambda>_. issued c S b) (\<lambda>_. calm c S b)"
  unfolding issue_reply_def
  by (rule triple_bnd[OF triple_or_else[OF issue_result]]) (simp add: triple_def ret_def split: prod.splits)

lemma triple_then_release:
  "triple P m Q F \<Longrightarrow> (\<And>x a. Q x a \<Longrightarrow> Q' x (release a)) \<Longrightarrow> (\<And>e a. F e a \<Longrightarrow> F' e (release a)) \<Longrightarrow> triple P (then_release m) Q' F'"
  by (auto simp: triple_def then_release_def split: prod.splits sum.splits)

lemma release_simps: "calm c S b a \<Longrightarrow> calm c S True (release a)" "issued c S b a \<Longrightarrow> issued c S True (release a)"
  by (simp_all add: calm_def issued_def release_def)

lemma acquire_result: "triple (calm c S b) acquire (\<lambda>_ a. b \<and> calm c S False a) (\<lambda>_. calm c S b)"
  by (auto simp: triple_def acquire_def bnd_def read_state_def require_def ret_def throw_def update_def calm_def)

lemma needs_setup_result:
  "triple (calm c S b) (needs_setup E) (\<lambda>n a. calm c S b a \<and> (n \<longleftrightarrow> c = None)) (\<lambda>_. calm c S b)"
  unfolding triple_def
proof (intro allI impI)
  fix a assume "calm c S b a"
  moreover obtain w' r where "host_exists (ae_host E) (ap_password (ae_paths E)) (ag_host a) = (w', r)"
    by (cases "host_exists (ae_host E) (ap_password (ae_paths E)) (ag_host a)")
  ultimately show "case needs_setup E a of (a', Inr n) \<Rightarrow> calm c S b a' \<and> (n \<longleftrightarrow> c = None) | (a', Inl e) \<Rightarrow> calm c S b a'"
    using exists[of "ap_password (ae_paths E)" "ag_host a"] exists_content[of "ap_password (ae_paths E)" "ag_host a"]
    by (auto simp: needs_setup_def on_host_def bnd_def observe_def ret_def calm_def)
qed

text \<open>What is left of the permit check: it is taken at the end of the first part, and given back on an early end.\<close>

lemma triple_held:
  assumes "triple (calm c S False) m (\<lambda>_ a. calm c S False a \<and> F) (\<lambda>_. calm c S False)"
  shows "triple (\<lambda>a. b \<and> calm c S False a) (with_cleanup m release) (\<lambda>_ a. b \<and> calm c S False a \<and> F) (\<lambda>_. calm c S b)"
proof (rule triple_with_cleanup)
  show "triple (\<lambda>a. b \<and> calm c S False a) m (\<lambda>_ a. b \<and> calm c S False a \<and> F) (\<lambda>_ a. b \<and> calm c S False a)"
    using triple_given[OF assms, of b] by (rule triple_weaken) auto
  show "calm c S b (release a)" if "b \<and> calm c S False a" for a
    using that release_simps(1) by auto
qed

lemma setup_enter_result:
  "triple (calm c S b) (setup_enter E r code pw) (\<lambda>_ a. b \<and> calm c S False a \<and> c = None) (\<lambda>_. calm c S b)"
proof -
  have "triple (calm c S False)
       (bnd (needs_setup E) (\<lambda>fresh.
        bnd (require fresh (auth_error 409 ''setup_completed'')) (\<lambda>_.
        bnd (setup_window E) (\<lambda>n.
        bnd (require (n \<noteq> 0) (auth_error 403 ''setup_closed'')) (\<lambda>_.
        bnd (or_else (auth_error 500 ''setup_unavailable'')
              (on_host (io Host_Failed (host_read_text (ae_host E) (ap_setup_code (ae_paths E)))))) (\<lambda>codes.
        require (case code of None \<Rightarrow> False | Some given \<Rightarrow> setup_code_matches given codes)
          (auth_error 403 ''invalid_setup_code''))))))) (\<lambda>_ a. calm c S False a \<and> c = None) (\<lambda>_. calm c S False)"
  proof (rule triple_bnd[OF needs_setup_result])
    have kept: "triple (calm c S False) (bnd (setup_window E) (\<lambda>n.
        bnd (require (n \<noteq> 0) (auth_error 403 ''setup_closed'')) (\<lambda>_.
        bnd (or_else (auth_error 500 ''setup_unavailable'')
              (on_host (io Host_Failed (host_read_text (ae_host E) (ap_setup_code (ae_paths E)))))) (\<lambda>codes.
        require (case code of None \<Rightarrow> False | Some given \<Rightarrow> setup_code_matches given codes)
          (auth_error 403 ''invalid_setup_code''))))) (\<lambda>_. calm c S False) (\<lambda>_. calm c S False)"
      unfolding keeps_triple[symmetric] by (intro wp calm_parts calm_host keeps_host)
    show "triple (\<lambda>a. calm c S False a \<and> (fresh \<longleftrightarrow> c = None))
       (bnd (require fresh (auth_error 409 ''setup_completed'')) (\<lambda>_.
        bnd (setup_window E) (\<lambda>n.
        bnd (require (n \<noteq> 0) (auth_error 403 ''setup_closed'')) (\<lambda>_.
        bnd (or_else (auth_error 500 ''setup_unavailable'')
              (on_host (io Host_Failed (host_read_text (ae_host E) (ap_setup_code (ae_paths E)))))) (\<lambda>codes.
        require (case code of None \<Rightarrow> False | Some given \<Rightarrow> setup_code_matches given codes)
          (auth_error 403 ''invalid_setup_code'')))))) (\<lambda>_ a. calm c S False a \<and> c = None) (\<lambda>_. calm c S False)" for fresh
    proof (cases fresh)
      case True
      then show ?thesis
        using triple_given[OF kept, of "c = None"] by (simp add: require_def bnd_ret) (erule triple_weaken; auto)
    next
      case False
      then show ?thesis by (simp add: require_def bnd_throw) (simp add: triple_def throw_def)
    qed
  qed
  from triple_held[OF this, of b] show ?thesis
    unfolding setup_enter_def
    by (intro triple_bnd_keeps[OF keeps_require] triple_bnd_keeps[OF keeps_option[OF keeps_ret keeps_throw]]
        triple_bnd[OF acquire_result])
qed

abbreviation accepts_now :: "string \<Rightarrow> 'w agent \<Rightarrow> bool" where
  "accepts_now pw a \<equiv> credential_accepts E (cred (ag_host a)) pw"

lemma setup_blocking_result:
  "triple (calm c {} False) (setup_blocking E pw)
     (\<lambda>r a. calm (cred (ag_host a)) {} False a \<and> (\<not> isl r \<longrightarrow> accepts_now pw a)) (\<lambda>_ _. False)"
proof -
  let ?ok = "\<lambda>w. credential_accepts E (cred w) pw"
  have "keeps ?ok (complete_admin (ae_host E) (ae_paths E))"
    using keeps_complete_admin by (simp add: keeps_def)
  then have after: "triple ?ok (complete_admin (ae_host E) (ae_paths E)) (\<lambda>_. ?ok) (\<lambda>_ _. True)"
    unfolding keeps_triple by (rule triple_weaken) auto
  have written: "triple (stays c) (write_record E pw) (\<lambda>_. ?ok) (\<lambda>_ _. True)"
    by (rule triple_weaken[OF write_record_result]) auto
  show ?thesis
    unfolding setup_blocking_def
  proof (rule triple_outcome, rule triple_on_host[where p = "\<lambda>a w. calm c {} False a \<and> stays c w"])
    show "triple (\<lambda>w. calm c {} False a \<and> stays c w) (bnd (write_record E pw) (\<lambda>_. complete_admin (ae_host E) (ae_paths E)))
        (\<lambda>x w. calm (cred (ag_host (a\<lparr>ag_host := w\<rparr>))) {} False (a\<lparr>ag_host := w\<rparr>) \<and>
          (\<not> isl (Inr x) \<longrightarrow> accepts_now pw (a\<lparr>ag_host := w\<rparr>)))
        (\<lambda>e w. calm (cred (ag_host (a\<lparr>ag_host := w\<rparr>))) {} False (a\<lparr>ag_host := w\<rparr>) \<and>
          (\<not> isl (Inl e) \<longrightarrow> accepts_now pw (a\<lparr>ag_host := w\<rparr>)))" for a
      by (rule triple_weaken[OF triple_given[OF triple_bnd[OF written after], of "calm c {} False a"]]) (simp_all add: calm_def)
  qed (simp add: calm_def)
qed

lemma then_issue:
  "triple (calm c S False) (then_release (issue_reply E)) (\<lambda>_. issued c S True) (\<lambda>_. calm c S True)"
  by (rule triple_then_release[OF issue_reply_result]) (simp_all add: release_simps)

lemma setup_finish_result:
  "triple (calm c S False) (setup_finish E r) (\<lambda>_ a. \<not> isl r \<and> issued c S True a) (\<lambda>_. calm c S True)"
proof (cases r)
  case (Inl e)
  then show ?thesis
    by (simp add: setup_finish_def triple_def then_release_def throw_def release_simps)
next
  case (Inr u)
  then show ?thesis using then_issue[of c S] by (simp add: setup_finish_def)
qed

lemma login_enter_result:
  "triple (calm c S b) (login_enter E r pw) (\<lambda>_ a. b \<and> calm c S False a) (\<lambda>_. calm c S b)"
proof -
  have "triple (calm c S False) (bnd (lock_inner internal_error) (\<lambda>_.
        bnd (throttled (ae_host E)) (\<lambda>t. require (\<not> t) (auth_error 429 ''login_throttled''))))
      (\<lambda>_ a. calm c S False a \<and> True) (\<lambda>_. calm c S False)"
    unfolding simp_thms keeps_triple[symmetric] by (intro wp calm_parts)
  from triple_held[OF this, of b] show ?thesis
    unfolding login_enter_def simp_thms
    by (intro triple_bnd_keeps[OF keeps_require] triple_bnd_keeps[OF calm_needs_setup] triple_bnd[OF acquire_result])
qed

text \<open>What \<^verbatim>\<open>verify\<close> accepts is the password of the file as it is.\<close>

lemma check_password_result:
  "triple (stays c) (check_password E pw) (\<lambda>v w. stays c w \<and> (v \<longrightarrow> credential_accepts E c pw)) (\<lambda>_. stays c)"
  unfolding check_password_def read_record_def
proof -
  have read: "triple (stays c) (io Host_Failed (host_read_text (ae_host E) (ap_password (ae_paths E))))
      (\<lambda>v w. stays c w \<and> c = Some (bytes_of_str v)) (\<lambda>_. stays c)"
  proof (rule triple_io)
    have k: "cred w' = cred w" if "host_read_text (ae_host E) (ap_password (ae_paths E)) w = (w', r)" for w w' r
      using read_text[of "ap_password (ae_paths E)" w] that by simp
    show "stays c w' \<and> c = Some (bytes_of_str v)"
      if "stays c w" "host_read_text (ae_host E) (ap_password (ae_paths E)) w = (w', Io_Ok v)" for w w' v
      using that k[OF that(2)] read_text_content[OF that(2)] by simp
    show "stays c w'" if "stays c w" "host_read_text (ae_host E) (ap_password (ae_paths E)) w = (w', Missing) \<or>
        host_read_text (ae_host E) (ap_password (ae_paths E)) w = (w', Io_Failed)" for w w'
      using that k by auto
  qed
  have checked: "triple (\<lambda>w. stays c w \<and> c = Some (bytes_of_str v))
      (bnd (lift (ok_or (parse_record v) Host_Failed)) (\<lambda>r. lift (verify E r pw)))
      (\<lambda>v w. stays c w \<and> (v \<longrightarrow> credential_accepts E c pw)) (\<lambda>_. stays c)" for v
    by (auto simp: triple_def bnd_def lift_def ok_or_def verify_def and_then_def credential_accepts_def
        split: option.splits sum.splits)
  have assoc: "bnd (bnd m f) g = bnd m (\<lambda>x. bnd (f x) g)" for m :: "('w, 'x) host_op" and f and g :: "'y \<Rightarrow> ('w, 'z) host_op"
    by (auto simp: bnd_def fun_eq_iff split: prod.splits sum.splits)
  show "triple (stays c) (bnd (bnd (io Host_Failed (host_stat (ae_host E) (ap_password (ae_paths E)))) (\<lambda>m.
       bnd (require (\<not> (hm_mode m mod 64 \<noteq> 0 \<or> 512 < hm_len m)) Host_Failed) (\<lambda>_.
       bnd (io Host_Failed (host_read_text (ae_host E) (ap_password (ae_paths E)))) (\<lambda>v.
       lift (ok_or (parse_record v) Host_Failed))))) (\<lambda>r. lift (verify E r pw)))
      (\<lambda>v w. stays c w \<and> (v \<longrightarrow> credential_accepts E c pw)) (\<lambda>_. stays c)"
    unfolding assoc
    by (rule triple_bnd_keeps[OF keeps_host(4)], rule triple_bnd_keeps[OF keeps_require], rule triple_bnd[OF read], rule checked)
qed

lemma login_blocking_result:
  "triple (calm c S False) (login_blocking E pw)
     (\<lambda>r a. calm c S False a \<and> (r = Inr True \<longrightarrow> accepts_now pw a)) (\<lambda>_ _. False)"
proof -
  let ?ok = "\<lambda>r w. stays c w \<and> (r \<longrightarrow> credential_accepts E c pw)"
  have checked: "triple (stays c) (outcome (check_password E pw))
      (\<lambda>r w. stays c w \<and> (r = Inr True \<longrightarrow> credential_accepts E c pw)) (\<lambda>_. stays c)"
    by (rule triple_outcome, rule triple_weaken[OF check_password_result]) auto
  have cont: "triple (\<lambda>w. stays c w \<and> (r = Inr True \<longrightarrow> credential_accepts E c pw))
      (if (case r of Inr v \<Rightarrow> v | Inl _ \<Rightarrow> False)
       then bnd (complete_admin (ae_host E) (ae_paths E)) (\<lambda>_. ret True) else ret False) ?ok (\<lambda>_. stays c)"
    for r :: "host_error + bool"
  proof (cases "r = Inr True")
    case True
    have "triple (stays c) (bnd (complete_admin (ae_host E) (ae_paths E)) (\<lambda>_. ret True)) (\<lambda>_. stays c) (\<lambda>_. stays c)"
      unfolding keeps_triple[symmetric] by (intro wp keeps_complete_admin)
    from triple_given[OF this, of "credential_accepts E c pw"] show ?thesis
      unfolding True by simp (erule triple_weaken; auto)
  next
    case False
    then have "\<not> (case r of Inr v \<Rightarrow> v | Inl _ \<Rightarrow> False)" by (cases r) auto
    then show ?thesis by (simp add: triple_def ret_def)
  qed
  show ?thesis
    unfolding login_blocking_def
  proof (rule triple_outcome, rule triple_on_host[where p = "\<lambda>a w. calm c S False a \<and> stays c w"])
    show "triple (\<lambda>w. calm c S False a \<and> stays c w) (bnd (outcome (check_password E pw)) (\<lambda>valid.
          if (case valid of Inr v \<Rightarrow> v | Inl _ \<Rightarrow> False)
          then bnd (complete_admin (ae_host E) (ae_paths E)) (\<lambda>_. ret True) else ret False))
        (\<lambda>x w. calm c S False (a\<lparr>ag_host := w\<rparr>) \<and> (Inr x = Inr True \<longrightarrow> accepts_now pw (a\<lparr>ag_host := w\<rparr>)))
        (\<lambda>e w. calm c S False (a\<lparr>ag_host := w\<rparr>) \<and> (Inl e = Inr True \<longrightarrow> accepts_now pw (a\<lparr>ag_host := w\<rparr>)))" for a
      by (rule triple_weaken[OF triple_given[OF triple_bnd[OF checked cont], of "calm c S False a"]]) (simp_all add: calm_def)
  qed (simp add: calm_def)
qed

lemma login_finish_result:
  "triple (calm c S False) (login_finish E r) (\<lambda>_ a. r = Inr True \<and> issued c S True a) (\<lambda>_. calm c S True)"
proof (cases "r = Inr True")
  case True
  then show ?thesis using then_issue[of c S] by (simp add: login_finish_def)
next
  case False
  have "triple (calm c S False) (case r of Inl _ \<Rightarrow> throw internal_error
      | Inr valid \<Rightarrow> if \<not> valid then bnd (lock_inner internal_error) (\<lambda>_.
          bnd (note_failure (ae_host E)) (\<lambda>_. throw (auth_error 401 ''invalid_password''))) else issue_reply E)
      (\<lambda>_ _. False) (\<lambda>_. calm c S False)"
  proof -
    have t: "triple (calm c S False) (throw e) (\<lambda>_ _. False) (\<lambda>_. calm c S False)" for e :: auth_response
      by (simp add: triple_def throw_def)
    show ?thesis
      using False by (auto split: sum.splits intro!: t triple_bnd_keeps[OF calm_lock] triple_bnd_keeps[OF calm_failure])
  qed
  then show ?thesis
    using False unfolding login_finish_def by (elim triple_then_release) (auto intro: release_simps)
qed

text \<open>A change either leaves everything, or clears the table; with success the new session is alone in it.\<close>

definition cleared :: "bytes option \<Rightarrow> auth_session set \<Rightarrow> bool \<Rightarrow> 'w agent \<Rightarrow> bool" where
  "cleared c S b a \<longleftrightarrow> calm c S b a \<or> (ag_sessions a = [] \<and> ag_permit a = b)"

definition changed :: "string \<Rightarrow> bool \<Rightarrow> 'w agent \<Rightarrow> bool" where
  "changed pw b a \<longleftrightarrow> accepts_now pw a \<and> length (ag_sessions a) = 1 \<and> ag_permit a = b"

lemma persist_result:
  "triple (calm c S b) (outcome (on_host (write_record E pw)))
     (\<lambda>r a. ag_permit a = b \<and> (\<not> isl r \<longrightarrow> accepts_now pw a) \<and> (r = Inl Host_Failed \<longrightarrow> calm c S b a)) F"
proof (rule triple_outcome, rule triple_on_host[where p = "\<lambda>a w. calm c S b a \<and> stays c w"])
  show "triple (\<lambda>w. calm c S b a \<and> stays c w) (write_record E pw)
      (\<lambda>x w. ag_permit (a\<lparr>ag_host := w\<rparr>) = b \<and> (\<not> isl (Inr x) \<longrightarrow> accepts_now pw (a\<lparr>ag_host := w\<rparr>)) \<and>
        (Inr x = Inl Host_Failed \<longrightarrow> calm c S b (a\<lparr>ag_host := w\<rparr>)))
      (\<lambda>e w. ag_permit (a\<lparr>ag_host := w\<rparr>) = b \<and> (\<not> isl (Inl e) \<longrightarrow> accepts_now pw (a\<lparr>ag_host := w\<rparr>)) \<and>
        (Inl e = Inl Host_Failed \<longrightarrow> calm c S b (a\<lparr>ag_host := w\<rparr>)))" for a
    by (rule triple_weaken[OF triple_given[OF write_record_result, of "calm c S b a"]]) (auto simp: calm_def)
qed (simp add: calm_def)

lemma now_content: "host_now (ae_host E) w = (w', n) \<Longrightarrow> content w' = content w"
  using now[of w] by simp

lemma push_changed:
  "triple (\<lambda>a. accepts_now pw a \<and> ag_sessions a = [] \<and> ag_permit a = b) (push_session E t csrf) (\<lambda>_. changed pw b) (\<lambda>_. cleared c S b)"
proof -
  have "keeps (\<lambda>a. accepts_now pw a \<and> ag_sessions a = [] \<and> ag_permit a = b) (instant_now (ae_host E))"
    by (auto simp: keeps_def instant_now_def on_host_def observe_def dest: now_content split: prod.splits)
  then have "triple (\<lambda>a. accepts_now pw a \<and> ag_sessions a = [] \<and> ag_permit a = b) (instant_now (ae_host E))
      (\<lambda>_ a. accepts_now pw a \<and> ag_sessions a = [] \<and> ag_permit a = b) (\<lambda>_. cleared c S b)"
    unfolding keeps_triple by (rule triple_weaken) (simp_all add: cleared_def)
  then show ?thesis
    unfolding push_session_def by (rule triple_bnd) (simp add: triple_def update_def changed_def)
qed

lemma published_then:
  "triple (calm c S b)
     (bnd (outcome (on_host (write_record E pw))) (\<lambda>written.
      bnd (case written of
             Inr _ \<Rightarrow> ret ()
           | Inl Record_Published \<Rightarrow>
               bnd (update (\<lambda>a. a\<lparr>ag_sessions := []\<rparr>)) (\<lambda>_. throw (auth_error 500 ''password_change_uncertain''))
           | Inl Host_Failed \<Rightarrow> throw internal_error) (\<lambda>_.
      bnd (update (\<lambda>a. a\<lparr>ag_sessions := [], ag_failed := None\<rparr>)) (\<lambda>_.
      bnd (push_session E t csrf) (\<lambda>_. ret y)))))
     (\<lambda>_. changed pw b) (\<lambda>_. cleared c S b)"
proof (rule triple_bnd[OF persist_result])
  fix r :: "host_error + unit"
  let ?P = "\<lambda>a. ag_permit a = b \<and> (\<not> isl r \<longrightarrow> accepts_now pw a) \<and> (r = Inl Host_Failed \<longrightarrow> calm c S b a)"
  have sort: "triple ?P (case r of
             Inr _ \<Rightarrow> ret ()
           | Inl Record_Published \<Rightarrow>
               bnd (update (\<lambda>a. a\<lparr>ag_sessions := []\<rparr>)) (\<lambda>_. throw (auth_error 500 ''password_change_uncertain''))
           | Inl Host_Failed \<Rightarrow> throw internal_error)
      (\<lambda>_ a. accepts_now pw a \<and> ag_permit a = b) (\<lambda>_. cleared c S b)"
    by (auto simp: triple_def ret_def bnd_def update_def throw_def cleared_def split: sum.splits host_error.splits)
  have clear: "triple (\<lambda>a. accepts_now pw a \<and> ag_permit a = b) (update (\<lambda>a. a\<lparr>ag_sessions := [], ag_failed := None\<rparr>))
      (\<lambda>_ a. accepts_now pw a \<and> ag_sessions a = [] \<and> ag_permit a = b) (\<lambda>_. cleared c S b)"
    by (simp add: triple_def update_def)
  have fin: "triple (changed pw b) (ret y) (\<lambda>_. changed pw b) (\<lambda>_. cleared c S b)"
    by (simp add: triple_def ret_def)
  show "triple ?P
     (bnd (case r of
             Inr _ \<Rightarrow> ret ()
           | Inl Record_Published \<Rightarrow>
               bnd (update (\<lambda>a. a\<lparr>ag_sessions := []\<rparr>)) (\<lambda>_. throw (auth_error 500 ''password_change_uncertain''))
           | Inl Host_Failed \<Rightarrow> throw internal_error) (\<lambda>_.
      bnd (update (\<lambda>a. a\<lparr>ag_sessions := [], ag_failed := None\<rparr>)) (\<lambda>_.
      bnd (push_session E t csrf) (\<lambda>_. ret y))))
     (\<lambda>_. changed pw b) (\<lambda>_. cleared c S b)"
    by (rule triple_bnd[OF sort triple_bnd[OF clear triple_bnd[OF push_changed fin]]])
qed

lemma cleared_error: "triple (calm c S b) m Q (\<lambda>_. calm c S b) \<Longrightarrow> triple (calm c S b) m Q (\<lambda>_. cleared c S b)"
  by (erule triple_weaken) (simp_all add: cleared_def)

lemma change_step:
  "keeps (calm c S b) m \<Longrightarrow> (\<And>x. triple (calm c S b) (f x) Q (\<lambda>_. cleared c S b)) \<Longrightarrow>
     triple (calm c S b) (bnd m f) Q (\<lambda>_. cleared c S b)"
  unfolding keeps_triple by (rule triple_bnd[OF cleared_error])

lemma change_result:
  "triple (calm c S b) (change_password_record E r cur pw (write_record E)) (\<lambda>_. changed pw b) (\<lambda>_. cleared c S b)"
proof -
  have v: "keeps (calm c S b) (or_else internal_error (on_host (bnd (read_record E) (\<lambda>rec.
      if password_too_long cur then ret False else lift (verify E rec cur)))))"
    by (intro wp calm_host keeps_read_record)
  have p: "triple (calm c S b) (case tt of (t, csrf) \<Rightarrow>
     bnd (outcome (on_host (write_record E pw))) (\<lambda>written.
      bnd (case written of
             Inr _ \<Rightarrow> ret ()
           | Inl Record_Published \<Rightarrow>
               bnd (update (\<lambda>a. a\<lparr>ag_sessions := []\<rparr>)) (\<lambda>_. throw (auth_error 500 ''password_change_uncertain''))
           | Inl Host_Failed \<Rightarrow> throw internal_error) (\<lambda>_.
      bnd (update (\<lambda>a. a\<lparr>ag_sessions := [], ag_failed := None\<rparr>)) (\<lambda>_.
      bnd (push_session E t csrf) (\<lambda>_.
      ret (auth_reply_of ''authenticated'' csrf (Some t) None None))))))
     (\<lambda>_. changed pw b) (\<lambda>_. cleared c S b)" for tt
    by (cases tt) (simp only: prod.case published_then)
  show ?thesis
    unfolding change_password_record_def
    by (rule change_step[OF calm_lock], rule change_step[OF keeps_read_state], rule change_step[OF calm_find_live],
        rule change_step[OF keeps_lift], rule change_step[OF keeps_require], rule change_step[OF keeps_option[OF keeps_ret keeps_throw]],
        rule change_step[OF calm_throttled], rule change_step[OF keeps_require], rule change_step[OF v],
        rule change_step[OF keeps_if[OF keeps_ret keeps_bnd[OF calm_failure keeps_throw]]],
        rule change_step[OF keeps_wrappers(1)[OF calm_token]], rule change_step[OF keeps_wrappers(1)[OF calm_token]],
        rule change_step[OF keeps_lift], rule p)
qed

lemma change_refused:
  assumes "\<not> b"
  shows "triple (calm c S b) (change_password E r cur pw) (\<lambda>_ _. False) (\<lambda>_. calm c S b)"
  unfolding change_password_def by (rule triple_bnd[OF acquire_result]) (simp add: assms triple_def)

lemma change_password_result:
  "triple (calm c S b) (change_password E r cur pw) (\<lambda>_ a. b \<and> changed pw True a) (\<lambda>_. cleared c S b)"
proof (cases b)
  case True
  have "triple (calm c S False) (then_release (change_password_record E r cur pw (write_record E)))
      (\<lambda>_. changed pw True) (\<lambda>_. cleared c S True)"
    by (rule triple_then_release[OF change_result]) (auto simp: changed_def cleared_def release_def calm_def)
  then have "triple (\<lambda>a. b \<and> calm c S False a) (then_release (change_password_record E r cur pw (write_record E)))
      (\<lambda>_. changed pw True) (\<lambda>_. cleared c S b)"
    using True by simp
  then show ?thesis
    unfolding change_password_def using True by (auto intro: triple_bnd[OF cleared_error[OF acquire_result]])
next
  case False
  have "triple (\<lambda>_. False) m Q F" for m :: "(auth_response, 'w agent, 'c) operation" and Q F by (simp add: triple_def)
  then show ?thesis
    unfolding change_password_def using False cleared_error[OF acquire_result, of c S b]
    by (auto intro!: triple_bnd)
qed

end

section \<open>Interleaved requests\<close>

text \<open>
  The request that holds the permit: it has entered, or its blocking task has run. \<open>g\<close> remembers for every token
  the password that was presented for it. \<open>elsewhere\<close> is any other program or the passing of time, which
  leaves the credential alone; \<open>poison\<close> a panic under the lock.
\<close>

datatype auth_pending =
    Idle
  | Setup_Entered string
  | Setup_Ran string "host_error + unit"
  | Login_Entered string
  | Login_Ran string "host_error + bool"

type_synonym 'w auth_world = "'w agent \<times> auth_pending \<times> (string \<Rightarrow> string option)"

definition proved :: "(string \<Rightarrow> string option) \<Rightarrow> string \<Rightarrow> 'w agent \<Rightarrow> string \<Rightarrow> string option" where
  "proved g pw a = g(au_token (last (ag_sessions a)) \<mapsto> pw)"

inductive auth_step :: "'w auth_env \<Rightarrow> ('w \<Rightarrow> string \<Rightarrow> bytes option) \<Rightarrow> 'w auth_world \<Rightarrow> 'w auth_world \<Rightarrow> bool"
  for E :: "'w auth_env" and content :: "'w \<Rightarrow> string \<Rightarrow> bytes option" where
  status: "auth_status E r a = (a', res) \<Longrightarrow> auth_step E content (a, p, g) (a', p, g)"
| logout: "logout E r a = (a', res) \<Longrightarrow> auth_step E content (a, p, g) (a', p, g)"
| guard: "require_auth E r a = (a', res) \<Longrightarrow> auth_step E content (a, p, g) (a', p, g)"
| setup_refused: "setup_enter E r code pw a = (a', Inl res) \<Longrightarrow> auth_step E content (a, p, g) (a', p, g)"
| setup_entered: "setup_enter E r code pw a = (a', Inr u) \<Longrightarrow> auth_step E content (a, p, g) (a', Setup_Entered pw, g)"
| setup_ran: "setup_blocking E pw a = (a', Inr res) \<Longrightarrow>
    auth_step E content (a, Setup_Entered pw, g) (a', Setup_Ran pw res, g)"
| setup_failed: "setup_finish E res a = (a', Inl e) \<Longrightarrow> auth_step E content (a, Setup_Ran pw res, g) (a', Idle, g)"
| setup_finished: "setup_finish E res a = (a', Inr u) \<Longrightarrow>
    auth_step E content (a, Setup_Ran pw res, g) (a', Idle, proved g pw a')"
| login_refused: "login_enter E r pw a = (a', Inl res) \<Longrightarrow> auth_step E content (a, p, g) (a', p, g)"
| login_entered: "login_enter E r pw a = (a', Inr u) \<Longrightarrow> auth_step E content (a, p, g) (a', Login_Entered pw, g)"
| login_ran: "login_blocking E pw a = (a', Inr res) \<Longrightarrow>
    auth_step E content (a, Login_Entered pw, g) (a', Login_Ran pw res, g)"
| login_failed: "login_finish E res a = (a', Inl e) \<Longrightarrow> auth_step E content (a, Login_Ran pw res, g) (a', Idle, g)"
| login_finished: "login_finish E res a = (a', Inr u) \<Longrightarrow>
    auth_step E content (a, Login_Ran pw res, g) (a', Idle, proved g pw a')"
| change_failed: "change_password E r cur pw a = (a', Inl res) \<Longrightarrow> auth_step E content (a, p, g) (a', p, g)"
| changed: "change_password E r cur pw a = (a', Inr res) \<Longrightarrow> auth_step E content (a, p, g) (a', p, proved g pw a')"
| elsewhere: "content w (ap_password (ae_paths E)) = content (ag_host a) (ap_password (ae_paths E)) \<Longrightarrow>
    auth_step E content (a, p, g) (a\<lparr>ag_host := w\<rparr>, p, g)"
| poison: "auth_step E content (a, p, g) (a\<lparr>ag_poisoned := True\<rparr>, p, g)"

context auth_machine
begin

definition proven :: "'w agent \<Rightarrow> (string \<Rightarrow> string option) \<Rightarrow> bool" where
  "proven a g \<longleftrightarrow> (\<forall>s\<in>set (ag_sessions a). \<exists>pw. g (au_token s) = Some pw \<and> accepts_now pw a)"

definition pending_ok :: "'w agent \<Rightarrow> auth_pending \<Rightarrow> bool" where
  "pending_ok a p \<longleftrightarrow> (ag_permit a \<longleftrightarrow> p = Idle) \<and>
     (case p of
        Setup_Entered pw \<Rightarrow> ag_sessions a = []
      | Setup_Ran pw r \<Rightarrow> ag_sessions a = [] \<and> (\<not> isl r \<longrightarrow> accepts_now pw a)
      | Login_Ran pw r \<Rightarrow> r = Inr True \<longrightarrow> accepts_now pw a
      | _ \<Rightarrow> True)"

definition inv :: "'w auth_world \<Rightarrow> bool" where
  "inv = (\<lambda>(a, p, g). length (ag_sessions a) \<le> MAX_SESSIONS \<and> proven a g \<and> pending_ok a p)"

lemma inv_start: "inv (a, p, g) \<Longrightarrow> calm (cred (ag_host a)) (set (ag_sessions a)) (ag_permit a) a"
  by (simp add: inv_def calm_def)

lemma proven_calm: "proven a g \<Longrightarrow> calm (cred (ag_host a)) (set (ag_sessions a)) b a' \<Longrightarrow> proven a' g"
  by (auto simp: proven_def calm_def)

lemma inv_calm:
  assumes "inv (a, p, g)" and "calm (cred (ag_host a)) (set (ag_sessions a)) (ag_permit a) a'"
  shows "inv (a', p, g)"
proof -
  have "proven a' g" using assms proven_calm by (auto simp: inv_def)
  moreover have "ag_sessions a = [] \<Longrightarrow> ag_sessions a' = []" using assms(2) by (simp add: calm_def)
  ultimately show ?thesis
    using assms by (auto simp: inv_def calm_def pending_ok_def split: auth_pending.splits)
qed

lemma inv_issued:
  assumes "proven a g" and "accepts_now pw a" and "issued (cred (ag_host a)) (set (ag_sessions a)) True a'"
  shows "inv (a', Idle, proved g pw a')"
proof -
  have ss: "ag_sessions a' = butlast (ag_sessions a') @ [last (ag_sessions a')]" "set (butlast (ag_sessions a')) \<subseteq> set (ag_sessions a)"
    using assms(3) by (simp_all add: issued_def)
  have "\<exists>pw. proved g pw' a' (au_token s) = Some pw \<and> accepts_now pw a'" if "s \<in> set (ag_sessions a')" "pw' = pw" for s pw'
  proof (cases "au_token s = au_token (last (ag_sessions a'))")
    case True
    then show ?thesis using assms(2,3) that by (simp add: proved_def issued_def)
  next
    case False
    then have "s \<in> set (butlast (ag_sessions a'))" using that ss(1) by (metis Un_iff set_ConsD set_append empty_iff list.set(1))
    then show ?thesis using ss(2) assms(1,3) False by (auto simp: proven_def proved_def issued_def)
  qed
  then show ?thesis using assms(3) by (auto simp: inv_def proven_def pending_ok_def issued_def)
qed

lemma keeps_calmD: "keeps (calm c S b) m \<Longrightarrow> calm c S b a \<Longrightarrow> m a = (a', r) \<Longrightarrow> calm c S b a'"
  by (metis fst_conv keeps_def)

lemma inv_change:
  assumes i: "inv (a, p, g)" and c: "change_password E r cur pw a = (a', res)"
  shows "inv (a', p, if isl res then g else proved g pw a')"
proof (cases res)
  case (Inl e)
  show ?thesis
  proof (cases "ag_permit a")
    case True
    have "cleared (cred (ag_host a)) (set (ag_sessions a)) (ag_permit a) a'"
      using tripleD_error[OF change_password_result inv_start[OF i] c[unfolded Inl]] .
    then show ?thesis
      using inv_calm[OF i] i Inl True by (auto simp: cleared_def inv_def proven_def pending_ok_def)
  next
    case False
    from tripleD_error[OF change_refused[OF False] inv_start[OF i] c[unfolded Inl]] show ?thesis
      using inv_calm[OF i] Inl by simp
  qed
next
  case (Inr u)
  then have "ag_permit a" "changed pw True a'"
    using tripleD_ok[OF change_password_result inv_start[OF i] c[unfolded Inr]] by auto
  moreover obtain s where "ag_sessions a' = [s]" using calculation(2) by (auto simp: changed_def length_Suc_conv)
  ultimately show ?thesis
    using i Inr by (auto simp: inv_def proven_def proved_def changed_def pending_ok_def MAX_SESSIONS_def)
qed

lemma inv_step:
  assumes "auth_step E content st st'" and i: "inv st"
  shows "inv st'"
  using assms(1,2)
proof cases
  case (status r a a' res p g)
  with i show ?thesis using inv_calm keeps_calmD[OF calm_status inv_start] by blast
next
  case (logout r a a' res p g)
  with i show ?thesis using inv_calm keeps_calmD[OF calm_logout inv_start] by blast
next
  case (guard r a a' res p g)
  with i show ?thesis using inv_calm keeps_calmD[OF calm_guard inv_start] by blast
next
  case (setup_refused r code pw a a' res p g)
  with i show ?thesis using inv_calm tripleD_error[OF setup_enter_result inv_start] by blast
next
  case (setup_entered r code pw a a' u p g)
  with i have "ag_permit a" "calm (cred (ag_host a)) (set (ag_sessions a)) False a'" "cred (ag_host a) = None"
    using tripleD_ok[OF setup_enter_result inv_start] by blast+
  moreover from this(3) i setup_entered have "ag_sessions a = []"
    by (auto simp: inv_def proven_def credential_accepts_def neq_Nil_conv)
  ultimately show ?thesis using setup_entered by (auto simp: inv_def proven_def pending_ok_def calm_def)
next
  case (setup_ran pw a a' res g)
  with i have "calm (cred (ag_host a)) {} False a"
    by (auto simp: inv_def pending_ok_def calm_def)
  from tripleD_ok[OF setup_blocking_result this setup_ran(3)] show ?thesis
    using setup_ran by (auto simp: inv_def proven_def pending_ok_def calm_def)
next
  case (setup_failed res a a' e pw g)
  with i have c: "calm (cred (ag_host a)) {} False a" by (auto simp: inv_def pending_ok_def calm_def)
  from tripleD_error[OF setup_finish_result c setup_failed(3)] show ?thesis
    using setup_failed by (auto simp: inv_def proven_def pending_ok_def calm_def)
next
  case (setup_finished res a a' u pw g)
  with i have c: "calm (cred (ag_host a)) (set (ag_sessions a)) False a" and g: "proven a g"
    by (auto simp: inv_def pending_ok_def calm_def)
  from tripleD_ok[OF setup_finish_result c setup_finished(3)] i show ?thesis
    using inv_issued[OF g] setup_finished by (auto simp: inv_def pending_ok_def)
next
  case (login_refused r pw a a' res p g)
  with i show ?thesis using inv_calm tripleD_error[OF login_enter_result inv_start] by blast
next
  case (login_entered r pw a a' u p g)
  with i have "ag_permit a" and c: "calm (cred (ag_host a)) (set (ag_sessions a)) False a'"
    using tripleD_ok[OF login_enter_result inv_start] by blast+
  with i login_entered show ?thesis
    using proven_calm[OF _ c, of g] by (auto simp: inv_def pending_ok_def calm_def)
next
  case (login_ran pw a a' res g)
  with i have c: "calm (cred (ag_host a)) (set (ag_sessions a)) False a" and g: "proven a g"
    by (auto simp: inv_def pending_ok_def calm_def)
  from tripleD_ok[OF login_blocking_result c login_ran(3)] show ?thesis
    using login_ran proven_calm[OF g] by (auto simp: inv_def pending_ok_def calm_def)
next
  case (login_failed res a a' e pw g)
  with i have c: "calm (cred (ag_host a)) (set (ag_sessions a)) False a" and g: "proven a g"
    by (auto simp: inv_def pending_ok_def calm_def)
  from tripleD_error[OF login_finish_result c login_failed(3)] show ?thesis
    using login_failed proven_calm[OF g] by (auto simp: inv_def pending_ok_def calm_def)
next
  case (login_finished res a a' u pw g)
  with i have c: "calm (cred (ag_host a)) (set (ag_sessions a)) False a" and g: "proven a g"
    by (auto simp: inv_def pending_ok_def calm_def)
  from tripleD_ok[OF login_finish_result c login_finished(3)] i show ?thesis
    using inv_issued[OF g] login_finished by (auto simp: inv_def pending_ok_def)
next
  case (change_failed r cur pw a a' res p g)
  with i show ?thesis using inv_change by fastforce
next
  case (changed r cur pw a a' res p g)
  with i show ?thesis using inv_change by fastforce
next
  case (elsewhere w a p g)
  with i show ?thesis by (auto simp: inv_def proven_def pending_ok_def split: auth_pending.splits)
next
  case (poison a p g)
  with i show ?thesis by (auto simp: inv_def proven_def pending_ok_def split: auth_pending.splits)
qed

lemma inv_reachable: "(auth_step E content)\<^sup>*\<^sup>* st st' \<Longrightarrow> inv st \<Longrightarrow> inv st'"
  by (induction rule: rtranclp_induct) (auto intro: inv_step)

end

text \<open>C5: Over every interleaving of requests (setups, logins, changes of the password, logouts, checks, other
  programs, panics) the session table holds at most 32 sessions, and every session in it was issued to a
  request that presented the password which the credential file accepts now: a login that verified an old
  password can never leave a session behind a change of the password.\<close>

theorem sessions_hold_current_password:
  assumes "auth_machine E content time" and "auth_open E w = (w', Inr a)"
    and "(auth_step E content)\<^sup>*\<^sup>* (a, Idle, Map.empty) (a', p, g)"
  shows "length (ag_sessions a') \<le> 32 \<and>
    (\<forall>s\<in>set (ag_sessions a'). \<exists>pw. g (au_token s) = Some pw \<and>
       credential_accepts E (content (ag_host a') (ap_password (ae_paths E))) pw)"
proof -
  have "auth_machine.inv E content (a, Idle, Map.empty)"
    using assms(2) by (auto simp: auth_machine.inv_def[OF assms(1)] auth_machine.proven_def[OF assms(1)]
      auth_machine.pending_ok_def[OF assms(1)] auth_open_def MAX_SESSIONS_def split: prod.splits sum.splits)
  from auth_machine.inv_reachable[OF assms(1,3) this] show ?thesis
    by (simp add: auth_machine.inv_def[OF assms(1)] auth_machine.proven_def[OF assms(1)] MAX_SESSIONS_def)
qed

end
