(* ===== verification/Auth_Guard.thy ===== *)
theory Auth_Guard
  imports Auth_Safety
begin

text \<open>
  What lets a request through to the panel, and the credential that a password change leaves behind.
\<close>

section \<open>The guard\<close>

context host_laws
begin

lemma now_clock: "instant_now H a = (a', r) \<Longrightarrow>
    \<exists>k. r = Inr k \<and> time (ag_host a) \<le> k \<and> time (ag_host a') = k \<and> ag_sessions a' = ag_sessions a"
  using clock by (auto simp: instant_now_def on_host_def observe_def split: prod.splits)

lemma retain_clock:
  fixes r :: "'e + auth_session list"
  shows "retain_live H ss a = (a', r) \<Longrightarrow> \<exists>kept. r = Inr kept \<and> time (ag_host a) \<le> time (ag_host a') \<and>
     (\<forall>s\<in>set kept. s \<in> set ss \<and> time (ag_host a) < au_expires s)"
proof (induction ss arbitrary: a a' r)
  case Nil
  then show ?case by (auto simp: ret_def)
next
  case (Cons s ss)
  obtain a1 and r1 :: "'e + nat" where n: "instant_now H a = (a1, r1)" by (metis surj_pair)
  from now_clock[OF n] obtain k where k: "r1 = Inr k" "time (ag_host a) \<le> k" "time (ag_host a1) = k" by blast
  obtain a2 and r2 :: "'e + auth_session list" where m: "retain_live H ss a1 = (a2, r2)" by (metis surj_pair)
  from Cons.IH[OF m] obtain kept where kept: "r2 = Inr kept" "time (ag_host a1) \<le> time (ag_host a2)"
    "\<forall>s\<in>set kept. s \<in> set ss \<and> time (ag_host a1) < au_expires s" by blast
  have "a' = a2" "r = Inr (if k < au_expires s then s # kept else kept)"
    using Cons.prems n m k(1) kept(1) by (simp_all add: bnd_def ret_def)
  then show ?case using k kept by (auto simp: order.strict_trans1)
qed

end

lemma session_found:
  assumes "host_laws (ae_host E) content time" and "session_of E r a = (a', Inr (t, csrf))"
  shows "\<exists>s\<in>set (ag_sessions a). cookie r SESSION = Some t \<and> au_token s = t \<and> au_csrf s = csrf \<and>
    time (ag_host a) < au_expires s"
proof -
  obtain t0 where t0: "cookie r SESSION = Some t0"
    using assms(2) by (cases "cookie r SESSION") (simp_all add: session_of_def ok_or_def bnd_lift_error throw_def)
  have p: "\<not> ag_poisoned a"
    using assms(2) t0 by (auto simp: session_of_def ok_or_def bnd_lift lock_inner_def bnd_def read_state_def require_def throw_def)
  obtain a1 and r1 :: "host_error + auth_session list" where m: "retain_live (ae_host E) (ag_sessions a) a = (a1, r1)"
    by (metis surj_pair)
  from host_laws.retain_clock[OF assms(1) m] obtain kept where kept: "r1 = Inr kept"
    "\<forall>s\<in>set kept. s \<in> set (ag_sessions a) \<and> time (ag_host a) < au_expires s" by blast
  have "map_sum id (\<lambda>s. (au_token s, au_csrf s)) (ok_or (find (\<lambda>s. au_token s = t0) kept) Host_Failed) = Inr (t, csrf)"
    using assms(2) t0 p m kept(1)
    by (simp add: session_of_def ok_or_def bnd_lift lock_inner_def drop_expired_def bnd_def read_state_def require_def ret_def
        update_def lift_def)
  then obtain s where "find (\<lambda>s. au_token s = t0) kept = Some s" "au_token s = t" "au_csrf s = csrf"
    by (auto simp: ok_or_def split: option.splits)
  then have "s \<in> set kept" "au_token s = t0" by (auto simp: find_Some_iff)
  then show ?thesis using kept(2) t0 \<open>au_token s = t\<close> \<open>au_csrf s = csrf\<close> by auto
qed

text \<open>C16: A request reaches a handler behind the guard only if it names an allowed host and carries the cookie of
  a session that is in the table and not yet expired; a request that is not GET, HEAD or OPTIONS also needs an
  allowed origin and the CSRF token of that very session.\<close>

theorem guard_passes_only_sessions:
  assumes "host_laws (ae_host E) content time" and "require_auth E r a = (a', Inr res)"
  shows "allowed_host E r \<and>
    (\<exists>s\<in>set (ag_sessions a). cookie r SESSION = Some (au_token s) \<and> time (ag_host a) < au_expires s \<and>
       (rq_method r \<notin> {''GET'', ''HEAD'', ''OPTIONS''} \<longrightarrow>
          allowed_origin E r \<and> header_str r ''x-csrf-token'' = Some (au_csrf s)))"
proof -
  have h: "allowed_host E r" using assms(2) by (auto simp: require_auth_def require_def bnd_throw throw_def split: if_splits)
  obtain a1 r1 where m: "session_of E r a = (a1, r1)" by (cases "session_of E r a")
  obtain t csrf where r1: "r1 = Inr (t, csrf)"
    using assms(2) h m by (cases r1) (auto simp: require_auth_def require_def bnd_ret bnd_def or_else_def)
  have "\<not> (rq_method r \<notin> {''GET'', ''HEAD'', ''OPTIONS''} \<and> (\<not> allowed_origin E r \<or> \<not> csrf_header_is r csrf))"
  proof
    assume "rq_method r \<notin> {''GET'', ''HEAD'', ''OPTIONS''} \<and> (\<not> allowed_origin E r \<or> \<not> csrf_header_is r csrf)"
    with assms(2) h m r1 show False
      by (simp add: require_auth_def require_def bnd_ret bnd_def[of "or_else _ _"] or_else_def bnd_throw throw_def split: if_splits)
  qed
  then have "rq_method r \<notin> {''GET'', ''HEAD'', ''OPTIONS''} \<longrightarrow> allowed_origin E r \<and> header_str r ''x-csrf-token'' = Some csrf"
    by (auto simp: csrf_header_is_def constant_time_eq_def split: option.splits)
  then show ?thesis using h session_found[OF assms(1) m[unfolded r1]] by auto
qed

section \<open>The credential\<close>

text \<open>C37: After a successful write of the credential for a password, whatever the machine stored and renamed
  on the way, reading it back accepts that password, and any other password exactly when scrypt maps it to
  the same key under the stored salt.\<close>

theorem written_credential_verifies:
  assumes "auth_machine E content time" and "write_record E pw w = (w', Inr u)" and "read_record E w' = (w'', Inr rec)"
  shows "verify E rec pw = Inr True \<and>
    (\<forall>pw'. verify E rec pw' = Inr True \<longleftrightarrow> scrypt32 E pw' (fst rec) = scrypt32 E pw (fst rec))"
proof -
  let ?p = "ap_password (ae_paths E)"
  have "credential_accepts E (content w' ?p) pw"
    using tripleD_ok[OF auth_machine.write_record_result[OF assms(1)] refl assms(2)] .
  then obtain v salt hash where v: "content w' ?p = Some (bytes_of_str v)" "parse_record v = Some (salt, hash)"
    "scrypt32 E pw salt = Inr hash" by (auto simp: credential_accepts_def)
  have laws: "host_laws (ae_host E) content time" using assms(1) by (rule auth_machine.axioms(1))
  from assms(3) obtain w1 m v' where s: "host_stat (ae_host E) ?p w' = (w1, Io_Ok m)"
    and t: "host_read_text (ae_host E) ?p w1 = (w'', Io_Ok v')" and rec: "parse_record v' = Some rec"
    by (auto simp: read_record_def bnd_def io_def require_def throw_def ret_def lift_def ok_or_def
        split: prod.splits io.splits sum.splits if_splits option.splits)
  have "content w1 ?p = content w' ?p" using host_laws.stat[OF laws, of ?p w'] s by simp
  then have "bytes_of_str v' = bytes_of_str v" using host_laws.read_text_content[OF laws t] v(1) by simp
  then have "v' = v" by (metis str_of_bytes_of_str)
  then have "rec = (salt, hash)" using rec v(2) by simp
  then show ?thesis using v(3) by (auto simp: verify_def and_then_def split: sum.splits)
qed

end
