(* ===== verification/Auth_Instance.thy ===== *)
theory Auth_Instance
  imports Auth_Guard
begin

text \<open>
  A machine that keeps the contracts of \<open>Agent_Host\<close> and \<open>Auth_Safety\<close>: files in a map, a clock and a
  counter for random numbers. A login runs on it, and the properties are applied to the session it leaves.
\<close>

section \<open>The machine\<close>

record panel_machine =
  pm_files :: "string \<Rightarrow> bytes option"
  pm_time :: nat
  pm_random :: nat

definition put_file :: "string \<Rightarrow> bytes option \<Rightarrow> panel_machine \<Rightarrow> panel_machine" where
  "put_file p c w = w\<lparr>pm_files := (pm_files w)(p := c)\<rparr>"

definition panel_meta :: "bytes \<Rightarrow> host_meta" where
  "panel_meta b = \<lparr>hm_file = True, hm_mode = 384, hm_len = length b\<rparr>"

definition panel_host :: "panel_machine host" where
  "panel_host = \<lparr>host_now = (\<lambda>w. (w, pm_time w)),
     host_random = (\<lambda>n w. (w\<lparr>pm_random := pm_random w + n\<rparr>, Some (map (\<lambda>k. of_nat (pm_random w + k)) [0..<n]))),
     host_exists = (\<lambda>p w. (w, pm_files w p \<noteq> None)),
     host_stat = (\<lambda>p w. (w, case pm_files w p of None \<Rightarrow> Missing | Some b \<Rightarrow> Io_Ok (panel_meta b))),
     host_open = (\<lambda>p w. (w, case pm_files w p of None \<Rightarrow> Missing | Some b \<Rightarrow> Io_Ok (panel_meta b, b))),
     host_read_text = (\<lambda>p w. (w, case pm_files w p of None \<Rightarrow> Missing | Some b \<Rightarrow> Io_Ok (str_of_bytes b))),
     host_create_new = (\<lambda>p w. if pm_files w p = None then (put_file p (Some []) w, Io_Ok ()) else (w, Io_Failed)),
     host_truncate = (\<lambda>p w. (put_file p (Some []) w, Io_Ok ())),
     host_append = (\<lambda>p bs w. case pm_files w p of None \<Rightarrow> (w, Missing) | Some b \<Rightarrow> (put_file p (Some (b @ bs)) w, Io_Ok ())),
     host_sync = (\<lambda>p w. (w, Io_Ok ())),
     host_rename = (\<lambda>p q w. case pm_files w p of None \<Rightarrow> (w, Missing)
       | Some b \<Rightarrow> (put_file q (Some b) (put_file p None w), Io_Ok ())),
     host_remove = (\<lambda>p w. if pm_files w p = None then (w, Missing) else (put_file p None w, Io_Ok ()))\<rparr>"

interpretation panel: host_laws panel_host pm_files pm_time
  by unfold_locales
    (auto simp: panel_host_def put_file_def bytes_of_str_of_bytes split: option.splits if_splits)

text \<open>A key derivation with the right length.\<close>

definition sum_pbkdf2 :: "unit pbkdf2" where
  "sum_pbkdf2 password salt n len =
     Inr (map (\<lambda>k. of_nat (k + n) + sum_list password + sum_list salt) [0..<len])"

definition panel_env :: "panel_machine auth_env" where
  "panel_env = \<lparr>ae_host = panel_host,
     ae_paths = \<lparr>ap_config = ''/etc/gofro/config.json'', ap_password = ''/etc/gofro/admin'', ap_setup_code = ''/etc/gofro/setup-code''\<rparr>,
     ae_pbkdf2 = sum_pbkdf2, ae_lan = ''192.168.8.1'', ae_https_port = 443\<rparr>"

lemma panel_env_simps [simp]: "ae_host panel_env = panel_host" "ap_password (ae_paths panel_env) = ''/etc/gofro/admin''"
  "ap_setup_code (ae_paths panel_env) = ''/etc/gofro/setup-code''" "ap_config (ae_paths panel_env) = ''/etc/gofro/config.json''"
  by (simp_all add: panel_env_def)

lemmas path_simps = with_extension_def path_split_def path_parent_def path_join_def state_file_def state_dir_def
  rsplit_once_def and_then_def ok_or_def

interpretation panel_auth: auth_machine panel_env pm_files pm_time
proof (intro auth_machine.intro auth_machine_axioms.intro, unfold panel_env_simps, goal_cases)
  case 1
  show ?case by (rule panel.host_laws_axioms)
qed (auto simp: panel_env_def sum_pbkdf2_def panel_host_def path_simps)

section \<open>A login\<close>

definition demo_salt :: bytes where "demo_salt = replicate 32 1"
definition demo_password :: string where "demo_password = ''correct horse''"

definition demo_hash :: bytes where
  "demo_hash = (case scrypt32 panel_env demo_password demo_salt of Inr h \<Rightarrow> h | Inl _ \<Rightarrow> [])"

lemma demo_scrypt: "scrypt32 panel_env demo_password demo_salt = Inr demo_hash \<and> length demo_hash = 32"
  by (simp add: demo_hash_def scrypt32_def scrypt_def panel_env_def sum_pbkdf2_def and_then_def Let_def)

definition panel_start :: panel_machine where
  "panel_start = \<lparr>pm_files = [''/etc/gofro/admin'' \<mapsto> bytes_of_str (show_record demo_salt demo_hash)], pm_time = 5, pm_random = 0\<rparr>"

definition login_request :: request where
  "login_request = \<lparr>rq_method = ''POST'', rq_path = ''/api/auth/login'', rq_authority = None,
     rq_headers = [(''host'', Some ''wifi.gofro.net''), (''origin'', Some ''https://wifi.gofro.net''),
       (''cookie'', Some ''__Host-gofro-csrf=00''), (''x-csrf-token'', Some ''00'')]\<rparr>"

lemma login_preauth: "preauth panel_env login_request"
  by (simp add: preauth_def login_request_def allowed_host_def allowed_origin_def request_authority_def header_all_def
      header_str_def allowed_https_authority_def AP_DOMAIN_def cookie_def CSRF_def constant_time_eq_def
      trim_def trim_chunks_def trim_start_chunks_def is_whitespace_def utf8_cont_def)

lemma record_length: "length salt = 32 \<Longrightarrow> length hash = 32 \<Longrightarrow> length (bytes_of_str (show_record salt hash)) \<le> 512"
proof -
  have "length (join ''$'' (record_header @ [x, y])) = 27 + length x + length y" for x y
    by (simp add: record_header_def)
  then show "length salt = 32 \<Longrightarrow> length hash = 32 \<Longrightarrow> length (bytes_of_str (show_record salt hash)) \<le> 512"
    by (simp add: bytes_of_str_def show_record_def length_hex)
qed

lemma read_stored:
  assumes "pm_files w ''/etc/gofro/admin'' = Some (bytes_of_str (show_record salt hash))"
    and "length salt = 32" and "length hash = 32"
  shows "read_record panel_env w = (w, Inr (salt, hash))"
  using assms record_length[OF assms(2,3)] parse_show_record[OF assms(2,3)]
  by (simp add: read_record_def bnd_def io_def panel_host_def panel_meta_def require_def ret_def lift_def ok_or_def)

lemma demo_read:
  "pm_files w ''/etc/gofro/admin'' = Some (bytes_of_str (show_record demo_salt demo_hash)) \<Longrightarrow>
     read_record panel_env w = (w, Inr (demo_salt, demo_hash))"
  by (rule read_stored) (simp_all add: demo_scrypt, simp add: demo_salt_def)

definition panel_agent :: "panel_machine agent" where
  "panel_agent = \<lparr>ag_sessions = [], ag_failed = None, ag_poisoned = False, ag_permit = True, ag_host = panel_start\<rparr>"

lemmas act_simps = bnd_def ret_def throw_def lift_def require_def io_def io_opt_def observe_def on_host_def read_state_def
  update_def outcome_def or_else_def with_cleanup_def instant_now_def lock_inner_def

lemma panel_opens: "auth_open panel_env panel_start = (panel_start, Inr panel_agent)"
proof -
  have "host_exists panel_host ''/etc/gofro/admin'' panel_start = (panel_start, True)"
    by (simp add: panel_host_def panel_start_def)
  then show ?thesis
    by (simp add: auth_open_def bnd_def observe_def demo_read panel_start_def ret_def panel_agent_def)
qed

lemma login_entered_demo: "login_enter panel_env login_request demo_password panel_agent = (panel_agent\<lparr>ag_permit := False\<rparr>, Inr ())"
  by (simp add: login_enter_def login_preauth password_too_long_def demo_password_def needs_setup_def acquire_def throttled_def
      act_simps panel_agent_def panel_host_def panel_start_def)

lemma login_ran_demo:
  "login_blocking panel_env demo_password (panel_agent\<lparr>ag_permit := False\<rparr>) = (panel_agent\<lparr>ag_permit := False\<rparr>, Inr (Inr True))"
proof -
  have "check_password panel_env demo_password panel_start = (panel_start, Inr True)"
    by (simp add: check_password_def bnd_def demo_read panel_start_def verify_def demo_scrypt and_then_def lift_def)
  moreover have "complete_admin panel_host (ae_paths panel_env) panel_start = (panel_start, Inr ())"
    by (simp add: complete_admin_def configured_def marker_def read_limited_def act_simps panel_host_def panel_start_def path_simps)
  ultimately show ?thesis
    by (simp add: login_blocking_def outcome_def on_host_def bnd_def ret_def panel_agent_def)
qed

lemma login_finished_demo:
  "\<exists>a u. login_finish panel_env (Inr True) (panel_agent\<lparr>ag_permit := False\<rparr>) = (a, Inr u) \<and> length (ag_sessions a) = 1"
  by (simp add: login_finish_def then_release_def issue_reply_def issue_def drop_expired_def make_room_def token_def random_bytes_def
      push_session_def act_simps ok_or_def panel_agent_def panel_host_def panel_start_def release_def del: upt_rec_numeral)

theorem sessions_hold_current_password_witness:
  "\<exists>a g. (auth_step panel_env pm_files)\<^sup>*\<^sup>* (panel_agent, Idle, Map.empty) (a, Idle, g) \<and> length (ag_sessions a) = 1 \<and>
     (\<forall>s\<in>set (ag_sessions a). \<exists>pw. g (au_token s) = Some pw \<and>
        credential_accepts panel_env (pm_files (ag_host a) ''/etc/gofro/admin'') pw)"
proof -
  let ?b = "panel_agent\<lparr>ag_permit := False\<rparr>"
  obtain a u where a: "login_finish panel_env (Inr True) ?b = (a, Inr u)" "length (ag_sessions a) = 1"
    using login_finished_demo by blast
  let ?g = "proved Map.empty demo_password a"
  have "auth_step panel_env pm_files (panel_agent, Idle, Map.empty) (?b, Login_Entered demo_password, Map.empty)"
    by (rule auth_step.login_entered[OF login_entered_demo])
  moreover have "auth_step panel_env pm_files (?b, Login_Entered demo_password, Map.empty) (?b, Login_Ran demo_password (Inr True), Map.empty)"
    by (rule auth_step.login_ran[OF login_ran_demo])
  moreover have "auth_step panel_env pm_files (?b, Login_Ran demo_password (Inr True), Map.empty) (a, Idle, ?g)"
    by (rule auth_step.login_finished[OF a(1)])
  ultimately have r: "(auth_step panel_env pm_files)\<^sup>*\<^sup>* (panel_agent, Idle, Map.empty) (a, Idle, ?g)"
    by (meson rtranclp.rtrancl_refl rtranclp.rtrancl_into_rtrancl)
  show ?thesis
    using sessions_hold_current_password[OF panel_auth.auth_machine_axioms panel_opens r] r a(2) by auto
qed

definition signed_in :: "panel_machine agent" where
  "signed_in = panel_agent\<lparr>ag_sessions := [\<lparr>au_token = ''aa'', au_csrf = ''bb'', au_expires = 9\<rparr>]\<rparr>"

definition status_request :: request where
  "status_request = \<lparr>rq_method = ''GET'', rq_path = ''/api/status'', rq_authority = None,
     rq_headers = [(''host'', Some ''wifi.gofro.net:443''), (''cookie'', Some ''a=1; __Host-gofro-session=aa'')]\<rparr>"

lemma status_passes: "\<exists>a res. require_auth panel_env status_request signed_in = (a, Inr res)"
proof -
  have h: "allowed_host panel_env status_request"
    by (simp add: status_request_def allowed_host_def request_authority_def header_all_def allowed_https_authority_def AP_DOMAIN_def)
  have c: "cookie status_request SESSION = Some ''aa''"
    by (simp add: status_request_def cookie_def header_all_def SESSION_def trim_def trim_chunks_def trim_start_chunks_def
        is_whitespace_def utf8_cont_def)
  have m: "rq_method status_request = ''GET''" "rq_path status_request = ''/api/status''" by (simp_all add: status_request_def)
  have o: "onboarding_step panel_host (ae_paths panel_env) panel_start = (panel_start, Inr Complete_Step)"
    by (simp add: onboarding_step_def marker_def read_limited_def act_simps panel_host_def panel_start_def path_simps)
  have f: "drop_expired panel_host signed_in = (signed_in, Inr ())"
    by (simp add: drop_expired_def act_simps signed_in_def panel_agent_def panel_host_def panel_start_def)
  have "session_of panel_env status_request signed_in = (signed_in, Inr (''aa'', ''bb''))"
    unfolding session_of_def c
    by (simp add: ok_or_def bnd_lift bnd_def lock_inner_def read_state_def require_def ret_def f lift_def)
      (simp add: signed_in_def panel_agent_def)
  then show ?thesis
    by (simp add: require_auth_def h m bnd_def or_else_def on_host_def require_def ret_def signed_in_def panel_agent_def o)
qed

theorem guard_passes_only_sessions_witness:
  "\<exists>s\<in>set (ag_sessions signed_in). cookie status_request SESSION = Some (au_token s) \<and> 5 < au_expires s"
proof -
  obtain a res where p: "require_auth panel_env status_request signed_in = (a, Inr res)" using status_passes by blast
  have l: "host_laws (ae_host panel_env) pm_files pm_time" by (simp add: panel.host_laws_axioms)
  show ?thesis
    using guard_passes_only_sessions[OF l p] by (auto simp: signed_in_def panel_agent_def panel_start_def)
qed

lemma demo_written:
  "\<exists>w u. write_record panel_env ''new password'' panel_start = (w, Inr u) \<and> (\<exists>w' rec. read_record panel_env w = (w', Inr rec))"
proof -
  let ?salt = "map of_nat [0..<32] :: bytes"
  obtain hash where h: "scrypt32 panel_env ''new password'' ?salt = Inr hash" "length hash = 32"
    by (simp add: scrypt32_def scrypt_def panel_env_def sum_pbkdf2_def and_then_def Let_def del: upt_rec_numeral)
  have r: "random_bytes panel_env 32 panel_start = (panel_start\<lparr>pm_random := 32\<rparr>, Inr ?salt)"
    by (simp add: random_bytes_def act_simps ok_or_def panel_host_def panel_start_def del: upt_rec_numeral)
  have "\<exists>w. write_record panel_env ''new password'' panel_start = (w, Inr ()) \<and>
      pm_files w ''/etc/gofro/admin'' = Some (bytes_of_str (show_record ?salt hash))"
    unfolding write_record_def Let_def bnd_def[of "random_bytes _ _"] r
    by (simp add: h(1) bnd_lift remove_if_there_def publish_record_def act_simps panel_host_def panel_start_def put_file_def path_simps
        del: upt_rec_numeral)
  then obtain w where w: "write_record panel_env ''new password'' panel_start = (w, Inr ())"
      "pm_files w ''/etc/gofro/admin'' = Some (bytes_of_str (show_record ?salt hash))"
    by blast
  have "read_record panel_env w = (w, Inr (?salt, hash))" by (rule read_stored[OF w(2)]) (simp_all add: h(2))
  then show ?thesis using w(1) by blast
qed

theorem written_credential_verifies_witness:
  "\<exists>w rec. verify panel_env rec ''new password'' = Inr True \<and> snd (write_record panel_env ''new password'' panel_start) = Inr () \<and>
     snd (read_record panel_env w) = Inr rec"
proof -
  obtain w u w' rec where p: "write_record panel_env ''new password'' panel_start = (w, Inr u)" "read_record panel_env w = (w', Inr rec)"
    using demo_written by blast
  have "verify panel_env rec ''new password'' = Inr True"
    using written_credential_verifies[OF panel_auth.auth_machine_axioms p] by blast
  then show ?thesis using p by (metis snd_conv unit.exhaust)
qed

end
