(* ===== verification/Dataplane_Host.thy ===== *)
theory Dataplane_Host
  imports Dataplane Fallible
begin

text \<open>
  The part of the data plane that acts (\<^verbatim>\<open>gofro-agent/src/dataplane.rs\<close>): scripts go to
  \<^verbatim>\<open>nft -f -\<close>, and the startup path reads the ruleset back as JSON. The command \<^verbatim>\<open>nft\<close> is code of
  another project. It gets the text \<open>show_script cs\<close> of a script; the record \<open>nft_host\<close> takes the commands
  that the text spells, and the locale \<open>nft_laws\<close> says what a run does to the ruleset in the kernel: a script
  is one transaction.
\<close>

section \<open>The command nft\<close>

datatype nft_end = Not_Started | No_Stdin | Not_Written | Not_Waited | Refused string | Accepted

text \<open>\<^verbatim>\<open>serde_json::Value\<close>; the keys of an object are distinct.\<close>

datatype json = J_Null | J_Bool bool | J_Number int | J_Str string | J_Array "json list" | J_Object "(string \<times> json) list"

record 'w nft_host =
  nft_transaction :: "nft_command list \<Rightarrow> 'w \<Rightarrow> 'w \<times> nft_end"
  nft_output :: "string list \<Rightarrow> 'w \<Rightarrow> 'w \<times> (bool \<times> string) io"
  nft_json :: "string \<Rightarrow> json option"

datatype nft_error =
    Nft_Failed nft_end
  | Nft_Output | Nft_Inspect | Nft_Json | Nft_Tables | Nft_Table
  | Legacy_Table | Lacks_Bypass

section \<open>Running scripts\<close>

definition run_nft :: "'w nft_host \<Rightarrow> nft_command list \<Rightarrow> (nft_error, 'w, unit) operation" where
  "run_nft H cs =
     (if show_script cs = [] then ret ()
      else (\<lambda>w. case nft_transaction H cs w of
        (w', Accepted) \<Rightarrow> (w', Inr ())
      | (w', r) \<Rightarrow> (w', Inl (Nft_Failed r))))"

definition apply_table :: "'w nft_host \<Rightarrow> lan_context \<Rightarrow> nat \<Rightarrow> vpn_egress \<Rightarrow> 'r policy \<Rightarrow> fake_mapping list \<Rightarrow>
    panel_ports \<Rightarrow> mac_address list \<Rightarrow> (nft_error, 'w, unit) operation" where
  "apply_table H lan dns_port e p mappings ports exclusions =
     run_nft H (render_with_exclusions lan dns_port e p mappings ports exclusions)"

definition install_guard :: "'w nft_host \<Rightarrow> lan_context \<Rightarrow> mac_address list \<Rightarrow> (nft_error, 'w, unit) operation" where
  "install_guard H lan exclusions = run_nft H (render_guard_with_exclusions lan exclusions)"

definition publish_exclusions :: "'w nft_host \<Rightarrow> lan_context \<Rightarrow> mac_address list \<Rightarrow> (nft_error, 'w, unit) operation" where
  "publish_exclusions H lan exclusions = run_nft H (render_publish_exclusions lan exclusions)"

definition clear_guard :: "'w nft_host \<Rightarrow> (nft_error, 'w, unit) operation" where
  "clear_guard H = run_nft H [Destroy_Table GUARD_TABLE]"

definition install_mappings :: "'w nft_host \<Rightarrow> fake_mapping list \<Rightarrow> (nft_error, 'w, unit) operation" where
  "install_mappings H mappings = run_nft H (append_mappings mappings)"

definition delete_mappings :: "'w nft_host \<Rightarrow> fake_mapping list \<Rightarrow> (nft_error, 'w, unit) operation" where
  "delete_mappings H mappings =
     (if mappings = [] then ret () else run_nft H (remove_mappings mappings))"

definition table_exists :: "'w nft_host \<Rightarrow> 'w \<Rightarrow> 'w \<times> bool" where
  "table_exists H w =
     (case nft_output H [''--terse'', ''list'', ''table'', ''inet'', TABLE] w of
        (w', Io_Ok (ok, _)) \<Rightarrow> (w', ok)
      | (w', _) \<Rightarrow> (w', False))"

section \<open>Reading the ruleset at startup\<close>

text \<open>Indexing with a key: anything that is missing is \<^verbatim>\<open>Null\<close>.\<close>

fun get :: "json \<Rightarrow> string \<Rightarrow> json option" where
  "get (J_Object fs) key = map_of fs key"
| "get _ key = None"

definition at :: "json \<Rightarrow> string \<Rightarrow> json" where
  "at v key = (case get v key of Some x \<Rightarrow> x | None \<Rightarrow> J_Null)"

fun as_array :: "json \<Rightarrow> json list option" where
  "as_array (J_Array vs) = Some vs"
| "as_array _ = None"

definition returns :: "json \<Rightarrow> bool" where
  "returns expr \<longleftrightarrow> get expr ''return'' \<noteq> None"

definition matches_exclusions :: "json \<Rightarrow> bool" where
  "matches_exclusions expr \<longleftrightarrow>
     (let condition = at expr ''match'' in
      at (at (at condition ''left'') ''payload'') ''protocol'' = J_Str ''ether'' \<and>
      at (at (at condition ''left'') ''payload'') ''field'' = J_Str ''saddr'' \<and>
      at condition ''right'' = J_Str ''@device_exclusions'' \<and>
      (at condition ''op'' = J_Str ''=='' \<or> at condition ''op'' = J_Str ''in''))"

definition has_exclusion_return :: "json list \<Rightarrow> string \<Rightarrow> bool" where
  "has_exclusion_return items chain =
     list_ex (\<lambda>entry.
       let rule = at entry ''rule'' in
       at rule ''chain'' = J_Str chain \<and>
       (case as_array (at rule ''expr'') of
          None \<Rightarrow> False
        | Some expressions \<Rightarrow> list_ex returns expressions \<and> list_ex matches_exclusions expressions)) items"

definition inspect :: "'w nft_host \<Rightarrow> string list \<Rightarrow> nft_error \<Rightarrow> (nft_error, 'w, json list) operation" where
  "inspect H args bad =
     bnd (io Nft_Output (nft_output H args)) (\<lambda>(ok, out).
     bnd (require ok Nft_Inspect) (\<lambda>_.
     bnd (lift (ok_or (nft_json H out) Nft_Json)) (\<lambda>v.
     lift (ok_or (as_array (at v ''nftables'')) bad))))"

definition startup_script :: "lan_context \<Rightarrow> mac_address list \<Rightarrow> bool \<Rightarrow> bool \<Rightarrow> nft_error + nft_command list" where
  "startup_script lan exclusions exists has_set =
     (case render_startup lan exclusions exists has_set of Inr cs \<Rightarrow> Inr cs | Inl _ \<Rightarrow> Inl Legacy_Table)"

definition synchronize :: "'w nft_host \<Rightarrow> lan_context \<Rightarrow> mac_address list \<Rightarrow> (nft_error, 'w, unit) operation" where
  "synchronize H lan exclusions =
     bnd (inspect H [''-j'', ''list'', ''tables''] Nft_Tables) (\<lambda>tables.
     if \<not> list_ex (\<lambda>entry. at (at entry ''table'') ''family'' = J_Str ''inet'' \<and>
                          at (at entry ''table'') ''name'' = J_Str TABLE) tables
     then bnd (lift (startup_script lan exclusions False False)) (run_nft H)
     else
       bnd (inspect H [''-j'', ''--terse'', ''list'', ''table'', ''inet'', TABLE] Nft_Table) (\<lambda>items.
       let has_set = list_ex (\<lambda>entry. at (at entry ''set'') ''name'' = J_Str ''device_exclusions'' \<and>
                                     at (at entry ''set'') ''type'' = J_Str ''ether_addr'') items;
           has_dns_rules = list_ex (\<lambda>entry. at (at entry ''rule'') ''chain'' = J_Str ''gofro_dns'') items in
       bnd (require (exclusions = [] \<or>
              (has_exclusion_return items ''gofro_mark'' \<and>
               (has_dns_rules \<longrightarrow> has_exclusion_return items ''gofro_dns''))) Lacks_Bypass) (\<lambda>_.
       bnd (lift (startup_script lan exclusions True has_set)) (run_nft H))))"

text \<open>A failure installs the guard without any exclusion; a failure of that guard is the error.\<close>

definition synchronize_startup :: "'w nft_host \<Rightarrow> lan_context \<Rightarrow> mac_address list \<Rightarrow> (nft_error, 'w, unit) operation" where
  "synchronize_startup H lan exclusions w =
     (case synchronize H lan exclusions w of
        (w', Inr u) \<Rightarrow> (w', Inr u)
      | (w', Inl e) \<Rightarrow>
          (case install_guard H lan [] w' of
             (w'', Inl e') \<Rightarrow> (w'', Inl e')
           | (w'', Inr _) \<Rightarrow> (w'', Inl e)))"

section \<open>The ruleset in the kernel\<close>

text \<open>
  A ruleset is the list of the commands in effect: \<^verbatim>\<open>destroy\<close> takes away what belongs to a table,
  \<^verbatim>\<open>flush\<close> and \<^verbatim>\<open>delete element\<close> take away elements, and everything else is added.
\<close>

fun table_of :: "nft_command \<Rightarrow> string" where
  "table_of (Destroy_Table t) = t"
| "table_of (Add_Table t) = t"
| "table_of (Add_Set t _ _) = t"
| "table_of (Add_Map t _ _) = t"
| "table_of (Add_Elements t _ _) = t"
| "table_of (Delete_Elements t _ _) = t"
| "table_of (Flush_Set t _) = t"
| "table_of (Add_Chain t _ _) = t"
| "table_of (Add_Rule t _ _) = t"

text \<open>The key of an element, which is what \<^verbatim>\<open>delete element\<close> names.\<close>

fun el_key :: "nft_element \<Rightarrow> nft_element" where
  "el_key (El_Map f _) = El_Addr f"
| "el_key e = e"

definition without :: "nft_element list \<Rightarrow> nft_element list \<Rightarrow> nft_element list" where
  "without gone es = filter (\<lambda>e. el_key e \<notin> set gone) es"

definition in_set :: "string \<Rightarrow> string \<Rightarrow> nft_command \<Rightarrow> bool" where
  "in_set t s c \<longleftrightarrow> (case c of Add_Elements t' s' _ \<Rightarrow> t' = t \<and> s' = s | _ \<Rightarrow> False)"

fun apply_command :: "nft_command \<Rightarrow> nft_command list \<Rightarrow> nft_command list" where
  "apply_command (Destroy_Table t) rs = filter (\<lambda>c. table_of c \<noteq> t) rs"
| "apply_command (Flush_Set t s) rs = filter (\<lambda>c. \<not> in_set t s c) rs"
| "apply_command (Delete_Elements t s gone) rs =
     map (\<lambda>c. case c of Add_Elements t' s' es \<Rightarrow> Add_Elements t' s' (if t' = t \<and> s' = s then without gone es else es)
                     | _ \<Rightarrow> c) rs"
| "apply_command c rs = rs @ [c]"

definition apply_script :: "nft_command list \<Rightarrow> nft_command list \<Rightarrow> nft_command list" where
  "apply_script cs rs = fold apply_command cs rs"

definition in_table :: "string \<Rightarrow> nft_command list \<Rightarrow> nft_command list" where
  "in_table t rs = filter (\<lambda>c. table_of c = t) rs"

locale nft_laws =
  fixes H :: "'w nft_host" and ruleset :: "'w \<Rightarrow> nft_command list"
  assumes accepted: "nft_transaction H cs w = (w', Accepted) \<Longrightarrow> ruleset w' = apply_script cs (ruleset w)"
    and refused: "nft_transaction H cs w = (w', r) \<Longrightarrow> r \<noteq> Accepted \<Longrightarrow> ruleset w' = ruleset w"
    and nft_output: "ruleset (fst (nft_output H args w)) = ruleset w"


section \<open>Scripts and tables\<close>

lemma apply_script_simps [simp]:
  "apply_script [] rs = rs" "apply_script (c # cs) rs = apply_script cs (apply_command c rs)"
  "apply_script (xs @ ys) rs = apply_script ys (apply_script xs rs)"
  by (simp_all add: apply_script_def)

lemma in_table_simps [simp]:
  "in_table t [] = []" "in_table t (c # cs) = (if table_of c = t then c # in_table t cs else in_table t cs)"
  "in_table t (xs @ ys) = in_table t xs @ in_table t ys"
  by (simp_all add: in_table_def)

lemma in_set_table: "in_set t s c \<Longrightarrow> table_of c = t"
  by (cases c) (auto simp: in_set_def)

lemma in_table_command:
  "in_table t (apply_command c rs) = (if table_of c = t then apply_command c (in_table t rs) else in_table t rs)"
proof (cases c)
  case (Destroy_Table t')
  then show ?thesis by (auto simp: in_table_def intro!: filter_cong)
next
  case (Flush_Set t' s)
  then show ?thesis by (auto simp: in_table_def intro!: filter_cong dest: in_set_table)
next
  case (Delete_Elements t' s gone)
  let ?f = "\<lambda>c. case c of Add_Elements t2 s2 es \<Rightarrow> Add_Elements t2 s2 (if t2 = t' \<and> s2 = s then without gone es else es) | _ \<Rightarrow> c"
  have "table_of (?f x) = table_of x" "table_of x \<noteq> t' \<Longrightarrow> ?f x = x" for x by (cases x; simp)+
  then show ?thesis using Delete_Elements by (induction rs) auto
qed (auto simp: in_table_def)

lemma in_table_script: "in_table t (apply_script cs rs) = apply_script (in_table t cs) (in_table t rs)"
  by (induction cs arbitrary: rs) (simp_all add: in_table_command)

lemma in_table_idem [simp]: "in_table t (in_table t rs) = in_table t rs"
  by (simp add: in_table_def)

lemma chain_rules_in_table: "chain_rules (in_table t rs) t c = chain_rules rs t c"
  by (induction rs) (auto simp: chain_rules_Cons split: nft_command.split)

lemma elements_in_table: "elements (in_table t rs) t s = elements rs t s"
  by (induction rs) (auto simp: elements_Cons split: nft_command.split)

lemma loaded_state_in_table: "loaded_state N (in_table t rs) t = loaded_state N rs t"
  by (simp add: loaded_state_def elements_in_table)

text \<open>Commands that only add.\<close>

definition adds :: "nft_command \<Rightarrow> bool" where
  "adds c \<longleftrightarrow> (case c of Destroy_Table _ \<Rightarrow> False | Delete_Elements _ _ _ \<Rightarrow> False | Flush_Set _ _ \<Rightarrow> False | _ \<Rightarrow> True)"

lemma apply_adds: "list_all adds cs \<Longrightarrow> apply_script cs rs = rs @ cs"
proof (induction cs arbitrary: rs)
  case (Cons c cs)
  moreover have "apply_command c rs = rs @ [c]" using Cons.prems by (cases c) (auto simp: adds_def)
  ultimately show ?case by simp
qed simp

lemma in_table_all: "list_all (\<lambda>c. table_of c = t) cs \<Longrightarrow> in_table t cs = cs"
  and in_table_none: "list_all (\<lambda>c. table_of c \<noteq> t) cs \<Longrightarrow> in_table t cs = []"
  by (auto simp: in_table_def list_all_iff filter_id_conv filter_empty_conv)

lemma table_names [simp]: "TABLE \<noteq> GUARD_TABLE" "GUARD_TABLE \<noteq> TABLE"
  by (simp_all add: TABLE_def GUARD_TABLE_def)

section \<open>What the scripts of the agent leave\<close>

text \<open>The commands that stay in effect: the script without the removal of the old table.\<close>

definition guard_commands :: "lan_context \<Rightarrow> mac_address list \<Rightarrow> nft_command list" where
  "guard_commands lan exclusions = tl (render_guard_with_exclusions lan exclusions)"

definition guarded :: "lan_context \<Rightarrow> mac_address list \<Rightarrow> nft_command list \<Rightarrow> bool" where
  "guarded lan exclusions rs \<longleftrightarrow> in_table GUARD_TABLE rs = guard_commands lan exclusions"

lemma guard_script: "render_guard_with_exclusions lan exclusions = Destroy_Table GUARD_TABLE # guard_commands lan exclusions"
  by (simp add: guard_commands_def render_guard_with_exclusions_def)

lemma guard_commands_adds: "list_all adds (guard_commands lan exclusions)"
    "list_all (\<lambda>c. table_of c = GUARD_TABLE) (guard_commands lan exclusions)"
  by (simp_all add: guard_commands_def render_guard_with_exclusions_def render_exclusion_set_def adds_def)

lemma in_table_destroyed: "in_table t (filter (\<lambda>c. table_of c \<noteq> t) rs) = []"
  by (simp add: in_table_def)

lemma guard_script_guards: "guarded lan exclusions (apply_script (render_guard_with_exclusions lan exclusions) rs)"
  by (simp add: guarded_def guard_script apply_adds[OF guard_commands_adds(1)] in_table_all[OF guard_commands_adds(2)]
      in_table_destroyed)

lemma publish_script_guards: "guarded lan exclusions (apply_script (render_publish_exclusions lan exclusions) rs)"
  unfolding render_publish_exclusions_def append_Cons[symmetric] apply_script_simps(3) by (rule guard_script_guards)

lemma startup_script_guards:
  "startup_script lan exclusions exists has_set = Inr cs \<Longrightarrow> guarded lan exclusions (apply_script cs rs)"
  by (auto simp: startup_script_def render_startup_def ensure_def guard_script_guards publish_script_guards
      split: if_splits sum.splits)

lemma set_commands_table: "list_all (\<lambda>c. table_of c = TABLE) (set_commands p mappings exclusions)"
    "list_all adds (tl (set_commands p mappings exclusions))"
  by (auto simp: set_commands_def render_exclusion_set_def append_mappings_def adds_def
      append_target_elements_def rule_sets_def list_all_iff FAKE_TARGET_SETS_def Let_def case_prod_beta
      split: ip_match.splits if_splits)

lemma chain_commands_table: "list_all (\<lambda>c. table_of c = TABLE) (chain_commands lan dns_port e p ports)"
    "list_all adds (chain_commands lan dns_port e p ports)"
  by (auto simp: chain_commands_def add_rules_def append_dns_egress_guard_def list_all_iff adds_def
      split: option.splits)

lemma render_table:
  "render_with_exclusions lan dns_port e p mappings ports exclusions =
     Destroy_Table TABLE # tl (render_with_exclusions lan dns_port e p mappings ports exclusions)"
  by (simp add: render_with_exclusions_def set_commands_def)

lemma apply_table_script:
  assumes cs_def: "cs = render_with_exclusions lan dns_port e p mappings ports exclusions"
  shows "in_table TABLE (apply_script cs rs) = tl cs" and "in_table GUARD_TABLE (apply_script cs rs) = in_table GUARD_TABLE rs"
proof -
  have all: "list_all (\<lambda>c. table_of c = TABLE) cs" and adds: "list_all adds (tl cs)"
    using set_commands_table[of p mappings exclusions] chain_commands_table[of lan dns_port e p ports]
    by (simp_all add: cs_def render_with_exclusions_def set_commands_def)
  have cs: "cs = Destroy_Table TABLE # tl cs" unfolding cs_def by (rule render_table)
  have "list_all (\<lambda>c. table_of c = TABLE) (tl cs)" using all by (cases cs) simp_all
  then show "in_table TABLE (apply_script cs rs) = tl cs"
    by (subst cs) (simp add: apply_adds[OF adds] in_table_all in_table_destroyed)
  have "in_table GUARD_TABLE cs = []" using all by (auto simp: list_all_iff intro!: in_table_none)
  then show "in_table GUARD_TABLE (apply_script cs rs) = in_table GUARD_TABLE rs" by (simp add: in_table_script)
qed


section \<open>Transactions\<close>

lemma show_command_nonempty [simp]: "show_command c \<noteq> []"
  by (cases c) (simp_all add: show_rule_def newline_def)

lemma show_script_empty [simp]: "show_script cs = [] \<longleftrightarrow> cs = []"
  by (cases cs) (simp_all add: show_script_def)

context nft_laws
begin

lemma run_nft_ok: "run_nft H cs w = (w', Inr u) \<Longrightarrow> ruleset w' = apply_script cs (ruleset w)"
  by (auto simp: run_nft_def ret_def dest: accepted split: if_splits prod.splits nft_end.splits)

lemma run_nft_error: "run_nft H cs w = (w', Inl e) \<Longrightarrow> ruleset w' = ruleset w \<and> cs \<noteq> []"
  by (auto simp: run_nft_def ret_def dest: refused split: if_splits prod.splits nft_end.splits)

lemma run_nft_triple:
  assumes "\<And>w w'. P w \<Longrightarrow> ruleset w' = apply_script cs (ruleset w) \<Longrightarrow> Q () w'"
    and "\<And>e w w'. P w \<Longrightarrow> ruleset w' = ruleset w \<Longrightarrow> E e w'"
  shows "triple P (run_nft H cs) Q E"
  unfolding triple_def using assms run_nft_ok run_nft_error by (auto split: prod.splits sum.splits)

lemma inspect_keeps: "keeps (\<lambda>w. ruleset w = rs) (inspect H args bad)"
  unfolding inspect_def by (intro wp keeps_io) (simp add: nft_output)

lemma synchronize_ok:
  assumes "synchronize H lan exclusions w = (w', Inr u)"
  shows "guarded lan exclusions (ruleset w')"
proof -
  let ?T = "\<lambda>_ :: 'w. True" and ?Q = "\<lambda>_ w. guarded lan exclusions (ruleset w)" and ?E = "\<lambda>_ _. True"
  have any: "triple ?T m (\<lambda>_. ?T) ?E" for m :: "(nft_error, 'w, 'x) operation"
    by (auto simp: triple_def split: prod.split sum.split)
  have run: "triple ?T (bnd (lift (startup_script lan exclusions b c)) (run_nft H)) ?Q ?E" for b c
  proof (cases "startup_script lan exclusions b c")
    case (Inl e)
    then show ?thesis by (simp add: bnd_lift_error triple_def throw_def)
  next
    case (Inr cs)
    then show ?thesis by (simp add: bnd_lift startup_script_guards run_nft_triple)
  qed
  have "triple ?T (synchronize H lan exclusions) ?Q ?E"
    unfolding synchronize_def Let_def
    by (rule triple_bnd[OF any], split if_split, intro conjI impI run triple_bnd[OF any])
  from tripleD_ok[where w' = w' and x = u, OF this TrueI] show ?thesis using assms by simp
qed

end

end
