(* ===== verification/Script_Types.thy ===== *)
theory Script_Types
  imports Dataplane_Host
begin

text \<open>
  When \<^verbatim>\<open>nft\<close> takes a script: every set, map, chain and table that a command names is declared before
  it, elements and lookups have the type of their set, and a statement stands in a chain of a hook that
  allows it. One command that is not so makes \<^verbatim>\<open>nft\<close> refuse the whole transaction. The scripts of
  \<^verbatim>\<open>dataplane.rs\<close> are well typed, and so the kernel with this check accepts each of them.
\<close>

section \<open>Types of sets\<close>

definition ETHER :: string where "ETHER = ''type ether_addr;''"
definition ADDRESS :: string where "ADDRESS = ''type ipv4_addr;''"
definition INTERVAL :: string where "INTERVAL = ''type ipv4_addr; flags interval; auto-merge;''"
definition TRANSLATION :: string where "TRANSLATION = ''type ipv4_addr : ipv4_addr;''"

fun el_fits :: "nft_element \<Rightarrow> string \<Rightarrow> bool" where
  "el_fits (El_Mac _) k = (k = ETHER)"
| "el_fits (El_Addr _) k = (k = ADDRESS \<or> k = INTERVAL)"
| "el_fits (El_Range _) k = (k = INTERVAL)"
| "el_fits (El_Map _ _) k = (k = TRANSLATION)"

text \<open>An element is deleted by its key.\<close>

fun key_fits :: "nft_element \<Rightarrow> string \<Rightarrow> bool" where
  "key_fits (El_Addr _) k = (k = ADDRESS \<or> k = INTERVAL \<or> k = TRANSLATION)"
| "key_fits e k = el_fits e k"

definition declared :: "(string \<Rightarrow> bool) \<Rightarrow> string \<Rightarrow> string \<Rightarrow> nft_command list \<Rightarrow> bool" where
  "declared P t s rs =
     list_ex (\<lambda>d. case d of
       Add_Set t' s' k \<Rightarrow> t' = t \<and> s' = s \<and> P k | Add_Map t' s' k \<Rightarrow> t' = t \<and> s' = s \<and> P k | _ \<Rightarrow> False) rs"

definition table_declared :: "string \<Rightarrow> nft_command list \<Rightarrow> bool" where
  "table_declared t rs = list_ex (\<lambda>d. d = Add_Table t) rs"

section \<open>Types of rules\<close>

definition starts :: "string \<Rightarrow> string \<Rightarrow> bool" where
  "starts p s \<longleftrightarrow> strip_prefix p s \<noteq> None"

text \<open>\<open>item_ok t rs k item\<close>: the item may stand in a chain of the table \<open>t\<close> whose declaration is \<open>k\<close>.\<close>

fun item_ok :: "string \<Rightarrow> nft_command list \<Rightarrow> string \<Rightarrow> nft_item \<Rightarrow> bool" where
  "item_ok t rs k (Daddr_In_Set s) = declared (\<lambda>k'. k' = ADDRESS \<or> k' = INTERVAL) t s rs"
| "item_ok t rs k Excluded_Mac = declared (\<lambda>k'. k' = ETHER) t ''device_exclusions'' rs"
| "item_ok t rs k Not_Excluded_Mac = declared (\<lambda>k'. k' = ETHER) t ''device_exclusions'' rs"
| "item_ok t rs k (Daddr_List ns) = (ns \<noteq> [])"
| "item_ok t rs k (Tcp_Dport_In ps) = (ps \<noteq> [])"
| "item_ok t rs k (Tcp_Dport_Not_In ps) = (ps \<noteq> [])"
| "item_ok t rs k Dnat_Map =
     (starts ''type nat hook prerouting'' k \<and> declared (\<lambda>k'. k' = TRANSLATION) t ''fake_to_real'' rs)"
| "item_ok t rs k (Dnat_To _ _) = starts ''type nat hook prerouting'' k"
| "item_ok t rs k (Redirect _) = starts ''type nat hook prerouting'' k"
| "item_ok t rs k (Snat_To _) = starts ''type nat hook postrouting'' k"
| "item_ok t rs k Reject_Ipv6 = starts ''type filter hook forward'' k"
| "item_ok t rs k item = True"

definition rule_ok :: "string \<Rightarrow> nft_command list \<Rightarrow> string \<Rightarrow> nft_rule \<Rightarrow> bool" where
  "rule_ok t rs k items = list_all (item_ok t rs k) items"

fun command_ok :: "nft_command \<Rightarrow> nft_command list \<Rightarrow> bool" where
  "command_ok (Destroy_Table t) rs = True"
| "command_ok (Add_Table t) rs = True"
| "command_ok (Add_Set t s k) rs = table_declared t rs"
| "command_ok (Add_Map t s k) rs = table_declared t rs"
| "command_ok (Add_Elements t s es) rs = (es \<noteq> [] \<and> declared (\<lambda>k. list_all (\<lambda>e. el_fits e k) es) t s rs)"
| "command_ok (Delete_Elements t s es) rs = (es \<noteq> [] \<and> declared (\<lambda>k. list_all (\<lambda>e. key_fits e k) es) t s rs)"
| "command_ok (Flush_Set t s) rs = declared (\<lambda>_. True) t s rs"
| "command_ok (Add_Chain t c k) rs = table_declared t rs"
| "command_ok (Add_Rule t c items) rs =
     list_ex (\<lambda>d. case d of Add_Chain t' c' k \<Rightarrow> t' = t \<and> c' = c \<and> rule_ok t rs k items | _ \<Rightarrow> False) rs"

fun script_ok :: "nft_command list \<Rightarrow> nft_command list \<Rightarrow> bool" where
  "script_ok [] rs = True"
| "script_ok (c # cs) rs = (command_ok c rs \<and> script_ok cs (apply_command c rs))"

section \<open>A kernel with the check\<close>

text \<open>The kernel keeps its ruleset in a part of the machine, with the functions that read and change it.\<close>

definition kernel_nft :: "('w \<Rightarrow> nft_command list) \<Rightarrow> (nft_command list \<Rightarrow> 'w \<Rightarrow> 'w) \<Rightarrow> 'w nft_host" where
  "kernel_nft read put = \<lparr>
     nft_transaction = (\<lambda>cs w. if script_ok cs (read w) then (put (apply_script cs (read w)) w, Accepted)
                               else (w, Refused ''No such file or directory'')),
     nft_output = (\<lambda>args w.
       if args = [''-j'', ''list'', ''tables'']
       then (w, Io_Ok (True, if table_declared TABLE (read w) then ''table'' else ''none''))
       else (w, Io_Ok (table_declared TABLE (read w), ''rules''))),
     nft_json = (\<lambda>text.
       if text = ''none'' then Some (J_Object [(''nftables'', J_Array [])])
       else if text = ''table''
       then Some (J_Object [(''nftables'',
              J_Array [J_Object [(''table'', J_Object [(''family'', J_Str ''inet''), (''name'', J_Str TABLE)])]])])
       else None)\<rparr>"

lemma kernel_nft_laws:
  assumes "\<And>rs w. read (put rs w) = rs"
  shows "nft_laws (kernel_nft read put) read"
  by unfold_locales (auto simp: kernel_nft_def assms split: if_splits)

interpretation kernel: nft_laws "kernel_nft id (\<lambda>rs _. rs)" id
  by (rule kernel_nft_laws) simp

section \<open>Scripts that only add\<close>

lemma script_ok_append: "script_ok (xs @ ys) rs \<longleftrightarrow> script_ok xs rs \<and> script_ok ys (apply_script xs rs)"
  by (induction xs arbitrary: rs) simp_all

lemma declared_append [simp]: "declared P t s (xs @ ys) \<longleftrightarrow> declared P t s xs \<or> declared P t s ys"
  by (simp add: declared_def)

lemma declared_Cons: "declared P t s (d # rs) \<longleftrightarrow>
    (case d of Add_Set t' s' k \<Rightarrow> t' = t \<and> s' = s \<and> P k | Add_Map t' s' k \<Rightarrow> t' = t \<and> s' = s \<and> P k | _ \<Rightarrow> False) \<or>
    declared P t s rs"
  by (simp add: declared_def)

lemma declared_Nil [simp]: "\<not> declared P t s []"
  by (simp add: declared_def)

lemma declaredI: "Add_Set t s k \<in> set rs \<or> Add_Map t s k \<in> set rs \<Longrightarrow> P k \<Longrightarrow> declared P t s rs"
  by (auto simp: declared_def list_ex_iff split: nft_command.splits)

lemma table_declared_iff: "table_declared t rs \<longleftrightarrow> Add_Table t \<in> set rs"
  by (auto simp: table_declared_def list_ex_iff)

lemma item_ok_mono: "item_ok t rs k item \<Longrightarrow> set rs \<subseteq> set rs' \<Longrightarrow> item_ok t rs' k item"
  by (cases item) (auto simp: declared_def list_ex_iff)

lemma add_rules_ok:
  assumes "Add_Chain TABLE c k \<in> set rs" and "\<forall>r\<in>set rules. rule_ok TABLE rs k r"
  shows "script_ok (add_rules c rules) rs"
  using assms
proof (induction rules arbitrary: rs)
  case (Cons r rules)
  have "rule_ok TABLE (rs @ [Add_Rule TABLE c r]) k r'" if "r' \<in> set rules" for r'
    using Cons.prems(2) that item_ok_mono[of TABLE rs k _ "rs @ [Add_Rule TABLE c r]"]
    by (auto simp: rule_ok_def list_all_iff)
  then have "script_ok (add_rules c rules) (rs @ [Add_Rule TABLE c r])" using Cons.prems(1) Cons.IH by simp
  moreover have "command_ok (Add_Rule TABLE c r) rs"
    using Cons.prems by (auto simp: list_ex_iff split: nft_command.splits)
  ultimately show ?case by (simp add: add_rules_def)
qed (simp add: add_rules_def)

lemma chain_ok:
  assumes "table_declared TABLE rs" and "\<forall>r\<in>set rules. rule_ok TABLE rs k r"
  shows "script_ok (Add_Chain TABLE c k # add_rules c rules) rs"
proof -
  have "\<forall>r\<in>set rules. rule_ok TABLE (rs @ [Add_Chain TABLE c k]) k r"
    using assms(2) item_ok_mono[of TABLE rs k _ "rs @ [Add_Chain TABLE c k]"] by (auto simp: rule_ok_def list_all_iff)
  then have "script_ok (add_rules c rules) (rs @ [Add_Chain TABLE c k])" by (intro add_rules_ok) simp_all
  then show ?thesis using assms(1) by simp
qed


section \<open>The scripts of the agent\<close>

text \<open>What the chains of the routing table refer to.\<close>

definition base_ready :: "nft_command list \<Rightarrow> bool" where
  "base_ready rs \<longleftrightarrow> Add_Table TABLE \<in> set rs \<and> Add_Set TABLE ''device_exclusions'' ETHER \<in> set rs \<and>
     Add_Map TABLE ''fake_to_real'' TRANSLATION \<in> set rs \<and>
     (\<forall>(t, s) \<in> set FAKE_TARGET_SETS. Add_Set TABLE s ADDRESS \<in> set rs)"

definition ready :: "'r policy \<Rightarrow> nft_command list \<Rightarrow> bool" where
  "ready p rs \<longleftrightarrow> base_ready rs \<and>
     (\<forall>(i, rule) \<in> set (enabled_ip_rules p). \<forall>tag. ir_matcher rule = GeoIp tag \<longrightarrow>
        Add_Set TABLE (ip_rule_set i) INTERVAL \<in> set rs)"

lemma base_readyD:
  assumes "base_ready rs"
  shows "table_declared TABLE rs" and "P ETHER \<Longrightarrow> declared P TABLE ''device_exclusions'' rs"
    and "P TRANSLATION \<Longrightarrow> declared P TABLE ''fake_to_real'' rs"
    and "(t, s) \<in> set FAKE_TARGET_SETS \<Longrightarrow> P ADDRESS \<Longrightarrow> declared P TABLE s rs"
  using assms by (auto simp: base_ready_def table_declared_iff intro!: declaredI)

lemma readyD: "ready p rs \<Longrightarrow> (i, rule) \<in> set (enabled_ip_rules p) \<Longrightarrow> ir_matcher rule = GeoIp tag \<Longrightarrow>
    P INTERVAL \<Longrightarrow> declared P TABLE (ip_rule_set i) rs"
  and ready_base: "ready p rs \<Longrightarrow> base_ready rs"
  by (auto simp: ready_def intro!: declaredI)

lemma ready_mono: "ready p rs \<Longrightarrow> set rs \<subseteq> set rs' \<Longrightarrow> ready p rs'"
  unfolding ready_def base_ready_def by blast

lemma port_set_empty_iff [simp]: "port_set xs = [] \<longleftrightarrow> xs = []"
proof -
  have "set (port_set xs) = unat ` set xs" by (simp add: port_set_def)
  then show ?thesis by (metis image_is_empty set_empty)
qed

lemma LAN_RANGES_nonempty [simp]: "LAN_RANGES \<noteq> []"
  by (simp add: LAN_RANGES_def)

named_theorems chain_defs
lemmas [chain_defs] = panel_rules_def prologue_rules_def local_rules_def fake_rules_def lan_rule_def ip_rule_rule_def
  final_rules_def mark_chain_def dnat_chain_def dns_chain_def mss_chain_def ipv6_chain_def warp_guard_chain_def
  warp_snat_chain_def dns_egress_chain_def

lemma chains_ok:
  assumes "ready p rs"
  shows "\<forall>r\<in>set (mark_chain lan e p ports). rule_ok TABLE rs ''type filter hook prerouting priority mangle; policy accept;'' r"
    and "\<forall>r\<in>set (dnat_chain lan ports). rule_ok TABLE rs ''type nat hook prerouting priority dstnat; policy accept;'' r"
    and "\<forall>r\<in>set (dns_chain lan dns_port). rule_ok TABLE rs ''type nat hook prerouting priority -101; policy accept;'' r"
    and "\<forall>r\<in>set (mss_chain lan). rule_ok TABLE rs k r"
    and "\<forall>r\<in>set (ipv6_chain lan). rule_ok TABLE rs ''type filter hook forward priority filter; policy accept;'' r"
    and "\<forall>r\<in>set (warp_guard_chain lan src). rule_ok TABLE rs k r"
    and "\<forall>r\<in>set (warp_snat_chain lan a). rule_ok TABLE rs ''type nat hook postrouting priority 99; policy accept;'' r"
    and "\<forall>r\<in>set (dns_egress_chain src). rule_ok TABLE rs k r"
proof -
  note d = base_readyD(2-4)[OF ready_base[OF assms]]
  have fake: "\<forall>r\<in>set (fake_rules lan e). rule_ok TABLE rs k r" for k
    unfolding fake_rules_def rule_ok_def using d(3) by (force simp: case_prod_beta)
  have ip: "\<forall>r\<in>set (map (ip_rule_rule lan e) (enabled_ip_rules p)). rule_ok TABLE rs k r" for k
    unfolding ip_rule_rule_def rule_ok_def using readyD[OF assms] by (auto split: ip_match.split)
  note flat = rule_ok_def starts_def d
  show "\<forall>r\<in>set (mark_chain lan e p ports). rule_ok TABLE rs ''type filter hook prerouting priority mangle; policy accept;'' r"
    unfolding mark_chain_def set_append ball_Un
    by (intro conjI fake ip) (simp_all add: chain_defs flat)
  show "\<forall>r\<in>set (dnat_chain lan ports). rule_ok TABLE rs ''type nat hook prerouting priority dstnat; policy accept;'' r"
    by (simp add: dnat_chain_def flat)
  show "\<forall>r\<in>set (dns_chain lan dns_port). rule_ok TABLE rs ''type nat hook prerouting priority -101; policy accept;'' r"
    by (simp add: dns_chain_def flat)
  show "\<forall>r\<in>set (mss_chain lan). rule_ok TABLE rs k r" by (simp add: mss_chain_def flat)
  show "\<forall>r\<in>set (ipv6_chain lan). rule_ok TABLE rs ''type filter hook forward priority filter; policy accept;'' r"
    by (simp add: ipv6_chain_def flat)
  show "\<forall>r\<in>set (warp_guard_chain lan src). rule_ok TABLE rs k r"
    by (cases src) (simp_all add: warp_guard_chain_def flat)
  show "\<forall>r\<in>set (warp_snat_chain lan a). rule_ok TABLE rs ''type nat hook postrouting priority 99; policy accept;'' r"
    by (simp add: warp_snat_chain_def flat)
  show "\<forall>r\<in>set (dns_egress_chain src). rule_ok TABLE rs k r"
    by (cases src) (simp_all add: dns_egress_chain_def flat)
qed


text \<open>A script that is well typed after \<open>R\<close> and keeps \<open>R\<close>.\<close>

definition fits :: "(nft_command list \<Rightarrow> bool) \<Rightarrow> nft_command list \<Rightarrow> bool" where
  "fits R cs \<longleftrightarrow> (\<forall>rs. R rs \<longrightarrow> script_ok cs rs \<and> R (apply_script cs rs))"

lemma fits_Nil: "fits R []"
  by (simp add: fits_def)

lemma fits_append: "fits R xs \<Longrightarrow> fits R ys \<Longrightarrow> fits R (xs @ ys)"
  by (simp add: fits_def script_ok_append)

lemma fits_Cons: "fits R [c] \<Longrightarrow> fits R cs \<Longrightarrow> fits R (c # cs)"
  by (simp add: fits_def)

lemma fits_concat: "(\<And>x. x \<in> set xs \<Longrightarrow> fits R (f x)) \<Longrightarrow> fits R (concat (map f xs))"
  by (induction xs) (simp_all add: fits_Nil fits_append)

lemma fits_if: "(b \<Longrightarrow> fits R xs) \<Longrightarrow> (\<not> b \<Longrightarrow> fits R ys) \<Longrightarrow> fits R (if b then xs else ys)"
  by simp

lemma fits_chain:
  assumes "\<And>rs. ready p rs \<Longrightarrow> \<forall>r\<in>set rules. rule_ok TABLE rs k r"
  shows "fits (ready p) (Add_Chain TABLE c k # add_rules c rules)"
proof -
  have "list_all adds (Add_Chain TABLE c k # add_rules c rules)" by (simp add: adds_def add_rules_def list_all_iff)
  moreover have "ready p (rs @ Add_Chain TABLE c k # add_rules c rules)" if "ready p rs" for rs
    by (rule ready_mono[OF that]) auto
  ultimately show ?thesis
    using chain_ok base_readyD(1) ready_base assms unfolding fits_def by (metis apply_adds)
qed

lemma fits_chain_then:
  assumes "\<And>rs. ready p rs \<Longrightarrow> \<forall>r\<in>set rules. rule_ok TABLE rs k r" and "fits (ready p) ys"
  shows "fits (ready p) (Add_Chain TABLE c k # add_rules c rules @ ys)"
  using fits_append[OF fits_chain[OF assms(1)] assms(2), of c] by simp

lemma fits_chain_commands: "fits (ready p) (chain_commands lan dns_port e p ports)"
  unfolding chain_commands_def append_dns_egress_guard_def append_Cons append_Nil
  by (intro fits_chain_then fits_append fits_if fits_Nil fits_chain chains_ok)
    (auto split: option.split intro!: fits_chain chains_ok fits_Nil)

section \<open>Sets and elements\<close>

text \<open>Declarations survive every command but the removal of their table.\<close>

lemma declaration_kept:
  assumes "d \<in> set rs" and "\<forall>t. c \<noteq> Destroy_Table t" and "\<forall>t s es. d \<noteq> Add_Elements t s es"
  shows "d \<in> set (apply_command c rs)"
proof (cases c)
  case (Delete_Elements t s gone)
  let ?f = "\<lambda>c. case c of Add_Elements t2 s2 es \<Rightarrow> Add_Elements t2 s2 (if t2 = t \<and> s2 = s then without gone es else es) | _ \<Rightarrow> c"
  have "?f d = d" using assms(3) by (cases d) simp_all
  moreover have "?f d \<in> ?f ` set rs" using assms(1) by (rule imageI)
  ultimately have "d \<in> ?f ` set rs" by simp
  then show ?thesis unfolding Delete_Elements apply_command.simps set_map .
qed (use assms in \<open>auto simp: in_set_def split: nft_command.splits\<close>)

lemma base_ready_command: "base_ready rs \<Longrightarrow> \<forall>t. c \<noteq> Destroy_Table t \<Longrightarrow> base_ready (apply_command c rs)"
  unfolding base_ready_def by (auto intro!: declaration_kept)

lemma ready_command:
  assumes "ready p rs" and "\<forall>t. c \<noteq> Destroy_Table t"
  shows "ready p (apply_command c rs)"
  unfolding ready_def
proof (intro conjI)
  show "base_ready (apply_command c rs)" using assms base_ready_command ready_base by blast
  show "\<forall>(i, rule) \<in> set (enabled_ip_rules p). \<forall>tag. ir_matcher rule = GeoIp tag \<longrightarrow>
      Add_Set TABLE (ip_rule_set i) INTERVAL \<in> set (apply_command c rs)"
    using assms(1) declaration_kept[OF _ assms(2), of "Add_Set TABLE s INTERVAL" for s] unfolding ready_def by blast
qed

lemma fits_one:
  assumes "\<And>rs. base_ready rs \<Longrightarrow> command_ok c rs" and "\<forall>t. c \<noteq> Destroy_Table t"
  shows "fits base_ready [c]" and "fits (ready p) [c]"
proof -
  show "fits base_ready [c]" using assms base_ready_command by (auto simp: fits_def)
  show "fits (ready p) [c]" using assms(1)[OF ready_base] assms(2) ready_command by (auto simp: fits_def)
qed

lemma fits_elements:
  "fits base_ready (append_mappings mappings)" "fits (ready p) (append_mappings mappings)"
  "fits (ready p) (remove_mappings mappings)"
proof -
  have add: "base_ready rs \<Longrightarrow> command_ok (Add_Elements TABLE ''fake_to_real'' (map (\<lambda>m. El_Map (fm_fake m) (fm_real m)) mappings)) rs"
    and del: "base_ready rs \<Longrightarrow> command_ok (Delete_Elements TABLE ''fake_to_real'' (map (\<lambda>m. El_Addr (fm_fake m)) mappings)) rs"
    if "mappings \<noteq> []" for rs
    using that by (auto intro!: base_readyD(3) simp: list_all_iff)
  have sets: "base_ready rs \<Longrightarrow> command_ok (f TABLE s (map (\<lambda>m. El_Addr (fm_fake m)) keys)) rs"
    if "(t, s) \<in> set FAKE_TARGET_SETS" "f = Add_Elements \<or> f = Delete_Elements" "keys \<noteq> []" for t s f keys rs
    using that by (auto intro!: base_readyD(4) simp: list_all_iff)
  have both: "fits base_ready (append_target_elements mappings f) \<and> fits (ready p) (append_target_elements mappings f)"
    if f: "f = Add_Elements \<or> f = Delete_Elements" for f
    unfolding append_target_elements_def Let_def
  proof (intro conjI fits_concat; clarsimp simp: fits_Nil simp del: command_ok.simps)
    fix t s assume ts: "(t, s) \<in> set FAKE_TARGET_SETS" and ne: "filter (\<lambda>m. fm_target m = t) mappings \<noteq> []"
    have ok: "base_ready rs \<Longrightarrow> command_ok (f TABLE s (map (\<lambda>m. El_Addr (fm_fake m)) (filter (\<lambda>m. fm_target m = t) mappings))) rs" for rs
      using sets[OF ts f ne] .
    show "fits base_ready [f TABLE s (map (\<lambda>m. El_Addr (fm_fake m)) (filter (\<lambda>m. fm_target m = t) mappings))]"
      "fits (ready p) [f TABLE s (map (\<lambda>m. El_Addr (fm_fake m)) (filter (\<lambda>m. fm_target m = t) mappings))]"
      using fits_one[OF ok] f by auto
  qed
  note base = conjunct1[OF both] and any = conjunct2[OF both]
  show "fits base_ready (append_mappings mappings)" "fits (ready p) (append_mappings mappings)"
    "fits (ready p) (remove_mappings mappings)"
    unfolding append_mappings_def remove_mappings_def
    by (auto intro!: fits_Nil fits_Cons[OF fits_one(1)] fits_Cons[OF fits_one(2)] base any simp del: command_ok.simps dest: add del)
qed


lemma merged_ranges_nonempty [simp]: "merged_ranges N ns = [] \<longleftrightarrow> ns = []"
  by (cases ns) (simp_all split: prod.split)

lemma fits_rule_sets: "fits base_ready (rule_sets p)"
  unfolding rule_sets_def
proof (rule fits_concat, clarify)
  fix i rule
  let ?set = "Add_Set TABLE (ip_rule_set i) INTERVAL"
  have kept: "base_ready (rs @ xs)" if "base_ready rs" for rs xs
    using that unfolding base_ready_def by auto
  have pair: "fits base_ready [?set, Add_Elements TABLE (ip_rule_set i) (map El_Range rs)]" if "rs \<noteq> []" for rs
    using that kept[of _ "[?set, Add_Elements TABLE (ip_rule_set i) (map El_Range rs)]"]
    by (auto simp: fits_def base_readyD(1) list_all_iff intro!: declaredI)
  have single: "fits base_ready [?set]"
    by (rule fits_one(1)) (simp_all add: base_readyD(1))
  show "fits base_ready (case ir_matcher rule of
      GeoIp tag \<Rightarrow>
        (let networks = ip_networks (pol_geo p) tag in
         Add_Set TABLE (ip_rule_set i) ''type ipv4_addr; flags interval; auto-merge;'' #
         (if networks = [] then []
          else [Add_Elements TABLE (ip_rule_set i) (map El_Range (merged_ranges (pol_net p) networks))]))
    | Cidr _ \<Rightarrow> [])"
    using pair single by (auto simp: fits_Nil Let_def INTERVAL_def split: ip_match.split)
qed

lemma rule_sets_ready: "base_ready rs \<Longrightarrow> ready p (rs @ rule_sets p)"
proof -
  assume b: "base_ready rs"
  have "Add_Set TABLE (ip_rule_set i) INTERVAL \<in> set (rule_sets p)"
    if "(i, rule) \<in> set (enabled_ip_rules p)" "ir_matcher rule = GeoIp tag" for i rule tag
    using that unfolding rule_sets_def by (force simp: Let_def INTERVAL_def)
  then show ?thesis using b unfolding ready_def base_ready_def by auto
qed

lemma base_set_commands:
  defines "base \<equiv> \<lambda>exclusions. [Add_Table TABLE] @ render_exclusion_set TABLE exclusions @
     [Add_Map TABLE ''fake_to_real'' ''type ipv4_addr : ipv4_addr;''] @
     map (\<lambda>(_, s). Add_Set TABLE s ''type ipv4_addr;'') FAKE_TARGET_SETS"
  shows "script_ok (base exclusions) rs" and "base_ready (apply_script (base exclusions) rs)"
proof -
  have adds: "list_all adds (base exclusions)"
    by (simp add: base_def render_exclusion_set_def adds_def FAKE_TARGET_SETS_def)
  show "script_ok (base exclusions) rs"
    by (simp add: base_def render_exclusion_set_def FAKE_TARGET_SETS_def table_declared_iff list_all_iff declared_Cons ETHER_def)
  show "base_ready (apply_script (base exclusions) rs)"
    unfolding apply_adds[OF adds]
    by (simp add: base_def base_ready_def render_exclusion_set_def FAKE_TARGET_SETS_def ETHER_def ADDRESS_def TRANSLATION_def)
qed

lemma table_script_ready:
  defines "cs \<equiv> \<lambda>lan dns_port e p mappings ports exclusions.
    render_with_exclusions lan dns_port e p mappings ports exclusions"
  shows "script_ok (cs lan dns_port e p mappings ports exclusions) rs \<and>
    ready p (apply_script (cs lan dns_port e p mappings ports exclusions) rs)"
proof -
  let ?rs0 = "filter (\<lambda>c. table_of c \<noteq> TABLE) rs"
  note base = base_set_commands[of exclusions ?rs0]
  have maps: "script_ok (append_mappings mappings) r \<and> base_ready (apply_script (append_mappings mappings) r)"
    and sets: "script_ok (rule_sets p) r \<and> ready p (apply_script (rule_sets p) r)" if "base_ready r" for r
  proof -
    show "script_ok (append_mappings mappings) r \<and> base_ready (apply_script (append_mappings mappings) r)"
      using fits_elements(1) that by (simp add: fits_def)
    have "list_all adds (rule_sets p)" using set_commands_table(2)[of p "[]" "[]"] by (simp add: set_commands_def)
    then show "script_ok (rule_sets p) r \<and> ready p (apply_script (rule_sets p) r)"
      using fits_rule_sets[of p] rule_sets_ready[OF that, of p] that by (simp add: fits_def apply_adds)
  qed
  have chains: "script_ok (chain_commands lan dns_port e p ports) r \<and>
      ready p (apply_script (chain_commands lan dns_port e p ports) r)" if "ready p r" for r
    using fits_chain_commands[of p lan dns_port e ports] that unfolding fits_def by blast
  show ?thesis
    using base maps sets chains
    unfolding cs_def render_with_exclusions_def set_commands_def
    by (simp only: script_ok_append append_Cons append_Nil append_assoc script_ok.simps command_ok.simps
        apply_script_simps apply_command.simps simp_thms)
qed


lemma exclusion_set_fits: "fits (ready p) ([Flush_Set TABLE ''device_exclusions''] @
    (if exclusions = [] then [] else [Add_Elements TABLE ''device_exclusions'' (map El_Mac exclusions)]))"
  by (intro fits_append fits_if fits_one(2) fits_Nil)
    (auto simp: list_all_iff intro!: base_readyD(2))

lemma guard_script_ok: "script_ok (render_guard_with_exclusions lan exclusions) rs"
  by (simp add: render_guard_with_exclusions_def render_exclusion_set_def table_declared_iff list_all_iff
      declared_Cons ETHER_def rule_ok_def)

lemma guard_nonempty: "render_guard_with_exclusions lan exclusions \<noteq> []"
  by (simp add: render_guard_with_exclusions_def)

lemma install_guard_error: "install_guard H lan exclusions w = (w', Inl e) \<Longrightarrow> \<exists>r. e = Nft_Failed r"
  by (cases "nft_transaction H (render_guard_with_exclusions lan exclusions) w"; cases "snd (nft_transaction H (render_guard_with_exclusions lan exclusions) w)")
    (auto simp: install_guard_def run_nft_def ret_def split: if_splits)

text \<open>C38: Every script that the agent hands to \<^verbatim>\<open>nft\<close> is well typed: the routing table and the guard
  after any ruleset; the elements of new and of expired FakeDNS addresses and the publication of the device
  exclusions after a routing table of any policy. No configuration makes the kernel refuse a transaction
  for a set, a chain or a statement that does not fit.\<close>

theorem nft_scripts_well_typed:
  "script_ok (render_with_exclusions lan dns_port e p mappings ports exclusions) rs \<and>
   script_ok (render_guard_with_exclusions lan exclusions) rs \<and>
   (let rs' = apply_script (render_with_exclusions lan dns_port e p mappings ports exclusions) rs in
    script_ok (append_mappings added) rs' \<and> script_ok (remove_mappings gone) rs' \<and>
    script_ok (render_publish_exclusions lan exclusions') rs')"
proof -
  have t: "script_ok (render_with_exclusions lan dns_port e p mappings ports exclusions) rs"
    and r: "ready p (apply_script (render_with_exclusions lan dns_port e p mappings ports exclusions) rs)" (is "ready p ?rs")
    using table_script_ready by blast+
  have f: "script_ok cs ?rs" if "fits (ready p) cs" for cs using that r by (simp add: fits_def)
  have "script_ok (render_publish_exclusions lan exclusions') ?rs"
    using f[OF exclusion_set_fits] guard_script_ok
    by (auto simp: render_publish_exclusions_def script_ok_append split: if_splits)
  then show ?thesis using t f[OF fits_elements(2)] f[OF fits_elements(3)] guard_script_ok by (simp add: Let_def)
qed


text \<open>C17: The startup of the agent ends with forwarding guarded: with the saved device exclusions where the
  ruleset could be brought up to date, and without any exclusion where it could not, unless \<^verbatim>\<open>nft\<close>
  itself fails on that guard, which is then the error of the startup.\<close>

theorem startup_ends_guarded:
  assumes "nft_laws H ruleset" and "synchronize_startup H lan exclusions w = (w', r)"
  shows "case r of
      Inr _ \<Rightarrow> guarded lan exclusions (ruleset w')
    | Inl e \<Rightarrow> guarded lan [] (ruleset w') \<or> (\<exists>w1. install_guard H lan [] w1 = (w', Inl e))"
proof (cases "synchronize H lan exclusions w")
  case (Pair w1 r1)
  show ?thesis
  proof (cases r1)
    case (Inr u)
    then show ?thesis
      using assms(2) Pair nft_laws.synchronize_ok[OF assms(1)] by (auto simp: synchronize_startup_def)
  next
    case (Inl e)
    have "guarded lan [] (ruleset w2)" if "install_guard H lan [] w1 = (w2, Inr u)" for w2 u
      using nft_laws.run_nft_ok[OF assms(1)] that by (simp add: install_guard_def guard_script_guards)
    then show ?thesis
      using assms(2) Pair Inl by (auto simp: synchronize_startup_def split: prod.splits sum.splits)
  qed
qed

theorem startup_ends_guarded_witness:
  "guarded witness_lan [] (fst (synchronize_startup (kernel_nft id (\<lambda>rs _. rs)) witness_lan
     [[2, 0, 0, 0, 0, 2]] [Add_Table TABLE]))"
proof -
  let ?K = "kernel_nft id (\<lambda>rs _. rs) :: nft_command list nft_host"
  have s: "synchronize ?K witness_lan [[2, 0, 0, 0, 0, 2]] [Add_Table TABLE] = ([Add_Table TABLE], Inl Nft_Json)"
    by (simp add: synchronize_def inspect_def bnd_def io_def require_def ret_def lift_def ok_or_def kernel_nft_def
        table_declared_def at_def)
  have g: "install_guard ?K witness_lan [] [Add_Table TABLE] =
      (apply_script (render_guard_with_exclusions witness_lan []) [Add_Table TABLE], Inr ())"
    using guard_script_ok[of witness_lan "[]"] guard_nonempty[of witness_lan "[]"]
    by (simp add: install_guard_def run_nft_def kernel_nft_def)
  have "synchronize_startup ?K witness_lan [[2, 0, 0, 0, 0, 2]] [Add_Table TABLE] =
      (apply_script (render_guard_with_exclusions witness_lan []) [Add_Table TABLE], Inl Nft_Json)"
    by (simp add: synchronize_startup_def s g)
  from startup_ends_guarded[OF kernel.nft_laws_axioms this] this show ?thesis
    using install_guard_error[of ?K witness_lan "[]" _ _ Nft_Json] by auto
qed

end
