(* ===== verification/Resolver.thy ===== *)
theory Resolver
  imports Script_Types Fake_Store Relay_Client "HOL-Library.While_Combinator"
begin

text \<open>
  The FakeDNS resolver of the agent (\<^verbatim>\<open>gofro-agent/src/fake_dns/resolver.rs\<close>): which upstream a query
  goes to and with which mark, the rewriting of the answers to leased fake addresses, and the removal of
  expired leases. Messages are encoded and decoded by the \<^verbatim>\<open>hickory-proto\<close> crate, the record
  \<open>dns_lib\<close>; the clock, the sockets and \<^verbatim>\<open>nft\<close> act on the state \<open>'w\<close> of the machine. A lock is
  poisoned when a thread panicked under it, which is a fact of the state.
\<close>

unbundle bit_operations_syntax

section \<open>Messages\<close>

datatype record_data =
    A_Data ipv4 | Aaaa_Data "128 word" | Cname_Data string | Https_Data bytes | Svcb_Data bytes | Other_Data nat bytes

record dns_query =
  dq_name :: string
  dq_type :: nat
  dq_class :: nat

record dns_record =
  rr_name :: string
  rr_class :: nat
  rr_ttl :: u32
  rr_data :: record_data

text \<open>The options of EDNS as pairs of a code and a value, \<open>None\<close> without EDNS.\<close>

record dns_message =
  msg_id :: u16
  msg_response :: bool
  msg_op_code :: nat
  msg_recursion_desired :: bool
  msg_recursion_available :: bool
  msg_authentic :: bool
  msg_code :: nat
  msg_queries :: "dns_query list"
  msg_answers :: "dns_record list"
  msg_name_servers :: "dns_record list"
  msg_additionals :: "dns_record list"
  msg_edns :: "(nat \<times> bytes) list option"

record dns_lib =
  parse_message :: "bytes \<Rightarrow> dns_message option"
  encode_message :: "dns_message \<Rightarrow> bytes option"
  dnssec_record :: "dns_record \<Rightarrow> bool"
  same_queries :: "dns_query list \<Rightarrow> dns_query list \<Rightarrow> bool"

definition TYPE_A :: nat where "TYPE_A = 1"
definition EDNS_SUBNET :: nat where "EDNS_SUBNET = 8"
definition NO_ERROR :: nat where "NO_ERROR = 0"
definition FORM_ERR :: nat where "FORM_ERR = 1"
definition SERV_FAIL :: nat where "SERV_FAIL = 2"
definition REFUSED :: nat where "REFUSED = 5"

section \<open>The resolver\<close>

text \<open>Sockets are named by numbers; \<open>True\<close> asks for a TCP socket.\<close>

record 'w sockets =
  sock_new :: "bool \<Rightarrow> 'w \<Rightarrow> 'w \<times> nat io"
  sock_mark :: "nat \<Rightarrow> u32 \<Rightarrow> 'w \<Rightarrow> 'w \<times> unit io"
  sock_timeout :: "nat \<Rightarrow> nat \<Rightarrow> 'w \<Rightarrow> 'w \<times> unit io"
  sock_connect :: "nat \<Rightarrow> socket_addr \<Rightarrow> 'w \<Rightarrow> 'w \<times> unit io"
  sock_send :: "nat \<Rightarrow> bytes \<Rightarrow> 'w \<Rightarrow> 'w \<times> unit io"
  sock_recv :: "nat \<Rightarrow> nat \<Rightarrow> 'w \<Rightarrow> 'w \<times> bytes io"
  sock_read_exact :: "nat \<Rightarrow> nat \<Rightarrow> 'w \<Rightarrow> 'w \<times> bytes io"

record ('c, 'w) dns_env =
  de_db :: "'c fake_db"
  de_config :: config_env
  de_lib :: dns_lib
  de_clock :: "'w \<Rightarrow> 'w \<times> nat option"
  de_nft :: "'w nft_host"
  de_sockets :: "'w sockets"

record ('c, 'w) fake_dns =
  fd_store :: "'c store"
  store_poisoned :: bool
  updates_poisoned :: bool
  dns_active :: bool
  dns_vpn :: bool
  dns_world :: 'w

datatype dns_error =
    Store_Poisoned | Update_Poisoned
  | Store_Failed store_error
  | Nft_Error nft_error
  | Also_Failed dns_error dns_error
  | Bad_Request | No_Question | Bad_Response | Mismatch | Encode_Failed
  | Socket_Failed | Mark_Failed | Length_Range

type_synonym ('c, 'w, 'a) dns_op = "(dns_error, ('c, 'w) fake_dns, 'a) operation"

definition on_world :: "('e \<Rightarrow> dns_error) \<Rightarrow> ('e, 'w, 'a) operation \<Rightarrow> ('c, 'w, 'a) dns_op" where
  "on_world err m s = (case m (dns_world s) of (w, r) \<Rightarrow> (s\<lparr>dns_world := w\<rparr>, map_sum err id r))"

definition on_store :: "('c store \<Rightarrow> 'c store \<times> (store_error + 'a)) \<Rightarrow> ('c, 'w, 'a) dns_op" where
  "on_store m s = (case m (fd_store s) of (st, r) \<Rightarrow> (s\<lparr>fd_store := st\<rparr>, map_sum Store_Failed id r))"

definition read_clock :: "('c, 'w) dns_env \<Rightarrow> ('c, 'w, nat option) dns_op" where
  "read_clock E = on_world id (observe (de_clock E))"

definition open_with_limits ::
    "('c, 'w) dns_env \<Rightarrow> resource_limits \<Rightarrow> 'c \<Rightarrow> 'w \<Rightarrow> 'w \<times> (dns_error + ('c, 'w) fake_dns)" where
  "open_with_limits E rl c w =
     (case de_clock E w of (w', clk) \<Rightarrow>
       (w', map_sum Store_Failed
          (\<lambda>st. \<lparr>fd_store = st, store_poisoned = False, updates_poisoned = False, dns_active = False,
                 dns_vpn = False, dns_world = w'\<rparr>)
          (from_connection_with_limits (de_db E) rl clk c)))"

text \<open>The lock of the store.\<close>

definition with_store :: "('c, 'w, 'a) dns_op \<Rightarrow> ('c, 'w, 'a) dns_op" where
  "with_store m s = (if store_poisoned s then (s, Inl Store_Poisoned) else m s)"

definition dns_reclassified :: "'r policy \<Rightarrow> ('c, 'w, fake_mapping list) dns_op" where
  "dns_reclassified p = with_store (\<lambda>s. (s, Inr (reclassified p (fd_store s))))"

definition dns_commit_targets :: "('c, 'w) dns_env \<Rightarrow> 'r policy \<Rightarrow> ('c, 'w, unit) dns_op" where
  "dns_commit_targets E p = with_store (on_store (commit_targets (de_db E) p))"

definition dns_count :: "('c, 'w) fake_dns \<Rightarrow> nat" where
  "dns_count s = (if store_poisoned s then 0 else len (fd_store s))"

definition set_vpn_enabled :: "bool \<Rightarrow> ('c, 'w) fake_dns \<Rightarrow> ('c, 'w) fake_dns" where
  "set_vpn_enabled enabled s = s\<lparr>dns_vpn := enabled\<rparr>"

definition begin_update :: "('c, 'w, unit) dns_op" where
  "begin_update s = (if updates_poisoned s then (s, Inl Update_Poisoned) else (s, Inr ()))"

section \<open>Expired leases\<close>

definition forget_leases :: "('c, 'w) dns_env \<Rightarrow> fake_mapping list \<Rightarrow> ('c, 'w, nat) dns_op" where
  "forget_leases E gone =
     bnd (on_world Nft_Error (delete_mappings (de_nft E) gone)) (\<lambda>_ s.
     case on_store (store_remove_mappings (de_db E) gone) s of
       (s', Inr _) \<Rightarrow> (s', Inr (length gone))
     | (s', Inl e) \<Rightarrow>
         (case on_world Nft_Error (install_mappings (de_nft E) gone) s' of
            (s'', Inr _) \<Rightarrow> (s'', Inl e)
          | (s'', Inl e') \<Rightarrow> (s'', Inl (Also_Failed e e'))))"

definition purge_locked :: "('c, 'w) dns_env \<Rightarrow> ('c, 'w, nat) dns_op" where
  "purge_locked E =
     bnd (read_clock E) (\<lambda>clk.
     bnd (\<lambda>s. (s, map_sum Store_Failed id (expired clk (fd_store s)))) (\<lambda>gone.
     if gone = [] then ret 0 else forget_leases E gone))"

definition purge_expired :: "('c, 'w) dns_env \<Rightarrow> ('c, 'w, nat) dns_op" where
  "purge_expired E s = (if updates_poisoned s then (s, Inl Update_Poisoned) else with_store (purge_locked E) s)"

section \<open>Names\<close>

definition query_domain :: "config_env \<Rightarrow> string \<Rightarrow> string" where
  "query_domain C value =
     (case normalize_domain C value of
        Inr d \<Rightarrow> d
      | Inl _ \<Rightarrow> to_ascii_lowercase (trim_end_dots (trim value)))"

text \<open>
  The names that the aliases of the answer lead to. A pass over the records notes whether a name came
  in; the passes go on while one did.
\<close>

fun follow :: "config_env \<Rightarrow> dns_record \<Rightarrow> string set \<times> bool \<Rightarrow> string set \<times> bool" where
  "follow C r (names, changed) =
     (case rr_data r of
        Cname_Data name \<Rightarrow>
          if query_domain C (rr_name r) \<in> names
          then (insert (query_domain C name) names, changed \<or> query_domain C name \<notin> names)
          else (names, changed)
      | _ \<Rightarrow> (names, changed))"

definition names_loop :: "config_env \<Rightarrow> dns_record list \<Rightarrow> string \<Rightarrow> (string set \<times> bool) option" where
  "names_loop C records domain =
     while_option (\<lambda>(names, changed). changed) (\<lambda>(names, changed). fold (follow C) records (names, False)) ({domain}, True)"

definition relevant_names :: "config_env \<Rightarrow> dns_record list \<Rightarrow> string \<Rightarrow> string set" where
  "relevant_names C records domain = fst (the (names_loop C records domain))"

text \<open>Names of the local network, by suffix or by the address that a reverse name stands for.\<close>

definition LOCAL_SUFFIXES :: "string list" where
  "LOCAL_SUFFIXES = [''localhost'', ''lan'', ''local'', ''home'', ''home.arpa'', ''internal'']"

definition ipv6_local :: "128 word \<Rightarrow> bool" where
  "ipv6_local a \<longleftrightarrow> a = 1 \<or> drop_bit 112 a AND 0xfe00 = 0xfc00 \<or> drop_bit 112 a AND 0xffc0 = 0xfe80 \<or>
     drop_bit 112 a AND 0xff00 = 0xff00"

definition reverse_ipv4 :: "string list \<Rightarrow> ipv4 option" where
  "reverse_ipv4 labels =
     (case those (map (parse_uint 256) (rev labels)) of
        None \<Rightarrow> None
      | Some os \<Rightarrow> (case take 4 (os @ replicate 4 0) of [a, b, c, d] \<Rightarrow> Some (octets_addr a b c d) | _ \<Rightarrow> None))"

definition reverse_ipv6 :: "string list \<Rightarrow> 128 word option" where
  "reverse_ipv6 labels =
     (case those (map (\<lambda>l. if length l = 1 then hex_value (hd l) else None) (rev labels)) of
        None \<Rightarrow> None
      | Some ns \<Rightarrow> Some (fold (OR) (map (\<lambda>(i, n). push_bit (124 - i * 4) (of_nat n)) (enumerate 0 ns)) 0))"

definition local_dns_name :: "ipnet \<Rightarrow> string \<Rightarrow> lan_context \<Rightarrow> bool" where
  "local_dns_name N domain lan =
     (if CHR ''.'' \<notin> set domain \<or>
         list_ex (\<lambda>suffix. domain = suffix \<or>
           (case strip_suffix suffix domain of None \<Rightarrow> False | Some prefix \<Rightarrow> ends_with_char (CHR ''.'') prefix)) LOCAL_SUFFIXES
      then True
      else
        (case strip_suffix ''.in-addr.arpa'' domain of
           Some reverse \<Rightarrow>
             if length (split_char (CHR ''.'') reverse) \<le> 4
             then (case reverse_ipv4 (split_char (CHR ''.'') reverse) of
                     None \<Rightarrow> False
                   | Some a \<Rightarrow> is_lan_destination N a \<or> contains_ip N (subnet lan) a)
             else False
         | None \<Rightarrow>
             (case strip_suffix ''.ip6.arpa'' domain of
                Some reverse \<Rightarrow>
                  if length (split_char (CHR ''.'') reverse) \<le> 32
                  then (case reverse_ipv6 (split_char (CHR ''.'') reverse) of None \<Rightarrow> False | Some a \<Rightarrow> ipv6_local a)
                  else False
              | None \<Rightarrow> False)))"


section \<open>Rewriting answers\<close>

text \<open>Within the loop the mappings that are new are kept beside the state, since a failure takes them back.\<close>

type_synonym ('c, 'w, 'a) rewrite_op = "(dns_error, ('c, 'w) fake_dns \<times> fake_mapping list, 'a) operation"

definition on_dns :: "('c, 'w, 'a) dns_op \<Rightarrow> ('c, 'w, 'a) rewrite_op" where
  "on_dns m = (\<lambda>(s, added). case m s of (s', r) \<Rightarrow> ((s', added), r))"

definition push_mapping :: "fake_mapping \<Rightarrow> ('c, 'w, unit) rewrite_op" where
  "push_mapping m = (\<lambda>(s, added). ((s, added @ [m]), Inr ()))"

definition on_link :: "ipnet \<Rightarrow> lan_context \<Rightarrow> ipv4 \<Rightarrow> bool" where
  "on_link N lan real \<longleftrightarrow> is_lan_destination N real \<or> real = address lan \<or> contains_ip N (subnet lan) real"

definition lease_ttl :: "u32 \<Rightarrow> u32" where
  "lease_ttl ttl = of_nat (clamp 30 3600 (unat ttl))"

primrec rewrite_records :: "('c, 'w) dns_env \<Rightarrow> string \<Rightarrow> 'r policy \<Rightarrow> string set \<Rightarrow> lan_context \<Rightarrow> dns_record list \<Rightarrow>
    ('c, 'w, dns_record list \<times> bool) rewrite_op" where
  "rewrite_records E domain p names lan [] = ret ([], False)"
| "rewrite_records E domain p names lan (r # rs) =
     (case rr_data r of
        A_Data real \<Rightarrow>
          if query_domain (de_config E) (rr_name r) \<in> names \<and> \<not> on_link (pol_net p) lan real
          then
            bnd (on_dns (read_clock E)) (\<lambda>clk.
            bnd (on_dns (on_store (allocate (de_db E) clk domain real (Routing.target p domain real) (lease_ttl (rr_ttl r)))))
              (\<lambda>(m, new).
            bnd (if new then push_mapping m else ret ()) (\<lambda>_.
            bnd (rewrite_records E domain p names lan rs) (\<lambda>(rs', _).
            ret (r\<lparr>rr_ttl := lease_ttl (rr_ttl r), rr_data := A_Data (fm_fake m)\<rparr> # rs', True)))))
          else bnd (rewrite_records E domain p names lan rs) (\<lambda>(rs', b). ret (r # rs', b))
      | _ \<Rightarrow> bnd (rewrite_records E domain p names lan rs) (\<lambda>(rs', b). ret (r # rs', b)))"

definition install_added :: "('c, 'w) dns_env \<Rightarrow> ('c, 'w, unit) rewrite_op" where
  "install_added E = (\<lambda>(s, added). on_dns (on_world Nft_Error (install_mappings (de_nft E) added)) (s, added))"

definition rewrite_sections :: "('c, 'w) dns_env \<Rightarrow> dns_message \<Rightarrow> string \<Rightarrow> 'r policy \<Rightarrow> lan_context \<Rightarrow>
    ('c, 'w, dns_message \<times> bool) rewrite_op" where
  "rewrite_sections E m domain p lan =
     (let names = relevant_names (de_config E) (msg_answers m) domain in
      bnd (rewrite_records E domain p names lan (msg_answers m)) (\<lambda>(answers, b).
      bnd (rewrite_records E domain p names lan (msg_additionals m)) (\<lambda>(additionals, b').
      bnd (install_added E) (\<lambda>_.
      ret (m\<lparr>msg_answers := answers, msg_additionals := additionals\<rparr>, b \<or> b')))))"

definition rewrite_message :: "('c, 'w) dns_env \<Rightarrow> dns_message \<Rightarrow> string \<Rightarrow> 'r policy \<Rightarrow> lan_context \<Rightarrow>
    ('c, 'w, dns_message \<times> bool) dns_op" where
  "rewrite_message E m domain p lan =
     with_store (\<lambda>s.
       case rewrite_sections E m domain p lan (s, []) of
         ((s', added), Inr x) \<Rightarrow> (s', Inr x)
       | ((s', added), Inl e) \<Rightarrow>
           if added = [] then (s', Inl e)
           else (case on_store (store_remove_mappings (de_db E) added) s' of
                   (s'', Inr _) \<Rightarrow> (s'', Inl e)
                 | (s'', Inl e') \<Rightarrow> (s'', Inl (Also_Failed e e'))))"

definition keeps_ipv4 :: "dns_record \<Rightarrow> bool" where
  "keeps_ipv4 r =
     (case rr_data r of Aaaa_Data a \<Rightarrow> ipv6_local a | Https_Data _ \<Rightarrow> False | Svcb_Data _ \<Rightarrow> False | _ \<Rightarrow> True)"

definition retain_ipv4_records :: "dns_record list \<Rightarrow> dns_record list \<times> bool" where
  "retain_ipv4_records rs = (let rs' = filter keeps_ipv4 rs in (rs', length rs' \<noteq> length rs))"

definition without_dnssec :: "dns_lib \<Rightarrow> dns_message \<Rightarrow> dns_message" where
  "without_dnssec L m = m\<lparr>
     msg_answers := filter (\<lambda>r. \<not> dnssec_record L r) (msg_answers m),
     msg_additionals := filter (\<lambda>r. \<not> dnssec_record L r) (msg_additionals m),
     msg_name_servers := filter (\<lambda>r. \<not> dnssec_record L r) (msg_name_servers m),
     msg_authentic := False\<rparr>"

definition filter_message :: "dns_message \<Rightarrow> dns_message \<times> bool" where
  "filter_message m =
     (let (answers, b) = retain_ipv4_records (msg_answers m);
          (additionals, b') = retain_ipv4_records (msg_additionals m) in
      (m\<lparr>msg_answers := answers, msg_additionals := additionals\<rparr>, b \<or> b'))"

definition finish_response :: "dns_lib \<Rightarrow> bool \<Rightarrow> dns_message \<times> bool \<Rightarrow> dns_message" where
  "finish_response L only_ipv4 = (\<lambda>(m, rewritten).
     let (m, filtered) = (if only_ipv4 then filter_message m else (m, False)) in
     if rewritten \<or> filtered then without_dnssec L m else m)"

definition rewrite_response :: "('c, 'w) dns_env \<Rightarrow> dns_message \<Rightarrow> string \<Rightarrow> 'r policy \<Rightarrow> lan_context \<Rightarrow>
    ('c, 'w, dns_message) dns_op" where
  "rewrite_response E m domain p lan s =
     (let vpn = dns_vpn s;
          t = map_option fst (domain_target p domain) in
      bnd (if t \<noteq> None then rewrite_message E m domain p lan else ret (m, False))
        (\<lambda>x. ret (finish_response (de_lib E) (vpn \<or> t = Some Block \<or> t = Some Warp) x)) s)"

section \<open>Upstream\<close>

record marked_upstream =
  ur_address :: socket_addr
  ur_mark :: u32

definition TUNNEL_DNS_UPSTREAM :: socket_addr where
  "TUNNEL_DNS_UPSTREAM = SocketAddrV4 (octets_addr 1 1 1 1) 53"

definition WARP_DNS_UPSTREAM :: socket_addr where
  "WARP_DNS_UPSTREAM = SocketAddrV4 (octets_addr 1 0 0 1) 53"

definition upstream_route :: "string \<Rightarrow> 'r policy \<Rightarrow> socket_addr \<Rightarrow> bool \<Rightarrow> lan_context \<Rightarrow> marked_upstream option" where
  "upstream_route domain p local_upstream vpn lan =
     (let t = effective_target (if local_dns_name (pol_net p) domain lan then Direct else dns_target p domain) vpn in
      case t of
        Block \<Rightarrow> None
      | Direct \<Rightarrow> Some \<lparr>ur_address = local_upstream, ur_mark = target_mark t\<rparr>
      | Warp \<Rightarrow> Some \<lparr>ur_address = WARP_DNS_UPSTREAM, ur_mark = target_mark t\<rparr>
      | Vpn \<Rightarrow> Some \<lparr>ur_address = TUNNEL_DNS_UPSTREAM, ur_mark = target_mark t\<rparr>)"

definition upstream_packet :: "dns_lib \<Rightarrow> bytes \<Rightarrow> dns_message \<Rightarrow> marked_upstream \<Rightarrow> dns_error + bytes" where
  "upstream_packet L packet request route =
     (if ur_mark route = target_mark Direct \<or>
         \<not> (case msg_edns request of None \<Rightarrow> False | Some opts \<Rightarrow> EDNS_SUBNET \<in> fst ` set opts)
      then Inr packet
      else ok_or (encode_message L (request\<lparr>msg_edns := map_option (filter (\<lambda>o1. fst o1 \<noteq> EDNS_SUBNET)) (msg_edns request)\<rparr>))
             Encode_Failed)"

definition DNS_TIMEOUT :: nat where "DNS_TIMEOUT = 4"
definition MAX_DNS_PACKET :: nat where "MAX_DNS_PACKET = 65535"
definition UDP_RESPONSE_BUFFER :: nat where "UDP_RESPONSE_BUFFER = 4096"

definition marked_socket :: "'w sockets \<Rightarrow> bool \<Rightarrow> u32 \<Rightarrow> (dns_error, 'w, nat) operation" where
  "marked_socket S stream mark =
     bnd (io Socket_Failed (sock_new S stream)) (\<lambda>h.
     bnd (if mark \<noteq> 0 then io Mark_Failed (sock_mark S h mark) else ret ()) (\<lambda>_.
     ret h))"

definition prepared_socket :: "'w sockets \<Rightarrow> bool \<Rightarrow> u32 \<Rightarrow> socket_addr \<Rightarrow> (dns_error, 'w, nat) operation" where
  "prepared_socket S stream mark upstream =
     bnd (marked_socket S stream mark) (\<lambda>h.
     bnd (io Socket_Failed (sock_timeout S h DNS_TIMEOUT)) (\<lambda>_.
     bnd (io Socket_Failed (sock_connect S h upstream)) (\<lambda>_.
     ret h)))"

text \<open>Big-endian, as on the wire.\<close>

definition be16 :: "nat \<Rightarrow> bytes" where
  "be16 n = [of_nat (n div 256), of_nat n]"

definition query_upstream_tcp :: "'w sockets \<Rightarrow> bytes \<Rightarrow> u32 \<Rightarrow> socket_addr \<Rightarrow> (dns_error, 'w, bytes) operation" where
  "query_upstream_tcp S packet mark upstream =
     bnd (prepared_socket S True mark upstream) (\<lambda>h.
     bnd (require (length packet < 65536) Length_Range) (\<lambda>_.
     bnd (io Socket_Failed (sock_send S h (be16 (length packet)))) (\<lambda>_.
     bnd (io Socket_Failed (sock_send S h packet)) (\<lambda>_.
     bnd (io Socket_Failed (sock_read_exact S h 2)) (\<lambda>prefix.
     io Socket_Failed (sock_read_exact S h (unat (prefix ! 0) * 256 + unat (prefix ! 1))))))))"

definition query_upstream_with_mark :: "'w sockets \<Rightarrow> bytes \<Rightarrow> socket_addr \<Rightarrow> u32 \<Rightarrow> (dns_error, 'w, bytes) operation" where
  "query_upstream_with_mark S packet upstream mark =
     bnd (prepared_socket S False mark upstream) (\<lambda>h.
     bnd (io Socket_Failed (sock_send S h packet)) (\<lambda>_.
     bnd (io Socket_Failed (sock_recv S h UDP_RESPONSE_BUFFER)) (\<lambda>response.
     if length response = UDP_RESPONSE_BUFFER \<or> (12 \<le> length response \<and> response ! 2 AND 0x02 \<noteq> 0)
     then query_upstream_tcp S packet mark upstream
     else ret response)))"

section \<open>Answers of the router itself\<close>

definition new_message :: dns_message where
  "new_message = \<lparr>msg_id = 0, msg_response = False, msg_op_code = 0, msg_recursion_desired = False,
     msg_recursion_available = False, msg_authentic = False, msg_code = NO_ERROR, msg_queries = [], msg_answers = [],
     msg_name_servers = [], msg_additionals = [], msg_edns = None\<rparr>"

definition reply_to :: "dns_message \<Rightarrow> nat \<Rightarrow> dns_message" where
  "reply_to request code = new_message\<lparr>msg_id := msg_id request, msg_response := True,
     msg_op_code := msg_op_code request, msg_recursion_desired := msg_recursion_desired request,
     msg_recursion_available := True, msg_code := code, msg_queries := msg_queries request\<rparr>"

definition panel_answers :: "dns_message \<Rightarrow> dns_record list" where
  "panel_answers request =
     (case msg_queries request of
        q # _ \<Rightarrow>
          if dq_type q = TYPE_A
          then [\<lparr>rr_name = dq_name q, rr_class = 1, rr_ttl = 30, rr_data = A_Data PANEL_VIRTUAL_IP\<rparr>] else []
      | [] \<Rightarrow> [])"

definition panel_response :: "dns_lib \<Rightarrow> dns_message \<Rightarrow> dns_error + bytes" where
  "panel_response L request =
     ok_or (encode_message L ((reply_to request NO_ERROR)\<lparr>msg_answers := panel_answers request\<rparr>)) Encode_Failed"

definition empty_response :: "dns_lib \<Rightarrow> dns_message \<Rightarrow> nat \<Rightarrow> dns_error + bytes" where
  "empty_response L request code = ok_or (encode_message L (reply_to request code)) Encode_Failed"

definition failure_response :: "dns_lib \<Rightarrow> bytes \<Rightarrow> bytes" where
  "failure_response L packet =
     (case parse_message L packet of
        None \<Rightarrow> []
      | Some request \<Rightarrow> (case empty_response L request SERV_FAIL of Inr b \<Rightarrow> b | Inl _ \<Rightarrow> []))"

section \<open>A request\<close>

text \<open>From the upstream exchange on, with the route that the name has.\<close>

definition forward_query :: "('c, 'w) dns_env \<Rightarrow> bytes \<Rightarrow> dns_message \<Rightarrow> string \<Rightarrow> marked_upstream \<Rightarrow> 'r policy \<Rightarrow>
    lan_context \<Rightarrow> ('c, 'w, bytes) dns_op" where
  "forward_query E packet request domain route p lan =
     bnd (lift (upstream_packet (de_lib E) packet request route)) (\<lambda>outgoing.
     bnd (on_world id (query_upstream_with_mark (de_sockets E) outgoing (ur_address route) (ur_mark route))) (\<lambda>response.
     bnd (lift (ok_or (parse_message (de_lib E) response) Bad_Response)) (\<lambda>m.
     bnd (require (msg_response m \<and> msg_id m = msg_id request \<and>
                   same_queries (de_lib E) (msg_queries m) (msg_queries request)) Mismatch) (\<lambda>_.
     bnd (rewrite_response E m domain p lan) (\<lambda>m.
     lift (ok_or (encode_message (de_lib E) m) Encode_Failed))))))"

definition process :: "('c, 'w) dns_env \<Rightarrow> bytes \<Rightarrow> 'r policy \<Rightarrow> socket_addr \<Rightarrow> lan_context \<Rightarrow> ('c, 'w, bytes) dns_op" where
  "process E packet p upstream lan s =
     (case parse_message (de_lib E) packet of
        None \<Rightarrow> (s, Inl Bad_Request)
      | Some request \<Rightarrow>
          (case msg_queries request of
             [q] \<Rightarrow>
               (let domain = query_domain (de_config E) (dq_name q) in
                if domain = AP_DOMAIN then (s, panel_response (de_lib E) request)
                else
                  (case upstream_route domain p upstream (dns_vpn s) lan of
                     None \<Rightarrow> (s, empty_response (de_lib E) request REFUSED)
                   | Some route \<Rightarrow> forward_query E packet request domain route p lan s))
           | _ \<Rightarrow> (s, empty_response (de_lib E) request FORM_ERR)))"

end
