(* ===== verification/Dns_Names.thy ===== *)
theory Dns_Names
  imports Resolver
begin

text \<open>
  The names of an answer: the loop of \<^verbatim>\<open>relevant_names\<close> always ends, with exactly the names that a
  chain of aliases leads to from the name that was asked for, whatever cycles the aliases form. And what
  \<^verbatim>\<open>upstream_route\<close> lets the provider see: only names that the policy routes there.
\<close>

section \<open>Chains of aliases\<close>

inductive alias_of :: "config_env \<Rightarrow> dns_record list \<Rightarrow> string \<Rightarrow> string \<Rightarrow> bool"
  for C records domain where
  itself: "alias_of C records domain domain"
| further: "alias_of C records domain (query_domain C (rr_name r)) \<Longrightarrow> r \<in> set records \<Longrightarrow> rr_data r = Cname_Data name \<Longrightarrow>
    alias_of C records domain (query_domain C name)"

definition alias_targets :: "config_env \<Rightarrow> dns_record list \<Rightarrow> string set" where
  "alias_targets C records = {query_domain C name | r name. r \<in> set records \<and> rr_data r = Cname_Data name}"

lemma finite_alias_targets: "finite (alias_targets C records)"
proof -
  have "alias_targets C records \<subseteq> (\<lambda>r. case rr_data r of Cname_Data name \<Rightarrow> query_domain C name | _ \<Rightarrow> []) ` set records"
    unfolding alias_targets_def by (auto intro!: rev_image_eqI)
  then show ?thesis by (rule finite_subset) simp
qed

section \<open>A pass\<close>

definition pass :: "config_env \<Rightarrow> dns_record list \<Rightarrow> string set \<times> bool \<Rightarrow> string set \<times> bool" where
  "pass C records = fold (follow C) records"

lemma pass_simps [simp]: "pass C [] st = st" "pass C (r # rs) st = pass C rs (follow C r st)"
  by (simp_all add: pass_def)

lemma follow_grows: "fst st \<subseteq> fst (follow C r st)"
  and follow_flag: "snd st \<Longrightarrow> snd (follow C r st)"
  and follow_same: "snd (follow C r st) \<Longrightarrow> \<not> snd st \<Longrightarrow> fst (follow C r st) \<noteq> fst st"
  and follow_quiet: "\<not> snd (follow C r st) \<Longrightarrow> fst (follow C r st) = fst st"
  by (cases st; auto split: record_data.split if_splits)+

lemma follow_from: "fst (follow C r st) \<subseteq> fst st \<union> alias_targets C (r # records)"
  by (cases st) (auto simp: alias_targets_def split: record_data.split if_splits)

lemma pass_grows: "fst st \<subseteq> fst (pass C records st)"
proof (induction records arbitrary: st)
  case (Cons r rs)
  show ?case using follow_grows[of st C r] Cons[of "follow C r st"] by simp
qed simp

lemma pass_flag: "snd st \<Longrightarrow> snd (pass C records st)"
  by (induction records arbitrary: st) (auto simp: follow_flag)

lemma pass_quiet: "\<not> snd (pass C records st) \<Longrightarrow> fst (pass C records st) = fst st"
proof (induction records arbitrary: st)
  case (Cons r rs)
  then have "\<not> snd (follow C r st)" using pass_flag[of "follow C r st" C rs] by auto
  then show ?case using Cons follow_quiet by auto
qed simp

lemma pass_changed: "snd (pass C records st) \<Longrightarrow> \<not> snd st \<Longrightarrow> fst st \<subset> fst (pass C records st)"
proof (induction records arbitrary: st)
  case (Cons r rs)
  show ?case
  proof (cases "snd (follow C r st)")
    case True
    then have "fst st \<subset> fst (follow C r st)" using follow_same follow_grows Cons.prems(2) by blast
    then show ?thesis using pass_grows[of "follow C r st" C rs] by auto
  next
    case False
    then show ?thesis using Cons.IH[OF _ False] Cons.prems follow_quiet[OF False] by simp
  qed
qed simp

lemma pass_sound:
  "\<forall>n\<in>fst st. alias_of C all domain n \<Longrightarrow> set records \<subseteq> set all \<Longrightarrow>
     \<forall>n\<in>fst (pass C records st). alias_of C all domain n"
proof (induction records arbitrary: st)
  case (Cons r rs)
  have "\<forall>n\<in>fst (follow C r st). alias_of C all domain n"
    using Cons.prems by (cases st) (auto split: record_data.split if_splits intro: alias_of.further)
  then show ?case using Cons by simp
qed simp

lemma pass_closed:
  assumes "\<not> snd (pass C records st)" and "r \<in> set records" and "rr_data r = Cname_Data name"
    and "query_domain C (rr_name r) \<in> fst st"
  shows "query_domain C name \<in> fst st"
  using assms
proof (induction records arbitrary: st)
  case (Cons x rs)
  have quiet: "\<not> snd (follow C x st)" using Cons.prems(1) pass_flag[of "follow C x st" C rs] by auto
  show ?case
  proof (cases "x = r")
    case True
    then show ?thesis using quiet Cons.prems(3,4) by (cases st) (auto split: if_splits)
  next
    case False
    then show ?thesis using Cons.IH[of "follow C x st"] Cons.prems follow_quiet[OF quiet] by auto
  qed
qed simp

lemma pass_within: "fst (pass C records st) \<subseteq> fst st \<union> alias_targets C records"
proof (induction records arbitrary: st)
  case (Cons r rs)
  have "alias_targets C rs \<subseteq> alias_targets C (r # rs)" by (auto simp: alias_targets_def)
  then show ?case using Cons[of "follow C r st"] follow_from[of C r st rs] by auto
qed simp

section \<open>The loop\<close>

lemma names_loop_pass: "names_loop C records domain =
    while_option snd (\<lambda>st. pass C records (fst st, False)) ({domain}, True)"
  by (simp add: names_loop_def pass_def case_prod_unfold)

lemma names_loop_ends: "\<exists>st. names_loop C records domain = Some st"
proof -
  let ?T = "insert domain (alias_targets C records)"
  let ?P = "\<lambda>st :: string set \<times> bool. fst st \<subseteq> ?T"
  let ?m = "\<lambda>st :: string set \<times> bool. card (?T - fst st) + (if snd st then 1 else 0)"
  have fin: "finite ?T" by (simp add: finite_alias_targets)
  have step: "?P (pass C records (fst st, False)) \<and> ?m (pass C records (fst st, False)) < ?m st"
    if "?P st" "snd st" for st
  proof
    let ?st' = "pass C records (fst st, False)"
    show p: "?P ?st'" using that(1) pass_within[of C records "(fst st, False)"] by auto
    show "?m ?st' < ?m st"
    proof (cases "snd ?st'")
      case True
      then have "fst st \<subset> fst ?st'" using pass_changed[of C records "(fst st, False)"] by simp
      then have "?T - fst ?st' \<subset> ?T - fst st" using p by auto
      then have "card (?T - fst ?st') < card (?T - fst st)" using fin by (simp add: psubset_card_mono)
      then show ?thesis using that(2) True by simp
    next
      case False
      then show ?thesis using that(2) pass_quiet[of C records "(fst st, False)"] by simp
    qed
  qed
  show ?thesis
    unfolding names_loop_pass
    by (rule measure_while_option_Some[where P = ?P and f = ?m]) (use step in auto)
qed

text \<open>C39: The search for the names of an answer always ends, and what it returns are exactly the names
  that a chain of aliases reaches from the name that was asked for. An answer whose aliases form a cycle
  does not hold the resolver up, and an address record of an unrelated name is never rewritten.\<close>

theorem relevant_names_terminates:
  "\<exists>names. names_loop C records domain = Some (names, False) \<and> relevant_names C records domain = names \<and>
     names = {n. alias_of C records domain n}"
proof -
  obtain st where st: "names_loop C records domain = Some st" using names_loop_ends by blast
  note loop = st[unfolded names_loop_pass]
  have stop: "\<not> snd st" using while_option_stop[OF loop] .
  have sound: "\<forall>n\<in>fst st. alias_of C records domain n"
    by (rule while_option_rule[where P = "\<lambda>st. \<forall>n\<in>fst st. alias_of C records domain n", OF _ loop])
      (use pass_sound[of _ C records domain records] in \<open>auto intro: alias_of.itself\<close>)
  let ?closed = "\<lambda>st. domain \<in> fst st \<and> (\<not> snd st \<longrightarrow>
    (\<forall>r name. r \<in> set records \<longrightarrow> rr_data r = Cname_Data name \<longrightarrow> query_domain C (rr_name r) \<in> fst st \<longrightarrow>
      query_domain C name \<in> fst st))"
  have closed: "?closed st"
  proof (rule while_option_rule[where P = ?closed, OF _ loop])
    show "?closed (pass C records (fst s, False))" if "?closed s" for s
      using that pass_closed[of C records "(fst s, False)"] pass_quiet[of C records "(fst s, False)"]
        pass_grows[of "(fst s, False)" C records] by auto
  qed simp
  have "n \<in> fst st" if "alias_of C records domain n" for n
    using that by (induction rule: alias_of.induct) (use closed stop in auto)
  then have "fst st = {n. alias_of C records domain n}" using sound by blast
  moreover have "st = (fst st, False)" using stop by (cases st) simp
  ultimately show ?thesis using st by (metis fst_conv option.sel relevant_names_def)
qed


section \<open>What the provider sees\<close>

lemma target_covered:
  assumes "ipnet_laws N" and "compile X N live_sites live_ips c g = (Inr p, cat)" and "\<not> is_lan_destination N ip"
  shows "rank (Routing.target p domain ip) \<le> rank (dns_target p domain)" and "pol_net p = N"
proof -
  have p: "policy_ok p" "pol_config p = c" "pol_net p = N" using compile_ok[OF assms(2)] by auto
  show "rank (Routing.target p domain ip) \<le> rank (dns_target p domain)"
    using dns_search_covers[of p domain ip "rule_refs p" Block] assms(1,3) p
    by (cases "mode c") (auto simp: Routing.target_def dns_target_def effective_fallback_def split: option.splits)
  show "pol_net p = N" by (rule p(3))
qed

lemma upstream_route_cases:
  assumes "upstream_route domain p upstream vpn lan = Some route" and "\<not> local_dns_name (pol_net p) domain lan"
  shows "(effective_target (dns_target p domain) vpn = Direct \<and> ur_mark route = DIRECT_MARK \<and> ur_address route = upstream) \<or>
    (effective_target (dns_target p domain) vpn = Vpn \<and> ur_mark route = VPN_MARK \<and> ur_address route = TUNNEL_DNS_UPSTREAM) \<or>
    (effective_target (dns_target p domain) vpn = Warp \<and> ur_mark route = WARP_MARK \<and> ur_address route = WARP_DNS_UPSTREAM)"
  using assms by (auto simp: upstream_route_def Let_def split: route_target.splits)

text \<open>C7: A name that is looked up at the local upstream, in the open, is a name of the local network or one
  whose connections the policy sends directly or blocks: a name of which any address outside the LAN is
  routed through the VPN or WARP is looked up through that tunnel, at the resolver of the tunnel.\<close>

theorem open_lookups_disclose_no_protected_name:
  assumes "ipnet_laws N" and "compile X N live_sites live_ips c g = (Inr p, cat)"
    and "upstream_route domain p upstream vpn lan = Some route" and "\<not> local_dns_name N domain lan"
    and "\<not> is_lan_destination N ip"
  shows "(ur_mark route = DIRECT_MARK \<longrightarrow> effective_target (Routing.target p domain ip) vpn \<in> {Direct, Block}) \<and>
    (effective_target (Routing.target p domain ip) vpn = Warp \<longrightarrow>
       ur_mark route = WARP_MARK \<and> ur_address route = WARP_DNS_UPSTREAM) \<and>
    (ur_mark route \<noteq> DIRECT_MARK \<longrightarrow> ur_address route \<in> {TUNNEL_DNS_UPSTREAM, WARP_DNS_UPSTREAM})"
proof -
  note c = target_covered(1)[OF assms(1,2,5), of domain] target_covered(2)[OF assms(1,2,5)]
  note u = upstream_route_cases[OF assms(3), unfolded c(2), OF assms(4)]
  have "effective_target (dns_target p domain) vpn \<noteq> Block" using u by auto
  then have r: "rank (effective_target (Routing.target p domain ip) vpn) \<le> rank (effective_target (dns_target p domain) vpn)"
    using c(1) by (cases "Routing.target p domain ip"; cases "dns_target p domain") (auto simp: effective_target_def split: if_splits)
  have "DIRECT_MARK \<noteq> VPN_MARK" "DIRECT_MARK \<noteq> WARP_MARK" "VPN_MARK \<noteq> WARP_MARK"
    by (simp_all add: DIRECT_MARK_def VPN_MARK_def WARP_MARK_def)
  then show ?thesis
    using u r
    by (cases "effective_target (Routing.target p domain ip) vpn") auto
qed

theorem open_lookups_disclose_no_protected_name_witness:
  "ur_mark (the (upstream_route ''example.org'' witness_policy (SocketAddrV4 (octets_addr 192 168 1 1) 53) True witness_lan)) =
     WARP_MARK"
proof -
  have lan: "\<not> is_lan_destination std_ipnet (octets_addr 1 1 1 1)"
    by (simp add: is_lan_destination_def LAN_RANGES_def std_ipnet_def net_def octets_addr_def net_first_def
        net_last_def net_size_def)
  have loc: "\<not> local_dns_name std_ipnet ''example.org'' witness_lan"
    by (simp add: local_dns_name_def LOCAL_SUFFIXES_def strip_suffix_def)
  have dns: "dns_target witness_policy ''example.org'' = Warp"
    by (simp add: dns_target_def rule_refs_def witness_policy_def nth_opt_def protect_def net_def)
  have net: "pol_net witness_policy = std_ipnet" by (simp add: witness_policy_def)
  have route: "upstream_route ''example.org'' witness_policy (SocketAddrV4 (octets_addr 192 168 1 1) 53) True witness_lan =
      Some \<lparr>ur_address = WARP_DNS_UPSTREAM, ur_mark = WARP_MARK\<rparr>"
    by (simp add: upstream_route_def net loc dns effective_target_def)
  have "rule_refs witness_policy = [Ip_Ref 0]" by (simp add: rule_refs_def witness_policy_def)
  moreover have "matches_ip_rule witness_policy 0 (octets_addr 1 1 1 1)"
    by (simp add: matches_ip_rule_def witness_policy_def net_def std_ipnet_def net_first_def net_last_def net_size_def
        octets_addr_def)
  moreover have "mode (pol_config witness_policy) = Rules" "ir_enabled (ip_rules (pol_config witness_policy) ! 0)"
      "ir_target (ip_rules (pol_config witness_policy) ! 0) = Warp" "length (ip_rules (pol_config witness_policy)) = 1"
    by (simp_all add: witness_policy_def)
  ultimately have "effective_target (Routing.target witness_policy ''example.org'' (octets_addr 1 1 1 1)) True = Warp"
    using lan net by (simp add: Routing.target_def effective_target_def nth_opt_def ref_target_def)
  then show ?thesis
    using open_lookups_disclose_no_protected_name[OF std.ipnet_laws_axioms witness_policy_compile route loc lan] route by simp
qed

end
