(* ===== verification/Dns_Answers.thy ===== *)
theory Dns_Answers
  imports Dns_Names
begin

text \<open>
  The resolver on its machine. The contract of the sockets says which mark and which peer a datagram leaves
  with; the locale \<open>dns_laws\<close> puts it together with the contracts of \<^verbatim>\<open>nft\<close> and of SQLite. Shown here: a
  lookup leaves only by the route that the policy gives the name, and the translations in the kernel are
  those of the lease table after every request and every clean-up.
\<close>

section \<open>The contract of the sockets\<close>

text \<open>\<open>sent w\<close>: the mark and the destination of what was sent so far.\<close>

locale socket_laws =
  fixes S :: "'w sockets" and mark_of :: "'w \<Rightarrow> nat \<Rightarrow> u32" and peer_of :: "'w \<Rightarrow> nat \<Rightarrow> socket_addr option"
    and sent :: "'w \<Rightarrow> (u32 \<times> socket_addr) set"
  assumes new_sent: "sock_new S b w = (w', r) \<Longrightarrow> sent w' = sent w"
    and new_mark: "sock_new S b w = (w', Io_Ok h) \<Longrightarrow> mark_of w' h = 0"
    and mark_sent: "sock_mark S h m w = (w', r1) \<Longrightarrow> sent w' = sent w"
    and marked: "sock_mark S h m w = (w', Io_Ok u) \<Longrightarrow> mark_of w' h = m"
    and timeout: "sock_timeout S h t w = (w', r1) \<Longrightarrow> sent w' = sent w \<and> mark_of w' h = mark_of w h"
    and connect_sent: "sock_connect S h a w = (w', r1) \<Longrightarrow>
          sent w' \<subseteq> insert (mark_of w h, a) (sent w) \<and> mark_of w' h = mark_of w h"
    and connected: "sock_connect S h a w = (w', Io_Ok u) \<Longrightarrow> peer_of w' h = Some a"
    and send_sent: "sock_send S h b1 w = (w', r1) \<Longrightarrow>
          sent w' \<subseteq> sent w \<union> {(mark_of w h, a) | a. peer_of w h = Some a} \<and>
          mark_of w' h = mark_of w h \<and> peer_of w' h = peer_of w h"
    and recv_sent: "sock_recv S h t w = (w', r2) \<Longrightarrow>
          sent w' = sent w \<and> mark_of w' h = mark_of w h \<and> peer_of w' h = peer_of w h"
    and read_sent: "sock_read_exact S h t w = (w', r2) \<Longrightarrow>
          sent w' = sent w \<and> mark_of w' h = mark_of w h \<and> peer_of w' h = peer_of w h"
begin

text \<open>The socket \<open>h\<close> is bound to one route.\<close>

definition bound :: "u32 \<Rightarrow> socket_addr \<Rightarrow> (u32 \<times> socket_addr) set \<Rightarrow> nat \<Rightarrow> 'w \<Rightarrow> bool" where
  "bound m a B h w \<longleftrightarrow> (m, a) \<in> B \<and> sent w \<subseteq> B \<and> mark_of w h = m \<and> peer_of w h = Some a"

lemma bound_io:
  "keeps (bound m a B h) (io e (sock_send S h b))" "keeps (bound m a B h) (io e (sock_recv S h n))"
  "keeps (bound m a B h) (io e (sock_read_exact S h n))"
proof -
  have s: "bound m a B h (fst (sock_send S h b w))" if "bound m a B h w" for w
    using that send_sent[of h b w "fst (sock_send S h b w)" "snd (sock_send S h b w)"] by (auto simp: bound_def)
  have r: "bound m a B h (fst (sock_recv S h n w))" if "bound m a B h w" for w
    using that recv_sent[of h n w "fst (sock_recv S h n w)" "snd (sock_recv S h n w)"] by (auto simp: bound_def)
  have x: "bound m a B h (fst (sock_read_exact S h n w))" if "bound m a B h w" for w
    using that read_sent[of h n w "fst (sock_read_exact S h n w)" "snd (sock_read_exact S h n w)"] by (auto simp: bound_def)
  show "keeps (bound m a B h) (io e (sock_send S h b))" "keeps (bound m a B h) (io e (sock_recv S h n))"
    "keeps (bound m a B h) (io e (sock_read_exact S h n))"
    using s r x by (blast intro: keeps_io)+
qed

lemma marked_socket_bound:
  "triple (\<lambda>w. sent w \<subseteq> B) (marked_socket S stream m) (\<lambda>h w. sent w \<subseteq> B \<and> mark_of w h = m) (\<lambda>_ w. sent w \<subseteq> B)"
  unfolding marked_socket_def
proof (rule triple_bnd)
  show "triple (\<lambda>w. sent w \<subseteq> B) (io Socket_Failed (sock_new S stream)) (\<lambda>h w. sent w \<subseteq> B \<and> mark_of w h = 0)
      (\<lambda>_ w. sent w \<subseteq> B)"
    by (rule triple_io) (auto dest: new_sent new_mark)
  fix h
  show "triple (\<lambda>w. sent w \<subseteq> B \<and> mark_of w h = 0)
      (bnd (if m \<noteq> 0 then io Mark_Failed (sock_mark S h m) else ret ()) (\<lambda>_. ret h))
      (\<lambda>h w. sent w \<subseteq> B \<and> mark_of w h = m) (\<lambda>_ w. sent w \<subseteq> B)"
  proof (rule triple_bnd)
    have "triple (\<lambda>w. sent w \<subseteq> B \<and> mark_of w h = 0) (io Mark_Failed (sock_mark S h m))
        (\<lambda>_ w. sent w \<subseteq> B \<and> mark_of w h = m) (\<lambda>_ w. sent w \<subseteq> B)"
      by (rule triple_io) (auto dest: mark_sent marked)
    then show "triple (\<lambda>w. sent w \<subseteq> B \<and> mark_of w h = 0)
        (if m \<noteq> 0 then io Mark_Failed (sock_mark S h m) else ret ())
        (\<lambda>_ w. sent w \<subseteq> B \<and> mark_of w h = m) (\<lambda>_ w. sent w \<subseteq> B)"
      by (auto simp: triple_def ret_def)
  qed (auto simp: triple_def ret_def)
qed

lemma prepared_socket_bound:
  assumes "(m, a) \<in> B"
  shows "triple (\<lambda>w. sent w \<subseteq> B) (prepared_socket S stream m a) (\<lambda>h. bound m a B h) (\<lambda>_ w. sent w \<subseteq> B)"
  unfolding prepared_socket_def
proof (rule triple_bnd[OF marked_socket_bound])
  fix h
  let ?M = "\<lambda>w. sent w \<subseteq> B \<and> mark_of w h = m"
  have t: "triple ?M (io Socket_Failed (sock_timeout S h DNS_TIMEOUT)) (\<lambda>_. ?M) (\<lambda>_ w. sent w \<subseteq> B)"
    by (rule triple_io) (auto dest: timeout)
  have c: "triple ?M (io Socket_Failed (sock_connect S h a)) (\<lambda>_. bound m a B h) (\<lambda>_ w. sent w \<subseteq> B)"
    using assms by (intro triple_io) (auto simp: bound_def dest: connect_sent connected)
  show "triple ?M (bnd (io Socket_Failed (sock_timeout S h DNS_TIMEOUT))
      (\<lambda>_. bnd (io Socket_Failed (sock_connect S h a)) (\<lambda>_. ret h))) (\<lambda>h. bound m a B h) (\<lambda>_ w. sent w \<subseteq> B)"
    by (rule triple_bnd[OF t triple_bnd[OF c]]) (simp add: triple_def ret_def)
qed

lemma bound_sent: "keeps (bound m a B h) op \<Longrightarrow> triple (bound m a B h) op (\<lambda>_ w. sent w \<subseteq> B) (\<lambda>_ w. sent w \<subseteq> B)"
  unfolding keeps_triple by (erule triple_weaken) (auto simp: bound_def)

lemma query_tcp_sends:
  "(m, a) \<in> B \<Longrightarrow> triple (\<lambda>w. sent w \<subseteq> B) (query_upstream_tcp S packet m a) (\<lambda>_ w. sent w \<subseteq> B) (\<lambda>_ w. sent w \<subseteq> B)"
  unfolding query_upstream_tcp_def
  by (rule triple_bnd[OF prepared_socket_bound], assumption, rule bound_sent) (intro wp bound_io)

lemma query_sends:
  assumes ma: "(m, a) \<in> B"
  shows "triple (\<lambda>w. sent w \<subseteq> B) (query_upstream_with_mark S packet a m) (\<lambda>_ w. sent w \<subseteq> B) (\<lambda>_ w. sent w \<subseteq> B)"
  unfolding query_upstream_with_mark_def
proof (rule triple_bnd[OF prepared_socket_bound[OF ma]])
  fix h
  have e: "triple (bound m a B h) op (\<lambda>_. bound m a B h) (\<lambda>_ w. sent w \<subseteq> B)" if "keeps (bound m a B h) op"
    for op :: "(dns_error, 'w, 'x) operation"
    by (rule triple_weaken[OF that[unfolded keeps_triple]]) (auto simp: bound_def)
  have t: "triple (bound m a B h) (query_upstream_tcp S packet m a) (\<lambda>_ w. sent w \<subseteq> B) (\<lambda>_ w. sent w \<subseteq> B)"
    by (rule triple_weaken[OF query_tcp_sends[OF ma]]) (auto simp: bound_def)
  have r: "triple (bound m a B h) (ret x) (\<lambda>_ w. sent w \<subseteq> B) (\<lambda>_ w. sent w \<subseteq> B)" for x :: bytes
    by (simp add: triple_def ret_def bound_def)
  show "triple (bound m a B h)
      (bnd (io Socket_Failed (sock_send S h packet)) (\<lambda>_.
       bnd (io Socket_Failed (sock_recv S h UDP_RESPONSE_BUFFER)) (\<lambda>response.
       if length response = UDP_RESPONSE_BUFFER \<or> (12 \<le> length response \<and> response ! 2 AND 0x02 \<noteq> 0)
       then query_upstream_tcp S packet m a else ret response)))
      (\<lambda>_ w. sent w \<subseteq> B) (\<lambda>_ w. sent w \<subseteq> B)"
    by (rule triple_bnd[OF e[OF bound_io(1)] triple_bnd[OF e[OF bound_io(2)]]]) (simp add: t r)
qed

end


section \<open>The contract of the machine\<close>

locale dns_laws =
  nft: nft_laws "de_nft E" ruleset + sock: socket_laws "de_sockets E" mark_of peer_of sent + sql: fake_db_laws "de_db E" rows
  for E :: "('c, 'w) dns_env" and ruleset and mark_of and peer_of and sent and rows +
  assumes clock_kept: "ruleset (fst (de_clock E w)) = ruleset w \<and> sent (fst (de_clock E w)) = sent w"
    and nft_sent: "sent (fst (nft_transaction (de_nft E) cs w)) = sent w"
    and new_kept: "ruleset (fst (sock_new (de_sockets E) b w)) = ruleset w"
    and mark_kept: "ruleset (fst (sock_mark (de_sockets E) h m w)) = ruleset w"
    and timeout_kept: "ruleset (fst (sock_timeout (de_sockets E) h n w)) = ruleset w"
    and connect_kept: "ruleset (fst (sock_connect (de_sockets E) h a w)) = ruleset w"
    and send_kept: "ruleset (fst (sock_send (de_sockets E) h b1 w)) = ruleset w"
    and recv_kept: "ruleset (fst (sock_recv (de_sockets E) h n w)) = ruleset w"
    and read_kept: "ruleset (fst (sock_read_exact (de_sockets E) h n w)) = ruleset w"

lemma fst_on_world: "fst (on_world e m s) = s\<lparr>dns_world := fst (m (dns_world s))\<rparr>"
  and fst_on_store: "fst (on_store f s) = s\<lparr>fd_store := fst (f (fd_store s))\<rparr>"
  and fst_on_dns: "fst (on_dns op (s, added)) = (fst (op s), added)"
  by (simp_all add: on_world_def on_store_def on_dns_def case_prod_unfold)

lemma fst_run_nft: "fst (run_nft H cs w) = (if cs = [] then w else fst (nft_transaction H cs w))"
  by (simp add: run_nft_def ret_def split: prod.split nft_end.split)

lemma keepsD: "keeps I m \<Longrightarrow> I w \<Longrightarrow> m w = (w', r) \<Longrightarrow> I w'"
  by (metis keeps_def fst_conv)

lemma keeps_world: "keeps I m \<Longrightarrow> keeps (\<lambda>s. I (dns_world s)) (on_world e m)"
  by (simp add: keeps_def fst_on_world)

lemma keeps_with_store: "keeps I m \<Longrightarrow> keeps I (with_store m)"
  by (simp add: keeps_def with_store_def)

lemma keeps_on_dns: "keeps I m \<Longrightarrow> keeps (\<lambda>st. I (fst st)) (on_dns m)"
  by (simp add: keeps_def fst_on_dns split_paired_all)

text \<open>Apart from its exchange with the upstream, an answer only reads the clock and adds leases to the ruleset.\<close>

definition undisturbed :: "('c, 'w) dns_env \<Rightarrow> ('w \<Rightarrow> bool) \<Rightarrow> bool" where
  "undisturbed E P \<longleftrightarrow> (\<forall>w. P w \<longrightarrow> P (fst (de_clock E w))) \<and>
     (\<forall>ms w. P w \<longrightarrow> P (fst (install_mappings (de_nft E) ms w)))"

lemma undisturbed_steps:
  assumes "undisturbed E P"
  shows "keeps (\<lambda>s. P (dns_world s)) (read_clock E)" and "keeps (\<lambda>s. P (dns_world s)) (on_store f)"
    and "keeps (\<lambda>s. P (dns_world s)) (on_world e (install_mappings (de_nft E) ms))"
  unfolding read_clock_def
  using assms by (auto simp: undisturbed_def keeps_def fst_on_store fst_on_world observe_def split: prod.splits)

lemma undisturbed_records:
  assumes "undisturbed E P"
  shows "keeps (\<lambda>st. P (dns_world (fst st))) (rewrite_records E domain p names lan rs)"
proof (induction rs)
  case (Cons r rs)
  have push: "keeps (\<lambda>st. P (dns_world (fst st))) (push_mapping m)" for m
    by (simp add: keeps_def push_mapping_def split_paired_all)
  show ?case
    using keeps_on_dns[OF undisturbed_steps(1)[OF assms]] keeps_on_dns[OF undisturbed_steps(2)[OF assms]] push Cons
    by (auto split: record_data.split intro!: wp)
qed (simp add: keeps_ret)

lemma undisturbed_rewrite:
  assumes "undisturbed E P"
  shows "keeps (\<lambda>s. P (dns_world s)) (rewrite_message E m domain p lan)"
  unfolding rewrite_message_def
proof (rule keeps_with_store, unfold keeps_def, intro allI impI)
  fix s :: "('a, 'b) fake_dns" assume s: "P (dns_world s)"
  have install: "keeps (\<lambda>st. P (dns_world (fst st))) (install_added E)"
    using undisturbed_steps(3)[OF assms] by (auto simp: keeps_def install_added_def fst_on_dns)
  have "keeps (\<lambda>st. P (dns_world (fst st))) (rewrite_sections E m domain p lan)"
    unfolding rewrite_sections_def Let_def by (intro wp undisturbed_records[OF assms] install)
  moreover obtain s' added r where run: "rewrite_sections E m domain p lan (s, []) = ((s', added), r)"
    by (metis surj_pair)
  ultimately have s': "P (dns_world s')" using keepsD[of _ _ "(s, [])"] s by fastforce
  obtain s'' r' where undo: "on_store (store_remove_mappings (de_db E) added) s' = (s'', r')"
    by (metis surj_pair)
  have "P (dns_world s'')"
    using keepsD[OF undisturbed_steps(2)[OF assms] s' undo] .
  then show "P (dns_world (fst (case rewrite_sections E m domain p lan (s, []) of
      ((s', added), Inr x) \<Rightarrow> (s', Inr x)
    | ((s', added), Inl e) \<Rightarrow>
        if added = [] then (s', Inl e)
        else case on_store (store_remove_mappings (de_db E) added) s' of
               (s'', Inr _) \<Rightarrow> (s'', Inl e) | (s'', Inl e') \<Rightarrow> (s'', Inl (Also_Failed e e')))))"
    using s' run undo by (auto split: sum.split)
qed

lemma undisturbed_response:
  assumes "undisturbed E P"
  shows "keeps (\<lambda>s. P (dns_world s)) (rewrite_response E m domain p lan)"
proof -
  have run: "keeps (\<lambda>s. P (dns_world s)) (bnd (if b then rewrite_message E m domain p lan else ret x) f)"
    if "\<And>x. keeps (\<lambda>s. P (dns_world s)) (f x)" for b x f
    using that by (intro wp undisturbed_rewrite[OF assms])
  show ?thesis
    unfolding keeps_def rewrite_response_def Let_def
    by (intro allI impI, rule run[unfolded keeps_def, rule_format]) (simp_all add: ret_def split: prod.split)
qed

lemma undisturbed_forward:
  assumes "undisturbed E P"
    and "\<And>packet. keeps P (query_upstream_with_mark (de_sockets E) packet (ur_address route) (ur_mark route))"
  shows "keeps (\<lambda>s. P (dns_world s)) (forward_query E packet request domain route p lan)"
  unfolding forward_query_def by (intro wp undisturbed_response[OF assms(1)] keeps_world assms(2))

context dns_laws
begin

section \<open>What is sent\<close>

lemma sends_undisturbed: "undisturbed E (\<lambda>w. sent w \<subseteq> B)"
  by (simp add: undisturbed_def clock_kept install_mappings_def fst_run_nft nft_sent)

lemma sends_forward:
  assumes "(ur_mark route, ur_address route) \<in> B"
  shows "keeps (\<lambda>s. sent (dns_world s) \<subseteq> B) (forward_query E packet request domain route p lan)"
  by (rule undisturbed_forward[OF sends_undisturbed]) (use sock.query_sends[OF assms] in \<open>simp add: keeps_triple\<close>)

lemma process_sends:
  assumes "process E packet p upstream lan s = (s', r)" and "x \<in> sent (dns_world s')" and "x \<notin> sent (dns_world s)"
  obtains request q route where "parse_message (de_lib E) packet = Some request" and "msg_queries request = [q]"
    and "query_domain (de_config E) (dq_name q) \<noteq> AP_DOMAIN"
    and "upstream_route (query_domain (de_config E) (dq_name q)) p upstream (dns_vpn s) lan = Some route"
    and "x = (ur_mark route, ur_address route)"
proof -
  have "s \<noteq> s'" using assms by auto
  then obtain request q route where q: "parse_message (de_lib E) packet = Some request" "msg_queries request = [q]"
      "query_domain (de_config E) (dq_name q) \<noteq> AP_DOMAIN"
      "upstream_route (query_domain (de_config E) (dq_name q)) p upstream (dns_vpn s) lan = Some route"
      and f: "forward_query E packet request (query_domain (de_config E) (dq_name q)) route p lan s = (s', r)"
    using assms(1) by (auto simp: process_def Let_def split: option.splits list.splits if_splits)
  let ?B = "insert (ur_mark route, ur_address route) (sent (dns_world s))"
  have "sent (dns_world s') \<subseteq> ?B"
    by (rule keepsD[OF sends_forward _ f]) auto
  then show thesis using that q assms(2,3) by blast
qed

end

text \<open>C6: Whatever the resolver sends while it answers a request goes out with the mark and to the upstream
  that the policy gives the name of its one question: nothing is sent for a blocked name, for the name of
  the panel or for a malformed request, and a name of the VPN or of WARP never leaves unmarked.\<close>

theorem lookups_leave_by_their_route:
  assumes "dns_laws E ruleset mark_of peer_of sent rows" and "process E packet p upstream lan s = (s', r)"
    and "x \<in> sent (dns_world s')" and "x \<notin> sent (dns_world s)"
  shows "\<exists>request q route. parse_message (de_lib E) packet = Some request \<and> msg_queries request = [q] \<and>
    query_domain (de_config E) (dq_name q) \<noteq> AP_DOMAIN \<and>
    upstream_route (query_domain (de_config E) (dq_name q)) p upstream (dns_vpn s) lan = Some route \<and>
    x = (ur_mark route, ur_address route)"
  using dns_laws.process_sends[OF assms] by metis

section \<open>Translations in the kernel\<close>

text \<open>The elements of the routing table that stand for a set of mappings.\<close>

definition translated :: "nft_command list \<Rightarrow> fake_mapping set \<Rightarrow> bool" where
  "translated rs M \<longleftrightarrow>
     set (elements rs TABLE ''fake_to_real'') = (\<lambda>m. El_Map (fm_fake m) (fm_real m)) ` M \<and>
     (\<forall>(t, s) \<in> set FAKE_TARGET_SETS. set (elements rs TABLE s) = (\<lambda>m. El_Addr (fm_fake m)) ` {m \<in> M. fm_target m = t})"

definition mappings_of :: "'c store \<Rightarrow> fake_mapping set" where
  "mappings_of s = (\<lambda>e. mapping (snd e)) ` set (leases s)"

lemma translated_add:
  assumes "translated rs M"
  shows "translated (apply_script (append_mappings ms) rs) (M \<union> set ms)"
proof -
  have "list_all adds (append_mappings ms)"
    by (auto simp: append_mappings_def append_target_elements_def list_all_iff adds_def Let_def split: if_splits)
  then have ap: "apply_script (append_mappings ms) rs = rs @ append_mappings ms" by (rule apply_adds)
  have "set (elements (apply_script (append_mappings ms) rs) TABLE s) =
      (\<lambda>m. El_Addr (fm_fake m)) ` {m \<in> M \<union> set ms. fm_target m = t}" if ts: "(t, s) \<in> set FAKE_TARGET_SETS" for t s
  proof -
    have "set (elements rs TABLE s) = (\<lambda>m. El_Addr (fm_fake m)) ` {m \<in> M. fm_target m = t}"
      using assms ts by (auto simp: translated_def)
    then show ?thesis unfolding ap elements_append elements_mappings(1)[OF ts] by auto
  qed
  then show ?thesis
    using assms ap by (auto simp: translated_def elements_mappings(2))
qed

lemma elements_delete:
  "elements (apply_command (Delete_Elements t s gone) rs) t' s' =
     (if t' = t \<and> s' = s then without gone (elements rs t' s') else elements rs t' s')"
  by (induction rs) (auto simp: elements_Cons without_def split: nft_command.split)

lemma elements_delete_keys:
  "elements (apply_script (if gone = [] then [] else [Delete_Elements t s (map f gone)]) rs) t' s' =
     (if t' = t \<and> s' = s then without (map f gone) (elements rs t' s') else elements rs t' s')"
  by (cases "gone = []") (simp_all add: elements_delete del: apply_command.simps, simp add: without_def)

lemma elements_removed:
  "elements (apply_script (remove_mappings ms) rs) TABLE ''fake_to_real'' =
     without (map (\<lambda>m. El_Addr (fm_fake m)) ms) (elements rs TABLE ''fake_to_real'')"
  "(t, s) \<in> set FAKE_TARGET_SETS \<Longrightarrow> elements (apply_script (remove_mappings ms) rs) TABLE s =
     without (map (\<lambda>m. El_Addr (fm_fake m)) (filter (\<lambda>m. fm_target m = t) ms)) (elements rs TABLE s)"
proof -
  have "without [] es = es" for es by (simp add: without_def)
  then show "elements (apply_script (remove_mappings ms) rs) TABLE ''fake_to_real'' =
     without (map (\<lambda>m. El_Addr (fm_fake m)) ms) (elements rs TABLE ''fake_to_real'')"
    "(t, s) \<in> set FAKE_TARGET_SETS \<Longrightarrow> elements (apply_script (remove_mappings ms) rs) TABLE s =
     without (map (\<lambda>m. El_Addr (fm_fake m)) (filter (\<lambda>m. fm_target m = t) ms)) (elements rs TABLE s)"
    unfolding remove_mappings_def append_target_elements_def FAKE_TARGET_SETS_def Let_def
    by (auto simp add: elements_delete elements_delete_keys simp del: apply_command.simps)
qed


lemma translated_remove:
  assumes t: "translated rs M" and sub: "set ms \<subseteq> M" and inj: "inj_on fm_fake M"
  shows "translated (apply_script (remove_mappings ms) rs) {m \<in> M. fm_fake m \<notin> fm_fake ` set ms}"
proof -
  have "set (elements (apply_script (remove_mappings ms) rs) TABLE s) =
      (\<lambda>m. El_Addr (fm_fake m)) ` {m \<in> {m \<in> M. fm_fake m \<notin> fm_fake ` set ms}. fm_target m = t}"
    if ts: "(t, s) \<in> set FAKE_TARGET_SETS" for t s
  proof -
    have es: "set (elements rs TABLE s) = (\<lambda>m. El_Addr (fm_fake m)) ` {m \<in> M. fm_target m = t}"
      using t ts by (auto simp: translated_def)
    have same: "fm_fake m \<in> fm_fake ` {m \<in> set ms. fm_target m = t} \<longleftrightarrow> fm_fake m \<in> fm_fake ` set ms"
      if "m \<in> M" "fm_target m = t" for m
      using that sub inj unfolding image_iff by (metis (mono_tags, lifting) inj_onD mem_Collect_eq subsetD)
    have "{m \<in> {m \<in> M. fm_target m = t}. el_key (El_Addr (fm_fake m)) \<notin>
          set (map (\<lambda>m. El_Addr (fm_fake m)) (filter (\<lambda>m. fm_target m = t) ms))} =
        {m \<in> {m \<in> M. fm_fake m \<notin> fm_fake ` set ms}. fm_target m = t}" (is "?A = ?B")
    proof -
      have "m \<in> ?A \<longleftrightarrow> m \<in> ?B" for m using same[of m] by (auto simp: image_iff)
      then show ?thesis by blast
    qed
    then show ?thesis unfolding elements_removed(2)[OF ts] without_def set_filter es filter_image by simp
  qed
  moreover have "set (elements (apply_script (remove_mappings ms) rs) TABLE ''fake_to_real'') =
      (\<lambda>m. El_Map (fm_fake m) (fm_real m)) ` {m \<in> M. fm_fake m \<notin> fm_fake ` set ms}"
    using t unfolding elements_removed(1) without_def translated_def by (auto simp: image_iff)
  ultimately show ?thesis by (auto simp: translated_def)
qed

section \<open>The lease table as a set of mappings\<close>

lemma mappings_of_iff:
  "table_ok (leases s) \<Longrightarrow> m \<in> mappings_of s \<longleftrightarrow> (\<exists>k l. map_of (leases s) k = Some l \<and> mapping l = m)"
proof -
  assume t: "table_ok (leases s)"
  have "m \<in> mappings_of s \<longleftrightarrow> (\<exists>k l. (k, l) \<in> set (leases s) \<and> mapping l = m)"
    by (force simp: mappings_of_def)
  then show ?thesis by (simp add: lease_at[OF t])
qed

lemma mappings_inj: "table_ok (leases s) \<Longrightarrow> inj_on fm_fake (mappings_of s)"
  unfolding mappings_of_def table_ok_def distinct_map by (auto simp: inj_on_def fake_of_def)

lemma fakes_used: "store_ok rows s \<Longrightarrow> used s = fm_fake ` mappings_of s"
  by (simp add: store_ok_def mappings_of_def fake_of_def image_image)

lemma allocate_error: "allocate db clk d real t ttl s = (s', Inl e) \<Longrightarrow> leases s' = leases s"
  by (auto simp: allocate_def Let_def sql_def split: sum.splits option.splits if_splits)

lemma allocate_mappings:
  assumes a: "allocate db clk d real t ttl s = (s', Inr (m, new))" and ok: "store_ok rows s" and ok': "store_ok rows s'"
  shows "mappings_of s' = mappings_of s \<union> {m}" and "new \<or> m \<in> mappings_of s"
    and "new \<Longrightarrow> fm_fake m \<notin> fm_fake ` mappings_of s"
proof -
  note e = allocate_effect[OF a]
  have t: "table_ok (leases s)" "table_ok (leases s')" using ok ok' by (simp_all add: store_ok_def)
  obtain l where l: "map_of (leases s') (d, real) = Some l" "mapping l = m" using e(1) by blast
  show "new \<or> m \<in> mappings_of s" using e(4) t(1) by (auto simp: mappings_of_iff)
  show "new \<Longrightarrow> fm_fake m \<notin> fm_fake ` mappings_of s" using e(5) fakes_used[OF ok] by simp
  show "mappings_of s' = mappings_of s \<union> {m}"
  proof (rule set_eqI)
    fix x
    have "x \<in> mappings_of s' \<longleftrightarrow> (\<exists>k l. k \<noteq> (d, real) \<and> map_of (leases s) k = Some l \<and> mapping l = x) \<or> x = m"
      unfolding mappings_of_iff[OF t(2)] using e(2) l by (metis option.inject)
    also have "\<dots> \<longleftrightarrow> x \<in> mappings_of s \<or> x = m"
      unfolding mappings_of_iff[OF t(1)] using e(3,4) by (metis option.distinct(1) option.inject)
    finally show "x \<in> mappings_of s' \<longleftrightarrow> x \<in> mappings_of s \<union> {m}" by auto
  qed
qed

lemma removed_mappings:
  "store_remove_mappings db ms s = (s', Inr u) \<Longrightarrow> mappings_of s' = {m \<in> mappings_of s. fm_fake m \<notin> fm_fake ` set ms}"
  "store_remove_mappings db ms s = (s', Inl e) \<Longrightarrow> s' = s"
  by (auto simp: store_remove_mappings_def mappings_of_def Let_def image_iff split: sum.splits)

section \<open>Requests and clean-ups keep the translations\<close>

text \<open>The lease table agrees with its rows, and the kernel with the lease table.\<close>

definition synced :: "('c \<Rightarrow> fake_row set) \<Rightarrow> ('w \<Rightarrow> nft_command list) \<Rightarrow> ('c, 'w) fake_dns \<Rightarrow> bool" where
  "synced rows ruleset s \<longleftrightarrow> store_ok rows (fd_store s) \<and> translated (ruleset (dns_world s)) (mappings_of (fd_store s))"

definition rewriting :: "('c \<Rightarrow> fake_row set) \<Rightarrow> ('w \<Rightarrow> nft_command list) \<Rightarrow> fake_mapping set \<Rightarrow> nft_command list \<Rightarrow>
    ('c, 'w) fake_dns \<times> fake_mapping list \<Rightarrow> bool" where
  "rewriting rows ruleset M rs st \<longleftrightarrow> store_ok rows (fd_store (fst st)) \<and>
     mappings_of (fd_store (fst st)) = M \<union> set (snd st) \<and> fm_fake ` set (snd st) \<inter> fm_fake ` M = {} \<and>
     ruleset (dns_world (fst st)) = rs"


text \<open>An operation that failed, and whose clean-up failed too.\<close>

definition doubled :: "dns_error + 'a \<Rightarrow> bool" where
  "doubled r \<longleftrightarrow> (case r of Inl (Also_Failed _ _) \<Rightarrow> True | _ \<Rightarrow> False)"

lemma on_dns_pair: "on_dns op st = ((fst (op (fst st)), snd st), snd (op (fst st)))"
  by (cases st) (simp add: on_dns_def case_prod_unfold)

context dns_laws
begin

lemma clock_state: "read_clock E s = (s', r) \<Longrightarrow> fd_store s' = fd_store s \<and> ruleset (dns_world s') = ruleset (dns_world s)"
  by (auto simp: read_clock_def on_world_def observe_def clock_kept[THEN conjunct1, of "dns_world s", symmetric]
      split: prod.splits)

lemma rewriting_clock: "keeps (rewriting rows ruleset M rs) (on_dns (read_clock E))"
proof -
  have "fd_store (fst (read_clock E s)) = fd_store s \<and> ruleset (dns_world (fst (read_clock E s))) = ruleset (dns_world s)" for s
    using clock_state[of s] by (metis surj_pair fst_conv)
  then show ?thesis by (simp add: keeps_def rewriting_def on_dns_pair)
qed

text \<open>Between an allocation and the note of its mapping.\<close>

definition allocated :: "fake_mapping set \<Rightarrow> nft_command list \<Rightarrow> fake_mapping \<times> bool \<Rightarrow>
    ('c, 'w) fake_dns \<times> fake_mapping list \<Rightarrow> bool" where
  "allocated M rs x st \<longleftrightarrow> store_ok rows (fd_store (fst st)) \<and>
     mappings_of (fd_store (fst st)) = M \<union> set (snd st) \<union> {fst x} \<and>
     (if snd x then fm_fake (fst x) \<notin> fm_fake ` M else fst x \<in> M \<union> set (snd st)) \<and>
     fm_fake ` set (snd st) \<inter> fm_fake ` M = {} \<and> ruleset (dns_world (fst st)) = rs"

lemma rewriting_allocate:
  "triple (rewriting rows ruleset M rs) (on_dns (on_store (allocate (de_db E) clk d real t ttl)))
     (allocated M rs) (\<lambda>_. rewriting rows ruleset M rs)"
  unfolding triple_def
proof (intro allI impI)
  fix st assume J: "rewriting rows ruleset M rs st"
  have ok: "store_ok rows (fd_store (fst st))" using J by (simp add: rewriting_def)
  obtain s' r where a: "allocate (de_db E) clk d real t ttl (fd_store (fst st)) = (s', r)" by (metis surj_pair)
  have ok': "store_ok rows s'" using sql.allocate_ok[OF ok, of clk d real t ttl] a by simp
  have eq: "on_dns (on_store (allocate (de_db E) clk d real t ttl)) st =
      (((fst st)\<lparr>fd_store := s'\<rparr>, snd st), map_sum Store_Failed id r)"
    by (simp add: on_dns_pair on_store_def a)
  show "case on_dns (on_store (allocate (de_db E) clk d real t ttl)) st of
      (st', Inr x) \<Rightarrow> allocated M rs x st' | (st', Inl e) \<Rightarrow> rewriting rows ruleset M rs st'"
  proof (cases r)
    case (Inl e)
    then have "mappings_of s' = mappings_of (fd_store (fst st))" using allocate_error a by (metis mappings_of_def)
    then show ?thesis using J ok' Inl by (simp add: eq rewriting_def)
  next
    case (Inr x)
    obtain m new where x: "x = (m, new)" by (cases x)
    show ?thesis
      using J ok' allocate_mappings[OF a[unfolded Inr x] ok ok'] by (auto simp: eq Inr x rewriting_def allocated_def)
  qed
qed

lemma rewriting_push:
  "triple (allocated M rs (m, new)) (if new then push_mapping m else ret ())
     (\<lambda>_. rewriting rows ruleset M rs) (\<lambda>_. rewriting rows ruleset M rs)"
  by (auto simp: triple_def push_mapping_def ret_def allocated_def rewriting_def)

lemma rewriting_records: "keeps (rewriting rows ruleset M rs) (rewrite_records E domain p names lan records)"
proof (induction records)
  case (Cons r records)
  let ?J = "rewriting rows ruleset M rs"
  have rest: "keeps ?J (bnd (rewrite_records E domain p names lan records) (\<lambda>(rs', b). ret (f rs' b)))" for f
    using Cons by (auto intro!: wp)
  have lease: "keeps ?J (bnd (on_dns (read_clock E)) (\<lambda>clk.
      bnd (on_dns (on_store (allocate (de_db E) clk domain real t ttl))) (\<lambda>(m, new).
      bnd (if new then push_mapping m else ret ()) (\<lambda>_.
      bnd (rewrite_records E domain p names lan records) (\<lambda>(rs', b). ret (f m rs' b))))))" for real t ttl f
  proof (rule keeps_bnd[OF rewriting_clock], unfold keeps_triple, rule triple_bnd[OF rewriting_allocate])
    fix clk :: "nat option" and x :: "fake_mapping \<times> bool"
    obtain m new where x: "x = (m, new)" by (cases x)
    show "triple (allocated M rs x) (case x of (m, new) \<Rightarrow>
        bnd (if new then push_mapping m else ret ()) (\<lambda>_.
        bnd (rewrite_records E domain p names lan records) (\<lambda>(rs', b). ret (f m rs' b)))) (\<lambda>_. ?J) (\<lambda>_. ?J)"
      unfolding x case_prod_conv
      by (rule triple_bnd[OF rewriting_push]) (rule rest[unfolded keeps_triple])
  qed
  show ?case
    using rest[of "\<lambda>rs' b. (r # rs', b)"] lease by (auto split: record_data.split)
qed (simp add: keeps_ret)

lemma rewriting_install:
  assumes "translated rs M"
  shows "triple (rewriting rows ruleset M rs) (install_added E) (\<lambda>_ st. synced rows ruleset (fst st))
    (\<lambda>_. rewriting rows ruleset M rs)"
  unfolding triple_def
proof (intro allI impI)
  fix st assume J: "rewriting rows ruleset M rs st"
  obtain s added where st: "st = (s, added)" by (cases st)
  obtain w' r where n: "install_mappings (de_nft E) added (dns_world s) = (w', r)" by (metis surj_pair)
  have eq: "install_added E (s, added) = ((s\<lparr>dns_world := w'\<rparr>, added), map_sum Nft_Error id r)"
    by (simp add: install_added_def on_dns_pair on_world_def n)
  show "case install_added E st of (st', Inr _) \<Rightarrow> synced rows ruleset (fst st') | (st', Inl e) \<Rightarrow> rewriting rows ruleset M rs st'"
  proof (cases r)
    case (Inl e)
    then show ?thesis
      using J nft.run_nft_error[of "append_mappings added" "dns_world s" w' e] n
      by (simp add: eq install_mappings_def rewriting_def st)
  next
    case (Inr u)
    then have "ruleset w' = apply_script (append_mappings added) rs"
      using J nft.run_nft_ok[of "append_mappings added" "dns_world s" w' u] n
      by (simp add: install_mappings_def rewriting_def st)
    then show ?thesis
      using J translated_add[OF assms, of added] by (simp add: eq Inr synced_def rewriting_def st)
  qed
qed

lemma rewriting_sections:
  assumes "translated rs M"
  shows "triple (rewriting rows ruleset M rs) (rewrite_sections E m domain p lan)
    (\<lambda>_ st. synced rows ruleset (fst st)) (\<lambda>_. rewriting rows ruleset M rs)"
  unfolding rewrite_sections_def Let_def
  by (auto intro!: triple_bnd_keeps[OF rewriting_records] triple_bnd[OF rewriting_install[OF assms]] split: prod.split)
    (simp_all add: triple_def ret_def)

text \<open>The mappings that were there before the request, after those that came with it are taken back.\<close>

lemma rewriting_undone:
  assumes "rewriting rows ruleset M rs (s, added)" and "translated rs M"
    and "on_store (store_remove_mappings (de_db E) added) s = (s', Inr u)"
  shows "synced rows ruleset s'"
proof -
  obtain st where st: "store_remove_mappings (de_db E) added (fd_store s) = (st, Inr ())" "s' = s\<lparr>fd_store := st\<rparr>"
    using assms(3) by (auto simp: on_store_def split: prod.splits sum.splits) (metis (full_types) map_sum.simps(1) old.sum.exhaust old.unit.exhaust sum.distinct(1))
  have "mappings_of st = {m \<in> M \<union> set added. fm_fake m \<notin> fm_fake ` set added}"
    using removed_mappings(1)[OF st(1)] assms(1) by (simp add: rewriting_def)
  also have "\<dots> = M" using assms(1) by (auto simp: rewriting_def)
  finally show ?thesis
    using assms(1,2) st sql.remove_mappings_ok[of "fd_store s" added] by (simp add: synced_def rewriting_def)
qed

lemma rewrite_message_synced:
  assumes s: "synced rows ruleset s" and r: "rewrite_message E m domain p lan s = (s', r)"
    and single: "\<forall>e e'. r \<noteq> Inl (Also_Failed e e')"
  shows "synced rows ruleset s'"
proof (cases "store_poisoned s")
  case True
  then show ?thesis using s r by (simp add: rewrite_message_def with_store_def)
next
  case False
  let ?M = "mappings_of (fd_store s)" and ?rs = "ruleset (dns_world s)"
  have t: "translated ?rs ?M" and start: "rewriting rows ruleset ?M ?rs (s, [])"
    using s by (simp_all add: synced_def rewriting_def)
  obtain s1 added r1 where sec: "rewrite_sections E m domain p lan (s, []) = ((s1, added), r1)" by (metis surj_pair)
  show ?thesis
  proof (cases r1)
    case (Inr x)
    then have "synced rows ruleset s1" using tripleD_ok[OF rewriting_sections[OF t] start] sec by fastforce
    then show ?thesis using r False sec Inr by (simp add: rewrite_message_def with_store_def)
  next
    case (Inl e)
    then have J: "rewriting rows ruleset ?M ?rs (s1, added)"
      using tripleD_error[OF rewriting_sections[OF t] start] sec by fastforce
    show ?thesis
    proof (cases "added = []")
      case True
      then show ?thesis using r False sec Inl J t by (simp add: rewrite_message_def with_store_def synced_def rewriting_def)
    next
      case added: False
      obtain s2 r2 where undo: "on_store (store_remove_mappings (de_db E) added) s1 = (s2, r2)" by (metis surj_pair)
      show ?thesis
        using r False sec Inl added undo single rewriting_undone[OF J t] by (cases r2) (auto simp: rewrite_message_def with_store_def)
    qed
  qed
qed

lemma query_ruleset: "keeps (\<lambda>w. ruleset w = rs) (query_upstream_with_mark (de_sockets E) packet a m)"
proof -
  let ?K = "\<lambda>w. ruleset w = rs"
  note ops = keeps_io[where I = ?K]
  have sock: "keeps ?K (prepared_socket (de_sockets E) stream m a)" for stream
    unfolding prepared_socket_def marked_socket_def
    by (intro wp ops) (simp_all add: new_kept mark_kept timeout_kept connect_kept)
  have "keeps ?K (query_upstream_tcp (de_sockets E) packet m a)"
    unfolding query_upstream_tcp_def by (intro wp ops sock) (simp_all add: send_kept read_kept)
  then show ?thesis
    unfolding query_upstream_with_mark_def by (intro wp ops sock) (simp_all add: send_kept recv_kept)
qed

text \<open>Only an operation that fails twice loses the agreement.\<close>

definition syncs :: "('c, 'w, 'a) dns_op \<Rightarrow> bool" where
  "syncs op \<longleftrightarrow> (\<forall>s s' r. synced rows ruleset s \<longrightarrow> op s = (s', r) \<longrightarrow> \<not> doubled r \<longrightarrow> synced rows ruleset s')"

lemma syncs_bnd:
  assumes "syncs op" and "\<And>x. syncs (f x)"
  shows "syncs (bnd op f)"
  unfolding syncs_def
proof (intro allI impI)
  fix s s' r assume s: "synced rows ruleset s" "bnd op f s = (s', r)" "\<not> doubled r"
  obtain s1 r1 where op: "op s = (s1, r1)" by (metis surj_pair)
  show "synced rows ruleset s'"
  proof (cases r1)
    case (Inl e)
    then show ?thesis using assms(1) s op by (auto simp: syncs_def bnd_def doubled_def)
  next
    case (Inr x)
    then have "synced rows ruleset s1" using assms(1) s(1) op by (auto simp: syncs_def doubled_def)
    then show ?thesis using assms(2)[of x] s(2,3) op Inr by (auto simp: syncs_def bnd_def)
  qed
qed

lemma syncs_pure: "syncs (lift r)" "syncs (ret x)" "syncs (require b e)"
  by (auto simp: syncs_def lift_def ret_def require_def throw_def)

lemma syncs_world:
  assumes "\<And>rs. keeps (\<lambda>w. ruleset w = rs) m"
  shows "syncs (on_world e m)"
proof -
  have kept: "ruleset (fst (m w)) = ruleset w" for w using assms[of "ruleset w"] by (simp add: keeps_def)
  show ?thesis
    unfolding syncs_def
  proof (intro allI impI)
    fix s s' r assume s: "synced rows ruleset s" and eq: "on_world e m s = (s', r)"
    have "s' = s\<lparr>dns_world := fst (m (dns_world s))\<rparr>" using fst_on_world[of e m s] eq by simp
    then show "synced rows ruleset s'" using s by (simp add: synced_def kept)
  qed
qed

lemma syncs_rewrite: "syncs (rewrite_message E m domain p lan)"
  unfolding syncs_def
proof (intro allI impI)
  fix s s' r
  assume a: "synced rows ruleset s" "rewrite_message E m domain p lan s = (s', r)" "\<not> doubled r"
  show "synced rows ruleset s'" by (rule rewrite_message_synced[OF a(1,2)]) (use a(3) in \<open>auto simp: doubled_def\<close>)
qed

lemma syncs_response: "syncs (rewrite_response E m domain p lan)"
proof -
  have "syncs (if b then rewrite_message E m domain p lan else ret (m, False))" for b
    by (simp add: syncs_rewrite syncs_pure)
  then have "syncs (bnd (if b then rewrite_message E m domain p lan else ret (m, False))
      (\<lambda>x. ret (finish_response (de_lib E) c x)))" for b c
    by (rule syncs_bnd) (rule syncs_pure)
  then show ?thesis unfolding syncs_def rewrite_response_def Let_def by blast
qed

lemma syncs_process: "syncs (process E packet p upstream lan)"
proof -
  have f: "syncs (forward_query E packet request domain route p lan)" for request domain route
    unfolding forward_query_def by (intro syncs_bnd syncs_pure syncs_response syncs_world query_ruleset)
  show ?thesis
    using f unfolding syncs_def process_def Let_def by (auto split: option.splits list.splits if_splits)
qed

lemma expired_mappings: "map_sum Store_Failed id (expired clk s) = Inr gone \<Longrightarrow> set gone \<subseteq> mappings_of s"
  by (cases "unix_time clk") (auto simp: expired_def expired_at_def mappings_of_def Let_def)

text \<open>The store fails after the kernel forgot the leases: they are put back into the kernel.\<close>

lemma translated_back:
  assumes "translated rs {m \<in> M. fm_fake m \<notin> fm_fake ` set gone}" and "set gone \<subseteq> M" and "inj_on fm_fake M"
  shows "translated (apply_script (append_mappings gone) rs) M"
proof -
  have "{m \<in> M. fm_fake m \<notin> fm_fake ` set gone} \<union> set gone = M" using assms(2,3) by (auto dest: inj_onD)
  then show ?thesis using translated_add[OF assms(1), of gone] by simp
qed

lemma forget_leases_synced:
  assumes s: "synced rows ruleset s" and sub: "set gone \<subseteq> mappings_of (fd_store s)" and ne: "gone \<noteq> []"
    and r: "forget_leases E gone s = (s', r)" and d: "\<not> doubled r"
  shows "synced rows ruleset s'"
proof -
  let ?M = "mappings_of (fd_store s)"
  have ok: "store_ok rows (fd_store s)" and t: "translated (ruleset (dns_world s)) ?M" using s by (simp_all add: synced_def)
  have inj: "inj_on fm_fake ?M" using ok mappings_inj by (auto simp: store_ok_def)
  note simps = forget_leases_def bnd_def on_world_def on_store_def delete_mappings_def synced_def
  obtain w1 r1 where del: "run_nft (de_nft E) (remove_mappings gone) (dns_world s) = (w1, r1)" by (metis surj_pair)
  obtain st r2 where rem: "store_remove_mappings (de_db E) gone (fd_store s) = (st, r2)" by (metis surj_pair)
  obtain w2 r3 where ins: "install_mappings (de_nft E) gone w1 = (w2, r3)" by (metis surj_pair)
  show ?thesis
  proof (cases r1)
    case (Inl e)
    then show ?thesis
      using r s ne del nft.run_nft_error[of "remove_mappings gone" "dns_world s" w1 e] by (auto simp: simps)
  next
    case r1: (Inr u)
    have t1: "translated (ruleset w1) {m \<in> ?M. fm_fake m \<notin> fm_fake ` set gone}"
      using nft.run_nft_ok[OF del[unfolded r1]] translated_remove[OF t sub inj] by simp
    show ?thesis
    proof (cases r2)
      case (Inr u')
      then show ?thesis
        using r ne del r1 rem t1 removed_mappings(1)[OF rem[unfolded Inr]] sql.remove_mappings_ok[OF ok, of gone]
        by (auto simp: simps)
    next
      case r2: (Inl e)
      have st: "st = fd_store s" using removed_mappings(2) rem r2 by blast
      show ?thesis
      proof (cases r3)
        case (Inl e')
        then show ?thesis using r d ne del r1 rem r2 ins by (auto simp: simps doubled_def)
      next
        case r3: (Inr u'')
        have "translated (ruleset w2) ?M"
          using nft.run_nft_ok[OF ins[unfolded r3 install_mappings_def]] translated_back[OF t1 sub inj] by simp
        then show ?thesis using r ne del r1 rem r2 ins r3 ok st by (auto simp: simps)
      qed
    qed
  qed
qed

lemma syncs_purge: "syncs (purge_expired E)"
proof -
  have clock: "syncs (read_clock E)"
    using clock_state unfolding syncs_def synced_def by auto
  have forget: "syncs (bnd (\<lambda>s. (s, map_sum Store_Failed id (expired clk (fd_store s))))
      (\<lambda>gone. if gone = [] then ret 0 else forget_leases E gone))" for clk
    unfolding syncs_def
  proof (intro allI impI)
    fix s s' r
    assume s: "synced rows ruleset s" and d: "\<not> doubled r"
      and r: "bnd (\<lambda>s. (s, map_sum Store_Failed id (expired clk (fd_store s))))
        (\<lambda>gone. if gone = [] then ret 0 else forget_leases E gone) s = (s', r)"
    show "synced rows ruleset s'"
    proof (cases "map_sum Store_Failed id (expired clk (fd_store s))")
      case (Inl e)
      then show ?thesis using s r by (simp add: bnd_def)
    next
      case (Inr gone)
      then show ?thesis
        using s r d forget_leases_synced[OF s expired_mappings[OF Inr]] by (cases "gone = []") (auto simp: bnd_def ret_def)
    qed
  qed
  have "syncs (purge_locked E)" unfolding purge_locked_def by (rule syncs_bnd[OF clock forget])
  then show ?thesis unfolding syncs_def purge_expired_def with_store_def by (auto split: if_splits)
qed

end


text \<open>The work of the resolver in the order in which it takes the locks; it goes on after every error but a
  clean-up that failed.\<close>

datatype 'r dns_event = Ask bytes "'r policy" socket_addr lan_context | Clean_Up

fun dns_step :: "('c, 'w) dns_env \<Rightarrow> 'r dns_event \<Rightarrow> ('c, 'w) fake_dns \<Rightarrow> ('c, 'w) fake_dns \<times> bool" where
  "dns_step E (Ask packet p upstream lan) s = (case process E packet p upstream lan s of (s', r) \<Rightarrow> (s', doubled r))"
| "dns_step E Clean_Up s = (case purge_expired E s of (s', r) \<Rightarrow> (s', doubled r))"

primrec dns_run :: "('c, 'w) dns_env \<Rightarrow> 'r dns_event list \<Rightarrow> ('c, 'w) fake_dns \<Rightarrow> ('c, 'w) fake_dns \<times> bool" where
  "dns_run E [] s = (s, False)"
| "dns_run E (ev # evs) s = (case dns_step E ev s of (s', b) \<Rightarrow> if b then (s', True) else dns_run E evs s')"

context dns_laws
begin

lemma dns_step_synced: "synced rows ruleset s \<Longrightarrow> dns_step E ev s = (s', False) \<Longrightarrow> synced rows ruleset s'"
proof (cases ev)
  case (Ask packet p upstream lan)
  then show "synced rows ruleset s \<Longrightarrow> dns_step E ev s = (s', False) \<Longrightarrow> synced rows ruleset s'"
    using syncs_process[of packet p upstream lan] by (auto simp: syncs_def split: prod.splits)
next
  case Clean_Up
  then show "synced rows ruleset s \<Longrightarrow> dns_step E ev s = (s', False) \<Longrightarrow> synced rows ruleset s'"
    using syncs_purge by (auto simp: syncs_def split: prod.splits)
qed

lemma dns_run_synced: "synced rows ruleset s \<Longrightarrow> dns_run E evs s = (s', False) \<Longrightarrow> synced rows ruleset s'"
  by (induction evs arbitrary: s) (auto split: prod.splits if_splits dest: dns_step_synced)

end

text \<open>C4: The translations in the kernel are those of the lease table, through any sequence of requests and
  clean-ups: every leased address is in the map with its real address and in the set of its target, and
  nothing else is. Failures of SQLite, of \<^verbatim>\<open>nft\<close> and of the upstream in between do not change that, as long
  as no rollback of such a failure fails too, which the resolver reports as such.\<close>

theorem kernel_translates_the_leases:
  assumes "dns_laws E ruleset mark_of peer_of sent rows" and "synced rows ruleset s"
    and "dns_run E evs s = (s', False)"
  shows "synced rows ruleset s'"
  using dns_laws.dns_run_synced[OF assms] .

section \<open>Answers\<close>

definition answered :: "config_env \<Rightarrow> string \<Rightarrow> ipnet \<Rightarrow> string set \<Rightarrow> lan_context \<Rightarrow> 'c store \<Rightarrow> dns_record \<Rightarrow> dns_record \<Rightarrow> bool" where
  "answered C domain N names lan st r r' \<longleftrightarrow>
     (case rr_data r of
        A_Data real \<Rightarrow>
          if query_domain C (rr_name r) \<in> names \<and> \<not> on_link N lan real
          then (case map_of (leases st) (domain, real) of
                  None \<Rightarrow> False
                | Some l \<Rightarrow> r' = r\<lparr>rr_ttl := lease_ttl (rr_ttl r), rr_data := A_Data (fm_fake (mapping l))\<rparr>)
          else r' = r
      | _ \<Rightarrow> r' = r)"

definition grown :: "'c store \<Rightarrow> 'c store \<Rightarrow> bool" where
  "grown st st' \<longleftrightarrow> (\<forall>k l. map_of (leases st) k = Some l \<longrightarrow>
     (\<exists>l'. map_of (leases st') k = Some l' \<and> mapping l' = mapping l))"

lemma grown_refl: "grown st st" and grown_trans: "grown st st' \<Longrightarrow> grown st' st'' \<Longrightarrow> grown st st''"
  unfolding grown_def by (blast, metis)

lemma grown_allocate: "allocate db clk d real t ttl st = (st', Inr (m, new)) \<Longrightarrow> grown st st'"
  unfolding grown_def using allocate_effect by (metis option.distinct(1) option.inject)

lemma answered_grown:
  "answered C domain N names lan st r r' \<Longrightarrow> grown st st' \<Longrightarrow> answered C domain N names lan st' r r'"
  by (auto simp: answered_def grown_def split: record_data.splits option.splits if_splits) (metis option.inject option.distinct(1))+

lemma rewrite_records_answered:
  "rewrite_records E domain p names lan rs (s, added) = ((s', added'), Inr (rs', b)) \<Longrightarrow>
     list_all2 (answered (de_config E) domain (pol_net p) names lan (fd_store s')) rs rs' \<and> grown (fd_store s) (fd_store s')"
proof (induction rs arbitrary: s added rs' b)
  case Nil
  then show ?case by (simp add: ret_def grown_refl)
next
  case (Cons r rs)
  show ?case
  proof (cases "\<exists>real. rr_data r = A_Data real \<and> query_domain (de_config E) (rr_name r) \<in> names \<and> \<not> on_link (pol_net p) lan real")
    case False
    then have "bnd (rewrite_records E domain p names lan rs) (\<lambda>(rs', b). ret (r # rs', b)) (s, added) = ((s', added'), Inr (rs', b))"
      using Cons.prems by (auto split: record_data.splits if_splits)
    then obtain rs1 b1 where "rewrite_records E domain p names lan rs (s, added) = ((s', added'), Inr (rs1, b1))" "rs' = r # rs1"
      by (auto simp: bnd_Inr ret_def)
    moreover have "answered (de_config E) domain (pol_net p) names lan (fd_store s') r r"
      using False by (auto simp: answered_def split: record_data.split)
    ultimately show ?thesis using Cons.IH by auto
  next
    case True
    then obtain real where A: "rr_data r = A_Data real" "query_domain (de_config E) (rr_name r) \<in> names" "\<not> on_link (pol_net p) lan real"
      by blast
    let ?alloc = "\<lambda>clk. allocate (de_db E) clk domain real (Routing.target p domain real) (lease_ttl (rr_ttl r))"
    have "bnd (on_dns (read_clock E)) (\<lambda>clk. bnd (on_dns (on_store (?alloc clk))) (\<lambda>(m, new).
        bnd (if new then push_mapping m else ret ()) (\<lambda>_. bnd (rewrite_records E domain p names lan rs) (\<lambda>(rs', _).
        ret (r\<lparr>rr_ttl := lease_ttl (rr_ttl r), rr_data := A_Data (fm_fake m)\<rparr> # rs', True))))) (s, added) =
        ((s', added'), Inr (rs', b))"
      using Cons.prems A by simp
    then obtain st1 clk st2 x st3 y where
      c: "on_dns (read_clock E) (s, added) = (st1, Inr clk)" and a: "on_dns (on_store (?alloc clk)) st1 = (st2, Inr x)" and
      q: "(if snd x then push_mapping (fst x) else ret ()) st2 = (st3, Inr ())" and
      rest1: "rewrite_records E domain p names lan rs st3 = ((s', added'), Inr y)" and
      rs1: "rs' = r\<lparr>rr_ttl := lease_ttl (rr_ttl r), rr_data := A_Data (fm_fake (fst x))\<rparr> # fst y"
      by (auto simp: bnd_Inr case_prod_unfold ret_def)
    obtain m new where x: "x = (m, new)" by (cases x)
    define s2 where "s2 = fst st2"
    define rs1 where "rs1 = fst y"
    have rs': "rs' = r\<lparr>rr_ttl := lease_ttl (rr_ttl r), rr_data := A_Data (fm_fake m)\<rparr> # rs1"
      using \<open>rs' = _\<close> by (simp add: x rs1_def)
    have st: "fd_store (fst st1) = fd_store s"
      using c by (auto simp: on_dns_pair read_clock_def fst_on_world dest: arg_cong[where f = "\<lambda>z. fd_store (fst (fst z))"])
    have al: "?alloc clk (fd_store s) = (fd_store s2, Inr (m, new))"
      using a unfolding on_dns_pair on_store_def st x s2_def
      by (cases "?alloc clk (fd_store s)"; cases "snd (?alloc clk (fd_store s))") auto
    have "fst st3 = s2" using q by (auto simp: push_mapping_def ret_def s2_def split: if_splits prod.splits)
    then have rest: "rewrite_records E domain p names lan rs (s2, snd st3) = ((s', added'), Inr (rs1, snd y))"
      using rest1 by (simp add: rs1_def prod_eq_iff[symmetric] flip: \<open>fst st3 = s2\<close>)
    have ih: "list_all2 (answered (de_config E) domain (pol_net p) names lan (fd_store s')) rs rs1 \<and> grown (fd_store s2) (fd_store s')"
      by (rule Cons.IH[OF rest])
    have "answered (de_config E) domain (pol_net p) names lan (fd_store s2) r (r\<lparr>rr_ttl := lease_ttl (rr_ttl r), rr_data := A_Data (fm_fake m)\<rparr>)"
      using A allocate_effect(1)[OF al] by (auto simp: answered_def)
    then show ?thesis
      using ih answered_grown grown_trans[OF grown_allocate[OF al]] by (auto simp: rs')
  qed
qed


lemma rewrite_message_answered:
  assumes "rewrite_message E m domain p lan s = (s', Inr (m', b))"
  shows "list_all2 (answered (de_config E) domain (pol_net p) (relevant_names (de_config E) (msg_answers m) domain) lan
      (fd_store s')) (msg_answers m) (msg_answers m')"
    and "list_all2 (answered (de_config E) domain (pol_net p) (relevant_names (de_config E) (msg_answers m) domain) lan
      (fd_store s')) (msg_additionals m) (msg_additionals m')"
proof -
  let ?names = "relevant_names (de_config E) (msg_answers m) domain"
  obtain added mb where sec: "rewrite_sections E m domain p lan (s, []) = ((s', added), Inr mb)" and mb: "fst mb = m'"
    using assms by (auto simp: rewrite_message_def with_store_def split: prod.splits sum.splits if_splits)
  from sec obtain st1 x st2 y u where
    a: "rewrite_records E domain p ?names lan (msg_answers m) (s, []) = (st1, Inr x)" and
    b: "rewrite_records E domain p ?names lan (msg_additionals m) st1 = (st2, Inr y)" and
    i: "install_added E st2 = ((s', added), Inr u)" and
    "mb = (m\<lparr>msg_answers := fst x, msg_additionals := fst y\<rparr>, snd x \<or> snd y)"
    unfolding rewrite_sections_def Let_def bnd_Inr ret_def case_prod_unfold prod.inject sum.inject by blast
  then have m': "msg_answers m' = fst x" "msg_additionals m' = fst y" using mb by auto
  have st: "fd_store (fst st2) = fd_store s'"
    using arg_cong[OF i, of "\<lambda>z. fd_store (fst (fst z))"]
    by (simp add: install_added_def on_dns_pair fst_on_world case_prod_unfold)
  obtain s1 a1 s2 a2 where p: "st1 = (s1, a1)" "st2 = (s2, a2)" by (metis surj_pair)
  obtain xs c ys d where xy: "x = (xs, c)" "y = (ys, d)" by (metis surj_pair)
  note first = rewrite_records_answered[OF a[unfolded p xy]]
  note second = rewrite_records_answered[OF b[unfolded p xy]]
  have "fd_store s2 = fd_store s'" using st p by simp
  then show "list_all2 (answered (de_config E) domain (pol_net p) ?names lan (fd_store s')) (msg_answers m) (msg_answers m')"
    "list_all2 (answered (de_config E) domain (pol_net p) ?names lan (fd_store s')) (msg_additionals m) (msg_additionals m')"
    using first second answered_grown m' xy by (auto elim!: list_all2_mono)
qed

text \<open>C11: A rewritten answer leads back to what the upstream said: in the answer that the resolver gives, each
  address record of a name that belongs to the question, for an address that is not on the local links,
  carries the fake address that is leased to the name that was asked for and the real address; all other
  records are as they came. And each address leased to the name lies in the pool and is one that the kernel
  translates to its real address.\<close>

theorem answers_translate_back:
  assumes "dns_laws E ruleset mark_of peer_of sent rows" and "synced rows ruleset s"
    and "rewrite_message E m domain p lan s = (s', Inr (m', b))"
  shows "list_all2 (answered (de_config E) domain (pol_net p) (relevant_names (de_config E) (msg_answers m) domain) lan
      (fd_store s')) (msg_answers m @ msg_additionals m) (msg_answers m' @ msg_additionals m') \<and>
    (\<forall>real l. map_of (leases (fd_store s')) (domain, real) = Some l \<longrightarrow> in_pool (fm_fake (mapping l)) \<and>
      El_Map (fm_fake (mapping l)) real \<in> set (elements (ruleset (dns_world s')) TABLE ''fake_to_real''))"
proof -
  have sync: "synced rows ruleset s'" using dns_laws.rewrite_message_synced[OF assms] by simp
  then have t: "table_ok (leases (fd_store s'))" by (simp add: synced_def store_ok_def)
  have "in_pool (fm_fake (mapping l)) \<and>
      El_Map (fm_fake (mapping l)) real \<in> set (elements (ruleset (dns_world s')) TABLE ''fake_to_real'')"
    if l: "map_of (leases (fd_store s')) (domain, real) = Some l" for real l
  proof -
    have e: "((domain, real), l) \<in> set (leases (fd_store s'))" using map_of_SomeD[OF l] .
    then have "in_pool (fm_fake (mapping l))" "fm_real (mapping l) = real"
      using t by (auto simp: table_ok_def fake_of_def)
    moreover have "mapping l \<in> mappings_of (fd_store s')" using e by (force simp: mappings_of_def)
    ultimately show ?thesis using sync by (auto simp: synced_def translated_def)
  qed
  then show ?thesis using rewrite_message_answered[OF assms(3)] by (simp add: list_all2_appendI)
qed

end
