(* ===== verification/Network.thy ===== *)
theory Network
  imports Onboarding Config
begin

text \<open>
  How the agent drives the network of the router (\<^verbatim>\<open>gofro-agent/src/network.rs\<close>): the lock over every change,
  the relay and the tunnel with their rollbacks, and the snapshot that a failed change of the network is taken
  back with. Commands and files belong to the machine, a record over its state \<open>'w\<close>;
  what is assumed of them is said in \<open>Network_Safety\<close> (locale \<open>relay_laws\<close>) and \<open>Controller_View\<close> (\<open>control_laws\<close>).
\<close>

section \<open>The machine\<close>

text \<open>\<^verbatim>\<open>symlink_metadata\<close>; the inode with its device is one number.\<close>

record node_meta =
  nm_dir :: bool
  nm_file :: bool
  nm_symlink :: bool
  nm_mode :: u32
  nm_links :: nat
  nm_uid :: nat
  nm_inode :: nat
  nm_len :: nat

text \<open>A command that ran: whether it succeeded, and its output, \<open>None\<close> where that is not UTF-8.\<close>

datatype command_end = Not_Run | Exited bool "string option"

datatype create_end = Created | Already_There | Not_Created

text \<open>The machine has, beside the host, a counter for temporary names, hard links, directories (an entry that
cannot be read is \<open>None\<close>) and opened files with their metadata.\<close>

datatype lock_end = Locked | Would_Block | Lock_Failed

record 'w machine =
  mc_host :: "'w host"
  mc_pid :: nat
  mc_lstat :: "string \<Rightarrow> 'w \<Rightarrow> 'w \<times> node_meta io"
  mc_chmod :: "string \<Rightarrow> nat \<Rightarrow> 'w \<Rightarrow> 'w \<times> unit io"
  mc_fetch_add :: "'w \<Rightarrow> 'w \<times> nat"
  mc_mkdir_all :: "string \<Rightarrow> nat \<Rightarrow> 'w \<Rightarrow> 'w \<times> unit io"
  mc_link :: "string \<Rightarrow> string \<Rightarrow> 'w \<Rightarrow> 'w \<times> create_end"
  mc_read_dir :: "string \<Rightarrow> 'w \<Rightarrow> 'w \<times> string option list io"
  mc_open_file :: "string \<Rightarrow> 'w \<Rightarrow> 'w \<times> (node_meta \<times> bytes) io"
  mc_create_lock :: "string \<Rightarrow> 'w \<Rightarrow> 'w \<times> create_end"
  mc_open_lock :: "string \<Rightarrow> 'w \<Rightarrow> 'w \<times> unit io"
  mc_try_lock :: "string \<Rightarrow> 'w \<Rightarrow> 'w \<times> lock_end"
  mc_command :: "string list \<Rightarrow> string option \<Rightarrow> 'w \<Rightarrow> 'w \<times> command_end"

datatype network_error =
    Path_Error | Lock_Inspect | Unsafe_Lock_Directory | Unsafe_Lock_Ancestor | Unsafe_Lock_File
  | Lock_Create | Lock_Busy | Lock_Acquire
  | File_Error | Command_Error "string list"
  | Bad_Address_Output | Bad_Mtu | Bad_Server config_error
  | Undo_Failed network_error "network_error list"

type_synonym ('w, 'a) net_op = "(network_error, 'w, 'a) operation"

definition run_command :: "'w machine \<Rightarrow> string list \<Rightarrow> ('w, string) net_op" where
  "run_command M args w =
     (case mc_command M args None w of
        (w', Exited True (Some out)) \<Rightarrow> (w', Inr out)
      | (w', _) \<Rightarrow> (w', Inl (Command_Error args)))"

text \<open>\<^verbatim>\<open>status().success()\<close>: a command that fails is an answer.\<close>

definition command_status :: "'w machine \<Rightarrow> string list \<Rightarrow> ('w, bool) net_op" where
  "command_status M args w =
     (case mc_command M args None w of
        (w', Exited ok _) \<Rightarrow> (w', Inr ok)
      | (w', Not_Run) \<Rightarrow> (w', Inl (Command_Error args)))"

definition command_with_input :: "'w machine \<Rightarrow> string list \<Rightarrow> string \<Rightarrow> ('w, unit) net_op" where
  "command_with_input M args text w =
     (case mc_command M args (Some text) w of
        (w', Exited True _) \<Rightarrow> (w', Inr ())
      | (w', _) \<Rightarrow> (w', Inl (Command_Error args)))"

definition run_quietly :: "'w machine \<Rightarrow> string list \<Rightarrow> ('w, unit) net_op" where
  "run_quietly M args = bnd (run_command M args) (\<lambda>_. ret ())"

text \<open>A body whose failure runs every rollback, and reports those that fail too.\<close>

primrec undo_all :: "('w, unit) net_op list \<Rightarrow> 'w \<Rightarrow> 'w \<times> network_error list" where
  "undo_all [] w = (w, [])"
| "undo_all (r # rs) w =
     (case r w of
        (w', Inr _) \<Rightarrow> undo_all rs w'
      | (w', Inl e) \<Rightarrow> (case undo_all rs w' of (w'', es) \<Rightarrow> (w'', e # es)))"

definition or_undo :: "('w, unit) net_op \<Rightarrow> ('w, unit) net_op list \<Rightarrow> ('w, unit) net_op" where
  "or_undo body rollbacks w =
     (case body w of
        (w', Inr u) \<Rightarrow> (w', Inr u)
      | (w', Inl e) \<Rightarrow>
          (case undo_all rollbacks w' of
             (w'', []) \<Rightarrow> (w'', Inl e)
           | (w'', es) \<Rightarrow> (w'', Inl (Undo_Failed e es))))"

section \<open>The lock over changes\<close>

function ancestors :: "string \<Rightarrow> string list" where
  "ancestors p = p # (case path_parent p of None \<Rightarrow> [] | Some d \<Rightarrow> ancestors d)"
  by pat_completeness auto

lemma path_parent_shorter: "path_parent p = Some d \<Longrightarrow> length d < length p"
proof -
  assume a: "path_parent p = Some d"
  have "length (fst (path_split p)) + length (snd (path_split p)) = length p"
    by (auto simp: path_split_def rsplit_once_def split_once_Some dest: arg_cong[where f = length] split: option.splits)
  then show "length d < length p"
    using a by (auto simp: path_parent_def length_greater_0_conv[symmetric] simp del: length_greater_0_conv
        split: prod.splits if_splits)
qed

termination ancestors
  by (relation "measure length") (auto intro: path_parent_shorter)

declare ancestors.simps [simp del]

definition safe_ancestor :: "'w machine \<Rightarrow> string \<Rightarrow> ('w, unit) net_op" where
  "safe_ancestor M p =
     bnd (io Lock_Inspect (mc_lstat M p)) (\<lambda>m.
     require (nm_dir m \<and> nm_uid m = 0 \<and> nm_mode m AND 18 = 0) Unsafe_Lock_Ancestor)"

definition lock_apply_path :: "'w machine \<Rightarrow> string \<Rightarrow> ('w, unit) net_op" where
  "lock_apply_path M config_path =
     bnd (lift (ok_or (path_parent config_path) Path_Error)) (\<lambda>parent.
     bnd (io Lock_Inspect (mc_lstat M parent)) (\<lambda>directory.
     bnd (require (nm_dir directory \<and> nm_mode directory AND 18 = 0) Unsafe_Lock_Directory) (\<lambda>_.
     bnd (each (safe_ancestor M) (ancestors parent)) (\<lambda>_.
     let path = path_join parent ''apply.lock'' in
     bnd (observe (mc_create_lock M path)) (\<lambda>made.
     bnd (case made of
            Created \<Rightarrow> ret ()
          | Already_There \<Rightarrow>
              bnd (io Lock_Inspect (mc_lstat M path)) (\<lambda>m.
              bnd (require (nm_file m \<and> nm_links m = 1 \<and> nm_mode m AND 0xfff = 0x180 \<and> nm_uid m = nm_uid directory)
                     Unsafe_Lock_File) (\<lambda>_.
              io Lock_Create (mc_open_lock M path)))
          | Not_Created \<Rightarrow> throw Lock_Create) (\<lambda>_.
     bnd (observe (mc_try_lock M path)) (\<lambda>l.
     case l of
       Locked \<Rightarrow> ret ()
     | Would_Block \<Rightarrow> throw Lock_Busy
     | Lock_Failed \<Rightarrow> throw Lock_Acquire)))))))"

section \<open>Files\<close>

definition RELAY_ENDPOINT_PATH :: string where "RELAY_ENDPOINT_PATH = ''/etc/gofro/relay-endpoint''"
definition RELAY_SERVICE :: string where "RELAY_SERVICE = ''gofro-relay''"
definition RELAY_LOCAL_ENDPOINT :: string where "RELAY_LOCAL_ENDPOINT = ''127.0.0.1:51822''"
definition SERVICE_COMMAND :: string where "SERVICE_COMMAND = ''/usr/libexec/gofro/service''"
definition TUNNEL_COMMAND :: string where "TUNNEL_COMMAND = ''/usr/libexec/gofro/tunnel''"
definition LEGACY_TUNNEL_ADDRESS :: string where "LEGACY_TUNNEL_ADDRESS = ''10.202.0.2/32''"
definition DEVICE_PRIVATE_KEY :: string where "DEVICE_PRIVATE_KEY = ''/etc/wireguard/client.key''"

definition read_optional :: "'w machine \<Rightarrow> string \<Rightarrow> ('w, bytes option) net_op" where
  "read_optional M path = bnd (io_opt File_Error (host_open (mc_host M) path)) (\<lambda>f. ret (map_option snd f))"

definition remove_file :: "'w machine \<Rightarrow> string \<Rightarrow> ('w, unit) net_op" where
  "remove_file M path = bnd (io_opt File_Error (host_remove (mc_host M) path)) (\<lambda>_. ret ())"

definition restore_file :: "'w machine \<Rightarrow> string \<Rightarrow> bytes option \<Rightarrow> ('w, unit) net_op" where
  "restore_file M path contents =
     (case contents of
        Some c \<Rightarrow>
          (let temporary = with_extension path ''restore.tmp'' in
           bnd (io File_Error (host_truncate (mc_host M) temporary)) (\<lambda>_.
           bnd (io File_Error (host_append (mc_host M) temporary c)) (\<lambda>_.
           io File_Error (host_rename (mc_host M) temporary path))))
      | None \<Rightarrow> remove_file M path)"

definition write_relay_endpoint :: "'w machine \<Rightarrow> bytes \<Rightarrow> ('w, unit) net_op" where
  "write_relay_endpoint M endpoint = restore_file M RELAY_ENDPOINT_PATH (Some endpoint)"

definition tunnel_config :: "string \<Rightarrow> string" where
  "tunnel_config interface = ''/etc/wireguard/'' @ interface @ ''.conf''"

section \<open>The tunnel\<close>

definition set_tunnel :: "'w machine \<Rightarrow> string \<Rightarrow> string \<Rightarrow> ('w, unit) net_op" where
  "set_tunnel M interface action = run_quietly M [TUNNEL_COMMAND, action, interface]"

definition stop_tunnel :: "'w machine \<Rightarrow> string \<Rightarrow> ('w, unit) net_op" where
  "stop_tunnel M interface = set_tunnel M interface ''stop''"

definition service_active :: "'w machine \<Rightarrow> string \<Rightarrow> ('w, bool) net_op" where
  "service_active M interface = command_status M [TUNNEL_COMMAND, ''status'', interface]"

definition set_private_key :: "'w machine \<Rightarrow> string \<Rightarrow> string option \<Rightarrow> ('w, unit) net_op" where
  "set_private_key M interface private_key =
     (case private_key of
        Some k \<Rightarrow> command_with_input M [''wg'', ''set'', interface, ''private-key'', ''/dev/stdin''] (k @ [CHR 0x0A])
      | None \<Rightarrow> run_quietly M [''wg'', ''set'', interface, ''private-key'', DEVICE_PRIVATE_KEY])"

definition address_field :: "string \<Rightarrow> string option" where
  "address_field line =
     (case dropWhile (\<lambda>f. f \<noteq> ''inet'') (split_whitespace line) of _ # a # _ \<Rightarrow> Some a | _ \<Rightarrow> None)"

definition tunnel_addresses :: "'w machine \<Rightarrow> string \<Rightarrow> ('w, string list) net_op" where
  "tunnel_addresses M interface =
     bnd (run_command M [''ip'', ''-o'', ''-4'', ''address'', ''show'', ''dev'', interface, ''scope'', ''global''])
       (\<lambda>output. lift (ok_or (those (map address_field (lines output))) Bad_Address_Output))"

definition replace_tunnel_addresses :: "'w machine \<Rightarrow> string \<Rightarrow> string list \<Rightarrow> ('w, unit) net_op" where
  "replace_tunnel_addresses M interface addresses =
     bnd (run_quietly M [''ip'', ''-4'', ''address'', ''flush'', ''dev'', interface, ''scope'', ''global'']) (\<lambda>_.
     each (\<lambda>a. run_quietly M [''ip'', ''-4'', ''address'', ''add'', a, ''dev'', interface]) addresses)"

definition next_tunnel_addresses :: "string option \<Rightarrow> string list \<Rightarrow> string list" where
  "next_tunnel_addresses wanted previous =
     (case wanted of
        Some a \<Rightarrow> [a]
      | None \<Rightarrow> if previous = [] then [LEGACY_TUNNEL_ADDRESS] else previous)"

definition parse_tunnel_mtu :: "string \<Rightarrow> network_error + nat" where
  "parse_tunnel_mtu value =
     and_then (ok_or (parse_uint 65536 value) Bad_Mtu) (\<lambda>mtu.
     and_then (ensure (digits mtu = value \<and> unat MIN_TUNNEL_MTU \<le> mtu \<and> mtu \<le> unat TUNNEL_MTU) Bad_Mtu) (\<lambda>_. Inr mtu))"

definition configured_tunnel_mtu :: "'w machine \<Rightarrow> string \<Rightarrow> ('w, nat) net_op" where
  "configured_tunnel_mtu M interface =
     bnd (run_command M [''uci'', ''-q'', ''get'', ''network.'' @ interface @ ''.mtu'']) (\<lambda>value.
     lift (parse_tunnel_mtu (trim value)))"

definition set_peer_body :: "'w machine \<Rightarrow> string \<Rightarrow> server_profile \<Rightarrow> string \<Rightarrow> string list option \<Rightarrow> ('w, unit) net_op" where
  "set_peer_body M interface server ps changed =
     bnd (set_private_key M interface (client_private_key server)) (\<lambda>_.
     bnd (run_quietly M [''wg'', ''set'', interface, ''peer'', sp_public_key server, ''endpoint'', RELAY_LOCAL_ENDPOINT,
            ''allowed-ips'', ''0.0.0.0/0'', ''persistent-keepalive'', ''10'']) (\<lambda>_.
     bnd (each (\<lambda>p. run_quietly M [''wg'', ''set'', interface, ''peer'', p, ''remove''])
            (filter (\<lambda>p. p \<noteq> sp_public_key server) (split_whitespace ps))) (\<lambda>_.
     bnd (case changed of Some a \<Rightarrow> replace_tunnel_addresses M interface a | None \<Rightarrow> ret ()) (\<lambda>_.
     run_quietly M [TUNNEL_COMMAND, ''save'', interface]))))"

definition set_peer :: "'w machine \<Rightarrow> config_env \<Rightarrow> string \<Rightarrow> server_profile \<Rightarrow> ('w, unit) net_op" where
  "set_peer M C interface server =
     bnd (lift (map_sum Bad_Server id (validate_server C server))) (\<lambda>_.
     bnd (run_command M [''wg'', ''show'', interface, ''peers'']) (\<lambda>ps.
     bnd (tunnel_addresses M interface) (\<lambda>previous.
     let wanted = next_tunnel_addresses (client_tunnel_address server) previous;
         changed = (if previous \<noteq> wanted then Some wanted else None) in
     or_undo (set_peer_body M interface server ps changed)
       ([run_quietly M [''wg'', ''setconf'', interface, tunnel_config interface]] @
        (if changed = None then [] else [replace_tunnel_addresses M interface previous])))))"

section \<open>The relay\<close>

definition relay_active :: "'w machine \<Rightarrow> ('w, bool) net_op" where
  "relay_active M = command_status M [SERVICE_COMMAND, ''status'', RELAY_SERVICE]"

definition prepare_relay :: "'w machine \<Rightarrow> config_env \<Rightarrow> server_profile \<Rightarrow> bool \<Rightarrow> ('w, unit) net_op" where
  "prepare_relay M C server force_restart =
     bnd (lift (map_sum Bad_Server id (validate_server C server))) (\<lambda>_.
     let endpoint = bytes_of_str (sp_endpoint server @ [CHR 0x0A]) in
     bnd (attempt (io File_Error (host_open (mc_host M) RELAY_ENDPOINT_PATH))) (\<lambda>current.
     let endpoint_changed = (map_option snd current \<noteq> Some endpoint) in
     bnd (relay_active M) (\<lambda>active.
     if \<not> endpoint_changed \<and> \<not> force_restart \<and> active then ret ()
     else
       bnd (if endpoint_changed then write_relay_endpoint M endpoint else ret ()) (\<lambda>_.
       run_quietly M [SERVICE_COMMAND, ''restart'', RELAY_SERVICE]))))"

definition restore_relay :: "'w machine \<Rightarrow> bytes option \<Rightarrow> ('w, unit) net_op" where
  "restore_relay M previous =
     (case previous of
        Some endpoint \<Rightarrow>
          bnd (write_relay_endpoint M endpoint) (\<lambda>_. run_quietly M [SERVICE_COMMAND, ''restart'', RELAY_SERVICE])
      | None \<Rightarrow>
          bnd (remove_file M RELAY_ENDPOINT_PATH) (\<lambda>_. run_quietly M [SERVICE_COMMAND, ''stop'', RELAY_SERVICE]))"

definition start_body :: "'w machine \<Rightarrow> config_env \<Rightarrow> string \<Rightarrow> server_profile \<Rightarrow> nat \<Rightarrow> bool \<Rightarrow> ('w, unit) net_op" where
  "start_body M C interface server mtu was_active =
     bnd (prepare_relay M C server (\<not> was_active)) (\<lambda>_.
     bnd (if \<not> was_active then set_tunnel M interface ''start'' else ret ()) (\<lambda>_.
     bnd (run_quietly M [''ip'', ''link'', ''set'', ''mtu'', digits mtu, ''dev'', interface]) (\<lambda>_.
     set_peer M C interface server)))"

definition start_and_select :: "'w machine \<Rightarrow> config_env \<Rightarrow> string \<Rightarrow> server_profile \<Rightarrow> ('w, unit) net_op" where
  "start_and_select M C interface server =
     bnd (configured_tunnel_mtu M interface) (\<lambda>mtu.
     bnd (read_optional M RELAY_ENDPOINT_PATH) (\<lambda>previous.
     bnd (service_active M interface) (\<lambda>was_active.
     or_undo (start_body M C interface server mtu was_active)
       ((if was_active then [] else [stop_tunnel M interface]) @ [restore_relay M previous]))))"

section \<open>Modes and the snapshot\<close>

definition apply_mode :: "'w machine \<Rightarrow> ipnet \<Rightarrow> string \<Rightarrow> lan_context \<Rightarrow> string \<Rightarrow> ('w, unit) net_op" where
  "apply_mode M N mode_command lan m = run_quietly M [mode_command, m, device lan, net_show N (subnet lan)]"

definition cleanup_dns_flows :: "'w machine \<Rightarrow> string \<Rightarrow> nat \<Rightarrow> ('w, unit) net_op" where
  "cleanup_dns_flows M lan_device dns_port =
     run_quietly M [''/usr/libexec/gofro/dns-flows'', ''cleanup'', lan_device, digits dns_port]"

definition retire_legacy_routing :: "'w machine \<Rightarrow> string \<Rightarrow> ('w, unit) net_op" where
  "retire_legacy_routing M config_path =
     bnd (lift (ok_or (path_parent config_path) Path_Error)) (\<lambda>parent.
     restore_file M (path_join parent ''routing-legacy.json'') None)"

record snapshot =
  sn_endpoint :: "bytes option"
  sn_relay_active :: bool
  sn_saved_tunnel :: "bytes option"
  sn_addresses :: "string list option"

definition capture :: "'w machine \<Rightarrow> string \<Rightarrow> ('w, snapshot) net_op" where
  "capture M interface =
     bnd (read_optional M RELAY_ENDPOINT_PATH) (\<lambda>endpoint.
     bnd (relay_active M) (\<lambda>active.
     bnd (read_optional M (tunnel_config interface)) (\<lambda>saved.
     bnd (service_active M interface) (\<lambda>up.
     bnd (if up then bnd (tunnel_addresses M interface) (\<lambda>a. ret (Some a)) else ret None) (\<lambda>addresses.
     ret \<lparr>sn_endpoint = endpoint, sn_relay_active = active, sn_saved_tunnel = saved, sn_addresses = addresses\<rparr>)))))"

definition restore :: "'w machine \<Rightarrow> string \<Rightarrow> snapshot \<Rightarrow> ('w, unit) net_op" where
  "restore M interface s =
     bnd (case sn_addresses s of Some a \<Rightarrow> replace_tunnel_addresses M interface a | None \<Rightarrow> ret ()) (\<lambda>_.
     bnd (restore_file M (tunnel_config interface) (sn_saved_tunnel s)) (\<lambda>_.
     bnd (restore_file M RELAY_ENDPOINT_PATH (sn_endpoint s)) (\<lambda>_.
     run_quietly M [SERVICE_COMMAND, if sn_relay_active s then ''restart'' else ''stop'', RELAY_SERVICE])))"

end
