(* ===== verification/Config_File.thy ===== *)
theory Config_File
  imports Network
begin

text \<open>
  The configuration file of the agent (\<^verbatim>\<open>save\<close> and \<^verbatim>\<open>sync_committed\<close> of \<^verbatim>\<open>gofro-agent/src/config.rs\<close>):
  it is written beside the old one and renamed over it. After the rename the new configuration is the one a
  restart would read, so that a failure to sync the directory is told apart from every other failure.
\<close>

datatype save_error = Save_Failed | Published_Save

definition save_config :: "'w machine \<Rightarrow> (controller_config \<Rightarrow> bytes option) \<Rightarrow> string \<Rightarrow> controller_config \<Rightarrow>
    (save_error, 'w, unit) operation" where
  "save_config M to_json path c =
     (let H = mc_host M; temporary = with_extension path ''json.tmp'' in
      bnd (io Save_Failed (host_truncate H temporary)) (\<lambda>_.
      bnd (io Save_Failed (mc_chmod M temporary 0x180)) (\<lambda>_.
      bnd (lift (ok_or (to_json c) Save_Failed)) (\<lambda>text.
      bnd (io Save_Failed (host_append H temporary text)) (\<lambda>_.
      bnd (io Save_Failed (host_sync H temporary)) (\<lambda>_.
      bnd (io Save_Failed (host_rename H temporary path)) (\<lambda>_.
      io Published_Save (host_sync H (case path_parent path of Some d \<Rightarrow> d | None \<Rightarrow> ''.'')))))))))"

definition sync_committed :: "'w machine \<Rightarrow> string \<Rightarrow> (save_error, 'w, unit) operation" where
  "sync_committed M path =
     bnd (io Save_Failed (host_sync (mc_host M) path)) (\<lambda>_.
     bnd (lift (ok_or (path_parent path) Save_Failed)) (\<lambda>d.
     io Save_Failed (host_sync (mc_host M) d)))"

end
