(* ===== verification/Pins.thy ===== *)
theory Pins
  imports Network
begin

text \<open>
  The pinned SSH host keys of managed servers (\<^verbatim>\<open>gofro-agent/src/managed/pins.rs\<close>): the first key seen for a
  host and port is published in a file of its own, every later connection has to present the same key, and a
  pin goes away only by the explicit reset. Publication writes a temporary file and links it to its final
  name; a crash in between leaves a second name, which the next check takes away.
\<close>

section \<open>The management directory\<close>

datatype pin_error =
    Bad_Pin_Host | Bad_Key config_error | Unsafe_Management | Pin_Io | Unsafe_Pin | Pin_Moved | Bad_Stored_Pin config_error
  | Key_Changed

type_synonym ('w, 'a) pin_op = "(pin_error, 'w, 'a) operation"

definition sync_ancestor :: "'w machine \<Rightarrow> string \<Rightarrow> ('w, unit) pin_op" where
  "sync_ancestor M ancestor = io Pin_Io (host_sync (mc_host M) (if ancestor = [] then ''.'' else ancestor))"

definition management_directory :: "'w machine \<Rightarrow> string \<Rightarrow> ('w, unit) pin_op" where
  "management_directory M dir =
     bnd (io Pin_Io (mc_mkdir_all M dir 0x1C0)) (\<lambda>_.
     bnd (io Pin_Io (mc_lstat M dir)) (\<lambda>m.
     bnd (require (nm_dir m \<and> \<not> nm_symlink m \<and> nm_uid m = 0) Unsafe_Management) (\<lambda>_.
     bnd (io Pin_Io (mc_chmod M dir 0x1C0)) (\<lambda>_.
     each (sync_ancestor M) (ancestors dir)))))"

definition temporary_path :: "'w machine \<Rightarrow> string \<Rightarrow> string \<Rightarrow> ('w, string) pin_op" where
  "temporary_path M dir name =
     bnd (observe (mc_fetch_add M)) (\<lambda>n.
     ret (path_join dir (''.'' @ name @ ''.'' @ digits (mc_pid M) @ ''.'' @ digits n)))"

section \<open>A pin\<close>

definition pin_path :: "string \<Rightarrow> string \<Rightarrow> u16 \<Rightarrow> string" where
  "pin_path dir host port = path_join dir (''host-'' @ host @ ''-'' @ digits (unat port) @ ''.pub'')"

definition safe_pin_metadata :: "node_meta \<Rightarrow> bool" where
  "safe_pin_metadata m \<longleftrightarrow> nm_file m \<and> \<not> nm_symlink m \<and> nm_mode m AND 0xfff = 0x180 \<and> nm_len m \<le> 128 \<and> nm_uid m = 0"

definition publish_pin :: "'w machine \<Rightarrow> string \<Rightarrow> string \<Rightarrow> string \<Rightarrow> ('w, bool) pin_op" where
  "publish_pin M temporary path key =
     bnd (io Pin_Io (host_append (mc_host M) temporary (bytes_of_str key))) (\<lambda>_.
     bnd (io Pin_Io (host_sync (mc_host M) temporary)) (\<lambda>_.
     bnd (observe (mc_link M temporary path)) (\<lambda>linked.
     case linked of Created \<Rightarrow> ret True | Already_There \<Rightarrow> ret False | Not_Created \<Rightarrow> throw Pin_Io)))"

text \<open>The temporary name goes away whatever happened; an error of the publication is reported first.\<close>

definition then_remove :: "'w machine \<Rightarrow> string \<Rightarrow> ('w, bool) pin_op \<Rightarrow> ('w, unit) pin_op" where
  "then_remove M temporary body w =
     (case body w of
        (w1, r) \<Rightarrow>
          (case host_remove (mc_host M) temporary w1 of
             (w2, cleanup) \<Rightarrow>
               (w2, and_then r (\<lambda>published.
                  case cleanup of
                    Io_Ok _ \<Rightarrow> Inr ()
                  | Missing \<Rightarrow> if published then Inr () else Inl Pin_Io
                  | Io_Failed \<Rightarrow> Inl Pin_Io))))"

definition new_pin :: "'w machine \<Rightarrow> string \<Rightarrow> string \<Rightarrow> string \<Rightarrow> ('w, unit) pin_op" where
  "new_pin M dir path key =
     bnd (temporary_path M dir ''host-pin'') (\<lambda>temporary.
     bnd (io Pin_Io (host_create_new (mc_host M) temporary)) (\<lambda>_.
     then_remove M temporary (publish_pin M temporary path key)))"

definition stored_key :: "'w machine \<Rightarrow> string \<Rightarrow> node_meta \<Rightarrow> ('w, string) pin_op" where
  "stored_key M path m =
     bnd (io Pin_Io (mc_open_file M path)) (\<lambda>(opened, content).
     bnd (require (nm_inode opened = nm_inode m) Pin_Moved) (\<lambda>_.
     bnd (lift (ok_or (text_of (take 129 content)) Pin_Io)) (\<lambda>stored.
     bnd (lift (map_sum Bad_Stored_Pin id (parse_host_key stored))) (\<lambda>_.
     ret stored))))"

section \<open>Left-over names\<close>

definition owned_name :: "string \<Rightarrow> bool" where
  "owned_name name \<longleftrightarrow>
     (case strip_prefix ''.host-pin.'' name of
        None \<Rightarrow> False
      | Some suffix \<Rightarrow>
          (case split_once (CHR ''.'') suffix of
             None \<Rightarrow> False
           | Some (pid, counter) \<Rightarrow> list_all (\<lambda>part. part \<noteq> [] \<and> list_all ascii_digit part) [pid, counter]))"

definition drop_alias :: "'w machine \<Rightarrow> string \<Rightarrow> node_meta \<Rightarrow> string \<Rightarrow> ('w, unit) pin_op" where
  "drop_alias M dir metadata name =
     (if \<not> owned_name name then ret ()
      else
        bnd (io_opt Pin_Io (mc_lstat M (path_join dir name))) (\<lambda>found.
        case found of
          None \<Rightarrow> ret ()
        | Some m \<Rightarrow>
            if safe_pin_metadata m \<and> nm_uid m = nm_uid metadata \<and> nm_inode m = nm_inode metadata
            then bnd (io_opt Pin_Io (host_remove (mc_host M) (path_join dir name))) (\<lambda>_. ret ())
            else ret ()))"

definition recover_aliases :: "'w machine \<Rightarrow> string \<Rightarrow> node_meta \<Rightarrow> ('w, unit) pin_op" where
  "recover_aliases M dir metadata =
     bnd (io Pin_Io (mc_read_dir M dir))
       (each (\<lambda>entry. case entry of None \<Rightarrow> throw Pin_Io | Some name \<Rightarrow> drop_alias M dir metadata name))"

section \<open>The operations\<close>

definition settle_pin :: "'w machine \<Rightarrow> string \<Rightarrow> string \<Rightarrow> node_meta \<Rightarrow> ('w, unit) pin_op" where
  "settle_pin M dir path metadata =
     bnd (if 1 < nm_links metadata then recover_aliases M dir metadata else ret ()) (\<lambda>_.
     bnd (io Pin_Io (mc_lstat M path)) (\<lambda>recovered.
     bnd (require (safe_pin_metadata recovered \<and> nm_links recovered = 1 \<and> nm_inode recovered = nm_inode metadata)
            Unsafe_Pin) (\<lambda>_.
     bnd (io Pin_Io (host_sync (mc_host M) path)) (\<lambda>_.
     io Pin_Io (host_sync (mc_host M) dir)))))"

definition check_pin :: "'w machine \<Rightarrow> string \<Rightarrow> string \<Rightarrow> string \<Rightarrow> ('w, unit) pin_op" where
  "check_pin M dir path key =
     bnd (io Pin_Io (mc_lstat M path)) (\<lambda>metadata.
     bnd (require (safe_pin_metadata metadata) Unsafe_Pin) (\<lambda>_.
     bnd (stored_key M path metadata) (\<lambda>stored.
     bnd (require (stored = key) Key_Changed) (\<lambda>_.
     settle_pin M dir path metadata))))"

definition pin_host :: "'w machine \<Rightarrow> config_env \<Rightarrow> string \<Rightarrow> string \<Rightarrow> u16 \<Rightarrow> string \<Rightarrow> ('w, unit) pin_op" where
  "pin_host M C dir host port key =
     bnd (require (canonical_ip C host \<and> port \<noteq> 0) Bad_Pin_Host) (\<lambda>_.
     bnd (lift (map_sum Bad_Key id (parse_host_key key))) (\<lambda>_.
     bnd (management_directory M dir) (\<lambda>_.
     let path = pin_path dir host port in
     bnd (io_opt Pin_Io (mc_lstat M path)) (\<lambda>found.
     bnd (if found = None then new_pin M dir path key else ret ()) (\<lambda>_.
     check_pin M dir path key)))))"

definition preserve_host_pins :: "'w machine \<Rightarrow> config_env \<Rightarrow> string \<Rightarrow> controller_config \<Rightarrow> ('w, unit) pin_op" where
  "preserve_host_pins M C dir c =
     each (\<lambda>m. pin_host M C dir (ms_host m) (ms_port m) (ms_host_key m)) (List.map_filter management (servers c))"

definition reset_host_pin :: "'w machine \<Rightarrow> string \<Rightarrow> string \<Rightarrow> u16 \<Rightarrow> ('w, unit) pin_op" where
  "reset_host_pin M dir host port =
     bnd (management_directory M dir) (\<lambda>_.
     let path = pin_path dir host port in
     bnd (io_opt Pin_Io (mc_lstat M path)) (\<lambda>found.
     case found of
       None \<Rightarrow> ret ()
     | Some metadata \<Rightarrow>
         bnd (require (safe_pin_metadata metadata \<and> nm_links metadata = 1) Unsafe_Pin) (\<lambda>_.
         bnd (stored_key M path metadata) (\<lambda>_.
         bnd (io Pin_Io (mc_lstat M path)) (\<lambda>current.
         bnd (require (nm_inode current = nm_inode metadata) Pin_Moved) (\<lambda>_.
         bnd (io Pin_Io (host_remove (mc_host M) path)) (\<lambda>_.
         io Pin_Io (host_sync (mc_host M) dir))))))))"

end
