(* ===== verification/Controller.thy ===== *)
theory Controller
  imports Dns_Answers Config_File Pins
begin

text \<open>
  The controller of the agent (\<^verbatim>\<open>gofro-agent/src/controller.rs\<close> with \<^verbatim>\<open>mode.rs\<close>, \<^verbatim>\<open>servers.rs\<close> and
  \<^verbatim>\<open>routing.rs\<close>): every change of the configuration, from the edit of the record to the ruleset, the network and
  the file. A change that touches the kernel happens behind the forwarding guard; a failure takes it back, and
  a failure of that leaves the guard and the mark \<^verbatim>\<open>routing_degraded\<close>, which only a full reconcile clears.

  Of \<^verbatim>\<open>AppState\<close> the parts that change are the record \<open>app_state\<close>, the rest is \<open>app_env\<close>. A lock is poisoned when
  a thread panicked under it, which is a fact of the state; which entries of the geodata are still alive, as
  the compiler of the policy asks, is a function of the state.
\<close>

section \<open>State\<close>

datatype control_error =
    Net network_error | Dns dns_error | Nft nft_error | Conf config_error | Compile compile_error
  | Save save_error | Pin pin_error
  | Config_Poisoned | Routing_Poisoned | Degraded
  | No_Active_Server | Lost_Active_Server | Duplicate_Server | Unknown_Server | Managed_Fixed | Last_Server
  | Update_Undo_Failed control_error control_error
  | Guard_Remains control_error | With_Guard control_error control_error
  | Committed control_error "control_error list"

record ('c, 'w, 'r) app_state =
  app_dns :: "('c, 'w) fake_dns"
  app_config :: controller_config
  app_policy :: "'r policy"
  app_geodata :: "'r geodata"
  app_degraded :: bool
  config_poisoned :: bool
  routing_poisoned :: bool

record ('c, 'w, 'r) app_env =
  cx_dns :: "('c, 'w) dns_env"
  cx_machine :: "'w machine"
  cx_regex :: "'r regex_lib"
  cx_live_sites :: "('c, 'w, 'r) app_state \<Rightarrow> string \<Rightarrow> bool"
  cx_live_ips :: "('c, 'w, 'r) app_state \<Rightarrow> string \<Rightarrow> bool"
  cx_json :: "controller_config \<Rightarrow> bytes option"
  cx_interface :: string
  cx_lan :: lan_context
  cx_dns_port :: u16
  cx_ports :: panel_ports
  cx_config_path :: string
  cx_mode_command :: string
  cx_management_dir :: string

type_synonym ('c, 'w, 'r, 'a) app_op = "(control_error, ('c, 'w, 'r) app_state, 'a) operation"

definition cx_config :: "('c, 'w, 'r) app_env \<Rightarrow> config_env" where
  "cx_config E = de_config (cx_dns E)"

definition cx_net :: "('c, 'w, 'r) app_env \<Rightarrow> ipnet" where
  "cx_net E = env_net (cx_config E)"

definition app_world :: "('c, 'w, 'r) app_state \<Rightarrow> 'w" where
  "app_world s = dns_world (app_dns s)"

definition on_machine :: "('e \<Rightarrow> control_error) \<Rightarrow> ('e, 'w, 'a) operation \<Rightarrow> ('c, 'w, 'r, 'a) app_op" where
  "on_machine err m s =
     (case m (app_world s) of (w, r) \<Rightarrow> (s\<lparr>app_dns := (app_dns s)\<lparr>dns_world := w\<rparr>\<rparr>, map_sum err id r))"

definition on_fake_dns :: "('c, 'w, 'a) dns_op \<Rightarrow> ('c, 'w, 'r, 'a) app_op" where
  "on_fake_dns m s = (case m (app_dns s) of (d, r) \<Rightarrow> (s\<lparr>app_dns := d\<rparr>, map_sum Dns id r))"

definition lock_apply :: "('c, 'w, 'r) app_env \<Rightarrow> ('c, 'w, 'r, unit) app_op" where
  "lock_apply E = on_machine Net (lock_apply_path (cx_machine E) (cx_config_path E))"

definition lock_config :: "('c, 'w, 'r, controller_config) app_op" where
  "lock_config s = (s, if config_poisoned s then Inl Config_Poisoned else Inr (app_config s))"

definition lock_routing :: "('c, 'w, 'r, 'r policy) app_op" where
  "lock_routing s = (s, if routing_poisoned s then Inl Routing_Poisoned else Inr (app_policy s))"

definition not_degraded :: "('c, 'w, 'r, unit) app_op" where
  "not_degraded s = (s, if app_degraded s then Inl Degraded else Inr ())"

definition modify :: "(('c, 'w, 'r) app_state \<Rightarrow> ('c, 'w, 'r) app_state) \<Rightarrow> ('c, 'w, 'r, unit) app_op" where
  "modify f s = (f s, Inr ())"

section \<open>The steps of a change\<close>

definition put_guard :: "('c, 'w, 'r) app_env \<Rightarrow> mac_address list \<Rightarrow> ('c, 'w, 'r, unit) app_op" where
  "put_guard E exclusions = on_machine Nft (install_guard (de_nft (cx_dns E)) (cx_lan E) exclusions)"

definition publish_devices :: "('c, 'w, 'r) app_env \<Rightarrow> mac_address list \<Rightarrow> ('c, 'w, 'r, unit) app_op" where
  "publish_devices E exclusions = on_machine Nft (publish_exclusions (de_nft (cx_dns E)) (cx_lan E) exclusions)"

definition drop_guard :: "('c, 'w, 'r) app_env \<Rightarrow> ('c, 'w, 'r, unit) app_op" where
  "drop_guard E s =
     (case on_machine Nft (clear_guard (de_nft (cx_dns E))) s of
        (s', Inr u) \<Rightarrow> (s', Inr u)
      | (s', Inl e) \<Rightarrow> (s'\<lparr>app_degraded := True\<rparr>, Inl (Guard_Remains e)))"

definition flush_dns :: "('c, 'w, 'r) app_env \<Rightarrow> ('c, 'w, 'r, unit) app_op" where
  "flush_dns E = on_machine Net (cleanup_dns_flows (cx_machine E) (device (cx_lan E)) (unat (cx_dns_port E)))"

definition apply_policy :: "('c, 'w, 'r) app_env \<Rightarrow> controller_config \<Rightarrow> 'r policy \<Rightarrow> mac_address list \<Rightarrow>
    ('c, 'w, 'r, unit) app_op" where
  "apply_policy E config p exclusions =
     bnd (on_fake_dns (dns_reclassified p)) (\<lambda>ms.
     bnd (on_machine Nft (apply_table (de_nft (cx_dns E)) (cx_lan E) (unat (cx_dns_port E))
            (egress_from_config (cx_net E) config) p ms (cx_ports E) exclusions)) (\<lambda>_.
     on_fake_dns (dns_commit_targets (cx_dns E) p)))"

definition active_server :: "controller_config \<Rightarrow> control_error + server_profile" where
  "active_server c =
     and_then (ok_or (active_server_key c) No_Active_Server) (\<lambda>key.
     ok_or (find (\<lambda>s. sp_public_key s = key) (servers c)) Lost_Active_Server)"

definition change_mode :: "('c, 'w, 'r) app_env \<Rightarrow> string \<Rightarrow> ('c, 'w, 'r, unit) app_op" where
  "change_mode E m = on_machine Net (apply_mode (cx_machine E) (cx_net E) (cx_mode_command E) (cx_lan E) m)"

definition apply_network :: "('c, 'w, 'r) app_env \<Rightarrow> controller_config \<Rightarrow> ('c, 'w, 'r, unit) app_op" where
  "apply_network E config =
     (if vpn_enabled config then
        bnd (lift (active_server config)) (\<lambda>server.
        bnd (change_mode E ''vpn'') (\<lambda>_.
        bnd (on_machine Net (start_and_select (cx_machine E) (cx_config E) (cx_interface E) server)) (\<lambda>_.
        change_mode E ''tunnel-up'')))
      else
        bnd (on_machine Net (stop_tunnel (cx_machine E) (cx_interface E))) (\<lambda>_.
        change_mode E ''bypass''))"

definition compile_policy :: "('c, 'w, 'r) app_env \<Rightarrow> routing_config \<Rightarrow> ('c, 'w, 'r, 'r policy) app_op" where
  "compile_policy E rc s =
     (case compile (cx_regex E) (cx_net E) (cx_live_sites E s) (cx_live_ips E s) rc (app_geodata s) of
        (r, catalog) \<Rightarrow>
          (s\<lparr>app_geodata := (case catalog of None \<Rightarrow> app_geodata s | Some c \<Rightarrow> (app_geodata s)\<lparr>source := Some c\<rparr>)\<rparr>,
           map_sum Compile id r))"

definition save_file :: "('c, 'w, 'r) app_env \<Rightarrow> controller_config \<Rightarrow> ('c, 'w, 'r, unit) app_op" where
  "save_file E c = on_machine Save (save_config (cx_machine E) (cx_json E) (cx_config_path E) c)"

section \<open>A committed change that is not in effect\<close>

definition repair :: "('c, 'w, 'r) app_env \<Rightarrow> bool \<Rightarrow> mac_address list \<Rightarrow> ('c, 'w, 'r, unit) app_op" where
  "repair E sync_required exclusions =
     bnd (if sync_required then on_machine Save (sync_committed (cx_machine E) (cx_config_path E)) else ret ()) (\<lambda>_.
     publish_devices E exclusions)"

text \<open>The error keeps what went wrong on the way, the first failure first.\<close>

definition committed_failure :: "('c, 'w, 'r) app_env \<Rightarrow> bool \<Rightarrow> control_error \<Rightarrow> ('c, 'w, 'r, unit) app_op" where
  "committed_failure E sync_required error s0 =
     (let s = s0\<lparr>app_degraded := True\<rparr>; exclusions = device_exclusions (app_config s) in
      case repair E sync_required exclusions s of
        (s1, Inl r) \<Rightarrow>
          (case put_guard E exclusions s1 of
             (s2, Inl g) \<Rightarrow> (s2, Inl (Committed error [r, g]))
           | (s2, Inr _) \<Rightarrow> (s2, Inl (Committed error [r])))
      | (s1, Inr _) \<Rightarrow>
          (case flush_dns E s1 of
             (s2, Inl c) \<Rightarrow> (s2, Inl (Committed error [c]))
           | (s2, Inr _) \<Rightarrow> (s2, Inl (Committed error []))))"

section \<open>A change of the configuration\<close>

datatype change = Config_Change | Policy_Change | Network_Change

definition save_only :: "('c, 'w, 'r) app_env \<Rightarrow> controller_config \<Rightarrow> ('c, 'w, 'r, unit) app_op" where
  "save_only E next_config s =
     (case save_file E next_config s of
        (s', Inr u) \<Rightarrow> (s'\<lparr>app_config := next_config\<rparr>, Inr u)
      | (s', Inl e) \<Rightarrow>
          if e = Save Published_Save then committed_failure E True e (s'\<lparr>app_config := next_config\<rparr>)
          else (s', Inl e))"

definition committed :: "controller_config \<Rightarrow> 'r policy \<Rightarrow> ('c, 'w, 'r) app_state \<Rightarrow> ('c, 'w, 'r) app_state" where
  "committed c p s = s\<lparr>app_config := c, app_policy := p, app_dns := set_vpn_enabled (vpn_enabled c) (app_dns s)\<rparr>"

definition apply_change :: "('c, 'w, 'r) app_env \<Rightarrow> controller_config \<Rightarrow> controller_config \<Rightarrow> 'r policy \<Rightarrow> change \<Rightarrow>
    ('c, 'w, 'r, unit) app_op" where
  "apply_change E config next_config p ch =
     bnd (if ch = Network_Change then apply_network E next_config else ret ()) (\<lambda>_.
     bnd (apply_policy E next_config p (device_exclusions config)) (\<lambda>_.
     save_file E next_config))"

definition undo_network :: "('c, 'w, 'r) app_env \<Rightarrow> controller_config \<Rightarrow> snapshot option \<Rightarrow> ('c, 'w, 'r, unit) app_op" where
  "undo_network E config previous =
     bnd (apply_network E config) (\<lambda>_.
     case previous of
       None \<Rightarrow> ret ()
     | Some sn \<Rightarrow> on_machine Net (restore (cx_machine E) (cx_interface E) sn))"

text \<open>Both halves run, whether the first fails or not.\<close>

definition undo_change :: "('c, 'w, 'r) app_env \<Rightarrow> controller_config \<Rightarrow> 'r policy \<Rightarrow> change \<Rightarrow> snapshot option \<Rightarrow>
    ('c, 'w, 'r, unit) app_op" where
  "undo_change E config active ch previous s =
     (case (if ch = Network_Change then undo_network E config previous else ret ()) s of
        (s1, r1) \<Rightarrow>
          (case apply_policy E config active (device_exclusions config) s1 of
             (s2, r2) \<Rightarrow> (s2, and_then r1 (\<lambda>_. r2))))"

definition roll_back :: "('c, 'w, 'r) app_env \<Rightarrow> controller_config \<Rightarrow> 'r policy \<Rightarrow> change \<Rightarrow> snapshot option \<Rightarrow>
    control_error \<Rightarrow> ('c, 'w, 'r, unit) app_op" where
  "roll_back E config active ch previous error s =
     (case undo_change E config active ch previous s of
        (s1, Inl r) \<Rightarrow> (s1\<lparr>app_degraded := True\<rparr>, Inl (Update_Undo_Failed error r))
      | (s1, Inr _) \<Rightarrow>
          (case drop_guard E s1 of
             (s2, Inr _) \<Rightarrow> (s2, Inl error)
           | (s2, Inl g) \<Rightarrow> (s2, Inl (With_Guard error g))))"

definition finish_change :: "('c, 'w, 'r) app_env \<Rightarrow> controller_config \<Rightarrow> controller_config \<Rightarrow> ('c, 'w, 'r, unit) app_op" where
  "finish_change E config next_config =
     bnd (if device_exclusions config \<noteq> device_exclusions next_config
          then bnd (publish_devices E (device_exclusions next_config)) (\<lambda>_. flush_dns E)
          else ret ()) (\<lambda>_.
     drop_guard E)"

definition guarded_change :: "('c, 'w, 'r) app_env \<Rightarrow> controller_config \<Rightarrow> controller_config \<Rightarrow> 'r policy \<Rightarrow> 'r policy \<Rightarrow>
    change \<Rightarrow> snapshot option \<Rightarrow> ('c, 'w, 'r, unit) app_op" where
  "guarded_change E config next_config active p ch previous s =
     (case apply_change E config next_config p ch s of
        (s1, Inl e) \<Rightarrow>
          if e = Save Published_Save then committed_failure E True e (committed next_config p s1)
          else roll_back E config active ch previous e s1
      | (s1, Inr _) \<Rightarrow>
          (case finish_change E config next_config (committed next_config p s1) of
             (s2, Inr u) \<Rightarrow> (s2, Inr u)
           | (s2, Inl e) \<Rightarrow> committed_failure E False e s2))"

definition take_snapshot :: "('c, 'w, 'r) app_env \<Rightarrow> change \<Rightarrow> ('c, 'w, 'r, snapshot option) app_op" where
  "take_snapshot E ch =
     (if ch = Network_Change
      then bnd (on_machine Net (capture (cx_machine E) (cx_interface E))) (\<lambda>sn. ret (Some sn)) else ret None)"

definition change_kernel :: "('c, 'w, 'r) app_env \<Rightarrow> controller_config \<Rightarrow> controller_config \<Rightarrow> change \<Rightarrow>
    ('c, 'w, 'r, unit) app_op" where
  "change_kernel E config next_config ch =
     bnd (compile_policy E (routing next_config)) (\<lambda>p.
     bnd lock_routing (\<lambda>active.
     bnd (take_snapshot E ch) (\<lambda>previous.
     bnd (put_guard E (device_exclusions config)) (\<lambda>_.
     guarded_change E config next_config active p ch previous))))"

definition update_config :: "('c, 'w, 'r) app_env \<Rightarrow>
    (controller_config \<Rightarrow> ('c, 'w, 'r, controller_config \<times> change) app_op) \<Rightarrow> ('c, 'w, 'r, unit) app_op" where
  "update_config E edit =
     bnd (lock_apply E) (\<lambda>_.
     bnd (on_fake_dns begin_update) (\<lambda>_.
     bnd lock_config (\<lambda>config.
     bnd not_degraded (\<lambda>_.
     bnd (edit config) (\<lambda>(edited, ch).
     bnd (lift (map_sum Conf id (normalize_exclusions (device_exclusions edited)))) (\<lambda>macs.
     let next_config = edited\<lparr>device_exclusions := macs\<rparr> in
     if ch = Config_Change then save_only E next_config
     else change_kernel E config next_config ch))))))"

section \<open>The full reconcile\<close>

definition reconcile_locked :: "('c, 'w, 'r) app_env \<Rightarrow> ('c, 'w, 'r, unit) app_op" where
  "reconcile_locked E =
     bnd (on_fake_dns begin_update) (\<lambda>_.
     bnd lock_config (\<lambda>config.
     bnd (modify (\<lambda>s. s\<lparr>app_degraded := True\<rparr>)) (\<lambda>_.
     bnd (on_machine Save (sync_committed (cx_machine E) (cx_config_path E))) (\<lambda>_.
     bnd (compile_policy E (routing config)) (\<lambda>p.
     bnd lock_routing (\<lambda>_.
     bnd (put_guard E (device_exclusions config)) (\<lambda>_.
     bnd (apply_policy E config p (device_exclusions config)) (\<lambda>_.
     bnd (modify (committed config p)) (\<lambda>_.
     bnd (flush_dns E) (\<lambda>_.
     bnd (apply_network E config) (\<lambda>_.
     bnd (on_machine Net (retire_legacy_routing (cx_machine E) (cx_config_path E))) (\<lambda>_.
     bnd (drop_guard E) (\<lambda>_.
     modify (\<lambda>s. s\<lparr>app_degraded := False\<rparr>))))))))))))))"

definition set_auto_update :: "('c, 'w, 'r) app_env \<Rightarrow> bool \<Rightarrow> ('c, 'w, 'r, unit) app_op" where
  "set_auto_update E enabled =
     bnd (lock_apply E) (\<lambda>_.
     bnd lock_config (\<lambda>config.
     let next_config = config\<lparr>auto_update_enabled := enabled\<rparr> in
     bnd (save_file E next_config) (\<lambda>_.
     modify (\<lambda>s. s\<lparr>app_config := next_config\<rparr>))))"

end
