(* ===== verification/Controller_Ops.thy ===== *)
theory Controller_Ops
  imports Controller
begin

text \<open>
  The operations of the controller as edits of the configuration: the mode
  (\<^verbatim>\<open>controller/mode.rs\<close>), the routing rules (\<^verbatim>\<open>controller/routing.rs\<close>), the devices (\<^verbatim>\<open>controller.rs\<close>) and the
  servers (\<^verbatim>\<open>controller/servers.rs\<close>). An edit also says how much of the router it concerns. Shown here: an edit
  that only concerns the file leaves the ruleset that the configuration stands for as it is.
\<close>

section \<open>Mode, devices and rules\<close>

type_synonym edit = "controller_config \<Rightarrow> control_error + controller_config \<times> change"

definition mode_edit :: "bool \<Rightarrow> edit" where
  "mode_edit enabled c =
     (let ch = (if vpn_enabled c = enabled then Policy_Change else Network_Change); c' = c\<lparr>vpn_enabled := enabled\<rparr> in
      and_then (if enabled then and_then (active_server c') (\<lambda>_. Inr ()) else Inr ()) (\<lambda>_. Inr (c', ch)))"

definition exclusion_edit :: "mac_address \<Rightarrow> bool \<Rightarrow> edit" where
  "exclusion_edit mac excluded c =
     (let macs = filter (\<lambda>m. m \<noteq> mac) (device_exclusions c) @ (if excluded then [mac] else []) in
      and_then (map_sum Conf id (normalize_exclusions macs)) (\<lambda>macs.
      Inr (c\<lparr>device_exclusions := macs\<rparr>, Policy_Change)))"

definition routing_edit :: "routing_config \<Rightarrow> edit" where
  "routing_edit rc c = Inr (c\<lparr>routing := rc\<rparr>, Policy_Change)"

section \<open>Servers\<close>

fun position :: "('a \<Rightarrow> bool) \<Rightarrow> 'a list \<Rightarrow> nat option" where
  "position P [] = None"
| "position P (x # xs) = (if P x then Some 0 else map_option Suc (position P xs))"

definition has_key :: "string \<Rightarrow> server_profile \<Rightarrow> bool" where
  "has_key key s \<longleftrightarrow> sp_public_key s = key"

definition replace_imported_server :: "controller_config \<Rightarrow> server_profile \<Rightarrow> (controller_config \<times> bool) option" where
  "replace_imported_server c server =
     map_option (\<lambda>i.
       let previous = servers c ! i;
           reconnect = (vpn_enabled c \<and> active_server_key c = Some (sp_public_key server));
           server = (if management previous \<noteq> None
                     then server\<lparr>management := management previous, sp_endpoint := sp_endpoint previous\<rparr> else server);
           server = server\<lparr>sp_emoji := sp_emoji previous\<rparr> in
       (c\<lparr>servers := (servers c)[i := server]\<rparr>, reconnect))
     (position (has_key (sp_public_key server)) (servers c))"

definition insert_server :: "server_profile \<Rightarrow> edit" where
  "insert_server server c =
     and_then (ensure (\<not> list_ex (has_key (sp_public_key server)) (servers c)) Duplicate_Server) (\<lambda>_.
     let becomes_active = (active_server_key c = None);
         c' = (if becomes_active then c\<lparr>active_server_key := Some (sp_public_key server)\<rparr> else c) in
     Inr (c'\<lparr>servers := servers c' @ [server]\<rparr>,
          if becomes_active \<and> vpn_enabled c then Network_Change else Config_Change))"

definition upsert_edit :: "server_profile \<Rightarrow> edit" where
  "upsert_edit server c =
     (case replace_imported_server c server of
        Some (c', reconnect) \<Rightarrow> Inr (c', if reconnect then Network_Change else Config_Change)
      | None \<Rightarrow> insert_server server c)"

record server_update =
  su_previous_public_key :: string
  su_name :: string
  su_endpoint :: string
  su_public_key :: string
  su_emoji :: "string option"

definition updated_server :: "server_update \<Rightarrow> server_profile \<Rightarrow> server_profile" where
  "updated_server u s = s\<lparr>sp_name := su_name u, sp_endpoint := su_endpoint u, sp_public_key := su_public_key u,
     sp_emoji := (case su_emoji u of Some e \<Rightarrow> e | None \<Rightarrow> sp_emoji s)\<rparr>"

definition update_edit :: "config_env \<Rightarrow> server_update \<Rightarrow> edit" where
  "update_edit C u c =
     and_then (ok_or (position (has_key (su_previous_public_key u)) (servers c)) Unknown_Server) (\<lambda>i.
     let old = servers c ! i in
     and_then (ensure (\<not> (management old \<noteq> None \<and> (sp_endpoint old \<noteq> su_endpoint u \<or> sp_public_key old \<noteq> su_public_key u)))
                Managed_Fixed) (\<lambda>_.
     let server = updated_server u old in
     and_then (map_sum Conf id (validate_server C server)) (\<lambda>_.
     and_then (ensure (\<not> list_ex (\<lambda>(j, s). j \<noteq> i \<and> sp_public_key s = sp_public_key server) (enumerate 0 (servers c)))
                Duplicate_Server) (\<lambda>_.
     let was_active = (active_server_key c = Some (su_previous_public_key u));
         connection_changed = (sp_endpoint old \<noteq> sp_endpoint server \<or> sp_public_key old \<noteq> sp_public_key server);
         c' = (if was_active then c\<lparr>active_server_key := Some (sp_public_key server)\<rparr> else c) in
     Inr (c'\<lparr>servers := (servers c')[i := server]\<rparr>,
          if was_active \<and> vpn_enabled c \<and> connection_changed then Network_Change else Config_Change)))))"

definition select_edit :: "string \<Rightarrow> edit" where
  "select_edit key c =
     and_then (ok_or (find (has_key key) (servers c)) Unknown_Server) (\<lambda>server.
     if active_server_key c = Some key then Inr (c, Config_Change)
     else Inr (c\<lparr>active_server_key := Some (sp_public_key server)\<rparr>,
               if vpn_enabled c then Network_Change else Config_Change))"

definition delete_edit :: "string \<Rightarrow> edit" where
  "delete_edit key c =
     (let kept = filter (\<lambda>s. \<not> has_key key s) (servers c); c' = c\<lparr>servers := kept\<rparr> in
      and_then (ensure (length kept \<noteq> length (servers c)) Unknown_Server) (\<lambda>_.
      if active_server_key c = Some key then
        let c'' = c'\<lparr>active_server_key := (case kept of [] \<Rightarrow> None | s # _ \<Rightarrow> Some (sp_public_key s))\<rparr> in
        if vpn_enabled c then (if kept = [] then Inl Last_Server else Inr (c'', Network_Change))
        else Inr (c'', Config_Change)
      else Inr (c', Config_Change)))"

section \<open>The operations\<close>

definition pure_edit :: "edit \<Rightarrow> controller_config \<Rightarrow> ('c, 'w, 'r, controller_config \<times> change) app_op" where
  "pure_edit e c = lift (e c)"

definition set_mode :: "('c, 'w, 'r) app_env \<Rightarrow> bool \<Rightarrow> ('c, 'w, 'r, unit) app_op" where
  "set_mode E enabled = update_config E (pure_edit (mode_edit enabled))"

definition update_device_exclusion :: "('c, 'w, 'r) app_env \<Rightarrow> mac_address \<Rightarrow> bool \<Rightarrow> ('c, 'w, 'r, unit) app_op" where
  "update_device_exclusion E mac excluded = update_config E (pure_edit (exclusion_edit mac excluded))"

definition update_routing :: "('c, 'w, 'r) app_env \<Rightarrow> routing_config \<Rightarrow> ('c, 'w, 'r, unit) app_op" where
  "update_routing E rc =
     bnd (lift (map_sum Conf id (normalize_routing (cx_config E) rc))) (\<lambda>rc.
     update_config E (pure_edit (routing_edit rc)))"

definition upsert_server :: "('c, 'w, 'r) app_env \<Rightarrow> server_profile \<Rightarrow> ('c, 'w, 'r, unit) app_op" where
  "upsert_server E server =
     bnd (lift (map_sum Conf id (validate_server (cx_config E) server))) (\<lambda>_.
     update_config E (pure_edit (upsert_edit server)))"

definition import_server :: "('c, 'w, 'r) app_env \<Rightarrow> string \<Rightarrow> string \<Rightarrow> ('c, 'w, 'r, unit) app_op" where
  "import_server E name profile =
     bnd (lift (map_sum Conf id (parse_server_profile (cx_config E) name profile))) (upsert_server E)"

definition add_server :: "('c, 'w, 'r) app_env \<Rightarrow> server_profile \<Rightarrow> ('c, 'w, 'r, unit) app_op" where
  "add_server E server =
     bnd (lift (map_sum Conf id (validate_server (cx_config E) server))) (\<lambda>_.
     update_config E (pure_edit (insert_server server)))"

definition update_server :: "('c, 'w, 'r) app_env \<Rightarrow> server_update \<Rightarrow> ('c, 'w, 'r, unit) app_op" where
  "update_server E u =
     bnd (lift (map_sum Conf id (normalize_server_name (su_name u)))) (\<lambda>name.
     update_config E (pure_edit (update_edit (cx_config E) (u\<lparr>su_name := name\<rparr>))))"

definition select_server :: "('c, 'w, 'r) app_env \<Rightarrow> string \<Rightarrow> ('c, 'w, 'r, unit) app_op" where
  "select_server E key = update_config E (pure_edit (select_edit key))"

definition delete_server :: "('c, 'w, 'r) app_env \<Rightarrow> string \<Rightarrow> ('c, 'w, 'r, unit) app_op" where
  "delete_server E key =
     update_config E (\<lambda>c.
       bnd (on_machine Pin (preserve_host_pins (cx_machine E) (cx_config E) (cx_management_dir E) c)) (\<lambda>_.
       lift (delete_edit key c)))"

definition reconcile :: "('c, 'w, 'r) app_env \<Rightarrow> ('c, 'w, 'r, unit) app_op" where
  "reconcile E = bnd (lock_apply E) (\<lambda>_. reconcile_locked E)"

text \<open>What the agent does on its state: the operations of the panel, and the work of the resolver between
  them, which takes the policy in force.\<close>

datatype control_op =
    Set_Mode bool | Exclude_Device mac_address bool | Update_Routing routing_config | Upsert_Server server_profile
  | Import_Server string string | Add_Server server_profile | Update_Server server_update | Select_Server string
  | Delete_Server string | Set_Auto_Update bool | Reconcile | Answer bytes socket_addr | Purge

fun control :: "('c, 'w, 'r) app_env \<Rightarrow> control_op \<Rightarrow> ('c, 'w, 'r, unit) app_op" where
  "control E (Set_Mode enabled) = set_mode E enabled"
| "control E (Exclude_Device mac excluded) = update_device_exclusion E mac excluded"
| "control E (Update_Routing rc) = update_routing E rc"
| "control E (Upsert_Server server) = upsert_server E server"
| "control E (Import_Server name profile) = import_server E name profile"
| "control E (Add_Server server) = add_server E server"
| "control E (Update_Server u) = update_server E u"
| "control E (Select_Server key) = select_server E key"
| "control E (Delete_Server key) = delete_server E key"
| "control E (Set_Auto_Update enabled) = set_auto_update E enabled"
| "control E Reconcile = reconcile E"
| "control E (Answer packet upstream) =
     (\<lambda>s. bnd (on_fake_dns (process (cx_dns E) packet (app_policy s) upstream (cx_lan E))) (\<lambda>_. ret ()) s)"
| "control E Purge = bnd (on_fake_dns (purge_expired (cx_dns E))) (\<lambda>_. ret ())"

primrec control_run :: "('c, 'w, 'r) app_env \<Rightarrow> control_op list \<Rightarrow> ('c, 'w, 'r) app_state \<Rightarrow> ('c, 'w, 'r) app_state list" where
  "control_run E [] s = [s]"
| "control_run E (op1 # ops) s = s # control_run E ops (fst (control E op1 s))"

end
