(* ===== verification/Network_Safety.thy ===== *)
theory Network_Safety
  imports Network
begin

text \<open>
  What the operations of the network keep, and the rollback of a failed start: unless the error reports that the
  rollback itself failed, the relay has the endpoint file that it had before. The locale \<open>relay_laws\<close> adds to
  the contract of the files that the programs the agent runs do not write that file.
\<close>

section \<open>Rules for the network\<close>

lemma undo_all_keeps: "(\<And>r. r \<in> set rs \<Longrightarrow> keeps I r) \<Longrightarrow> I w \<Longrightarrow> I (fst (undo_all rs w))"
proof (induction rs arbitrary: w)
  case (Cons r rs)
  obtain w1 r1 where r: "r w = (w1, r1)" by (metis surj_pair)
  have "I w1" using Cons.prems(1)[of r] Cons.prems(2) r by (simp add: keeps_def) (metis fst_conv)
  then have "I (fst (undo_all rs w1))" using Cons.IH Cons.prems(1) by simp
  then show ?case by (cases r1) (simp_all add: r case_prod_unfold)
qed simp

lemma keeps_or_undo:
  assumes "keeps I body" and "\<And>r. r \<in> set rs \<Longrightarrow> keeps I r"
  shows "keeps I (or_undo body rs)"
  unfolding keeps_def
proof (intro allI impI)
  fix w assume w: "I w"
  obtain w1 r1 where b: "body w = (w1, r1)" by (metis surj_pair)
  have "I w1" using assms(1) w b by (simp add: keeps_def) (metis fst_conv)
  then have u: "I (fst (undo_all rs w1))" using undo_all_keeps[OF assms(2)] by blast
  obtain w2 es where "undo_all rs w1 = (w2, es)" by (metis surj_pair)
  then show "I (fst (or_undo body rs w))" using u \<open>I w1\<close> by (cases r1; cases es) (simp_all add: or_undo_def b)
qed

lemma keeps_machine_commands:
  assumes "\<And>i w. I w \<Longrightarrow> I (fst (mc_command M args i w))"
  shows "keeps I (run_command M args)" "keeps I (command_status M args)" "keeps I (command_with_input M args text)"
    "keeps I (run_quietly M args)"
proof -
  have "fst (run_command M args w) = fst (mc_command M args None w)"
    "fst (command_status M args w) = fst (mc_command M args None w)"
    "fst (command_with_input M args text w) = fst (mc_command M args (Some text) w)" for w
    by (auto simp: run_command_def command_status_def command_with_input_def
        split: prod.splits command_end.splits option.splits bool.splits)
  then show "keeps I (run_command M args)" "keeps I (command_status M args)" "keeps I (command_with_input M args text)"
    using assms by (simp_all add: keeps_def)
  then show "keeps I (run_quietly M args)" unfolding run_quietly_def by (intro wp)
qed

lemma keeps_attempt: "keeps I m \<Longrightarrow> keeps I (attempt m)"
  by (simp add: keeps_def attempt_def case_prod_unfold split: sum.split)

text \<open>
  The programs that \<^verbatim>\<open>network.rs\<close> runs, apart from the configured mode command. They are the only ones that a
  contract speaks of: \<^verbatim>\<open>nft\<close> is run by the dataplane, and the guard helper by the init scripts alone.
\<close>

definition agent_programs :: "string set" where
  "agent_programs = {''ip'', ''wg'', ''uci'', SERVICE_COMMAND, TUNNEL_COMMAND, ''/usr/libexec/gofro/dns-flows''}"

lemma agent_program [wp]:
  "''ip'' \<in> agent_programs" "''wg'' \<in> agent_programs" "''uci'' \<in> agent_programs" "SERVICE_COMMAND \<in> agent_programs"
  "TUNNEL_COMMAND \<in> agent_programs" "''/usr/libexec/gofro/dns-flows'' \<in> agent_programs"
  by (simp_all add: agent_programs_def)

lemma keeps_programs:
  assumes "\<And>p args t w. p \<in> agent_programs \<Longrightarrow> I w \<Longrightarrow> I (fst (mc_command M (p # args) t w))" and "p \<in> agent_programs"
  shows "keeps I (run_command M (p # args))" "keeps I (command_status M (p # args))"
    "keeps I (command_with_input M (p # args) text)" "keeps I (run_quietly M (p # args))"
  by (rule keeps_machine_commands; simp add: assms)+

lemma keeps_tunnel:
  assumes "\<And>p args t w. p \<in> agent_programs \<Longrightarrow> I w \<Longrightarrow> I (fst (mc_command M (p # args) t w))"
  shows "keeps I (set_tunnel M i a)" "keeps I (stop_tunnel M i)" "keeps I (service_active M i)" "keeps I (relay_active M)"
    "keeps I (set_private_key M i k)" "keeps I (tunnel_addresses M i)" "keeps I (replace_tunnel_addresses M i as)"
    "keeps I (configured_tunnel_mtu M i)"
  unfolding set_tunnel_def stop_tunnel_def service_active_def relay_active_def set_private_key_def
    tunnel_addresses_def replace_tunnel_addresses_def configured_tunnel_mtu_def
  by (intro wp keeps_programs[of I M, OF assms]; assumption)+

lemma keeps_peer:
  assumes "\<And>p args t w. p \<in> agent_programs \<Longrightarrow> I w \<Longrightarrow> I (fst (mc_command M (p # args) t w))"
  shows "keeps I (set_peer M C i s)"
proof -
  note commands = keeps_programs[of I M, OF assms] agent_program keeps_tunnel[of I M, OF assms]
  have "keeps I (set_peer_body M i s ps ch)" for ps ch
    unfolding set_peer_body_def by (intro wp commands)
  then show ?thesis
    unfolding set_peer_def Let_def by (intro wp keeps_or_undo commands) (auto intro: commands split: if_splits)
qed

section \<open>The endpoint of the relay\<close>

lemma io_Inr: "io e f w = (w', Inr x) \<longleftrightarrow> f w = (w', Io_Ok x)"
  by (auto simp: io_def split: prod.splits io.splits)

locale relay_laws =
  host_laws "mc_host M" content time for M :: "'w machine" and content and time +
  assumes opened_content: "host_open (mc_host M) p w = (w', Io_Ok (m, b)) \<Longrightarrow> content w p = Some b"
    and opened_missing: "host_open (mc_host M) p w = (w', Missing) \<Longrightarrow> content w p = None"
    and truncated: "host_truncate (mc_host M) p w = (w', Io_Ok u) \<Longrightarrow> content w' p = Some []"
    and removed: "host_remove (mc_host M) p w = (w', Io_Ok u) \<or> host_remove (mc_host M) p w = (w', Missing) \<Longrightarrow> content w' p = None"
    and commands_keep: "p \<in> agent_programs \<Longrightarrow>
          content (fst (mc_command M (p # args) text w)) RELAY_ENDPOINT_PATH = content w RELAY_ENDPOINT_PATH"
begin

abbreviation endpoint_is :: "bytes option \<Rightarrow> 'w \<Rightarrow> bool" where
  "endpoint_is c \<equiv> \<lambda>w. content w RELAY_ENDPOINT_PATH = c"

abbreviation any_state :: "'w \<Rightarrow> bool" where
  "any_state \<equiv> \<lambda>_. True"

lemma command_endpoint:
  assumes "p \<in> agent_programs"
  shows "keeps (endpoint_is c) (run_command M (p # args))" "keeps (endpoint_is c) (command_status M (p # args))"
    "keeps (endpoint_is c) (command_with_input M (p # args) text)" "keeps (endpoint_is c) (run_quietly M (p # args))"
  by (rule keeps_programs[OF _ assms]; simp add: commands_keep)+

lemma tunnel_endpoint:
  "keeps (endpoint_is c) (set_tunnel M i a)" "keeps (endpoint_is c) (stop_tunnel M i)" "keeps (endpoint_is c) (service_active M i)"
  "keeps (endpoint_is c) (relay_active M)" "keeps (endpoint_is c) (configured_tunnel_mtu M i)" "keeps (endpoint_is c) (set_peer M C i s)"
  by (rule keeps_tunnel keeps_peer; simp add: commands_keep)+

lemma file_written:
  assumes "restore_file M RELAY_ENDPOINT_PATH contents w = (w', Inr ())"
  shows "content w' RELAY_ENDPOINT_PATH = contents"
proof (cases contents)
  case None
  then show ?thesis
    using assms removed[of RELAY_ENDPOINT_PATH w w'] by (auto simp: restore_file_def remove_file_def bnd_Inr io_opt_def ret_def split: prod.splits io.splits)
next
  case (Some c)
  let ?t = "with_extension RELAY_ENDPOINT_PATH ''restore.tmp''"
  obtain w1 w2 where "host_truncate (mc_host M) ?t w = (w1, Io_Ok ())" "host_append (mc_host M) ?t c w1 = (w2, Io_Ok ())"
    "host_rename (mc_host M) ?t RELAY_ENDPOINT_PATH w2 = (w', Io_Ok ())"
    using assms Some by (auto simp: restore_file_def bnd_Inr Let_def io_Inr)
  then have "content w1 ?t = Some []" "content w2 ?t = Some ([] @ c)" "content w' RELAY_ENDPOINT_PATH = content w2 ?t"
    using truncated appended renamed by blast+
  then show ?thesis using Some by simp
qed

lemma read_endpoint:
  assumes "read_optional M RELAY_ENDPOINT_PATH w = (w', Inr c)"
  shows "content w RELAY_ENDPOINT_PATH = c" "content w' = content w"
proof -
  have "content w' = content w" using opened[of RELAY_ENDPOINT_PATH w] assms
    by (auto simp: read_optional_def bnd_Inr io_opt_def ret_def split: prod.splits io.splits)
  then show "content w' = content w" .
  show "content w RELAY_ENDPOINT_PATH = c"
    using assms by (auto simp: read_optional_def bnd_Inr io_opt_def ret_def dest: opened_content opened_missing split: prod.splits io.splits)
qed

lemma kept_end: "keeps I m \<Longrightarrow> I w \<Longrightarrow> m w = (w', r) \<Longrightarrow> I w'"
  by (metis fst_conv keeps_def)

lemma bnd_keeps:
  assumes "keeps I m" and "I w" and "bnd m f w = (w', r)"
  obtains e where "r = Inl e" "I w'" | x w1 where "m w = (w1, Inr x)" "I w1" "f x w1 = (w', r)"
proof -
  obtain w1 r1 where m: "m w = (w1, r1)" by (metis surj_pair)
  note i = kept_end[OF assms(1,2) m]
  show thesis using assms(3) m i that by (cases r1) (auto simp: bnd_def)
qed

lemma restored_relay: "restore_relay M c = bnd (restore_file M RELAY_ENDPOINT_PATH c)
    (\<lambda>_. run_quietly M [SERVICE_COMMAND, case c of Some _ \<Rightarrow> ''restart'' | None \<Rightarrow> ''stop'', RELAY_SERVICE])"
  by (cases c) (simp_all add: restore_relay_def write_relay_endpoint_def restore_file_def)

lemma undone_endpoint:
  assumes "undo_all (rs @ [restore_relay M c]) w = (w', [])"
  shows "content w' RELAY_ENDPOINT_PATH = c"
  using assms
proof (induction rs arbitrary: w)
  case Nil
  then have "restore_relay M c w = (w', Inr ())" by (auto split: prod.splits sum.splits)
  then obtain w1 u args where f: "restore_file M RELAY_ENDPOINT_PATH c w = (w1, Inr u)" and r: "run_quietly M (SERVICE_COMMAND # args) w1 = (w', Inr ())"
    unfolding restored_relay bnd_Inr by blast
  show ?case by (rule kept_end[OF command_endpoint(4)[OF agent_program(4)] file_written r]) (use f in simp)
next
  case (Cons r rs)
  then show ?case by (auto split: prod.splits sum.splits)
qed

text \<open>In triples, an error may leave anything behind.\<close>

abbreviation gives :: "('w \<Rightarrow> bool) \<Rightarrow> ('e, 'w, 'a) operation \<Rightarrow> ('a \<Rightarrow> 'w \<Rightarrow> bool) \<Rightarrow> bool" where
  "gives P m Q \<equiv> triple P m Q (\<lambda>_ _. True)"

lemma keeps_gives: "keeps I m \<Longrightarrow> gives I m (\<lambda>_. I)"
  unfolding keeps_triple by (erule triple_weaken) auto

lemma prepared_endpoint:
  "gives (\<lambda>_. True) (prepare_relay M C server b) (\<lambda>_. endpoint_is (Some (bytes_of_str (sp_endpoint server @ [CHR 0x0A]))))"
  (is "gives _ _ (\<lambda>_. ?I)")
proof -
  let ?e = "bytes_of_str (sp_endpoint server @ [CHR 0x0A])"
  let ?P = "\<lambda>current w. map_option snd current = Some ?e \<longrightarrow> ?I w"
  have valid: "gives (\<lambda>_. True) m (\<lambda>_ _. True)" for m :: "('w, unit) net_op"
    by (simp add: triple_def split: prod.split sum.split)
  have read: "gives (\<lambda>_. True) (attempt (io File_Error (host_open (mc_host M) RELAY_ENDPOINT_PATH))) ?P"
    unfolding triple_def
  proof (intro allI impI)
    fix w
    obtain w1 r where o: "host_open (mc_host M) RELAY_ENDPOINT_PATH w = (w1, r)" by (metis surj_pair)
    have "content w1 = content w" using opened[of RELAY_ENDPOINT_PATH w] o by simp
    then show "case attempt (io File_Error (host_open (mc_host M) RELAY_ENDPOINT_PATH)) w of
        (w', Inr x) \<Rightarrow> ?P x w' | (w', Inl e) \<Rightarrow> True"
      using o opened_content[of RELAY_ENDPOINT_PATH w w1] by (cases r) (auto simp: attempt_def io_def)
  qed
  have active: "gives (?P current) (relay_active M) (\<lambda>_. ?P current)" for current
    using keeps_gives[OF tunnel_endpoint(4)] by (cases "map_option snd current = Some ?e") (simp_all add: triple_def split: prod.splits sum.splits)
  have written: "gives (\<lambda>_. True) (write_relay_endpoint M ?e) (\<lambda>_. ?I)"
    using file_written by (auto simp: triple_def write_relay_endpoint_def split: prod.split sum.split)
  have run1: "gives ?I (run_quietly M (SERVICE_COMMAND # args)) (\<lambda>_. ?I)" for args
    by (rule keeps_gives[OF command_endpoint(4)[OF agent_program(4)]])
  have "gives (?P current) (if map_option snd current \<noteq> Some ?e then write_relay_endpoint M ?e else ret ()) (\<lambda>_. ?I)" for current
  proof (cases "map_option snd current = Some ?e")
    case False
    then show ?thesis using written by (simp add: triple_def)
  qed (auto simp: triple_def ret_def)
  note changed = triple_bnd[OF this run1]
  show ?thesis
    unfolding prepare_relay_def Let_def
  proof (rule triple_bnd[OF valid], rule triple_bnd[OF read], rule triple_bnd[OF active], goal_cases)
    case (1 u current active)
    show ?case
    proof (cases "\<not> map_option snd current \<noteq> Some ?e \<and> \<not> b \<and> active")
      case True
      then show ?thesis by (simp add: triple_def ret_def)
    next
      case False
      then show ?thesis using changed[of current] by (simp only: if_False)
    qed
  qed
qed

lemma started_endpoint:
  "gives (\<lambda>_. True) (start_body M C i server mtu b) (\<lambda>_. endpoint_is (Some (bytes_of_str (sp_endpoint server @ [CHR 0x0A]))))"
  unfolding start_body_def
  by (rule triple_bnd[OF prepared_endpoint], rule keeps_gives) (intro wp tunnel_endpoint command_endpoint)

lemma undo_start:
  assumes "or_undo (start_body M C i server mtu active) (rs @ [restore_relay M previous]) w = (w', r)"
  shows "if r = Inr () then content w' RELAY_ENDPOINT_PATH = Some (bytes_of_str (sp_endpoint server @ [CHR 0x0A]))
    else (\<exists>e es. r = Inl (Undo_Failed e es)) \<or> content w' RELAY_ENDPOINT_PATH = previous"
proof -
  obtain w1 r1 where b: "start_body M C i server mtu active w = (w1, r1)" by (metis surj_pair)
  obtain w2 es where u: "undo_all (rs @ [restore_relay M previous]) w1 = (w2, es)" by (metis surj_pair)
  show ?thesis
  proof (cases r1)
    case (Inr ok)
    then show ?thesis using assms b tripleD_ok[OF started_endpoint _ b[unfolded Inr]] by (auto simp: or_undo_def)
  next
    case (Inl e)
    then show ?thesis using assms b u undone_endpoint[of rs previous w1 w2] by (cases es) (auto simp: or_undo_def)
  qed
qed

lemma start_endpoint:
  assumes s: "start_and_select M C i server w = (w', r)"
  shows "if r = Inr () then content w' RELAY_ENDPOINT_PATH = Some (bytes_of_str (sp_endpoint server @ [CHR 0x0A]))
    else (\<exists>e es. r = Inl (Undo_Failed e es)) \<or> content w' RELAY_ENDPOINT_PATH = content w RELAY_ENDPOINT_PATH"
proof -
  let ?c = "content w RELAY_ENDPOINT_PATH"
  have read: "keeps (endpoint_is ?c) (read_optional M RELAY_ENDPOINT_PATH)"
    unfolding read_optional_def by (intro wp keeps_io_opt) (simp add: opened)
  show ?thesis
    using s unfolding start_and_select_def
  proof (rule bnd_keeps[OF tunnel_endpoint(5)[of ?c i] refl], goal_cases)
    case (2 mtu w1)
    show ?case using 2(3)
    proof (rule bnd_keeps[OF read 2(2)], goal_cases)
      case (2 previous w2)
      have previous: "previous = ?c" using read_endpoint(1)[OF 2(1)] \<open>endpoint_is ?c w1\<close> by simp
      show ?case using 2(3)
      proof (rule bnd_keeps[OF tunnel_endpoint(3)[of ?c i] 2(2)], goal_cases)
        case (2 active w3)
        then show ?case using undo_start previous by blast
      qed simp
    qed simp
  qed simp
qed

end

text \<open>Starting the tunnel to a server either succeeds with the endpoint of the server in the file of the relay, or
  fails and leaves that file as it was, with the rollback of every step that it took; only an error that
  reports a failed rollback can leave another endpoint.\<close>

theorem failed_start_restores_relay:
  assumes "relay_laws M content time" and "start_and_select M C i server w = (w', r)"
  shows "if r = Inr () then content w' RELAY_ENDPOINT_PATH = Some (bytes_of_str (sp_endpoint server @ [CHR 0x0A]))
    else (\<exists>e es. r = Inl (Undo_Failed e es)) \<or> content w' RELAY_ENDPOINT_PATH = content w RELAY_ENDPOINT_PATH"
  by (rule relay_laws.start_endpoint[OF assms])

end
