(* ===== verification/Table_Rules.thy ===== *)
theory Table_Rules
  imports Dns_Answers
begin

text \<open>
  What a ruleset enforces, apart from the leases: two rulesets with the same sets, maps, chains and rules in the
  table of the agent and with the same elements, up to order, in every set that no lease is in. The scripts for
  leases keep that, and publishing the devices only exchanges the set of the devices.
\<close>

section \<open>Rulesets that enforce the same\<close>

definition lease_set :: "string \<Rightarrow> bool" where
  "lease_set s \<longleftrightarrow> s = ''fake_to_real'' \<or> s \<in> snd ` set FAKE_TARGET_SETS"

definition is_elements :: "nft_command \<Rightarrow> bool" where
  "is_elements c \<longleftrightarrow> (case c of Add_Elements _ _ _ \<Rightarrow> True | _ \<Rightarrow> False)"

text \<open>Everything that a table declares.\<close>

definition frame :: "nft_command list \<Rightarrow> nft_command list" where
  "frame rs = filter (\<lambda>c. \<not> is_elements c) (in_table TABLE rs)"

definition same_rules :: "nft_command list \<Rightarrow> nft_command list \<Rightarrow> bool" where
  "same_rules rs cs \<longleftrightarrow> frame rs = frame cs \<and>
     (\<forall>s. \<not> lease_set s \<longrightarrow> set (elements rs TABLE s) = set (elements cs TABLE s))"

definition unguarded :: "nft_command list \<Rightarrow> bool" where
  "unguarded rs \<longleftrightarrow> in_table GUARD_TABLE rs = []"

lemma same_rules_refl [simp]: "same_rules rs rs"
  by (simp add: same_rules_def)

lemma same_rules_trans: "same_rules a b \<Longrightarrow> same_rules b c \<Longrightarrow> same_rules a c"
  by (auto simp: same_rules_def)

lemma same_rules_in_table: "in_table TABLE rs = cs \<Longrightarrow> same_rules rs cs"
  using elements_in_table[of TABLE rs] by (auto simp: same_rules_def frame_def)

lemma frame_simps [simp]:
  "frame [] = []" "frame (a @ b) = frame a @ frame b"
  "frame (c # cs) = (if table_of c = TABLE \<and> \<not> is_elements c then c # frame cs else frame cs)"
  by (simp_all add: frame_def)

lemma is_elements_simps [simp]:
  "is_elements (Add_Elements t s es)" "\<not> is_elements (Destroy_Table t)" "\<not> is_elements (Add_Table t)"
  "\<not> is_elements (Add_Set t s ty)" "\<not> is_elements (Add_Map t s ty)" "\<not> is_elements (Delete_Elements t s es)"
  "\<not> is_elements (Flush_Set t s)" "\<not> is_elements (Add_Chain t ch h)" "\<not> is_elements (Add_Rule t ch items)"
  by (simp_all add: is_elements_def)

lemma other_table: "list_all (\<lambda>c. table_of c \<noteq> TABLE) cs \<Longrightarrow> same_rules (apply_script cs rs) rs"
  by (rule same_rules_trans[OF same_rules_in_table[OF refl]])
     (use same_rules_in_table[of rs "in_table TABLE rs"] in \<open>auto simp: in_table_script in_table_none same_rules_def\<close>)

section \<open>The scripts for leases\<close>

definition lease_command :: "nft_command \<Rightarrow> bool" where
  "lease_command c \<longleftrightarrow>
     (case c of
        Add_Elements t s _ \<Rightarrow> t = TABLE \<and> lease_set s
      | Delete_Elements t s _ \<Rightarrow> t = TABLE \<and> lease_set s
      | _ \<Rightarrow> False)"

lemma lease_scripts:
  "list_all lease_command (append_mappings ms)" "list_all lease_command (remove_mappings ms)"
  by (auto simp: append_mappings_def remove_mappings_def append_target_elements_def list_all_iff lease_command_def
      lease_set_def Let_def FAKE_TARGET_SETS_def split: if_splits)

lemma lease_command_rules:
  assumes "lease_command c"
  shows "same_rules (apply_command c rs) rs" and "in_table GUARD_TABLE (apply_command c rs) = in_table GUARD_TABLE rs"
proof -
  show "in_table GUARD_TABLE (apply_command c rs) = in_table GUARD_TABLE rs"
    using assms by (cases c) (simp_all add: lease_command_def in_table_command del: apply_command.simps)
  show "same_rules (apply_command c rs) rs"
  proof (cases c)
    case (Add_Elements t s es)
    then show ?thesis using assms by (auto simp: same_rules_def lease_command_def elements_append elements_Cons)
  next
    case (Delete_Elements t s gone)
    then have ts: "t = TABLE" "lease_set s" using assms by (simp_all add: lease_command_def)
    have "frame (apply_command c rs) = frame rs"
      unfolding Delete_Elements by (induction rs) (auto simp: is_elements_def split: nft_command.split)
    moreover have "elements (apply_command c rs) TABLE s' = elements rs TABLE s'" if "\<not> lease_set s'" for s'
      unfolding Delete_Elements elements_delete using that ts by auto
    ultimately show ?thesis by (simp add: same_rules_def)
  qed (use assms in \<open>simp_all add: lease_command_def\<close>)
qed

lemma lease_script_rules:
  "list_all lease_command cs \<Longrightarrow> same_rules (apply_script cs rs) rs \<and>
     in_table GUARD_TABLE (apply_script cs rs) = in_table GUARD_TABLE rs"
proof (induction cs arbitrary: rs)
  case (Cons c cs)
  then show ?case
    using same_rules_trans lease_command_rules[of c rs] Cons.IH[of "apply_command c rs"] by (metis apply_script_simps(2) list.pred_inject(2))
qed simp

section \<open>The table of a policy\<close>

definition policy_table :: "lan_context \<Rightarrow> nat \<Rightarrow> vpn_egress \<Rightarrow> 'r policy \<Rightarrow> panel_ports \<Rightarrow> mac_address list \<Rightarrow>
    nft_command list" where
  "policy_table lan port e p ports exclusions = tl (render_with_exclusions lan port e p [] ports exclusions)"

lemma render_tail: "tl (render_with_exclusions lan port e p ms ports exclusions) =
   Add_Table TABLE # render_exclusion_set TABLE exclusions @
     [Add_Map TABLE ''fake_to_real'' ''type ipv4_addr : ipv4_addr;''] @
     map (\<lambda>(_, s). Add_Set TABLE s ''type ipv4_addr;'') FAKE_TARGET_SETS @
     append_mappings ms @ rule_sets p @ chain_commands lan port e p ports"
  by (simp add: render_with_exclusions_def set_commands_def)

lemma mappings_frame [simp]: "frame (append_mappings ms) = []"
  by (auto simp: append_mappings_def append_target_elements_def frame_def in_table_def filter_empty_conv Let_def
      FAKE_TARGET_SETS_def split: if_splits)

lemma mappings_elements: "\<not> lease_set s \<Longrightarrow> elements (append_mappings ms) TABLE s = []"
  by (auto simp: append_mappings_def append_target_elements_def elements_Cons lease_set_def Let_def FAKE_TARGET_SETS_def)

lemma render_rules:
  "same_rules (tl (render_with_exclusions lan port e p ms ports exclusions)) (policy_table lan port e p ports exclusions)"
  unfolding policy_table_def render_tail same_rules_def
  by (simp add: elements_append elements_Cons mappings_elements append_mappings_def[of "[]"])

lemma applied_rules:
  assumes "rs' = apply_script (render_with_exclusions lan port e p ms ports exclusions) rs"
  shows "same_rules rs' (policy_table lan port e p ports exclusions)"
    and "in_table GUARD_TABLE rs' = in_table GUARD_TABLE rs"
  using same_rules_trans[OF same_rules_in_table[OF apply_table_script(1)[OF refl]] render_rules]
    apply_table_script(2)[OF refl] assms by blast+

section \<open>The devices\<close>

lemma in_set_simps:
  "in_set t s (Add_Elements t' s' es) \<longleftrightarrow> t' = t \<and> s' = s" "\<not> is_elements c \<Longrightarrow> \<not> in_set t s c"
  by (auto simp: in_set_def is_elements_def split: nft_command.splits)

lemma elements_none: "\<not> is_elements c \<Longrightarrow> elements (c # cs) t s = elements cs t s"
  by (simp add: elements_Cons is_elements_def split: nft_command.splits)

lemma elements_flush:
  "elements (filter (\<lambda>c. \<not> in_set t s c) rs) t' s' = (if t' = t \<and> s' = s then [] else elements rs t' s')"
proof (induction rs)
  case (Cons c cs)
  show ?case
  proof (cases "is_elements c")
    case True
    then obtain t2 s2 es where c: "c = Add_Elements t2 s2 es" by (auto simp: is_elements_def split: nft_command.splits)
    then show ?thesis using Cons by (auto simp: in_set_simps(1) elements_Cons)
  next
    case False
    then show ?thesis using Cons by (simp add: in_set_simps(2) elements_none)
  qed
qed simp

lemma frame_flush: "frame (filter (\<lambda>c. \<not> in_set t s c) rs) = frame rs"
  using in_set_simps(2) by (induction rs) auto

lemma publish_rules:
  assumes "same_rules rs (policy_table lan port e p ports X)"
  shows "same_rules (apply_script (render_publish_exclusions lan Y) rs) (policy_table lan port e p ports Y)"
proof -
  let ?add = "if Y = [] then [] else [Add_Elements TABLE ''device_exclusions'' (map El_Mac Y)]"
  let ?rs1 = "apply_command (Flush_Set TABLE ''device_exclusions'') rs"
  let ?rs2 = "apply_script ?add ?rs1"
  have guard: "list_all (\<lambda>c. table_of c \<noteq> TABLE) (render_guard_with_exclusions lan Y)"
    by (simp add: render_guard_with_exclusions_def render_exclusion_set_def)
  have eq: "apply_script (render_publish_exclusions lan Y) rs = apply_script (render_guard_with_exclusions lan Y) ?rs2"
    by (simp add: render_publish_exclusions_def del: apply_command.simps)
  have e1: "elements ?rs1 TABLE s = (if s = ''device_exclusions'' then [] else elements rs TABLE s)" for s
    by (simp add: elements_flush)
  have f2: "frame ?rs2 = frame rs" by (cases "Y = []") (simp_all add: frame_flush)
  have e2: "elements ?rs2 TABLE s = (if s = ''device_exclusions'' then map El_Mac Y else elements rs TABLE s)" for s
    using e1[of s] by (cases "Y = []") (auto simp: elements_append elements_Cons)
  have fr: "frame rs = frame (policy_table lan port e p ports Y)"
    using assms unfolding same_rules_def policy_table_def render_tail by (simp add: render_exclusion_set_def)
  have el: "set (elements rs TABLE s) = set (elements (policy_table lan port e p ports Y) TABLE s)"
    if "s \<noteq> ''device_exclusions''" "\<not> lease_set s" for s
    using assms that unfolding same_rules_def policy_table_def render_tail
    by (simp add: elements_append elements_Cons)
  have dev: "elements (policy_table lan port e p ports Y) TABLE ''device_exclusions'' = map El_Mac Y"
  proof -
    have "elements (chain_commands lan port e p ports) TABLE s = []" for s by (simp add: elements_chains)
    moreover have "elements (rule_sets p) TABLE ''device_exclusions'' = []"
      by (rule elements_rule_sets_other) (metis rule_set_names(1))
    ultimately show ?thesis unfolding policy_table_def render_tail
      by (simp add: elements_append elements_Cons elements_mappings(3) FAKE_TARGET_SETS_def)
  qed
  have "same_rules ?rs2 (policy_table lan port e p ports Y)"
    unfolding same_rules_def f2 e2 using fr el dev by auto
  then show ?thesis unfolding eq using other_table[OF guard] same_rules_trans by blast
qed

lemma publish_guards: "guarded lan Y (apply_script (render_publish_exclusions lan Y) rs)"
  by (rule publish_script_guards)

lemma publish_elements:
  assumes "s \<noteq> ''device_exclusions''"
  shows "elements (apply_script (render_publish_exclusions lan Y) rs) TABLE s = elements rs TABLE s"
proof -
  let ?rs2 = "apply_script (if Y = [] then [] else [Add_Elements TABLE ''device_exclusions'' (map El_Mac Y)])
    (apply_command (Flush_Set TABLE ''device_exclusions'') rs)"
  have "list_all (\<lambda>c. table_of c \<noteq> TABLE) (render_guard_with_exclusions lan Y)"
    by (simp add: render_guard_with_exclusions_def render_exclusion_set_def)
  then have "in_table TABLE (apply_script (render_publish_exclusions lan Y) rs) = in_table TABLE ?rs2"
    by (simp add: render_publish_exclusions_def in_table_script in_table_none del: apply_command.simps)
  then have "elements (apply_script (render_publish_exclusions lan Y) rs) TABLE s = elements ?rs2 TABLE s"
    by (metis elements_in_table)
  also have "\<dots> = elements rs TABLE s" using assms by (cases "Y = []") (auto simp: elements_append elements_Cons elements_flush)
  finally show ?thesis .
qed

section \<open>The guard\<close>

lemma guard_rules: "same_rules (apply_script (render_guard_with_exclusions lan X) rs) rs"
  by (rule other_table) (simp add: render_guard_with_exclusions_def render_exclusion_set_def)

lemma unguard_rules: "same_rules (apply_script [Destroy_Table GUARD_TABLE] rs) rs"
    "unguarded (apply_script [Destroy_Table GUARD_TABLE] rs)"
  by (rule other_table, simp) (simp add: unguarded_def in_table_def)

section \<open>The leases\<close>

lemma applied_leases:
  assumes "rs' = apply_script (render_with_exclusions lan port e p ms ports exclusions) rs"
  shows "translated rs' (set ms)"
proof -
  have el: "elements rs' TABLE s = elements (append_mappings ms) TABLE s" if "lease_set s" for s
  proof -
    have "elements rs' TABLE s = elements (in_table TABLE rs') TABLE s" by (simp add: elements_in_table)
    also have "in_table TABLE rs' = tl (render_with_exclusions lan port e p ms ports exclusions)"
      unfolding assms by (rule apply_table_script(1)[OF refl])
    also have "elements (tl (render_with_exclusions lan port e p ms ports exclusions)) TABLE s =
        elements (append_mappings ms) TABLE s"
    proof -
      have "s \<noteq> ''device_exclusions''" using that by (auto simp: lease_set_def FAKE_TARGET_SETS_def)
      moreover have "elements (rule_sets p) TABLE s = []"
        using that rule_set_names by (intro elements_rule_sets_other) (fastforce simp: lease_set_def)
      ultimately show ?thesis unfolding render_tail
        by (simp add: elements_append elements_Cons elements_chains FAKE_TARGET_SETS_def)
    qed
    finally show ?thesis .
  qed
  show ?thesis
    unfolding translated_def
  proof (intro conjI ballI)
    show "set (elements rs' TABLE ''fake_to_real'') = (\<lambda>m. El_Map (fm_fake m) (fm_real m)) ` set ms"
      by (subst el) (simp_all add: lease_set_def elements_mappings(2))
    fix x assume x: "x \<in> set FAKE_TARGET_SETS"
    obtain t s where ts: "x = (t, s)" by (cases x)
    have "lease_set s" using x ts by (force simp: lease_set_def)
    then have "elements rs' TABLE s = map (\<lambda>m. El_Addr (fm_fake m)) (filter (\<lambda>m. fm_target m = t) ms)"
      using el elements_mappings(1)[of t s ms] x ts by simp
    then show "case x of (t, s) \<Rightarrow> set (elements rs' TABLE s) = (\<lambda>m. El_Addr (fm_fake m)) ` {m \<in> set ms. fm_target m = t}"
      using ts by simp
  qed
qed

lemma translated_same:
  assumes "\<And>s. lease_set s \<Longrightarrow> elements rs' TABLE s = elements rs TABLE s" and "translated rs M"
  shows "translated rs' M"
proof -
  have "lease_set ''fake_to_real''" "(t, s) \<in> set FAKE_TARGET_SETS \<Longrightarrow> lease_set s" for t s
    by (force simp: lease_set_def)+
  then show ?thesis using assms by (auto simp: translated_def)
qed

lemma translated_in_table: "in_table TABLE rs' = in_table TABLE rs \<Longrightarrow> translated rs M \<Longrightarrow> translated rs' M"
  by (rule translated_same[of rs' rs]) (metis elements_in_table)

lemma in_table_unguard: "in_table TABLE (filter (\<lambda>c. table_of c \<noteq> GUARD_TABLE) rs) = in_table TABLE rs"
  by (induction rs) auto

lemma kept_translations:
  assumes "translated rs M"
  shows "translated (apply_script (render_publish_exclusions lan Y) rs) M"
    and "translated (apply_script (render_guard_with_exclusions lan Y) rs) M"
    and "translated (apply_script [Destroy_Table GUARD_TABLE] rs) M"
proof -
  show "translated (apply_script (render_publish_exclusions lan Y) rs) M"
    by (rule translated_same[OF publish_elements assms]) (auto simp: lease_set_def FAKE_TARGET_SETS_def)
  show "translated (apply_script (render_guard_with_exclusions lan Y) rs) M"
    by (rule translated_in_table[OF _ assms])
      (simp add: in_table_script render_guard_with_exclusions_def render_exclusion_set_def in_table_unguard)
  show "translated (apply_script [Destroy_Table GUARD_TABLE] rs) M"
    by (rule translated_in_table[OF _ assms]) (simp add: in_table_unguard)
qed

end
