(* ===== verification/Controller_View.thy ===== *)
theory Controller_View
  imports Controller_Ops Network_Safety Table_Rules
begin

text \<open>
  What the steps of the controller do to the part of its state that matters for forwarding: the ruleset in the
  kernel, the configuration and the policy in force, the mark of a degraded routing and the leases. The files and
  the programs the controller runs leave the ruleset alone; the locale \<open>control_laws\<close> says so of the machine,
  for the programs of \<open>agent_programs\<close> and the mode command only. The guard helper
  (\<^verbatim>\<open>usr/libexec/gofro/guard\<close>) does write the ruleset with \<^verbatim>\<open>nft -f\<close>; the init scripts run it
  before the agent starts, at boot and when it stops, under the lock of \<open>lock_apply\<close>, and the agent never does.
\<close>

section \<open>The contract of the machine\<close>

locale control_laws =
  dns_laws "cx_dns E" ruleset mark_of peer_of sent rows
  for E :: "('c, 'w, 'r) app_env" and ruleset and mark_of and peer_of and sent and rows +
  assumes command_kept: "p \<in> insert (cx_mode_command E) agent_programs \<Longrightarrow>
          ruleset (fst (mc_command (cx_machine E) (p # args) text w)) = ruleset w"
    and lstat_kept: "ruleset (fst (mc_lstat (cx_machine E) p w)) = ruleset w"
    and chmod_kept: "ruleset (fst (mc_chmod (cx_machine E) p n w)) = ruleset w"
    and count_kept: "ruleset (fst (mc_fetch_add (cx_machine E) w)) = ruleset w"
    and mkdir_kept: "ruleset (fst (mc_mkdir_all (cx_machine E) p n w)) = ruleset w"
    and link_kept: "ruleset (fst (mc_link (cx_machine E) p q w)) = ruleset w"
    and read_dir_kept: "ruleset (fst (mc_read_dir (cx_machine E) p w)) = ruleset w"
    and open_file_kept: "ruleset (fst (mc_open_file (cx_machine E) p w)) = ruleset w"
    and create_lock_kept: "ruleset (fst (mc_create_lock (cx_machine E) p w)) = ruleset w"
    and open_lock_kept: "ruleset (fst (mc_open_lock (cx_machine E) p w)) = ruleset w"
    and try_lock_kept: "ruleset (fst (mc_try_lock (cx_machine E) p w)) = ruleset w"
    and open_kept: "ruleset (fst (host_open (mc_host (cx_machine E)) p w)) = ruleset w"
    and create_kept: "ruleset (fst (host_create_new (mc_host (cx_machine E)) p w)) = ruleset w"
    and truncate_kept: "ruleset (fst (host_truncate (mc_host (cx_machine E)) p w)) = ruleset w"
    and append_kept: "ruleset (fst (host_append (mc_host (cx_machine E)) p b w)) = ruleset w"
    and sync_kept: "ruleset (fst (host_sync (mc_host (cx_machine E)) p w)) = ruleset w"
    and rename_kept: "ruleset (fst (host_rename (mc_host (cx_machine E)) p q w)) = ruleset w"
    and remove_kept: "ruleset (fst (host_remove (mc_host (cx_machine E)) p w)) = ruleset w"

section \<open>Quiet operations on the machine\<close>

definition quiet :: "('w \<Rightarrow> nft_command list) \<Rightarrow> ('e, 'w, 'a) operation \<Rightarrow> bool" where
  "quiet ruleset m \<longleftrightarrow> (\<forall>rs. keeps (\<lambda>w. ruleset w = rs) m)"

lemma quietI: "(\<And>rs. keeps (\<lambda>w. ruleset w = rs) m) \<Longrightarrow> quiet ruleset m"
  by (simp add: quiet_def)

lemma quietD: "quiet ruleset m \<Longrightarrow> ruleset (fst (m w)) = ruleset w"
  by (simp add: quiet_def keeps_def)

context control_laws
begin

abbreviation kept_rules :: "nft_command list \<Rightarrow> 'w \<Rightarrow> bool" where
  "kept_rules rs \<equiv> \<lambda>w. ruleset w = rs"

lemmas machine_kept = lstat_kept chmod_kept count_kept mkdir_kept link_kept read_dir_kept open_file_kept create_lock_kept
  open_lock_kept try_lock_kept open_kept create_kept truncate_kept append_kept sync_kept rename_kept remove_kept

lemma command_rules:
  assumes "p \<in> agent_programs"
  shows "keeps (kept_rules rs) (run_command (cx_machine E) (p # args))" "keeps (kept_rules rs) (command_status (cx_machine E) (p # args))"
    "keeps (kept_rules rs) (command_with_input (cx_machine E) (p # args) text)" "keeps (kept_rules rs) (run_quietly (cx_machine E) (p # args))"
  by (rule keeps_programs[OF _ assms]; simp add: command_kept)+

lemma mode_rules: "keeps (kept_rules rs) (run_quietly (cx_machine E) (cx_mode_command E # args))"
  by (rule keeps_machine_commands) (simp add: command_kept)

lemmas machine_rules = wp keeps_io keeps_io_opt keeps_observe command_rules mode_rules keeps_or_undo keeps_attempt

lemma lock_keeps: "keeps (kept_rules rs) (lock_apply_path (cx_machine E) p)"
proof -
  have "keeps (kept_rules rs) (safe_ancestor (cx_machine E) q)" for q
    unfolding safe_ancestor_def by (intro machine_rules) (simp add: machine_kept)
  then show ?thesis
    unfolding lock_apply_path_def Let_def
    by (intro machine_rules) (auto simp: machine_kept intro!: machine_rules split: create_end.split lock_end.split)
qed

lemma file_keeps:
  "keeps (kept_rules rs) (read_optional (cx_machine E) p)" "keeps (kept_rules rs) (remove_file (cx_machine E) p)"
  "keeps (kept_rules rs) (restore_file (cx_machine E) p c)" "keeps (kept_rules rs) (write_relay_endpoint (cx_machine E) b)"
proof -
  show rm: "keeps (kept_rules rs) (remove_file (cx_machine E) p)" for p
    unfolding remove_file_def by (intro machine_rules) (simp add: machine_kept)
  show re: "keeps (kept_rules rs) (restore_file (cx_machine E) p c)" for p c
    unfolding restore_file_def Let_def by (cases c) (auto simp: machine_kept intro!: machine_rules rm)
  show "keeps (kept_rules rs) (read_optional (cx_machine E) p)"
    unfolding read_optional_def by (intro machine_rules) (simp add: machine_kept)
  show "keeps (kept_rules rs) (write_relay_endpoint (cx_machine E) b)"
    unfolding write_relay_endpoint_def by (rule re)
qed

lemma tunnel_keeps:
  "keeps (kept_rules rs) (set_tunnel (cx_machine E) i a)" "keeps (kept_rules rs) (stop_tunnel (cx_machine E) i)"
  "keeps (kept_rules rs) (service_active (cx_machine E) i)" "keeps (kept_rules rs) (relay_active (cx_machine E))"
  "keeps (kept_rules rs) (tunnel_addresses (cx_machine E) i)" "keeps (kept_rules rs) (replace_tunnel_addresses (cx_machine E) i as)"
  "keeps (kept_rules rs) (configured_tunnel_mtu (cx_machine E) i)"
  by (rule keeps_tunnel; simp add: command_kept)+

lemma relay_keeps:
  "keeps (kept_rules rs) (prepare_relay (cx_machine E) C s b)" "keeps (kept_rules rs) (restore_relay (cx_machine E) e)"
proof -
  show "keeps (kept_rules rs) (prepare_relay (cx_machine E) C s b)"
    unfolding prepare_relay_def Let_def by (intro machine_rules tunnel_keeps file_keeps) (simp add: machine_kept)
  show "keeps (kept_rules rs) (restore_relay (cx_machine E) e)"
    unfolding restore_relay_def by (cases e) (auto intro!: machine_rules file_keeps)
qed

lemma peer_keeps: "keeps (kept_rules rs) (set_peer (cx_machine E) C i s)"
  by (rule keeps_peer) (simp add: command_kept)

lemma start_keeps: "keeps (kept_rules rs) (start_and_select (cx_machine E) C i s)"
proof -
  have "keeps (kept_rules rs) (start_body (cx_machine E) C i s mtu b)" for mtu b
    unfolding start_body_def by (intro machine_rules tunnel_keeps relay_keeps peer_keeps)
  then show ?thesis
    unfolding start_and_select_def by (intro machine_rules tunnel_keeps file_keeps) (auto intro: relay_keeps tunnel_keeps split: if_splits)
qed

lemma mode_keeps:
  "keeps (kept_rules rs) (apply_mode (cx_machine E) N (cx_mode_command E) lan b)" "keeps (kept_rules rs) (cleanup_dns_flows (cx_machine E) d n)"
  "keeps (kept_rules rs) (retire_legacy_routing (cx_machine E) p)"
  "keeps (kept_rules rs) (capture (cx_machine E) i)" "keeps (kept_rules rs) (restore (cx_machine E) i sn)"
  unfolding apply_mode_def cleanup_dns_flows_def retire_legacy_routing_def capture_def restore_def
  by (intro machine_rules tunnel_keeps file_keeps)+

lemma save_keeps:
  "keeps (kept_rules rs) (save_config (cx_machine E) j p c)" "keeps (kept_rules rs) (sync_committed (cx_machine E) p)"
  unfolding save_config_def sync_committed_def Let_def by (intro machine_rules, simp_all add: machine_kept)+

lemma pins_keep: "keeps (kept_rules rs) (preserve_host_pins (cx_machine E) C d c)"
proof -
  let ?K = "kept_rules rs"
  have dir: "keeps ?K (management_directory (cx_machine E) d)"
    unfolding management_directory_def sync_ancestor_def by (intro machine_rules) (simp_all add: machine_kept)
  have key: "keeps ?K (stored_key (cx_machine E) p m)" for p m
    unfolding stored_key_def by (intro machine_rules) (simp_all add: machine_kept)
  have publish: "keeps ?K (publish_pin (cx_machine E) t p k)" for t p k
    unfolding publish_pin_def by (intro machine_rules) (auto simp: machine_kept intro: wp split: create_end.split)
  have removed: "fst (then_remove (cx_machine E) t body w) = fst (host_remove (mc_host (cx_machine E)) t (fst (body w)))"
    for t body w by (simp add: then_remove_def case_prod_unfold)
  have then_removed: "keeps ?K (then_remove (cx_machine E) t body)" if "keeps ?K body" for t body
    using that by (simp add: keeps_def removed remove_kept)
  have new: "keeps ?K (new_pin (cx_machine E) d p k)" for p k
    unfolding new_pin_def temporary_path_def by (intro machine_rules then_removed publish) (simp_all add: machine_kept)
  have left_over: "keeps ?K (drop_alias (cx_machine E) d m n)" for m n
    unfolding drop_alias_def by (intro machine_rules) (auto simp: machine_kept intro!: machine_rules)
  have recover: "keeps ?K (recover_aliases (cx_machine E) d m)" for m
    unfolding recover_aliases_def by (intro machine_rules left_over) (simp add: machine_kept)
  have check: "keeps ?K (check_pin (cx_machine E) d p k)" for p k
    unfolding check_pin_def settle_pin_def by (intro machine_rules key recover) (simp_all add: machine_kept)
  have "keeps ?K (pin_host (cx_machine E) C d h n k)" for h n k
    unfolding pin_host_def Let_def by (intro machine_rules dir new check) (simp add: machine_kept)
  then show ?thesis unfolding preserve_host_pins_def by (intro wp)
qed

end

end
