(* ===== verification/Controller_Steps.thy ===== *)
theory Controller_Steps
  imports Controller_View
begin

text \<open>
  The effect of every step of the controller on what matters for forwarding, the record \<open>view\<close> of a state:
  quiet steps leave it alone, and the scripts of \<^verbatim>\<open>nft\<close> change the ruleset as a whole or not at all.
\<close>

section \<open>The view of a state\<close>

record ('c, 'r) view =
  v_rules :: "nft_command list"
  v_config :: controller_config
  v_policy :: "'r policy"
  v_degraded :: bool
  v_store :: "'c store"

definition view_of :: "('w \<Rightarrow> nft_command list) \<Rightarrow> ('c, 'w, 'r) app_state \<Rightarrow> ('c, 'r) view" where
  "view_of ruleset s = \<lparr>v_rules = ruleset (app_world s), v_config = app_config s, v_policy = app_policy s,
     v_degraded = app_degraded s, v_store = fd_store (app_dns s)\<rparr>"

definition calm :: "('w \<Rightarrow> nft_command list) \<Rightarrow> ('c, 'w, 'r, 'a) app_op \<Rightarrow> bool" where
  "calm ruleset m \<longleftrightarrow> (\<forall>s. view_of ruleset (fst (m s)) = view_of ruleset s)"

lemma calmD: "calm ruleset m \<Longrightarrow> m s = (s', r) \<Longrightarrow> view_of ruleset s' = view_of ruleset s"
  unfolding calm_def by (metis fst_conv)

lemma calm_bnd: "calm ruleset m \<Longrightarrow> (\<And>x. calm ruleset (f x)) \<Longrightarrow> calm ruleset (bnd m f)"
  unfolding calm_def bnd_def by (simp split: prod.split sum.split) (metis fst_conv)

lemma calm_pure: "calm ruleset (ret x)" "calm ruleset (throw e)" "calm ruleset (lift r)" "calm ruleset (require b e)"
  by (simp_all add: calm_def ret_def throw_def lift_def require_def)

lemma calm_if: "calm ruleset m \<Longrightarrow> calm ruleset n \<Longrightarrow> calm ruleset (if b then m else n)"
  by simp

lemma calm_option: "calm ruleset m \<Longrightarrow> (\<And>x. calm ruleset (f x)) \<Longrightarrow> calm ruleset (case r of None \<Rightarrow> m | Some x \<Rightarrow> f x)"
  by (simp split: option.split)

lemma calm_locks: "calm ruleset lock_config" "calm ruleset lock_routing" "calm ruleset not_degraded"
    "calm ruleset (on_fake_dns begin_update)"
  by (simp_all add: calm_def lock_config_def lock_routing_def not_degraded_def on_fake_dns_def begin_update_def)

lemma calm_compile: "calm ruleset (compile_policy E rc)"
  by (simp add: calm_def compile_policy_def view_of_def app_world_def split: prod.split)

lemma view_on_machine:
  "view_of ruleset (fst (on_machine err m s)) = (view_of ruleset s)\<lparr>v_rules := ruleset (fst (m (app_world s)))\<rparr>"
  by (simp add: view_of_def on_machine_def app_world_def split: prod.split)

lemma calm_machine:
  assumes "\<And>rs. keeps (\<lambda>w. ruleset w = rs) m"
  shows "calm ruleset (on_machine err m)"
proof -
  have "ruleset (fst (m w)) = ruleset w" for w using assms[of "ruleset w"] by (simp add: keeps_def)
  then show ?thesis by (simp add: calm_def view_on_machine) (simp add: view_of_def)
qed

lemmas calm_rules = calm_bnd calm_pure calm_if calm_option calm_locks calm_compile

lemma bnd_calm:
  assumes "calm ruleset m" and "bnd m f s = (s', r)"
  obtains e where "r = Inl e" "view_of ruleset s' = view_of ruleset s"
    | x s1 where "m s = (s1, Inr x)" "view_of ruleset s1 = view_of ruleset s" "f x s1 = (s', r)"
proof -
  obtain s1 r1 where m: "m s = (s1, r1)" by (metis surj_pair)
  note v = calmD[OF assms(1) m]
  show thesis using assms(2) m v that by (cases r1) (auto simp: bnd_def)
qed

definition targets_current :: "'r policy \<Rightarrow> 'c store \<Rightarrow> bool" where
  "targets_current p st \<longleftrightarrow>
     (\<forall>e \<in> set (leases st). fm_target (mapping (snd e)) = Routing.target p (fst (fst e)) (fm_real (mapping (snd e))))"

definition table_for :: "('c, 'w, 'r) app_env \<Rightarrow> controller_config \<Rightarrow> 'r policy \<Rightarrow> mac_address list \<Rightarrow> nft_command list" where
  "table_for E c p X = policy_table (cx_lan E) (unat (cx_dns_port E)) (egress_from_config (cx_net E) c) p (cx_ports E) X"

section \<open>Quiet steps\<close>

context control_laws
begin

lemma calm_steps:
  "calm ruleset (lock_apply E)" "calm ruleset (save_file E c)" "calm ruleset (flush_dns E)"
  "calm ruleset (on_machine Save (sync_committed (cx_machine E) (cx_config_path E)))"
  "calm ruleset (on_machine Net (retire_legacy_routing (cx_machine E) (cx_config_path E)))"
  "calm ruleset (on_machine Pin (preserve_host_pins (cx_machine E) C d c))"
  "calm ruleset (change_mode E m)"
  unfolding lock_apply_def save_file_def flush_dns_def change_mode_def
  by (intro calm_machine lock_keeps save_keeps mode_keeps pins_keep)+

lemma calm_network: "calm ruleset (apply_network E c)"
  unfolding apply_network_def by (intro calm_rules calm_steps calm_machine start_keeps tunnel_keeps)

lemma calm_snapshot: "calm ruleset (take_snapshot E ch)"
  unfolding take_snapshot_def by (intro calm_rules calm_machine mode_keeps)

lemma calm_undo_network: "calm ruleset (undo_network E c previous)"
  unfolding undo_network_def by (intro calm_rules calm_network calm_machine mode_keeps)

section \<open>Scripts\<close>

lemma script_step:
  assumes "on_machine Nft (run_nft (de_nft (cx_dns E)) cs) s = (s', r)"
  obtains "r = Inr ()" "view_of ruleset s' = (view_of ruleset s)\<lparr>v_rules := apply_script cs (v_rules (view_of ruleset s))\<rparr>"
    | e where "r = Inl (Nft e)" "view_of ruleset s' = view_of ruleset s"
proof -
  obtain w r1 where m: "run_nft (de_nft (cx_dns E)) cs (app_world s) = (w, r1)" by (metis surj_pair)
  have v: "view_of ruleset s' = (view_of ruleset s)\<lparr>v_rules := ruleset w\<rparr>"
    using view_on_machine[of ruleset Nft "run_nft (de_nft (cx_dns E)) cs" s] assms m by simp
  have r: "r = map_sum Nft id r1" using assms m by (simp add: on_machine_def)
  show thesis
  proof (cases r1)
    case (Inl e)
    then have "ruleset w = ruleset (app_world s)" using nft.run_nft_error m by blast
    then show ?thesis using that(2)[of e] r v Inl by (simp add: view_of_def)
  next
    case (Inr u)
    then have "ruleset w = apply_script cs (ruleset (app_world s))" using nft.run_nft_ok m by blast
    then show ?thesis using that(1) r v Inr by (simp add: view_of_def)
  qed
qed

lemma put_guard_step:
  assumes "put_guard E X s = (s', r)"
  obtains "r = Inr ()"
      "view_of ruleset s' = (view_of ruleset s)\<lparr>v_rules := apply_script (render_guard_with_exclusions (cx_lan E) X) (v_rules (view_of ruleset s))\<rparr>"
    | e where "r = Inl (Nft e)" "view_of ruleset s' = view_of ruleset s"
  using assms script_step unfolding put_guard_def install_guard_def by metis

lemma publish_step:
  assumes "publish_devices E X s = (s', r)"
  obtains "r = Inr ()"
      "view_of ruleset s' = (view_of ruleset s)\<lparr>v_rules := apply_script (render_publish_exclusions (cx_lan E) X) (v_rules (view_of ruleset s))\<rparr>"
    | e where "r = Inl (Nft e)" "view_of ruleset s' = view_of ruleset s"
  using assms script_step unfolding publish_devices_def publish_exclusions_def by metis

lemma drop_guard_step:
  assumes "drop_guard E s = (s', r)"
  obtains "r = Inr ()"
      "view_of ruleset s' = (view_of ruleset s)\<lparr>v_rules := apply_script [Destroy_Table GUARD_TABLE] (v_rules (view_of ruleset s))\<rparr>"
    | e where "r = Inl (Guard_Remains e)" "view_of ruleset s' = (view_of ruleset s)\<lparr>v_degraded := True\<rparr>"
proof -
  obtain s1 r1 where m: "on_machine Nft (clear_guard (de_nft (cx_dns E))) s = (s1, r1)" by (metis surj_pair)
  show thesis
  proof (rule script_step[OF m[unfolded clear_guard_def]], goal_cases)
    case 1
    then show ?case using that(1) assms m by (simp add: drop_guard_def)
  next
    case (2 e)
    moreover have "view_of ruleset (s1\<lparr>app_degraded := True\<rparr>) = (view_of ruleset s1)\<lparr>v_degraded := True\<rparr>"
      by (simp add: view_of_def app_world_def)
    ultimately show ?case using that(2)[of "Nft e"] assms m by (auto simp: drop_guard_def)
  qed
qed

section \<open>The policy\<close>

lemma commit_step:
  assumes "on_fake_dns (dns_commit_targets (cx_dns E) p) s = (s', r)"
  shows "\<exists>st. view_of ruleset s' = (view_of ruleset s)\<lparr>v_store := st\<rparr> \<and>
    (r = Inr () \<longrightarrow> mappings_of st = set (reclassified p (v_store (view_of ruleset s))) \<and> targets_current p st)"
proof -
  have store: "mappings_of st' = set (reclassified p st) \<and> targets_current p st'"
    if "commit_targets (de_db (cx_dns E)) p st = (st', Inr u)" for st st' u
  proof
    show "mappings_of st' = set (reclassified p st)"
      using that by (auto simp: commit_targets_def mappings_of_def reclassified_def image_image split: sum.splits)
    show "targets_current p st'"
      using that by (auto simp: commit_targets_def targets_current_def reclassify_def split: sum.splits)
  qed
  obtain d r1 where d: "dns_commit_targets (cx_dns E) p (app_dns s) = (d, r1)" by (metis surj_pair)
  then have world: "dns_world d = dns_world (app_dns s)"
    by (auto simp: dns_commit_targets_def with_store_def on_store_def split: if_splits prod.splits)
  have "r1 = Inr () \<longrightarrow> mappings_of (fd_store d) = set (reclassified p (fd_store (app_dns s))) \<and> targets_current p (fd_store d)"
    using d store[of "fd_store (app_dns s)"]
    by (auto simp: dns_commit_targets_def with_store_def on_store_def map_sum_Inr split: if_splits prod.splits)
  moreover have "view_of ruleset s' = (view_of ruleset s)\<lparr>v_store := fd_store d\<rparr>" "r = map_sum Dns id r1"
    using assms d world by (auto simp: on_fake_dns_def view_of_def app_world_def)
  ultimately show ?thesis by (cases r1) (auto simp: view_of_def)
qed

lemma apply_policy_step:
  assumes "apply_policy E c p X s = (s', r)"
  obtains rs st where "view_of ruleset s' = (view_of ruleset s)\<lparr>v_rules := rs, v_store := st\<rparr>"
    and "in_table GUARD_TABLE rs = in_table GUARD_TABLE (v_rules (view_of ruleset s))"
    and "r = Inr () \<Longrightarrow> same_rules rs (table_for E c p X) \<and> translated rs (mappings_of st) \<and> targets_current p st"
proof -
  let ?v = "view_of ruleset s"
  obtain s1 r1 where rec: "on_fake_dns (dns_reclassified p) s = (s1, r1)" by (metis surj_pair)
  have v1: "view_of ruleset s1 = ?v" and ms: "r1 = Inr ms \<Longrightarrow> ms = reclassified p (v_store ?v)" for ms
    using rec by (auto simp: on_fake_dns_def dns_reclassified_def with_store_def view_of_def app_world_def split: if_splits)
  show thesis
  proof (cases r1)
    case (Inl e)
    then show ?thesis using that[of "v_store ?v" "v_rules ?v"] assms rec v1 by (auto simp: apply_policy_def bnd_def)
  next
    case (Inr ms1)
    let ?cs = "render_with_exclusions (cx_lan E) (unat (cx_dns_port E)) (egress_from_config (cx_net E) c) p ms1 (cx_ports E) X"
    obtain s2 r2 where run: "on_machine Nft (run_nft (de_nft (cx_dns E)) ?cs) s1 = (s2, r2)" by (metis surj_pair)
    have rest: "(case r2 of Inl e \<Rightarrow> (s2, Inl e) | Inr _ \<Rightarrow> on_fake_dns (dns_commit_targets (cx_dns E) p) s2) = (s', r)"
      using assms rec Inr run by (simp add: apply_policy_def bnd_def apply_table_def split: sum.splits)
    show ?thesis
    proof (rule script_step[OF run], goal_cases)
      case 1
      let ?rs = "apply_script ?cs (v_rules ?v)"
      have v2: "view_of ruleset s2 = ?v\<lparr>v_rules := ?rs\<rparr>" using 1(2) v1 by simp
      obtain st where st: "view_of ruleset s' = (view_of ruleset s2)\<lparr>v_store := st\<rparr>"
          "r = Inr () \<longrightarrow> mappings_of st = set (reclassified p (v_store (view_of ruleset s2))) \<and> targets_current p st"
        using commit_step[of p s2 s' r] rest 1(1) by auto
      show ?case
      proof (rule that[of st ?rs])
        show "view_of ruleset s' = ?v\<lparr>v_rules := ?rs, v_store := st\<rparr>" using st(1) v2 by simp
        show "in_table GUARD_TABLE ?rs = in_table GUARD_TABLE (v_rules ?v)" by (rule applied_rules(2)[OF refl])
        show "same_rules ?rs (table_for E c p X) \<and> translated ?rs (mappings_of st) \<and> targets_current p st" if "r = Inr ()"
        proof -
          have "same_rules ?rs (table_for E c p X)" unfolding table_for_def by (rule applied_rules(1)[OF refl])
          moreover have "translated ?rs (set ms1)" by (rule applied_leases[OF refl])
          ultimately show ?thesis using st(2) that v2 ms[OF Inr] by simp
        qed
      qed
    next
      case (2 e)
      then show ?case using that[of "v_store ?v" "v_rules ?v"] rest v1 by auto
    qed
  qed
qed

end

end
