(* ===== verification/Controller_Safety.thy ===== *)
theory Controller_Safety
  imports Controller_Steps
begin

text \<open>
  Every change of the configuration is atomic for forwarding: it ends with the new configuration in force, or
  with the old one in force, or behind the guard with the routing marked as degraded. Over any run of the
  controller the LAN is never forwarded by rules other than those of the configuration in force, unless the
  guard is there.
\<close>

section \<open>Configurations in force\<close>

definition in_force :: "('c, 'w, 'r) app_env \<Rightarrow> ('c, 'r) view \<Rightarrow> bool" where
  "in_force E v \<longleftrightarrow> same_rules (v_rules v) (table_for E (v_config v) (v_policy v) (device_exclusions (v_config v)))"

definition settled :: "('c, 'w, 'r) app_env \<Rightarrow> ('c, 'r) view \<Rightarrow> bool" where
  "settled E v \<longleftrightarrow> \<not> v_degraded v \<and> in_force E v \<and> unguarded (v_rules v)"

definition leases_current :: "('c, 'r) view \<Rightarrow> bool" where
  "leases_current v \<longleftrightarrow> translated (v_rules v) (mappings_of (v_store v)) \<and> targets_current (v_policy v) (v_store v)"

definition guarded_for :: "('c, 'w, 'r) app_env \<Rightarrow> mac_address list set \<Rightarrow> ('c, 'r) view \<Rightarrow> bool" where
  "guarded_for E Xs v \<longleftrightarrow> (\<exists>X \<in> Xs. guarded (cx_lan E) X (v_rules v))"

lemma view_updates:
  "view_of ruleset (s\<lparr>app_degraded := b\<rparr>) = (view_of ruleset s)\<lparr>v_degraded := b\<rparr>"
  "view_of ruleset (s\<lparr>app_config := c\<rparr>) = (view_of ruleset s)\<lparr>v_config := c\<rparr>"
  "view_of ruleset (committed c p s) = (view_of ruleset s)\<lparr>v_config := c, v_policy := p\<rparr>"
  by (simp_all add: view_of_def app_world_def committed_def set_vpn_enabled_def)

lemma view_states:
  "v_config (view_of ruleset s) = app_config s" "v_policy (view_of ruleset s) = app_policy s"
  "v_degraded (view_of ruleset s) = app_degraded s"
  by (simp_all add: view_of_def)

lemma guard_kept: "in_table GUARD_TABLE rs' = in_table GUARD_TABLE rs \<Longrightarrow> guarded lan X rs \<Longrightarrow> guarded lan X rs'"
  by (simp add: guarded_def)

text \<open>The steps before the file is written do not report a published file.\<close>

definition unpublished :: "('c, 'w, 'r, 'a) app_op \<Rightarrow> bool" where
  "unpublished m \<longleftrightarrow> (\<forall>s. snd (m s) \<noteq> Inl (Save Published_Save))"

lemma unpublished_bnd: "unpublished m \<Longrightarrow> (\<And>x. unpublished (f x)) \<Longrightarrow> unpublished (bnd m f)"
  unfolding unpublished_def bnd_def by (simp split: prod.split sum.split) (metis snd_conv)

lemma unpublished_pure: "unpublished (ret x)" "r \<noteq> Inl (Save Published_Save) \<Longrightarrow> unpublished (lift r)"
  by (simp_all add: unpublished_def ret_def lift_def)

lemma unpublished_if: "unpublished m \<Longrightarrow> unpublished n \<Longrightarrow> unpublished (if b then m else n)"
  by simp

lemma unpublished_machine: "(\<And>e. err e \<noteq> Save Published_Save) \<Longrightarrow> unpublished (on_machine err m)"
  by (auto simp: unpublished_def on_machine_def map_sum_Inl split: prod.split dest: sym)

lemma unpublished_dns: "unpublished (on_fake_dns m)"
  by (auto simp: unpublished_def on_fake_dns_def map_sum_Inl split: prod.split)

lemma unpublished_network: "unpublished (apply_network E c)"
proof -
  have "active_server c \<noteq> Inl (Save Published_Save)"
    by (auto simp: active_server_def ok_or_def split: option.splits)
  then show ?thesis
    unfolding apply_network_def change_mode_def
    by (intro unpublished_if unpublished_bnd unpublished_pure unpublished_machine) auto
qed

lemma unpublished_policy: "unpublished (apply_policy E c p X)"
  unfolding apply_policy_def by (intro unpublished_bnd unpublished_dns unpublished_machine) auto

context control_laws
begin

section \<open>Failures after the commit\<close>

lemma repair_step:
  assumes "repair E b X s = (s', r)"
  shows "(view_of ruleset s' = view_of ruleset s \<and> r \<noteq> Inr ()) \<or>
    view_of ruleset s' = (view_of ruleset s)\<lparr>v_rules := apply_script (render_publish_exclusions (cx_lan E) X) (v_rules (view_of ruleset s))\<rparr>"
proof -
  have calm: "calm ruleset (if b then on_machine Save (sync_committed (cx_machine E) (cx_config_path E)) else ret ())"
    by (intro calm_rules calm_steps)
  show ?thesis
    using assms unfolding repair_def by (rule bnd_calm[OF calm]) (auto elim: publish_step)
qed

lemma committed_failure_step:
  assumes "committed_failure E b e s = (s', r)"
  obtains es where "r = Inl (Committed e es)" "v_config (view_of ruleset s') = v_config (view_of ruleset s)" "v_policy (view_of ruleset s') = v_policy (view_of ruleset s)" "v_degraded (view_of ruleset s')"
    "v_rules (view_of ruleset s') = v_rules (view_of ruleset s) \<or>
     guarded (cx_lan E) (device_exclusions (v_config (view_of ruleset s))) (v_rules (view_of ruleset s'))"
proof -
  let ?s = "s\<lparr>app_degraded := True\<rparr>" and ?X = "device_exclusions (v_config (view_of ruleset s))"
  let ?G = "\<lambda>v. v_config v = v_config (view_of ruleset s) \<and> v_policy v = v_policy (view_of ruleset s) \<and> v_degraded v \<and>
      (v_rules v = v_rules (view_of ruleset s) \<or> guarded (cx_lan E) ?X (v_rules v))"
  obtain s1 r1 where rep: "repair E b ?X ?s = (s1, r1)" by (metis surj_pair)
  have v1: "?G (view_of ruleset s1)"
    using repair_step[OF rep] by (auto simp: view_updates publish_guards)
  have "(\<exists>es. r = Inl (Committed e es)) \<and> ?G (view_of ruleset s')"
  proof (cases r1)
    case (Inl x)
    obtain s2 r2 where g: "put_guard E ?X s1 = (s2, r2)" by (metis surj_pair)
    have "?G (view_of ruleset s2)"
      by (rule put_guard_step[OF g]) (use v1 in \<open>simp_all add: guard_script_guards\<close>)
    moreover have "s' = s2" "\<exists>es. r = Inl (Committed e es)"
      using assms rep Inl g by (auto simp: committed_failure_def Let_def view_states split: sum.splits)
    ultimately show ?thesis by simp
  next
    case (Inr u)
    obtain s2 r2 where g: "flush_dns E s1 = (s2, r2)" by (metis surj_pair)
    have "view_of ruleset s2 = view_of ruleset s1" by (rule calmD[OF calm_steps(3) g])
    moreover have "s' = s2" "\<exists>es. r = Inl (Committed e es)"
      using assms rep Inr g by (auto simp: committed_failure_def Let_def view_states split: sum.splits)
    ultimately show ?thesis using v1 by simp
  qed
  then show thesis using that by auto
qed

lemma save_only_step:
  assumes "save_only E c s = (s', r)"
  shows "(r = Inr () \<and> view_of ruleset s' = (view_of ruleset s)\<lparr>v_config := c\<rparr>) \<or>
    (isl r \<and> view_of ruleset s' = view_of ruleset s) \<or>
    (isl r \<and> v_degraded (view_of ruleset s') \<and> v_config (view_of ruleset s') = c \<and> v_policy (view_of ruleset s') = v_policy (view_of ruleset s) \<and>
      (v_rules (view_of ruleset s') = v_rules (view_of ruleset s) \<or>
       guarded (cx_lan E) (device_exclusions c) (v_rules (view_of ruleset s'))))"
proof -
  obtain s1 r1 where sv: "save_file E c s = (s1, r1)" by (metis surj_pair)
  have v1: "view_of ruleset s1 = view_of ruleset s" by (rule calmD[OF calm_steps(2) sv])
  show ?thesis
  proof (cases r1)
    case (Inr u)
    then show ?thesis using assms sv v1 by (auto simp: save_only_def view_updates)
  next
    case (Inl e)
    show ?thesis
    proof (cases "e = Save Published_Save")
      case True
      then have "committed_failure E True e (s1\<lparr>app_config := c\<rparr>) = (s', r)"
        using assms sv Inl by (simp add: save_only_def)
      then show ?thesis
        by (rule committed_failure_step) (use v1 in \<open>auto simp: view_updates\<close>)
    next
      case False
      then show ?thesis using assms sv Inl v1 by (auto simp: save_only_def)
    qed
  qed
qed

section \<open>A change behind the guard\<close>

lemma drop_guard_settles:
  assumes "drop_guard E s = (s', r)" and "in_force E (view_of ruleset s)" and "\<not> v_degraded (view_of ruleset s)"
  shows "if r = Inr () then settled E (view_of ruleset s') \<and> (leases_current (view_of ruleset s) \<longrightarrow> leases_current (view_of ruleset s'))
    else isl r \<and> v_degraded (view_of ruleset s') \<and> v_rules (view_of ruleset s') = v_rules (view_of ruleset s)"
    and "v_config (view_of ruleset s') = v_config (view_of ruleset s)"
    and "v_policy (view_of ruleset s') = v_policy (view_of ruleset s)"
proof -
  let ?v = "view_of ruleset s" and ?u = "view_of ruleset s'"
  have fin: "(if r = Inr () then settled E ?u \<and> (leases_current ?v \<longrightarrow> leases_current ?u)
      else isl r \<and> v_degraded ?u \<and> v_rules ?u = v_rules ?v) \<and> v_config ?u = v_config ?v \<and> v_policy ?u = v_policy ?v"
  proof (rule drop_guard_step[OF assms(1)], goal_cases)
    case 1
    have "same_rules (v_rules ?u) (v_rules ?v)" using 1(2) unguard_rules(1) by simp
    then have "in_force E ?u" using assms(2) 1(2) same_rules_trans by (auto simp: in_force_def)
    then show ?case
      using 1 assms(3) unguard_rules(2) kept_translations(3) by (simp add: settled_def leases_current_def)
  next
    case (2 e)
    then show ?case by simp
  qed
  then show "if r = Inr () then settled E ?u \<and> (leases_current ?v \<longrightarrow> leases_current ?u)
      else isl r \<and> v_degraded ?u \<and> v_rules ?u = v_rules ?v"
    and "v_config ?u = v_config ?v" and "v_policy ?u = v_policy ?v" by auto
qed

text \<open>The devices are published, so that the table is that of the new configuration.\<close>

lemma finish_change_step:
  assumes f: "finish_change E config next_config s = (s', r)" and "v_config (view_of ruleset s) = next_config"
    and d: "\<not> v_degraded (view_of ruleset s)" and g: "guarded (cx_lan E) (device_exclusions config) (v_rules (view_of ruleset s))"
    and t: "same_rules (v_rules (view_of ruleset s)) (table_for E next_config (v_policy (view_of ruleset s)) (device_exclusions config))"
    and l: "leases_current (view_of ruleset s)"
  shows "if r = Inr () then settled E (view_of ruleset s') \<and> leases_current (view_of ruleset s')
    else isl r \<and> guarded_for E {device_exclusions config, device_exclusions next_config} (view_of ruleset s')"
    and "v_config (view_of ruleset s') = next_config"
    and "v_policy (view_of ruleset s') = v_policy (view_of ruleset s)"
proof -
  let ?X = "device_exclusions config" and ?Y = "device_exclusions next_config" and ?v = "view_of ruleset s"
  let ?P = "\<lambda>v. v_config v = next_config \<and> v_policy v = v_policy ?v \<and> \<not> v_degraded v \<and> guarded_for E {?X, ?Y} v"
  let ?G = "\<lambda>v. ?P v \<and> in_force E v \<and> leases_current v"
  let ?devices = "if ?X \<noteq> ?Y then bnd (publish_devices E ?Y) (\<lambda>_. flush_dns E) else ret ()"
  let ?Ended = "\<lambda>r v. (if r = Inr () then settled E v \<and> leases_current v else isl r \<and> guarded_for E {?X, ?Y} v) \<and>
      v_config v = next_config \<and> v_policy v = v_policy ?v"
  have start: "?P ?v" using assms(2) d g by (simp add: guarded_for_def)
  obtain s1 r1 where dv: "?devices s = (s1, r1)" by (metis surj_pair)
  have one: "?P (view_of ruleset s1) \<and> (r1 = Inr () \<longrightarrow> ?G (view_of ruleset s1))"
  proof (cases "?X = ?Y")
    case True
    then have "s1 = s" "r1 = Inr ()" using dv by (auto simp: ret_def)
    then show ?thesis using start t l True assms(2) by (simp add: in_force_def)
  next
    case False
    obtain s2 r2 where pb: "publish_devices E ?Y s = (s2, r2)" by (metis surj_pair)
    have two: "(isl r2 \<and> view_of ruleset s2 = ?v) \<or> (r2 = Inr () \<and> ?G (view_of ruleset s2))"
    proof (rule publish_step[OF pb], goal_cases)
      case 1
      have "in_force E (view_of ruleset s2)"
        using publish_rules t assms(2) 1(2) unfolding in_force_def table_for_def by simp
      then show ?case
        using 1 assms(2) d l publish_guards kept_translations(1) by (simp add: guarded_for_def leases_current_def)
    qed simp
    show ?thesis
    proof (cases r2)
      case (Inl e)
      then show ?thesis using two dv pb False start by (auto simp: bnd_def)
    next
      case (Inr u)
      then have "flush_dns E s2 = (s1, r1)" using dv pb False by (simp add: bnd_def)
      then have "view_of ruleset s1 = view_of ruleset s2" by (rule calmD[OF calm_steps(3)])
      then show ?thesis using two Inr by simp
    qed
  qed
  have "?Ended r (view_of ruleset s')"
  proof (cases r1)
    case (Inl e)
    then show ?thesis using f dv one by (auto simp: finish_change_def bnd_def)
  next
    case (Inr u)
    then have dg: "drop_guard E s1 = (s', r)" using f dv by (simp add: finish_change_def bnd_def)
    have v1: "?G (view_of ruleset s1)" using one Inr by simp
    then show ?thesis
      using drop_guard_settles[OF dg] by (auto simp: guarded_for_def split: if_splits)
  qed
  then show "if r = Inr () then settled E (view_of ruleset s') \<and> leases_current (view_of ruleset s')
      else isl r \<and> guarded_for E {?X, ?Y} (view_of ruleset s')"
    and "v_config (view_of ruleset s') = next_config" and "v_policy (view_of ruleset s') = v_policy ?v" by auto
qed

lemma apply_change_step:
  assumes a: "apply_change E config next_config p ch s = (s', r)"
  obtains rs st where "view_of ruleset s' = (view_of ruleset s)\<lparr>v_rules := rs, v_store := st\<rparr>"
    and "in_table GUARD_TABLE rs = in_table GUARD_TABLE (v_rules (view_of ruleset s))"
    and "r = Inr () \<or> r = Inl (Save Published_Save) \<Longrightarrow>
      same_rules rs (table_for E next_config p (device_exclusions config)) \<and> translated rs (mappings_of st) \<and> targets_current p st"
proof -
  have calm: "calm ruleset (if ch = Network_Change then apply_network E next_config else ret ())"
    by (intro calm_rules calm_network)
  obtain s1 r1 where nw: "(if ch = Network_Change then apply_network E next_config else ret ()) s = (s1, r1)"
    by (metis surj_pair)
  have v1: "view_of ruleset s1 = view_of ruleset s" by (rule calmD[OF calm nw])
  have u1: "r1 \<noteq> Inl (Save Published_Save)"
    using unpublished_if[OF unpublished_network[of E next_config] unpublished_pure(1), of "ch = Network_Change" "()"] nw
    unfolding unpublished_def by (metis snd_conv)
  show thesis
  proof (cases r1)
    case (Inl e)
    then show ?thesis
      using that[of "v_store (view_of ruleset s)" "v_rules (view_of ruleset s)"] a nw v1 u1
      by (auto simp: apply_change_def bnd_def)
  next
    case (Inr u)
    obtain s2 r2 where ap: "apply_policy E next_config p (device_exclusions config) s1 = (s2, r2)" by (metis surj_pair)
    have u2: "r2 \<noteq> Inl (Save Published_Save)"
      using unpublished_policy[of E next_config p "device_exclusions config"] ap unfolding unpublished_def by (metis snd_conv)
    obtain st rs where v2: "view_of ruleset s2 = (view_of ruleset s1)\<lparr>v_rules := rs, v_store := st\<rparr>"
      and g: "in_table GUARD_TABLE rs = in_table GUARD_TABLE (v_rules (view_of ruleset s1))"
      and ok: "r2 = Inr () \<Longrightarrow> same_rules rs (table_for E next_config p (device_exclusions config)) \<and>
         translated rs (mappings_of st) \<and> targets_current p st"
      by (rule apply_policy_step[OF ap]) blast
    show ?thesis
    proof (cases r2)
      case (Inl e)
      then show ?thesis using that[of st rs] a nw Inr ap v1 v2 g u2 by (auto simp: apply_change_def bnd_def)
    next
      case (Inr u2)
      then have "save_file E next_config s2 = (s', r)"
        using a nw \<open>r1 = Inr u\<close> ap by (simp add: apply_change_def bnd_def)
      then have "view_of ruleset s' = view_of ruleset s2" by (rule calmD[OF calm_steps(2)])
      then show ?thesis using that[of st rs] v1 v2 g ok Inr by simp
    qed
  qed
qed

lemma undo_change_step:
  assumes u: "undo_change E config active ch previous s = (s', r)" and "v_config (view_of ruleset s) = config"
    and "v_policy (view_of ruleset s) = active"
  obtains rs st where "view_of ruleset s' = (view_of ruleset s)\<lparr>v_rules := rs, v_store := st\<rparr>"
    and "in_table GUARD_TABLE rs = in_table GUARD_TABLE (v_rules (view_of ruleset s))"
    and "r = Inr () \<Longrightarrow> in_force E (view_of ruleset s') \<and> leases_current (view_of ruleset s')"
proof -
  have calm: "calm ruleset (if ch = Network_Change then undo_network E config previous else ret ())"
    by (intro calm_rules calm_undo_network)
  obtain s1 r1 where nw: "(if ch = Network_Change then undo_network E config previous else ret ()) s = (s1, r1)"
    by (metis surj_pair)
  have v1: "view_of ruleset s1 = view_of ruleset s" by (rule calmD[OF calm nw])
  obtain s2 r2 where ap: "apply_policy E config active (device_exclusions config) s1 = (s2, r2)" by (metis surj_pair)
  obtain st rs where v2: "view_of ruleset s2 = (view_of ruleset s1)\<lparr>v_rules := rs, v_store := st\<rparr>"
    and g: "in_table GUARD_TABLE rs = in_table GUARD_TABLE (v_rules (view_of ruleset s1))"
    and ok: "r2 = Inr () \<Longrightarrow> same_rules rs (table_for E config active (device_exclusions config)) \<and>
       translated rs (mappings_of st) \<and> targets_current active st"
    by (rule apply_policy_step[OF ap]) blast
  have s': "s' = s2" and r: "r = and_then r1 (\<lambda>_. r2)" using u nw ap by (auto simp: undo_change_def)
  have "r2 = Inr ()" if "r = Inr ()" using r that by (cases r1) simp_all
  then show thesis
    using that[of st rs] v1 v2 g ok assms(2,3) s' by (auto simp: in_force_def leases_current_def)
qed

text \<open>The three ends of a change: done, taken back, or behind the guard.\<close>

lemma guarded_change_step:
  assumes c: "guarded_change E config next_config active p ch previous s = (s', r)"
    and v: "v_config (view_of ruleset s) = config" "v_policy (view_of ruleset s) = active" "\<not> v_degraded (view_of ruleset s)"
    and g: "guarded (cx_lan E) (device_exclusions config) (v_rules (view_of ruleset s))"
  shows "(r = Inr () \<and> settled E (view_of ruleset s') \<and> leases_current (view_of ruleset s') \<and>
      v_config (view_of ruleset s') = next_config \<and> v_policy (view_of ruleset s') = p) \<or>
    (isl r \<and> settled E (view_of ruleset s') \<and> leases_current (view_of ruleset s') \<and>
      v_config (view_of ruleset s') = config \<and> v_policy (view_of ruleset s') = active) \<or>
    (isl r \<and> v_degraded (view_of ruleset s') \<and>
      guarded_for E {device_exclusions config, device_exclusions (v_config (view_of ruleset s'))} (view_of ruleset s') \<and>
      (v_config (view_of ruleset s'), v_policy (view_of ruleset s')) \<in> {(config, active), (next_config, p)})"
    (is "?Done \<or> ?Back \<or> ?Kept")
proof -
  obtain s1 r1 where ac: "apply_change E config next_config p ch s = (s1, r1)" by (metis surj_pair)
  obtain st rs where v1: "view_of ruleset s1 = (view_of ruleset s)\<lparr>v_rules := rs, v_store := st\<rparr>"
    and g1: "in_table GUARD_TABLE rs = in_table GUARD_TABLE (v_rules (view_of ruleset s))"
    and ok: "r1 = Inr () \<or> r1 = Inl (Save Published_Save) \<Longrightarrow>
      same_rules rs (table_for E next_config p (device_exclusions config)) \<and> translated rs (mappings_of st) \<and> targets_current p st"
    by (rule apply_change_step[OF ac]) blast
  have gd: "guarded (cx_lan E) (device_exclusions config) rs" by (rule guard_kept[OF g1 g])
  consider (complete) "r1 = Inr ()" | (published) "r1 = Inl (Save Published_Save)"
    | (failed) e where "r1 = Inl e" "e \<noteq> Save Published_Save"
    by (cases r1) auto
  then show ?thesis
  proof cases
    case complete
    let ?s = "committed next_config p s1"
    obtain s2 r2 where fc: "finish_change E config next_config ?s = (s2, r2)" by (metis surj_pair)
    have vs: "view_of ruleset ?s = (view_of ruleset s)\<lparr>v_rules := rs, v_store := st, v_config := next_config, v_policy := p\<rparr>"
      using v1 by (simp add: view_updates)
    note step = finish_change_step[OF fc, unfolded vs]
    have step: "if r2 = Inr () then settled E (view_of ruleset s2) \<and> leases_current (view_of ruleset s2)
        else isl r2 \<and> guarded_for E {device_exclusions config, device_exclusions next_config} (view_of ruleset s2)"
      "v_config (view_of ruleset s2) = next_config" "v_policy (view_of ruleset s2) = p"
      using step v(3) gd ok[OF disjI1[OF complete]] by (simp_all add: leases_current_def)
    show ?thesis
    proof (cases r2)
      case (Inr u)
      then show ?thesis using step c ac complete fc by (auto simp: guarded_change_def)
    next
      case (Inl e)
      then have "committed_failure E False e s2 = (s', r)" using c ac complete fc by (simp add: guarded_change_def)
      then have ?Kept
        by (rule committed_failure_step) (use step Inl in \<open>auto simp: guarded_for_def\<close>)
      then show ?thesis by simp
    qed
  next
    case published
    then have "committed_failure E True (Save Published_Save) (committed next_config p s1) = (s', r)"
      using c ac by (simp add: guarded_change_def)
    then have ?Kept
      by (rule committed_failure_step) (use v1 gd in \<open>auto simp: guarded_for_def view_updates\<close>)
    then show ?thesis by simp
  next
    case (failed e)
    then have rb: "roll_back E config active ch previous e s1 = (s', r)" using c ac by (simp add: guarded_change_def)
    obtain s2 r2 where uc: "undo_change E config active ch previous s1 = (s2, r2)" by (metis surj_pair)
    have at1: "v_config (view_of ruleset s1) = config" "v_policy (view_of ruleset s1) = active" using v v1 by simp_all
    obtain st2 rs2 where v2: "view_of ruleset s2 = (view_of ruleset s1)\<lparr>v_rules := rs2, v_store := st2\<rparr>"
      and g2: "in_table GUARD_TABLE rs2 = in_table GUARD_TABLE (v_rules (view_of ruleset s1))"
      and ok2: "r2 = Inr () \<Longrightarrow> in_force E (view_of ruleset s2) \<and> leases_current (view_of ruleset s2)"
      by (rule undo_change_step[OF uc at1]) blast
    have gd2: "guarded (cx_lan E) (device_exclusions config) rs2" using guard_kept[OF g2] gd v1 by simp
    show ?thesis
    proof (cases r2)
      case (Inl e2)
      then have "s' = s2\<lparr>app_degraded := True\<rparr>" "isl r" using rb uc by (auto simp: roll_back_def)
      then have ?Kept using v v1 v2 gd2 by (simp add: view_updates guarded_for_def)
      then show ?thesis by simp
    next
      case (Inr u)
      obtain s3 r3 where dg: "drop_guard E s2 = (s3, r3)" by (metis surj_pair)
      have s3: "s' = s3" "isl r" using rb uc Inr dg by (auto simp: roll_back_def split: sum.splits)
      have "in_force E (view_of ruleset s2)" "leases_current (view_of ruleset s2)" "\<not> v_degraded (view_of ruleset s2)"
        using ok2 Inr v(3) v1 v2 by simp_all
      note dgs = drop_guard_settles[OF dg this(1,3)] this(2)
      have "v_config (view_of ruleset s3) = config" "v_policy (view_of ruleset s3) = active"
        using dgs(2,3) v v1 v2 by simp_all
      then show ?thesis using dgs(1,4) s3 gd2 v2 by (auto simp: guarded_for_def split: if_splits)
    qed
  qed
qed

end

end
