(* ===== verification/Controller_Edits.thy ===== *)
theory Controller_Edits
  imports Controller_Ops
begin

text \<open>
  The edits of the configuration keep the active server among the servers, and an edit that only goes to the
  file leaves the egress that the configuration stands for as it is. The ruleset depends on the configuration
  by the egress only, and while the VPN is off not on its source address.
\<close>

section \<open>Configurations\<close>

definition active_known :: "controller_config \<Rightarrow> bool" where
  "active_known c \<longleftrightarrow> (\<forall>k. active_server_key c = Some k \<longrightarrow> (\<exists>s \<in> set (servers c). sp_public_key s = k))"

definition same_effect :: "ipnet \<Rightarrow> controller_config \<Rightarrow> controller_config \<Rightarrow> bool" where
  "same_effect N c c' \<longleftrightarrow> routing c' = routing c \<and> device_exclusions c' = device_exclusions c \<and>
     vpn_enabled c' = vpn_enabled c \<and> (vpn_enabled c \<longrightarrow> egress_from_config N c' = egress_from_config N c)"

definition warp_alias :: "ipnet \<Rightarrow> server_profile \<Rightarrow> ipv4 option" where
  "warp_alias N s = (if management s = None then None else Option.bind (client_tunnel_address s) (\<lambda>a.
     Option.bind (net_parse N a) (\<lambda>n. source_address (net_addr n))))"

abbreviation is_active :: "controller_config \<Rightarrow> server_profile \<Rightarrow> bool" where
  "is_active c s \<equiv> Some (sp_public_key s) = active_server_key c"

lemma egress_alt: "egress_from_config N c =
    \<lparr>egress_enabled = vpn_enabled c, warp_source = Option.bind (find (is_active c) (servers c)) (warp_alias N)\<rparr>"
  by (simp add: egress_from_config_def warp_alias_def split: option.split)

lemma active_known_alt: "active_known c \<longleftrightarrow> (\<forall>k. active_server_key c = Some k \<longrightarrow> k \<in> sp_public_key ` set (servers c))"
  by (auto simp: active_known_def)

section \<open>Lists\<close>

lemma position_Some:
  "position P xs = Some i \<Longrightarrow> i < length xs \<and> P (xs ! i) \<and> find P xs = Some (xs ! i)"
  by (induction xs arbitrary: i) (auto split: if_splits)

lemma find_update_other: "\<not> P (xs ! i) \<Longrightarrow> \<not> P x \<Longrightarrow> find P (xs[i := x]) = find P xs"
proof (induction xs arbitrary: i)
  case (Cons y ys)
  then show ?case by (cases i) auto
qed simp

lemma find_update_first: "position P xs = Some i \<Longrightarrow> P x \<Longrightarrow> find P (xs[i := x]) = Some x"
  by (induction xs arbitrary: i) (auto split: if_splits)

lemma find_filter: "(\<And>x. P x \<Longrightarrow> Q x) \<Longrightarrow> find P (filter Q xs) = find P xs"
  by (induction xs) auto

lemma find_append_known: "\<exists>x \<in> set xs. P x \<Longrightarrow> find P (xs @ ys) = find P xs"
  by (induction xs) auto

section \<open>Edits\<close>

definition sound_edit :: "ipnet \<Rightarrow> edit \<Rightarrow> bool" where
  "sound_edit N e \<longleftrightarrow> (\<forall>c c' ch. e c = Inr (c', ch) \<longrightarrow> active_known c \<longrightarrow>
     active_known c' \<and> (ch = Config_Change \<longrightarrow> same_effect N c c'))"

lemma same_effect_off: "\<not> vpn_enabled c \<Longrightarrow> vpn_enabled c' = vpn_enabled c \<Longrightarrow> routing c' = routing c \<Longrightarrow>
    device_exclusions c' = device_exclusions c \<Longrightarrow> same_effect N c c'"
  by (simp add: same_effect_def)

lemma sound_mode: "sound_edit N (mode_edit b)"
  by (auto simp: sound_edit_def mode_edit_def Let_def active_known_def and_then_Inr split: if_splits)

lemma sound_exclusion: "sound_edit N (exclusion_edit m b)"
  by (auto simp: sound_edit_def exclusion_edit_def Let_def active_known_def and_then_Inr)

lemma sound_routing: "sound_edit N (routing_edit rc)"
  by (auto simp: sound_edit_def routing_edit_def active_known_def)

lemma sound_insert: "sound_edit N (insert_server server)"
  unfolding sound_edit_def
proof (intro allI impI)
  fix c c' ch assume e: "insert_server server c = Inr (c', ch)" and k: "active_known c"
  let ?fresh = "active_server_key c = None"
  have c': "c' = c\<lparr>active_server_key := (if ?fresh then Some (sp_public_key server) else active_server_key c),
       servers := servers c @ [server]\<rparr>"
    and ch: "ch = (if ?fresh \<and> vpn_enabled c then Network_Change else Config_Change)"
    using e by (auto simp: insert_server_def Let_def and_then_Inr ensure_Inr split: if_splits)
  have "active_known c'" using k by (auto simp: c' active_known_def)
  moreover have "same_effect N c c'" if "ch = Config_Change"
  proof (cases "vpn_enabled c")
    case True
    then have "\<not> ?fresh" using that ch by (simp split: if_splits)
    then obtain key where key: "active_server_key c = Some key" by auto
    then have "\<exists>s \<in> set (servers c). is_active c s" using k by (auto simp: active_known_def)
    then show ?thesis using key by (simp add: same_effect_def egress_alt c' find_append_known)
  qed (simp add: same_effect_off c')
  ultimately show "active_known c' \<and> (ch = Config_Change \<longrightarrow> same_effect N c c')" by simp
qed

lemma sound_upsert: "sound_edit N (upsert_edit server)"
  unfolding sound_edit_def
proof (intro allI impI)
  fix c c' ch assume e: "upsert_edit server c = Inr (c', ch)" and k: "active_known c"
  show "active_known c' \<and> (ch = Config_Change \<longrightarrow> same_effect N c c')"
  proof (cases "position (has_key (sp_public_key server)) (servers c)")
    case None
    then show ?thesis using e k sound_insert[of N server]
      by (simp add: upsert_edit_def replace_imported_server_def sound_edit_def)
  next
    case (Some i)
    note i = position_Some[OF Some]
    obtain s where c': "c' = c\<lparr>servers := (servers c)[i := s]\<rparr>" and s: "sp_public_key s = sp_public_key server"
      and ch: "ch = (if vpn_enabled c \<and> active_server_key c = Some (sp_public_key server) then Network_Change else Config_Change)"
      using e Some by (auto simp: upsert_edit_def replace_imported_server_def Let_def split: if_splits)
    have old: "sp_public_key (servers c ! i) = sp_public_key server" using i by (simp add: has_key_def)
    have "map sp_public_key (servers c') = map sp_public_key (servers c)"
      using i old s by (simp add: c' map_update list_update_same_conv)
    then have "sp_public_key ` set (servers c') = sp_public_key ` set (servers c)" by (metis set_map)
    then have "active_known c'" using k by (simp add: c' active_known_alt)
    moreover have "same_effect N c c'" if "ch = Config_Change"
    proof (cases "vpn_enabled c")
      case True
      then have "active_server_key c \<noteq> Some (sp_public_key server)" using that ch by auto
      then have "\<not> is_active c (servers c ! i)" "\<not> is_active c s" using old s by auto
      then show ?thesis by (simp add: same_effect_def egress_alt c' find_update_other)
    qed (simp add: same_effect_off c')
    ultimately show ?thesis by simp
  qed
qed

lemma sound_update: "sound_edit N (update_edit C u)"
  unfolding sound_edit_def
proof (intro allI impI)
  fix c c' ch assume e: "update_edit C u c = Inr (c', ch)" and k: "active_known c"
  let ?P = "has_key (su_previous_public_key u)"
  obtain i where i: "position ?P (servers c) = Some i"
    using e by (auto simp: update_edit_def and_then_Inr ok_or_def split: option.splits)
  define old where "old = servers c ! i"
  define new where "new = updated_server u old"
  let ?was = "active_server_key c = Some (su_previous_public_key u)"
  note pos = position_Some[OF i]
  have fresh: "\<not> list_ex (\<lambda>(j, s). j \<noteq> i \<and> sp_public_key s = sp_public_key new) (enumerate 0 (servers c))"
    and c': "c' = c\<lparr>active_server_key := (if ?was then Some (sp_public_key new) else active_server_key c),
       servers := (servers c)[i := new]\<rparr>"
    and ch: "ch = (if ?was \<and> vpn_enabled c \<and> (sp_endpoint old \<noteq> sp_endpoint new \<or> sp_public_key old \<noteq> sp_public_key new)
       then Network_Change else Config_Change)"
    using e i by (auto simp: update_edit_def and_then_Inr ok_or_def ensure_Inr Let_def old_def new_def split: if_splits)
  have okey: "sp_public_key old = su_previous_public_key u" using pos by (simp add: has_key_def old_def)
  have other: "sp_public_key (servers c ! j) \<noteq> sp_public_key new" if "j < length (servers c)" "j \<noteq> i" for j
  proof -
    have "(j, servers c ! j) \<in> set (enumerate 0 (servers c))" using that by (auto simp: in_set_enumerate_eq)
    then show ?thesis using fresh that unfolding list_ex_iff by auto
  qed
  have known: "\<exists>j < length (servers c). j \<noteq> i \<and> Some (sp_public_key (servers c ! j)) = active_server_key c"
    if "active_server_key c = Some key" "\<not> ?was" for key
    using k that okey unfolding active_known_def old_def by (metis in_set_conv_nth option.inject)
  have "active_known c'"
    unfolding active_known_def
  proof (intro allI impI)
    fix key assume a: "active_server_key c' = Some key"
    show "\<exists>s \<in> set (servers c'). sp_public_key s = key"
    proof (cases ?was)
      case True
      then show ?thesis using a pos by (auto simp: c' intro!: bexI[of _ new] set_update_memI)
    next
      case False
      then obtain j where "j < length (servers c)" "j \<noteq> i" "sp_public_key (servers c ! j) = key"
        using known[of key] a by (auto simp: c')
      then show ?thesis using a by (auto simp: c' intro!: bexI[of _ "servers c ! j"])
          (metis length_list_update nth_list_update_neq nth_mem)
    qed
  qed
  moreover have "same_effect N c c'" if cc: "ch = Config_Change"
  proof (cases "vpn_enabled c")
    case True
    show ?thesis
    proof (cases ?was)
      case was: True
      then have same: "sp_public_key new = sp_public_key old" using cc ch True by (auto split: if_splits)
      have P: "is_active c = ?P" using was by (auto simp: has_key_def fun_eq_iff)
      have "find (is_active c) (servers c) = Some old" "find (is_active c) ((servers c)[i := new]) = Some new"
        unfolding P using pos find_update_first[OF i, of new] same okey by (simp_all add: old_def has_key_def)
      moreover have "warp_alias N new = warp_alias N old" by (simp add: warp_alias_def new_def updated_server_def)
      moreover have "active_server_key c' = active_server_key c" using was same okey by (simp add: c')
      ultimately show ?thesis by (simp add: same_effect_def egress_alt c')
    next
      case False
      have "\<not> is_active c new"
      proof
        assume "is_active c new"
        then obtain j where "j < length (servers c)" "j \<noteq> i" "sp_public_key (servers c ! j) = sp_public_key new"
          using known[of "sp_public_key new"] False by (metis option.inject)
        then show False using other by blast
      qed
      moreover have "\<not> is_active c (servers c ! i)" using False okey by (auto simp: old_def)
      ultimately show ?thesis using False by (simp add: same_effect_def egress_alt c' find_update_other)
    qed
  qed (simp add: same_effect_off c')
  ultimately show "active_known c' \<and> (ch = Config_Change \<longrightarrow> same_effect N c c')" by simp
qed

lemma sound_select: "sound_edit N (select_edit key)"
  unfolding sound_edit_def
proof (intro allI impI)
  fix c c' ch assume e: "select_edit key c = Inr (c', ch)" and k: "active_known c"
  obtain s where s: "find (has_key key) (servers c) = Some s"
    and r: "if active_server_key c = Some key then c' = c \<and> ch = Config_Change
      else c' = c\<lparr>active_server_key := Some (sp_public_key s)\<rparr> \<and> ch = (if vpn_enabled c then Network_Change else Config_Change)"
    using e by (auto simp: select_edit_def and_then_Inr ok_or_def split: option.splits if_splits)
  have "s \<in> set (servers c)" using s by (auto simp: find_Some_iff)
  then show "active_known c' \<and> (ch = Config_Change \<longrightarrow> same_effect N c c')"
    using r k by (auto simp: active_known_def same_effect_def split: if_splits)
qed

lemma sound_delete: "sound_edit N (delete_edit key)"
  unfolding sound_edit_def
proof (intro allI impI)
  fix c c' ch assume e: "delete_edit key c = Inr (c', ch)" and k: "active_known c"
  let ?kept = "filter (\<lambda>s. \<not> has_key key s) (servers c)"
  show "active_known c' \<and> (ch = Config_Change \<longrightarrow> same_effect N c c')"
  proof (cases "active_server_key c = Some key")
    case True
    then have "c' = c\<lparr>servers := ?kept, active_server_key := (case ?kept of [] \<Rightarrow> None | s # _ \<Rightarrow> Some (sp_public_key s))\<rparr>"
      "ch = Config_Change \<longrightarrow> \<not> vpn_enabled c"
      using e by (auto simp: delete_edit_def Let_def and_then_Inr ensure_Inr split: if_splits)
    moreover have "?kept = x # xs \<Longrightarrow> x \<in> set (servers c) \<and> \<not> has_key key x" for x xs by (auto simp: filter_eq_Cons_iff)
    ultimately show ?thesis by (cases ?kept) (auto simp: active_known_def same_effect_off)
  next
    case False
    then have c': "c' = c\<lparr>servers := ?kept\<rparr>"
      using e by (auto simp: delete_edit_def Let_def and_then_Inr ensure_Inr split: if_splits)
    have "find (is_active c) ?kept = find (is_active c) (servers c)"
      using False by (intro find_filter) (auto simp: has_key_def)
    then show ?thesis using k False by (auto simp: c' same_effect_def egress_alt active_known_def has_key_def)
  qed
qed

section \<open>The table of a configuration\<close>

lemma chains_off: "chain_commands lan port \<lparr>egress_enabled = False, warp_source = a\<rparr> p ports =
    chain_commands lan port \<lparr>egress_enabled = False, warp_source = b\<rparr> p ports"
proof -
  have t: "egress_target \<lparr>egress_enabled = False, warp_source = x\<rparr> = (\<lambda>t. case t of Direct \<Rightarrow> Direct | Vpn \<Rightarrow> Direct | _ \<Rightarrow> Block)"
    for x by (simp add: egress_target_def effective_target_def fun_eq_iff split: route_target.split)
  have "ip_rule_rule lan \<lparr>egress_enabled = False, warp_source = a\<rparr> = ip_rule_rule lan \<lparr>egress_enabled = False, warp_source = b\<rparr>"
    by (simp add: fun_eq_iff ip_rule_rule_def t)
  moreover have "fake_rules lan \<lparr>egress_enabled = False, warp_source = a\<rparr> = fake_rules lan \<lparr>egress_enabled = False, warp_source = b\<rparr>"
    by (simp add: fake_rules_def t)
  moreover have "final_rules lan \<lparr>egress_enabled = False, warp_source = a\<rparr> = final_rules lan \<lparr>egress_enabled = False, warp_source = b\<rparr>"
    by (simp add: fun_eq_iff final_rules_def t)
  ultimately show ?thesis by (simp add: chain_commands_def mark_chain_def active_warp_def)
qed

lemma same_effect_table:
  assumes "same_effect N c c'"
  shows "render_with_exclusions lan port (egress_from_config N c') p ms ports X =
    render_with_exclusions lan port (egress_from_config N c) p ms ports X"
proof (cases "vpn_enabled c")
  case True
  then show ?thesis using assms by (simp add: same_effect_def)
next
  case False
  then obtain a b where "egress_from_config N c' = \<lparr>egress_enabled = False, warp_source = a\<rparr>"
    "egress_from_config N c = \<lparr>egress_enabled = False, warp_source = b\<rparr>"
    using assms by (simp add: same_effect_def egress_alt)
  then show ?thesis using chains_off[of lan port a p ports b] by (simp add: render_with_exclusions_def)
qed

end
