(* ===== verification/Controller_Runs.thy ===== *)
theory Controller_Runs
  imports Controller_Safety Controller_Edits
begin

text \<open>
  Runs of the controller: any sequence of its operations, of answers of the resolver and of clean-ups of its
  leases, with any failure at any step. The invariant of a state says what the LAN may rely on.
\<close>

section \<open>The invariant\<close>

definition normal_exclusions :: "controller_config \<Rightarrow> bool" where
  "normal_exclusions c \<longleftrightarrow> normalize_exclusions (device_exclusions c) = Inr (device_exclusions c)"

definition well_formed :: "('c, 'r) view \<Rightarrow> bool" where
  "well_formed v \<longleftrightarrow> active_known (v_config v) \<and> normal_exclusions (v_config v) \<and> pol_config (v_policy v) = routing (v_config v)"

definition control_inv :: "('c, 'w, 'r) app_env \<Rightarrow> mac_address list set \<Rightarrow> ('c, 'r) view \<Rightarrow> bool" where
  "control_inv E seen v \<longleftrightarrow> well_formed v \<and> device_exclusions (v_config v) \<in> seen \<and>
     (if v_degraded v then in_force E v \<or> guarded_for E seen v else in_force E v \<and> unguarded (v_rules v))"

lemma sort_by_sorted: "sorted_wrt le xs \<Longrightarrow> sort_by le xs = xs"
proof (induction xs)
  case (Cons x xs)
  then show ?case by (cases xs) (simp_all add: sort_by_def)
qed (simp add: sort_by_def)

lemma normalized_again:
  assumes "normalize_exclusions macs = Inr macs'"
  shows "normalize_exclusions macs' = Inr macs'"
proof -
  have "sorted_wrt mac_le macs'" "distinct macs'" "length macs' \<le> 256"
    using normalize_exclusions_spec[of macs] assms by simp_all
  moreover have "sort_by mac_le macs' = macs'" using calculation(1) by (rule sort_by_sorted)
  ultimately show ?thesis by (simp add: normalize_exclusions_def Let_def remdups_adj_distinct ensure_def)
qed

lemma same_effect_in_force:
  assumes "same_effect (cx_net E) (v_config v) c" and "in_force E v"
  shows "in_force E (v\<lparr>v_config := c\<rparr>)"
proof -
  have "device_exclusions c = device_exclusions (v_config v)" using assms(1) by (simp add: same_effect_def)
  moreover have "table_for E c p X = table_for E (v_config v) p X" for p X
    unfolding table_for_def policy_table_def by (simp add: same_effect_table[OF assms(1)])
  ultimately show ?thesis using assms(2) by (simp add: in_force_def)
qed

lemma control_inv_mono: "control_inv E A v \<Longrightarrow> A \<subseteq> B \<Longrightarrow> control_inv E B v"
  unfolding control_inv_def guarded_for_def by (auto split: if_splits)

lemma bnd_modify: "bnd (modify f) k s = k () (f s)"
  by (simp add: bnd_def modify_def)

section \<open>A change of the configuration\<close>

lemma compiled_config:
  assumes "compile_policy E rc s = (s', Inr p)"
  shows "pol_config p = rc"
  using assms by (auto simp: compile_policy_def compile_def map_sum_Inr and_then_Inr Let_def split: prod.splits sum.splits)

text \<open>The configuration that an edit stands for.\<close>

definition edited_config :: "edit \<Rightarrow> controller_config \<Rightarrow> controller_config \<Rightarrow> bool" where
  "edited_config e c c' \<longleftrightarrow> (\<exists>c1 ch macs. e c = Inr (c1, ch) \<and> normalize_exclusions (device_exclusions c1) = Inr macs \<and>
     c' = c1\<lparr>device_exclusions := macs\<rparr>)"

text \<open>What holds of a degraded routing: the table of the configuration, or the guard for its devices.\<close>

definition held :: "('c, 'w, 'r) app_env \<Rightarrow> ('c, 'r) view \<Rightarrow> ('c, 'r) view \<Rightarrow> bool" where
  "held E v v' \<longleftrightarrow> v_config v' = v_config v \<and> v_degraded v' \<and>
     (v_policy v' = v_policy v \<and> v_rules v' = v_rules v \<or>
      (v_policy v' = v_policy v \<or> pol_config (v_policy v') = routing (v_config v)) \<and>
      (guarded_for E {device_exclusions (v_config v)} v' \<or> in_force E v'))"

text \<open>The edit of an operation, with the checks of its input.\<close>

fun op_edit :: "config_env \<Rightarrow> control_op \<Rightarrow> edit option" where
  "op_edit C (Set_Mode enabled) = Some (mode_edit enabled)"
| "op_edit C (Exclude_Device mac excluded) = Some (exclusion_edit mac excluded)"
| "op_edit C (Update_Routing rc) =
     Some (\<lambda>c. and_then (map_sum Conf id (normalize_routing C rc)) (\<lambda>rc. routing_edit rc c))"
| "op_edit C (Upsert_Server server) =
     Some (\<lambda>c. and_then (map_sum Conf id (validate_server C server)) (\<lambda>_. upsert_edit server c))"
| "op_edit C (Import_Server name profile) =
     Some (\<lambda>c. and_then (map_sum Conf id (parse_server_profile C name profile)) (\<lambda>server.
       and_then (map_sum Conf id (validate_server C server)) (\<lambda>_. upsert_edit server c)))"
| "op_edit C (Add_Server server) =
     Some (\<lambda>c. and_then (map_sum Conf id (validate_server C server)) (\<lambda>_. insert_server server c))"
| "op_edit C (Update_Server u) =
     Some (\<lambda>c. and_then (map_sum Conf id (normalize_server_name (su_name u))) (\<lambda>name. update_edit C (u\<lparr>su_name := name\<rparr>) c))"
| "op_edit C (Select_Server key) = Some (select_edit key)"
| "op_edit C (Delete_Server key) = Some (delete_edit key)"
| "op_edit C _ = None"

definition change_ends :: "('c, 'w, 'r) app_env \<Rightarrow> ('w \<Rightarrow> nft_command list) \<Rightarrow> edit \<Rightarrow> ('c, 'w, 'r) app_state \<Rightarrow>
    ('c, 'w, 'r) app_state \<Rightarrow> control_error + unit \<Rightarrow> bool" where
  "change_ends E ruleset e s s' r \<longleftrightarrow>
     (r = Inr () \<and> settled E (view_of ruleset s') \<and> edited_config e (app_config s) (app_config s') \<and>
       pol_config (app_policy s') = routing (app_config s')) \<or>
     (isl r \<and> settled E (view_of ruleset s') \<and> app_config s' = app_config s \<and> app_policy s' = app_policy s) \<or>
     (isl r \<and> app_degraded s' \<and> (app_config s' = app_config s \<or> edited_config e (app_config s) (app_config s')) \<and>
       pol_config (app_policy s') = routing (app_config s') \<and>
       (in_force E (view_of ruleset s') \<or>
        guarded_for E {device_exclusions (app_config s), device_exclusions (app_config s')} (view_of ruleset s')))"

context control_laws
begin

text \<open>What an update does from a settled state, by its three ends.\<close>

definition update_ends :: "('c, 'r) view \<Rightarrow> controller_config \<Rightarrow> ('c, 'r) view \<Rightarrow> control_error + unit \<Rightarrow> bool" where
  "update_ends v c v' r \<longleftrightarrow>
     (r = Inr () \<and> settled E v' \<and> v_config v' = c \<and> pol_config (v_policy v') = routing c) \<or>
     (isl r \<and> settled E v' \<and> v_config v' = v_config v \<and> v_policy v' = v_policy v) \<or>
     (isl r \<and> v_degraded v' \<and> (in_force E v' \<or> guarded_for E {device_exclusions (v_config v), device_exclusions (v_config v')} v') \<and>
       v_config v' \<in> {v_config v, c} \<and> pol_config (v_policy v') = routing (v_config v'))"

lemma change_kernel_step:
  assumes k: "change_kernel E (app_config s) c ch s = (s', r)" and s: "settled E (view_of ruleset s)"
    and wf: "well_formed (view_of ruleset s)"
  shows "update_ends (view_of ruleset s) c (view_of ruleset s') r \<and> (r = Inr () \<longrightarrow> leases_current (view_of ruleset s'))"
proof -
  let ?v = "view_of ruleset s" and ?X = "device_exclusions (app_config s)"
  have early: "update_ends ?v c (view_of ruleset s') r" if "view_of ruleset s' = ?v" "isl r"
    using that s by (auto simp: update_ends_def)
  obtain s1 r1 where cp: "compile_policy E (routing c) s = (s1, r1)" by (metis surj_pair)
  have v1: "view_of ruleset s1 = ?v" by (rule calmD[OF calm_compile cp])
  show ?thesis
  proof (cases r1)
    case (Inl e)
    then have "s' = s1" "r = Inl e" using k cp by (auto simp: change_kernel_def bnd_def)
    then show ?thesis using early v1 by simp
  next
    case (Inr p)
    have pol: "pol_config p = routing c" using compiled_config cp Inr by blast
    show ?thesis
    proof (cases "routing_poisoned s1")
      case True
      then have "s' = s1" "r = Inl Routing_Poisoned" using k cp Inr by (auto simp: change_kernel_def bnd_def lock_routing_def)
      then show ?thesis using early v1 by simp
    next
      case False
      obtain s2 r2 where sn: "take_snapshot E ch s1 = (s2, r2)" by (metis surj_pair)
      have v2: "view_of ruleset s2 = ?v" using calmD[OF calm_snapshot sn] v1 by simp
      show ?thesis
      proof (cases r2)
        case (Inl e)
        then have "s' = s2" "r = Inl e" using k cp Inr False sn by (auto simp: change_kernel_def bnd_def lock_routing_def)
        then show ?thesis using early v2 by simp
      next
        case (Inr previous)
        obtain s3 r3 where gd: "put_guard E ?X s2 = (s3, r3)" by (metis surj_pair)
        have rest: "(case r3 of Inl e \<Rightarrow> (s3, Inl e)
            | Inr _ \<Rightarrow> guarded_change E (app_config s) c (app_policy s1) p ch previous s3) = (s', r)"
          using k cp \<open>r1 = Inr p\<close> False sn Inr gd by (simp add: change_kernel_def bnd_def lock_routing_def split: sum.splits)
        have pol1: "app_policy s1 = v_policy ?v" using arg_cong[OF v1, of v_policy] by (simp add: view_states)
        show ?thesis
        proof (rule put_guard_step[OF gd], goal_cases)
          case 1
          have gc: "guarded_change E (app_config s) c (app_policy s1) p ch previous s3 = (s', r)" using rest 1(1) by simp
          have "v_config (view_of ruleset s3) = app_config s" "v_policy (view_of ruleset s3) = app_policy s1"
            "\<not> v_degraded (view_of ruleset s3)" "guarded (cx_lan E) ?X (v_rules (view_of ruleset s3))"
            using 1(2) v2 s pol1 by (simp_all add: settled_def view_states guard_script_guards)
          note ends = guarded_change_step[OF gc this]
          have "pol_config (v_policy ?v) = routing (v_config ?v)" using wf by (simp add: well_formed_def)
          then show ?case
            using ends pol pol1 view_states(1)[of ruleset s] unfolding update_ends_def by (elim disjE conjE insertE) auto
        next
          case (2 e)
          then have "s' = s3" "r = Inl (Nft e)" using rest by auto
          then show ?case using early 2(2) v2 by simp
        qed
      qed
    qed
  qed
qed

text \<open>How an edit run on the state follows one of the configuration alone.\<close>

definition follows :: "edit \<Rightarrow> (controller_config \<Rightarrow> ('c, 'w, 'r, controller_config \<times> change) app_op) \<Rightarrow> bool" where
  "follows e edit \<longleftrightarrow> (\<forall>c. calm ruleset (edit c) \<and> (\<forall>s x. snd (edit c s) = Inr x \<longrightarrow> e c = Inr x))"

lemma follows_pure: "follows e (pure_edit e)"
  by (simp add: follows_def pure_edit_def calm_pure lift_def)

lemma follows_delete:
  "follows (delete_edit key) (\<lambda>c.
     bnd (on_machine Pin (preserve_host_pins (cx_machine E) (cx_config E) (cx_management_dir E) c)) (\<lambda>_.
     lift (delete_edit key c)))"
  unfolding follows_def
  by (intro allI conjI calm_bnd calm_steps calm_pure) (auto simp: bnd_def lift_def split: prod.splits sum.splits)

text \<open>What comes before the edit: the locks, and no update of a degraded routing.\<close>

definition update_start :: "('c, 'w, 'r, controller_config) app_op" where
  "update_start = bnd (lock_apply E) (\<lambda>_. bnd (on_fake_dns begin_update) (\<lambda>_. bnd lock_config (\<lambda>config.
     bnd not_degraded (\<lambda>_. ret config))))"

lemma update_config_alt: "update_config E edit =
    bnd update_start (\<lambda>config. bnd (edit config) (\<lambda>(edited, ch).
    bnd (lift (map_sum Conf id (normalize_exclusions (device_exclusions edited)))) (\<lambda>macs.
    if ch = Config_Change then save_only E (edited\<lparr>device_exclusions := macs\<rparr>)
    else change_kernel E config (edited\<lparr>device_exclusions := macs\<rparr>) ch)))"
  by (simp add: update_config_def update_start_def bnd_assoc bnd_ret Let_def)

lemma calm_start: "calm ruleset update_start"
  unfolding update_start_def by (intro calm_rules calm_steps)

lemma start_config:
  assumes "update_start s = (s', Inr c)"
  shows "c = app_config s" "\<not> app_degraded s"
proof -
  obtain s1 r1 where l: "lock_apply E s = (s1, r1)" by (metis surj_pair)
  have "app_config s1 = app_config s" "app_degraded s1 = app_degraded s"
    using calmD[OF calm_steps(1) l] view_states[of ruleset] by metis+
  then show "c = app_config s" "\<not> app_degraded s"
    using assms l
    by (auto simp: update_start_def bnd_def on_fake_dns_def begin_update_def lock_config_def not_degraded_def ret_def
        split: sum.splits if_splits)
qed

lemma update_config_cases:
  assumes u: "update_config E edit s = (s', r)" and e: "follows e edit"
  obtains "isl r" "view_of ruleset s' = view_of ruleset s"
    | c1 ch macs s1 where "\<not> app_degraded s" "e (app_config s) = Inr (c1, ch)"
      "normalize_exclusions (device_exclusions c1) = Inr macs" "view_of ruleset s1 = view_of ruleset s"
      "(if ch = Config_Change then save_only E (c1\<lparr>device_exclusions := macs\<rparr>)
        else change_kernel E (app_config s) (c1\<lparr>device_exclusions := macs\<rparr>) ch) s1 = (s', r)"
proof -
  have calm: "calm ruleset (edit c)" and val: "snd (edit c t) = Inr x \<Longrightarrow> e c = Inr x" for c t x
    using e by (simp_all add: follows_def del: split_paired_All)
  show thesis
    using u unfolding update_config_alt
  proof (rule bnd_calm[OF calm_start], goal_cases)
    case (2 c s1)
    note start = start_config[OF 2(1)] 2(2)
    show ?case using 2(3)
    proof (rule bnd_calm[OF calm[of c]], goal_cases)
      case (2 x s2)
      obtain c1 ch where x: "x = (c1, ch)" by (cases x)
      then have "e c = Inr (c1, ch)" using val[of c s1 x] 2(1) by simp
      show ?case using 2(3) unfolding x prod.case
      proof (rule bnd_calm[OF calm_pure(3)[of ruleset]], goal_cases)
        case (2 macs s3)
        then have n: "normalize_exclusions (device_exclusions c1) = Inr macs" by (auto simp: lift_def map_sum_Inr)
        have v3: "view_of ruleset s3 = view_of ruleset s" using 2(2) start(3) \<open>view_of ruleset s2 = view_of ruleset s1\<close> by simp
        show ?case
          using that(2)[OF start(2) \<open>e c = Inr (c1, ch)\<close>[unfolded start(1)] n v3] 2(3) unfolding start(1) by simp
      qed (use that(1) start 2 in simp)
    qed (use that(1) start in simp)
  qed (use that(1) in simp)
qed

lemma update_config_step:
  assumes u: "update_config E edit s = (s', r)" and e: "follows e edit" "sound_edit (cx_net E) e"
    and s: "settled E (view_of ruleset s)" and wf: "well_formed (view_of ruleset s)"
  obtains c where "update_ends (view_of ruleset s) c (view_of ruleset s') r" "edited_config e (app_config s) c"
      "active_known c" "normal_exclusions c"
    | "isl r" "view_of ruleset s' = view_of ruleset s"
proof -
  show thesis
proof (rule update_config_cases[OF u e(1)], goal_cases)
  case 1
  then show ?case using that(2) by simp
next
  case (2 c1 ch macs s1)
  let ?c = "c1\<lparr>device_exclusions := macs\<rparr>" and ?v = "view_of ruleset s"
  have known: "active_known c1" "ch = Config_Change \<Longrightarrow> same_effect (cx_net E) (app_config s) c1"
    using e(2) 2(2) wf by (simp_all add: sound_edit_def well_formed_def view_states)
  have c: "edited_config e (app_config s) ?c" "active_known ?c" "normal_exclusions ?c"
    using 2(2,3) known(1) normalized_again by (auto simp: edited_config_def active_known_def normal_exclusions_def)
  have at1: "app_config s1 = app_config s" using 2(4) view_states[of ruleset] by metis
  have "update_ends ?v ?c (view_of ruleset s') r"
  proof (cases "ch = Config_Change")
    case False
    then have "change_kernel E (app_config s1) ?c ch s1 = (s', r)" using 2(5) at1 by simp
    then show ?thesis using change_kernel_step 2(4) s wf by metis
  next
    case True
    then have eff: "same_effect (cx_net E) (v_config ?v) c1" using known by (simp add: view_states)
    moreover have "normal_exclusions (v_config ?v)" using wf by (simp add: well_formed_def)
    ultimately have "?c = c1" using 2(3) by (simp add: same_effect_def normal_exclusions_def)
    with eff have eff: "same_effect (cx_net E) (v_config ?v) ?c" by simp
    have force: "in_force E (?v\<lparr>v_config := ?c\<rparr>)" by (rule same_effect_in_force[OF eff]) (use s in \<open>simp add: settled_def\<close>)
    have pol: "pol_config (v_policy ?v) = routing ?c" using wf eff by (simp add: well_formed_def same_effect_def)
    have "save_only E ?c s1 = (s', r)" using 2(5) True by simp
    from save_only_step[OF this] show ?thesis
      using force pol s 2(4) unfolding update_ends_def
      by (elim disjE conjE) (auto simp: settled_def in_force_def guarded_for_def)
  qed
  then show ?case using that(1) c by blast
qed
qed

section \<open>The resolver\<close>

abbreviation same_guarding :: "nft_command list \<Rightarrow> 'w \<Rightarrow> bool" where
  "same_guarding rs \<equiv> \<lambda>w. same_rules (ruleset w) rs \<and> in_table GUARD_TABLE (ruleset w) = in_table GUARD_TABLE rs"

lemma lease_script_keeps:
  assumes "list_all lease_command cs"
  shows "keeps (same_guarding rs) (run_nft (de_nft (cx_dns E)) cs)"
  unfolding keeps_def
proof (intro allI impI)
  fix w assume w: "same_guarding rs w"
  obtain w' r where run: "run_nft (de_nft (cx_dns E)) cs w = (w', r)" by (metis surj_pair)
  then have "ruleset w' = ruleset w \<or> ruleset w' = apply_script cs (ruleset w)"
    using nft.run_nft_ok[of cs w w'] nft.run_nft_error[of cs w w'] by (cases r) auto
  then show "same_guarding rs (fst (run_nft (de_nft (cx_dns E)) cs w))"
    using w run lease_script_rules[OF assms, of "ruleset w"] same_rules_trans by auto
qed

lemma leases_keep:
  "keeps (same_guarding rs) (install_mappings (de_nft (cx_dns E)) ms)"
  "keeps (same_guarding rs) (delete_mappings (de_nft (cx_dns E)) ms)"
  unfolding install_mappings_def delete_mappings_def by (intro wp lease_script_keeps lease_scripts)+

lemma leases_undisturbed: "undisturbed (cx_dns E) (same_guarding rs)"
  using leases_keep(1)[of rs] by (simp add: undisturbed_def clock_kept keeps_def)

lemma process_keeps: "keeps (\<lambda>s. same_guarding rs (dns_world s)) (process (cx_dns E) packet p upstream lan)"
proof -
  have query: "keeps (same_guarding rs) (query_upstream_with_mark (de_sockets (cx_dns E)) packet a m)" for packet a m
  proof -
    have "ruleset (fst (query_upstream_with_mark (de_sockets (cx_dns E)) packet a m w)) = ruleset w" for w
      using query_ruleset[of "ruleset w"] by (simp add: keeps_def)
    then show ?thesis by (simp add: keeps_def)
  qed
  have "keeps (\<lambda>s. same_guarding rs (dns_world s)) (forward_query (cx_dns E) packet request domain route p lan)"
    for request domain route by (rule undisturbed_forward[OF leases_undisturbed query])
  then show ?thesis by (simp add: keeps_def process_def Let_def split: option.split list.split)
qed

lemma purge_keeps: "keeps (\<lambda>s. same_guarding rs (dns_world s)) (purge_expired (cx_dns E))"
proof -
  note u = undisturbed_steps[OF leases_undisturbed[of rs]]
  have del: "keeps (\<lambda>s. same_guarding rs (dns_world s)) (on_world e (delete_mappings (de_nft (cx_dns E)) ms))" for e ms
    by (intro keeps_world leases_keep)
  have forget: "keeps (\<lambda>s. same_guarding rs (dns_world s)) (forget_leases (cx_dns E) gone)" for gone
    unfolding forget_leases_def
  proof (intro keeps_bnd del, unfold keeps_def, intro allI impI)
    fix s :: "('c, 'w) fake_dns" assume s: "same_guarding rs (dns_world s)"
    obtain s1 r1 where rm: "on_store (store_remove_mappings (de_db (cx_dns E)) gone) s = (s1, r1)" by (metis surj_pair)
    have s1: "same_guarding rs (dns_world s1)" by (rule keepsD[OF u(2) s rm])
    obtain s2 r2 where undo: "on_world Nft_Error (install_mappings (de_nft (cx_dns E)) gone) s1 = (s2, r2)" by (metis surj_pair)
    have "same_guarding rs (dns_world s2)" by (rule keepsD[OF u(3) s1 undo])
    then show "same_guarding rs (dns_world (fst (case on_store (store_remove_mappings (de_db (cx_dns E)) gone) s of
        (s', Inr _) \<Rightarrow> (s', Inr (length gone))
      | (s', Inl e) \<Rightarrow>
         (case on_world Nft_Error (install_mappings (de_nft (cx_dns E)) gone) s' of
            (s'', Inr _) \<Rightarrow> (s'', Inl e)
          | (s'', Inl e') \<Rightarrow> (s'', Inl (Also_Failed e e'))))))"
      using rm undo s1 by (cases r1; cases r2) simp_all
  qed
  have "keeps (\<lambda>s. same_guarding rs (dns_world s)) (purge_locked (cx_dns E))"
    unfolding purge_locked_def by (intro wp u(1) forget) (simp add: keeps_def)
  then show ?thesis by (simp add: keeps_def purge_expired_def with_store_def)
qed

lemma resolver_step:
  assumes "\<And>rs. keeps (\<lambda>d. same_guarding rs (dns_world d)) m" and "on_fake_dns m s = (s', r)"
  obtains rs st where "view_of ruleset s' = (view_of ruleset s)\<lparr>v_rules := rs, v_store := st\<rparr>"
    and "same_rules rs (v_rules (view_of ruleset s))"
    and "in_table GUARD_TABLE rs = in_table GUARD_TABLE (v_rules (view_of ruleset s))"
proof -
  obtain d r1 where m: "m (app_dns s) = (d, r1)" by (metis surj_pair)
  have "same_guarding (ruleset (app_world s)) (dns_world d)"
    using assms(1)[of "ruleset (app_world s)"] m by (simp add: keeps_def app_world_def) (metis fst_conv same_rules_refl)
  then show thesis
    using that[of "fd_store d" "ruleset (dns_world d)"] assms(2) m by (auto simp: on_fake_dns_def view_of_def app_world_def)
qed

lemma resolver_inv:
  assumes "\<And>rs. keeps (\<lambda>d. same_guarding rs (dns_world d)) m" and "on_fake_dns m s = (s', r)"
    and "control_inv E seen (view_of ruleset s)"
  shows "control_inv E seen (view_of ruleset s')"
  by (rule resolver_step[OF assms(1,2)])
    (use assms(3) in \<open>auto simp: control_inv_def well_formed_def in_force_def guarded_for_def guarded_def unguarded_def
      intro: same_rules_trans split: if_splits\<close>)

section \<open>The full reconcile\<close>

lemma held_inv:
  assumes "control_inv E seen v" and "held E v v'"
  shows "control_inv E seen v'"
  using assms by (auto simp: control_inv_def held_def well_formed_def in_force_def guarded_for_def split: if_splits)

text \<open>The second half, behind the guard.\<close>

definition reconcile_rest :: "controller_config \<Rightarrow> 'r policy \<Rightarrow> ('c, 'w, 'r, unit) app_op" where
  "reconcile_rest config p =
     bnd (flush_dns E) (\<lambda>_.
     bnd (apply_network E config) (\<lambda>_.
     bnd (on_machine Net (retire_legacy_routing (cx_machine E) (cx_config_path E))) (\<lambda>_. ret ())))"

definition reconcile_guarded :: "controller_config \<Rightarrow> 'r policy \<Rightarrow> ('c, 'w, 'r, unit) app_op" where
  "reconcile_guarded config p =
     bnd (apply_policy E config p (device_exclusions config)) (\<lambda>_.
     bnd (modify (committed config p)) (\<lambda>_.
     bnd (reconcile_rest config p) (\<lambda>_.
     bnd (drop_guard E) (\<lambda>_.
     modify (\<lambda>s. s\<lparr>app_degraded := False\<rparr>)))))"

lemma reconcile_alt: "reconcile E =
    bnd (bnd (lock_apply E) (\<lambda>_. bnd (on_fake_dns begin_update) (\<lambda>_. lock_config))) (\<lambda>config.
    bnd (modify (\<lambda>s. s\<lparr>app_degraded := True\<rparr>)) (\<lambda>_.
    bnd (bnd (on_machine Save (sync_committed (cx_machine E) (cx_config_path E))) (\<lambda>_.
         bnd (compile_policy E (routing config)) (\<lambda>p. bnd lock_routing (\<lambda>_. ret p)))) (\<lambda>p.
    bnd (put_guard E (device_exclusions config)) (\<lambda>_. reconcile_guarded config p))))"
  by (simp add: reconcile_def reconcile_locked_def reconcile_guarded_def reconcile_rest_def bnd_assoc bnd_ret)

lemma calm_rest: "calm ruleset (reconcile_rest config p)"
  unfolding reconcile_rest_def by (intro calm_rules calm_steps calm_network)

lemma reconcile_guarded_step:
  assumes g: "reconcile_guarded config p s = (s', r)" and v: "v_config (view_of ruleset s) = config"
    "v_degraded (view_of ruleset s)" "guarded (cx_lan E) (device_exclusions config) (v_rules (view_of ruleset s))"
    and p: "pol_config p = routing config"
  shows "(r = Inr () \<and> settled E (view_of ruleset s') \<and> leases_current (view_of ruleset s') \<and>
      v_config (view_of ruleset s') = config \<and> v_policy (view_of ruleset s') = p) \<or>
    (isl r \<and> held E (view_of ruleset s) (view_of ruleset s'))"
proof -
  let ?X = "device_exclusions config" and ?v = "view_of ruleset s"
  obtain s1 r1 where ap: "apply_policy E config p ?X s = (s1, r1)" by (metis surj_pair)
  obtain st rs where v1: "view_of ruleset s1 = ?v\<lparr>v_rules := rs, v_store := st\<rparr>"
    and g1: "in_table GUARD_TABLE rs = in_table GUARD_TABLE (v_rules ?v)"
    and ok: "r1 = Inr () \<Longrightarrow> same_rules rs (table_for E config p ?X) \<and> translated rs (mappings_of st) \<and> targets_current p st"
    by (rule apply_policy_step[OF ap]) blast
  have gd: "guarded (cx_lan E) ?X rs" by (rule guard_kept[OF g1 v(3)])
  show ?thesis
  proof (cases r1)
    case (Inl e)
    then have "s' = s1" "isl r" using g ap by (auto simp: reconcile_guarded_def bnd_def)
    then show ?thesis using v v1 gd by (simp add: held_def guarded_for_def)
  next
    case (Inr u)
    let ?s = "committed config p s1"
    have v2: "view_of ruleset ?s = ?v\<lparr>v_rules := rs, v_store := st, v_config := config, v_policy := p\<rparr>"
      using v1 by (simp add: view_updates)
    obtain s2 r2 where rest: "reconcile_rest config p ?s = (s2, r2)" by (metis surj_pair)
    have v3: "view_of ruleset s2 = view_of ruleset ?s" by (rule calmD[OF calm_rest rest])
    have force: "in_force E (view_of ruleset s2)" using v3 v2 ok Inr by (simp add: in_force_def)
    have cur: "leases_current (view_of ruleset s2)" using v3 v2 ok Inr by (simp add: leases_current_def)
    have tail: "(case r2 of Inl e \<Rightarrow> (s2, Inl e) | Inr _ \<Rightarrow> bnd (drop_guard E) (\<lambda>_. modify (\<lambda>s. s\<lparr>app_degraded := False\<rparr>)) s2) = (s', r)"
      using g by (simp add: reconcile_guarded_def bnd_ran[of "apply_policy E config p ?X", OF ap] Inr bnd_modify
        bnd_ran[of "reconcile_rest config p", OF rest])
    show ?thesis
    proof (cases r2)
      case (Inl e)
      then have "s' = s2" "isl r" using tail by auto
      then show ?thesis using v v3 v2 p force by (simp add: held_def)
    next
      case (Inr u)
      obtain s3 r3 where dg: "drop_guard E s2 = (s3, r3)" by (metis surj_pair)
      show ?thesis
      proof (rule drop_guard_step[OF dg], goal_cases)
        case 1
        have s': "s' = s3\<lparr>app_degraded := False\<rparr>" "r = Inr ()"
          using tail Inr dg 1(1) by (auto simp: bnd_def modify_def)
        have "same_rules (v_rules (view_of ruleset s3)) (v_rules (view_of ruleset s2))" using 1(2) unguard_rules(1) by simp
        then have "in_force E (view_of ruleset s')"
          using force 1(2) s' same_rules_trans by (auto simp: in_force_def view_updates)
        then show ?case
          using 1 s' cur v3 v2 v1 unguard_rules(2) kept_translations(3)
          by (simp add: settled_def leases_current_def view_updates)
      next
        case (2 e)
        then have "s' = s3" "isl r" using tail Inr dg by (auto simp: bnd_def)
        then show ?case using 2(2) v v3 v2 p force by (simp add: held_def in_force_def)
      qed
    qed
  qed
qed

lemma reconcile_step:
  assumes r: "reconcile E s = (s', r)"
  shows "(r = Inr () \<and> settled E (view_of ruleset s') \<and> leases_current (view_of ruleset s') \<and>
      v_config (view_of ruleset s') = app_config s \<and> pol_config (v_policy (view_of ruleset s')) = routing (app_config s)) \<or>
    (isl r \<and> view_of ruleset s' = view_of ruleset s) \<or>
    (isl r \<and> held E (view_of ruleset s) (view_of ruleset s'))"
proof -
  let ?v = "view_of ruleset s" and ?d = "\<lambda>s :: ('c, 'w, 'r) app_state. s\<lparr>app_degraded := True\<rparr>"
  have start: "calm ruleset (bnd (lock_apply E) (\<lambda>_. bnd (on_fake_dns begin_update) (\<lambda>_. lock_config)))"
    by (intro calm_rules calm_steps)
  have compile: "calm ruleset (bnd (on_machine Save (sync_committed (cx_machine E) (cx_config_path E))) (\<lambda>_.
      bnd (compile_policy E rc) (\<lambda>p. bnd lock_routing (\<lambda>_. ret p))))" for rc
    by (intro calm_rules calm_steps)
  show ?thesis
    using r unfolding reconcile_alt
  proof (rule bnd_calm[OF start], goal_cases)
    case (2 config s1)
    have v1: "view_of ruleset (?d s1) = ?v\<lparr>v_degraded := True\<rparr>" using 2(2) by (simp add: view_updates)
    have "config = app_config s1"
      using 2(1) by (auto simp: bnd_Inr lock_config_def split: if_splits)
    then have config: "config = app_config s" using 2(2) view_states(1)[of ruleset] by metis
    have rest: "bnd (bnd (on_machine Save (sync_committed (cx_machine E) (cx_config_path E))) (\<lambda>_.
         bnd (compile_policy E (routing config)) (\<lambda>p. bnd lock_routing (\<lambda>_. ret p)))) (\<lambda>p.
      bnd (put_guard E (device_exclusions config)) (\<lambda>_. reconcile_guarded config p)) (?d s1) = (s', r)"
      using 2(3) by (simp add: bnd_modify)
    show ?case using rest
    proof (rule bnd_calm[OF compile], goal_cases)
      case (1 e)
      then show ?case using v1 by (simp add: held_def)
    next
      case (2 p s2)
      have p: "pol_config p = routing config"
        using 2(1) by (auto simp: bnd_Inr ret_def dest: compiled_config)
      have v2: "view_of ruleset s2 = ?v\<lparr>v_degraded := True\<rparr>" using 2(2) v1 by simp
      obtain s3 r3 where gd: "put_guard E (device_exclusions config) s2 = (s3, r3)" by (metis surj_pair)
      show ?case
      proof (rule put_guard_step[OF gd], goal_cases)
        case 1
        then have rg: "reconcile_guarded config p s3 = (s', r)" using 2(3) gd by (simp add: bnd_def)
        have "v_config (view_of ruleset s3) = config" "v_degraded (view_of ruleset s3)"
          "guarded (cx_lan E) (device_exclusions config) (v_rules (view_of ruleset s3))"
          using 1(2) v2 config by (simp_all add: view_states guard_script_guards)
        from reconcile_guarded_step[OF rg this p] show ?case
          using 1(2) v2 config p by (auto simp: held_def view_states guarded_for_def guard_script_guards)
      next
        case (2 e)
        then have "s' = s3" "isl r" using \<open>bnd _ _ s2 = _\<close> gd by (auto simp: bnd_def)
        then show ?case using 2(2) v2 by (simp add: held_def)
      qed
    qed
  qed simp
qed

section \<open>Runs\<close>

lemma update_inv:
  assumes u: "update_config E edit s = (s', r)" and e: "follows e edit" "sound_edit (cx_net E) e"
    and inv: "control_inv E seen (view_of ruleset s)"
  shows "control_inv E (insert (device_exclusions (app_config s')) seen) (view_of ruleset s')"
proof -
  let ?v = "view_of ruleset s" and ?u = "view_of ruleset s'"
  have same: "control_inv E (insert (device_exclusions (app_config s')) seen) ?u" if "?u = ?v"
    using control_inv_mono[OF inv, of "insert (device_exclusions (app_config s')) seen"] that by auto
  show ?thesis
  proof (cases "app_degraded s")
    case True
    then show ?thesis using update_config_cases[OF u e(1)] same by metis
  next
    case False
    then have v: "settled E ?v" "well_formed ?v" "device_exclusions (app_config s) \<in> seen"
      using inv by (simp_all add: control_inv_def settled_def view_states)
    show ?thesis
    proof (rule update_config_step[OF u e v(1,2)], goal_cases)
      case (1 c)
      have "active_known (app_config s)" "normal_exclusions (app_config s)" "pol_config (v_policy ?v) = routing (app_config s)"
        using v(2) by (simp_all add: well_formed_def view_states)
      then show ?case
        using 1 v(3) by (auto simp: update_ends_def control_inv_def well_formed_def settled_def guarded_for_def view_states)
    qed (use same in simp)
  qed
qed

lemma auto_update_inv:
  assumes u: "set_auto_update E b s = (s', r)" and inv: "control_inv E seen (view_of ruleset s)"
  shows "control_inv E seen (view_of ruleset s')"
proof -
  let ?v = "view_of ruleset s"
  have start: "calm ruleset (bnd (lock_apply E) (\<lambda>_. lock_config))" by (intro calm_rules calm_steps)
  have "set_auto_update E b = bnd (bnd (lock_apply E) (\<lambda>_. lock_config)) (\<lambda>config.
      bnd (save_file E (config\<lparr>auto_update_enabled := b\<rparr>)) (\<lambda>_.
      modify (\<lambda>s. s\<lparr>app_config := config\<lparr>auto_update_enabled := b\<rparr>\<rparr>)))"
    by (simp add: set_auto_update_def Let_def bnd_assoc)
  from u[unfolded this] show ?thesis
  proof (rule bnd_calm[OF start], goal_cases)
    case (1 e)
    then show ?case using inv by simp
  next
    case (2 config s1)
    have "config = app_config s1" using 2(1) by (auto simp: bnd_Inr lock_config_def split: if_splits)
    then have config: "config = v_config ?v" using 2(2) view_states(1)[of ruleset] by metis
    let ?c = "config\<lparr>auto_update_enabled := b\<rparr>"
    show ?case using 2(3)
    proof (rule bnd_calm[OF calm_steps(2)], goal_cases)
      case (1 e)
      then show ?case using inv 2(2) by simp
    next
      case (2 x s2)
      then have v': "view_of ruleset s' = ?v\<lparr>v_config := ?c\<rparr>"
        using \<open>view_of ruleset s1 = ?v\<close> by (auto simp: modify_def view_updates)
      have "same_effect (cx_net E) (v_config ?v) ?c" by (simp add: config same_effect_def egress_from_config_def)
      from same_effect_in_force[OF this] show ?case
        using inv v' config
        by (auto simp: control_inv_def well_formed_def active_known_def normal_exclusions_def guarded_for_def split: if_splits)
    qed
  qed
qed

lemma reconcile_inv:
  assumes "reconcile E s = (s', r)" and inv: "control_inv E seen (view_of ruleset s)"
  shows "control_inv E seen (view_of ruleset s')"
  using reconcile_step[OF assms(1)]
proof (elim disjE conjE)
  assume "settled E (view_of ruleset s')" "v_config (view_of ruleset s') = app_config s"
    "pol_config (v_policy (view_of ruleset s')) = routing (app_config s)"
  then show ?thesis using inv unfolding control_inv_def well_formed_def settled_def view_states(1) by simp
qed (use inv held_inv in simp_all)

text \<open>An operation that first checks its input and then updates the configuration.\<close>

lemma checked_inv:
  assumes "bnd (lift q) f s = (s', r)" and inv: "control_inv E seen (view_of ruleset s)"
    and "\<And>x. q = Inr x \<Longrightarrow> f x s = (s', r) \<Longrightarrow>
      control_inv E (insert (device_exclusions (app_config s')) seen) (view_of ruleset s')"
  shows "control_inv E (insert (device_exclusions (app_config s')) seen) (view_of ruleset s')"
proof (cases q)
  case (Inl e)
  then show ?thesis
    using assms(1) control_inv_mono[OF inv, of "insert (device_exclusions (app_config s')) seen"]
    by (auto simp: bnd_lift_error throw_def)
next
  case (Inr x)
  then show ?thesis using assms by (simp add: bnd_lift)
qed

lemma upsert_inv:
  assumes "upsert_server E server s = (s', r)" and inv: "control_inv E seen (view_of ruleset s)"
  shows "control_inv E (insert (device_exclusions (app_config s')) seen) (view_of ruleset s')"
  by (rule checked_inv[OF assms(1)[unfolded upsert_server_def] inv]) (rule update_inv[OF _ follows_pure sound_upsert inv])

lemma control_step_inv:
  assumes c: "control E op1 s = (s', r)" and inv: "control_inv E seen (view_of ruleset s)"
  shows "control_inv E (insert (device_exclusions (app_config s')) seen) (view_of ruleset s')"
proof -
  note edit = update_inv[OF _ follows_pure _ inv] and checked = checked_inv[OF _ inv]
  have mono: ?thesis if "control_inv E seen (view_of ruleset s')"
    using control_inv_mono[OF that, of "insert (device_exclusions (app_config s')) seen"] by auto
  have dns: ?thesis if "bnd (on_fake_dns m) (\<lambda>_. ret ()) s = (s', r)" "\<And>rs. keeps (\<lambda>d. same_guarding rs (dns_world d)) m"
    for m :: "('c, 'w, 'x) dns_op"
  proof -
    obtain s1 r1 where m: "on_fake_dns m s = (s1, r1)" by (metis surj_pair)
    then have "s1 = s'" using that(1) by (cases r1) (simp_all add: bnd_def ret_def)
    then show ?thesis using mono resolver_inv[OF that(2) m inv] by simp
  qed
  show ?thesis
  proof (cases op1)
    case (Set_Mode b)
    show ?thesis by (rule edit[OF c[unfolded Set_Mode control.simps set_mode_def] sound_mode])
  next
    case (Exclude_Device mac b)
    show ?thesis by (rule edit[OF c[unfolded Exclude_Device control.simps update_device_exclusion_def] sound_exclusion])
  next
    case (Update_Routing rc)
    from c[unfolded Update_Routing control.simps update_routing_def] show ?thesis
      by (rule checked) (rule edit[OF _ sound_routing])
  next
    case (Upsert_Server server)
    show ?thesis by (rule upsert_inv[OF c[unfolded Upsert_Server control.simps] inv])
  next
    case (Import_Server name profile)
    from c[unfolded Import_Server control.simps import_server_def] show ?thesis
      by (rule checked) (rule upsert_inv[OF _ inv])
  next
    case (Add_Server server)
    from c[unfolded Add_Server control.simps add_server_def] show ?thesis
      by (rule checked) (rule edit[OF _ sound_insert])
  next
    case (Update_Server u)
    from c[unfolded Update_Server control.simps update_server_def] show ?thesis
      by (rule checked) (rule edit[OF _ sound_update])
  next
    case (Select_Server key)
    show ?thesis by (rule edit[OF c[unfolded Select_Server control.simps select_server_def] sound_select])
  next
    case (Delete_Server key)
    show ?thesis
      by (rule update_inv[OF c[unfolded Delete_Server control.simps delete_server_def] follows_delete sound_delete inv])
  next
    case (Set_Auto_Update b)
    show ?thesis by (rule mono[OF auto_update_inv[OF c[unfolded Set_Auto_Update control.simps] inv]])
  next
    case Reconcile
    show ?thesis by (rule mono[OF reconcile_inv[OF c[unfolded Reconcile control.simps] inv]])
  next
    case (Answer packet upstream)
    show ?thesis by (rule dns[OF c[unfolded Answer control.simps] process_keeps])
  next
    case Purge
    show ?thesis by (rule dns[OF c[unfolded Purge control.simps] purge_keeps])
  qed
qed

lemma control_run_inv:
  assumes "control_inv E seen (view_of ruleset s)" and "s' \<in> set (control_run E ops s)"
  shows "control_inv E (seen \<union> (\<lambda>t. device_exclusions (app_config t)) ` set (control_run E ops s)) (view_of ruleset s')"
  using assms
proof (induction ops arbitrary: s seen)
  case Nil
  then show ?case by (auto intro: control_inv_mono)
next
  case (Cons op1 ops)
  let ?X = "\<lambda>t. device_exclusions (app_config t)"
  obtain s1 r where c: "control E op1 s = (s1, r)" by (metis surj_pair)
  have first: "s1 \<in> set (control_run E ops s1)" by (cases ops) simp_all
  consider "s' = s" | "s' \<in> set (control_run E ops s1)" using Cons.prems(2) c by auto
  then show ?case
  proof cases
    case 1
    then show ?thesis using Cons.prems(1) by (auto intro: control_inv_mono)
  next
    case 2
    from Cons.IH[OF control_step_inv[OF c Cons.prems(1)] 2] show ?thesis
      by (rule control_inv_mono) (use first c in auto)
  qed
qed

section \<open>The contract of the operations\<close>

lemma checked_ends:
  assumes "bnd (lift q) f s = (s', r)" and "settled E (view_of ruleset s)"
    and "\<And>x. q = Inr x \<Longrightarrow> f x s = (s', r) \<Longrightarrow> change_ends E ruleset (e x) s s' r"
  shows "change_ends E ruleset (\<lambda>c. and_then q (\<lambda>x. e x c)) s s' r"
proof (cases q)
  case (Inl x)
  then show ?thesis using assms(1,2) by (auto simp: bnd_lift_error throw_def change_ends_def)
next
  case (Inr x)
  then show ?thesis using assms(1,3) by (simp add: bnd_lift)
qed

lemma update_config_ends:
  assumes u: "update_config E edit s = (s', r)" and e: "follows e edit" "sound_edit (cx_net E) e"
    and v: "settled E (view_of ruleset s)" "well_formed (view_of ruleset s)"
  shows "change_ends E ruleset e s s' r"
proof (rule update_config_step[OF u e v], goal_cases)
  case (1 c)
  then show ?case unfolding update_ends_def change_ends_def view_states by blast
next
  case 2
  then show ?case using v(1) view_states[of ruleset] unfolding change_ends_def by metis
qed

lemma control_ends:
  assumes c: "control E op1 s = (s', r)" and o: "op_edit (cx_config E) op1 = Some e"
    and v: "settled E (view_of ruleset s)" "well_formed (view_of ruleset s)"
  shows "change_ends E ruleset e s s' r"
proof -
  note pure = update_config_ends[OF _ follows_pure _ v] and checked = checked_ends[OF _ v(1)]
  have upsert: "upsert_server E server s = (s', r) \<Longrightarrow> change_ends E ruleset (\<lambda>c. and_then
      (map_sum Conf id (validate_server (cx_config E) server)) (\<lambda>_. upsert_edit server c)) s s' r" for server
    unfolding upsert_server_def by (erule checked) (rule pure[OF _ sound_upsert])
  show ?thesis
  proof (cases op1)
    case (Set_Mode b)
    then have "e = mode_edit b" using o by simp
    then show ?thesis using pure[OF c[unfolded Set_Mode control.simps set_mode_def] sound_mode] by simp
  next
    case (Exclude_Device mac b)
    then have "e = exclusion_edit mac b" using o by simp
    then show ?thesis using pure[OF c[unfolded Exclude_Device control.simps update_device_exclusion_def] sound_exclusion] by simp
  next
    case (Update_Routing rc)
    have "change_ends E ruleset (\<lambda>c. and_then (map_sum Conf id (normalize_routing (cx_config E) rc)) (\<lambda>rc. routing_edit rc c)) s s' r"
      using c[unfolded Update_Routing control.simps update_routing_def] by (rule checked) (rule pure[OF _ sound_routing])
    then show ?thesis using o Update_Routing by simp
  next
    case (Upsert_Server server)
    then show ?thesis using upsert[OF c[unfolded Upsert_Server control.simps]] o by simp
  next
    case (Import_Server name profile)
    have "change_ends E ruleset (\<lambda>c. and_then (map_sum Conf id (parse_server_profile (cx_config E) name profile)) (\<lambda>server.
        and_then (map_sum Conf id (validate_server (cx_config E) server)) (\<lambda>_. upsert_edit server c))) s s' r"
      using c[unfolded Import_Server control.simps import_server_def] by (rule checked) (rule upsert)
    then show ?thesis using o Import_Server by simp
  next
    case (Add_Server server)
    have "change_ends E ruleset (\<lambda>c. and_then (map_sum Conf id (validate_server (cx_config E) server)) (\<lambda>_. insert_server server c)) s s' r"
      using c[unfolded Add_Server control.simps add_server_def] by (rule checked) (rule pure[OF _ sound_insert])
    then show ?thesis using o Add_Server by simp
  next
    case (Update_Server u)
    have "change_ends E ruleset (\<lambda>c. and_then (map_sum Conf id (normalize_server_name (su_name u)))
        (\<lambda>name. update_edit (cx_config E) (u\<lparr>su_name := name\<rparr>) c)) s s' r"
      using c[unfolded Update_Server control.simps update_server_def] by (rule checked) (rule pure[OF _ sound_update])
    then show ?thesis using o Update_Server by simp
  next
    case (Select_Server key)
    then have "e = select_edit key" using o by simp
    then show ?thesis using pure[OF c[unfolded Select_Server control.simps select_server_def] sound_select] by simp
  next
    case (Delete_Server key)
    then have "e = delete_edit key" using o by simp
    then show ?thesis
      using update_config_ends[OF c[unfolded Delete_Server control.simps delete_server_def] follows_delete sound_delete v] by simp
  qed (use o in simp_all)
qed

end

section \<open>What a run and a change promise\<close>

text \<open>C1: over any run of the controller and the resolver from a router in order, with any failure of any step, the
  ruleset in the kernel is the one of the configuration and the policy in force and the guard is away, or the
  routing is marked as degraded, and then the ruleset is still that one or the guard stops every device that
  some configuration of the run did not exclude.\<close>

theorem forwarding_fails_closed:
  assumes "control_laws E ruleset mark_of peer_of sent rows"
    and "settled E (view_of ruleset s)" and "well_formed (view_of ruleset s)" and "s' \<in> set (control_run E ops s)"
  shows "pol_config (app_policy s') = routing (app_config s') \<and>
    (if app_degraded s' then in_force E (view_of ruleset s') \<or>
       (\<exists>t \<in> set (control_run E ops s). guarded (cx_lan E) (device_exclusions (app_config t)) (ruleset (app_world s')))
     else in_force E (view_of ruleset s') \<and> unguarded (ruleset (app_world s')))"
proof -
  have start: "s \<in> set (control_run E ops s)" by (cases ops) simp_all
  have "control_inv E {device_exclusions (app_config s)} (view_of ruleset s)"
    using assms(2,3) by (simp add: control_inv_def settled_def view_states)
  from control_laws.control_run_inv[OF assms(1) this assms(4)] show ?thesis
    using start by (auto simp: control_inv_def well_formed_def guarded_for_def view_of_def split: if_splits)
qed

text \<open>C2: an operation of the panel on a router in order succeeds with the configuration that its edit stands for in
  force, or fails with the configuration and the policy as they were in force, or fails and leaves the routing
  marked as degraded with one of the two configurations and the guard or the ruleset of that configuration.\<close>

theorem change_is_atomic:
  assumes "control_laws E ruleset mark_of peer_of sent rows"
    and "settled E (view_of ruleset s)" and "well_formed (view_of ruleset s)"
    and "op_edit (cx_config E) op1 = Some e" and "control E op1 s = (s', r)"
  shows "change_ends E ruleset e s s' r"
  by (rule control_laws.control_ends[OF assms(1,5,4,2,3)])

text \<open>C12: from any state of the router, degraded or not, a reconcile that succeeds leaves the ruleset of the stored
  configuration in force without the guard, every lease translated in it to the target of the policy; one that
  fails left everything as it was, or marked the routing as degraded with the guard or a ruleset in force.\<close>

theorem reconcile_settles:
  assumes "control_laws E ruleset mark_of peer_of sent rows" and "reconcile E s = (s', r)"
  shows "if r = Inr () then settled E (view_of ruleset s') \<and> leases_current (view_of ruleset s') \<and>
      app_config s' = app_config s \<and> pol_config (app_policy s') = routing (app_config s)
    else view_of ruleset s' = view_of ruleset s \<or> held E (view_of ruleset s) (view_of ruleset s')"
  using control_laws.reconcile_step[OF assms] by (elim disjE) (auto simp: view_states isl_def)

end
