(* ===== verification/Dns_Instance.thy ===== *)
theory Dns_Instance
  imports Dns_Answers
begin

text \<open>
  A machine that satisfies the contract of the resolver, and the witnesses of its properties on it: the
  ruleset is kept by the kernel of \<open>Script_Types\<close>, which checks every script; a socket has a mark and a
  peer; what is sent is noted; every lookup gets the reply that the machine holds.
\<close>

section \<open>The machine\<close>

record dns_machine =
  dm_rules :: "nft_command list"
  dm_clock :: nat
  dm_count :: nat
  dm_mark :: "nat \<Rightarrow> u32"
  dm_peer :: "nat \<Rightarrow> socket_addr option"
  dm_sent :: "(u32 \<times> socket_addr) set"
  dm_reply :: bytes

definition machine_sockets :: "dns_machine sockets" where
  "machine_sockets = \<lparr>
     sock_new = (\<lambda>_ w. (w\<lparr>dm_count := dm_count w + 1, dm_mark := (dm_mark w)(dm_count w := 0),
                          dm_peer := (dm_peer w)(dm_count w := None)\<rparr>, Io_Ok (dm_count w))),
     sock_mark = (\<lambda>h m w. (w\<lparr>dm_mark := (dm_mark w)(h := m)\<rparr>, Io_Ok ())),
     sock_timeout = (\<lambda>h _ w. (w, Io_Ok ())),
     sock_connect = (\<lambda>h a w. (w\<lparr>dm_peer := (dm_peer w)(h := Some a)\<rparr>, Io_Ok ())),
     sock_send = (\<lambda>h b w.
       (case dm_peer w h of
          None \<Rightarrow> (w, Io_Failed)
        | Some a \<Rightarrow> (w\<lparr>dm_sent := insert (dm_mark w h, a) (dm_sent w)\<rparr>, Io_Ok ()))),
     sock_recv = (\<lambda>h n w. (w, Io_Ok (take n (dm_reply w)))),
     sock_read_exact = (\<lambda>h n w. (w, if n \<le> length (dm_reply w) then Io_Ok (take n (dm_reply w)) else Io_Failed))\<rparr>"

definition machine_nft :: "dns_machine nft_host" where
  "machine_nft = kernel_nft dm_rules (\<lambda>rs w. w\<lparr>dm_rules := rs\<rparr>)"

text \<open>Two messages, under the names of one byte each: a question for \<^verbatim>\<open>example.org\<close> and its answer.\<close>

definition question :: dns_message where
  "question = new_message\<lparr>msg_id := 7, msg_recursion_desired := True,
     msg_queries := [\<lparr>dq_name = ''example.org'', dq_type = TYPE_A, dq_class = 1\<rparr>]\<rparr>"

definition real_address :: ipv4 where "real_address = octets_addr 1 1 1 1"

definition answer_record :: dns_record where
  "answer_record = \<lparr>rr_name = ''example.org'', rr_class = 1, rr_ttl = 60, rr_data = A_Data real_address\<rparr>"

definition answer :: dns_message where
  "answer = (reply_to question NO_ERROR)\<lparr>msg_answers := [answer_record]\<rparr>"

definition demo_lib :: dns_lib where
  "demo_lib = \<lparr>
     parse_message = (\<lambda>b. if b = [1] then Some question else if b = [2] then Some answer else None),
     encode_message = (\<lambda>m. Some [of_nat (msg_code m)]),
     dnssec_record = (\<lambda>_. False),
     same_queries = (=)\<rparr>"

lemma demo_lib_simps [simp]:
  "parse_message demo_lib [1] = Some question" "parse_message demo_lib [2] = Some answer"
  "encode_message demo_lib m = Some [of_nat (msg_code m)]" "same_queries demo_lib qs qs' \<longleftrightarrow> qs = qs'"
  by (simp_all add: demo_lib_def)

definition demo_dns :: "(fake_row list, dns_machine) dns_env" where
  "demo_dns = \<lparr>de_db = list_db, de_config = std_env, de_lib = demo_lib,
     de_clock = (\<lambda>w. (w\<lparr>dm_clock := dm_clock w + 1\<rparr>, Some (dm_clock w))), de_nft = machine_nft,
     de_sockets = machine_sockets\<rparr>"

lemma demo_dns_simps [simp]:
  "de_db demo_dns = list_db" "de_config demo_dns = std_env" "de_lib demo_dns = demo_lib" "de_nft demo_dns = machine_nft"
  "de_sockets demo_dns = machine_sockets"
  by (simp_all add: demo_dns_def)

interpretation machine_kernel: nft_laws machine_nft dm_rules
  unfolding machine_nft_def by (rule kernel_nft_laws) simp

interpretation machine_sockets: socket_laws machine_sockets dm_mark dm_peer dm_sent
  by unfold_locales (auto simp: machine_sockets_def split: option.splits if_splits)

interpretation demo: dns_laws demo_dns dm_rules dm_mark dm_peer dm_sent set
proof (rule dns_laws.intro)
  show "nft_laws (de_nft demo_dns) dm_rules" by (simp add: machine_kernel.nft_laws_axioms)
  show "socket_laws (de_sockets demo_dns) dm_mark dm_peer dm_sent" by (simp add: machine_sockets.socket_laws_axioms)
  show "fake_db_laws (de_db demo_dns) set" by (simp add: list_db.fake_db_laws_axioms)
  show "dns_laws_axioms demo_dns dm_rules dm_sent"
    by unfold_locales (auto simp: demo_dns_def machine_sockets_def machine_nft_def kernel_nft_def split: option.splits)
qed

section \<open>Witnesses\<close>

definition quiet_machine :: dns_machine where
  "quiet_machine = \<lparr>dm_rules = [], dm_clock = 100000, dm_count = 0, dm_mark = (\<lambda>_. 0), dm_peer = (\<lambda>_. None), dm_sent = {},
     dm_reply = [2]\<rparr>"

definition empty_store :: "fake_row list store" where
  "empty_store = \<lparr>connection = [], leases = [], used = {}, next_fake = FIRST_FAKE, max_leases = 8192\<rparr>"

definition demo_state :: "nft_command list \<Rightarrow> (fake_row list, dns_machine) fake_dns" where
  "demo_state rs = \<lparr>fd_store = empty_store, store_poisoned = False, updates_poisoned = False, dns_active = True,
     dns_vpn = True, dns_world = quiet_machine\<lparr>dm_rules := rs\<rparr>\<rparr>"

lemma demo_synced: "elements rs TABLE ''fake_to_real'' = [] \<Longrightarrow> \<forall>(t, s) \<in> set FAKE_TARGET_SETS. elements rs TABLE s = [] \<Longrightarrow>
    synced set dm_rules (demo_state rs)"
  by (auto simp: synced_def demo_state_def empty_store_def store_ok_def table_ok_def translated_def mappings_of_def quiet_machine_def)

lemma not_local: "\<not> local_dns_name std_ipnet ''example.org'' witness_lan"
  by (simp add: local_dns_name_def LOCAL_SUFFIXES_def strip_suffix_def)

lemma warp_target: "dns_target witness_policy ''example.org'' = Warp"
  by (simp add: dns_target_def rule_refs_def witness_policy_def nth_opt_def protect_def net_def)

lemma demo_query_domain: "query_domain std_env ''example.org'' = ''example.org''"
  by code_simp


definition demo_upstream :: socket_addr where
  "demo_upstream = SocketAddrV4 (octets_addr 192 168 1 1) 53"

lemma warp_route: "upstream_route ''example.org'' witness_policy demo_upstream True witness_lan =
    Some \<lparr>ur_address = WARP_DNS_UPSTREAM, ur_mark = WARP_MARK\<rparr>"
proof -
  have "pol_net witness_policy = std_ipnet" by (simp add: witness_policy_def)
  then show ?thesis using not_local by (simp add: upstream_route_def warp_target effective_target_def)
qed

lemma warp_query: "\<exists>w. query_upstream_with_mark machine_sockets [1] WARP_DNS_UPSTREAM WARP_MARK quiet_machine = (w, Inr [2]) \<and>
    dm_sent w = {(WARP_MARK, WARP_DNS_UPSTREAM)}"
  by (simp add: query_upstream_with_mark_def prepared_socket_def marked_socket_def bnd_def io_def ret_def machine_sockets_def
      quiet_machine_def WARP_MARK_def UDP_RESPONSE_BUFFER_def)

lemma warp_process:
  obtains s' r where "process demo_dns [1] witness_policy demo_upstream witness_lan (demo_state []) = (s', r)"
    and "dm_sent (dns_world s') = {(WARP_MARK, WARP_DNS_UPSTREAM)}" and "\<not> doubled r"
proof -
  obtain w where w: "query_upstream_with_mark machine_sockets [1] WARP_DNS_UPSTREAM WARP_MARK quiet_machine = (w, Inr [2])"
      "dm_sent w = {(WARP_MARK, WARP_DNS_UPSTREAM)}"
    using warp_query by blast
  have none: "domain_target witness_policy ''example.org'' = None"
    by (simp add: domain_target_def configured_domain_target_def rule_refs_def witness_policy_def domain_ref_rule_def
        List.map_filter_simps)
  have world: "dns_world (demo_state []) = quiet_machine" "dns_vpn (demo_state [])"
    by (simp_all add: demo_state_def quiet_machine_def)
  have "\<exists>s' b. forward_query demo_dns [1] question ''example.org'' \<lparr>ur_address = WARP_DNS_UPSTREAM, ur_mark = WARP_MARK\<rparr>
      witness_policy witness_lan (demo_state []) = (s', Inr b) \<and> dm_sent (dns_world s') = {(WARP_MARK, WARP_DNS_UPSTREAM)}"
    using w by (auto simp: forward_query_def upstream_packet_def question_def new_message_def WARP_MARK_def DIRECT_MARK_def
        bnd_def lift_def on_world_def world demo_lib_def answer_def reply_to_def require_def ret_def rewrite_response_def
        none ok_or_def)
  then show thesis
    using that warp_route
    by (auto simp: process_def demo_lib_def question_def demo_query_domain AP_DOMAIN_def world doubled_def Let_def)
qed

theorem lookups_leave_by_their_route_witness:
  "\<exists>s' r. process demo_dns [1] witness_policy demo_upstream witness_lan (demo_state []) = (s', r) \<and>
     (WARP_MARK, WARP_DNS_UPSTREAM) \<in> dm_sent (dns_world s') \<and>
     (\<exists>route. upstream_route ''example.org'' witness_policy demo_upstream True witness_lan = Some route \<and>
        (WARP_MARK, WARP_DNS_UPSTREAM) = (ur_mark route, ur_address route))"
proof -
  obtain s' r where run1: "process demo_dns [1] witness_policy demo_upstream witness_lan (demo_state []) = (s', r)"
    and sent1: "dm_sent (dns_world s') = {(WARP_MARK, WARP_DNS_UPSTREAM)}" by (rule warp_process)
  have new: "(WARP_MARK, WARP_DNS_UPSTREAM) \<in> dm_sent (dns_world s')"
      "(WARP_MARK, WARP_DNS_UPSTREAM) \<notin> dm_sent (dns_world (demo_state []))"
    using sent1 by (simp_all add: demo_state_def quiet_machine_def)
  have "dns_vpn (demo_state [])" by (simp add: demo_state_def)
  then show ?thesis
    using lookups_leave_by_their_route[OF demo.dns_laws_axioms run1 new] run1 new(1)
    by (auto simp: demo_lib_def question_def demo_query_domain)
qed


text \<open>A policy that sends the name through the VPN, and a routing table with the sets of FakeDNS.\<close>

definition vpn_policy :: "string policy" where
  "vpn_policy = \<lparr>pol_regex = witness_regex, pol_net = std_ipnet,
     pol_config = \<lparr>domain_rules = [\<lparr>dr_name = ''one'', dr_enabled = True, dr_matcher = Exact ''example.org'', dr_target = Vpn\<rparr>],
       ip_rules = [], default_target = Direct, mode = Rules, rule_order = None\<rparr>,
     pol_geo = empty_geodata, pol_nets = []\<rparr>"

definition fake_rules_table :: "nft_command list" where
  "fake_rules_table = Add_Table TABLE # Add_Map TABLE ''fake_to_real'' TRANSLATION #
     map (\<lambda>(t, s). Add_Set TABLE s ADDRESS) FAKE_TARGET_SETS"

lemma vpn_target:
  "domain_target vpn_policy ''example.org'' = Some (Vpn, ''one'')"
  "Routing.target vpn_policy ''example.org'' real_address = Vpn"
  "\<not> on_link std_ipnet witness_lan real_address"
proof -
  have m: "matches_domain vpn_policy \<lparr>dr_name = ''one'', dr_enabled = True, dr_matcher = Exact ''example.org'', dr_target = Vpn\<rparr> ''example.org''"
    by (simp add: matches_domain_def)
  have p: "domain_rules (pol_config vpn_policy) = [\<lparr>dr_name = ''one'', dr_enabled = True, dr_matcher = Exact ''example.org'', dr_target = Vpn\<rparr>]"
      "mode (pol_config vpn_policy) = Rules" "rule_refs vpn_policy = [Domain_Ref 0]" "pol_net vpn_policy = std_ipnet"
    by (simp_all add: vpn_policy_def rule_refs_def)
  have lan: "\<not> is_lan_destination std_ipnet real_address"
    by (simp add: is_lan_destination_def LAN_RANGES_def std_ipnet_def net_def real_address_def octets_addr_def net_first_def
        net_last_def net_size_def)
  show "domain_target vpn_policy ''example.org'' = Some (Vpn, ''one'')"
    using m by (simp add: domain_target_def configured_domain_target_def p domain_ref_rule_def List.map_filter_simps nth_opt_def)
  show "Routing.target vpn_policy ''example.org'' real_address = Vpn"
    using m lan by (simp add: Routing.target_def p ref_target_def nth_opt_def)
  show "\<not> on_link std_ipnet witness_lan real_address"
    using lan by (simp add: on_link_def witness_lan_def std_ipnet_def net_def real_address_def octets_addr_def net_first_def net_last_def net_size_def)
qed

lemma demo_names: "relevant_names std_env [answer_record] ''example.org'' = {''example.org''}"
  by (simp add: relevant_names_def names_loop_def while_option_unfold answer_record_def)

definition demo_mapping :: fake_mapping where
  "demo_mapping = \<lparr>fm_fake = FIRST_FAKE, fm_real = real_address, fm_target = Vpn\<rparr>"

definition leased_store :: "fake_row list store" where
  "leased_store = (let l = \<lparr>mapping = demo_mapping, lease_expires = 100360\<rparr>; k = (''example.org'', real_address) in
     empty_store\<lparr>connection := [row_of k l], leases := [(k, l)], used := {FIRST_FAKE}, next_fake := FIRST_FAKE + 1\<rparr>)"

lemma demo_allocate:
  "allocate list_db (Some 100000) ''example.org'' real_address Vpn (lease_ttl 60) empty_store =
     (leased_store, Inr (demo_mapping, True))"
proof -
  have f: "find_fake {} FIRST_FAKE 0 = Some FIRST_FAKE"
    by (simp add: find_fake.simps Let_def FIRST_FAKE_def pool_size_def LAST_FAKE_def octets_addr_def)
  have a: "after_fake FIRST_FAKE = FIRST_FAKE + 1"
    by (simp add: after_fake_def FIRST_FAKE_def LAST_FAKE_def octets_addr_def)
  have t: "i64_wrap (100000 + int (clamp 30 3600 (unat (lease_ttl 60))) + 300) = 100360"
    by (simp add: lease_ttl_def clamp_def i64_wrap_def)
  show ?thesis
    using t by (simp add: allocate_def empty_store_def leased_store_def demo_mapping_def unix_time_def len_def sql_def
        list_db_def f a ok_or_def Let_def)
qed

lemma demo_install:
  "install_mappings machine_nft [demo_mapping] (w\<lparr>dm_rules := fake_rules_table\<rparr>) =
     (w\<lparr>dm_rules := fake_rules_table @ append_mappings [demo_mapping]\<rparr>, Inr ())"
proof -
  have "script_ok (append_mappings [demo_mapping]) fake_rules_table"
    by (simp add: append_mappings_def append_target_elements_def demo_mapping_def fake_rules_table_def FAKE_TARGET_SETS_def
        declared_Cons)
  then show ?thesis
    by (simp add: install_mappings_def run_nft_def machine_nft_def kernel_nft_def)
      (simp add: append_mappings_def append_target_elements_def demo_mapping_def FAKE_TARGET_SETS_def)
qed


definition rewritten_record :: dns_record where
  "rewritten_record = answer_record\<lparr>rr_ttl := lease_ttl 60, rr_data := A_Data FIRST_FAKE\<rparr>"

lemma demo_rewrite:
  assumes "fd_store s = empty_store" and "\<not> store_poisoned s" and "dm_clock (dns_world s) = 100000"
    and "dm_rules (dns_world s) = fake_rules_table"
  shows "rewrite_message demo_dns answer ''example.org'' vpn_policy witness_lan s =
     (s\<lparr>fd_store := leased_store, dns_world := (dns_world s)\<lparr>dm_clock := 100001,
        dm_rules := fake_rules_table @ append_mappings [demo_mapping]\<rparr>\<rparr>,
      Inr (answer\<lparr>msg_answers := [rewritten_record]\<rparr>, True))"
proof -
  let ?s1 = "s\<lparr>dns_world := (dns_world s)\<lparr>dm_clock := 100001\<rparr>\<rparr>" and ?s2 = "s\<lparr>fd_store := leased_store, dns_world := (dns_world s)\<lparr>dm_clock := 100001\<rparr>\<rparr>"
  have answers: "msg_answers answer = [answer_record]" "msg_additionals answer = []" "rr_name answer_record = ''example.org''"
      "rr_ttl answer_record = 60" "rr_data answer_record = A_Data real_address" "pol_net vpn_policy = std_ipnet"
    by (simp_all add: answer_def answer_record_def reply_to_def question_def new_message_def vpn_policy_def)
  have clock: "read_clock demo_dns s = (?s1, Inr (Some 100000))"
    using assms(3) by (simp add: read_clock_def on_world_def observe_def demo_dns_def)
  have lease: "on_store (allocate list_db (Some 100000) ''example.org'' real_address Vpn (lease_ttl 60)) ?s1 =
      (?s2, Inr (demo_mapping, True))"
    using assms(1) by (simp add: on_store_def demo_allocate)
  have records: "rewrite_records demo_dns ''example.org'' vpn_policy {''example.org''} witness_lan [answer_record] (s, []) =
      ((?s2, [demo_mapping]), Inr ([rewritten_record], True))"
    by (simp add: answers demo_query_domain vpn_target bnd_def on_dns_def clock lease push_mapping_def ret_def
        rewritten_record_def demo_mapping_def)
  have "(dns_world s)\<lparr>dm_clock := 100001, dm_rules := fake_rules_table\<rparr> = (dns_world s)\<lparr>dm_clock := 100001\<rparr>"
    using assms(4) by (metis (no_types, lifting) dns_machine.surjective dns_machine.update_convs(1,2))
  then have "install_mappings machine_nft [demo_mapping] ((dns_world s)\<lparr>dm_clock := 100001\<rparr>) =
      ((dns_world s)\<lparr>dm_clock := 100001, dm_rules := fake_rules_table @ append_mappings [demo_mapping]\<rparr>, Inr ())"
    using demo_install[of "(dns_world s)\<lparr>dm_clock := 100001\<rparr>"] by simp
  then have "rewrite_sections demo_dns answer ''example.org'' vpn_policy witness_lan (s, []) =
      ((s\<lparr>fd_store := leased_store, dns_world := (dns_world s)\<lparr>dm_clock := 100001,
        dm_rules := fake_rules_table @ append_mappings [demo_mapping]\<rparr>\<rparr>, [demo_mapping]),
      Inr (answer\<lparr>msg_answers := [rewritten_record]\<rparr>, True))"
    by (simp add: rewrite_sections_def demo_names answers bnd_def records install_added_def on_dns_def on_world_def ret_def Let_def
        del: rewrite_records.simps(2))
  then show ?thesis using assms(2) by (simp add: rewrite_message_def with_store_def)
qed

lemma demo_state_synced: "synced set dm_rules (demo_state fake_rules_table)"
  by (rule demo_synced) (simp_all add: fake_rules_table_def elements_Cons FAKE_TARGET_SETS_def)

theorem answers_translate_back_witness:
  "\<exists>s' m'. rewrite_message demo_dns answer ''example.org'' vpn_policy witness_lan (demo_state fake_rules_table) = (s', Inr (m', True)) \<and>
     msg_answers m' = [answer_record\<lparr>rr_ttl := lease_ttl 60, rr_data := A_Data FIRST_FAKE\<rparr>] \<and>
     El_Map FIRST_FAKE real_address \<in> set (elements (dm_rules (dns_world s')) TABLE ''fake_to_real'')"
proof -
  obtain s' where run1: "rewrite_message demo_dns answer ''example.org'' vpn_policy witness_lan (demo_state fake_rules_table) =
      (s', Inr (answer\<lparr>msg_answers := [rewritten_record]\<rparr>, True))" and st: "fd_store s' = leased_store"
    using demo_rewrite[of "demo_state fake_rules_table"] by (auto simp: demo_state_def quiet_machine_def)
  have "map_of (leases (fd_store s')) (''example.org'', real_address) = Some \<lparr>mapping = demo_mapping, lease_expires = 100360\<rparr>"
    by (simp add: st leased_store_def Let_def)
  with answers_translate_back[OF demo.dns_laws_axioms demo_state_synced run1]
  have "El_Map (fm_fake (mapping \<lparr>mapping = demo_mapping, lease_expires = 100360\<rparr>)) real_address
      \<in> set (elements (dm_rules (dns_world s')) TABLE ''fake_to_real'')" by blast
  then show ?thesis using run1 by (simp add: demo_mapping_def rewritten_record_def)
qed


lemma vpn_route: "upstream_route ''example.org'' vpn_policy demo_upstream True witness_lan =
    Some \<lparr>ur_address = TUNNEL_DNS_UPSTREAM, ur_mark = VPN_MARK\<rparr>"
proof -
  have "pol_net vpn_policy = std_ipnet" by (simp add: vpn_policy_def)
  moreover have "dns_target vpn_policy ''example.org'' = Vpn"
    by (simp add: dns_target_def vpn_policy_def rule_refs_def nth_opt_def protect_def matches_domain_def)
  ultimately show ?thesis using not_local by (simp add: upstream_route_def effective_target_def)
qed

lemma vpn_query: "\<exists>w. query_upstream_with_mark machine_sockets [1] TUNNEL_DNS_UPSTREAM VPN_MARK m = (w, Inr (take 4096 (dm_reply m))) \<and>
    dm_rules w = dm_rules m \<and> dm_clock w = dm_clock m" if "dm_reply m = [2]"
  using that by (simp add: query_upstream_with_mark_def prepared_socket_def marked_socket_def bnd_def io_def ret_def
      machine_sockets_def VPN_MARK_def UDP_RESPONSE_BUFFER_def)

lemma demo_run:
  obtains s' where "dns_run demo_dns [Ask [1] vpn_policy demo_upstream witness_lan, Clean_Up] (demo_state fake_rules_table) = (s', False)"
    and "fd_store s' = leased_store"
proof -
  let ?s = "demo_state fake_rules_table"
  obtain w where w: "query_upstream_with_mark machine_sockets [1] TUNNEL_DNS_UPSTREAM VPN_MARK (dns_world ?s) = (w, Inr [2])"
      "dm_rules w = fake_rules_table" "dm_clock w = 100000"
    using vpn_query[of "dns_world ?s"] by (auto simp: demo_state_def quiet_machine_def)
  let ?s1 = "?s\<lparr>dns_world := w\<rparr>"
  have state: "dns_vpn ?s" "\<not> store_poisoned ?s" "fd_store ?s = empty_store" by (simp_all add: demo_state_def)
  obtain s2 m where r: "rewrite_message demo_dns answer ''example.org'' vpn_policy witness_lan ?s1 = (s2, Inr (m, True))"
      "fd_store s2 = leased_store" "dm_clock (dns_world s2) = 100001" "\<not> updates_poisoned s2" "\<not> store_poisoned s2"
    using demo_rewrite[of ?s1] state w by (auto simp: demo_state_def)
  have route: "upstream_packet demo_lib [1] question \<lparr>ur_address = TUNNEL_DNS_UPSTREAM, ur_mark = VPN_MARK\<rparr> = Inr [1]"
    by (simp add: upstream_packet_def question_def new_message_def)
  have accept: "msg_response answer \<and> msg_id answer = msg_id question \<and> msg_queries answer = msg_queries question"
    by (simp add: answer_def reply_to_def question_def new_message_def)
  have "\<exists>b. forward_query demo_dns [1] question ''example.org'' \<lparr>ur_address = TUNNEL_DNS_UPSTREAM, ur_mark = VPN_MARK\<rparr>
      vpn_policy witness_lan ?s = (s2, Inr b)"
    using w r accept state by (auto simp: forward_query_def bnd_def lift_def route on_world_def require_def ret_def
        rewrite_response_def vpn_target ok_or_def)
  then obtain b where "process demo_dns [1] vpn_policy demo_upstream witness_lan ?s = (s2, Inr b)"
    using vpn_route state
    by (auto simp: process_def question_def demo_query_domain AP_DOMAIN_def Let_def)
  moreover have "purge_expired demo_dns s2 = (s2\<lparr>dns_world := (dns_world s2)\<lparr>dm_clock := 100002\<rparr>\<rparr>, Inr 0)"
    using r by (simp add: purge_expired_def with_store_def purge_locked_def bnd_def read_clock_def on_world_def observe_def
        demo_dns_def expired_def unix_time_def expired_at_def leased_store_def Let_def i64_saturating_sub_def
        CONNECTION_GRACE_SECONDS_def ret_def)
  ultimately show thesis using that[of "s2\<lparr>dns_world := (dns_world s2)\<lparr>dm_clock := 100002\<rparr>\<rparr>"] r(2) by (simp add: doubled_def)
qed

theorem kernel_translates_the_leases_witness:
  "\<exists>s'. dns_run demo_dns [Ask [1] vpn_policy demo_upstream witness_lan, Clean_Up] (demo_state fake_rules_table) = (s', False) \<and>
     fd_store s' = leased_store \<and> synced set dm_rules s'"
proof -
  obtain s' where run1: "dns_run demo_dns [Ask [1] vpn_policy demo_upstream witness_lan, Clean_Up] (demo_state fake_rules_table) = (s', False)"
    and st: "fd_store s' = leased_store" by (rule demo_run)
  show ?thesis using kernel_translates_the_leases[OF demo.dns_laws_axioms demo_state_synced run1] run1 st by blast
qed

end
