(* ===== verification/Controller_Instance.thy ===== *)
theory Controller_Instance
  imports Controller_Runs Dns_Instance
begin

text \<open>
  A router that satisfies the contract of the controller, over the machine of \<open>Dns_Instance\<close>: its kernel checks
  and applies every script, its files and commands do what they should. The properties of the controller are
  applied on it.
\<close>

section \<open>The router\<close>

definition root_directory :: node_meta where
  "root_directory = \<lparr>nm_dir = True, nm_file = False, nm_symlink = False, nm_mode = 0x41ED, nm_links = 2, nm_uid = 0,
     nm_inode = 1, nm_len = 0\<rparr>"

definition calm_host :: "dns_machine host" where
  "calm_host = \<lparr>
     host_now = (\<lambda>w. (w, 0)), host_random = (\<lambda>n w. (w, Some (replicate n 0))), host_exists = (\<lambda>_ w. (w, True)),
     host_stat = (\<lambda>_ w. (w, Missing)), host_open = (\<lambda>_ w. (w, Missing)), host_read_text = (\<lambda>_ w. (w, Missing)),
     host_create_new = (\<lambda>_ w. (w, Io_Ok ())), host_truncate = (\<lambda>_ w. (w, Io_Ok ())),
     host_append = (\<lambda>_ _ w. (w, Io_Ok ())), host_sync = (\<lambda>_ w. (w, Io_Ok ())), host_rename = (\<lambda>_ _ w. (w, Io_Ok ())),
     host_remove = (\<lambda>_ w. (w, Io_Ok ()))\<rparr>"

definition calm_machine_ops :: "dns_machine machine" where
  "calm_machine_ops = \<lparr>mc_host = calm_host, mc_pid = 1,
     mc_lstat = (\<lambda>_ w. (w, Io_Ok root_directory)), mc_chmod = (\<lambda>_ _ w. (w, Io_Ok ())),
     mc_fetch_add = (\<lambda>w. (w\<lparr>dm_count := dm_count w + 1\<rparr>, dm_count w)), mc_mkdir_all = (\<lambda>_ _ w. (w, Io_Ok ())),
     mc_link = (\<lambda>_ _ w. (w, Created)), mc_read_dir = (\<lambda>_ w. (w, Io_Ok [])), mc_open_file = (\<lambda>_ w. (w, Missing)),
     mc_create_lock = (\<lambda>_ w. (w, Created)), mc_open_lock = (\<lambda>_ w. (w, Io_Ok ())), mc_try_lock = (\<lambda>_ w. (w, Locked)),
     mc_command = (\<lambda>_ _ w. (w, Exited True (Some [])))\<rparr>"

definition demo_app :: "(fake_row list, dns_machine, string) app_env" where
  "demo_app = \<lparr>cx_dns = demo_dns, cx_machine = calm_machine_ops, cx_regex = witness_regex,
     cx_live_sites = (\<lambda>_ _. False), cx_live_ips = (\<lambda>_ _. False), cx_json = (\<lambda>_. Some []), cx_interface = ''wg0'',
     cx_lan = witness_lan, cx_dns_port = 5353, cx_ports = \<lparr>http = 80, https = 443\<rparr>,
     cx_config_path = ''/etc/gofro/config.json'', cx_mode_command = ''/usr/libexec/gofro/mode'',
     cx_management_dir = ''/etc/gofro/management''\<rparr>"

interpretation demo_router: control_laws demo_app dm_rules dm_mark dm_peer dm_sent set
proof (rule control_laws.intro)
  show "dns_laws (cx_dns demo_app) dm_rules dm_mark dm_peer dm_sent set" by (simp add: demo_app_def demo.dns_laws_axioms)
  show "control_laws_axioms demo_app dm_rules"
    by unfold_locales (simp_all add: demo_app_def calm_machine_ops_def calm_host_def)
qed

definition demo_server :: server_profile where
  "demo_server = \<lparr>sp_name = ''Home'', sp_emoji = [], sp_endpoint = ''vpn.example:8443'', sp_public_key = ''key'',
     client_tunnel_address = None, client_private_key = None, management = None\<rparr>"

definition demo_config :: controller_config where
  "demo_config = \<lparr>auto_update_enabled = False, device_exclusions = [], vpn_enabled = False, active_server_key = None,
     servers = [demo_server], routing = pol_config vpn_policy\<rparr>"

definition demo_router_state :: "(fake_row list, dns_machine, string) app_state" where
  "demo_router_state = \<lparr>app_dns = demo_state (apply_script (render_with_exclusions witness_lan 5353
       (egress_from_config std_ipnet demo_config) vpn_policy [] \<lparr>http = 80, https = 443\<rparr> []) []),
     app_config = demo_config, app_policy = vpn_policy, app_geodata = empty_geodata, app_degraded = False,
     config_poisoned = False, routing_poisoned = False\<rparr>"

lemma demo_settled: "settled demo_app (view_of dm_rules demo_router_state)" "well_formed (view_of dm_rules demo_router_state)"
proof -
  let ?rs = "apply_script (render_with_exclusions witness_lan 5353 (egress_from_config std_ipnet demo_config) vpn_policy []
      \<lparr>http = 80, https = 443\<rparr> []) []"
  have v: "v_rules (view_of dm_rules demo_router_state) = ?rs" "v_config (view_of dm_rules demo_router_state) = demo_config"
    "v_policy (view_of dm_rules demo_router_state) = vpn_policy" "\<not> v_degraded (view_of dm_rules demo_router_state)"
    by (simp_all add: view_of_def demo_router_state_def app_world_def demo_state_def quiet_machine_def)
  have "table_for demo_app demo_config vpn_policy [] =
      policy_table witness_lan 5353 (egress_from_config std_ipnet demo_config) vpn_policy \<lparr>http = 80, https = 443\<rparr> []"
    by (simp add: table_for_def demo_app_def cx_net_def cx_config_def std_env_def)
  then show "settled demo_app (view_of dm_rules demo_router_state)"
    using v applied_rules[OF refl, of witness_lan 5353 "egress_from_config std_ipnet demo_config" vpn_policy "[]" _ "[]" "[]"]
    by (simp add: settled_def in_force_def unguarded_def demo_config_def)
  show "well_formed (view_of dm_rules demo_router_state)"
    using v by (simp add: well_formed_def demo_config_def active_known_def normal_exclusions_def normalize_exclusions_def
        sort_by_def ensure_def)
qed

section \<open>Witnesses\<close>

lemma demo_ancestors: "ancestors ''/etc/gofro'' = [''/etc/gofro'', ''/etc'', ''/'']" "path_parent ''/etc/gofro/config.json'' = Some ''/etc/gofro''"
proof -
  have "path_parent ''/etc/gofro'' = Some ''/etc''" "path_parent ''/etc'' = Some ''/''" "path_parent ''/'' = None"
    by code_simp+
  then show "ancestors ''/etc/gofro'' = [''/etc/gofro'', ''/etc'', ''/'']" by (simp add: ancestors.simps)
  show "path_parent ''/etc/gofro/config.json'' = Some ''/etc/gofro''" by code_simp
qed

lemma demo_lock: "lock_apply demo_app s = (s, Inr ())"
proof -
  have "lock_apply_path calm_machine_ops ''/etc/gofro/config.json'' w = (w, Inr ())" for w
    by (simp add: lock_apply_path_def demo_ancestors ok_or_def bnd_def lift_def io_def require_def ret_def observe_def
        safe_ancestor_def calm_machine_ops_def root_directory_def Let_def)
  then show ?thesis by (simp add: lock_apply_def on_machine_def demo_app_def app_world_def)
qed

lemma demo_save: "save_file demo_app c s = (s, Inr ())"
  by (simp add: save_file_def on_machine_def demo_app_def save_config_def calm_machine_ops_def calm_host_def bnd_def io_def
      ok_or_def lift_def Let_def app_world_def)

lemma demo_select:
  "control demo_app (Select_Server ''key'') demo_router_state =
     (demo_router_state\<lparr>app_config := demo_config\<lparr>active_server_key := Some ''key''\<rparr>\<rparr>, Inr ())"
proof -
  have "select_edit ''key'' demo_config = Inr (demo_config\<lparr>active_server_key := Some ''key''\<rparr>, Config_Change)"
    by (simp add: select_edit_def demo_config_def has_key_def demo_server_def ok_or_def)
  moreover have "normalize_exclusions (device_exclusions demo_config) = Inr []"
    by (simp add: demo_config_def normalize_exclusions_def sort_by_def ensure_def)
  moreover have "demo_config\<lparr>active_server_key := Some ''key'', device_exclusions := []\<rparr> = demo_config\<lparr>active_server_key := Some ''key''\<rparr>"
    by (simp add: demo_config_def)
  ultimately show ?thesis
    by (simp add: select_server_def update_config_def bnd_def demo_lock on_fake_dns_def begin_update_def demo_router_state_def
        demo_state_def lock_config_def not_degraded_def pure_edit_def lift_def Let_def save_only_def demo_save)
qed

abbreviation selected_state :: "(fake_row list, dns_machine, string) app_state" where
  "selected_state \<equiv> demo_router_state\<lparr>app_config := demo_config\<lparr>active_server_key := Some ''key''\<rparr>\<rparr>"

theorem forwarding_fails_closed_witness:
  "selected_state \<in> set (control_run demo_app [Select_Server ''key'', Set_Mode True, Purge, Reconcile] demo_router_state) \<and>
   in_force demo_app (view_of dm_rules selected_state) \<and> unguarded (dm_rules (app_world selected_state))"
proof -
  have run1: "selected_state \<in> set (control_run demo_app [Select_Server ''key'', Set_Mode True, Purge, Reconcile] demo_router_state)"
    using demo_select by simp
  moreover have "\<not> app_degraded selected_state" by (simp add: demo_router_state_def)
  ultimately show ?thesis
    using forwarding_fails_closed[OF demo_router.control_laws_axioms demo_settled run1] by (auto split: if_splits)
qed

theorem change_is_atomic_witness:
  "control demo_app (Select_Server ''key'') demo_router_state =
     (demo_router_state\<lparr>app_config := demo_config\<lparr>active_server_key := Some ''key''\<rparr>\<rparr>, Inr ()) \<and>
   settled demo_app (view_of dm_rules (demo_router_state\<lparr>app_config := demo_config\<lparr>active_server_key := Some ''key''\<rparr>\<rparr>))"
proof -
  have "op_edit (cx_config demo_app) (Select_Server ''key'') = Some (select_edit ''key'')" by simp
  from change_is_atomic[OF demo_router.control_laws_axioms demo_settled this demo_select] show ?thesis
    using demo_select by (auto simp: change_ends_def)
qed

text \<open>A reconcile of the degraded router, step by step: every script is accepted, every command succeeds.\<close>

definition demo_at :: "nft_command list \<Rightarrow> bool \<Rightarrow> bool \<Rightarrow> (fake_row list, dns_machine, string) app_state" where
  "demo_at rs degraded vpn = demo_router_state\<lparr>app_dns := set_vpn_enabled vpn (demo_state rs), app_degraded := degraded\<rparr>"

lemma demo_nft:
  assumes "show_script cs \<noteq> []" and "script_ok cs rs"
  shows "on_machine Nft (run_nft machine_nft cs) (demo_at rs b v) = (demo_at (apply_script cs rs) b v, Inr ())"
  using assms by (simp add: on_machine_def run_nft_def machine_nft_def kernel_nft_def demo_at_def app_world_def demo_state_def
      set_vpn_enabled_def quiet_machine_def demo_router_state_def)

lemma demo_compile: "compile_policy demo_app (routing demo_config) s = (s, Inr vpn_policy)" if "app_geodata s = empty_geodata"
  using that by (simp add: compile_policy_def demo_app_def compile_def demo_config_def vpn_policy_def select_def empty_geodata_def check_sites_def
      cx_net_def cx_config_def std_env_def)

lemma demo_calm:
  "on_machine Save (sync_committed (cx_machine demo_app) (cx_config_path demo_app)) s = (s, Inr ())"
  "on_machine Net (retire_legacy_routing (cx_machine demo_app) (cx_config_path demo_app)) s = (s, Inr ())"
  "flush_dns demo_app s = (s, Inr ())" "apply_network demo_app demo_config s = (s, Inr ())"
  by (simp_all add: on_machine_def sync_committed_def retire_legacy_routing_def flush_dns_def cleanup_dns_flows_def
      apply_network_def change_mode_def apply_mode_def stop_tunnel_def set_tunnel_def restore_file_def remove_file_def demo_config_def
      run_quietly_def run_command_def bnd_def io_def io_opt_def lift_def ok_or_def ret_def Let_def app_world_def
      demo_app_def demo_ancestors calm_machine_ops_def calm_host_def)

lemma demo_policy: "\<exists>rs'. apply_policy demo_app demo_config vpn_policy [] (demo_at rs b v) = (demo_at rs' b v, Inr ())"
proof -
  let ?cs = "render_with_exclusions witness_lan 5353 (egress_from_config std_ipnet demo_config) vpn_policy [] \<lparr>http = 80, https = 443\<rparr> []"
  have ok: "show_script ?cs \<noteq> []" "script_ok ?cs rs"
    by (simp add: render_with_exclusions_def set_commands_def) (rule table_script_ready[THEN conjunct1])
  have app: "on_machine Nft (apply_table (de_nft (cx_dns demo_app)) (cx_lan demo_app) (unat (cx_dns_port demo_app))
      (egress_from_config (cx_net demo_app) demo_config) vpn_policy [] (cx_ports demo_app) []) (demo_at rs b v) =
      (demo_at (apply_script ?cs rs) b v, Inr ())"
    using demo_nft[OF ok] by (simp add: apply_table_def demo_app_def cx_net_def cx_config_def std_env_def)
  have "on_fake_dns (dns_reclassified vpn_policy) (demo_at rs b v) = (demo_at rs b v, Inr [])"
    "on_fake_dns (dns_commit_targets (cx_dns demo_app) vpn_policy) (demo_at rs' b v) = (demo_at rs' b v, Inr ())" for rs'
    by (simp_all add: on_fake_dns_def dns_reclassified_def dns_commit_targets_def with_store_def on_store_def reclassified_def
        commit_targets_def transaction_def sql_def list_db_def demo_app_def demo_at_def demo_state_def set_vpn_enabled_def
        empty_store_def demo_router_state_def ok_or_def)
  with app have "apply_policy demo_app demo_config vpn_policy [] (demo_at rs b v) = (demo_at (apply_script ?cs rs) b v, Inr ())"
    by (simp add: apply_policy_def bnd_ran)
  then show ?thesis by blast
qed

lemma demo_guard:
  "\<exists>rs'. put_guard demo_app [] (demo_at rs b v) = (demo_at rs' b v, Inr ())" "\<exists>rs'. drop_guard demo_app (demo_at rs b v) = (demo_at rs' b v, Inr ())"
proof -
  have "show_script (render_guard_with_exclusions witness_lan []) \<noteq> []" using guard_nonempty by simp
  from demo_nft[OF this guard_script_ok] show "\<exists>rs'. put_guard demo_app [] (demo_at rs b v) = (demo_at rs' b v, Inr ())"
    by (auto simp: put_guard_def install_guard_def demo_app_def)
  have "show_script [Destroy_Table GUARD_TABLE] \<noteq> []" "script_ok [Destroy_Table GUARD_TABLE] rs" by simp_all
  from demo_nft[OF this] show "\<exists>rs'. drop_guard demo_app (demo_at rs b v) = (demo_at rs' b v, Inr ())"
    by (auto simp: drop_guard_def clear_guard_def demo_app_def)
qed

lemma demo_reconcile: "\<exists>s'. reconcile demo_app (demo_at rs True v) = (s', Inr ())"
proof -
  have start: "on_fake_dns begin_update (demo_at rs b v) = (demo_at rs b v, Inr ())" "lock_config (demo_at rs b v) = (demo_at rs b v, Inr demo_config)"
    "lock_routing (demo_at rs b v) = (demo_at rs b v, Inr vpn_policy)" "app_geodata (demo_at rs b v) = empty_geodata"
    "modify (\<lambda>s. s\<lparr>app_degraded := True\<rparr>) (demo_at rs b v) = (demo_at rs True v, Inr ())"
    "modify (\<lambda>s. s\<lparr>app_degraded := False\<rparr>) (demo_at rs b v) = (demo_at rs False v, Inr ())"
    "modify (committed demo_config vpn_policy) (demo_at rs b v) = (demo_at rs b False, Inr ())" for rs b v
    by (simp_all add: on_fake_dns_def begin_update_def demo_at_def demo_state_def set_vpn_enabled_def lock_config_def lock_routing_def
        demo_router_state_def modify_def committed_def demo_config_def)
  have x: "device_exclusions demo_config = []" by (simp add: demo_config_def)
  obtain rs1 where g: "put_guard demo_app [] (demo_at rs True v) = (demo_at rs1 True v, Inr ())" using demo_guard(1) by blast
  obtain rs2 where p: "apply_policy demo_app demo_config vpn_policy [] (demo_at rs1 True v) = (demo_at rs2 True v, Inr ())"
    using demo_policy by blast
  obtain rs3 where d: "drop_guard demo_app (demo_at rs2 True False) = (demo_at rs3 True False, Inr ())" using demo_guard(2) by blast
  show ?thesis
    by (simp add: reconcile_def reconcile_locked_def bnd_ran demo_lock start demo_calm demo_compile x g p d)
qed

theorem reconcile_settles_witness:
  "\<exists>s'. reconcile demo_app (demo_router_state\<lparr>app_degraded := True\<rparr>) = (s', Inr ()) \<and>
     settled demo_app (view_of dm_rules s') \<and> leases_current (view_of dm_rules s') \<and> app_config s' = demo_config"
proof -
  have "demo_router_state\<lparr>app_degraded := True\<rparr> = demo_at (dm_rules (app_world demo_router_state)) True True"
    by (simp add: demo_at_def demo_router_state_def demo_state_def set_vpn_enabled_def app_world_def quiet_machine_def)
  then obtain s' where run1: "reconcile demo_app (demo_router_state\<lparr>app_degraded := True\<rparr>) = (s', Inr ())"
    using demo_reconcile by metis
  from reconcile_settles[OF demo_router.control_laws_axioms run1] run1 show ?thesis
    by (auto simp: demo_router_state_def)
qed

end
