(* ===== verification/Pin_Safety.thy ===== *)
theory Pin_Safety
  imports Pins
begin

text \<open>
  What the pins of SSH host keys promise: a stored key is never replaced or altered by the key of another
  server, and a pin that succeeds is the file with exactly the given key. The locale \<open>pin_laws\<close> is the contract
  of the file system: paths lead to inodes, and inodes have a content.
\<close>

section \<open>The file system\<close>

locale pin_laws =
  fixes M :: "'w machine" and node :: "'w \<Rightarrow> string \<Rightarrow> nat option" and data :: "'w \<Rightarrow> nat \<Rightarrow> bytes"
  assumes lstat_files: "node (fst (mc_lstat M p w)) = node w \<and> data (fst (mc_lstat M p w)) = data w"
    and lstat_found: "mc_lstat M p w = (w', Io_Ok m) \<Longrightarrow> node w p = Some (nm_inode m) \<and> nm_len m = length (data w (nm_inode m))"
    and open_files: "node (fst (mc_open_file M p w)) = node w \<and> data (fst (mc_open_file M p w)) = data w"
    and open_found: "mc_open_file M p w = (w', Io_Ok (m, c)) \<Longrightarrow> node w p = Some (nm_inode m) \<and> c = data w (nm_inode m)"
    and mkdir_files: "node w q = Some i \<Longrightarrow>
      node (fst (mc_mkdir_all M p n w)) q = Some i \<and> data (fst (mc_mkdir_all M p n w)) i = data w i"
    and chmod_files: "node (fst (mc_chmod M p n w)) = node w \<and> data (fst (mc_chmod M p n w)) = data w"
    and read_dir_files: "node (fst (mc_read_dir M p w)) = node w \<and> data (fst (mc_read_dir M p w)) = data w"
    and count_files: "node (fst (mc_fetch_add M w)) = node w \<and> data (fst (mc_fetch_add M w)) = data w"
    and sync_files: "node (fst (host_sync (mc_host M) p w)) = node w \<and> data (fst (host_sync (mc_host M) p w)) = data w"
    and create_new_file: "host_create_new (mc_host M) p w = (w', Io_Ok ()) \<Longrightarrow>
      \<exists>i. node w p = None \<and> i \<notin> ran (node w) \<and> node w' = (node w)(p \<mapsto> i) \<and> (\<forall>j. j \<noteq> i \<longrightarrow> data w' j = data w j)"
    and create_failed: "host_create_new (mc_host M) p w = (w', r) \<Longrightarrow> r \<noteq> Io_Ok () \<Longrightarrow> node w' = node w \<and> data w' = data w"
    and append_files: "node (fst (host_append (mc_host M) p b w)) = node w \<and>
      (\<forall>j. node w p \<noteq> Some j \<longrightarrow> data (fst (host_append (mc_host M) p b w)) j = data w j)"
    and linked: "mc_link M p q w = (w', Created) \<Longrightarrow> node w q = None \<and> node w' = (node w)(q := node w p) \<and> data w' = data w"
    and not_linked: "mc_link M p q w = (w', l) \<Longrightarrow> l \<noteq> Created \<Longrightarrow> node w' = node w \<and> data w' = data w"
    and remove_files: "data (fst (host_remove (mc_host M) p w)) = data w \<and>
      (node (fst (host_remove (mc_host M) p w)) = node w \<or> node (fst (host_remove (mc_host M) p w)) = (node w)(p := None))"

section \<open>Names\<close>

text \<open>Only names that the code gives to its own temporary files are ever removed.\<close>

definition left_over :: "string \<Rightarrow> string \<Rightarrow> bool" where
  "left_over dir q \<longleftrightarrow> (\<exists>name. q = path_join dir name \<and> owned_name name)"

lemma path_join_inj: "path_join d a = path_join d b \<longleftrightarrow> a = b"
  by (simp add: path_join_def)

lemma pin_not_left_over: "\<not> left_over dir (pin_path dir host port)"
proof -
  have "\<not> owned_name (''host-'' @ host @ ''-'' @ digits (unat port) @ ''.pub'')"
    by (simp add: owned_name_def)
  then show ?thesis by (auto simp: left_over_def pin_path_def path_join_inj)
qed

definition tracked :: "('w \<Rightarrow> string \<Rightarrow> nat option) \<Rightarrow> string \<Rightarrow> 'w \<Rightarrow> string \<Rightarrow> nat \<Rightarrow> bool" where
  "tracked node dir w0 q i \<longleftrightarrow> node w0 q = Some i \<and> \<not> left_over dir q"

lemma text_of_bytes: "text_of b = Some s \<Longrightarrow> bytes_of_str s = b"
  by (auto simp: text_of_def bytes_of_str_of_bytes split: if_splits)

context pin_laws
begin

definition intact :: "string \<Rightarrow> 'w \<Rightarrow> 'w \<Rightarrow> bool" where
  "intact dir w0 w \<longleftrightarrow> (\<forall>q i. tracked node dir w0 q i \<longrightarrow> node w q = Some i \<and> data w i = data w0 i)"

text \<open>While a temporary file is in the works, it is no tracked file under another name.\<close>

definition drafting :: "string \<Rightarrow> 'w \<Rightarrow> string \<Rightarrow> 'w \<Rightarrow> bool" where
  "drafting dir w0 t w \<longleftrightarrow> intact dir w0 w \<and> (\<forall>q i. tracked node dir w0 q i \<longrightarrow> q \<noteq> t \<and> node w t \<noteq> Some i)"

lemma intact_refl: "intact dir w w"
  by (simp add: intact_def tracked_def)

lemma intact_same: "node w' = node w \<Longrightarrow> data w' = data w \<Longrightarrow> intact dir w0 w' = intact dir w0 w"
  and drafting_same: "node w' = node w \<Longrightarrow> data w' = data w \<Longrightarrow> drafting dir w0 t w' = drafting dir w0 t w"
  by (simp_all add: drafting_def intact_def)

lemma quiet_intact:
  "intact dir w0 (fst (mc_lstat M p w)) = intact dir w0 w" "intact dir w0 (fst (mc_open_file M p w)) = intact dir w0 w"
  "intact dir w0 (fst (mc_chmod M p n w)) = intact dir w0 w" "intact dir w0 (fst (mc_read_dir M p w)) = intact dir w0 w"
  "intact dir w0 (fst (mc_fetch_add M w)) = intact dir w0 w" "intact dir w0 (fst (host_sync (mc_host M) p w)) = intact dir w0 w"
  by (intro intact_same; simp add: lstat_files open_files chmod_files read_dir_files count_files sync_files)+

lemmas pin_rules = wp keeps_io keeps_io_opt keeps_observe

section \<open>Frames\<close>

lemma intact_directory: "keeps (intact dir w0) (management_directory M d)"
proof -
  have "intact dir w0 (fst (mc_mkdir_all M d n w))" if "intact dir w0 w" for n w
    using that mkdir_files unfolding intact_def by metis
  then show ?thesis
    unfolding management_directory_def sync_ancestor_def by (intro pin_rules) (simp_all add: quiet_intact)
qed

lemma drafting_publish: "keeps (drafting dir w0 t) (publish_pin M t p k)"
proof -
  have append: "drafting dir w0 t (fst (host_append (mc_host M) t b w))" if d: "drafting dir w0 t w" for b w
  proof -
    have "node (fst (host_append (mc_host M) t b w)) = node w" "\<forall>j. node w t \<noteq> Some j \<longrightarrow> data (fst (host_append (mc_host M) t b w)) j = data w j"
      using append_files by blast+
    then show ?thesis using d unfolding drafting_def intact_def by metis
  qed
  have sync: "drafting dir w0 t (fst (host_sync (mc_host M) t w)) = drafting dir w0 t w" for w
    by (rule drafting_same) (simp_all add: sync_files)
  have link: "drafting dir w0 t (fst (mc_link M t p w))" if d: "drafting dir w0 t w" for w
  proof -
    obtain w' r where l: "mc_link M t p w = (w', r)" by (metis surj_pair)
    show ?thesis
    proof (cases "r = Created")
      case True
      then have "node w p = None" "node w' = (node w)(p := node w t)" "data w' = data w" using linked l by blast+
      then have "node w' q = node w q" if "node w q = Some i" for q i using that by auto
      moreover have "node w' t = node w t" using \<open>node w' = (node w)(p := node w t)\<close> by simp
      ultimately have "drafting dir w0 t w'" using d \<open>data w' = data w\<close> unfolding drafting_def intact_def by metis
      then show ?thesis using l by simp
    next
      case False
      then show ?thesis using not_linked[OF l False] d l drafting_same[of w' w dir w0 t] by simp
    qed
  qed
  show ?thesis
    unfolding publish_pin_def
    by (intro pin_rules) (auto simp: sync append link intro: wp split: create_end.split)
qed

lemma drafted_removed: "drafting dir w0 t w \<Longrightarrow> intact dir w0 (fst (host_remove (mc_host M) t w))"
  using remove_files[of t w] unfolding drafting_def intact_def by (auto simp: tracked_def)

lemma intact_new: "keeps (intact dir w0) (new_pin M d p k)"
proof -
  have made: "triple (intact dir w0) (io Pin_Io (host_create_new (mc_host M) t)) (\<lambda>_. drafting dir w0 t) (\<lambda>_. intact dir w0)" for t
  proof (rule triple_io)
    fix w w' u assume i: "intact dir w0 w" and c: "host_create_new (mc_host M) t w = (w', Io_Ok u)"
    then obtain j where j: "node w t = None" "j \<notin> ran (node w)" "node w' = (node w)(t \<mapsto> j)" "\<forall>k. k \<noteq> j \<longrightarrow> data w' k = data w k"
      using create_new_file[of t w w'] by auto
    have "q \<noteq> t \<and> l \<noteq> j" if "tracked node dir w0 q l" for q l
      using i that j(1,2) unfolding intact_def by (auto simp: ran_def)
    then have new: "q \<noteq> t" "l \<noteq> j" if "tracked node dir w0 q l" for q l using that by auto
    have "node w' q = node w q" "data w' l = data w l" if "tracked node dir w0 q l" for q l
      using new[OF that] j(3,4) by simp_all
    moreover have "node w' t \<noteq> Some l" if "tracked node dir w0 q l" for q l using new[OF that] j(3) by simp
    ultimately show "drafting dir w0 t w'" using i new unfolding drafting_def intact_def by metis
  next
    fix w w' assume "intact dir w0 w" "host_create_new (mc_host M) t w = (w', Missing) \<or> host_create_new (mc_host M) t w = (w', Io_Failed)"
    then have "node w' = node w" "data w' = data w" using create_failed[of t w w'] by auto
    then show "intact dir w0 w'" using intact_same[of w' w dir w0] \<open>intact dir w0 w\<close> by simp
  qed
  have "triple (drafting dir w0 t) (then_remove M t (publish_pin M t p k)) (\<lambda>_. intact dir w0) (\<lambda>_. intact dir w0)" for t
  proof -
    have "intact dir w0 (fst (then_remove M t (publish_pin M t p k) w))" if "drafting dir w0 t w" for w
      using drafted_removed[of dir w0 t "fst (publish_pin M t p k w)"] drafting_publish[of dir w0 t p k] that
      by (simp add: keeps_def then_remove_def case_prod_unfold)
    then show ?thesis
      by (simp add: triple_def) (metis (no_types, lifting) fst_conv prod.case_eq_if sum.case_eq_if)
  qed
  then have rest: "keeps (intact dir w0) (bnd (io Pin_Io (host_create_new (mc_host M) t)) (\<lambda>_. then_remove M t (publish_pin M t p k)))"
    for t unfolding keeps_triple by (rule triple_bnd[OF made])
  show ?thesis
    unfolding new_pin_def temporary_path_def
    by (rule keeps_bnd, rule keeps_bnd, rule keeps_observe, simp add: quiet_intact, rule keeps_ret, rule rest)
qed

lemma intact_settle: "keeps (intact dir w0) (settle_pin M dir p m)"
proof -
  have remove: "intact dir w0 (fst (host_remove (mc_host M) (path_join dir name) w))" if "intact dir w0 w" "owned_name name" for name w
    using remove_files[of "path_join dir name" w] that unfolding intact_def by (auto simp: tracked_def left_over_def)
  have dropped: "keeps (intact dir w0) (drop_alias M dir m name)" for name
  proof (cases "owned_name name")
    case True
    then show ?thesis
      unfolding drop_alias_def by (simp, intro pin_rules) (auto simp: quiet_intact remove intro!: pin_rules)
  qed (simp add: drop_alias_def wp)
  show ?thesis
    unfolding settle_pin_def recover_aliases_def
    by (intro pin_rules dropped) (simp_all add: quiet_intact)
qed

lemma intact_check: "keeps (intact dir w0) (check_pin M dir p k)"
  unfolding check_pin_def stored_key_def by (intro pin_rules intact_settle) (simp_all add: quiet_intact)

lemma intact_pin: "keeps (intact dir w0) (pin_host M C dir host port k)"
  unfolding pin_host_def Let_def by (intro pin_rules intact_directory intact_new intact_check) (simp add: quiet_intact)

section \<open>The stored key\<close>

lemma checked_key:
  assumes c: "check_pin M dir p k w = (w', Inr ())" and p: "\<not> left_over dir p"
  shows "\<exists>i. node w' p = Some i \<and> data w' i = bytes_of_str k"
proof -
  obtain w1 m w2 where m: "mc_lstat M p w = (w1, Io_Ok m)" "safe_pin_metadata m"
    and s: "stored_key M p m w1 = (w2, Inr k)" and settle: "settle_pin M dir p m w2 = (w', Inr ())"
    using c by (auto simp: check_pin_def bnd_Inr io_def require_def throw_def ret_def split: prod.splits io.splits if_splits)
  obtain o1 content where op: "mc_open_file M p w1 = (w2, Io_Ok (o1, content))" "nm_inode o1 = nm_inode m"
    "text_of (take 129 content) = Some k"
    using s by (auto simp: stored_key_def bnd_Inr io_def require_def throw_def ret_def lift_def ok_or_def
        split: prod.splits io.splits if_splits option.splits)
  have "node w1 = node w" "data w1 = data w" using lstat_files[of p w] m(1) by simp_all
  moreover have "node w2 = node w1" "data w2 = data w1" using open_files[of p w1] op(1) by simp_all
  moreover have "content = data w1 (nm_inode m)" using open_found[OF op(1)] op(2) by simp
  moreover have "node w p = Some (nm_inode m)" "length (data w (nm_inode m)) \<le> 128"
    using lstat_found[OF m(1)] m(2) by (simp_all add: safe_pin_metadata_def)
  ultimately have at2: "node w2 p = Some (nm_inode m)" "data w2 (nm_inode m) = bytes_of_str k"
    using text_of_bytes[OF op(3)] by simp_all
  have "intact dir w2 w'" using intact_settle[of dir w2 p m] intact_refl[of dir w2] settle by (simp add: keeps_def) (metis fst_conv)
  then show ?thesis using at2 p unfolding intact_def tracked_def by metis
qed

lemma pinned_key:
  assumes "pin_host M C dir host port k w = (w', Inr ())"
  shows "\<exists>i. node w' (pin_path dir host port) = Some i \<and> data w' i = bytes_of_str k"
proof -
  obtain w1 where "check_pin M dir (pin_path dir host port) k w1 = (w', Inr ())"
    using assms by (auto simp: pin_host_def bnd_Inr Let_def)
  then show ?thesis using checked_key pin_not_left_over by blast
qed

end

text \<open>C40: pinning a host key leaves every file that was there, apart from left-over temporary names of its own, the
  same file with the same content, so a stored key is never replaced; and it succeeds only if afterwards
  the pin of the host is a file with exactly this key. A pin with another key is therefore refused.\<close>

theorem pinned_key_never_replaced:
  assumes "pin_laws M node data" and "pin_host M C dir host port k w = (w', r)"
  shows "(\<forall>q i. tracked node dir w q i \<longrightarrow> node w' q = Some i \<and> data w' i = data w i) \<and>
    (r = Inr () \<longrightarrow> (\<exists>i. node w' (pin_path dir host port) = Some i \<and> data w' i = bytes_of_str k)) \<and>
    (\<forall>i. node w (pin_path dir host port) = Some i \<longrightarrow> data w i \<noteq> bytes_of_str k \<longrightarrow> isl r)"
proof -
  have "pin_laws.intact node data dir w w'"
    using pin_laws.intact_pin[OF assms(1), of dir w C host port k] pin_laws.intact_refl[OF assms(1), of dir w] assms(2)
    by (simp add: keeps_def) (metis fst_conv)
  then have kept: "\<forall>q i. tracked node dir w q i \<longrightarrow> node w' q = Some i \<and> data w' i = data w i"
    by (simp add: pin_laws.intact_def[OF assms(1)])
  have ok: "\<exists>i. node w' (pin_path dir host port) = Some i \<and> data w' i = bytes_of_str k" if "r = Inr ()"
    using pin_laws.pinned_key[OF assms(1)] assms(2) that by blast
  have "isl r" if "node w (pin_path dir host port) = Some i" "data w i \<noteq> bytes_of_str k" for i
  proof (cases r)
    case (Inr u)
    have "tracked node dir w (pin_path dir host port) i" using that(1) pin_not_left_over by (simp add: tracked_def)
    then show ?thesis using kept ok Inr that(2) by auto
  qed simp
  then show ?thesis using kept ok by blast
qed

end
