(* ===== verification/Pin_Instance.thy ===== *)
theory Pin_Instance
  imports Pin_Safety Profile_Link
begin

text \<open>
  A file system that satisfies the contract of the pins, with directory entries, inodes and hard links, and the
  property of the pins applied on it.
\<close>

section \<open>The file system\<close>

record pin_machine =
  pn_entries :: "(string \<times> nat) list"
  pn_dirs :: "nat list"
  pn_data :: "nat \<Rightarrow> bytes"
  pn_count :: nat

definition pn_node :: "pin_machine \<Rightarrow> string \<Rightarrow> nat option" where
  "pn_node w = map_of (pn_entries w)"

definition pn_fresh :: "pin_machine \<Rightarrow> nat" where
  "pn_fresh w = Suc (sum_list (map snd (pn_entries w)))"

definition pn_drop :: "string \<Rightarrow> (string \<times> nat) list \<Rightarrow> (string \<times> nat) list" where
  "pn_drop p = filter (\<lambda>e. fst e \<noteq> p)"

definition pn_meta :: "pin_machine \<Rightarrow> nat \<Rightarrow> node_meta" where
  "pn_meta w i = \<lparr>nm_dir = i \<in> set (pn_dirs w), nm_file = i \<notin> set (pn_dirs w), nm_symlink = False,
     nm_mode = (if i \<in> set (pn_dirs w) then 0x41C0 else 0x8180), nm_links = length (filter (\<lambda>e. snd e = i) (pn_entries w)),
     nm_uid = 0, nm_inode = i, nm_len = length (pn_data w i)\<rparr>"

definition pin_files :: "pin_machine host" where
  "pin_files = \<lparr>
     host_now = (\<lambda>w. (w, 0)), host_random = (\<lambda>n w. (w, Some (replicate n 0))),
     host_exists = (\<lambda>p w. (w, pn_node w p \<noteq> None)), host_stat = (\<lambda>_ w. (w, Missing)),
     host_open = (\<lambda>_ w. (w, Missing)), host_read_text = (\<lambda>_ w. (w, Missing)),
     host_create_new = (\<lambda>p w.
       if pn_node w p = None
       then (w\<lparr>pn_entries := (p, pn_fresh w) # pn_entries w, pn_data := (pn_data w)(pn_fresh w := [])\<rparr>, Io_Ok ())
       else (w, Io_Failed)),
     host_truncate = (\<lambda>_ w. (w, Io_Failed)),
     host_append = (\<lambda>p b w.
       (case pn_node w p of None \<Rightarrow> (w, Missing) | Some i \<Rightarrow> (w\<lparr>pn_data := (pn_data w)(i := pn_data w i @ b)\<rparr>, Io_Ok ()))),
     host_sync = (\<lambda>_ w. (w, Io_Ok ())), host_rename = (\<lambda>_ _ w. (w, Io_Failed)),
     host_remove = (\<lambda>p w. if pn_node w p = None then (w, Missing) else (w\<lparr>pn_entries := pn_drop p (pn_entries w)\<rparr>, Io_Ok ()))\<rparr>"

definition pin_fs :: "pin_machine machine" where
  "pin_fs = \<lparr>mc_host = pin_files, mc_pid = 7,
     mc_lstat = (\<lambda>p w. (w, case pn_node w p of None \<Rightarrow> Missing | Some i \<Rightarrow> Io_Ok (pn_meta w i))),
     mc_chmod = (\<lambda>_ _ w. (w, Io_Ok ())),
     mc_fetch_add = (\<lambda>w. (w\<lparr>pn_count := pn_count w + 1\<rparr>, pn_count w)),
     mc_mkdir_all = (\<lambda>p _ w.
       if pn_node w p = None
       then (w\<lparr>pn_entries := (p, pn_fresh w) # pn_entries w, pn_dirs := pn_fresh w # pn_dirs w\<rparr>, Io_Ok ())
       else (w, Io_Ok ())),
     mc_link = (\<lambda>p q w.
       if pn_node w q \<noteq> None then (w, Already_There)
       else (case pn_node w p of None \<Rightarrow> (w, Not_Created) | Some i \<Rightarrow> (w\<lparr>pn_entries := (q, i) # pn_entries w\<rparr>, Created))),
     mc_read_dir = (\<lambda>_ w. (w, Io_Ok [])),
     mc_open_file = (\<lambda>p w. (w, case pn_node w p of None \<Rightarrow> Missing | Some i \<Rightarrow> Io_Ok (pn_meta w i, pn_data w i))),
     mc_create_lock = (\<lambda>_ w. (w, Not_Created)), mc_open_lock = (\<lambda>_ w. (w, Io_Failed)),
     mc_try_lock = (\<lambda>_ w. (w, Lock_Failed)), mc_command = (\<lambda>_ _ w. (w, Not_Run))\<rparr>"

lemma pn_node_simps:
  "pn_node (w\<lparr>pn_entries := (p, i) # pn_entries w\<rparr>) = (pn_node w)(p \<mapsto> i)" "pn_node (w\<lparr>pn_data := d\<rparr>) = pn_node w"
  "pn_node (w\<lparr>pn_count := n\<rparr>) = pn_node w" "pn_node (w\<lparr>pn_dirs := ds\<rparr>) = pn_node w"
  "pn_node (w\<lparr>pn_entries := pn_drop p (pn_entries w)\<rparr>) = (pn_node w)(p := None)"
proof -
  have "map_of (pn_drop p es) = (map_of es)(p := None)" for es :: "(string \<times> nat) list"
    by (induction es) (auto simp: pn_drop_def fun_eq_iff)
  then show "pn_node (w\<lparr>pn_entries := pn_drop p (pn_entries w)\<rparr>) = (pn_node w)(p := None)" by (simp add: pn_node_def)
qed (simp_all add: pn_node_def)

lemma pn_fresh_new: "pn_fresh w \<notin> ran (pn_node w)"
proof
  assume "pn_fresh w \<in> ran (pn_node w)"
  then obtain p where "(p, pn_fresh w) \<in> set (pn_entries w)" by (auto simp: ran_def pn_node_def dest: map_of_SomeD)
  then have "pn_fresh w \<in> set (map snd (pn_entries w))" by force
  then have "pn_fresh w \<le> sum_list (map snd (pn_entries w))" by (simp add: member_le_sum_list)
  then show False by (simp add: pn_fresh_def)
qed

interpretation demo_pins: pin_laws pin_fs pn_node pn_data
proof (unfold_locales, goal_cases)
  case (10 p w w')
  then show ?case
    using pn_fresh_new[of w] by (auto simp: pin_fs_def pin_files_def pn_node_simps split: if_splits)
qed (auto simp: pin_fs_def pin_files_def pn_node_simps pn_meta_def split: option.splits if_splits)

section \<open>A witness\<close>

definition empty_disk :: pin_machine where
  "empty_disk = \<lparr>pn_entries = [], pn_dirs = [], pn_data = (\<lambda>_. []), pn_count = 0\<rparr>"

definition key_of :: "string \<Rightarrow> string" where
  "key_of k = ''ssh-ed25519 '' @ k"

definition first_key :: string where
  "first_key = ''AAAAC3NzaC1lZDI1NTE5AAAAIEwCks2omLrfMrS1du13ol2Iwo4CoDhME50jxaLI7Mdq''"

definition other_key :: string where
  "other_key = ''AAAAC3NzaC1lZDI1NTE5AAAAIEwCks2omLrfMrS1du13ol2Iwo4CoDhME50jxaLI7MdQ''"

lemma plain_words:
  "list_all (\<lambda>c. ascii c \<and> \<not> ascii_space c) k \<Longrightarrow>
   words_of_chunks acc (map (\<lambda>c. [c]) (k @ rest)) = words_of_chunks (acc @ k) (map (\<lambda>c. [c]) rest)"
proof (induction k arbitrary: acc)
  case (Cons c k)
  have "\<not> is_whitespace [c]" using Cons.prems by (simp add: ascii_space_def)
  then show ?case using Cons by simp
qed simp

lemma parsed_key:
  assumes "list_all ascii_alphanumeric k" and "length k = 68" and "strip_prefix ''AAAAC3NzaC1lZDI1NTE5AAAAI'' k \<noteq> None"
  shows "parse_host_key (key_of k) = Inr ()"
proof -
  let ?kind = "''ssh-ed25519''"
  have plain: "list_all (\<lambda>c. ascii c \<and> \<not> ascii_space c) k" "list_all (\<lambda>c. ascii c \<and> \<not> ascii_space c) ?kind"
    using assms(1) alphanumeric_plain by (auto simp: list_all_iff ascii_space_def is_whitespace_def ascii_def)
  have split: "key_of k = ?kind @ CHR '' '' # k" by (simp add: key_of_def)
  have "list_all ascii (key_of k)" using plain by (simp add: split list_all_iff ascii_def)
  then have "split_whitespace (key_of k) = words_of_chunks [] (map (\<lambda>c. [c]) (key_of k))"
    by (simp add: split_whitespace_def char_chunks_ascii)
  also have "\<dots> = words_of_chunks ?kind ([CHR '' ''] # map (\<lambda>c. [c]) k)"
    unfolding split using plain_words[OF plain(2), of "[]" "CHR '' '' # k"] by simp
  also have "\<dots> = ?kind # words_of_chunks [] (map (\<lambda>c. [c]) k)" by (simp add: is_whitespace_def)
  also have "words_of_chunks [] (map (\<lambda>c. [c]) k) = [k]" using plain_words[OF plain(1), of "[]" "[]"] assms(2) by auto
  finally have w: "split_whitespace (key_of k) = [?kind, k]" .
  have "list_all host_key_char k" using assms(1) by (auto simp: host_key_char_def list_all_iff)
  then show ?thesis using assms(2,3) by (simp add: parse_host_key_def w)
qed

lemma demo_keys: "parse_host_key (key_of first_key) = Inr ()" "parse_host_key (key_of other_key) = Inr ()"
proof -
  have "list_all ascii_alphanumeric first_key" "list_all ascii_alphanumeric other_key" by code_simp+
  moreover have "length first_key = 68" "length other_key = 68" by (simp_all add: first_key_def other_key_def)
  moreover have "strip_prefix ''AAAAC3NzaC1lZDI1NTE5AAAAI'' first_key \<noteq> None" "strip_prefix ''AAAAC3NzaC1lZDI1NTE5AAAAI'' other_key \<noteq> None"
    by (simp_all add: first_key_def other_key_def)
  ultimately show "parse_host_key (key_of first_key) = Inr ()" "parse_host_key (key_of other_key) = Inr ()"
    using parsed_key by blast+
qed

definition demo_host :: string where
  "demo_host = show_ipv4 (octets_addr 203 0 113 10)"

lemma demo_text: "text_of (take 129 (bytes_of_str (key_of first_key))) = Some (key_of first_key)"
proof -
  have "utf8_valid (bytes_of_str (key_of first_key))" by code_simp
  moreover have "length (bytes_of_str (key_of first_key)) = 80" by (simp add: bytes_of_str_def first_key_def key_of_def)
  ultimately show ?thesis by (simp add: text_of_def)
qed

definition directory_disk :: pin_machine where
  "directory_disk = empty_disk\<lparr>pn_entries := [(''/etc/gofro'', 1)], pn_dirs := [1]\<rparr>"

lemma demo_directory:
  "management_directory pin_fs ''/etc/gofro'' empty_disk =
     (directory_disk, Inr ())"
proof -
  have "path_parent ''/etc/gofro'' = Some ''/etc''" "path_parent ''/etc'' = Some ''/''" "path_parent ''/'' = None" by code_simp+
  then have "ancestors ''/etc/gofro'' = [''/etc/gofro'', ''/etc'', ''/'']" by (simp add: ancestors.simps)
  then show ?thesis
    by (simp add: management_directory_def sync_ancestor_def pin_fs_def pin_files_def bnd_def io_def require_def ret_def
        empty_disk_def directory_disk_def pn_node_def pn_meta_def pn_fresh_def)
qed

lemma demo_new_pin:
  assumes "p \<noteq> ''/etc/gofro''" and "\<And>name. p \<noteq> path_join ''/etc/gofro'' (CHR ''.'' # name)"
  shows "new_pin pin_fs ''/etc/gofro'' p k directory_disk =
     (\<lparr>pn_entries = [(p, 2), (''/etc/gofro'', 1)], pn_dirs = [1], pn_data = (\<lambda>_. [])(2 := bytes_of_str k), pn_count = 1\<rparr>, Inr ())"
proof -
  have t: "path_join ''/etc/gofro'' name \<noteq> ''/etc/gofro''" for name by (simp add: path_join_def)
  show ?thesis
    using assms t t[symmetric]
    by (auto simp: new_pin_def temporary_path_def observe_def then_remove_def publish_pin_def bnd_def io_def ret_def
        pin_fs_def pin_files_def empty_disk_def directory_disk_def pn_node_def pn_fresh_def pn_drop_def fun_eq_iff)
qed

lemma demo_check:
  assumes "p \<noteq> ''/etc/gofro''" and "w = \<lparr>pn_entries = [(p, 2), (''/etc/gofro'', 1)], pn_dirs = [1],
      pn_data = (\<lambda>_. [])(2 := bytes_of_str (key_of first_key)), pn_count = n\<rparr>"
  shows "check_pin pin_fs ''/etc/gofro'' p (key_of first_key) w = (w, Inr ())"
proof -
  have "length (bytes_of_str (key_of first_key)) = 80" by (simp add: bytes_of_str_def first_key_def key_of_def)
  then show ?thesis
    using assms demo_text demo_keys(1)
    by (simp add: check_pin_def stored_key_def settle_pin_def safe_pin_metadata_def bnd_def io_def ret_def require_def lift_def
        ok_or_def pin_fs_def pin_files_def pn_node_def pn_meta_def)
qed

lemma first_pin:
  "\<exists>w. pin_host pin_fs std_env ''/etc/gofro'' demo_host 22 (key_of first_key) empty_disk = (w, Inr ())"
proof -
  let ?p = "pin_path ''/etc/gofro'' demo_host 22"
  have p: "?p \<noteq> ''/etc/gofro''" "\<And>name. ?p \<noteq> path_join ''/etc/gofro'' (CHR ''.'' # name)"
    by (simp_all add: pin_path_def path_join_def)
  have host: "canonical_ip std_env demo_host" by (simp add: canonical_ip_def demo_host_def parse_show_ipv4)
  have lstat: "mc_lstat pin_fs ?p directory_disk =
      (directory_disk, Missing)"
    using p(1) by (simp add: pin_fs_def pn_node_def directory_disk_def)
  show ?thesis
    by (simp add: pin_host_def bnd_def require_def ret_def host demo_keys lift_def demo_directory lstat io_opt_def Let_def
        demo_new_pin[OF p] demo_check[OF p(1) refl, simplified One_nat_def])
qed

theorem pinned_key_never_replaced_witness:
  "\<exists>w w' r i. pin_host pin_fs std_env ''/etc/gofro'' demo_host 22 (key_of first_key) empty_disk = (w, Inr ()) \<and>
     pin_host pin_fs std_env ''/etc/gofro'' demo_host 22 (key_of other_key) w = (w', r) \<and> isl r \<and>
     pn_node w' (pin_path ''/etc/gofro'' demo_host 22) = Some i \<and> pn_data w' i = bytes_of_str (key_of first_key)"
proof -
  let ?p = "pin_path ''/etc/gofro'' demo_host 22"
  obtain w where w: "pin_host pin_fs std_env ''/etc/gofro'' demo_host 22 (key_of first_key) empty_disk = (w, Inr ())"
    using first_pin by blast
  obtain w' r where r: "pin_host pin_fs std_env ''/etc/gofro'' demo_host 22 (key_of other_key) w = (w', r)" by (metis surj_pair)
  obtain i where i: "pn_node w ?p = Some i" "pn_data w i = bytes_of_str (key_of first_key)"
    using pinned_key_never_replaced[OF demo_pins.pin_laws_axioms w] by blast
  have "key_of first_key \<noteq> key_of other_key" by (simp add: key_of_def first_key_def other_key_def)
  then have "bytes_of_str (key_of first_key) \<noteq> bytes_of_str (key_of other_key)" by (metis str_of_bytes_of_str)
  moreover have "tracked pn_node ''/etc/gofro'' w ?p i" using i(1) pin_not_left_over by (simp add: tracked_def)
  ultimately show ?thesis
    using pinned_key_never_replaced[OF demo_pins.pin_laws_axioms r] i w r by metis
qed

end
