(* ===== verification/Network_Instance.thy ===== *)
theory Network_Instance
  imports Network_Safety Auth_Instance Profile_Link
begin

text \<open>
  A router that satisfies the contract of the relay, over the files of \<open>Auth_Instance\<close>: the configured MTU is
  known, the tunnel is down, and \<^verbatim>\<open>ip\<close> refuses every change. A server cannot be started, and the endpoint of the
  relay is the old one again.
\<close>

definition up_command :: "string list \<Rightarrow> command_end" where
  "up_command args =
     (if hd args = ''uci'' then Exited True (Some (''1379'' @ [CHR 0x0A]))
      else if hd args = ''ip'' then Exited False (Some [])
      else if take 1 (tl args) = [''status''] then Exited False (Some []) else Exited True (Some []))"

definition up_machine :: "panel_machine machine" where
  "up_machine = \<lparr>mc_host = panel_host, mc_pid = 1,
     mc_lstat = (\<lambda>_ w. (w, Missing)), mc_chmod = (\<lambda>_ _ w. (w, Io_Ok ())), mc_fetch_add = (\<lambda>w. (w, 0)),
     mc_mkdir_all = (\<lambda>_ _ w. (w, Io_Ok ())), mc_link = (\<lambda>_ _ w. (w, Not_Created)), mc_read_dir = (\<lambda>_ w. (w, Io_Ok [])),
     mc_open_file = (\<lambda>_ w. (w, Missing)), mc_create_lock = (\<lambda>_ w. (w, Created)), mc_open_lock = (\<lambda>_ w. (w, Io_Ok ())),
     mc_try_lock = (\<lambda>_ w. (w, Locked)), mc_command = (\<lambda>args _ w. (w, up_command args))\<rparr>"

interpretation up: relay_laws up_machine pm_files pm_time
proof (rule relay_laws.intro)
  show "host_laws (mc_host up_machine) pm_files pm_time" by (simp add: up_machine_def panel.host_laws_axioms)
  show "relay_laws_axioms up_machine pm_files"
    by unfold_locales (auto simp: up_machine_def panel_host_def put_file_def split: option.splits if_splits)
qed

definition old_endpoint :: panel_machine where
  "old_endpoint = \<lparr>pm_files = [RELAY_ENDPOINT_PATH \<mapsto> bytes_of_str ''old.example:8443''], pm_time = 5, pm_random = 0\<rparr>"

definition new_server :: server_profile where
  "new_server = \<lparr>sp_name = ''Home'', sp_emoji = [], sp_endpoint = ''new.example:8443'', sp_public_key = witness_key,
     client_tunnel_address = None, client_private_key = None, management = None\<rparr>"

lemma new_server_valid: "validate_server std_env new_server = Inr ()"
proof -
  have k: "wireguard_key witness_key"
    by (simp add: wireguard_key_def witness_key_def nth_append list_all_iff base64_char_def ascii_alphanumeric_def ascii_upper_def)
  have ep: "rsplit_once (CHR '':'') ''new.example:8443'' = Some (''new.example'', ''8443'')"
    by (simp add: rsplit_once_def)
  have asc: "list_all ascii ''new.example:8443''" by (simp add: ascii_def)
  have "validate_endpoint ''new.example:8443'' = Inr ()"
    using any_whitespace_ascii[OF asc]
    by (simp add: validate_endpoint_def ep parse_uint_def ascii_digit_def ascii_space_iff ascii_def ok_or_def)
  moreover have "validate_server_name ''Home'' = Inr ()"
    by (simp add: validate_server_name_def char_count_ascii ascii_def any_control_def is_control_def utf8_cont_def)
  moreover have "validate_emoji [] = Inr ()" by (simp add: validate_emoji_def any_control_def)
  ultimately show ?thesis
    using k by (simp add: validate_server_def validate_saved_server_def new_server_def validate_wireguard_key_def ep)
qed

definition new_endpoint :: bytes where
  "new_endpoint = bytes_of_str (''new.example:8443'' @ [CHR 0x0A])"

lemma new_server_prepared:
  "prepare_relay up_machine std_env new_server True old_endpoint = (old_endpoint\<lparr>pm_files := (pm_files old_endpoint)
     (RELAY_ENDPOINT_PATH \<mapsto> new_endpoint, with_extension RELAY_ENDPOINT_PATH ''restore.tmp'' := None)\<rparr>, Inr ())"
proof -
  have t: "with_extension RELAY_ENDPOINT_PATH ''restore.tmp'' \<noteq> RELAY_ENDPOINT_PATH" by code_simp
  have e: "bytes_of_str (sp_endpoint new_server @ [CHR 0x0A]) = new_endpoint" by (simp add: new_server_def new_endpoint_def)
  have "bytes_of_str ''old.example:8443'' \<noteq> new_endpoint"
    by (simp add: new_endpoint_def bytes_of_str_def)
  then show ?thesis
    using t new_server_valid e
    by (auto simp: prepare_relay_def bnd_def lift_def attempt_def io_def relay_active_def command_status_def
        write_relay_endpoint_def restore_file_def run_quietly_def run_command_def ret_def up_command_def Let_def
        up_machine_def panel_host_def put_file_def old_endpoint_def
        SERVICE_COMMAND_def RELAY_SERVICE_def fun_eq_iff)
qed

lemma up_steps:
  "configured_tunnel_mtu up_machine i w = (w, Inr 1379)" "service_active up_machine i w = (w, Inr False)"
  "set_tunnel up_machine i ''start'' w = (w, Inr ())" "stop_tunnel up_machine i w = (w, Inr ())"
  "run_quietly up_machine (''ip'' # args) w = (w, Inl (Command_Error (''ip'' # args)))"
proof -
  have "trim (''1379'' @ [CHR 0x0A]) = ''1379''" by (simp add: trim_ascii ascii_def ascii_space_iff)
  moreover have "char_of (49::nat) = CHR ''1''" "char_of (51::nat) = CHR ''3''" "char_of (55::nat) = CHR ''7''"
    "char_of (57::nat) = CHR ''9''" by code_simp+
  moreover from this have "parse_tunnel_mtu ''1379'' = Inr 1379"
    by (simp add: parse_tunnel_mtu_def parse_uint_def ascii_digit_def digits.simps MIN_TUNNEL_MTU_def TUNNEL_MTU_def
        MIN_UPLINK_MTU_def IPV4_UDP_OVERHEAD_def WIREGUARD_DATA_OVERHEAD_def RELAY_HEADER_SIZE_def RELAY_MAX_PADDING_def)
  ultimately show "configured_tunnel_mtu up_machine i w = (w, Inr 1379)"
    by (simp add: configured_tunnel_mtu_def run_command_def bnd_def up_command_def up_machine_def lift_def)
qed (simp_all add: service_active_def command_status_def set_tunnel_def stop_tunnel_def run_quietly_def run_command_def bnd_def ret_def
  up_command_def up_machine_def TUNNEL_COMMAND_def)

lemma up_restored: "\<exists>w'. restore_relay up_machine (Some b) w = (w', Inr ())"
proof -
  have "with_extension RELAY_ENDPOINT_PATH ''restore.tmp'' \<noteq> RELAY_ENDPOINT_PATH" by code_simp
  then show ?thesis
    by (simp add: restore_relay_def write_relay_endpoint_def restore_file_def bnd_def io_def Let_def run_quietly_def run_command_def
        ret_def up_command_def up_machine_def panel_host_def put_file_def SERVICE_COMMAND_def RELAY_SERVICE_def)
qed

theorem failed_start_restores_relay_witness:
  "\<exists>w' e. start_and_select up_machine std_env ''wg0'' new_server old_endpoint = (w', Inl (Command_Error e)) \<and>
     pm_files w' RELAY_ENDPOINT_PATH = Some (bytes_of_str ''old.example:8443'')"
proof -
  let ?old = "bytes_of_str ''old.example:8443''"
  have read: "read_optional up_machine RELAY_ENDPOINT_PATH old_endpoint = (old_endpoint, Inr (Some ?old))"
    by (simp add: read_optional_def bnd_def io_opt_def ret_def up_machine_def panel_host_def old_endpoint_def)
  obtain w where w: "prepare_relay up_machine std_env new_server True old_endpoint = (w, Inr ())"
    using new_server_prepared by blast
  obtain w' where w': "restore_relay up_machine (Some ?old) w = (w', Inr ())" using up_restored by blast
  obtain e where run1: "start_and_select up_machine std_env ''wg0'' new_server old_endpoint = (w', Inl (Command_Error e))"
    by (simp add: start_and_select_def start_body_def or_undo_def bnd_def up_steps read w w')
  have "pm_files old_endpoint RELAY_ENDPOINT_PATH = Some ?old" by (simp add: old_endpoint_def)
  then show ?thesis
    using failed_start_restores_relay[OF up.relay_laws_axioms run1] run1 by auto
qed

end
