(* ===== verification/Spec2Isabelle.thy ===== *)
theory Spec2Isabelle
  imports Relay_Server Kdf Geo_Encode Fake_Store Profile_Link Server_Instance Auth_Instance Controller_Instance Pin_Instance Network_Instance
begin

text \<open>
  Gofro Router: a router agent that sends the traffic of a LAN directly, through a VPN or through WARP by rules over
  names and addresses, a relay that carries WireGuard datagrams in obfuscated envelopes, and a tool that manages
  the peers of a server. Paths are under \<^verbatim>\<open>src/crates\<close> unless they start with another directory.

  \<^bold>\<open>How the program works.\<close> The controller (\<^verbatim>\<open>gofro-agent/src/controller.rs\<close>) holds the configuration. A change
  compiles the rules to a policy (\<^verbatim>\<open>routing.rs\<close>, with country and site lists from \<^verbatim>\<open>geodata.rs\<close>), puts a guard
  in the kernel that drops forwarded packets, drives tunnel and relay (\<^verbatim>\<open>network.rs\<close>), loads the packet rules
  (\<^verbatim>\<open>dataplane.rs\<close>), saves the file (\<^verbatim>\<open>config.rs\<close>) and drops the guard, or rolls back. The resolver
  (\<^verbatim>\<open>fake_dns/resolver.rs\<close>) looks names up along the path of their connections and answers with fake addresses
  leased in \<^verbatim>\<open>fake_dns/store.rs\<close>, which the packet rules translate back. The panel is behind the login of
  \<^verbatim>\<open>auth.rs\<close> and \<^verbatim>\<open>onboarding.rs\<close>; servers are reached over SSH with the host keys pinned by
  \<^verbatim>\<open>managed/pins.rs\<close>. The server tool (\<^verbatim>\<open>gofro-server\<close>) changes the peers of WireGuard and its own metadata and
  prints the profiles that the agent imports. The relay (\<^verbatim>\<open>gofro-relay\<close>) has a client and a server loop.

  \<^bold>\<open>Theories.\<close>
  \<^item> Shared: \<open>Prelude\<close>, \<open>Std_Str\<close>, \<open>Std_Char\<close> (strings are lists of UTF-8 bytes), \<open>Fallible\<close> (operations on a state
    with an error sum, the triples \<open>triple\<close> and \<open>keeps\<close> and their rules \<open>wp\<close>), \<open>Ipnet\<close>, \<open>Model\<close> (\<^verbatim>\<open>model.rs\<close>).
  \<^item> Relay: \<open>Relay_Codec\<close> (\<^verbatim>\<open>codec.rs\<close>, \<^verbatim>\<open>lib.rs\<close>), \<open>Relay_Client\<close> (\<^verbatim>\<open>batch.rs\<close>, \<^verbatim>\<open>client.rs\<close>), \<open>Relay_Server\<close>
    (\<^verbatim>\<open>server.rs\<close>). Shown: round trip and rejection of envelopes, the packet budget, order through the pipeline, and
    over all runs of the server the bound, the keys and the separation of sessions.
  \<^item> \<open>Kdf\<close> (\<^verbatim>\<open>gofro-kdf\<close>): the checkpointed scrypt is that of RFC 7914 with the full table.
  \<^item> Geodata: \<open>Geo_Wire\<close>, \<open>Geo_Data\<close>, \<open>Geo_Ranges\<close>, \<open>Geo_Encode\<close>: the bounded protobuf reader, the catalogue and its
    memory budget, aggregation and intervals, against a reference encoder.
  \<^item> Policy and packets: \<open>Routing\<close>, \<open>Nft\<close> (the part of nftables that is written, with its text and its meaning on a
    packet), \<open>Dataplane\<close>, \<open>Dataplane_Host\<close>, \<open>Script_Types\<close>, \<open>Table_Rules\<close>: the loaded rules implement the policy,
    every script is well typed, the guard drops what it must, the startup ends guarded.
  \<^item> FakeDNS: \<open>Fake_Store\<close>, \<open>Resolver\<close>, \<open>Dns_Names\<close>, \<open>Dns_Answers\<close>: memory, SQL rows and kernel agree over all runs and
    failures; lookups leave by the route of their name; answers translate back.
  \<^item> Agent state: \<open>Config\<close>, \<open>Config_File\<close>, \<open>Agent_Host\<close>, \<open>Auth\<close>, \<open>Auth_Safety\<close>, \<open>Auth_Guard\<close>, \<open>Onboarding\<close>, \<open>Pins\<close>,
    \<open>Pin_Safety\<close>, \<open>Network\<close>, \<open>Network_Safety\<close>: normal forms, sessions over all interleavings, the credential file,
    pins that are never replaced, the relay endpoint after a failed start.
  \<^item> Controller: \<open>Controller\<close> and \<open>Controller_Ops\<close> (\<^verbatim>\<open>controller.rs\<close> and \<^verbatim>\<open>controller/\<close>), \<open>Controller_View\<close>,
    \<open>Controller_Steps\<close>, \<open>Controller_Safety\<close>, \<open>Controller_Edits\<close>, \<open>Controller_Runs\<close>: every operation is atomic for
    forwarding, and over all runs the LAN is forwarded by the rules in force or by nothing.
  \<^item> Server tool: \<open>Wireguard_Status\<close>, \<open>Friend_Store\<close>, \<open>Server_Core\<close>, \<open>Server_World\<close>, \<open>Server_Managed\<close>, \<open>Server_Main\<close>,
    \<open>Server_Safety\<close>, \<open>Server_Metadata\<close>, \<open>Profile_Link\<close>: failed commands restore the live configuration (with the
    commands that have no rollback named by \<open>own_steps\<close>), the metadata stays valid, and profiles are read back.
  \<^item> \<open>Server_Instance\<close>, \<open>Auth_Instance\<close>, \<open>Dns_Instance\<close>, \<open>Controller_Instance\<close>, \<open>Pin_Instance\<close>, \<open>Network_Instance\<close>: machines on
    which the contracts hold together, the interpretations of the locales, and the properties applied there.

  \<^bold>\<open>Contracts.\<close> What is not code of the repository is a parameter: records of operations (\<open>sys\<close>, \<open>host\<close>, \<open>machine\<close>,
  \<open>nft_host\<close>, \<open>sockets\<close>, \<open>fake_db\<close>, \<open>dns_lib\<close>, \<open>store_json\<close>, \<open>ipnet\<close>), with locales for their documented behaviour.
  External programs may do anything that their contract does not exclude: the programs that the agent runs
  (\<open>agent_programs\<close> and the mode command) do not write the ruleset, those of the server tool (\<open>tool_programs\<close>) do
  not write the metadata, and only the commands of \<open>read_only\<close> keep the live configuration of WireGuard. An \<^verbatim>\<open>nft\<close>
  run that is not accepted leaves the ruleset as it was, since a script is one transaction of the kernel.

  \<^bold>\<open>Bounds and fuel.\<close> There is no fuel. Loops that end are recursive functions; the search for alias names is a
  \<open>while_option\<close>, shown to end (\<open>Dns_Names\<close>), as is the search for a free lease below the limit.
  Loops that serve for ever are one step and a relation or a list of steps. Machine words keep their width.

  \<^bold>\<open>Limits.\<close> The model is sequential: locks are facts of the state (poisoned or not), and handlers of the panel are
  split where they await. Writers outside the agent are not steps of its runs. One of them matters: the guard helper
  (\<^verbatim>\<open>src/deploy/openwrt/root/usr/libexec/gofro/guard\<close>), which the init scripts run at boot, before the agent starts and
  when it stops, arms the guard and takes the DNS redirection away with \<^verbatim>\<open>nft -f\<close>. It holds the lock that every
  operation takes (\<open>lock_apply\<close>) and forwards no more than before, but what the properties of the controller say of
  the ruleset holds from the first state in force to the next run of it. \<open>set_auto_update\<close> follows the code in not
  treating a save that was published but not synced specially. IPv6 texts and regular expressions are parameters.

  \<^bold>\<open>Not modelled.\<close> The SSH client and the bootstrap of a server (process handling around remote scripts), the HTTP
  routes and TLS of the panel, the threads and sockets of the DNS server around \<open>process\<close>, the read-only views of
  devices and statistics, the command lines, and the shell scripts under \<^verbatim>\<open>src/deploy\<close>.

  \<^bold>\<open>What modelling showed.\<close> A plain \<^verbatim>\<open>remove-peer\<close> has no rollback (\<open>plain_removal_not_rolled_back\<close>), and the
  server tool prints profiles for IPv6 endpoints that the agent refuses (\<open>Profile_Link\<close>).
\<close>

end
